(* ===== verification/Prelude.thy ===== *)
theory Prelude
  imports Main "HOL-Library.Word" "HOL-Library.List_Lexorder" "HOL-Library.Char_ord"
    "HOL-Library.Sublist"
begin

text \<open>
  What the components share: the machine types, fallible and stateful results with their
  sequencing, the ordered map of the Rust standard library (\<open>BTreeMap\<close>) as a sorted association
  list behind the interface \<open>ordered_map\<close>, the hash map as an association list, and the hash set
  as a list without repetitions.

  Overflow: the arithmetic of \<open>u64\<close> and \<open>usize\<close> values is that of the release profile, which
  wraps (\<open>Cargo.toml\<close> sets no \<open>overflow-checks\<close>).
\<close>

named_theorems res_simps \<open>inversion of results and of sequenced computations\<close>
named_theorems map_laws \<open>lookup laws of the ordered maps and hash maps\<close>

section \<open>Machine types\<close>

type_synonym u64 = "64 word"
type_synonym byte = "8 word"
type_synonym bytes = "byte list"

lemma u64_less_Suc: "(t::u64) \<noteq> - 1 \<Longrightarrow> t < t + 1"
  by (meson inc_less_eq_triv_imp linorder_not_le)

section \<open>Fallible and stateful results\<close>

text \<open>
  A Rust \<open>Result<T, E>\<close> is \<open>'e + 'a\<close>. A computation that changes a state (the world of external
  services, a mount) is \<open>'s \<Rightarrow> ('e + 'a) \<times> 's\<close>: an early return with \<open>?\<close> keeps the changes made
  before it, so the state is returned on the error branch too.
\<close>

definition bindR :: "'e + 'a \<Rightarrow> ('a \<Rightarrow> 'e + 'b) \<Rightarrow> 'e + 'b" where
  "bindR r f = (case r of Inl e \<Rightarrow> Inl e | Inr x \<Rightarrow> f x)"

definition bindS :: "('s \<Rightarrow> ('e + 'a) \<times> 's) \<Rightarrow> ('a \<Rightarrow> 's \<Rightarrow> ('e + 'b) \<times> 's) \<Rightarrow> 's \<Rightarrow> ('e + 'b) \<times> 's" where
  "bindS m f s = (case m s of (Inl e, s') \<Rightarrow> (Inl e, s') | (Inr x, s') \<Rightarrow> f x s')"

definition liftR :: "'e + 'a \<Rightarrow> 's \<Rightarrow> ('e + 'a) \<times> 's" where
  "liftR r s = (r, s)"

definition mapS_err :: "('e \<Rightarrow> 'f) \<Rightarrow> ('s \<Rightarrow> ('e + 'a) \<times> 's) \<Rightarrow> 's \<Rightarrow> ('f + 'a) \<times> 's" where
  "mapS_err g m s = (case m s of (Inl e, s') \<Rightarrow> (Inl (g e), s') | (Inr x, s') \<Rightarrow> (Inr x, s'))"

definition map_err :: "('e \<Rightarrow> 'f) \<Rightarrow> 'e + 'a \<Rightarrow> 'f + 'a" where
  "map_err g r = (case r of Inl e \<Rightarrow> Inl (g e) | Inr x \<Rightarrow> Inr x)"

definition ok_or :: "'e \<Rightarrow> 'a option \<Rightarrow> 'e + 'a" where
  "ok_or e x = (case x of None \<Rightarrow> Inl e | Some v \<Rightarrow> Inr v)"

lemma bindR_simps [simp]: "bindR (Inl e) f = Inl e" "bindR (Inr x) f = f x"
  by (simp_all add: bindR_def)

lemma bindR_Inr [res_simps]: "bindR r f = Inr y \<longleftrightarrow> (\<exists>x. r = Inr x \<and> f x = Inr y)"
  by (cases r) auto

lemma bindS_Inr [res_simps]:
  "bindS m f s = (Inr y, s'') \<longleftrightarrow> (\<exists>x s'. m s = (Inr x, s') \<and> f x s' = (Inr y, s''))"
  by (auto simp: bindS_def split: prod.splits sum.splits)

lemma liftR_eq [res_simps]: "liftR r s = (r', s') \<longleftrightarrow> r = r' \<and> s' = s"
  by (auto simp: liftR_def)

lemma mapS_err_Inr [res_simps]: "mapS_err g m s = (Inr x, s') \<longleftrightarrow> m s = (Inr x, s')"
  by (auto simp: mapS_err_def split: prod.splits sum.splits)

lemma map_err_simps [simp]: "map_err g (Inl e) = Inl (g e)" "map_err g (Inr x) = Inr x"
  by (simp_all add: map_err_def)

lemma map_err_Inr [res_simps]: "map_err g r = Inr x \<longleftrightarrow> r = Inr x"
  by (cases r) auto

lemma ok_or_simps [simp]: "ok_or e None = Inl e" "ok_or e (Some v) = Inr v"
  by (simp_all add: ok_or_def)

lemma ok_or_Inr [res_simps]: "ok_or e x = Inr v \<longleftrightarrow> x = Some v"
  by (cases x) auto

section \<open>Ordered maps (\<open>BTreeMap\<close>)\<close>

text \<open>
  A \<open>BTreeMap<K, V>\<close> is the list of its entries in the order of an iteration: keys strictly
  ascending. \<open>get\<close> is \<open>map_of\<close>, \<open>contains_key\<close> is membership among the keys, \<open>values\<close> is
  \<open>map snd\<close>. Equal maps have equal lists, so map equality is \<open>=\<close>.
\<close>

type_synonym ('k, 'v) btree = "('k \<times> 'v) list"

definition bt_ok :: "('k::linorder, 'v) btree \<Rightarrow> bool" where
  "bt_ok m \<longleftrightarrow> sorted_wrt (<) (map fst m)"

fun bt_insert :: "'k::linorder \<Rightarrow> 'v \<Rightarrow> ('k, 'v) btree \<Rightarrow> ('k, 'v) btree" where
  "bt_insert k v [] = [(k, v)]"
| "bt_insert k v (e # m) =
     (if k < fst e then (k, v) # e # m
      else if fst e < k then e # bt_insert k v m
      else (k, v) # m)"

definition bt_remove :: "'k::linorder \<Rightarrow> ('k, 'v) btree \<Rightarrow> ('k, 'v) btree" where
  "bt_remove k m = filter (\<lambda>e. fst e \<noteq> k) m"

abbreviation bt_get :: "('k, 'v) btree \<Rightarrow> 'k \<Rightarrow> 'v option" where
  "bt_get \<equiv> map_of"

abbreviation bt_keys :: "('k, 'v) btree \<Rightarrow> 'k set" where
  "bt_keys m \<equiv> fst ` set m"

lemma bt_ok_Nil [simp]: "bt_ok []"
  by (simp add: bt_ok_def)

lemma bt_ok_Cons [simp]: "bt_ok (e # m) \<longleftrightarrow> (\<forall>e' \<in> set m. fst e < fst e') \<and> bt_ok m"
  by (simp add: bt_ok_def)

lemma bt_ok_distinct: "bt_ok m \<Longrightarrow> distinct (map fst m)"
  by (simp add: bt_ok_def strict_sorted_iff)

lemma set_bt_insert: "bt_ok m \<Longrightarrow> set (bt_insert k v m) = insert (k, v) {e \<in> set m. fst e \<noteq> k}"
  by (induction m) auto

lemma bt_insert_ok: "bt_ok m \<Longrightarrow> bt_ok (bt_insert k v m)"
  by (induction m) (auto simp: set_bt_insert)

lemma bt_get_insert: "bt_get (bt_insert k v m) = (bt_get m)(k \<mapsto> v)"
  by (induction m) (auto simp: fun_eq_iff)

lemma bt_remove_ok: "bt_ok m \<Longrightarrow> bt_ok (bt_remove k m)"
  by (induction m) (auto simp: bt_remove_def)

lemma bt_get_remove: "bt_get (bt_remove k m) = (bt_get m)(k := None)"
  by (induction m) (auto simp: bt_remove_def fun_eq_iff)

lemma bt_get_in: "bt_ok m \<Longrightarrow> bt_get m k = Some v \<longleftrightarrow> (k, v) \<in> set m"
  by (simp add: bt_ok_distinct)

lemma bt_get_None: "bt_get m k = None \<longleftrightarrow> k \<notin> bt_keys m"
  by (rule map_of_eq_None_iff)

text \<open>The representation is canonical: what a lookup returns determines the map.\<close>

lemma bt_get_inject:
  assumes "bt_ok m" and "bt_ok n" and "bt_get m = bt_get n"
  shows "m = n"
proof -
  have set: "set m = set n"
    using assms by (auto simp flip: bt_get_in)
  then have "map fst m = map fst n"
    using assms by (intro strict_sorted_equal) (simp_all add: bt_ok_def)
  moreover have "inj_on fst (set m \<union> set n)"
    using assms(2) set bt_ok_distinct [of n] by (simp add: distinct_map)
  ultimately show ?thesis
    by (rule map_inj_on)
qed

text \<open>
  The interface the components use: an ordered map is known by what it looks up and by its
  invariant. The laws of clients are proved from it once.
\<close>

locale ordered_map =
  fixes ok :: "'m \<Rightarrow> bool"
    and get :: "'m \<Rightarrow> 'k \<Rightarrow> 'v option"
    and ins :: "'k \<Rightarrow> 'v \<Rightarrow> 'm \<Rightarrow> 'm"
    and del :: "'k \<Rightarrow> 'm \<Rightarrow> 'm"
  assumes ins_ok: "ok m \<Longrightarrow> ok (ins k v m)"
    and del_ok: "ok m \<Longrightarrow> ok (del k m)"
    and get_ins: "get (ins k v m) = (get m)(k \<mapsto> v)"
    and get_del: "get (del k m) = (get m)(k := None)"
    and ext: "ok m \<Longrightarrow> ok n \<Longrightarrow> get m = get n \<Longrightarrow> m = n"
begin

lemma ins_commute:
  "ok m \<Longrightarrow> k \<noteq> l \<Longrightarrow> ins k v (ins l w m) = ins l w (ins k v m)"
  by (rule ext) (auto simp: ins_ok get_ins fun_upd_twist)

lemma ins_overwrite: "ok m \<Longrightarrow> ins k v (ins k w m) = ins k v m"
  by (rule ext) (auto simp: ins_ok get_ins)

lemma ins_same: "ok m \<Longrightarrow> get m k = Some v \<Longrightarrow> ins k v m = m"
  by (rule ext) (auto simp: ins_ok get_ins)

lemma del_ins: "ok m \<Longrightarrow> get m k = None \<Longrightarrow> del k (ins k v m) = m"
  by (rule ext) (auto simp: ins_ok del_ok get_ins get_del)

lemma ins_del: "ok m \<Longrightarrow> get m k = Some v \<Longrightarrow> ins k v (del k m) = m"
  by (rule ext) (auto simp: ins_ok del_ok get_ins get_del)

end

interpretation bt: ordered_map bt_ok bt_get bt_insert bt_remove
  by unfold_locales (auto intro: bt_insert_ok bt_remove_ok bt_get_inject
      simp: bt_get_insert bt_get_remove)

lemmas bt_laws [map_laws] = bt_get_insert bt_get_remove bt_insert_ok bt_remove_ok

lemma bt_keys_insert: "bt_ok m \<Longrightarrow> bt_keys (bt_insert k v m) = insert k (bt_keys m)"
  by (force simp: set_bt_insert)

lemma bt_length_insert:
  "bt_ok m \<Longrightarrow> length (bt_insert k v m) = (if k \<in> bt_keys m then length m else Suc (length m))"
  by (induction m) (auto dest: order.strict_trans)

end
