(* ===== verification/Linked_Data.thy ===== *)
theory Linked_Data
  imports Prelude
begin

text \<open>
  \<open>common/src/linked_data\<close>: content hashes, CIDs and links (\<open>link.rs\<close>), the codec constants and
  the codec errors (\<open>ipld.rs\<close>). A \<open>Link\<close> wraps a version-1 CID whose multihash is Blake3; the
  model keeps the codec and the digest, which is all that \<open>Link::new\<close> puts in and all that
  equality, ordering and hashing of the CIDs of such links see.
\<close>

type_synonym hash = bytes

definition LD_RAW_CODEC :: u64 where "LD_RAW_CODEC = 0x55"
definition LD_CBOR_CODEC :: u64 where "LD_CBOR_CODEC = 0x71"
definition BLAKE3_HASH_CODE :: u64 where "BLAKE3_HASH_CODE = 0x1e"

datatype codec_error = EncodeError | DecodeError

text \<open>A CID as the links read it: content codec, multihash code and digest.\<close>

record cid =
  cid_codec :: u64
  cid_code :: u64
  cid_digest :: bytes

datatype link = Link (link_codec: u64) (link_hash: hash)

definition link_new :: "u64 \<Rightarrow> hash \<Rightarrow> link" where
  "link_new codec h = Link codec h"

definition link_default :: link where
  "link_default = link_new LD_RAW_CODEC (replicate 32 0)"

definition link_to_cid :: "link \<Rightarrow> cid" where
  "link_to_cid l = \<lparr>cid_codec = link_codec l, cid_code = BLAKE3_HASH_CODE, cid_digest = link_hash l\<rparr>"

text \<open>\<open>From<Cid> for Link\<close>; the left summand is the panic message.\<close>

definition link_from_cid :: "cid \<Rightarrow> string + link" where
  "link_from_cid c =
     (if cid_code c \<noteq> BLAKE3_HASH_CODE then Inl ''invalid hash code''
      else if cid_codec c \<noteq> LD_RAW_CODEC \<and> cid_codec c \<noteq> LD_CBOR_CODEC
      then Inl ''unsupported codec''
      else Inr (Link (cid_codec c) (cid_digest c)))"

text \<open>The derived order of links: codec first, then the digest bytes.\<close>

instantiation link :: linorder
begin

definition less_eq_link :: "link \<Rightarrow> link \<Rightarrow> bool" where
  "less_eq_link a b \<longleftrightarrow> link_codec a < link_codec b \<or>
     link_codec a = link_codec b \<and> link_hash a \<le> link_hash b"

definition less_link :: "link \<Rightarrow> link \<Rightarrow> bool" where
  "less_link a b \<longleftrightarrow> a \<le> b \<and> \<not> b \<le> (a::link)"

instance
proof
  fix a b c :: link
  show "a < b \<longleftrightarrow> a \<le> b \<and> \<not> b \<le> a" by (rule less_link_def)
  show "a \<le> a" by (simp add: less_eq_link_def)
  show "a \<le> b \<Longrightarrow> b \<le> c \<Longrightarrow> a \<le> c" by (auto simp: less_eq_link_def)
  show "a \<le> b \<or> b \<le> a" by (auto simp: less_eq_link_def)
  show "a \<le> b \<Longrightarrow> b \<le> a \<Longrightarrow> a = b"
    by (auto simp: less_eq_link_def intro: link.expand)
qed

end

lemma link_new_sel [simp]: "link_codec (link_new c h) = c" "link_hash (link_new c h) = h"
  by (simp_all add: link_new_def)

lemma link_cid_roundtrip:
  "link_codec l \<in> {LD_RAW_CODEC, LD_CBOR_CODEC} \<Longrightarrow> link_from_cid (link_to_cid l) = Inr l"
  by (auto simp: link_from_cid_def link_to_cid_def intro: link.expand)

end
