(* ===== verification/Crypto.thy ===== *)
theory Crypto
  imports Linked_Data
begin

text \<open>
  \<open>common/src/crypto\<close>: keys (\<open>keys.rs\<close>), content encryption (\<open>secret.rs\<close>) and the sharing of a
  bucket secret with a recipient (\<open>secret_share.rs\<close>).

  The primitives come from other crates (\<open>getrandom\<close>, \<open>blake3\<close>, \<open>chacha20poly1305\<close>, \<open>iroh\<close>,
  \<open>ed25519_dalek\<close>, \<open>curve25519_dalek\<close>, \<open>x25519_dalek\<close>, \<open>aes_kw\<close>, \<open>hex\<close>). They are the fields of
  the record \<open>crypto_ext\<close>, an argument of every definition that uses them; \<open>crypto_laws\<close> states
  the documented behaviour the properties rely on. The type variable \<open>'w\<close> is the world outside
  the process (random source, blob store, network), which the primitives may change.
\<close>

type_synonym secret = bytes
type_synonym public_key = bytes
type_synonym secret_key = bytes
type_synonym signature = bytes
type_synonym secret_share = bytes

definition NONCE_SIZE :: nat where "NONCE_SIZE = 12"
definition SECRET_SIZE :: nat where "SECRET_SIZE = 32"
definition BLAKE3_HASH_SIZE :: nat where "BLAKE3_HASH_SIZE = 32"
definition PUBLIC_KEY_SIZE :: nat where "PUBLIC_KEY_SIZE = 32"
definition PRIVATE_KEY_SIZE :: nat where "PRIVATE_KEY_SIZE = 32"
definition KW_NONCE_SIZE :: nat where "KW_NONCE_SIZE = 8"

definition SECRET_SHARE_SIZE :: nat where
  "SECRET_SHARE_SIZE = PUBLIC_KEY_SIZE + SECRET_SIZE + KW_NONCE_SIZE"

lemmas crypto_sizes [simp] = NONCE_SIZE_def SECRET_SIZE_def BLAKE3_HASH_SIZE_def
  PUBLIC_KEY_SIZE_def PRIVATE_KEY_SIZE_def KW_NONCE_SIZE_def SECRET_SHARE_SIZE_def

record 'w crypto_ext =
  getrandom :: "nat \<Rightarrow> 'w \<Rightarrow> bytes option \<times> 'w"
  blake3 :: "bytes \<Rightarrow> bytes"
  chacha_encrypt :: "bytes \<Rightarrow> bytes \<Rightarrow> bytes \<Rightarrow> bytes option"
  chacha_decrypt :: "bytes \<Rightarrow> bytes \<Rightarrow> bytes \<Rightarrow> bytes option"
  ed_point :: "bytes \<Rightarrow> bool"
  ed_public :: "bytes \<Rightarrow> bytes"
  ed_sign :: "bytes \<Rightarrow> bytes \<Rightarrow> bytes"
  ed_verify :: "bytes \<Rightarrow> bytes \<Rightarrow> bytes \<Rightarrow> bool"
  to_montgomery :: "bytes \<Rightarrow> bytes option"
  x25519_dh :: "bytes \<Rightarrow> bytes \<Rightarrow> bytes"
  kw_wrap :: "bytes \<Rightarrow> bytes \<Rightarrow> bytes option"
  kw_unwrap :: "bytes \<Rightarrow> bytes \<Rightarrow> bytes option"
  hex_encode :: "bytes \<Rightarrow> string"
  hex_decode :: "string \<Rightarrow> bytes option"

text \<open>
  Documented behaviour of the primitives: random data has the length asked for, Blake3 digests
  have 32 bytes, authenticated encryption and key wrapping are undone with the key that did them,
  public keys are 32-byte curve points, X25519 agrees on both sides, a signature verifies under
  the signer's public key, hexadecimal text decodes to the bytes it was made from and does not
  start with \<open>0x\<close> (its second character is a digit).
\<close>

definition crypto_laws :: "('w, 'z) crypto_ext_scheme \<Rightarrow> bool" where
  "crypto_laws E \<longleftrightarrow>
     (\<forall>n w b w'. getrandom E n w = (Some b, w') \<longrightarrow> length b = n) \<and>
     (\<forall>b. length (blake3 E b) = 32) \<and>
     (\<forall>k n m c. chacha_encrypt E k n m = Some c \<longrightarrow> chacha_decrypt E k n c = Some m) \<and>
     (\<forall>k. length k = 32 \<longrightarrow> length (ed_public E k) = 32 \<and> ed_point E (ed_public E k)) \<and>
     (\<forall>a b A B. to_montgomery E (ed_public E a) = Some A \<longrightarrow>
        to_montgomery E (ed_public E b) = Some B \<longrightarrow> x25519_dh E a B = x25519_dh E b A) \<and>
     (\<forall>k. length k = 32 \<longrightarrow> to_montgomery E (ed_public E k) \<noteq> None) \<and>
     (\<forall>k s c. kw_wrap E k s = Some c \<longrightarrow> kw_unwrap E k c = Some s) \<and>
     (\<forall>k m. ed_verify E (ed_public E k) m (ed_sign E k m)) \<and>
     (\<forall>b. hex_decode E (hex_encode E b) = Some b \<and> take 2 (hex_encode E b) \<noteq> ''0x'')"

section \<open>Keys (\<open>keys.rs\<close>)\<close>

datatype key_error = KeyDefault string | KeyPanic string

text \<open>
  \<open>From<[u8; 32]>\<close> panics on bytes that are not a curve point, and \<open>TryFrom<&[u8]>\<close> and
  \<open>from_hex\<close> go through it.
\<close>

definition public_key_from :: "('w, 'z) crypto_ext_scheme \<Rightarrow> bytes \<Rightarrow> key_error + public_key" where
  "public_key_from E b =
     (if ed_point E b then Inr b else Inl (KeyPanic ''valid public key''))"

definition public_key_try_from :: "('w, 'z) crypto_ext_scheme \<Rightarrow> bytes \<Rightarrow> key_error + public_key" where
  "public_key_try_from E b =
     (if length b \<noteq> PUBLIC_KEY_SIZE then Inl (KeyDefault ''invalid public key size'')
      else public_key_from E b)"

definition strip_0x :: "string \<Rightarrow> string" where
  "strip_0x s = (if take 2 s = ''0x'' then drop 2 s else s)"

definition public_key_from_hex :: "('w, 'z) crypto_ext_scheme \<Rightarrow> string \<Rightarrow> key_error + public_key" where
  "public_key_from_hex E s =
     (case hex_decode E (strip_0x s) of
        None \<Rightarrow> Inl (KeyDefault ''public key hex decode error'')
      | Some b \<Rightarrow>
          (if length b \<noteq> PUBLIC_KEY_SIZE then Inl (KeyDefault ''public key hex decode error'')
           else public_key_from E b))"

definition public_key_to_hex :: "('w, 'z) crypto_ext_scheme \<Rightarrow> public_key \<Rightarrow> string" where
  "public_key_to_hex E k = hex_encode E k"

definition to_x25519 :: "('w, 'z) crypto_ext_scheme \<Rightarrow> public_key \<Rightarrow> key_error + bytes" where
  "to_x25519 E k = ok_or (KeyDefault ''public key failed to decompress edwards point'') (to_montgomery E k)"

definition verify :: "('w, 'z) crypto_ext_scheme \<Rightarrow> public_key \<Rightarrow> bytes \<Rightarrow> signature \<Rightarrow> bool" where
  "verify E k msg sig = ed_verify E k msg sig"

definition secret_key_from_hex :: "('w, 'z) crypto_ext_scheme \<Rightarrow> string \<Rightarrow> key_error + secret_key" where
  "secret_key_from_hex E s =
     (case hex_decode E (strip_0x s) of
        None \<Rightarrow> Inl (KeyDefault ''private key hex decode error'')
      | Some b \<Rightarrow>
          (if length b \<noteq> PRIVATE_KEY_SIZE then Inl (KeyDefault ''private key hex decode error'')
           else Inr b))"

definition secret_key_generate ::
  "('w, 'z) crypto_ext_scheme \<Rightarrow> 'w \<Rightarrow> (key_error + secret_key) \<times> 'w" where
  "secret_key_generate E w =
     (case getrandom E PRIVATE_KEY_SIZE w of
        (None, w') \<Rightarrow> (Inl (KeyPanic ''failed to generate random bytes''), w')
      | (Some b, w') \<Rightarrow> (Inr b, w'))"

definition public :: "('w, 'z) crypto_ext_scheme \<Rightarrow> secret_key \<Rightarrow> public_key" where
  "public E k = ed_public E k"

definition sign :: "('w, 'z) crypto_ext_scheme \<Rightarrow> secret_key \<Rightarrow> bytes \<Rightarrow> signature" where
  "sign E k msg = ed_sign E k msg"

section \<open>Content encryption (\<open>secret.rs\<close>)\<close>

datatype secret_error = SecretDefault string | SecretIo string | SecretPanic string

definition secret_default :: secret where
  "secret_default = replicate SECRET_SIZE 0"

definition secret_generate :: "('w, 'z) crypto_ext_scheme \<Rightarrow> 'w \<Rightarrow> (secret_error + secret) \<times> 'w" where
  "secret_generate E w =
     (case getrandom E SECRET_SIZE w of
        (None, w') \<Rightarrow> (Inl (SecretPanic ''failed to generate random bytes''), w')
      | (Some b, w') \<Rightarrow> (Inr b, w'))"

definition secret_from_slice :: "bytes \<Rightarrow> secret_error + secret" where
  "secret_from_slice d =
     (if length d \<noteq> SECRET_SIZE then Inl (SecretDefault ''invalid secret size'') else Inr d)"

text \<open>Output: nonce, then the encryption of hash and plaintext (with its tag).\<close>

definition encrypt ::
  "('w, 'z) crypto_ext_scheme \<Rightarrow> secret \<Rightarrow> bytes \<Rightarrow> 'w \<Rightarrow> (secret_error + bytes) \<times> 'w" where
  "encrypt E key d w =
     (let data_with_hash = blake3 E d @ d in
      case getrandom E NONCE_SIZE w of
        (None, w') \<Rightarrow> (Inl (SecretDefault ''failed to generate nonce''), w')
      | (Some nonce, w') \<Rightarrow>
          (case chacha_encrypt E key nonce data_with_hash of
             None \<Rightarrow> (Inl (SecretDefault ''encrypt error''), w')
           | Some c \<Rightarrow> (Inr (nonce @ c), w')))"

definition decrypt :: "('w, 'z) crypto_ext_scheme \<Rightarrow> secret \<Rightarrow> bytes \<Rightarrow> secret_error + bytes" where
  "decrypt E key d =
     (if length d < NONCE_SIZE then Inl (SecretDefault ''data too short for nonce'')
      else case chacha_decrypt E key (take NONCE_SIZE d) (drop NONCE_SIZE d) of
        None \<Rightarrow> Inl (SecretDefault ''decrypt error'')
      | Some p \<Rightarrow>
          (if length p < BLAKE3_HASH_SIZE
           then Inl (SecretDefault ''decrypted data too short for hash header'')
           else if take BLAKE3_HASH_SIZE p \<noteq> blake3 E (drop BLAKE3_HASH_SIZE p)
           then Inl (SecretDefault ''hash verification failed - data corrupted'')
           else Inr (drop BLAKE3_HASH_SIZE p)))"

definition extract_plaintext_hash ::
  "('w, 'z) crypto_ext_scheme \<Rightarrow> secret \<Rightarrow> bytes \<Rightarrow> secret_error + bytes" where
  "extract_plaintext_hash E key d =
     (if length d < NONCE_SIZE then Inl (SecretDefault ''data too short for nonce'')
      else case chacha_decrypt E key (take NONCE_SIZE d) (drop NONCE_SIZE d) of
        None \<Rightarrow> Inl (SecretDefault ''decrypt error'')
      | Some p \<Rightarrow>
          (if length p < BLAKE3_HASH_SIZE
           then Inl (SecretDefault ''decrypted data too short for hash header'')
           else Inr (take BLAKE3_HASH_SIZE p)))"

text \<open>A reader is what reading it to the end gives: an I/O error or the bytes.\<close>

definition encrypt_reader ::
  "('w, 'z) crypto_ext_scheme \<Rightarrow> secret \<Rightarrow> string + bytes \<Rightarrow> 'w \<Rightarrow> (secret_error + bytes) \<times> 'w" where
  "encrypt_reader E key r w =
     (case r of Inl e \<Rightarrow> (Inl (SecretIo e), w) | Inr d \<Rightarrow> encrypt E key d w)"

definition decrypt_reader ::
  "('w, 'z) crypto_ext_scheme \<Rightarrow> secret \<Rightarrow> string + bytes \<Rightarrow> secret_error + bytes" where
  "decrypt_reader E key r = (case r of Inl e \<Rightarrow> Inl (SecretIo e) | Inr d \<Rightarrow> decrypt E key d)"

section \<open>Secret shares (\<open>secret_share.rs\<close>)\<close>

datatype secret_share_error = ShareDefault string | ShareKey key_error | ShareSecret secret_error

definition secret_share_default :: secret_share where
  "secret_share_default = replicate SECRET_SHARE_SIZE 0"

definition secret_share_try_from :: "bytes \<Rightarrow> secret_share_error + secret_share" where
  "secret_share_try_from b =
     (if length b \<noteq> SECRET_SHARE_SIZE then Inl (ShareDefault ''invalid share size'') else Inr b)"

definition secret_share_new ::
  "('w, 'z) crypto_ext_scheme \<Rightarrow> secret \<Rightarrow> public_key \<Rightarrow> 'w \<Rightarrow> (secret_share_error + secret_share) \<times> 'w" where
  "secret_share_new E s recipient w =
     (case secret_key_generate E w of
        (Inl e, w') \<Rightarrow> (Inl (ShareKey e), w')
      | (Inr ephemeral_private, w') \<Rightarrow>
          (let ephemeral_public = public E ephemeral_private in
           case to_x25519 E recipient of
             Inl e \<Rightarrow> (Inl (ShareKey e), w')
           | Inr recipient_x25519 \<Rightarrow>
               (case kw_wrap E (x25519_dh E ephemeral_private recipient_x25519) s of
                  None \<Rightarrow> (Inl (ShareDefault ''AES-KW wrap error''), w')
                | Some wrapped \<Rightarrow>
                    (if length ephemeral_public + length wrapped \<noteq> SECRET_SHARE_SIZE
                     then (Inl (ShareDefault ''expected share size is incorrect''), w')
                     else (Inr (ephemeral_public @ wrapped), w')))))"

definition recover ::
  "('w, 'z) crypto_ext_scheme \<Rightarrow> secret_share \<Rightarrow> secret_key \<Rightarrow> secret_share_error + secret" where
  "recover E share k =
     bindR (map_err ShareKey (public_key_try_from E (take PUBLIC_KEY_SIZE share))) (\<lambda>ephemeral_public.
     bindR (map_err ShareKey (to_x25519 E ephemeral_public)) (\<lambda>ephemeral_x25519.
     bindR (ok_or (ShareDefault ''AES-KW unwrap error'')
              (kw_unwrap E (x25519_dh E k ephemeral_x25519) (drop PUBLIC_KEY_SIZE share))) (\<lambda>unwrapped.
     if length unwrapped \<noteq> SECRET_SIZE
     then Inl (ShareDefault ''unwrapped secret has wrong size'') else Inr unwrapped)))"

section \<open>A concrete instance of the primitives\<close>

text \<open>
  A toy instance, with no security at all, that satisfies \<open>crypto_laws\<close>: it shows that the laws
  are consistent and lets concrete runs be evaluated. The random source reads the world through
  \<open>tick\<close>, a counter.
\<close>

definition sample_crypto :: "('w \<Rightarrow> nat \<times> 'w) \<Rightarrow> 'w crypto_ext" where
  "sample_crypto tick = \<lparr>
     getrandom = (\<lambda>n w. (Some (replicate n (of_nat (fst (tick w)))), snd (tick w))),
     blake3 = (\<lambda>b. take 32 (b @ replicate 32 0)),
     chacha_encrypt = (\<lambda>k n m. Some (k @ m)),
     chacha_decrypt = (\<lambda>k n c. if take (length k) c = k then Some (drop (length k) c) else None),
     ed_point = (\<lambda>b. b \<noteq> replicate 32 255),
     ed_public = (\<lambda>k. if k = replicate 32 255 then replicate 32 0 else k),
     ed_sign = (\<lambda>k m. m),
     ed_verify = (\<lambda>p m s. m = s),
     to_montgomery = (\<lambda>b. if b = replicate 32 255 then None else Some b),
     x25519_dh = (\<lambda>a b. if a = replicate 32 255 then map2 (+) (replicate 32 0) b else map2 (+) a b),
     kw_wrap = (\<lambda>k s. Some (replicate 8 0 @ s)),
     kw_unwrap = (\<lambda>k c. Some (drop 8 c)),
     hex_encode = (\<lambda>b. CHR ''h'' # map (\<lambda>x. char_of (unat x)) b),
     hex_decode = (\<lambda>s. if s = [] then None else Some (map (\<lambda>c. of_nat (of_char c)) (tl s)))\<rparr>"

lemma map2_plus_commute: "map2 (+) a b = map2 (+) b (a :: bytes)"
  by (induction a arbitrary: b) (auto simp: zip_Cons1 split: list.splits)

lemma unat_byte_mod [simp]: "unat (x :: byte) mod 256 = unat x"
proof -
  have "unat x < 2 ^ 8"
    using unsigned_less [of x] by simp
  then show ?thesis
    by simp
qed

lemma sample_crypto_laws: "crypto_laws (sample_crypto tick)"
  unfolding crypto_laws_def
proof (intro conjI allI impI)
  show "length (blake3 (sample_crypto tick) b) = 32" for b
    by (simp add: sample_crypto_def)
  show "x25519_dh (sample_crypto tick) a B = x25519_dh (sample_crypto tick) b A"
    if "to_montgomery (sample_crypto tick) (ed_public (sample_crypto tick) a) = Some A"
      "to_montgomery (sample_crypto tick) (ed_public (sample_crypto tick) b) = Some B" for a b A B
    using that map2_plus_commute by (auto simp: sample_crypto_def split: if_splits)
qed (auto simp: sample_crypto_def o_def split: if_splits)

lemma crypto_laws_extend: "crypto_laws (crypto_ext.extend r m) \<longleftrightarrow> crypto_laws r"
  unfolding crypto_laws_def crypto_ext.extend_def by (simp only: crypto_ext.select_convs)

section \<open>Round trips\<close>

lemma crypto_laws_parts:
  assumes "crypto_laws E"
  shows
    "\<forall>n w b w'. getrandom E n w = (Some b, w') \<longrightarrow> length b = n"
    "\<forall>b. length (blake3 E b) = 32"
    "\<forall>k n m c. chacha_encrypt E k n m = Some c \<longrightarrow> chacha_decrypt E k n c = Some m"
    "\<forall>k. length k = 32 \<longrightarrow> length (ed_public E k) = 32 \<and> ed_point E (ed_public E k)"
    "\<forall>a b A B. to_montgomery E (ed_public E a) = Some A \<longrightarrow>
        to_montgomery E (ed_public E b) = Some B \<longrightarrow> x25519_dh E a B = x25519_dh E b A"
    "\<forall>k. length k = 32 \<longrightarrow> to_montgomery E (ed_public E k) \<noteq> None"
    "\<forall>k s c. kw_wrap E k s = Some c \<longrightarrow> kw_unwrap E k c = Some s"
    "\<forall>k m. ed_verify E (ed_public E k) m (ed_sign E k m)"
    "\<forall>b. hex_decode E (hex_encode E b) = Some b \<and> take 2 (hex_encode E b) \<noteq> ''0x''"
  using assms unfolding crypto_laws_def by - (elim conjE, assumption)+

lemma getrandom_length:
  "crypto_laws E \<Longrightarrow> getrandom E n w = (Some b, w') \<Longrightarrow> length b = n"
  using crypto_laws_parts(1) by blast

lemma blake3_length:
  "crypto_laws E \<Longrightarrow> length (blake3 E d) = 32"
  using crypto_laws_parts(2) by blast

lemma chacha_roundtrip:
  "crypto_laws E \<Longrightarrow> chacha_encrypt E k n m = Some c \<Longrightarrow> chacha_decrypt E k n c = Some m"
  using crypto_laws_parts(3) by blast

lemma ed_public_length:
  "crypto_laws E \<Longrightarrow> length k = 32 \<Longrightarrow> length (ed_public E k) = 32"
  using crypto_laws_parts(4) by blast

lemma ed_public_point:
  "crypto_laws E \<Longrightarrow> length k = 32 \<Longrightarrow> ed_point E (ed_public E k)"
  using crypto_laws_parts(4) by blast

lemma dh_agree:
  "crypto_laws E \<Longrightarrow> to_montgomery E (ed_public E a) = Some A \<Longrightarrow>
     to_montgomery E (ed_public E b) = Some B \<Longrightarrow> x25519_dh E a B = x25519_dh E b A"
  using crypto_laws_parts(5) by blast

lemma montgomery_defined:
  "crypto_laws E \<Longrightarrow> length k = 32 \<Longrightarrow> to_montgomery E (ed_public E k) \<noteq> None"
  using crypto_laws_parts(6) by blast

lemma kw_roundtrip:
  "crypto_laws E \<Longrightarrow> kw_wrap E k s = Some c \<Longrightarrow> kw_unwrap E k c = Some s"
  using crypto_laws_parts(7) by blast

lemma signature_verifies:
  "crypto_laws E \<Longrightarrow> ed_verify E (ed_public E k) m (ed_sign E k m)"
  using crypto_laws_parts(8) by blast

lemma hex_roundtrip:
  "crypto_laws E \<Longrightarrow> hex_decode E (hex_encode E d) = Some d"
  using crypto_laws_parts(9) by blast

lemma hex_no_prefix:
  "crypto_laws E \<Longrightarrow> take 2 (hex_encode E d) \<noteq> ''0x''"
  using crypto_laws_parts(9) by blast

lemma secret_generate_length:
  "crypto_laws E \<Longrightarrow> secret_generate E w = (Inr s, w') \<Longrightarrow> length s = 32"
  by (auto simp: secret_generate_def dest: getrandom_length split: prod.splits option.splits)

lemma secret_key_generate_length:
  "crypto_laws E \<Longrightarrow> secret_key_generate E w = (Inr k, w') \<Longrightarrow> length k = 32"
  by (auto simp: secret_key_generate_def dest: getrandom_length split: prod.splits option.splits)

lemma decrypt_encrypt:
  assumes laws: "crypto_laws E" and enc: "encrypt E k d w = (Inr c, w')"
  shows "decrypt E k c = Inr d"
proof -
  from enc obtain nonce ct where n: "getrandom E 12 w = (Some nonce, w')"
    and ct: "chacha_encrypt E k nonce (blake3 E d @ d) = Some ct" and c: "c = nonce @ ct"
    by (auto simp: encrypt_def Let_def split: prod.splits option.splits)
  have "length nonce = 12"
    using laws n by (rule getrandom_length)
  moreover have "chacha_decrypt E k nonce ct = Some (blake3 E d @ d)"
    using laws ct by (rule chacha_roundtrip)
  ultimately show ?thesis
    using blake3_length [OF laws, of d] by (simp add: decrypt_def c)
qed

lemma public_key_hex:
  assumes "crypto_laws E" and "length k = 32" and "ed_point E k"
  shows "public_key_from_hex E (public_key_to_hex E k) = Inr k"
  using assms by (simp add: public_key_from_hex_def public_key_to_hex_def strip_0x_def
      hex_roundtrip hex_no_prefix public_key_from_def)

lemma recover_new:
  assumes laws: "crypto_laws E" and len: "length s = 32"
    and new: "secret_share_new E s (public E k) w = (Inr sh, w')"
  shows "recover E sh k = Inr s"
proof -
  from new obtain e X wr where e: "secret_key_generate E w = (Inr e, w')"
    and X: "to_montgomery E (ed_public E k) = Some X"
    and wr: "kw_wrap E (x25519_dh E e X) s = Some wr" and sh: "sh = ed_public E e @ wr"
    by (auto simp: secret_share_new_def Let_def public_def to_x25519_def ok_or_def
        split: prod.splits sum.splits option.splits if_splits)
  have e32: "length e = 32"
    using laws e by (rule secret_key_generate_length)
  with laws obtain Y where Y: "to_montgomery E (ed_public E e) = Some Y"
    using montgomery_defined by blast
  have "kw_unwrap E (x25519_dh E k Y) wr = Some s"
    using dh_agree [OF laws X Y] kw_roundtrip [OF laws wr] by simp
  then show ?thesis
    using ed_public_length [OF laws e32] ed_public_point [OF laws e32] Y len
    by (simp add: recover_def sh public_key_try_from_def public_key_from_def to_x25519_def)
qed

section \<open>Properties\<close>

text \<open>
  Content encryption. What \<open>encrypt\<close> produces, \<open>decrypt\<close> with the same secret turns back into
  the plaintext, after checking its hash, and \<open>extract_plaintext_hash\<close> reads the plaintext's Blake3
  digest off it; an output never is shorter than the nonce.
\<close>

theorem content_encryption_roundtrip:
  assumes "crypto_laws E" and "encrypt E k d w = (Inr c, w')"
  shows "decrypt E k c = Inr d \<and> extract_plaintext_hash E k c = Inr (blake3 E d) \<and> NONCE_SIZE \<le> length c"
proof -
  have dec: "decrypt E k c = Inr d"
    using assms by (rule decrypt_encrypt)
  then obtain p where "NONCE_SIZE \<le> length c"
    "chacha_decrypt E k (take NONCE_SIZE c) (drop NONCE_SIZE c) = Some p"
    "BLAKE3_HASH_SIZE \<le> length p" "take BLAKE3_HASH_SIZE p = blake3 E (drop BLAKE3_HASH_SIZE p)"
    "d = drop BLAKE3_HASH_SIZE p"
    by (auto simp: decrypt_def split: if_splits option.splits)
  then show ?thesis
    using dec by (auto simp: extract_plaintext_hash_def)
qed

theorem content_encryption_roundtrip_witness:
  "decrypt (sample_crypto (\<lambda>w :: nat. (w, Suc w))) [1] (replicate 12 0 @ [1] @ [7] @ replicate 31 0 @ [7]) = Inr [7]"
proof -
  have "encrypt (sample_crypto (\<lambda>w :: nat. (w, Suc w))) [1] [7] 0 =
      (Inr (replicate 12 0 @ [1] @ [7] @ replicate 31 0 @ [7]), 1)"
    by (simp add: encrypt_def sample_crypto_def Let_def)
  from content_encryption_roundtrip [OF sample_crypto_laws this] show ?thesis
    by blast
qed

text \<open>
  Sharing a secret. The share made for a recipient's public key has the size that
  deserialisation accepts, and the holder of the matching private key recovers the secret from it.
\<close>

theorem secret_share_roundtrip:
  assumes "crypto_laws E" and "length s = SECRET_SIZE"
    and "secret_share_new E s (public E k) w = (Inr sh, w')"
  shows "secret_share_try_from sh = Inr sh \<and> recover E sh k = Inr s"
proof -
  have "length sh = SECRET_SHARE_SIZE"
    using assms(3) by (auto simp: secret_share_new_def Let_def split: prod.splits sum.splits option.splits if_splits)
  then show ?thesis
    using recover_new [OF assms(1) _ assms(3)] assms(2) by (simp add: secret_share_try_from_def)
qed

theorem secret_share_roundtrip_witness:
  "recover (sample_crypto (\<lambda>w :: nat. (w, Suc w))) (replicate 32 3 @ replicate 8 0 @ replicate 32 9) (replicate 32 4) =
     Inr (replicate 32 9)"
proof -
  have "secret_share_new (sample_crypto (\<lambda>w :: nat. (w, Suc w))) (replicate 32 9)
      (public (sample_crypto (\<lambda>w :: nat. (w, Suc w))) (replicate 32 4)) 3 =
      (Inr (replicate 32 3 @ replicate 8 0 @ replicate 32 9), 4)"
    by (simp add: secret_share_new_def secret_key_generate_def public_def to_x25519_def sample_crypto_def Let_def)
  from secret_share_roundtrip [OF sample_crypto_laws _ this] show ?thesis
    by simp
qed

end
