(* ===== verification/Manifest.thy ===== *)
theory Manifest
  imports Crypto
begin

text \<open>
  \<open>common/src/mount/principal.rs\<close> and \<open>manifest.rs\<close>: principals and their roles, shares, and the
  manifest, the root metadata of a bucket version. The DAG-CBOR codec is
  \<open>serde_ipld_dagcbor\<close>; its instance for manifests is the pair of fields that \<open>manifest_ext\<close> adds
  to the external functions. Getters of the source are the record selectors.
\<close>

type_synonym uuid = "128 word"

section \<open>Principals (\<open>principal.rs\<close>)\<close>

datatype principal_role = Owner | Mirror

record principal =
  p_role :: principal_role
  p_identity :: public_key

section \<open>Shares\<close>

record share =
  sh_principal :: principal
  sh_share :: "secret_share option"

definition share_new_owner :: "secret_share \<Rightarrow> public_key \<Rightarrow> share" where
  "share_new_owner s pk =
     \<lparr>sh_principal = \<lparr>p_role = Owner, p_identity = pk\<rparr>, sh_share = Some s\<rparr>"

definition share_new_mirror :: "public_key \<Rightarrow> share" where
  "share_new_mirror pk = \<lparr>sh_principal = \<lparr>p_role = Mirror, p_identity = pk\<rparr>, sh_share = None\<rparr>"

definition sh_role :: "share \<Rightarrow> principal_role" where
  "sh_role s = p_role (sh_principal s)"

definition set_share :: "secret_share \<Rightarrow> share \<Rightarrow> share" where
  "set_share x s = s\<lparr>sh_share := Some x\<rparr>"

type_synonym shares = "(string, share) btree"

section \<open>The manifest\<close>

record manifest =
  m_id :: uuid
  m_name :: string
  m_height :: u64
  m_version :: string
  m_shares :: shares
  m_entry :: link
  m_pins :: link
  m_previous :: "link option"
  m_ops_log :: "link option"
  m_public :: "secret option"
  m_author :: "public_key option"
  m_signature :: "signature option"

datatype manifest_error = ManifestCodec codec_error | SignatureVerificationFailed

record 'w manifest_ext = "'w crypto_ext" +
  cbor_encode_manifest :: "manifest \<Rightarrow> bytes option"
  cbor_decode_manifest :: "bytes \<Rightarrow> manifest option"

definition manifest_encode :: "('w, 'z) manifest_ext_scheme \<Rightarrow> manifest \<Rightarrow> codec_error + bytes" where
  "manifest_encode E m = ok_or EncodeError (cbor_encode_manifest E m)"

definition manifest_decode :: "('w, 'z) manifest_ext_scheme \<Rightarrow> bytes \<Rightarrow> codec_error + manifest" where
  "manifest_decode E b = ok_or DecodeError (cbor_decode_manifest E b)"

definition manifest_codec :: u64 where
  "manifest_codec = LD_CBOR_CODEC"

text \<open>
  \<open>Manifest::new\<close>. \<open>Version\<close> is \<open>String\<close>, so \<open>Version::default()\<close> is the empty string.
\<close>

definition manifest_new ::
  "('w, 'z) crypto_ext_scheme \<Rightarrow> uuid \<Rightarrow> string \<Rightarrow> public_key \<Rightarrow> secret_share \<Rightarrow> link \<Rightarrow> link \<Rightarrow> u64 \<Rightarrow> manifest" where
  "manifest_new E i nm owner s entry pins height =
     \<lparr>m_id = i, m_name = nm, m_height = height, m_version = [],
      m_shares = [(public_key_to_hex E owner,
        \<lparr>sh_principal = \<lparr>p_role = Owner, p_identity = owner\<rparr>, sh_share = Some s\<rparr>)],
      m_entry = entry, m_pins = pins, m_previous = None, m_ops_log = None,
      m_public = None, m_author = None, m_signature = None\<rparr>"

definition get_share :: "('w, 'z) crypto_ext_scheme \<Rightarrow> manifest \<Rightarrow> public_key \<Rightarrow> share option" where
  "get_share E m pk = bt_get (m_shares m) (public_key_to_hex E pk)"

text \<open>
  \<open>get_peer_ids\<close> drops the keys \<open>from_hex\<close> rejects; a key that makes it panic makes the whole
  call panic (left summand).
\<close>

fun collect_peer_ids :: "('w, 'z) crypto_ext_scheme \<Rightarrow> string list \<Rightarrow> string + public_key list" where
  "collect_peer_ids E [] = Inr []"
| "collect_peer_ids E (k # ks) =
     (case public_key_from_hex E k of
        Inl (KeyPanic e) \<Rightarrow> Inl e
      | Inl (KeyDefault _) \<Rightarrow> collect_peer_ids E ks
      | Inr pk \<Rightarrow> bindR (collect_peer_ids E ks) (\<lambda>pks. Inr (pk # pks)))"

definition get_peer_ids :: "('w, 'z) crypto_ext_scheme \<Rightarrow> manifest \<Rightarrow> string + public_key list" where
  "get_peer_ids E m = collect_peer_ids E (map fst (m_shares m))"

definition get_shares_by_role :: "principal_role \<Rightarrow> manifest \<Rightarrow> share list" where
  "get_shares_by_role r m = filter (\<lambda>s. sh_role s = r) (map snd (m_shares m))"

definition is_published :: "manifest \<Rightarrow> bool" where
  "is_published m \<longleftrightarrow> m_public m \<noteq> None"

definition is_signed :: "manifest \<Rightarrow> bool" where
  "is_signed m \<longleftrightarrow> m_author m \<noteq> None \<and> m_signature m \<noteq> None"

definition set_entry :: "link \<Rightarrow> manifest \<Rightarrow> manifest" where
  "set_entry l m = m\<lparr>m_entry := l\<rparr>"

definition set_pins :: "link \<Rightarrow> manifest \<Rightarrow> manifest" where
  "set_pins l m = m\<lparr>m_pins := l\<rparr>"

definition set_previous :: "link \<Rightarrow> manifest \<Rightarrow> manifest" where
  "set_previous l m = m\<lparr>m_previous := Some l\<rparr>"

definition set_height :: "u64 \<Rightarrow> manifest \<Rightarrow> manifest" where
  "set_height h m = m\<lparr>m_height := h\<rparr>"

definition set_ops_log :: "link \<Rightarrow> manifest \<Rightarrow> manifest" where
  "set_ops_log l m = m\<lparr>m_ops_log := Some l\<rparr>"

definition clear_ops_log :: "manifest \<Rightarrow> manifest" where
  "clear_ops_log m = m\<lparr>m_ops_log := None\<rparr>"

definition add_share :: "('w, 'z) crypto_ext_scheme \<Rightarrow> share \<Rightarrow> manifest \<Rightarrow> manifest" where
  "add_share E s m =
     m\<lparr>m_shares := bt_insert (public_key_to_hex E (p_identity (sh_principal s))) s (m_shares m)\<rparr>"

definition publish :: "secret \<Rightarrow> manifest \<Rightarrow> manifest" where
  "publish s m = m\<lparr>m_public := Some s\<rparr>"

definition unpublish :: "manifest \<Rightarrow> manifest" where
  "unpublish m = m\<lparr>m_public := None\<rparr>"

lemmas manifest_setters [simp] = set_entry_def set_pins_def set_previous_def set_height_def
  set_ops_log_def clear_ops_log_def publish_def unpublish_def

subsection \<open>Signing\<close>

definition signable_bytes :: "('w, 'z) manifest_ext_scheme \<Rightarrow> manifest \<Rightarrow> manifest_error + bytes" where
  "signable_bytes E m = map_err ManifestCodec (manifest_encode E (m\<lparr>m_signature := None\<rparr>))"

definition manifest_sign ::
  "('w, 'z) manifest_ext_scheme \<Rightarrow> secret_key \<Rightarrow> manifest \<Rightarrow> manifest_error + manifest" where
  "manifest_sign E sk m =
     (let m1 = m\<lparr>m_author := Some (public E sk), m_signature := None\<rparr> in
      bindR (signable_bytes E m1) (\<lambda>b. Inr (m1\<lparr>m_signature := Some (sign E sk b)\<rparr>)))"

definition verify_signature :: "('w, 'z) manifest_ext_scheme \<Rightarrow> manifest \<Rightarrow> manifest_error + bool" where
  "verify_signature E m =
     (case (m_author m, m_signature m) of
        (Some a, Some s) \<Rightarrow>
          bindR (signable_bytes E m) (\<lambda>b.
          if verify E a b s then Inr True else Inl SignatureVerificationFailed)
      | _ \<Rightarrow> Inr False)"

section \<open>Properties\<close>

text \<open>
  The access-control invariant: shares are filed under their principal's key, owners have a share
  and mirrors have none.
\<close>

definition share_ok :: "('w, 'z) crypto_ext_scheme \<Rightarrow> string \<Rightarrow> share \<Rightarrow> bool" where
  "share_ok E k s \<longleftrightarrow> k = public_key_to_hex E (p_identity (sh_principal s)) \<and>
     (sh_role s = Owner \<longleftrightarrow> sh_share s \<noteq> None)"

definition shares_ok :: "('w, 'z) crypto_ext_scheme \<Rightarrow> manifest \<Rightarrow> bool" where
  "shares_ok E m \<longleftrightarrow> bt_ok (m_shares m) \<and> (\<forall>(k, s) \<in> set (m_shares m). share_ok E k s)"

lemma shares_ok_new: "shares_ok E (manifest_new E i nm owner s entry pins height)"
  by (simp add: shares_ok_def manifest_new_def share_ok_def sh_role_def)

lemma shares_ok_add:
  assumes "shares_ok E m" and "s = share_new_owner x pk \<or> s = share_new_mirror pk"
  shows "shares_ok E (add_share E s m)"
  using assms by (auto simp: shares_ok_def add_share_def share_ok_def sh_role_def
      share_new_owner_def share_new_mirror_def map_laws set_bt_insert)

lemma signable_bytes_signature [simp]:
  "signable_bytes E (m\<lparr>m_signature := x\<rparr>) = signable_bytes E m"
  by (simp add: signable_bytes_def)

lemma manifest_sign_Inr:
  "manifest_sign E sk m = Inr m' \<longleftrightarrow>
     (\<exists>b. signable_bytes E (m\<lparr>m_author := Some (public E sk)\<rparr>) = Inr b \<and>
        m' = m\<lparr>m_author := Some (public E sk), m_signature := Some (sign E sk b)\<rparr>)"
  by (auto simp: manifest_sign_def Let_def res_simps)

lemma verify_unsigned: "verify_signature E m = Inr False \<longleftrightarrow> \<not> is_signed m"
  by (auto simp: is_signed_def verify_signature_def bindR_def split: option.splits sum.splits)

lemma sign_verifies:
  assumes "crypto_laws E" and "manifest_sign E sk m = Inr m'"
  shows "verify_signature E m' = Inr True \<and> m_author m' = Some (public E sk) \<and> is_signed m' \<and>
    m'\<lparr>m_author := m_author m, m_signature := m_signature m\<rparr> = m"
proof -
  from assms(2) obtain b where b: "signable_bytes E (m\<lparr>m_author := Some (public E sk)\<rparr>) = Inr b"
    and m': "m' = m\<lparr>m_author := Some (public E sk), m_signature := Some (sign E sk b)\<rparr>"
    by (auto simp: manifest_sign_Inr)
  have "signable_bytes E m' = Inr b"
    using b unfolding m' by (simp only: signable_bytes_signature)
  moreover have "verify E (public E sk) b (sign E sk b)"
    using signature_verifies [OF assms(1)] by (simp add: verify_def public_def sign_def)
  ultimately show ?thesis
    by (simp add: m' verify_signature_def is_signed_def)
qed

text \<open>
  Signing a manifest with a key makes the signature verify (\<open>Ok(true)\<close>), names the signer as
  the author and changes nothing but author and signature.
\<close>

theorem sign_then_verify:
  assumes "crypto_laws E" and "manifest_sign E sk m = Inr m'"
  shows "verify_signature E m' = Inr True \<and> m_author m' = Some (public E sk) \<and> is_signed m' \<and>
    m'\<lparr>m_author := m_author m, m_signature := m_signature m\<rparr> = m"
  using assms by (rule sign_verifies)

theorem sign_then_verify_witness:
  "\<exists>m'. manifest_sign (crypto_ext.extend (sample_crypto (\<lambda>w :: nat. (w, Suc w)))
       \<lparr>cbor_encode_manifest = (\<lambda>m. Some []), cbor_decode_manifest = (\<lambda>b. None)\<rparr>) [1]
       (manifest_new (sample_crypto (\<lambda>w :: nat. (w, Suc w))) 0 [] [1] [] link_default link_default 0) = Inr m' \<and>
     verify_signature (crypto_ext.extend (sample_crypto (\<lambda>w :: nat. (w, Suc w)))
       \<lparr>cbor_encode_manifest = (\<lambda>m. Some []), cbor_decode_manifest = (\<lambda>b. None)\<rparr>) m' = Inr True"
proof -
  let ?E = "crypto_ext.extend (sample_crypto (\<lambda>w :: nat. (w, Suc w)))
    \<lparr>cbor_encode_manifest = (\<lambda>m. Some []), cbor_decode_manifest = (\<lambda>b. None)\<rparr>"
  have laws: "crypto_laws ?E"
    unfolding crypto_laws_extend by (rule sample_crypto_laws)
  have "\<exists>m'. manifest_sign ?E [1]
      (manifest_new (sample_crypto (\<lambda>w :: nat. (w, Suc w))) 0 [] [1] [] link_default link_default 0) = Inr m'"
    by (simp add: manifest_sign_def signable_bytes_def manifest_encode_def Let_def crypto_ext.extend_def)
  then show ?thesis
    using sign_then_verify [OF laws] by blast
qed

end
