(* ===== verification/Blobs_Store.thy ===== *)
theory Blobs_Store
  imports Manifest
begin

text \<open>
  \<open>common/src/peer/blobs_store.rs\<close>: the content-addressed store every other component reads and
  writes through. The iroh-blobs client below it is external: \<open>blob_ext\<close> adds its requests to the
  external functions. A read does not change the world; writes and downloads may. \<open>blob_laws\<close>
  states what the callers rely on: a stored blob reads back, stays readable, and is complete
  exactly when it can be read.
\<close>

record 'w blob_ext = "'w manifest_ext" +
  get_bytes :: "hash \<Rightarrow> 'w \<Rightarrow> string + bytes"
  add_bytes :: "bytes \<Rightarrow> 'w \<Rightarrow> (string + hash) \<times> 'w"
  add_stream :: "(string + bytes) list \<Rightarrow> 'w \<Rightarrow> (string + hash) \<times> 'w"
  blob_complete :: "hash \<Rightarrow> 'w \<Rightarrow> string + bool"
  download :: "hash \<Rightarrow> public_key list \<Rightarrow> 'w \<Rightarrow> (string + unit) \<times> 'w"

definition keeps_blobs :: "('w, 'z) blob_ext_scheme \<Rightarrow> 'w \<Rightarrow> 'w \<Rightarrow> bool" where
  "keeps_blobs E w w' \<longleftrightarrow> (\<forall>h b. get_bytes E h w = Inr b \<longrightarrow> get_bytes E h w' = Inr b)"

definition blob_laws :: "('w, 'z) blob_ext_scheme \<Rightarrow> bool" where
  "blob_laws E \<longleftrightarrow>
     (\<forall>n w. keeps_blobs E w (snd (getrandom E n w))) \<and>
     (\<forall>b w. keeps_blobs E w (snd (add_bytes E b w))) \<and>
     (\<forall>s w. keeps_blobs E w (snd (add_stream E s w))) \<and>
     (\<forall>h ps w. keeps_blobs E w (snd (download E h ps w))) \<and>
     (\<forall>b w h w'. add_bytes E b w = (Inr h, w') \<longrightarrow> length h = 32 \<and> get_bytes E h w' = Inr b) \<and>
     (\<forall>bs w h w'. add_stream E (map Inr bs) w = (Inr h, w') \<longrightarrow>
        length h = 32 \<and> get_bytes E h w' = Inr (concat bs)) \<and>
     (\<forall>h w. blob_complete E h w = Inr True \<longleftrightarrow> (\<exists>b. get_bytes E h w = Inr b))"

section \<open>Operations\<close>

datatype blobs_error =
    BlobsDefault string
  | ExportBao string
  | Request string
  | BlobsDecode codec_error

definition blob_get :: "('w, 'z) blob_ext_scheme \<Rightarrow> hash \<Rightarrow> 'w \<Rightarrow> blobs_error + bytes" where
  "blob_get E h w = map_err ExportBao (get_bytes E h w)"

text \<open>\<open>get_cbor\<close>, at the decoder of the type asked for.\<close>

definition get_cbor ::
  "('w, 'z) blob_ext_scheme \<Rightarrow> (bytes \<Rightarrow> codec_error + 'a) \<Rightarrow> hash \<Rightarrow> 'w \<Rightarrow> blobs_error + 'a" where
  "get_cbor E dec h w =
     bindR (map_err ExportBao (get_bytes E h w)) (\<lambda>b. map_err BlobsDecode (dec b))"

definition put_stream ::
  "('w, 'z) blob_ext_scheme \<Rightarrow> (string + bytes) list \<Rightarrow> 'w \<Rightarrow> (blobs_error + hash) \<times> 'w" where
  "put_stream E s w = (case add_stream E s w of (r, w') \<Rightarrow> (map_err Request r, w'))"

definition blob_put :: "('w, 'z) blob_ext_scheme \<Rightarrow> bytes \<Rightarrow> 'w \<Rightarrow> (blobs_error + hash) \<times> 'w" where
  "blob_put E b w = (case add_bytes E b w of (r, w') \<Rightarrow> (map_err Request r, w'))"

definition blob_stat :: "('w, 'z) blob_ext_scheme \<Rightarrow> hash \<Rightarrow> 'w \<Rightarrow> blobs_error + bool" where
  "blob_stat E h w = map_err BlobsDefault (blob_complete E h w)"

definition download_hash ::
  "('w, 'z) blob_ext_scheme \<Rightarrow> hash \<Rightarrow> public_key list \<Rightarrow> 'w \<Rightarrow> (blobs_error + unit) \<times> 'w" where
  "download_hash E h peer_ids w =
     (case blob_stat E h w of
        Inl e \<Rightarrow> (Inl e, w)
      | Inr True \<Rightarrow> (Inr (), w)
      | Inr False \<Rightarrow>
          (case download E h peer_ids w of
             (Inl e, w') \<Rightarrow> (Inl (BlobsDefault e), w')
           | (Inr _, w') \<Rightarrow>
               (case blob_stat E h w' of
                  Inr True \<Rightarrow> (Inr (), w')
                | Inr False \<Rightarrow> (Inl (BlobsDefault ''Hash not found after download''), w')
                | Inl e \<Rightarrow> (Inl e, w'))))"

text \<open>The loop of \<open>download_hash_list\<close>: the first failure ends it.\<close>

fun download_each ::
  "('w, 'z) blob_ext_scheme \<Rightarrow> hash list \<Rightarrow> public_key list \<Rightarrow> 'w \<Rightarrow> (blobs_error + unit) \<times> 'w" where
  "download_each E [] peer_ids w = (Inr (), w)"
| "download_each E (h # hs) peer_ids w =
     bindS (download_hash E h peer_ids) (\<lambda>_. download_each E hs peer_ids) w"

definition create_hash_list ::
  "('w, 'z) blob_ext_scheme \<Rightarrow> hash list \<Rightarrow> 'w \<Rightarrow> (blobs_error + hash) \<times> 'w" where
  "create_hash_list E hashes w = blob_put E (concat hashes) w"

text \<open>\<open>slice::chunks_exact\<close>: full chunks only, a shorter rest is dropped.\<close>

fun chunks_exact :: "nat \<Rightarrow> 'a list \<Rightarrow> 'a list list" where
  "chunks_exact n xs =
     (if n = 0 \<or> length xs < n then [] else take n xs # chunks_exact n (drop n xs))"

declare chunks_exact.simps [simp del]

definition read_hash_list :: "('w, 'z) blob_ext_scheme \<Rightarrow> hash \<Rightarrow> 'w \<Rightarrow> blobs_error + hash list" where
  "read_hash_list E list_hash w =
     bindR (blob_get E list_hash w) (\<lambda>data.
     if length data mod 32 \<noteq> 0
     then Inl (BlobsDefault ''Invalid hash list: length is not a multiple of 32'')
     else Inr (chunks_exact 32 data))"

definition download_hash_list ::
  "('w, 'z) blob_ext_scheme \<Rightarrow> hash \<Rightarrow> public_key list \<Rightarrow> 'w \<Rightarrow> (blobs_error + unit) \<times> 'w" where
  "download_hash_list E list_hash peer_ids w =
     (case download_hash E list_hash peer_ids w of
        (Inl e, w1) \<Rightarrow> (Inl e, w1)
      | (Inr _, w1) \<Rightarrow>
          (case blob_stat E list_hash w1 of
             Inl e \<Rightarrow> (Inl e, w1)
           | Inr False \<Rightarrow> (Inl (BlobsDefault ''Hash list blob not found after download''), w1)
           | Inr True \<Rightarrow>
               (case read_hash_list E list_hash w1 of
                  Inl e \<Rightarrow> (Inl e, w1)
                | Inr hashes \<Rightarrow>
                    if hashes = [] then (Inr (), w1)
                    else download_each E hashes peer_ids w1)))"

section \<open>The world grows\<close>

lemma keeps_refl [simp]: "keeps_blobs E w w"
  by (simp add: keeps_blobs_def)

lemma keeps_trans: "keeps_blobs E a b \<Longrightarrow> keeps_blobs E b c \<Longrightarrow> keeps_blobs E a c"
  by (auto simp: keeps_blobs_def)

lemma keeps_get: "keeps_blobs E w w' \<Longrightarrow> get_bytes E h w = Inr b \<Longrightarrow> get_bytes E h w' = Inr b"
  by (simp add: keeps_blobs_def)

lemma keeps_blob_get: "keeps_blobs E w w' \<Longrightarrow> blob_get E h w = Inr b \<Longrightarrow> blob_get E h w' = Inr b"
  by (auto simp: keeps_blobs_def blob_get_def res_simps)

lemma blob_laws_parts:
  assumes "blob_laws E"
  shows
    "\<forall>n w. keeps_blobs E w (snd (getrandom E n w))"
    "\<forall>b w. keeps_blobs E w (snd (add_bytes E b w))"
    "\<forall>s w. keeps_blobs E w (snd (add_stream E s w))"
    "\<forall>h ps w. keeps_blobs E w (snd (download E h ps w))"
    "\<forall>b w h w'. add_bytes E b w = (Inr h, w') \<longrightarrow> length h = 32 \<and> get_bytes E h w' = Inr b"
    "\<forall>bs w h w'. add_stream E (map Inr bs) w = (Inr h, w') \<longrightarrow>
        length h = 32 \<and> get_bytes E h w' = Inr (concat bs)"
    "\<forall>h w. blob_complete E h w = Inr True \<longleftrightarrow> (\<exists>b. get_bytes E h w = Inr b)"
  using assms unfolding blob_laws_def by - (elim conjE, assumption)+

lemma keeps_getrandom:
  "blob_laws E \<Longrightarrow> getrandom E n w = (r, w') \<Longrightarrow> keeps_blobs E w w'"
  using blob_laws_parts(1) by (metis snd_conv)

lemma keeps_put: "blob_laws E \<Longrightarrow> blob_put E b w = (r, w') \<Longrightarrow> keeps_blobs E w w'"
  using blob_laws_parts(2) [THEN spec, THEN spec, of E w b]
  by (auto simp: blob_put_def split: prod.splits)

lemma keeps_put_stream: "blob_laws E \<Longrightarrow> put_stream E s w = (r, w') \<Longrightarrow> keeps_blobs E w w'"
  using blob_laws_parts(3) [THEN spec, THEN spec, of E w s]
  by (auto simp: put_stream_def split: prod.splits)

lemma put_get:
  assumes "blob_laws E" and "blob_put E b w = (Inr h, w')"
  shows "blob_get E h w' = Inr b" and "length h = 32"
  using assms blob_laws_parts(5) [OF assms(1)]
  by (auto simp: blob_put_def blob_get_def res_simps split: prod.splits)

lemma put_stream_get:
  assumes "blob_laws E" and "put_stream E [Inr b] w = (Inr h, w')"
  shows "blob_get E h w' = Inr b" and "length h = 32"
  using assms blob_laws_parts(6) [OF assms(1), THEN spec, of "[b]"]
  by (auto simp: put_stream_def blob_get_def res_simps split: prod.splits)

lemma stat_get: "blob_laws E \<Longrightarrow> blob_stat E h w = Inr True \<longleftrightarrow> (\<exists>b. blob_get E h w = Inr b)"
  using blob_laws_parts(7) by (auto simp: blob_stat_def blob_get_def res_simps)

lemma keeps_download_hash:
  assumes "blob_laws E" and "download_hash E h ps w = (r, w')"
  shows "keeps_blobs E w w'"
  using assms(2) blob_laws_parts(4) [OF assms(1), rule_format, of w h ps]
  by (auto simp: download_hash_def split: prod.splits sum.splits bool.splits)

lemma keeps_download_each:
  assumes "blob_laws E" and "download_each E hs ps w = (r, w')"
  shows "keeps_blobs E w w'"
  using assms(2)
proof (induction hs arbitrary: w)
  case (Cons h hs)
  then show ?case
    by (auto simp: bindS_def split: prod.splits sum.splits
        dest: keeps_download_hash [OF assms(1)] intro: keeps_trans)
qed simp

section \<open>Hash lists\<close>

lemma chunks_exact_concat:
  assumes "\<forall>h \<in> set hs. length h = n" and "0 < n"
  shows "chunks_exact n (concat hs) = hs"
  using assms by (induction hs) (simp_all add: chunks_exact.simps [of n "_ @ _"] chunks_exact.simps [of n "[]"])

lemma length_concat_same: "\<forall>h \<in> set hs. length h = n \<Longrightarrow> length (concat hs) = length hs * n"
  by (induction hs) auto

lemma concat_chunks_exact:
  assumes "0 < n" and "length xs mod n = 0"
  shows "concat (chunks_exact n xs) = xs"
  using assms
proof (induction n xs rule: chunks_exact.induct)
  case (1 n xs)
  show ?case
  proof (cases "length xs < n")
    case True
    then have "xs = []"
      using 1(3) by simp
    then show ?thesis
      using 1(2) by (simp add: chunks_exact.simps)
  next
    case False
    then have "length (drop n xs) mod n = 0"
      using 1(3) by (simp add: mod_if)
    then have "concat (chunks_exact n (drop n xs)) = drop n xs"
      using 1 False by simp
    then show ?thesis
      using False 1(2) by (simp add: chunks_exact.simps [of n xs])
  qed
qed

lemma read_hash_list_stored:
  assumes "blob_get E h w = Inr (concat hs)" and "\<forall>x \<in> set hs. length x = 32"
  shows "read_hash_list E h w = Inr hs"
  using assms length_concat_same [OF assms(2)]
  by (simp add: read_hash_list_def chunks_exact_concat del: length_concat)

lemma keeps_read_hash_list:
  assumes "keeps_blobs E w w'" and "read_hash_list E h w = Inr hs"
  shows "read_hash_list E h w' = Inr hs"
proof -
  obtain b where b: "blob_get E h w = Inr b"
    using assms(2) by (auto simp: read_hash_list_def res_simps)
  then show ?thesis
    using assms(2) keeps_blob_get [OF assms(1) b] by (simp add: read_hash_list_def)
qed

lemma create_read_hash_list:
  assumes "blob_laws E" and "\<forall>x \<in> set hs. length x = 32"
    and "create_hash_list E hs w = (Inr h, w')"
  shows "read_hash_list E h w' = Inr hs"
  using assms put_get(1) [OF assms(1)] by (intro read_hash_list_stored) (auto simp: create_hash_list_def)

lemma download_hash_ok:
  assumes "blob_laws E" and "download_hash E h ps w = (Inr (), w')"
  shows "\<exists>b. blob_get E h w' = Inr b"
proof -
  have "blob_stat E h w' = Inr True"
    using assms(2) by (auto simp: download_hash_def split: prod.splits sum.splits bool.splits)
  then show ?thesis
    by (simp add: stat_get [OF assms(1)])
qed

lemma download_each_ok:
  assumes "blob_laws E" and "download_each E hs ps w = (Inr (), w')" and "h \<in> set hs"
  shows "\<exists>b. blob_get E h w' = Inr b"
  using assms(2,3)
proof (induction hs arbitrary: w)
  case (Cons x xs)
  from Cons.prems(1) obtain w1 where w1: "download_hash E x ps w = (Inr (), w1)"
    "download_each E xs ps w1 = (Inr (), w')"
    by (auto simp: res_simps)
  show ?case
  proof (cases "h = x")
    case True
    then obtain b where "blob_get E h w1 = Inr b"
      using download_hash_ok [OF assms(1) w1(1)] by blast
    then show ?thesis
      using keeps_blob_get [OF keeps_download_each [OF assms(1) w1(2)]] by blast
  next
    case False
    then show ?thesis
      using Cons.IH [OF w1(2)] Cons.prems(2) by simp
  qed
qed simp

text \<open>
  When \<open>download_hash_list\<close> reports success, the list it was asked for is readable and every
  blob the list names is in the local store.
\<close>

theorem download_hash_list_complete:
  assumes "blob_laws E" and "download_hash_list E l ps w = (Inr (), w')"
  shows "\<exists>hs. read_hash_list E l w' = Inr hs \<and> (\<forall>h \<in> set hs. \<exists>b. blob_get E h w' = Inr b)"
proof -
  from assms(2) obtain w1 hs where w1: "download_hash E l ps w = (Inr (), w1)"
    and hs: "read_hash_list E l w1 = Inr hs"
    and each: "hs = [] \<and> w' = w1 \<or> download_each E hs ps w1 = (Inr (), w')"
    by (auto simp: download_hash_list_def split: prod.splits sum.splits bool.splits if_splits)
  then have "keeps_blobs E w1 w'"
    using keeps_download_each [OF assms(1)] by auto
  then have "read_hash_list E l w' = Inr hs"
    using hs by (rule keeps_read_hash_list)
  then show ?thesis
    using each download_each_ok [OF assms(1)] by (auto split: if_splits)
qed

text \<open>
  A hash list reads back. Whatever 32-byte hashes are stored as a list, reading the list, at
  once or after further writes, returns them in order.
\<close>

theorem hash_list_roundtrip:
  assumes "blob_laws E" and "\<forall>h \<in> set hs. length h = 32"
    and "create_hash_list E hs w = (Inr l, w')" and "keeps_blobs E w' w''"
  shows "read_hash_list E l w'' = Inr hs"
  using keeps_read_hash_list [OF assms(4) create_read_hash_list [OF assms(1-3)]] .

end
