(* ===== verification/Paths.thy ===== *)
theory Paths
  imports Prelude
begin

text \<open>
  \<open>std::path\<close> on Unix, as far as the program uses it. A \<open>Path\<close> or \<open>PathBuf\<close> is the list of its
  components, which is what equality, ordering, hashing, iteration and all the operations below
  look at: \<open>components\<close> parses a path string as \<open>Path::components\<close> does (repeated and trailing
  slashes and inner \<open>.\<close> parts disappear). Names are byte strings; \<open>to_string_lossy\<close> is the
  identity on them, so names that are not valid UTF-8 are outside the model.
\<close>

section \<open>Components\<close>

datatype component = RootDir | CurDir | ParentDir | Normal string

type_synonym path = "component list"

fun comp_rank :: "component \<Rightarrow> nat \<times> string" where
  "comp_rank RootDir = (0, [])"
| "comp_rank CurDir = (1, [])"
| "comp_rank ParentDir = (2, [])"
| "comp_rank (Normal s) = (3, s)"

lemma comp_rank_inject [simp]: "comp_rank a = comp_rank b \<longleftrightarrow> a = b"
  by (cases a; cases b) simp_all

text \<open>The derived order of \<open>std::path::Component\<close>; paths compare as sequences of components.\<close>

instantiation component :: linorder
begin

definition less_eq_component :: "component \<Rightarrow> component \<Rightarrow> bool" where
  "less_eq_component a b \<longleftrightarrow>
     fst (comp_rank a) < fst (comp_rank b) \<or>
     fst (comp_rank a) = fst (comp_rank b) \<and> snd (comp_rank a) \<le> snd (comp_rank b)"

definition less_component :: "component \<Rightarrow> component \<Rightarrow> bool" where
  "less_component a b \<longleftrightarrow> a \<le> b \<and> \<not> b \<le> (a::component)"

instance
proof
  fix a b c :: component
  show "a < b \<longleftrightarrow> a \<le> b \<and> \<not> b \<le> a" by (rule less_component_def)
  show "a \<le> a" by (simp add: less_eq_component_def)
  show "a \<le> b \<Longrightarrow> b \<le> c \<Longrightarrow> a \<le> c" by (auto simp: less_eq_component_def)
  show "a \<le> b \<or> b \<le> a" by (auto simp: less_eq_component_def)
  show "a \<le> b \<Longrightarrow> b \<le> a \<Longrightarrow> a = b"
    by (auto simp: less_eq_component_def prod_eq_iff simp flip: comp_rank_inject)
qed

end

fun comp_str :: "component \<Rightarrow> string" where
  "comp_str RootDir = ''/''"
| "comp_str CurDir = ''.''"
| "comp_str ParentDir = ''..''"
| "comp_str (Normal s) = s"

text \<open>Splitting at every slash: \<open>"a//b"\<close> gives \<open>["a", "", "b"]\<close>.\<close>

fun split_slash :: "string \<Rightarrow> string list" where
  "split_slash [] = [[]]"
| "split_slash (c # cs) =
     (if c = CHR ''/'' then [] # split_slash cs
      else (case split_slash cs of [] \<Rightarrow> [[c]] | w # ws \<Rightarrow> (c # w) # ws))"

definition part_comp :: "string \<Rightarrow> component list" where
  "part_comp w = (if w = [] \<or> w = ''.'' then [] else if w = ''..'' then [ParentDir] else [Normal w])"

definition components :: "string \<Rightarrow> path" where
  "components s =
     (if s \<noteq> [] \<and> hd s = CHR ''/'' then RootDir # concat (map part_comp (split_slash s))
      else (case split_slash s of
              [] \<Rightarrow> []
            | w # ws \<Rightarrow> (if w = ''.'' then [CurDir] else part_comp w) @ concat (map part_comp ws)))"

lemma split_slash_no_slash: "CHR ''/'' \<notin> set s \<Longrightarrow> split_slash s = [s]"
  by (induction s) auto

lemma split_slash_append: "CHR ''/'' \<notin> set n \<Longrightarrow> split_slash (n @ CHR ''/'' # r) = n # split_slash r"
  by (induction n) auto

section \<open>Operations\<close>

definition is_absolute :: "path \<Rightarrow> bool" where
  "is_absolute p \<longleftrightarrow> p \<noteq> [] \<and> hd p = RootDir"

definition parent :: "path \<Rightarrow> path option" where
  "parent p = (if p = [] \<or> last p = RootDir then None else Some (butlast p))"

definition file_name :: "path \<Rightarrow> string option" where
  "file_name p = (if p = [] then None
     else (case last p of Normal s \<Rightarrow> Some s | _ \<Rightarrow> None))"

text \<open>
  \<open>PathBuf::push\<close> and \<open>Path::join\<close>: an absolute argument replaces the path, a relative one is
  appended. A leading \<open>.\<close> of the argument is a component only when nothing precedes it.
\<close>

definition push :: "path \<Rightarrow> path \<Rightarrow> path" where
  "push p q = (if is_absolute q then q
     else if p = [] then q else p @ filter (\<lambda>c. c \<noteq> CurDir) q)"

definition starts_with :: "path \<Rightarrow> path \<Rightarrow> bool" where
  "starts_with p base \<longleftrightarrow> prefix base p"

definition strip_prefix :: "path \<Rightarrow> path \<Rightarrow> path option" where
  "strip_prefix p base = (if prefix base p then Some (drop (length base) p) else None)"

text \<open>
  Paths as users write them: absolute, no \<open>..\<close> parts. \<open>abs_path ns\<close> is \<open>/n1/n2/...\<close>.
\<close>

abbreviation rel_path :: "string list \<Rightarrow> path" where
  "rel_path ns \<equiv> map Normal ns"

abbreviation abs_path :: "string list \<Rightarrow> path" where
  "abs_path ns \<equiv> RootDir # map Normal ns"

lemma parent_snoc [simp]: "parent (p @ [Normal n]) = Some p"
  by (simp add: parent_def)

lemma parent_Nil [simp]: "parent [] = None"
  by (simp add: parent_def)

lemma file_name_snoc [simp]: "file_name (p @ [Normal n]) = Some n"
  by (simp add: file_name_def)

lemma file_name_root_snoc [simp]: "file_name (RootDir # p @ [Normal n]) = Some n"
  by (simp add: file_name_def)

lemma comp_str_rel [simp]: "map comp_str (rel_path ns) = ns"
  by (induction ns) simp_all

lemma rel_path_inject [simp]: "rel_path ns = rel_path ms \<longleftrightarrow> ns = ms"
  by (rule inj_map_eq_map) (simp add: inj_def)

lemma prefix_rel_path [simp]: "prefix (rel_path ns) (rel_path ms) \<longleftrightarrow> prefix ns ms"
  by (auto simp: prefix_def map_eq_append_conv)

lemma starts_with_abs [simp]: "starts_with (abs_path ms) (abs_path ns) \<longleftrightarrow> prefix ns ms"
  by (simp add: starts_with_def)

lemma is_absolute_abs [simp]: "is_absolute (abs_path ns)" "\<not> is_absolute (rel_path ns)"
  by (cases ns; simp add: is_absolute_def)+

lemma push_Nil [simp]: "push p [] = p"
  by (simp add: push_def is_absolute_def)

lemma push_root_rel [simp]: "push [RootDir] (rel_path ns) = abs_path ns"
  by (induction ns) (auto simp: push_def is_absolute_def)

lemma push_root_rel_snoc [simp]:
  "push [RootDir] (rel_path ns @ [Normal x]) = RootDir # rel_path ns @ [Normal x]"
  using push_root_rel [of "ns @ [x]"] by simp

lemma push_rel_name [simp]: "push (rel_path ns) [Normal n] = rel_path (ns @ [n])"
  by (simp add: push_def is_absolute_def)

lemma push_abs_name [simp]: "push (abs_path ns) [Normal n] = abs_path (ns @ [n])"
  by (simp add: push_def is_absolute_def)

end
