(* ===== verification/Node.thy ===== *)
theory Node
  imports Paths Crypto
begin

text \<open>
  \<open>common/src/mount/node.rs\<close>, \<open>maybe_mime.rs\<close> and \<open>pins.rs\<close>: the nodes of a bucket's file tree,
  the data attached to file links, and the set of pinned hashes.
\<close>

typedecl linked_data

text \<open>
  \<open>LinkedData\<close> is \<open>ipld_core\<close>'s value type, which this code only stores. A MIME type is its text.
\<close>

record data =
  d_mime :: "string option"
  d_metadata :: "(string, linked_data) btree option"

definition data_new :: data where
  "data_new = \<lparr>d_mime = None, d_metadata = None\<rparr>"

text \<open>
  \<open>Data::from_path\<close> with \<open>MaybeMime::from_path\<close>. The argument \<open>guess\<close> is what the \<open>mime_guess\<close>
  and \<open>mime\<close> crates find for the path's extension; the metadata map is empty and so is dropped.
\<close>

definition data_from_path :: "(path \<Rightarrow> string option) \<Rightarrow> path \<Rightarrow> data" where
  "data_from_path guess p =
     (let metadata = [] in
      \<lparr>d_mime = guess p, d_metadata = (if metadata = [] then None else Some metadata)\<rparr>)"

definition set_metadata :: "string \<Rightarrow> linked_data \<Rightarrow> data \<Rightarrow> data" where
  "set_metadata k v d =
     (case d_metadata d of
        Some m \<Rightarrow> d\<lparr>d_metadata := Some (bt_insert k v m)\<rparr>
      | None \<Rightarrow> d\<lparr>d_metadata := Some (bt_insert k v [])\<rparr>)"

datatype node_link = Data link secret data | Dir link secret

definition new_data_from_path ::
  "(path \<Rightarrow> string option) \<Rightarrow> link \<Rightarrow> secret \<Rightarrow> path \<Rightarrow> node_link" where
  "new_data_from_path guess l s p = Data l s (data_from_path guess p)"

definition new_data :: "link \<Rightarrow> secret \<Rightarrow> node_link" where
  "new_data l s = Data l s data_new"

definition new_dir :: "link \<Rightarrow> secret \<Rightarrow> node_link" where
  "new_dir l s = Dir l s"

fun nl_link :: "node_link \<Rightarrow> link" where
  "nl_link (Data l s d) = l"
| "nl_link (Dir l s) = l"

fun nl_secret :: "node_link \<Rightarrow> secret" where
  "nl_secret (Data l s d) = s"
| "nl_secret (Dir l s) = s"

fun nl_data :: "node_link \<Rightarrow> data option" where
  "nl_data (Data l s d) = Some d"
| "nl_data (Dir l s) = None"

fun is_dir :: "node_link \<Rightarrow> bool" where
  "is_dir (Data l s d) = False"
| "is_dir (Dir l s) = True"

fun is_data :: "node_link \<Rightarrow> bool" where
  "is_data (Data l s d) = True"
| "is_data (Dir l s) = False"

text \<open>A node is the ordered map from names to links.\<close>

type_synonym node = "(string, node_link) btree"

definition node_new :: node where
  "node_new = []"

definition get_link :: "node \<Rightarrow> string \<Rightarrow> node_link option" where
  "get_link n name = bt_get n name"

definition node_insert :: "string \<Rightarrow> node_link \<Rightarrow> node \<Rightarrow> node" where
  "node_insert name l n = bt_insert name l n"

text \<open>\<open>Node::del\<close>: the removed link, if any, and the node without it.\<close>

definition node_del :: "string \<Rightarrow> node \<Rightarrow> node_link option \<times> node" where
  "node_del name n = (bt_get n name, bt_remove name n)"

definition node_size :: "node \<Rightarrow> nat" where
  "node_size n = length n"

lemma get_link_new [simp]: "get_link node_new x = None"
  by (simp add: get_link_def node_new_def)

lemma get_link_insert: "get_link (node_insert x l n) y = (if y = x then Some l else get_link n y)"
  by (simp add: get_link_def node_insert_def map_laws)

lemma get_link_del: "get_link (snd (node_del x n)) y = (if y = x then None else get_link n y)"
  by (simp add: get_link_def node_del_def map_laws)

lemma fst_node_del [simp]: "fst (node_del x n) = get_link n x"
  by (simp add: get_link_def node_del_def)

lemma node_ok: "bt_ok node_new" "bt_ok n \<Longrightarrow> bt_ok (node_insert x l n)"
  "bt_ok n \<Longrightarrow> bt_ok (snd (node_del x n))"
  by (simp_all add: node_new_def node_insert_def node_del_def map_laws)

section \<open>Pins (\<open>pins.rs\<close>)\<close>

text \<open>
  A \<open>HashSet<Hash>\<close> as the list of its members without repetitions, in the order of an iteration.
\<close>

type_synonym pins = "hash list"

definition pins_new :: pins where
  "pins_new = []"

definition pins_insert :: "hash \<Rightarrow> pins \<Rightarrow> pins" where
  "pins_insert h p = (if h \<in> set p then p else p @ [h])"

definition pins_extend :: "hash list \<Rightarrow> pins \<Rightarrow> pins" where
  "pins_extend hs p = fold pins_insert hs p"

definition pins_contains :: "hash \<Rightarrow> pins \<Rightarrow> bool" where
  "pins_contains h p \<longleftrightarrow> h \<in> set p"

definition pins_to_vec :: "pins \<Rightarrow> hash list" where
  "pins_to_vec p = p"

definition pins_from_vec :: "hash list \<Rightarrow> pins" where
  "pins_from_vec hs = fold pins_insert hs pins_new"

lemma set_pins_insert [simp]: "set (pins_insert h p) = insert h (set p)"
  by (auto simp: pins_insert_def)

lemma distinct_pins_insert [simp]: "distinct p \<Longrightarrow> distinct (pins_insert h p)"
  by (auto simp: pins_insert_def)

lemma set_pins_extend [simp]: "set (pins_extend hs p) = set hs \<union> set p"
  unfolding pins_extend_def by (induction hs arbitrary: p) auto

lemma distinct_pins_extend [simp]: "distinct p \<Longrightarrow> distinct (pins_extend hs p)"
  unfolding pins_extend_def by (induction hs arbitrary: p) auto

lemma pins_insert_fold: "distinct (p @ hs) \<Longrightarrow> fold pins_insert hs p = p @ hs"
  by (induction hs arbitrary: p) (auto simp: pins_insert_def)

lemma pins_vec_roundtrip: "distinct p \<Longrightarrow> pins_from_vec (pins_to_vec p) = p"
  by (simp add: pins_from_vec_def pins_to_vec_def pins_new_def pins_insert_fold)

end
