(* ===== verification/Path_Ops.thy ===== *)
theory Path_Ops
  imports Paths Crypto
begin

text \<open>
  \<open>common/src/mount/path_ops.rs\<close>: the operation log of a bucket, a replicated data type. Its
  operations are keyed by Lamport timestamp and peer; \<open>merge\<close> is its join, \<open>resolve_path\<close> and
  \<open>resolve_all\<close> read the winning operations off it. \<open>merge_with_resolver\<close> is in the theory
  \<open>Conflict\<close>, with the resolvers it calls.
\<close>

section \<open>Operations and their identifiers\<close>

datatype op_type = Add | Remove | Mkdir | Mv path

datatype op_id = OpId (timestamp: u64) (peer_id: public_key)

datatype ordering = Less | Equal | Greater

definition cmp :: "'a::linorder \<Rightarrow> 'a \<Rightarrow> ordering" where
  "cmp a b = (if a < b then Less else if a = b then Equal else Greater)"

definition op_id_cmp :: "op_id \<Rightarrow> op_id \<Rightarrow> ordering" where
  "op_id_cmp a b =
     (case cmp (timestamp a) (timestamp b) of
        Equal \<Rightarrow> cmp (peer_id a) (peer_id b)
      | ord \<Rightarrow> ord)"

instantiation op_id :: linorder
begin

definition less_eq_op_id :: "op_id \<Rightarrow> op_id \<Rightarrow> bool" where
  "less_eq_op_id a b \<longleftrightarrow> op_id_cmp a b \<noteq> Greater"

definition less_op_id :: "op_id \<Rightarrow> op_id \<Rightarrow> bool" where
  "less_op_id a b \<longleftrightarrow> op_id_cmp a b = Less"

instance
proof
  fix a b c :: op_id
  note defs = less_eq_op_id_def less_op_id_def op_id_cmp_def cmp_def
  show "a < b \<longleftrightarrow> a \<le> b \<and> \<not> b \<le> a" by (auto simp: defs)
  show "a \<le> a" by (simp add: defs)
  show "a \<le> b \<Longrightarrow> b \<le> c \<Longrightarrow> a \<le> c" by (auto simp: defs split: if_splits)
  show "a \<le> b \<or> b \<le> a" by (auto simp: defs)
  show "a \<le> b \<Longrightarrow> b \<le> a \<Longrightarrow> a = b"
    by (auto simp: defs split: if_splits intro: op_id.expand)
qed

end

lemma op_id_less: "a < b \<longleftrightarrow> timestamp a < timestamp b \<or>
    timestamp a = timestamp b \<and> peer_id a < peer_id (b :: op_id)"
  by (auto simp: less_op_id_def op_id_cmp_def cmp_def)

record path_operation =
  po_id :: op_id
  po_type :: op_type
  po_path :: path
  po_content_link :: "link option"
  po_is_dir :: bool

section \<open>The log\<close>

record path_op_log =
  operations :: "(op_id, path_operation) btree"
  local_clock :: u64

definition log_new :: path_op_log where
  "log_new = \<lparr>operations = [], local_clock = 0\<rparr>"

definition from_operation :: "path_operation \<Rightarrow> path_op_log" where
  "from_operation op =
     \<lparr>operations = bt_insert (po_id op) op (operations log_new), local_clock = timestamp (po_id op)\<rparr>"

definition rebuild_clock :: "path_op_log \<Rightarrow> path_op_log" where
  "rebuild_clock l =
     l\<lparr>local_clock := fold max (map (timestamp \<circ> fst) (operations l)) 0\<rparr>"

definition log_record ::
  "public_key \<Rightarrow> op_type \<Rightarrow> path \<Rightarrow> link option \<Rightarrow> bool \<Rightarrow> path_op_log \<Rightarrow> op_id \<times> path_op_log" where
  "log_record peer ty p content_link is_dir l =
     (let clock = local_clock l + 1;
          i = OpId clock peer;
          op = \<lparr>po_id = i, po_type = ty, po_path = p, po_content_link = content_link, po_is_dir = is_dir\<rparr>
      in (i, \<lparr>operations = bt_insert i op (operations l), local_clock = clock\<rparr>))"

text \<open>One turn of the loop of \<open>merge\<close>, with the count of added operations.\<close>

definition merge_step ::
  "path_op_log \<times> nat \<Rightarrow> op_id \<times> path_operation \<Rightarrow> path_op_log \<times> nat" where
  "merge_step st e =
     (case (st, e) of ((l, added), (i, op)) \<Rightarrow>
        if bt_get (operations l) i = None then
          (\<lparr>operations = bt_insert i op (operations l),
            local_clock = (if local_clock l \<le> timestamp i then timestamp i + 1 else local_clock l)\<rparr>,
           added + 1)
        else (l, added))"

definition merge :: "path_op_log \<Rightarrow> path_op_log \<Rightarrow> path_op_log \<times> nat" where
  "merge l other = foldl merge_step (l, 0) (operations other)"

text \<open>\<open>Iterator::max_by_key\<close> on the operation ids: the last of the greatest ones.\<close>

definition max_by_id :: "path_operation list \<Rightarrow> path_operation option" where
  "max_by_id ops =
     foldl (\<lambda>best op. case best of None \<Rightarrow> Some op
              | Some b \<Rightarrow> if po_id op < po_id b then Some b else Some op) None ops"

definition ops_for_path :: "path \<Rightarrow> path_op_log \<Rightarrow> path_operation list" where
  "ops_for_path p l = filter (\<lambda>op. po_path op = p) (map snd (operations l))"

definition resolve_path :: "path \<Rightarrow> path_op_log \<Rightarrow> path_operation option" where
  "resolve_path p l =
     (let path_ops = filter (\<lambda>op. po_path op = p) (map snd (operations l)) in
      if path_ops = [] then None else max_by_id path_ops)"

definition group_by_path :: "path_operation list \<Rightarrow> (path, path_operation list) btree" where
  "group_by_path ops =
     foldl (\<lambda>m op. bt_insert (po_path op)
              ((case bt_get m (po_path op) of None \<Rightarrow> [] | Some xs \<Rightarrow> xs) @ [op]) m) [] ops"

definition resolve_all :: "path_op_log \<Rightarrow> (path, path_operation) btree" where
  "resolve_all l =
     foldl (\<lambda>r (p, ops). case max_by_id ops of
              Some winner \<Rightarrow> if po_type winner \<noteq> Remove then bt_insert p winner r else r
            | None \<Rightarrow> r) [] (group_by_path (map snd (operations l)))"

definition log_len :: "path_op_log \<Rightarrow> nat" where
  "log_len l = length (operations l)"

definition log_is_empty :: "path_op_log \<Rightarrow> bool" where
  "log_is_empty l \<longleftrightarrow> operations l = []"

definition clear_preserving_clock :: "path_op_log \<Rightarrow> path_op_log" where
  "clear_preserving_clock l = l\<lparr>operations := []\<rparr>"

definition ops_in_order :: "path_op_log \<Rightarrow> path_operation list" where
  "ops_in_order l = map snd (operations l)"

section \<open>Invariants of the log\<close>

text \<open>Operations are filed under their own id; the clock is at or past every timestamp.\<close>

definition log_ok :: "path_op_log \<Rightarrow> bool" where
  "log_ok l \<longleftrightarrow> bt_ok (operations l) \<and> (\<forall>(i, op) \<in> set (operations l). po_id op = i)"

definition clock_ok :: "path_op_log \<Rightarrow> bool" where
  "clock_ok l \<longleftrightarrow> (\<forall>i \<in> bt_keys (operations l). timestamp i \<le> local_clock l)"

lemma log_ok_new: "log_ok log_new" "clock_ok log_new"
  by (simp_all add: log_ok_def clock_ok_def log_new_def)

lemma log_ok_from_operation: "log_ok (from_operation op)" "clock_ok (from_operation op)"
  by (simp_all add: log_ok_def clock_ok_def from_operation_def log_new_def)

lemma fold_max_start: "a \<le> fold max xs (a :: 'a::linorder)"
  by (induction xs arbitrary: a) (auto intro: order_trans [OF max.cobounded2])

lemma fold_max_ge: "x \<in> set xs \<Longrightarrow> x \<le> fold max xs (a :: 'a::linorder)"
  by (induction xs arbitrary: a) (auto intro: order_trans [OF max.cobounded1 fold_max_start])

lemma log_ok_rebuild: "log_ok l \<Longrightarrow> log_ok (rebuild_clock l)" "clock_ok (rebuild_clock l)"
  by (force simp: log_ok_def clock_ok_def rebuild_clock_def image_iff intro!: fold_max_ge)+

lemma log_ok_clear: "log_ok (clear_preserving_clock l)" "clock_ok (clear_preserving_clock l)"
  by (simp_all add: log_ok_def clock_ok_def clear_preserving_clock_def)

lemma log_record_sel:
  "fst (log_record peer ty p cl d l) = OpId (local_clock l + 1) peer"
  "local_clock (snd (log_record peer ty p cl d l)) = local_clock l + 1"
  by (simp_all add: log_record_def Let_def)

lemma log_ok_record: "log_ok l \<Longrightarrow> log_ok (snd (log_record peer ty p cl d l))"
  by (auto simp: log_ok_def log_record_def Let_def set_bt_insert map_laws)

lemma clock_ok_record:
  assumes "log_ok l" and "clock_ok l" and "local_clock l \<noteq> - 1"
  shows "clock_ok (snd (log_record peer ty p cl d l))"
  using assms u64_less_Suc [of "local_clock l"]
  by (force simp: log_ok_def clock_ok_def log_record_def Let_def set_bt_insert)

section \<open>Merging\<close>

text \<open>What \<open>merge\<close> does to the operations alone.\<close>

definition ops_join ::
  "(op_id, path_operation) btree \<Rightarrow> (op_id, path_operation) btree \<Rightarrow> (op_id, path_operation) btree" where
  "ops_join a b = foldl (\<lambda>m (i, op). if bt_get m i = None then bt_insert i op m else m) a b"

lemma operations_foldl_merge_step:
  "operations (fst (foldl merge_step (l, n) es)) = ops_join (operations l) es"
  by (induction es arbitrary: l n) (auto simp: ops_join_def merge_step_def split: prod.splits)

lemma operations_merge: "operations (fst (merge a b)) = ops_join (operations a) (operations b)"
  by (simp add: merge_def operations_foldl_merge_step)

lemma ops_join_ok: "bt_ok a \<Longrightarrow> bt_ok (ops_join a b)"
  unfolding ops_join_def by (induction b arbitrary: a) (auto simp: map_laws)

lemma get_ops_join: "bt_get (ops_join a b) = bt_get b ++ bt_get a"
proof (induction b arbitrary: a)
  case (Cons e b)
  obtain i op where e: "e = (i, op)" by fastforce
  show ?case
    using Cons [of a] Cons [of "bt_insert i op a"]
    by (auto simp: e ops_join_def map_laws fun_eq_iff map_add_def split: option.splits)
qed (simp add: ops_join_def)

lemma get_merge:
  "bt_get (operations (fst (merge a b))) = bt_get (operations b) ++ bt_get (operations a)"
  by (simp add: operations_merge get_ops_join)

lemma log_ok_iff:
  "log_ok l \<longleftrightarrow> bt_ok (operations l) \<and> (\<forall>i op. bt_get (operations l) i = Some op \<longrightarrow> po_id op = i)"
  unfolding log_ok_def by (auto simp: bt_get_in dest: map_of_SomeD)

lemma log_ok_merge: "log_ok a \<Longrightarrow> log_ok b \<Longrightarrow> log_ok (fst (merge a b))"
  by (auto simp: log_ok_iff get_ops_join operations_merge ops_join_ok)

lemma merge_step_clock:
  assumes "clock_ok l" and "timestamp i \<noteq> - 1" and "bt_ok (operations l)"
  shows "clock_ok (fst (merge_step (l, n) (i, op)))"
  using assms u64_less_Suc [of "timestamp i"]
  by (force simp: clock_ok_def merge_step_def set_bt_insert)

lemma foldl_merge_clock:
  assumes "clock_ok l" and "\<forall>e \<in> set es. timestamp (fst e) \<noteq> - 1" and "bt_ok (operations l)"
  shows "clock_ok (fst (foldl merge_step (l, n) es))"
  using assms
proof (induction es arbitrary: l n)
  case (Cons e es)
  obtain i op l' n' where e: "e = (i, op)" and st: "merge_step (l, n) e = (l', n')"
    by (metis surj_pair)
  have "clock_ok l'" "bt_ok (operations l')"
    using Cons.prems merge_step_clock [of l i n op] st operations_foldl_merge_step [of l n "[e]"]
      ops_join_ok [of "operations l" "[e]"] by (auto simp: e)
  then show ?case
    using Cons.IH [of l' n'] Cons.prems(2) st by simp
qed simp

lemma clock_ok_merge:
  assumes "log_ok l" and "clock_ok l" and "\<forall>i \<in> bt_keys (operations other). timestamp i \<noteq> - 1"
  shows "clock_ok (fst (merge l other))"
  using assms foldl_merge_clock [of l "operations other" 0] by (simp add: merge_def log_ok_def)

text \<open>The count \<open>merge\<close> returns is the growth of the log.\<close>

lemma merge_step_count:
  "bt_ok (operations l) \<Longrightarrow>
     length (operations (fst (merge_step (l, n) e))) + n =
     length (operations l) + snd (merge_step (l, n) e)"
  by (cases e) (simp add: merge_step_def bt_length_insert bt_get_None)

lemma foldl_merge_count:
  "bt_ok (operations l) \<Longrightarrow>
     length (operations (fst (foldl merge_step (l, n) es))) + n =
     length (operations l) + snd (foldl merge_step (l, n) es)"
proof (induction es arbitrary: l n)
  case (Cons e es)
  obtain l' n' where st: "merge_step (l, n) e = (l', n')" by fastforce
  then have "bt_ok (operations l')"
    using Cons.prems operations_foldl_merge_step [of l n "[e]"] ops_join_ok [of _ "[e]"] by force
  then show ?case
    using Cons.IH [of l' n'] merge_step_count [OF Cons.prems, of n e] st by simp
qed simp

lemma merge_count:
  "log_ok l \<Longrightarrow> length (operations (fst (merge l other))) = length (operations l) + snd (merge l other)"
  using foldl_merge_count [of l 0 "operations other"] by (simp add: merge_def log_ok_def)

section \<open>Resolution\<close>

lemma max_by_id_snoc:
  "max_by_id (ops @ [op]) = (case max_by_id ops of None \<Rightarrow> Some op
     | Some b \<Rightarrow> if po_id op < po_id b then Some b else Some op)"
  by (simp add: max_by_id_def)

lemma max_by_id_Nil [simp]: "max_by_id [] = None"
  by (simp add: max_by_id_def)

lemma max_by_id_None [simp]: "max_by_id ops = None \<longleftrightarrow> ops = []"
  by (induction ops rule: rev_induct) (auto simp: max_by_id_snoc split: option.splits)

lemma max_by_id_Some:
  "max_by_id ops = Some b \<Longrightarrow> b \<in> set ops \<and> (\<forall>op \<in> set ops. po_id op \<le> po_id b)"
proof (induction ops arbitrary: b rule: rev_induct)
  case Nil
  then show ?case by (simp add: max_by_id_def)
next
  case (snoc op ops)
  then show ?case
    by (cases "max_by_id ops") (fastforce simp: max_by_id_snoc split: if_splits)+
qed

lemma resolve_path_max: "resolve_path p l = max_by_id (ops_for_path p l)"
  by (auto simp: resolve_path_def ops_for_path_def Let_def max_by_id_def)

lemma log_values:
  "log_ok l \<Longrightarrow> op \<in> snd ` set (operations l) \<longleftrightarrow> bt_get (operations l) (po_id op) = Some op"
  by (force simp: log_ok_def bt_get_in)

lemma resolve_path_iff:
  assumes "log_ok l"
  shows "resolve_path p l = Some b \<longleftrightarrow>
    bt_get (operations l) (po_id b) = Some b \<and> po_path b = p \<and>
    (\<forall>i op. bt_get (operations l) i = Some op \<longrightarrow> po_path op = p \<longrightarrow> i \<le> po_id b)"
    (is "?res = Some b \<longleftrightarrow> ?win b")
proof
  have ops: "op \<in> set (ops_for_path p l) \<longleftrightarrow>
      bt_get (operations l) (po_id op) = Some op \<and> po_path op = p" for op
    using log_values [OF assms, of op] by (auto simp: ops_for_path_def)
  have key: "bt_get (operations l) i = Some op \<Longrightarrow> po_id op = i" for i op
    using assms by (simp add: log_ok_iff)
  show win: "?win b" if "?res = Some b" for b
  proof -
    have b: "b \<in> set (ops_for_path p l)" "\<forall>op \<in> set (ops_for_path p l). po_id op \<le> po_id b"
      using max_by_id_Some [of "ops_for_path p l" b] that by (simp_all add: resolve_path_max)
    have "i \<le> po_id b" if i: "bt_get (operations l) i = Some op" "po_path op = p" for i op
      using b(2) key [OF i(1)] ops [of op] i by auto
    then show ?thesis
      using b(1) ops by blast
  qed
  assume b: "?win b"
  then have "b \<in> set (ops_for_path p l)"
    by (simp add: ops)
  then obtain c where c: "?res = Some c"
    by (cases ?res) (auto simp: resolve_path_max)
  note wc = win [OF c]
  have "po_id c \<le> po_id b"
    using b [THEN conjunct2, THEN conjunct2] wc [THEN conjunct1] wc [THEN conjunct2, THEN conjunct1]
    by blast
  moreover have "po_id b \<le> po_id c"
    using wc [THEN conjunct2, THEN conjunct2] b [THEN conjunct1] b [THEN conjunct2, THEN conjunct1]
    by blast
  ultimately have "po_id c = po_id b"
    by (rule order_antisym)
  then have "c = b"
    using wc [THEN conjunct1] b [THEN conjunct1] by (metis option.inject)
  then show "?res = Some b"
    using c by simp
qed

lemma resolve_path_None:
  "log_ok l \<Longrightarrow> resolve_path p l = None \<longleftrightarrow>
     (\<forall>i op. bt_get (operations l) i = Some op \<longrightarrow> po_path op \<noteq> p)"
  by (force simp: resolve_path_max ops_for_path_def filter_empty_conv bt_get_in log_ok_def)

lemma group_by_path_lookup:
  "bt_ok (group_by_path ops) \<and> bt_get (group_by_path ops) p =
     (let xs = filter (\<lambda>op. po_path op = p) ops in if xs = [] then None else Some xs)"
  by (induction ops rule: rev_induct)
    (auto simp: group_by_path_def map_laws Let_def split: if_splits)

definition keep_winner :: "path_operation list \<Rightarrow> path_operation option" where
  "keep_winner ops = (case max_by_id ops of None \<Rightarrow> None
     | Some b \<Rightarrow> if po_type b \<noteq> Remove then Some b else None)"

lemma resolve_all_foldl:
  assumes "distinct (map fst g)"
  shows "bt_ok (foldl (\<lambda>r (p, ops). case max_by_id ops of
            Some winner \<Rightarrow> if po_type winner \<noteq> Remove then bt_insert p winner r else r
          | None \<Rightarrow> r) [] g) \<and>
    bt_get (foldl (\<lambda>r (p, ops). case max_by_id ops of
            Some winner \<Rightarrow> if po_type winner \<noteq> Remove then bt_insert p winner r else r
          | None \<Rightarrow> r) [] g) p = Option.bind (bt_get g p) keep_winner"
  using assms
proof (induction g rule: rev_induct)
  case (snoc e g)
  moreover obtain q ops where e: "e = (q, ops)" by fastforce
  moreover have "bt_get g q = None"
    using snoc.prems by (force simp: e bt_get_None)
  ultimately show ?case
    by (auto simp: map_laws keep_winner_def map_add_def split: option.splits)
qed simp

lemma resolve_all_lookup:
  "bt_get (resolve_all l) p =
     (case resolve_path p l of None \<Rightarrow> None
      | Some b \<Rightarrow> if po_type b \<noteq> Remove then Some b else None)"
proof -
  let ?g = "group_by_path (map snd (operations l))"
  have "distinct (map fst ?g)"
    using group_by_path_lookup [of "map snd (operations l)"] bt_ok_distinct by blast
  then have "bt_get (resolve_all l) p = Option.bind (bt_get ?g p) keep_winner"
    using resolve_all_foldl [of ?g p] by (simp add: resolve_all_def)
  then show ?thesis
    using group_by_path_lookup [of "map snd (operations l)" p]
    by (simp add: Let_def resolve_path_def keep_winner_def split: option.splits)
qed

lemma resolve_all_ok: "bt_ok (resolve_all l)"
  using resolve_all_foldl [of "group_by_path (map snd (operations l))"]
    group_by_path_lookup [of "map snd (operations l)"] bt_ok_distinct
  unfolding resolve_all_def by blast

section \<open>Convergence\<close>

text \<open>
  The contract of a state-based replicated data type: on the states that can occur together, the
  join is idempotent, commutative and associative. Then the order in which states are joined, and
  how often, does not matter.
\<close>

locale state_crdt =
  fixes ok :: "'s \<Rightarrow> bool"
    and join :: "'s \<Rightarrow> 's \<Rightarrow> 's"
  assumes join_ok: "ok a \<Longrightarrow> ok b \<Longrightarrow> ok (join a b)"
    and join_idem: "ok a \<Longrightarrow> join a a = a"
    and join_commute: "ok a \<Longrightarrow> ok b \<Longrightarrow> join a b = join b a"
    and join_assoc: "ok a \<Longrightarrow> ok b \<Longrightarrow> ok c \<Longrightarrow> join (join a b) c = join a (join b c)"
begin

lemma foldl_join_ok: "ok s \<Longrightarrow> \<forall>x \<in> set xs. ok x \<Longrightarrow> ok (foldl join s xs)"
  by (induction xs arbitrary: s) (auto simp: join_ok)

lemma join_absorb: "ok a \<Longrightarrow> ok b \<Longrightarrow> join (join a b) b = join a b"
  by (simp add: join_assoc join_idem)

lemma absorbs_foldl:
  assumes "ok u" "ok s" "\<forall>x \<in> set xs. ok x" "join u s = u" "\<forall>x \<in> set xs. join u x = u"
  shows "join u (foldl join s xs) = u"
  using assms
proof (induction xs arbitrary: s)
  case (Cons x xs)
  have "join u (join s x) = u"
    using Cons.prems join_assoc [of u s x] by simp
  then show ?case
    using Cons join_ok by simp
qed simp

lemma foldl_absorbs:
  assumes "ok s" "\<forall>x \<in> set xs. ok x" "y = s \<or> y \<in> set xs"
  shows "join (foldl join s xs) y = foldl join s xs"
  using assms
proof (induction xs rule: rev_induct)
  case Nil
  then show ?case by (simp add: join_idem)
next
  case (snoc x xs)
  let ?r = "foldl join s xs"
  have ok: "ok ?r" "ok x" "ok y"
    using snoc.prems by (auto simp: foldl_join_ok)
  have "y = x \<or> join ?r y = ?r"
    using snoc by auto
  then show ?case
    using ok join_absorb [of ?r x] join_assoc [of ?r x y] join_assoc [of ?r y x] join_commute [of x y]
    by auto
qed

lemma foldl_join_set:
  assumes "ok s" "\<forall>x \<in> set xs. ok x" "set xs = set ys"
  shows "foldl join s xs = foldl join s ys"
proof -
  let ?a = "foldl join s xs" and ?b = "foldl join s ys"
  have ok: "ok ?a" "ok ?b"
    using assms by (auto intro: foldl_join_ok)
  have "join ?a ?b = ?a"
    using assms ok by (intro absorbs_foldl) (auto intro: foldl_absorbs)
  moreover have "join ?b ?a = ?b"
    using assms ok by (intro absorbs_foldl) (auto intro: foldl_absorbs)
  ultimately show ?thesis
    using join_commute [OF ok] by simp
qed

end

text \<open>
  Logs of one history agree on what an id stands for: \<open>G\<close> is the assignment of operations to ids.
\<close>

definition agrees :: "(op_id \<Rightarrow> path_operation option) \<Rightarrow> (op_id, path_operation) btree \<Rightarrow> bool" where
  "agrees G m \<longleftrightarrow> bt_ok m \<and> (\<forall>i op. bt_get m i = Some op \<longrightarrow> G i = Some op)"

lemma agrees_map_add:
  "agrees G a \<Longrightarrow> agrees G b \<Longrightarrow> bt_get b ++ bt_get a = bt_get a ++ bt_get b"
  by (auto simp: agrees_def fun_eq_iff map_add_def split: option.splits) fastforce

interpretation log_crdt: state_crdt "agrees G" ops_join for G
proof
  fix a b c
  show "agrees G a \<Longrightarrow> agrees G b \<Longrightarrow> agrees G (ops_join a b)"
    by (auto simp: agrees_def get_ops_join ops_join_ok)
  show "agrees G a \<Longrightarrow> ops_join a a = a"
    by (rule bt_get_inject)
      (auto simp: agrees_def get_ops_join ops_join_ok map_add_def split: option.splits)
  show "agrees G a \<Longrightarrow> agrees G b \<Longrightarrow> ops_join a b = ops_join b a"
    by (rule bt_get_inject) (auto simp: get_ops_join agrees_map_add agrees_def ops_join_ok)
  show "agrees G a \<Longrightarrow> agrees G b \<Longrightarrow> agrees G c \<Longrightarrow>
      ops_join (ops_join a b) c = ops_join a (ops_join b c)"
    by (rule bt_get_inject) (auto simp: get_ops_join agrees_def ops_join_ok)
qed

text \<open>Merging several logs one after the other, as the callers of \<open>merge\<close> do.\<close>

definition merge_all :: "path_op_log \<Rightarrow> path_op_log list \<Rightarrow> path_op_log" where
  "merge_all l ls = foldl (\<lambda>a x. fst (merge a x)) l ls"

lemma operations_merge_all:
  "operations (merge_all l ls) = foldl ops_join (operations l) (map operations ls)"
  unfolding merge_all_def by (induction ls arbitrary: l) (auto simp: operations_merge)

lemma resolve_all_cong: "operations a = operations b \<Longrightarrow> resolve_all a = resolve_all b"
  by (simp add: resolve_all_def)

text \<open>
  C22: convergence of the plain merge. When all logs agree on the operation that an id stands for
  (\<open>agrees\<close>), replicas that merge the same logs, in any order and any number of times, end with the same
  operations and the same resolved file system. Logs that record operations and merge them plainly
  agree; a log that \<open>ConflictFile\<close> has merged keeps a renamed operation under the id of the original and
  need not agree with the others.
\<close>

theorem merge_converges:
  assumes "agrees G (operations l)" and "\<forall>x \<in> set ls. agrees G (operations x)"
    and "set ls = set ls'"
  shows "operations (merge_all l ls) = operations (merge_all l ls') \<and>
    resolve_all (merge_all l ls) = resolve_all (merge_all l ls')"
proof -
  have "operations (merge_all l ls) = operations (merge_all l ls')"
    using assms unfolding operations_merge_all by (intro log_crdt.foldl_join_set [of G]) auto
  then show ?thesis
    using resolve_all_cong by blast
qed

text \<open>
  Lamport order. In a log whose clock is not behind its operations and has not reached the
  last \<open>u64\<close>, a recorded operation gets an id greater than every id in the log; the new log has
  exactly one operation more, keeps the invariants and resolves the path to the new operation.
\<close>

theorem record_is_latest:
  assumes "log_ok l" and "clock_ok l" and "local_clock l \<noteq> - 1"
    and "log_record peer ty p cl d l = (i, l')"
  shows "(\<forall>j \<in> bt_keys (operations l). j < i) \<and> log_ok l' \<and> clock_ok l' \<and>
    log_len l' = log_len l + 1 \<and>
    resolve_path p l' = Some \<lparr>po_id = i, po_type = ty, po_path = p, po_content_link = cl, po_is_dir = d\<rparr>"
proof -
  have i: "i = OpId (local_clock l + 1) peer" and l': "l' = snd (log_record peer ty p cl d l)"
    using log_record_sel(1) [of peer ty p cl d l] assms(4) by simp_all
  let ?op = "\<lparr>po_id = i, po_type = ty, po_path = p, po_content_link = cl, po_is_dir = d\<rparr>"
  have ops: "operations l' = bt_insert i ?op (operations l)"
    by (simp add: l' i log_record_def Let_def)
  have less: "j < i" if "j \<in> bt_keys (operations l)" for j
  proof -
    have "timestamp j \<le> local_clock l"
      using that assms(2) by (auto simp: clock_ok_def)
    then show ?thesis
      using u64_less_Suc [OF assms(3)] by (auto simp: op_id_less i intro: le_less_trans)
  qed
  then have new: "i \<notin> bt_keys (operations l)"
    by blast
  have ok': "log_ok l'"
    using log_ok_record [OF assms(1)] l' by simp
  have "resolve_path p l' = Some ?op"
    unfolding resolve_path_iff [OF ok'] using less
    by (auto simp: ops map_laws bt_get_None dest!: map_of_SomeD)
      (metis fst_conv image_eqI less_imp_le)
  moreover have "log_len l' = log_len l + 1"
    using new assms(1) by (simp add: log_len_def ops bt_length_insert log_ok_def)
  ultimately show ?thesis
    using less ok' clock_ok_record [OF assms(1-3), of peer ty p cl d] l' by simp
qed

section \<open>Concrete instances\<close>

text \<open>Operations of two peers on one file, and the logs that hold them.\<close>

definition sample_op :: "u64 \<Rightarrow> byte \<Rightarrow> op_type \<Rightarrow> string \<Rightarrow> path_operation" where
  "sample_op t peer ty name = \<lparr>po_id = OpId t [peer], po_type = ty, po_path = [Normal name],
     po_content_link = None, po_is_dir = False\<rparr>"

definition sample_log :: "path_operation list \<Rightarrow> u64 \<Rightarrow> path_op_log" where
  "sample_log ops c = \<lparr>operations = map (\<lambda>op. (po_id op, op)) ops, local_clock = c\<rparr>"

theorem merge_converges_witness:
  "resolve_all (merge_all log_new [sample_log [sample_op 1 1 Add ''f''] 1, sample_log [sample_op 1 2 Remove ''f''] 1])
   = resolve_all (merge_all log_new [sample_log [sample_op 1 2 Remove ''f''] 1,
       sample_log [sample_op 1 1 Add ''f''] 1, sample_log [sample_op 1 2 Remove ''f''] 1])"
  by (rule merge_converges [where G = "map_of [(OpId 1 [1], sample_op 1 1 Add ''f''),
        (OpId 1 [2], sample_op 1 2 Remove ''f'')]", THEN conjunct2])
    (auto simp: agrees_def log_new_def sample_log_def sample_op_def split: if_splits)

theorem record_is_latest_witness:
  "OpId 1 [2] < OpId 2 [1] \<and>
   resolve_path [Normal ''f''] (snd (log_record [1] Remove [Normal ''f''] None False
     (sample_log [sample_op 1 2 Add ''f''] 1))) = Some (sample_op 2 1 Remove ''f'')"
proof -
  let ?l = "sample_log [sample_op 1 2 Add ''f''] 1"
  have h: "log_ok ?l" "clock_ok ?l" "local_clock ?l \<noteq> - 1"
    by (simp_all add: log_ok_def clock_ok_def sample_log_def sample_op_def)
  have r: "log_record [1] Remove [Normal ''f''] None False ?l =
      (OpId 2 [1], snd (log_record [1] Remove [Normal ''f''] None False ?l))"
    by (simp add: log_record_def Let_def sample_log_def)
  show ?thesis
    using record_is_latest [OF h r] by (simp add: sample_log_def sample_op_def)
qed

end
