(* ===== verification/Conflict.thy ===== *)
theory Conflict
  imports Path_Ops
begin

text \<open>
  \<open>common/src/mount/conflict\<close> and \<open>PathOpLog::merge_with_resolver\<close>, \<open>merge_logs\<close> of
  \<open>path_ops.rs\<close>: detection of conflicting operations, the four built-in resolution strategies,
  and the merge that consults one. The trait \<open>ConflictResolver\<close> is the locale
  \<open>conflict_resolver\<close>; the built-in strategies are its interpretations.
\<close>

section \<open>Types (\<open>types.rs\<close>)\<close>

record conflict =
  c_path :: path
  c_base :: path_operation
  c_incoming :: path_operation

definition conflict_new :: "path \<Rightarrow> path_operation \<Rightarrow> path_operation \<Rightarrow> conflict" where
  "conflict_new p b i = \<lparr>c_path = p, c_base = b, c_incoming = i\<rparr>"

definition is_concurrent :: "conflict \<Rightarrow> bool" where
  "is_concurrent c \<longleftrightarrow> timestamp (po_id (c_base c)) = timestamp (po_id (c_incoming c))"

definition crdt_winner :: "conflict \<Rightarrow> path_operation" where
  "crdt_winner c = (if po_id (c_base c) < po_id (c_incoming c) then c_incoming c else c_base c)"

datatype resolution = UseBase | UseIncoming | KeepBoth | SkipBoth | RenameIncoming path

record resolved_conflict =
  rc_conflict :: conflict
  rc_resolution :: resolution

record merge_result =
  operations_added :: nat
  conflicts_resolved :: "resolved_conflict list"
  unresolved_conflicts :: "conflict list"

definition merge_result_new :: merge_result where
  "merge_result_new = \<lparr>operations_added = 0, conflicts_resolved = [], unresolved_conflicts = []\<rparr>"

definition has_unresolved :: "merge_result \<Rightarrow> bool" where
  "has_unresolved r \<longleftrightarrow> unresolved_conflicts r \<noteq> []"

definition total_conflicts :: "merge_result \<Rightarrow> nat" where
  "total_conflicts r = length (conflicts_resolved r) + length (unresolved_conflicts r)"

section \<open>Detection (\<open>mod.rs\<close>)\<close>

fun is_destructive :: "op_type \<Rightarrow> bool" where
  "is_destructive Remove = True"
| "is_destructive (Mv p) = True"
| "is_destructive _ = False"

definition operations_conflict :: "path_operation \<Rightarrow> path_operation \<Rightarrow> bool" where
  "operations_conflict base incoming =
     (if po_id base = po_id incoming then False
      else if po_path base \<noteq> po_path incoming then False
      else is_destructive (po_type base) \<or> is_destructive (po_type incoming) \<or>
        (po_type base = Add \<and> po_type incoming = Add))"

definition conflicts_with_mv_source :: "path_operation \<Rightarrow> path \<Rightarrow> bool" where
  "conflicts_with_mv_source op mv_from \<longleftrightarrow> po_path op = mv_from"

section \<open>Resolvers\<close>

type_synonym resolver = "conflict \<Rightarrow> public_key \<Rightarrow> resolution"

definition base_wins :: resolver where
  "base_wins c local_peer = UseBase"

definition fork_on_conflict :: resolver where
  "fork_on_conflict c local_peer = KeepBoth"

definition last_write_wins :: resolver where
  "last_write_wins c local_peer =
     (if po_id (c_base c) < po_id (c_incoming c) then UseIncoming else UseBase)"

text \<open>\<open>u64::to_string\<close>: decimal digits.\<close>

fun dec_string :: "nat \<Rightarrow> string" where
  "dec_string n =
     (if n < 10 then [char_of (48 + n)] else dec_string (n div 10) @ [char_of (48 + n mod 10)])"

declare dec_string.simps [simp del]

definition conflict_path :: "path \<Rightarrow> string \<Rightarrow> path" where
  "conflict_path p version =
     (let name = (case file_name p of None \<Rightarrow> ''file'' | Some n \<Rightarrow> n);
          conflict_name = name @ ''@'' @ version
      in case parent p of
           Some par \<Rightarrow> (if par \<noteq> [] then push par (components conflict_name)
             else components conflict_name)
         | None \<Rightarrow> components conflict_name)"

definition CONFLICT_HASH_LENGTH :: nat where
  "CONFLICT_HASH_LENGTH = 8"

text \<open>
  \<open>ConflictFile { hash_length }\<close>. The text of a hash is \<open>iroh_blobs::Hash::to_string\<close>, the
  argument \<open>show_hash\<close>.
\<close>

definition conflict_file :: "(hash \<Rightarrow> string) \<Rightarrow> nat \<Rightarrow> resolver" where
  "conflict_file show_hash hash_length c local_peer =
     (case (po_type (c_base c), po_type (c_incoming c)) of
        (Add, Add) \<Rightarrow>
          (let version = (case po_content_link (c_incoming c) of
                 Some l \<Rightarrow> take hash_length (show_hash (link_hash l))
               | None \<Rightarrow> dec_string (unat (timestamp (po_id (c_incoming c)))))
           in RenameIncoming (conflict_path (po_path (c_incoming c)) version))
      | _ \<Rightarrow> (if po_id (c_base c) < po_id (c_incoming c) then UseIncoming else UseBase))"

section \<open>Merging with a resolver (\<open>path_ops.rs\<close>)\<close>

text \<open>
  The loop over the incoming operations. The first loop of the source fills a map
  (\<open>conflicts_by_path\<close>) that nothing reads; it has no effect and is not repeated here.
\<close>

definition resolver_step ::
  "resolver \<Rightarrow> public_key \<Rightarrow> path_op_log \<times> merge_result \<Rightarrow> op_id \<times> path_operation \<Rightarrow> path_op_log \<times> merge_result" where
  "resolver_step resolve local_peer st e =
     (case (st, e) of ((l, r), (i, op)) \<Rightarrow>
        if bt_get (operations l) i \<noteq> None then (l, r)
        else
          (let l1 = l\<lparr>local_clock := (if local_clock l \<le> timestamp i then timestamp i + 1 else local_clock l)\<rparr>
           in case find (\<lambda>existing. operations_conflict existing op) (map snd (operations l1)) of
             Some base \<Rightarrow>
               (let c = conflict_new (po_path op) base op; res = resolve c local_peer;
                    resolved = r\<lparr>conflicts_resolved := conflicts_resolved r @ [\<lparr>rc_conflict = c, rc_resolution = res\<rparr>]\<rparr>;
                    added = l1\<lparr>operations := bt_insert i op (operations l1)\<rparr>
                in case res of
                  UseBase \<Rightarrow> (l1, resolved)
                | UseIncoming \<Rightarrow> (added, resolved\<lparr>operations_added := operations_added r + 1\<rparr>)
                | KeepBoth \<Rightarrow> (added, r\<lparr>operations_added := operations_added r + 1,
                      unresolved_conflicts := unresolved_conflicts r @ [c]\<rparr>)
                | SkipBoth \<Rightarrow> (l1, resolved)
                | RenameIncoming new_path \<Rightarrow>
                    (l1\<lparr>operations := bt_insert i (op\<lparr>po_path := new_path\<rparr>) (operations l1)\<rparr>,
                     resolved\<lparr>operations_added := operations_added r + 1\<rparr>))
           | None \<Rightarrow> (l1\<lparr>operations := bt_insert i op (operations l1)\<rparr>,
               r\<lparr>operations_added := operations_added r + 1\<rparr>)))"

definition merge_with_resolver ::
  "path_op_log \<Rightarrow> path_op_log \<Rightarrow> resolver \<Rightarrow> public_key \<Rightarrow> path_op_log \<times> merge_result" where
  "merge_with_resolver l other resolve local_peer =
     foldl (resolver_step resolve local_peer) (l, merge_result_new) (operations other)"

definition merge_logs ::
  "path_op_log list \<Rightarrow> resolver \<Rightarrow> public_key \<Rightarrow> path_op_log \<times> merge_result list" where
  "merge_logs logs resolve local_peer =
     (case logs of
        [] \<Rightarrow> (log_new, [])
      | l # ls \<Rightarrow>
          foldl (\<lambda>(merged, results) x.
              let (merged', res) = merge_with_resolver merged x resolve local_peer
              in (merged', results @ [res])) (l, []) ls)"

section \<open>What one step does\<close>

lemma resolver_step_known:
  "bt_get (operations l) i \<noteq> None \<Longrightarrow> resolver_step res lp (l, r) (i, op) = (l, r)"
  by (simp add: resolver_step_def)

lemma resolver_step_cases:
  assumes "bt_get (operations l) i = None"
    and "resolver_step res lp (l, r) (i, op) = (l', r')"
  obtains (added) op' where "operations l' = bt_insert i op' (operations l)"
      "po_id op' = po_id op" "po_type op' = po_type op"
      "operations_added r' = operations_added r + 1"
      "set (conflicts_resolved r) \<subseteq> set (conflicts_resolved r')"
  | (dropped) base x where "operations l' = operations l" "base \<in> snd ` set (operations l)"
      "operations_conflict base op" "operations_added r' = operations_added r"
      "x = res (conflict_new (po_path op) base op) lp" "x = UseBase \<or> x = SkipBoth"
      "conflicts_resolved r' = conflicts_resolved r @
         [\<lparr>rc_conflict = conflict_new (po_path op) base op, rc_resolution = x\<rparr>]"
proof (cases "find (\<lambda>existing. operations_conflict existing op) (map snd (operations l))")
  case None
  then show ?thesis
    using assms by (intro added [of op]) (auto simp: resolver_step_def Let_def)
next
  case (Some base)
  then have base: "base \<in> snd ` set (operations l)" "operations_conflict base op"
    by (auto simp: find_Some_iff)
  show ?thesis
  proof (cases "res (conflict_new (po_path op) base op) lp")
    case UseBase
    then show ?thesis
      using assms Some base by (intro dropped [of base UseBase]) (auto simp: resolver_step_def Let_def)
  next
    case SkipBoth
    then show ?thesis
      using assms Some base by (intro dropped [of base SkipBoth]) (auto simp: resolver_step_def Let_def)
  next
    case (RenameIncoming p)
    then show ?thesis
      using assms Some by (intro added [of "op\<lparr>po_path := p\<rparr>"]) (auto simp: resolver_step_def Let_def)
  qed (use assms Some in \<open>auto intro!: added [of op] simp: resolver_step_def Let_def\<close>)
qed

lemma resolver_step_log_ok:
  assumes "log_ok l" and "po_id op = i"
  shows "log_ok (fst (resolver_step res lp (l, r) (i, op)))"
proof (cases "bt_get (operations l) i")
  case None
  obtain l' r' where st: "resolver_step res lp (l, r) (i, op) = (l', r')" by fastforce
  from None st have "log_ok l'"
  proof (cases rule: resolver_step_cases)
    case (added op')
    then show ?thesis
      using assms by (auto simp: log_ok_iff map_laws)
  next
    case (dropped base x)
    then show ?thesis
      using assms by (simp add: log_ok_def)
  qed
  then show ?thesis
    by (simp add: st)
qed (simp add: resolver_step_known assms)

lemma resolver_step_grows:
  "bt_get (operations l) \<subseteq>\<^sub>m bt_get (operations (fst (resolver_step res lp (l, r) (i, op))))"
proof (cases "bt_get (operations l) i")
  case None
  obtain l' r' where st: "resolver_step res lp (l, r) (i, op) = (l', r')" by fastforce
  from None st have "bt_get (operations l) \<subseteq>\<^sub>m bt_get (operations l')"
    by (cases rule: resolver_step_cases) (auto simp: map_laws map_le_def None)
  then show ?thesis
    by (simp add: st)
qed (simp add: resolver_step_known)

lemma resolver_step_conflicts:
  "set (conflicts_resolved r) \<subseteq> set (conflicts_resolved (snd (resolver_step res lp (l, r) (i, op))))"
proof (cases "bt_get (operations l) i")
  case None
  obtain l' r' where st: "resolver_step res lp (l, r) (i, op) = (l', r')" by fastforce
  from None st have "set (conflicts_resolved r) \<subseteq> set (conflicts_resolved r')"
    by (cases rule: resolver_step_cases) auto
  then show ?thesis
    by (simp add: st)
qed (simp add: resolver_step_known)

lemma foldl_resolver_grows:
  "bt_get (operations l) \<subseteq>\<^sub>m bt_get (operations (fst (foldl (resolver_step res lp) (l, r) es))) \<and>
   set (conflicts_resolved r) \<subseteq> set (conflicts_resolved (snd (foldl (resolver_step res lp) (l, r) es)))"
proof (induction es arbitrary: l r)
  case (Cons e es)
  obtain i op l' r' where e: "e = (i, op)" and st: "resolver_step res lp (l, r) (i, op) = (l', r')"
    by (metis surj_pair)
  show ?case
    using Cons [of l' r'] resolver_step_grows [of l res lp r i op]
      resolver_step_conflicts [of r res lp l i op] by (auto simp: e st intro: map_le_trans)
qed simp

section \<open>The resolver contract\<close>

text \<open>
  What the merge needs of a strategy to lose nothing silently: it never answers \<open>SkipBoth\<close>. Then
  every incoming operation is in the merged log or is reported as lost to a local operation.
\<close>

locale conflict_resolver =
  fixes resolve :: resolver
  assumes never_skips: "resolve c local_peer \<noteq> SkipBoth"
begin

lemma step_accounts:
  assumes "resolver_step resolve lp (l, r) (i, op) = (l', r')"
  shows "bt_get (operations l') i \<noteq> None \<or>
    (\<exists>rc \<in> set (conflicts_resolved r'). c_incoming (rc_conflict rc) = op \<and> rc_resolution rc = UseBase)"
proof (cases "bt_get (operations l) i")
  case None
  from None assms show ?thesis
  proof (cases rule: resolver_step_cases)
    case (added op')
    then show ?thesis by (simp add: map_laws)
  next
    case (dropped base x)
    then have "x = UseBase"
      using never_skips by metis
    with dropped show ?thesis by (simp add: conflict_new_def)
  qed
qed (use assms in \<open>simp add: resolver_step_known\<close>)

lemma fold_accounts:
  "e \<in> set es \<Longrightarrow> foldl (resolver_step resolve lp) (l, r) es = (l', r') \<Longrightarrow>
    bt_get (operations l') (fst e) \<noteq> None \<or>
    (\<exists>rc \<in> set (conflicts_resolved r'). c_incoming (rc_conflict rc) = snd e \<and> rc_resolution rc = UseBase)"
proof (induction es arbitrary: l r)
  case (Cons a es)
  obtain l1 r1 where st: "resolver_step resolve lp (l, r) a = (l1, r1)" by fastforce
  show ?case
  proof (cases "e \<in> set es")
    case True
    then show ?thesis
      using Cons st by simp
  next
    case False
    then have "e = a" using Cons.prems by simp
    have "bt_get (operations l1) \<subseteq>\<^sub>m bt_get (operations l') \<and>
        set (conflicts_resolved r1) \<subseteq> set (conflicts_resolved r')"
      using foldl_resolver_grows [of l1 resolve lp r1 es] Cons.prems st by simp
    then show ?thesis
      using step_accounts [of lp l r "fst a" "snd a" l1 r1] st \<open>e = a\<close>
      by (auto simp: map_le_def) (metis domI)+
  qed
qed simp

lemma merge_accounts:
  assumes "merge_with_resolver l other resolve lp = (l', r)"
    and "(i, op) \<in> set (operations other)"
  shows "bt_get (operations l') i \<noteq> None \<or>
    (\<exists>rc \<in> set (conflicts_resolved r). c_incoming (rc_conflict rc) = op \<and> rc_resolution rc = UseBase)"
  using assms fold_accounts [of "(i, op)" "operations other" lp l merge_result_new l' r]
  by (simp add: merge_with_resolver_def)

end

interpretation base_wins: conflict_resolver base_wins
  by unfold_locales (simp add: base_wins_def)

interpretation fork_on_conflict: conflict_resolver fork_on_conflict
  by unfold_locales (simp add: fork_on_conflict_def)

interpretation last_write_wins: conflict_resolver last_write_wins
  by unfold_locales (simp add: last_write_wins_def)

interpretation conflict_file: conflict_resolver "conflict_file show_hash n" for show_hash n
  by unfold_locales (simp add: conflict_file_def Let_def split: op_type.splits)

lemma merge_with_resolver_grows:
  "bt_get (operations l) \<subseteq>\<^sub>m bt_get (operations (fst (merge_with_resolver l other res lp)))"
  using foldl_resolver_grows by (auto simp: merge_with_resolver_def)

lemma log_ok_foldl_resolver:
  "log_ok l \<Longrightarrow> \<forall>(i, op) \<in> set es. po_id op = i \<Longrightarrow>
     log_ok (fst (foldl (resolver_step res lp) (l, r) es))"
proof (induction es arbitrary: l r)
  case (Cons e es)
  obtain i op where e: "e = (i, op)"
    by fastforce
  obtain l1 r1 where st: "resolver_step res lp (l, r) e = (l1, r1)"
    by fastforce
  have "log_ok l1"
    using resolver_step_log_ok [OF Cons.prems(1), of op i res lp r] Cons.prems(2) st by (simp add: e)
  then show ?case
    using Cons.IH [of l1 r1] Cons.prems(2) st by simp
qed simp

lemma log_ok_merge_with_resolver:
  "log_ok l \<Longrightarrow> log_ok other \<Longrightarrow> log_ok (fst (merge_with_resolver l other res lp))"
  unfolding merge_with_resolver_def by (rule log_ok_foldl_resolver) (auto simp: log_ok_def)

section \<open>Last write wins is the plain merge\<close>

text \<open>
  \<open>S\<close> (the resolver's log) lags behind \<open>M\<close> (the plain merge) only by operations that lose to
  another operation on the same path.
\<close>

definition dominated :: "(op_id, path_operation) btree \<Rightarrow> (op_id, path_operation) btree \<Rightarrow> bool" where
  "dominated S M \<longleftrightarrow> bt_get S \<subseteq>\<^sub>m bt_get M \<and>
     (\<forall>i op. bt_get M i = Some op \<longrightarrow>
        (\<exists>j op'. bt_get S j = Some op' \<and> po_path op' = po_path op \<and> i \<le> j))"

lemma dominated_insert:
  assumes "dominated S M" and "bt_get M i = None"
  shows "dominated (bt_insert i op S) (bt_insert i op M)"
  unfolding dominated_def
proof (intro conjI allI impI)
  show "bt_get (bt_insert i op S) \<subseteq>\<^sub>m bt_get (bt_insert i op M)"
    using assms by (auto simp: dominated_def map_laws map_le_def)
  have "bt_get S i = None"
    using assms by (auto simp: dominated_def map_le_def dom_def)
  then show "\<exists>j op''. bt_get (bt_insert i op S) j = Some op'' \<and> po_path op'' = po_path op' \<and> k \<le> j"
    if "bt_get (bt_insert i op M) k = Some op'" for k op'
    using that assms(1) by (cases "k = i") (auto simp: map_laws dominated_def, metis option.distinct(1))
qed

lemma dominated_insert_right:
  assumes "dominated S M" and "bt_get M i = None"
    and "bt_get S j = Some op'" and "po_path op' = po_path op" and "i \<le> j"
  shows "dominated S (bt_insert i op M)"
  using assms by (auto simp: dominated_def map_laws map_le_def dom_def)

lemma dominated_get:
  assumes "dominated s m" and "bt_get s i = Some op"
  shows "bt_get m i = Some op"
  using assms by (auto simp: dominated_def map_le_def dom_def)

lemma dominated_resolve_path:
  assumes "log_ok s" and "log_ok m" and "dominated (operations s) (operations m)"
  shows "resolve_path p s = resolve_path p m"
proof (cases "resolve_path p m")
  case None
  then have "\<forall>i op. bt_get (operations m) i = Some op \<longrightarrow> po_path op \<noteq> p"
    by (simp add: resolve_path_None [OF assms(2)])
  then have "resolve_path p s = None"
    using dominated_get [OF assms(3)] unfolding resolve_path_None [OF assms(1)] by blast
  then show ?thesis
    by (simp add: None)
next
  case (Some b)
  note b = Some [unfolded resolve_path_iff [OF assms(2)]]
  obtain j op' where j: "bt_get (operations s) j = Some op'" "po_path op' = p" "po_id b \<le> j"
    using assms(3) b unfolding dominated_def by blast
  have "j \<le> po_id b"
    using b [THEN conjunct2, THEN conjunct2] dominated_get [OF assms(3) j(1)] j(2) by blast
  then have "j = po_id b" "op' = b"
    using j(3) dominated_get [OF assms(3) j(1)] b by auto
  then have "resolve_path p s = Some b"
    unfolding resolve_path_iff [OF assms(1)] using j b dominated_get [OF assms(3)] by blast
  then show ?thesis
    by (simp add: Some)
qed

lemma lww_step_dominated:
  assumes "log_ok s" and "dominated (operations s) (operations m)" and "po_id op = i"
    and new: "bt_get (operations s) i = None" "bt_get (operations m) i = None"
  shows "dominated (operations (fst (resolver_step last_write_wins lp (s, r) (i, op))))
    (operations (fst (merge_step (m, n) (i, op))))"
proof -
  have m': "operations (fst (merge_step (m, n) (i, op))) = bt_insert i op (operations m)"
    using new by (simp add: merge_step_def)
  let ?find = "find (\<lambda>existing. operations_conflict existing op) (map snd (operations s))"
  show ?thesis
  proof (cases ?find)
    case None
    then show ?thesis
      using new assms(2) by (simp add: m' dominated_insert resolver_step_def)
  next
    case (Some base)
    then have "base \<in> snd ` set (operations s)" "operations_conflict base op"
      by (auto simp: find_Some_iff)
    then have base: "bt_get (operations s) (po_id base) = Some base" "po_path base = po_path op"
      using log_values [OF assms(1)] by (auto simp: operations_conflict_def split: if_splits)
    show ?thesis
    proof (cases "po_id base < i")
      case True
      then show ?thesis
        using new assms Some
        by (simp add: m' dominated_insert resolver_step_def last_write_wins_def conflict_new_def Let_def)
    next
      case False
      then have "dominated (operations s) (bt_insert i op (operations m))"
        using dominated_insert_right [OF assms(2) new(2) base] by simp
      then show ?thesis
        using new False assms(3) Some
        by (simp add: m' resolver_step_def last_write_wins_def conflict_new_def Let_def)
    qed
  qed
qed

lemma lww_fold_dominated:
  assumes "log_ok s" "log_ok m" "dominated (operations s) (operations m)"
    and "distinct (map fst es)" "\<forall>(i, op) \<in> set es. po_id op = i"
    and "\<forall>i \<in> fst ` set es. bt_get (operations s) i = None \<longrightarrow> bt_get (operations m) i = None"
  shows "log_ok (fst (foldl (resolver_step last_write_wins lp) (s, r) es)) \<and>
    dominated (operations (fst (foldl (resolver_step last_write_wins lp) (s, r) es)))
      (operations (fst (foldl merge_step (m, n) es)))"
  using assms
proof (induction es arbitrary: s r m n)
  case (Cons e es)
  obtain i op where e: "e = (i, op)" by fastforce
  obtain s' r' m' n' where s': "resolver_step last_write_wins lp (s, r) e = (s', r')"
    and m': "merge_step (m, n) e = (m', n')" by fastforce
  have mo: "operations m' = ops_join (operations m) [e]"
    using operations_foldl_merge_step [of m n "[e]"] m' by simp
  show ?case
  proof (cases "bt_get (operations s) i")
    case None
    then have mi: "bt_get (operations m) i = None"
      using Cons.prems(6) by (simp add: e)
    have "log_ok s'"
      using resolver_step_log_ok [OF Cons.prems(1), of op i last_write_wins lp r] Cons.prems(5) s'
      by (simp add: e)
    moreover have "log_ok m'"
      using Cons.prems(2,5) mi by (auto simp: log_ok_iff mo ops_join_def e map_laws)
    moreover have "dominated (operations s') (operations m')"
      using lww_step_dominated [OF Cons.prems(1,3) _ None mi, of op lp r n] Cons.prems(5) s' m'
      by (simp add: e)
    moreover have "bt_get (operations m') k = None"
      if "k \<in> fst ` set es" "bt_get (operations s') k = None" for k
    proof -
      have "bt_get (operations s) k = None"
        using that(2) resolver_step_grows [of s last_write_wins lp r i op] s'
        by (auto simp: e map_le_def dom_def)
      moreover have "k \<noteq> i"
        using that(1) Cons.prems(4) by (auto simp: e)
      ultimately show ?thesis
        using Cons.prems(6) that(1) by (auto simp: mo ops_join_def e map_laws)
    qed
    ultimately show ?thesis
      using Cons.IH [of s' m' r' n'] Cons.prems(4,5) s' m' by simp
  next
    case (Some op')
    then have "bt_get (operations m) i \<noteq> None"
      using Cons.prems(3) by (force simp: dominated_def map_le_def dom_def)
    then have "s' = s" "operations m' = operations m" "m' = m"
      using Some s' m' by (auto simp: e resolver_step_known merge_step_def)
    then show ?thesis
      using Cons.IH [of s m r' n'] Cons.prems s' m' by simp
  qed
qed simp

lemma lww_dominated:
  assumes "log_ok l" and "log_ok other"
  shows "log_ok (fst (merge_with_resolver l other last_write_wins lp)) \<and>
    dominated (operations (fst (merge_with_resolver l other last_write_wins lp)))
      (operations (fst (merge l other)))"
proof -
  have "dominated (operations l) (operations l)"
    by (auto simp: dominated_def)
  then show ?thesis
    unfolding merge_with_resolver_def merge_def using assms
    by (intro lww_fold_dominated) (auto simp: log_ok_def bt_ok_distinct)
qed

lemma resolve_all_eqI: "(\<And>p. resolve_path p a = resolve_path p b) \<Longrightarrow> resolve_all a = resolve_all b"
  by (rule bt_get_inject) (auto simp: resolve_all_ok resolve_all_lookup fun_eq_iff)

section \<open>Properties\<close>

text \<open>
  Merging under last-write-wins resolves every path, and so the whole file system, as the plain
  merge does, although it drops the operations that lose.
\<close>

theorem last_write_wins_is_merge:
  assumes "log_ok l" and "log_ok other"
  shows "resolve_path p (fst (merge_with_resolver l other last_write_wins lp)) =
      resolve_path p (fst (merge l other)) \<and>
    resolve_all (fst (merge_with_resolver l other last_write_wins lp)) =
      resolve_all (fst (merge l other))"
proof -
  have "resolve_path q (fst (merge_with_resolver l other last_write_wins lp)) =
      resolve_path q (fst (merge l other))" for q
    using lww_dominated [OF assms, of lp] log_ok_merge [OF assms] by (intro dominated_resolve_path) auto
  then show ?thesis
    using resolve_all_eqI by blast
qed

theorem last_write_wins_is_merge_witness:
  "resolve_all (fst (merge_with_resolver (sample_log [sample_op 2 1 Add ''f''] 2)
       (sample_log [sample_op 1 2 Remove ''f''] 1) last_write_wins [1])) =
   resolve_all (fst (merge (sample_log [sample_op 2 1 Add ''f''] 2) (sample_log [sample_op 1 2 Remove ''f''] 1)))"
  by (rule last_write_wins_is_merge [THEN conjunct2]) (simp_all add: log_ok_def sample_log_def sample_op_def)

text \<open>The strategy \<open>ConflictFile\<close> by cases, and the operation an existing log is first found to conflict with.\<close>

definition conflict_version :: "(hash \<Rightarrow> string) \<Rightarrow> nat \<Rightarrow> path_operation \<Rightarrow> string" where
  "conflict_version show_hash n op =
     (case po_content_link op of
        Some l \<Rightarrow> take n (show_hash (link_hash l))
      | None \<Rightarrow> dec_string (unat (timestamp (po_id op))))"

definition first_conflict :: "path_op_log \<Rightarrow> path_operation \<Rightarrow> path_operation option" where
  "first_conflict l op = find (\<lambda>existing. operations_conflict existing op) (map snd (operations l))"

lemma conflict_file_cases:
  "conflict_file show_hash n (conflict_new p base op) lp =
     (if po_type base = Add \<and> po_type op = Add then RenameIncoming (conflict_path (po_path op) (conflict_version show_hash n op))
      else if po_id base < po_id op then UseIncoming else UseBase)"
  by (simp add: conflict_file_def conflict_new_def conflict_version_def Let_def split: op_type.split option.split)

lemma foldl_resolver_keys:
  "bt_get (operations (fst (foldl (resolver_step res lp) (l, r) es))) j \<noteq> None \<Longrightarrow>
     bt_get (operations l) j \<noteq> None \<or> j \<in> fst ` set es"
proof (induction es arbitrary: l r)
  case (Cons e es)
  obtain i op l' r' where e: "e = (i, op)" and st: "resolver_step res lp (l, r) (i, op) = (l', r')"
    by (metis surj_pair)
  have "bt_get (operations l) j \<noteq> None \<or> j = i" if "bt_get (operations l') j \<noteq> None"
  proof (cases "bt_get (operations l) i")
    case None
    from None st show ?thesis
      using that by (cases rule: resolver_step_cases) (auto simp: map_laws split: if_splits)
  qed (use st that in \<open>simp add: resolver_step_known\<close>)
  then show ?case
    using Cons.IH [of l' r'] Cons.prems by (auto simp: e st)
qed simp

text \<open>What becomes of an operation that a log does not know under \<open>ConflictFile\<close>.\<close>

lemma conflict_file_step:
  assumes "bt_get (operations l) i = None"
    and "resolver_step (conflict_file show_hash n) lp (l, r) (i, op) = (l', r')"
  shows "bt_get (operations l') i =
      (case first_conflict l op of
         None \<Rightarrow> Some op
       | Some base \<Rightarrow>
           if po_type base = Add \<and> po_type op = Add
           then Some (op\<lparr>po_path := conflict_path (po_path op) (conflict_version show_hash n op)\<rparr>)
           else if po_id base < po_id op then Some op else None)"
    and "first_conflict l op = Some base \<Longrightarrow>
      \<lparr>rc_conflict = conflict_new (po_path op) base op,
       rc_resolution = conflict_file show_hash n (conflict_new (po_path op) base op) lp\<rparr> \<in> set (conflicts_resolved r')"
  using assms
  by (auto simp: resolver_step_def first_conflict_def conflict_file_cases map_laws Let_def split: option.splits if_splits)

text \<open>
  C38: under the recommended \<open>ConflictFile\<close> strategy a merge accounts for every operation. Every local operation is
  kept unchanged, and the merged log has no identifiers but those of the two logs. An incoming operation
  whose identifier is new meets the log as it is after the operations before it (\<open>seen\<close>, all of
  which stays in the merged log): if nothing there conflicts with it, it is taken as it is. Else, if it and
  the first conflicting operation both add a file, it is taken under the name of the conflict file and
  unchanged otherwise; if not, the one with the larger identifier wins, so that it is taken or left
  out. Every such decision is reported with the two operations.
\<close>

theorem conflict_file_merge_exact:
  assumes other: "log_ok other" and run: "merge_with_resolver l other (conflict_file show_hash n) lp = (l', r)"
  shows "bt_get (operations l) \<subseteq>\<^sub>m bt_get (operations l') \<and>
    (\<forall>i. bt_get (operations l') i \<noteq> None \<longrightarrow> bt_get (operations l) i \<noteq> None \<or> bt_get (operations other) i \<noteq> None) \<and>
    (\<forall>pre i op post seen. operations other = pre @ (i, op) # post \<and> bt_get (operations l) i = None \<and>
       seen = fst (merge_with_resolver l (other\<lparr>operations := pre\<rparr>) (conflict_file show_hash n) lp) \<longrightarrow>
       bt_get (operations seen) \<subseteq>\<^sub>m bt_get (operations l') \<and>
       bt_get (operations l') i =
         (case first_conflict seen op of
            None \<Rightarrow> Some op
          | Some base \<Rightarrow>
              if po_type base = Add \<and> po_type op = Add
              then Some (op\<lparr>po_path := conflict_path (po_path op) (conflict_version show_hash n op)\<rparr>)
              else if po_id base < po_id op then Some op else None) \<and>
       (\<forall>base. first_conflict seen op = Some base \<longrightarrow>
          \<lparr>rc_conflict = conflict_new (po_path op) base op,
           rc_resolution = conflict_file show_hash n (conflict_new (po_path op) base op) lp\<rparr> \<in> set (conflicts_resolved r)))"
proof (intro conjI allI impI; (elim conjE)?)
  let ?res = "conflict_file show_hash n"
  show "bt_get (operations l) \<subseteq>\<^sub>m bt_get (operations l')"
    using merge_with_resolver_grows [of l other ?res lp] run by simp
  have dist: "distinct (map fst (operations other))"
    using other by (simp add: log_ok_def bt_ok_distinct)
  show "bt_get (operations l) i \<noteq> None \<or> bt_get (operations other) i \<noteq> None" if "bt_get (operations l') i \<noteq> None" for i
    using foldl_resolver_keys [of ?res lp l merge_result_new "operations other" i] that run
    by (auto simp: merge_with_resolver_def bt_get_None)
  fix pre i op post seen
  assume ops: "operations other = pre @ (i, op) # post" and new: "bt_get (operations l) i = None"
    and seen: "seen = fst (merge_with_resolver l (other\<lparr>operations := pre\<rparr>) ?res lp)"
  obtain rs where at: "foldl (resolver_step ?res lp) (l, merge_result_new) pre = (seen, rs)"
    using seen by (cases "foldl (resolver_step ?res lp) (l, merge_result_new) pre") (simp add: merge_with_resolver_def)
  obtain l1 r1 where step: "resolver_step ?res lp (seen, rs) (i, op) = (l1, r1)"
    by (rule prod.exhaust)
  have rest: "foldl (resolver_step ?res lp) (l1, r1) post = (l', r)"
    using run at step by (simp add: merge_with_resolver_def ops)
  have unseen: "bt_get (operations seen) i = None"
    using foldl_resolver_keys [of ?res lp l merge_result_new pre i] at new dist by (auto simp: ops)
  note later = foldl_resolver_grows [of l1 ?res lp r1 post, unfolded rest]
  have final: "bt_get (operations l') i = bt_get (operations l1) i"
  proof (cases "bt_get (operations l1) i")
    case None
    then show ?thesis
      using foldl_resolver_keys [of ?res lp l1 r1 post i] rest dist by (auto simp: ops)
  qed (use later in \<open>auto simp: map_le_def dom_def\<close>)
  show "bt_get (operations seen) \<subseteq>\<^sub>m bt_get (operations l')"
    using resolver_step_grows [of seen ?res lp rs i op] later by (auto simp: step intro: map_le_trans)
  show "bt_get (operations l') i =
         (case first_conflict seen op of
            None \<Rightarrow> Some op
          | Some base \<Rightarrow>
              if po_type base = Add \<and> po_type op = Add
              then Some (op\<lparr>po_path := conflict_path (po_path op) (conflict_version show_hash n op)\<rparr>)
              else if po_id base < po_id op then Some op else None)"
    unfolding final by (rule conflict_file_step(1) [OF unseen step])
  show "\<lparr>rc_conflict = conflict_new (po_path op) base op,
      rc_resolution = ?res (conflict_new (po_path op) base op) lp\<rparr> \<in> set (conflicts_resolved r)"
    if "first_conflict seen op = Some base" for base
    using conflict_file_step(2) [OF unseen step that] later by auto
qed

lemma dec_digits: "dec_string 1 = ''1''" "dec_string (Suc 0) = ''1''" "dec_string 2 = ''2''"
  by code_simp+

theorem conflict_file_merge_exact_witness:
  "bt_get (operations (fst (merge_with_resolver (sample_log [sample_op 1 1 Add ''f''] 1)
     (sample_log [sample_op 2 2 Add ''f''] 2) (conflict_file (\<lambda>h. []) 8) [1]))) (OpId 2 [2]) =
   Some ((sample_op 2 2 Add ''f'')\<lparr>po_path := [Normal ''f@2'']\<rparr>)"
proof -
  let ?l = "sample_log [sample_op 1 1 Add ''f''] 1" and ?op = "sample_op 2 2 Add ''f''"
  let ?m = "merge_with_resolver ?l (sample_log [?op] 2) (conflict_file (\<lambda>h. []) 8) [1]"
  have ok: "log_ok (sample_log [?op] 2)"
    by (simp add: log_ok_def sample_log_def sample_op_def)
  have ops: "operations (sample_log [?op] 2) = [] @ (OpId 2 [2], ?op) # []" "bt_get (operations ?l) (OpId 2 [2]) = None"
    by (simp_all add: sample_log_def sample_op_def)
  have seen: "fst (merge_with_resolver ?l (sample_log [?op] 2\<lparr>operations := []\<rparr>) (conflict_file (\<lambda>h. []) 8) [1]) = ?l"
    by (simp add: merge_with_resolver_def)
  have first: "first_conflict ?l ?op = Some (sample_op 1 1 Add ''f'')"
    by (simp add: first_conflict_def sample_log_def sample_op_def operations_conflict_def)
  have name: "conflict_path [Normal ''f''] ''2'' = [Normal ''f@2'']"
    by (simp add: conflict_path_def push_def components_def part_comp_def is_absolute_def file_name_def parent_def)
  have version: "conflict_version (\<lambda>h. []) 8 ?op = ''2''" "po_path ?op = [Normal ''f'']" "po_type ?op = Add"
    "po_type (sample_op 1 1 Add ''f'') = Add"
    by (simp_all add: conflict_version_def sample_op_def dec_digits)
  note all = conflict_file_merge_exact [OF ok, of ?l "\<lambda>h. []" 8 "[1]" "fst ?m" "snd ?m", OF prod.collapse [symmetric],
      THEN conjunct2, THEN conjunct2, THEN spec, of "[]", THEN spec, of "OpId 2 [2]", THEN spec, of ?op, THEN spec, of "[]",
      THEN spec, of ?l, THEN mp]
  show ?thesis
    using all [OF conjI [OF ops(1) conjI [OF ops(2) seen [symmetric]]], THEN conjunct2, THEN conjunct1]
    by (simp add: first version name)
qed

text \<open>
  The conflict file has the identifier of the operation it was made from, so that the logs of two replicas no
  longer agree on what it stands for: after each has merged the log of the other, they resolve to different files.
\<close>

lemma conflict_file_replicas_diverge:
  fixes a b :: path_op_log
  defines "a \<equiv> sample_log [sample_op 1 1 Add ''f''] 1" and "b \<equiv> sample_log [sample_op 2 2 Add ''f''] 2"
  shows "bt_get (resolve_all (fst (merge_with_resolver a b (conflict_file (\<lambda>h. []) 8) [1]))) [Normal ''f@2''] \<noteq> None \<and>
    bt_get (resolve_all (fst (merge_with_resolver b a (conflict_file (\<lambda>h. []) 8) [2]))) [Normal ''f@2''] = None"
  unfolding resolve_all_lookup
  by (simp add: a_def b_def sample_log_def sample_op_def merge_with_resolver_def resolver_step_def conflict_file_def
      conflict_new_def operations_conflict_def conflict_path_def push_def components_def part_comp_def is_absolute_def
      file_name_def parent_def dec_digits op_id_less resolve_path_def max_by_id_def Let_def)

text \<open>Names of conflict files: the version goes after the whole name, in the same directory.\<close>

lemma components_name:
  assumes "CHR ''/'' \<notin> set s" and "s \<noteq> []" and "s \<noteq> ''.''" and "s \<noteq> ''..''"
  shows "components s = [Normal s]"
  using assms by (cases s) (auto simp: components_def split_slash_no_slash part_comp_def)

lemma conflict_path_name:
  assumes "CHR ''/'' \<notin> set n" and "CHR ''/'' \<notin> set v"
  shows "conflict_path (rel_path (ns @ [n])) v = rel_path (ns @ [n @ ''@'' @ v])"
proof -
  have "n @ ''@'' @ v \<noteq> ''.''" "n @ ''@'' @ v \<noteq> ''..''"
    by (auto simp: append_eq_Cons_conv)
  then have "components (n @ ''@'' @ v) = [Normal (n @ ''@'' @ v)]"
    using assms by (intro components_name) auto
  then show ?thesis
    by (simp add: conflict_path_def Let_def push_def is_absolute_def)
qed

text \<open>
  After a file was added and then moved, the log still resolves the old path: \<open>resolve_all\<close> lists
  a path that no longer exists.
\<close>

lemma resolve_all_keeps_moved_path:
  fixes l :: path_op_log
  defines "l \<equiv> snd (log_record [1] (Mv [Normal ''a'']) [Normal ''b''] None False
    (snd (log_record [1] Add [Normal ''a''] None False log_new)))"
  shows "bt_get (resolve_all l) [Normal ''a''] \<noteq> None \<and> bt_get (resolve_all l) [Normal ''b''] \<noteq> None"
  unfolding resolve_all_lookup
  by (simp add: l_def log_record_def log_new_def Let_def op_id_less resolve_path_def max_by_id_def)

end
