(* ===== verification/Mount.thy ===== *)
theory Mount
  imports Blobs_Store Node Conflict
begin

text \<open>
  \<open>common/src/mount/mount_inner.rs\<close>: a mounted bucket. The state of a mount is the record
  \<open>mount_inner\<close> beside the world; an operation returns its result with the new state, also when it
  fails, so that what a failing operation leaves behind is part of the model. The mutex serialises
  the operations of a mount, and each is modelled as one uninterrupted run.

  A panic of the code is the error \<open>MtPanic\<close> (a panic of a key or secret operation included). The
  external functions gain the DAG-CBOR codecs of nodes and of operation logs (of which only the
  operations are encoded: the clock is \<open>serde(skip)\<close> and comes back as 0) and the MIME guess.
\<close>

record 'w mount_ext = "'w blob_ext" +
  cbor_encode_node :: "node \<Rightarrow> bytes option"
  cbor_decode_node :: "bytes \<Rightarrow> node option"
  cbor_encode_ops :: "(op_id, path_operation) btree \<Rightarrow> bytes option"
  cbor_decode_ops :: "bytes \<Rightarrow> (op_id, path_operation) btree option"
  mime_of_path :: "path \<Rightarrow> string option"

datatype mount_error =
    MtDefault string
  | LinkNotFound link
  | PathNotFound path
  | PathNotNode path
  | PathAlreadyExists path
  | MoveIntoSelf path path
  | MtBlobsStore blobs_error
  | MtSecret secret_error
  | MtNode string
  | MtCodec codec_error
  | MtShare secret_share_error
  | MtManifest manifest_error
  | ShareNotFound
  | MirrorCannotMount
  | MtPanic string

text \<open>
  The conversions of the errors of secrets and shares by \<open>?\<close>. A panic below is no value that could be
  converted: it ends the operation.
\<close>

definition secret_failed :: "secret_error \<Rightarrow> mount_error" where
  "secret_failed e = (case e of SecretPanic m \<Rightarrow> MtPanic m | _ \<Rightarrow> MtSecret e)"

definition share_failed :: "secret_share_error \<Rightarrow> mount_error" where
  "share_failed e =
     (case e of
        ShareKey (KeyPanic m) \<Rightarrow> MtPanic m
      | ShareSecret (SecretPanic m) \<Rightarrow> MtPanic m
      | _ \<Rightarrow> MtShare e)"

record mount_inner =
  mi_link :: link
  mi_manifest :: manifest
  mi_entry :: node
  mi_pins :: pins
  mi_height :: u64
  mi_ops_log :: path_op_log
  mi_peer_id :: public_key
  mi_secret_key :: secret_key

type_synonym 'w mount_state = "mount_inner \<times> 'w"

text \<open>Sequencing: a computation on the world inside one on the mount, and access to the mount.\<close>

definition on_world ::
  "('w \<Rightarrow> (mount_error + 'a) \<times> 'w) \<Rightarrow> 'w mount_state \<Rightarrow> (mount_error + 'a) \<times> 'w mount_state" where
  "on_world f s = (case f (snd s) of (r, w') \<Rightarrow> (r, (fst s, w')))"

definition read_state ::
  "('w mount_state \<Rightarrow> mount_error + 'a) \<Rightarrow> 'w mount_state \<Rightarrow> (mount_error + 'a) \<times> 'w mount_state" where
  "read_state f s = (f s, s)"

definition update_inner ::
  "(mount_inner \<Rightarrow> mount_inner) \<Rightarrow> 'w mount_state \<Rightarrow> (mount_error + unit) \<times> 'w mount_state" where
  "update_inner f s = (Inr (), (f (fst s), snd s))"

definition clean_path :: "path \<Rightarrow> mount_error + path" where
  "clean_path p = (if \<not> is_absolute p then Inl (MtPanic ''path is not absolute'') else Inr (drop 1 p))"

lemma clean_path_root [simp]: "clean_path (RootDir # p) = Inr p"
  by (simp add: clean_path_def is_absolute_def)

definition file_name_unwrap :: "path \<Rightarrow> mount_error + string" where
  "file_name_unwrap p = ok_or (MtPanic ''unwrap on None'') (file_name p)"

lemma file_name_unwrap_snoc [simp]: "file_name_unwrap (p @ [Normal n]) = Inr n"
  by (simp add: file_name_unwrap_def)

section \<open>Reading and writing blobs\<close>

definition mt_secret_generate :: "('w, 'z) mount_ext_scheme \<Rightarrow> 'w \<Rightarrow> (mount_error + secret) \<times> 'w" where
  "mt_secret_generate E = mapS_err secret_failed (secret_generate E)"

text \<open>The test every reader starts with: a blob that is not complete is \<open>LinkNotFound\<close>.\<close>

definition check_stat :: "('w, 'z) mount_ext_scheme \<Rightarrow> link \<Rightarrow> 'w \<Rightarrow> mount_error + unit" where
  "check_stat E l w =
     (case blob_stat E (link_hash l) w of
        Inr True \<Rightarrow> Inr ()
      | Inr False \<Rightarrow> Inl (LinkNotFound l)
      | Inl e \<Rightarrow> Inl (MtBlobsStore e))"

definition get_manifest_from_blobs ::
  "('w, 'z) mount_ext_scheme \<Rightarrow> link \<Rightarrow> 'w \<Rightarrow> mount_error + manifest" where
  "get_manifest_from_blobs E l w =
     bindR (check_stat E l w) (\<lambda>_.
     bindR (map_err MtBlobsStore (blob_get E (link_hash l) w)) (\<lambda>b.
     map_err MtCodec (manifest_decode E b)))"

definition get_pins_from_blobs :: "('w, 'z) mount_ext_scheme \<Rightarrow> link \<Rightarrow> 'w \<Rightarrow> mount_error + pins" where
  "get_pins_from_blobs E l w =
     bindR (check_stat E l w) (\<lambda>_.
     bindR (map_err MtBlobsStore (read_hash_list E (link_hash l) w)) (\<lambda>hashes.
     Inr (pins_from_vec hashes)))"

definition get_node_from_blobs ::
  "('w, 'z) mount_ext_scheme \<Rightarrow> node_link \<Rightarrow> 'w \<Rightarrow> mount_error + node" where
  "get_node_from_blobs E nl w =
     bindR (check_stat E (nl_link nl) w) (\<lambda>_.
     bindR (map_err MtBlobsStore (blob_get E (link_hash (nl_link nl)) w)) (\<lambda>blob.
     bindR (map_err MtSecret (decrypt E (nl_secret nl) blob)) (\<lambda>data.
     ok_or (MtCodec DecodeError) (cbor_decode_node E data))))"

definition get_ops_log_from_blobs ::
  "('w, 'z) mount_ext_scheme \<Rightarrow> link \<Rightarrow> secret \<Rightarrow> 'w \<Rightarrow> mount_error + path_op_log" where
  "get_ops_log_from_blobs E l secret w =
     bindR (check_stat E l w) (\<lambda>_.
     bindR (map_err MtBlobsStore (blob_get E (link_hash l) w)) (\<lambda>blob.
     bindR (map_err MtSecret (decrypt E secret blob)) (\<lambda>data.
     bindR (ok_or (MtCodec DecodeError) (cbor_decode_ops E data)) (\<lambda>ops.
     Inr \<lparr>operations = ops, local_clock = 0\<rparr>))))"

text \<open>Encrypt and store: what \<open>_put_node_in_blobs\<close> and \<open>_put_ops_log_in_blobs\<close> have in common.\<close>

definition put_encrypted ::
  "('w, 'z) mount_ext_scheme \<Rightarrow> bytes option \<Rightarrow> secret \<Rightarrow> 'w \<Rightarrow> (mount_error + link) \<times> 'w" where
  "put_encrypted E encoded secret =
     bindS (liftR (ok_or (MtCodec EncodeError) encoded)) (\<lambda>data.
     bindS (mapS_err MtSecret (encrypt E secret data)) (\<lambda>encrypted.
     bindS (mapS_err MtBlobsStore (blob_put E encrypted)) (\<lambda>h.
     liftR (Inr (link_new LD_RAW_CODEC h)))))"

definition put_node_in_blobs ::
  "('w, 'z) mount_ext_scheme \<Rightarrow> node \<Rightarrow> secret \<Rightarrow> 'w \<Rightarrow> (mount_error + link) \<times> 'w" where
  "put_node_in_blobs E n secret = put_encrypted E (cbor_encode_node E n) secret"

definition put_ops_log_in_blobs ::
  "('w, 'z) mount_ext_scheme \<Rightarrow> path_op_log \<Rightarrow> secret \<Rightarrow> 'w \<Rightarrow> (mount_error + link) \<times> 'w" where
  "put_ops_log_in_blobs E l secret = put_encrypted E (cbor_encode_ops E (operations l)) secret"

definition put_manifest_in_blobs ::
  "('w, 'z) mount_ext_scheme \<Rightarrow> manifest \<Rightarrow> 'w \<Rightarrow> (mount_error + link) \<times> 'w" where
  "put_manifest_in_blobs E m =
     bindS (liftR (map_err MtCodec (manifest_encode E m))) (\<lambda>data.
     bindS (mapS_err MtBlobsStore (blob_put E data)) (\<lambda>h.
     liftR (Inr (link_new manifest_codec h))))"

definition put_pins_in_blobs ::
  "('w, 'z) mount_ext_scheme \<Rightarrow> pins \<Rightarrow> 'w \<Rightarrow> (mount_error + link) \<times> 'w" where
  "put_pins_in_blobs E p =
     bindS (mapS_err MtBlobsStore (create_hash_list E p)) (\<lambda>h.
     liftR (Inr (link_new LD_RAW_CODEC h)))"

section \<open>Walking the tree\<close>

fun walk_path ::
  "('w, 'z) mount_ext_scheme \<Rightarrow> 'w \<Rightarrow> node \<Rightarrow> path \<Rightarrow> path \<Rightarrow> mount_error + node" where
  "walk_path E w n consumed [] = Inr n"
| "walk_path E w n consumed (part # parts) =
     (let consumed' = push consumed [part] in
      case get_link n (comp_str part) of
        None \<Rightarrow> Inl (PathNotFound consumed')
      | Some next_link \<Rightarrow>
          bindR (get_node_from_blobs E next_link w) (\<lambda>n'. walk_path E w n' consumed' parts))"

definition get_node_at_path ::
  "('w, 'z) mount_ext_scheme \<Rightarrow> node \<Rightarrow> path \<Rightarrow> 'w \<Rightarrow> mount_error + node" where
  "get_node_at_path E n p w = walk_path E w n [RootDir] p"

text \<open>The root itself for the empty path, as \<open>rm\<close>, \<open>mv\<close>, \<open>ls\<close>, \<open>cat\<close> and \<open>get\<close> do.\<close>

definition node_or_root ::
  "('w, 'z) mount_ext_scheme \<Rightarrow> node \<Rightarrow> path \<Rightarrow> 'w \<Rightarrow> mount_error + node" where
  "node_or_root E entry p w = (if p = [] then Inr entry else get_node_at_path E entry p w)"

text \<open>First loop of \<open>_set_node_link_at_path\<close>: the nodes on the way, missing ones created.\<close>

fun visit_nodes ::
  "('w, 'z) mount_ext_scheme \<Rightarrow> 'w \<Rightarrow> node \<Rightarrow> path \<Rightarrow> path \<Rightarrow> (path \<times> node) list \<Rightarrow>
     mount_error + (path \<times> node) list" where
  "visit_nodes E w n consumed [] visited = Inr visited"
| "visit_nodes E w n consumed (part # parts) visited =
     (let consumed' = push consumed [part] in
      case get_link n (comp_str part) of
        Some (Dir l s) \<Rightarrow>
          bindR (get_node_from_blobs E (Dir l s) w) (\<lambda>n'.
          visit_nodes E w n' consumed' parts (visited @ [(consumed', n')]))
      | Some (Data l s d) \<Rightarrow> Inl (PathNotNode consumed')
      | None \<Rightarrow> visit_nodes E w node_new consumed' parts (visited @ [(consumed', node_new)]))"

text \<open>Second loop: from the innermost node to the root, each gets its new child and is stored.\<close>

fun store_nodes ::
  "('w, 'z) mount_ext_scheme \<Rightarrow> (path \<times> node) list \<Rightarrow> string \<Rightarrow> node_link \<Rightarrow> hash list \<Rightarrow>
     'w \<Rightarrow> (mount_error + node_link \<times> hash list) \<times> 'w" where
  "store_nodes E [] name nl hashes w = (Inr (nl, hashes), w)"
| "store_nodes E ((p, n) # rest) name nl hashes w =
     bindS (mt_secret_generate E) (\<lambda>secret.
     bindS (put_node_in_blobs E (node_insert name nl n) secret) (\<lambda>l.
     store_nodes E rest (case file_name p of None \<Rightarrow> [] | Some x \<Rightarrow> x) (Dir l secret)
       (hashes @ [link_hash l]))) w"

definition set_node_link_at_path ::
  "('w, 'z) mount_ext_scheme \<Rightarrow> node \<Rightarrow> node_link \<Rightarrow> path \<Rightarrow>
     'w \<Rightarrow> (mount_error + node_link \<times> hash list) \<times> 'w" where
  "set_node_link_at_path E n nl p =
     bindS (liftR (clean_path p)) (\<lambda>path.
     bindS (liftR (file_name_unwrap path)) (\<lambda>name.
     let parent_path = (case parent path of None \<Rightarrow> [] | Some q \<Rightarrow> q) in
     bindS (\<lambda>w. (visit_nodes E w n [RootDir] parent_path [([RootDir], n)], w)) (\<lambda>visited.
     store_nodes E (rev visited) name nl [])))"

text \<open>The new root after \<open>_set_node_link_at_path\<close>: read back when the link is a directory.\<close>

definition reload_entry ::
  "('w, 'z) mount_ext_scheme \<Rightarrow> node_link \<Rightarrow> 'w \<Rightarrow> (mount_error + node option) \<times> 'w" where
  "reload_entry E updated w =
     (case updated of
        Dir l s \<Rightarrow> (bindR (get_node_from_blobs E (Dir l s) w) (\<lambda>n. Inr (Some n)), w)
      | Data l s d \<Rightarrow> (Inr None, w))"

section \<open>Operations on files\<close>

definition record_op :: "op_type \<Rightarrow> path \<Rightarrow> link option \<Rightarrow> bool \<Rightarrow> mount_inner \<Rightarrow> mount_inner" where
  "record_op ty p content_link is_directory m =
     m\<lparr>mi_ops_log := snd (log_record (mi_peer_id m) ty p content_link is_directory (mi_ops_log m))\<rparr>"

definition pin_one :: "hash \<Rightarrow> mount_inner \<Rightarrow> mount_inner" where
  "pin_one h m = m\<lparr>mi_pins := pins_insert h (mi_pins m)\<rparr>"

definition pin_all :: "hash list \<Rightarrow> mount_inner \<Rightarrow> mount_inner" where
  "pin_all hs m = m\<lparr>mi_pins := pins_extend hs (mi_pins m)\<rparr>"

definition set_new_entry :: "node option \<Rightarrow> mount_inner \<Rightarrow> mount_inner" where
  "set_new_entry n m = (case n of None \<Rightarrow> m | Some e \<Rightarrow> m\<lparr>mi_entry := e\<rparr>)"

definition mount_add ::
  "('w, 'z) mount_ext_scheme \<Rightarrow> path \<Rightarrow> string + bytes \<Rightarrow> 'w mount_state \<Rightarrow> (mount_error + unit) \<times> 'w mount_state" where
  "mount_add E path data =
     bindS (on_world (mt_secret_generate E)) (\<lambda>secret.
     bindS (on_world (mapS_err MtSecret (encrypt_reader E secret data))) (\<lambda>encrypted_bytes.
     bindS (on_world (mapS_err MtBlobsStore (put_stream E [Inr encrypted_bytes]))) (\<lambda>h.
     let l = link_new LD_RAW_CODEC h;
         nl = new_data_from_path (mime_of_path E) l secret path in
     bindS (read_state (\<lambda>(m, w). Inr (mi_entry m))) (\<lambda>root_node.
     bindS (on_world (set_node_link_at_path E root_node nl path)) (\<lambda>(updated_link, node_hashes).
     bindS (on_world (reload_entry E updated_link)) (\<lambda>new_entry.
     bindS (liftR (clean_path path)) (\<lambda>cleaned.
     update_inner (\<lambda>m. record_op Add cleaned (Some l) False
       (set_new_entry new_entry (pin_all node_hashes (pin_one h m)))))))))))"

definition mount_rm ::
  "('w, 'z) mount_ext_scheme \<Rightarrow> path \<Rightarrow> 'w mount_state \<Rightarrow> (mount_error + unit) \<times> 'w mount_state" where
  "mount_rm E p =
     bindS (liftR (clean_path p)) (\<lambda>path.
     bindS (liftR (ok_or (MtDefault ''Cannot remove root'') (parent path))) (\<lambda>parent_path.
     bindS (read_state (\<lambda>(m, w). Inr (mi_entry m))) (\<lambda>entry.
     bindS (read_state (\<lambda>(m, w). node_or_root E entry parent_path w)) (\<lambda>parent_node0.
     bindS (liftR (file_name_unwrap path)) (\<lambda>name.
     case node_del name parent_node0 of
       (None, _) \<Rightarrow> liftR (Inl (PathNotFound path))
     | (Some removed, parent_node) \<Rightarrow>
         bindS (on_world (mt_secret_generate E)) (\<lambda>secret.
         bindS (on_world (put_node_in_blobs E parent_node secret)) (\<lambda>parent_link.
         bindS
           (if parent_path = [] then
              update_inner (\<lambda>m. (pin_one (link_hash parent_link) m)\<lparr>mi_entry := parent_node\<rparr>)
            else
              bindS (on_world (set_node_link_at_path E entry (new_dir parent_link secret)
                (push [RootDir] parent_path))) (\<lambda>(updated_link, node_hashes).
              bindS (on_world (reload_entry E updated_link)) (\<lambda>new_entry.
              update_inner (\<lambda>m. set_new_entry new_entry
                (pin_all node_hashes (pin_one (link_hash parent_link) m))))))
           (\<lambda>_. update_inner (record_op Remove path None (is_dir removed))))))))))"

definition mount_mkdir ::
  "('w, 'z) mount_ext_scheme \<Rightarrow> path \<Rightarrow> 'w mount_state \<Rightarrow> (mount_error + unit) \<times> 'w mount_state" where
  "mount_mkdir E p =
     bindS (liftR (clean_path p)) (\<lambda>path.
     bindS (read_state (\<lambda>(m, w). Inr (mi_entry m))) (\<lambda>entry.
     bindS (liftR (ok_or (MtDefault ''Cannot mkdir at root'') (parent path))) (\<lambda>parent_path.
     bindS (liftR (file_name_unwrap path)) (\<lambda>dir_name.
     bindS (read_state (\<lambda>(m, w).
       if parent_path = [] then Inr entry
       else (case get_node_at_path E entry parent_path w of
               Inr n \<Rightarrow> Inr n
             | Inl (PathNotFound _) \<Rightarrow> Inr node_new
             | Inl err \<Rightarrow> Inl err))) (\<lambda>parent_node.
     if get_link parent_node dir_name \<noteq> None then liftR (Inl (PathAlreadyExists (push [RootDir] path)))
     else
       bindS (on_world (mt_secret_generate E)) (\<lambda>secret.
       bindS (on_world (put_node_in_blobs E node_new secret)) (\<lambda>dir_link.
       bindS (on_world (set_node_link_at_path E entry (new_dir dir_link secret) (push [RootDir] path)))
         (\<lambda>(updated_link, node_hashes).
       bindS (on_world (reload_entry E updated_link)) (\<lambda>new_entry.
       update_inner (\<lambda>m. record_op Mkdir path None True
         (set_new_entry new_entry (pin_all node_hashes (pin_one (link_hash dir_link) m)))))))))))))"

text \<open>\<open>get\<close>: the link at a path. \<open>cat\<close>, \<open>ls\<close>: the content of a file, the entries of a directory.\<close>

definition mount_get ::
  "('w, 'z) mount_ext_scheme \<Rightarrow> path \<Rightarrow> 'w mount_state \<Rightarrow> mount_error + node_link" where
  "mount_get E p s =
     bindR (clean_path p) (\<lambda>path.
     bindR (ok_or (PathNotFound path) (parent path)) (\<lambda>parent_path.
     bindR (file_name_unwrap path) (\<lambda>name.
     bindR (node_or_root E (mi_entry (fst s)) parent_path (snd s)) (\<lambda>parent_node.
     ok_or (PathNotFound path) (get_link parent_node name)))))"

definition mount_cat ::
  "('w, 'z) mount_ext_scheme \<Rightarrow> path \<Rightarrow> 'w mount_state \<Rightarrow> mount_error + bytes" where
  "mount_cat E p s =
     bindR (clean_path p) (\<lambda>path.
     bindR (ok_or (PathNotFound path) (parent path)) (\<lambda>parent_path.
     bindR (file_name_unwrap path) (\<lambda>name.
     bindR (node_or_root E (mi_entry (fst s)) parent_path (snd s)) (\<lambda>parent_node.
     bindR (ok_or (PathNotFound path) (get_link parent_node name)) (\<lambda>l.
     case l of
       Data l secret _ \<Rightarrow>
         bindR (map_err MtBlobsStore (blob_get E (link_hash l) (snd s))) (\<lambda>encrypted_data.
         map_err MtSecret (decrypt E secret encrypted_data))
     | Dir _ _ \<Rightarrow> Inl (PathNotNode path))))))"

definition mount_ls ::
  "('w, 'z) mount_ext_scheme \<Rightarrow> path \<Rightarrow> 'w mount_state \<Rightarrow> mount_error + (path, node_link) btree" where
  "mount_ls E p s =
     bindR (clean_path p) (\<lambda>path.
     bindR (if path = [] then Inr (mi_entry (fst s))
            else (case get_node_at_path E (mi_entry (fst s)) path (snd s) of
                    Inr n \<Rightarrow> Inr n
                  | Inl (LinkNotFound _) \<Rightarrow> Inl (PathNotNode path)
                  | Inl err \<Rightarrow> Inl err)) (\<lambda>n.
     Inr (foldl (\<lambda>items (name, l). bt_insert (push path (components name)) l items) [] n)))"

text \<open>The recursion of \<open>_ls_deep\<close> follows the tree; \<open>fuel\<close> bounds its depth.\<close>

fun ls_deep_fuel ::
  "nat \<Rightarrow> ('w, 'z) mount_ext_scheme \<Rightarrow> path \<Rightarrow> path \<Rightarrow> 'w mount_state \<Rightarrow>
     (mount_error + (path, node_link) btree) option" where
  "ls_deep_fuel 0 E p base s = None"
| "ls_deep_fuel (Suc fuel) E p base s =
     (case mount_ls E p s of
        Inl e \<Rightarrow> Some (Inl e)
      | Inr items \<Rightarrow>
          foldl (\<lambda>acc (item_path, l).
            case acc of
              Some (Inr all_items) \<Rightarrow>
                (let relative_path = (if base = [] then item_path
                       else (case strip_prefix item_path base of Some r \<Rightarrow> r | None \<Rightarrow> item_path));
                     all_items' = bt_insert relative_path l all_items in
                 if is_dir l then
                   (case ls_deep_fuel fuel E (push [RootDir] item_path) base s of
                      Some (Inr sub_items) \<Rightarrow>
                        Some (Inr (foldl (\<lambda>a (sub_path, sub_link). bt_insert sub_path sub_link a)
                          all_items' sub_items))
                    | r \<Rightarrow> r)
                 else Some (Inr all_items'))
            | _ \<Rightarrow> acc) (Some (Inr [])) items)"

definition mount_ls_deep ::
  "nat \<Rightarrow> ('w, 'z) mount_ext_scheme \<Rightarrow> path \<Rightarrow> 'w mount_state \<Rightarrow>
     (mount_error + (path, node_link) btree) option" where
  "mount_ls_deep fuel E p s =
     (case clean_path p of Inl e \<Rightarrow> Some (Inl e) | Inr base_path \<Rightarrow> ls_deep_fuel fuel E p base_path s)"

text \<open>Steps 3 of \<open>mv\<close>: take the source out of its parent and propagate to the root.\<close>

definition mv_remove_source ::
  "('w, 'z) mount_ext_scheme \<Rightarrow> path \<Rightarrow> 'w mount_state \<Rightarrow> (mount_error + unit) \<times> 'w mount_state" where
  "mv_remove_source E from_clean =
     bindS (liftR (ok_or (MtDefault ''Cannot move root'') (parent from_clean))) (\<lambda>parent_path.
     bindS (read_state (\<lambda>(m, w). Inr (mi_entry m))) (\<lambda>entry.
     bindS (read_state (\<lambda>(m, w). node_or_root E entry parent_path w)) (\<lambda>parent_node0.
     bindS (liftR (file_name_unwrap from_clean)) (\<lambda>name.
     case node_del name parent_node0 of
       (None, _) \<Rightarrow> liftR (Inl (PathNotFound from_clean))
     | (Some removed, parent_node) \<Rightarrow>
         bindS (on_world (mt_secret_generate E)) (\<lambda>secret.
         bindS (on_world (put_node_in_blobs E parent_node secret)) (\<lambda>parent_link.
         if parent_path = [] then
           update_inner (\<lambda>m. (pin_one (link_hash parent_link) m)\<lparr>mi_entry := parent_node\<rparr>)
         else
           bindS (on_world (set_node_link_at_path E entry (new_dir parent_link secret)
             (push [RootDir] parent_path))) (\<lambda>(updated_root_link, node_hashes).
           bindS (read_state (\<lambda>(m, w). get_node_from_blobs E updated_root_link w)) (\<lambda>new_entry.
           update_inner (\<lambda>m. (pin_all node_hashes (pin_one (link_hash parent_link) m))
             \<lparr>mi_entry := new_entry\<rparr>)))))))))"

definition mount_mv ::
  "('w, 'z) mount_ext_scheme \<Rightarrow> path \<Rightarrow> path \<Rightarrow> 'w mount_state \<Rightarrow> (mount_error + unit) \<times> 'w mount_state" where
  "mount_mv E from to =
     bindS (liftR (clean_path from)) (\<lambda>from_clean.
     bindS (liftR (clean_path to)) (\<lambda>to_clean.
     if starts_with to from then liftR (Inl (MoveIntoSelf from to))
     else
       bindS (read_state (mount_get E from)) (\<lambda>nl.
       bindS (read_state (\<lambda>s. case mount_get E to s of
                Inr _ \<Rightarrow> Inl (PathAlreadyExists to)
              | Inl (MtPanic e) \<Rightarrow> Inl (MtPanic e)
              | Inl _ \<Rightarrow> Inr ())) (\<lambda>_.
       bindS (mv_remove_source E from_clean) (\<lambda>_.
       bindS (read_state (\<lambda>(m, w). Inr (mi_entry m))) (\<lambda>entry.
       bindS (on_world (set_node_link_at_path E entry nl to)) (\<lambda>(updated_root_link, node_hashes).
       bindS (read_state (\<lambda>(m, w). get_node_from_blobs E updated_root_link w)) (\<lambda>new_entry.
       update_inner (\<lambda>m. record_op (Mv from_clean) to_clean None (is_dir nl)
         ((pin_all node_hashes m)\<lparr>mi_entry := new_entry\<rparr>))))))))))"

end
