(* ===== verification/Tree.thy ===== *)
theory Tree
  imports Mount
begin

text \<open>
  What the operations on files mean. The file tree behind a root node is read as an abstract file
  system, a map from paths (lists of names) to files with their contents and directories. The
  invariant \<open>link_ok\<close> says that a tree is finite, that every node and file in it can be read and
  decrypted, and that everything it refers to is pinned. Each operation of a mount keeps the
  invariant and acts on the abstract file system as its specification says.
\<close>

named_theorems keeping_rules \<open>computations that keep every stored blob readable\<close>

section \<open>Laws of the external functions\<close>

definition mount_laws :: "('w, 'z) mount_ext_scheme \<Rightarrow> bool" where
  "mount_laws E \<longleftrightarrow> crypto_laws E \<and> blob_laws E \<and>
     (\<forall>n b. bt_ok n \<longrightarrow> cbor_encode_node E n = Some b \<longrightarrow> cbor_decode_node E b = Some n) \<and>
     (\<forall>ops b. bt_ok ops \<longrightarrow> cbor_encode_ops E ops = Some b \<longrightarrow> cbor_decode_ops E b = Some ops) \<and>
     (\<forall>m b. bt_ok (m_shares m) \<longrightarrow> cbor_encode_manifest E m = Some b \<longrightarrow> cbor_decode_manifest E b = Some m)"

lemma mount_laws_crypto: "mount_laws E \<Longrightarrow> crypto_laws E"
  by (simp add: mount_laws_def)

lemma mount_laws_blob: "mount_laws E \<Longrightarrow> blob_laws E"
  by (simp add: mount_laws_def)

lemma node_codec:
  "mount_laws E \<Longrightarrow> bt_ok n \<Longrightarrow> cbor_encode_node E n = Some b \<Longrightarrow> cbor_decode_node E b = Some n"
  by (simp add: mount_laws_def)

lemma ops_codec:
  "mount_laws E \<Longrightarrow> bt_ok ops \<Longrightarrow> cbor_encode_ops E ops = Some b \<Longrightarrow> cbor_decode_ops E b = Some ops"
  by (simp add: mount_laws_def)

lemma manifest_cbor:
  "mount_laws E \<Longrightarrow> bt_ok (m_shares m) \<Longrightarrow> cbor_encode_manifest E m = Some b \<Longrightarrow>
     cbor_decode_manifest E b = Some m"
  by (simp add: mount_laws_def)

section \<open>Stored blobs stay readable\<close>

definition keeping :: "('w, 'z) blob_ext_scheme \<Rightarrow> ('s \<Rightarrow> 'w) \<Rightarrow> ('s \<Rightarrow> 'a \<times> 's) \<Rightarrow> bool" where
  "keeping E world f \<longleftrightarrow> (\<forall>s r s'. f s = (r, s') \<longrightarrow> keeps_blobs E (world s) (world s'))"

lemma keepingD: "keeping E world f \<Longrightarrow> f s = (r, s') \<Longrightarrow> keeps_blobs E (world s) (world s')"
  by (simp add: keeping_def)

lemma keeping_bindS [keeping_rules]:
  assumes "keeping E world m" and "\<And>x. keeping E world (f x)"
  shows "keeping E world (bindS m f)"
  using assms unfolding keeping_def bindS_def
  by (fastforce intro: keeps_trans split: prod.splits sum.splits)

lemma keeping_liftR [keeping_rules]: "keeping E world (liftR r)"
  by (simp add: keeping_def liftR_def)

lemma keeping_mapS_err [keeping_rules]: "keeping E world m \<Longrightarrow> keeping E world (mapS_err g m)"
  by (auto simp: keeping_def mapS_err_def split: prod.splits sum.splits)

lemma keeping_read [keeping_rules]: "keeping E world (\<lambda>s. (h s, s))"
  by (simp add: keeping_def)

lemma keeping_if [keeping_rules]:
  "keeping E world f \<Longrightarrow> keeping E world g \<Longrightarrow> keeping E world (if c then f else g)"
  by simp

lemma keeping_case_prod [keeping_rules]:
  "(\<And>a b. keeping E world (f a b)) \<Longrightarrow> keeping E world (case p of (a, b) \<Rightarrow> f a b)"
  by (simp split: prod.split)

lemma keeping_case_option [keeping_rules]:
  "keeping E world f \<Longrightarrow> (\<And>a. keeping E world (g a)) \<Longrightarrow>
     keeping E world (case v of None \<Rightarrow> f | Some a \<Rightarrow> g a)"
  by (simp split: option.split)

lemma keeping_state [keeping_rules]:
  "keeping E snd (read_state q)" "keeping E snd (update_inner u)"
  by (auto simp: keeping_def read_state_def update_inner_def)

lemma keeping_on_world [keeping_rules]: "keeping E id f \<Longrightarrow> keeping E snd (on_world f)"
  by (auto simp: keeping_def on_world_def split: prod.splits)

lemma keeping_random [keeping_rules]:
  assumes "blob_laws E"
  shows "keeping E id (secret_generate E)" "keeping E id (secret_key_generate E)"
    "keeping E id (encrypt E k d)"
  using keeps_getrandom [OF assms]
  by (auto simp: keeping_def secret_generate_def secret_key_generate_def encrypt_def Let_def
      split: prod.splits option.splits)

lemma keeping_put [keeping_rules]:
  assumes "blob_laws E"
  shows "keeping E id (blob_put E b)" "keeping E id (put_stream E st)"
  using keeps_put [OF assms] keeps_put_stream [OF assms] by (auto simp: keeping_def)

lemma keeping_share_new [keeping_rules]:
  assumes "blob_laws E"
  shows "keeping E id (secret_share_new E s pk)"
  using keepingD [OF keeping_random(2) [OF assms]]
  by (auto simp: keeping_def secret_share_new_def Let_def split: prod.splits sum.splits option.splits if_splits)

lemma keeping_encrypt_reader [keeping_rules]: "blob_laws E \<Longrightarrow> keeping E id (encrypt_reader E k r)"
  using keepingD [OF keeping_random(3)] by (cases r) (auto simp: keeping_def encrypt_reader_def)

lemma keeping_blobs [keeping_rules]:
  assumes "blob_laws E"
  shows "keeping E id (mt_secret_generate E)" "keeping E id (put_encrypted E enc k)"
    "keeping E id (put_node_in_blobs E n k)" "keeping E id (put_ops_log_in_blobs E l k)"
    "keeping E id (put_manifest_in_blobs E m)" "keeping E id (put_pins_in_blobs E p)"
  unfolding mt_secret_generate_def put_encrypted_def put_node_in_blobs_def put_ops_log_in_blobs_def
    put_manifest_in_blobs_def put_pins_in_blobs_def create_hash_list_def [abs_def]
  by (intro keeping_rules assms)+

lemma store_nodes_Cons:
  "store_nodes E ((p, n) # rest) name nl hashes =
     bindS (mt_secret_generate E) (\<lambda>secret.
     bindS (put_node_in_blobs E (node_insert name nl n) secret) (\<lambda>l.
     store_nodes E rest (case file_name p of None \<Rightarrow> [] | Some x \<Rightarrow> x) (Dir l secret)
       (hashes @ [link_hash l])))"
  by (simp add: fun_eq_iff)

lemma keeping_store_nodes [keeping_rules]:
  assumes "blob_laws E"
  shows "keeping E id (store_nodes E vs name nl hs)"
proof (induction vs arbitrary: name nl hs)
  case Nil
  then show ?case
    by (simp add: keeping_def)
next
  case (Cons v vs)
  obtain p n where v: "v = (p, n)"
    by fastforce
  show ?case
    unfolding v store_nodes_Cons by (intro keeping_rules assms Cons)
qed

lemma keeping_set_node_link [keeping_rules]:
  assumes "blob_laws E"
  shows "keeping E id (set_node_link_at_path E n nl p)"
  unfolding set_node_link_at_path_def Let_def by (intro keeping_rules assms)+

lemma keeping_reload [keeping_rules]: "keeping E id (reload_entry E nl)"
  by (cases nl) (auto simp: keeping_def reload_entry_def)

section \<open>Reading back\<close>

lemma keeps_stat:
  assumes "blob_laws E" and "keeps_blobs E w w'" and "check_stat E l w = Inr ()"
  shows "check_stat E l w' = Inr ()"
proof -
  have "blob_stat E (link_hash l) w = Inr True"
    using assms(3) by (auto simp: check_stat_def split: sum.splits bool.splits)
  then have "blob_stat E (link_hash l) w' = Inr True"
    using keeps_blob_get [OF assms(2)] by (auto simp: stat_get [OF assms(1)])
  then show ?thesis
    by (simp add: check_stat_def)
qed

lemma get_check_stat: "blob_laws E \<Longrightarrow> blob_get E (link_hash l) w = Inr b \<Longrightarrow> check_stat E l w = Inr ()"
  using stat_get [of E "link_hash l" w] by (simp add: check_stat_def)

lemma keeps_get_node:
  assumes "blob_laws E" and "keeps_blobs E w w'" and "get_node_from_blobs E nl w = Inr n"
  shows "get_node_from_blobs E nl w' = Inr n"
  using assms(3) keeps_stat [OF assms(1,2)] keeps_blob_get [OF assms(2)]
  by (auto simp: get_node_from_blobs_def res_simps)

lemma put_encrypted_Inr:
  assumes "mount_laws E" and "put_encrypted E enc k w = (Inr l, w')"
  shows "\<exists>d b. enc = Some d \<and> blob_get E (link_hash l) w' = Inr b \<and> decrypt E k b = Inr d \<and>
    check_stat E l w' = Inr () \<and> length (link_hash l) = 32"
proof -
  from assms(2) obtain d b w1 h where d: "enc = Some d" "encrypt E k d w = (Inr b, w1)"
    and h: "blob_put E b w1 = (Inr h, w')" "l = link_new LD_RAW_CODEC h"
    by (auto simp: put_encrypted_def res_simps)
  have "blob_get E (link_hash l) w' = Inr b"
    using put_get(1) [OF mount_laws_blob [OF assms(1)] h(1)] h(2) by simp
  moreover have "decrypt E k b = Inr d"
    using mount_laws_crypto [OF assms(1)] d(2) by (rule decrypt_encrypt)
  ultimately show ?thesis
    using d(1) get_check_stat [OF mount_laws_blob [OF assms(1)]]
      put_get(2) [OF mount_laws_blob [OF assms(1)] h(1)] h(2) by simp
qed

lemma put_get_node:
  assumes "mount_laws E" and "bt_ok n" and "put_node_in_blobs E n k w = (Inr l, w')"
  shows "get_node_from_blobs E (Dir l k) w' = Inr n"
  using put_encrypted_Inr [OF assms(1) assms(3) [unfolded put_node_in_blobs_def]]
    node_codec [OF assms(1,2)]
  by (auto simp: get_node_from_blobs_def)

section \<open>The abstract file system\<close>

datatype obj = FFile bytes | FDir

type_synonym fs = "string list \<Rightarrow> obj option"

text \<open>The file system below a link and the one below a root node.\<close>

fun fs_link :: "('w, 'z) mount_ext_scheme \<Rightarrow> 'w \<Rightarrow> node_link \<Rightarrow> fs" where
  "fs_link E w (Data l s d) ns =
     (case (ns, blob_get E (link_hash l) w) of
        ([], Inr c) \<Rightarrow> (case decrypt E s c of Inr b \<Rightarrow> Some (FFile b) | Inl _ \<Rightarrow> None)
      | _ \<Rightarrow> None)"
| "fs_link E w (Dir l s) [] = Some FDir"
| "fs_link E w (Dir l s) (x # xs) =
     (case get_node_from_blobs E (Dir l s) w of
        Inr n \<Rightarrow> (case get_link n x of Some nl \<Rightarrow> fs_link E w nl xs | None \<Rightarrow> None)
      | Inl _ \<Rightarrow> None)"

fun fs_node :: "('w, 'z) mount_ext_scheme \<Rightarrow> 'w \<Rightarrow> node \<Rightarrow> fs" where
  "fs_node E w n [] = Some FDir"
| "fs_node E w n (x # xs) = (case get_link n x of Some nl \<Rightarrow> fs_link E w nl xs | None \<Rightarrow> None)"

definition mount_fs :: "('w, 'z) mount_ext_scheme \<Rightarrow> 'w mount_state \<Rightarrow> fs" where
  "mount_fs E s = fs_node E (snd s) (mi_entry (fst s))"

text \<open>
  Specifications: \<open>fs_set p t F\<close> grafts the tree \<open>t\<close> at \<open>p\<close>, replacing what was there and creating
  the directories above it; \<open>fs_del p F\<close> removes \<open>p\<close> and everything below.
\<close>

definition fs_set :: "string list \<Rightarrow> fs \<Rightarrow> fs \<Rightarrow> fs" where
  "fs_set p t F q =
     (if prefix p q then t (drop (length p) q) else if prefix q p then Some FDir else F q)"

definition fs_del :: "string list \<Rightarrow> fs \<Rightarrow> fs" where
  "fs_del p F q = (if prefix p q then None else F q)"

definition fs_file :: "bytes \<Rightarrow> fs" where
  "fs_file b q = (if q = [] then Some (FFile b) else None)"

definition fs_empty_dir :: fs where
  "fs_empty_dir q = (if q = [] then Some FDir else None)"

text \<open>The invariant: a finite tree, readable and pinned throughout.\<close>

inductive link_ok :: "('w, 'z) mount_ext_scheme \<Rightarrow> hash set \<Rightarrow> 'w \<Rightarrow> node_link \<Rightarrow> bool"
  for E P w where
  is_file: "link_hash l \<in> P \<Longrightarrow> blob_get E (link_hash l) w = Inr c \<Longrightarrow> decrypt E s c = Inr b \<Longrightarrow>
     link_ok E P w (Data l s d)"
| is_directory: "link_hash l \<in> P \<Longrightarrow> get_node_from_blobs E (Dir l s) w = Inr n \<Longrightarrow> bt_ok n \<Longrightarrow>
     (\<And>x nl. get_link n x = Some nl \<Longrightarrow> link_ok E P w nl) \<Longrightarrow> link_ok E P w (Dir l s)"

inductive_cases link_ok_DataE: "link_ok E P w (Data l s d)"
inductive_cases link_ok_DirE: "link_ok E P w (Dir l s)"

definition node_tree_ok :: "('w, 'z) mount_ext_scheme \<Rightarrow> hash set \<Rightarrow> 'w \<Rightarrow> node \<Rightarrow> bool" where
  "node_tree_ok E P w n \<longleftrightarrow> bt_ok n \<and> (\<forall>x nl. get_link n x = Some nl \<longrightarrow> link_ok E P w nl)"

lemma node_tree_ok_new [simp]: "node_tree_ok E P w node_new"
  by (simp add: node_tree_ok_def node_ok)

lemma node_tree_ok_insert:
  "node_tree_ok E P w n \<Longrightarrow> link_ok E P w nl \<Longrightarrow> node_tree_ok E P w (node_insert x nl n)"
  by (auto simp: node_tree_ok_def node_ok get_link_insert)

lemma node_tree_ok_del: "node_tree_ok E P w n \<Longrightarrow> node_tree_ok E P w (snd (node_del x n))"
  by (auto simp: node_tree_ok_def node_ok get_link_del split: if_splits)

lemma link_ok_Dir:
  "link_hash l \<in> P \<Longrightarrow> get_node_from_blobs E (Dir l s) w = Inr n \<Longrightarrow> node_tree_ok E P w n \<Longrightarrow>
     link_ok E P w (Dir l s)"
  by (rule link_ok.is_directory) (auto simp: node_tree_ok_def)

lemma link_ok_DirD:
  "link_ok E P w (Dir l s) \<Longrightarrow> \<exists>n. get_node_from_blobs E (Dir l s) w = Inr n \<and> node_tree_ok E P w n"
  by (auto elim!: link_ok_DirE simp: node_tree_ok_def)

lemma link_ok_mono:
  assumes "link_ok E P w nl" and "blob_laws E" and "keeps_blobs E w w'" and "P \<subseteq> Q"
  shows "link_ok E Q w' nl"
  using assms(1)
proof induction
  case (is_file l c s b d)
  then show ?case
    using assms by (auto intro: link_ok.is_file keeps_blob_get)
next
  case (is_directory l s n)
  then show ?case
    using assms keeps_get_node [OF assms(2,3) is_directory(2)] by (intro link_ok.is_directory) auto
qed

lemma node_tree_ok_mono:
  assumes "node_tree_ok E P w n" and "blob_laws E" and "keeps_blobs E w w'" and "P \<subseteq> Q"
  shows "node_tree_ok E Q w' n"
  using assms(1) link_ok_mono [OF _ assms(2-4)] by (auto simp: node_tree_ok_def)

text \<open>Under the invariant the abstract file system does not depend on what else is stored.\<close>

lemma fs_link_stable:
  assumes "link_ok E P w nl" and "blob_laws E" and "keeps_blobs E w w'"
  shows "fs_link E w' nl = fs_link E w nl"
  using assms(1)
proof induction
  case (is_file l c s b d)
  then show ?case
    using keeps_blob_get [OF assms(3) is_file(2)] by (auto simp: fun_eq_iff split: list.splits)
next
  case (is_directory l s n)
  then have n: "get_node_from_blobs E (Dir l s) w' = Inr n"
    using keeps_get_node [OF assms(2,3)] by blast
  show ?case
  proof
    fix q
    show "fs_link E w' (Dir l s) q = fs_link E w (Dir l s) q"
      using is_directory n by (cases q) (auto split: option.splits)
  qed
qed

lemma fs_node_stable:
  assumes "node_tree_ok E P w n" and "blob_laws E" and "keeps_blobs E w w'"
  shows "fs_node E w' n = fs_node E w n"
proof
  fix q
  have "fs_link E w' nl = fs_link E w nl" if "get_link n x = Some nl" for x nl
    using assms(1) that by (intro fs_link_stable [where P = P, OF _ assms(2,3)]) (simp add: node_tree_ok_def)
  then show "fs_node E w' n q = fs_node E w n q"
    by (cases q) (auto split: option.splits)
qed

lemma fs_link_dir:
  "get_node_from_blobs E (Dir l s) w = Inr n \<Longrightarrow> fs_link E w (Dir l s) = fs_node E w n"
proof
  fix q
  assume "get_node_from_blobs E (Dir l s) w = Inr n"
  then show "fs_link E w (Dir l s) q = fs_node E w n q"
    by (cases q) auto
qed

lemma fs_node_new: "fs_node E w node_new = fs_empty_dir"
proof
  show "fs_node E w node_new q = fs_empty_dir q" for q
    by (cases q) (auto simp: fs_empty_dir_def)
qed

lemma fs_node_insert:
  "fs_node E w (node_insert x nl n) = fs_set [x] (fs_link E w nl) (fs_node E w n)"
proof
  fix q
  show "fs_node E w (node_insert x nl n) q = fs_set [x] (fs_link E w nl) (fs_node E w n) q"
    by (cases q) (auto simp: fs_set_def get_link_insert)
qed

lemma fs_node_del: "fs_node E w (snd (node_del x n)) = fs_del [x] (fs_node E w n)"
proof
  fix q
  show "fs_node E w (snd (node_del x n)) q = fs_del [x] (fs_node E w n) q"
    by (cases q) (auto simp: fs_del_def get_link_del)
qed

section \<open>Setting a link\<close>

lemma visit_nodes_acc:
  "visit_nodes E w n c ps vs = bindR (visit_nodes E w n c ps []) (\<lambda>r. Inr (vs @ r))"
proof (induction ps arbitrary: n c vs)
  case (Cons p ps)
  have step: "visit_nodes E w n' c' ps (vs @ [(c', n')]) =
      bindR (visit_nodes E w n' c' ps [(c', n')]) (\<lambda>r. Inr (vs @ r))" for n' c'
    by (subst (1 2) Cons.IH) (simp add: bindR_def split: sum.splits)
  show ?case
    by (auto simp: Let_def step bindR_def split: option.splits node_link.splits sum.splits)
qed simp

lemma visit_nodes_Cons:
  "visit_nodes E w n (abs_path cs) (Normal x # ps) [] = Inr vs \<longleftrightarrow>
     (\<exists>n' vs'. (case get_link n x of
          None \<Rightarrow> n' = node_new
        | Some (Dir l s) \<Rightarrow> get_node_from_blobs E (Dir l s) w = Inr n'
        | Some (Data l s d) \<Rightarrow> False) \<and>
        visit_nodes E w n' (abs_path (cs @ [x])) ps [] = Inr vs' \<and>
        vs = (abs_path (cs @ [x]), n') # vs')"
proof -
  have acc: "visit_nodes E w n' c ps [v] = Inr vs \<longleftrightarrow>
      (\<exists>vs'. visit_nodes E w n' c ps [] = Inr vs' \<and> vs = v # vs')" for n' c v
    by (subst visit_nodes_acc) (auto simp: res_simps)
  show ?thesis
    by (auto simp: Let_def res_simps acc simp flip: map_append split: option.splits node_link.splits)
qed

lemma store_nodes_snoc:
  "store_nodes E (vs @ [(p, n)]) x nl hs w = (Inr (nl'', hs''), w'') \<longleftrightarrow>
     (\<exists>nl' hs' w1. store_nodes E vs x nl hs w = (Inr (nl', hs'), w1) \<and>
        store_nodes E [(p, n)] (if vs = [] then x
          else (case file_name (fst (last vs)) of None \<Rightarrow> [] | Some y \<Rightarrow> y)) nl' hs' w1 =
          (Inr (nl'', hs''), w''))"
proof (induction vs arbitrary: x nl hs w)
  case (Cons v vs)
  show ?case
    by (cases v) (auto simp: res_simps Cons simp del: store_nodes.simps(2) simp: store_nodes_Cons; blast)
qed simp

lemma store_one:
  assumes laws: "mount_laws E" and st: "store_nodes E [(p, n)] x nl hs w = (Inr (nl', hs'), w')"
    and n: "node_tree_ok E P w n" and nl: "link_ok E P w nl"
  shows "\<exists>l k n'. nl' = Dir l k \<and> hs' = hs @ [link_hash l] \<and> keeps_blobs E w w' \<and>
    get_node_from_blobs E nl' w' = Inr n' \<and> node_tree_ok E (insert (link_hash l) P) w' n' \<and>
    length (link_hash l) = 32 \<and>
    fs_node E w' n' = fs_set [x] (fs_link E w nl) (fs_node E w n)"
proof -
  note blob = mount_laws_blob [OF laws]
  let ?n = "node_insert x nl n"
  from st obtain k w1 l where k: "mt_secret_generate E w = (Inr k, w1)"
    and l: "put_node_in_blobs E ?n k w1 = (Inr l, w')" and nl': "nl' = Dir l k" "hs' = hs @ [link_hash l]"
    by (auto simp: res_simps)
  have keep: "keeps_blobs E w w'"
    using keepingD [OF keeping_blobs(1) [OF blob] k] keepingD [OF keeping_blobs(3) [OF blob] l]
    by (auto intro: keeps_trans)
  have ok: "node_tree_ok E P w ?n"
    using n nl by (rule node_tree_ok_insert)
  then have "get_node_from_blobs E nl' w' = Inr ?n"
    using put_get_node [OF laws _ l] by (simp add: nl' node_tree_ok_def)
  moreover have "node_tree_ok E (insert (link_hash l) P) w' ?n"
    using node_tree_ok_mono [OF ok blob keep] by blast
  moreover have "fs_node E w' ?n = fs_set [x] (fs_link E w nl) (fs_node E w n)"
    using fs_node_stable [OF ok blob keep] by (simp add: fs_node_insert)
  moreover have "length (link_hash l) = 32"
    using put_encrypted_Inr [OF laws l [unfolded put_node_in_blobs_def]] by blast
  ultimately show ?thesis
    using nl' keep by blast
qed

lemma fs_set_cong:
  assumes "p \<noteq> []" and "\<And>q. q \<noteq> [] \<Longrightarrow> F q = G q"
  shows "fs_set p t F = fs_set p t G"
proof
  show "fs_set p t F q = fs_set p t G q" for q
    using assms by (cases q) (auto simp: fs_set_def)
qed

lemma fs_set_Cons: "fs_set (y # p) t F = fs_set [y] (fs_set p t (\<lambda>q. F (y # q))) F"
proof
  show "fs_set (y # p) t F q = fs_set [y] (fs_set p t (\<lambda>q. F (y # q))) F q" for q
    by (cases q) (auto simp: fs_set_def)
qed

lemma visited_node_ok:
  assumes "case get_link n y of None \<Rightarrow> n1 = node_new
      | Some (Dir l s) \<Rightarrow> get_node_from_blobs E (Dir l s) w = Inr n1 | Some (Data l s d) \<Rightarrow> False"
    and "node_tree_ok E P w n"
  shows "node_tree_ok E P w n1"
proof (cases "get_link n y")
  case None
  then show ?thesis
    using assms(1) by simp
next
  case (Some nl)
  then obtain l s where nl: "nl = Dir l s" "get_node_from_blobs E (Dir l s) w = Inr n1"
    using assms(1) by (auto split: node_link.splits)
  then show ?thesis
    using link_ok_DirD [of E P w l s] Some assms(2) by (auto simp: node_tree_ok_def)
qed

text \<open>The nodes stored from the innermost to the root make a tree with the link set in it.\<close>

lemma store_spine:
  assumes laws: "mount_laws E" and keep: "keeps_blobs E w w0" and nl: "link_ok E P w0 nl"
  shows "visit_nodes E w n (abs_path cs) (rel_path ns) [] = Inr vs \<Longrightarrow>
    store_nodes E (rev ((abs_path cs, n) # vs)) x nl hs w0 = (Inr (nl', hs'), w') \<Longrightarrow>
    node_tree_ok E P w n \<Longrightarrow>
    \<exists>l k n' new. nl' = Dir l k \<and> hs' = hs @ new \<and> link_hash l \<in> set new \<and>
      (\<forall>h \<in> set new. length h = 32) \<and> keeps_blobs E w0 w' \<and>
      get_node_from_blobs E nl' w' = Inr n' \<and> node_tree_ok E (P \<union> set new) w' n' \<and>
      fs_node E w' n' = fs_set (ns @ [x]) (fs_link E w0 nl) (fs_node E w n)"
proof (induction ns arbitrary: n cs vs nl' hs' w')
  case Nil
  note blob = mount_laws_blob [OF laws]
  have n: "node_tree_ok E P w0 n" "fs_node E w0 n = fs_node E w n"
    using node_tree_ok_mono [OF Nil(3) blob keep subset_refl] fs_node_stable [OF Nil(3) blob keep] by auto
  have "store_nodes E [(abs_path cs, n)] x nl hs w0 = (Inr (nl', hs'), w')"
    using Nil by simp
  from store_one [OF laws this n(1) nl] show ?case
    unfolding n(2) by fastforce
next
  case (Cons y ns)
  note blob = mount_laws_blob [OF laws]
  from Cons.prems(1) obtain n1 vs' where n1: "case get_link n y of None \<Rightarrow> n1 = node_new
        | Some (Dir l s) \<Rightarrow> get_node_from_blobs E (Dir l s) w = Inr n1 | Some (Data l s d) \<Rightarrow> False"
    and vs': "visit_nodes E w n1 (abs_path (cs @ [y])) (rel_path ns) [] = Inr vs'"
    and vs: "vs = (abs_path (cs @ [y]), n1) # vs'"
    unfolding list.map visit_nodes_Cons by blast
  have n1_ok: "node_tree_ok E P w n1"
    using n1 Cons.prems(3) by (rule visited_node_ok)
  have n1_fs: "fs_node E w n (y # q) = fs_node E w n1 q" if "q \<noteq> []" for q
    using n1 that by (cases q) (auto simp: fs_link_dir split: option.splits node_link.splits)
  from Cons.prems(2) obtain nl1 hs1 w1 where
    s1: "store_nodes E (rev ((abs_path (cs @ [y]), n1) # vs')) x nl hs w0 = (Inr (nl1, hs1), w1)"
    and s2: "store_nodes E [(abs_path cs, n)] y nl1 hs1 w1 = (Inr (nl', hs'), w')"
    unfolding vs rev.simps(2) [of "(abs_path cs, n)"] store_nodes_snoc
    by (auto simp del: store_nodes.simps(2))
  from Cons.IH [OF vs' s1 n1_ok] obtain l1 k1 n2 new where nl1: "nl1 = Dir l1 k1"
    and hs1: "hs1 = hs @ new" "link_hash l1 \<in> set new" "\<forall>h \<in> set new. length h = 32"
    and keep1: "keeps_blobs E w0 w1" and n2: "get_node_from_blobs E nl1 w1 = Inr n2"
    "node_tree_ok E (P \<union> set new) w1 n2"
    "fs_node E w1 n2 = fs_set (ns @ [x]) (fs_link E w0 nl) (fs_node E w n1)"
    by blast
  have keep01: "keeps_blobs E w w1"
    using keep keep1 by (rule keeps_trans)
  have n: "node_tree_ok E (P \<union> set new) w1 n" "fs_node E w1 n = fs_node E w n"
    using node_tree_ok_mono [OF Cons.prems(3) blob keep01] fs_node_stable [OF Cons.prems(3) blob keep01]
    by auto
  have "link_ok E (P \<union> set new) w1 nl1"
    using n2 hs1(2) unfolding nl1 by (intro link_ok_Dir) auto
  from store_one [OF laws s2 n(1) this] obtain l k n3 where r: "nl' = Dir l k"
    "hs' = hs1 @ [link_hash l]" "keeps_blobs E w1 w'" "get_node_from_blobs E nl' w' = Inr n3"
    "node_tree_ok E (insert (link_hash l) (P \<union> set new)) w' n3" "length (link_hash l) = 32"
    "fs_node E w' n3 = fs_set [y] (fs_link E w1 nl1) (fs_node E w1 n)"
    by blast
  have "fs_link E w1 nl1 = fs_set (ns @ [x]) (fs_link E w0 nl) (\<lambda>q. fs_node E w n (y # q))"
    using fs_set_cong [of "ns @ [x]", OF _ n1_fs] n2 by (simp add: nl1 fs_link_dir)
  then have "fs_node E w' n3 = fs_set ((y # ns) @ [x]) (fs_link E w0 nl) (fs_node E w n)"
    using fs_set_Cons [of y "ns @ [x]" "fs_link E w0 nl" "fs_node E w n"] r(7) n(2) by simp
  moreover have "node_tree_ok E (P \<union> set (new @ [link_hash l])) w' n3"
    using r(5) by (simp add: Un_insert_right)
  ultimately show ?case
    using r hs1 keeps_trans [OF keep1 r(3)]
    by (intro exI [of _ l] exI [of _ k] exI [of _ n3] exI [of _ "new @ [link_hash l]"]) auto
qed

lemma set_node_link_steps:
  "set_node_link_at_path E n nl (abs_path (ns @ [x])) w =
     (case visit_nodes E w n (abs_path []) (rel_path ns) [] of
        Inl e \<Rightarrow> (Inl e, w)
      | Inr vs \<Rightarrow> store_nodes E (rev ((abs_path [], n) # vs)) x nl [] w)"
proof -
  have "visit_nodes E w n [RootDir] (rel_path ns) [([RootDir], n)] =
      bindR (visit_nodes E w n [RootDir] (rel_path ns) []) (\<lambda>r. Inr ([([RootDir], n)] @ r))"
    by (rule visit_nodes_acc)
  then show ?thesis
    by (simp add: set_node_link_at_path_def bindS_def liftR_def bindR_def split: sum.splits)
qed

lemma set_node_link_Inr:
  assumes laws: "mount_laws E" and n: "node_tree_ok E P w n" and nl: "link_ok E P w nl"
    and set: "set_node_link_at_path E n nl (abs_path (ns @ [x])) w = (Inr (nl', hs), w')"
  shows "\<exists>l k n'. nl' = Dir l k \<and> link_hash l \<in> set hs \<and> (\<forall>h \<in> set hs. length h = 32) \<and>
    keeps_blobs E w w' \<and> get_node_from_blobs E nl' w' = Inr n' \<and>
    node_tree_ok E (P \<union> set hs) w' n' \<and>
    fs_node E w' n' = fs_set (ns @ [x]) (fs_link E w nl) (fs_node E w n)"
proof -
  from set obtain vs where "visit_nodes E w n (abs_path []) (rel_path ns) [] = Inr vs"
    and "store_nodes E (rev ((abs_path [], n) # vs)) x nl [] w = (Inr (nl', hs), w')"
    unfolding set_node_link_steps by (cases "visit_nodes E w n (abs_path []) (rel_path ns) []") auto
  from store_spine [OF laws keeps_refl nl this n] show ?thesis
    by (simp only: append_Nil) blast
qed

end
