(* ===== verification/Sample.thy ===== *)
theory Sample
  imports Tree
begin

text \<open>
  A concrete instance of the external functions, on which the laws hold and runs of the model can
  be evaluated: the world is a counter and a list of stored blobs, blobs are named by the counter,
  and the codecs are tables that encode the listed values and reject every other one.
\<close>

type_synonym sample_world = "nat \<times> (hash \<times> bytes) list"

definition table_encode :: "'a list \<Rightarrow> 'a \<Rightarrow> bytes option" where
  "table_encode tab x =
     (case find (\<lambda>i. tab ! i = x) [0..<min 256 (length tab)] of
        None \<Rightarrow> None | Some i \<Rightarrow> Some [of_nat i])"

definition table_decode :: "'a list \<Rightarrow> bytes \<Rightarrow> 'a option" where
  "table_decode tab b =
     (case b of [c] \<Rightarrow> if unat c < length tab then Some (tab ! unat c) else None | _ \<Rightarrow> None)"

definition sample_add :: "bytes \<Rightarrow> sample_world \<Rightarrow> (string + hash) \<times> sample_world" where
  "sample_add b w =
     (let h = replicate 32 (of_nat (fst w)) in
      if map_of (snd w) h = None then (Inr h, (Suc (fst w), (h, b) # snd w))
      else (Inl ''full'', w))"

definition sample_stream :: "(string + bytes) list \<Rightarrow> sample_world \<Rightarrow> (string + hash) \<times> sample_world" where
  "sample_stream st w =
     (if (\<forall>c \<in> set st. \<not> isl c) then sample_add (concat (map projr st)) w else (Inl ''io'', w))"

definition sample_ext ::
  "node list \<Rightarrow> (op_id, path_operation) btree list \<Rightarrow> manifest list \<Rightarrow> sample_world mount_ext" where
  "sample_ext nodes logs manifests =
     crypto_ext.extend (sample_crypto (\<lambda>w. (fst w, (Suc (fst w), snd w))))
       \<lparr>cbor_encode_manifest = table_encode manifests, cbor_decode_manifest = table_decode manifests,
        get_bytes = (\<lambda>h w. ok_or ''missing'' (map_of (snd w) h)),
        add_bytes = sample_add, add_stream = sample_stream,
        blob_complete = (\<lambda>h w. Inr (map_of (snd w) h \<noteq> None)),
        download = (\<lambda>h ps w. (Inl ''offline'', w)),
        cbor_encode_node = table_encode nodes, cbor_decode_node = table_decode nodes,
        cbor_encode_ops = table_encode logs, cbor_decode_ops = table_decode logs,
        mime_of_path = (\<lambda>p. None)\<rparr>"

lemmas sample_ext_defs = sample_ext_def crypto_ext.extend_def

lemma sample_ext_sel [simp]:
  "get_bytes (sample_ext ns ls ms) = (\<lambda>h w. ok_or ''missing'' (map_of (snd w) h))"
  "add_bytes (sample_ext ns ls ms) = sample_add"
  "add_stream (sample_ext ns ls ms) = sample_stream"
  "blob_complete (sample_ext ns ls ms) = (\<lambda>h w. Inr (map_of (snd w) h \<noteq> None))"
  "download (sample_ext ns ls ms) = (\<lambda>h ps w. (Inl ''offline'', w))"
  "cbor_encode_node (sample_ext ns ls ms) = table_encode ns"
  "cbor_decode_node (sample_ext ns ls ms) = table_decode ns"
  "cbor_encode_ops (sample_ext ns ls ms) = table_encode ls"
  "cbor_decode_ops (sample_ext ns ls ms) = table_decode ls"
  "cbor_encode_manifest (sample_ext ns ls ms) = table_encode ms"
  "cbor_decode_manifest (sample_ext ns ls ms) = table_decode ms"
  "mime_of_path (sample_ext ns ls ms) = (\<lambda>p. None)"
  by (simp_all add: sample_ext_defs)

lemma sample_ext_crypto [simp]:
  "getrandom (sample_ext ns ls ms) = (\<lambda>n w. (Some (replicate n (of_nat (fst w))), (Suc (fst w), snd w)))"
  "blake3 (sample_ext ns ls ms) = (\<lambda>b. take 32 (b @ replicate 32 0))"
  "chacha_encrypt (sample_ext ns ls ms) = (\<lambda>k n m. Some (k @ m))"
  "chacha_decrypt (sample_ext ns ls ms) =
     (\<lambda>k n c. if take (length k) c = k then Some (drop (length k) c) else None)"
  "ed_public (sample_ext ns ls ms) = (\<lambda>k. if k = replicate 32 255 then replicate 32 0 else k)"
  "ed_sign (sample_ext ns ls ms) = (\<lambda>k m. m)"
  "to_montgomery (sample_ext ns ls ms) = (\<lambda>b. if b = replicate 32 255 then None else Some b)"
  "kw_wrap (sample_ext ns ls ms) = (\<lambda>k s. Some (replicate 8 0 @ s))"
  "hex_encode (sample_ext ns ls ms) = (\<lambda>b. CHR ''h'' # map (\<lambda>x. char_of (unat x)) b)"
  by (simp_all add: sample_ext_defs sample_crypto_def)

lemma table_codec: "table_encode tab x = Some b \<Longrightarrow> table_decode tab b = Some x"
  by (auto simp: table_encode_def table_decode_def find_Some_iff unat_of_nat split: option.splits)

lemma sample_add_keeps:
  "map_of (snd w) h = Some b \<Longrightarrow> map_of (snd (snd (sample_add b' w))) h = Some b"
  by (auto simp: sample_add_def Let_def)

lemma sample_add_Inr:
  "sample_add b w = (Inr h, w') \<Longrightarrow> length h = 32 \<and> map_of (snd w') h = Some b"
  by (auto simp: sample_add_def Let_def split: if_splits)

lemma sample_blob_laws: "blob_laws (sample_ext ns ls ms)"
  unfolding blob_laws_def keeps_blobs_def
  by (auto simp: res_simps sample_stream_def sample_add_keeps o_def dest: sample_add_Inr)

lemma sample_crypto_laws_ext: "crypto_laws (sample_ext ns ls ms)"
  unfolding sample_ext_def crypto_laws_extend by (rule sample_crypto_laws)

lemma sample_laws: "mount_laws (sample_ext ns ls ms)"
  by (auto simp: mount_laws_def sample_blob_laws sample_crypto_laws_ext dest: table_codec)

text \<open>A mount with an empty tree, and the equations that evaluate runs from it.\<close>

definition sample_manifest :: manifest where
  "sample_manifest = \<lparr>m_id = 0, m_name = ''b'', m_height = 0, m_version = [], m_shares = [],
     m_entry = link_default, m_pins = link_default, m_previous = None, m_ops_log = None,
     m_public = None, m_author = None, m_signature = None\<rparr>"

definition sample_mount :: mount_inner where
  "sample_mount = \<lparr>mi_link = link_default, mi_manifest = sample_manifest, mi_entry = node_new,
     mi_pins = [], mi_height = 0, mi_ops_log = log_new, mi_peer_id = [1], mi_secret_key = [1]\<rparr>"

definition sample_file :: "nat \<Rightarrow> nat \<Rightarrow> node_link" where
  "sample_file h k = Data (link_new LD_RAW_CODEC (replicate 32 (of_nat h))) (replicate 32 (of_nat k))
     \<lparr>d_mime = None, d_metadata = None\<rparr>"

definition sample_dir :: "nat \<Rightarrow> nat \<Rightarrow> node_link" where
  "sample_dir h k = Dir (link_new LD_RAW_CODEC (replicate 32 (of_nat h))) (replicate 32 (of_nat k))"

lemmas run_defs = bindS_def bindR_def liftR_def mapS_err_def on_world_def read_state_def
  update_inner_def mt_secret_generate_def secret_generate_def encrypt_def encrypt_reader_def
  decrypt_def put_stream_def blob_put_def blob_get_def blob_stat_def check_stat_def
  put_node_in_blobs_def put_encrypted_def get_node_from_blobs_def reload_entry_def
  set_node_link_at_path_def Let_def sample_stream_def sample_add_def table_encode_def
  table_decode_def sample_mount_def sample_manifest_def sample_file_def sample_dir_def
  parent_def file_name_def file_name_unwrap_def new_data_from_path_def data_from_path_def
  node_insert_def node_new_def get_link_def push_def is_absolute_def

theorem download_hash_list_complete_witness:
  "download_hash_list (sample_ext [] [] []) (replicate 32 1) [] (0, [(replicate 32 1, replicate 32 1)]) =
     (Inr (), (0, [(replicate 32 1, replicate 32 1)])) \<and>
   (\<exists>hs. read_hash_list (sample_ext [] [] []) (replicate 32 1) (0, [(replicate 32 1, replicate 32 1)]) = Inr hs)"
proof -
  let ?E = "sample_ext [] [] []" and ?w = "(0, [(replicate 32 1, replicate 32 1)])"
  have "download_hash_list ?E (replicate 32 1) [] ?w = (Inr (), ?w)"
    by (simp add: download_hash_list_def download_hash_def blob_stat_def read_hash_list_def blob_get_def
        chunks_exact.simps bindS_def)
  then show ?thesis
    using download_hash_list_complete [OF sample_blob_laws] by blast
qed

theorem hash_list_roundtrip_witness:
  "read_hash_list (sample_ext [] [] []) (replicate 32 0) (1, [(replicate 32 0, replicate 32 5)]) =
     Inr [replicate 32 5]"
proof -
  have "create_hash_list (sample_ext [] [] []) [replicate 32 5] (0, []) =
      (Inr (replicate 32 0), (1, [(replicate 32 0, replicate 32 5)]))"
    by (simp add: create_hash_list_def blob_put_def sample_add_def Let_def)
  from hash_list_roundtrip [OF sample_blob_laws _ this keeps_refl] show ?thesis
    by simp
qed

end
