(* ===== verification/File_Ops.thy ===== *)
theory File_Ops
  imports Sample
begin

text \<open>
  The operations of a mount on files refine the abstract file system of theory \<open>Tree\<close>: \<open>add\<close>,
  \<open>mkdir\<close>, \<open>rm\<close> and \<open>mv\<close> change it as specified, keep the invariant of the mount, and leave the
  mount as it was when they fail (\<open>mv\<close> excepted); \<open>get\<close>, \<open>cat\<close> and \<open>ls\<close> read it.
\<close>

section \<open>Sequencing\<close>

lemma on_world_eq [res_simps]:
  "on_world f s = (r, s') \<longleftrightarrow> (\<exists>w'. f (snd s) = (r, w') \<and> s' = (fst s, w'))"
  by (auto simp: on_world_def split: prod.splits)

lemma read_state_eq [res_simps]: "read_state q s = (r, s') \<longleftrightarrow> q s = r \<and> s' = s"
  by (auto simp: read_state_def)

lemma update_inner_eq [res_simps]:
  "update_inner f s = (r, s') \<longleftrightarrow> r = Inr () \<and> s' = (f (fst s), snd s)"
  by (auto simp: update_inner_def)

lemma case_del_Inr [res_simps]:
  "(case r of (None, _) \<Rightarrow> liftR (Inl e) | (Some v, n) \<Rightarrow> f v n) s = (Inr y, s') \<longleftrightarrow>
     (\<exists>v n. r = (Some v, n) \<and> f v n s = (Inr y, s'))"
  by (auto simp: liftR_def split: prod.splits option.splits)

lemma if_state_Inr [res_simps]:
  "(if c then f else g) s = (Inr y, s') \<longleftrightarrow> c \<and> f s = (Inr y, s') \<or> \<not> c \<and> g s = (Inr y, s')"
  by simp

section \<open>Walking\<close>

lemma fs_node_parent:
  "fs_node E w n (p @ x # q) \<noteq> None \<Longrightarrow> fs_node E w n p = Some FDir"
proof (induction p arbitrary: n)
  case (Cons y p)
  then obtain nl where nl: "get_link n y = Some nl" "fs_link E w nl (p @ x # q) \<noteq> None"
    by (auto split: option.splits)
  then obtain l s where dir: "nl = Dir l s"
    by (cases nl) (auto split: list.splits sum.splits)
  then obtain n1 where n1: "get_node_from_blobs E (Dir l s) w = Inr n1"
    using nl(2) by (cases p) (auto split: sum.splits)
  show ?case
    using Cons.IH [of n1] nl dir by (simp add: fs_link_dir [OF n1])
qed simp

lemma node_tree_ok_child:
  assumes "node_tree_ok E P w n" and "get_link n x = Some (Dir l s)"
  obtains n1 where "get_node_from_blobs E (Dir l s) w = Inr n1" and "node_tree_ok E P w n1"
    and "\<And>q. fs_node E w n (x # q) = fs_node E w n1 q"
proof -
  have "link_ok E P w (Dir l s)"
    using assms by (simp add: node_tree_ok_def)
  then obtain n1 where "get_node_from_blobs E (Dir l s) w = Inr n1" "node_tree_ok E P w n1"
    by (auto dest!: link_ok_DirD)
  then show ?thesis
    using that assms(2) by (simp add: fs_link_dir)
qed

lemma walk_dir:
  assumes "node_tree_ok E P w n" and "fs_node E w n ns = Some FDir"
  shows "\<exists>n'. walk_path E w n (abs_path cs) (rel_path ns) = Inr n' \<and> node_tree_ok E P w n' \<and>
    fs_node E w n' = (\<lambda>q. fs_node E w n (ns @ q))"
  using assms
proof (induction ns arbitrary: n cs)
  case (Cons x ns)
  from Cons.prems(2) obtain nl where nl: "get_link n x = Some nl" "fs_link E w nl ns = Some FDir"
    by (auto split: option.splits)
  then obtain l s where dir: "nl = Dir l s"
    by (cases nl) (auto split: list.splits sum.splits)
  from Cons.prems(1) nl(1) [unfolded dir] obtain n1 where
    n1: "get_node_from_blobs E (Dir l s) w = Inr n1" "node_tree_ok E P w n1"
    "\<And>q. fs_node E w n (x # q) = fs_node E w n1 q"
    by (rule node_tree_ok_child) blast
  have "fs_node E w n1 ns = Some FDir"
    using Cons.prems(2) n1(3) by simp
  from Cons.IH [OF n1(2) this, of "cs @ [x]"] show ?case
    using nl dir n1 by (simp add: Let_def)
qed simp

lemma walk_missing:
  assumes "node_tree_ok E P w n" and "fs_node E w n ns = None"
    and "\<And>p b. prefix p ns \<Longrightarrow> fs_node E w n p \<noteq> Some (FFile b)"
  shows "\<exists>p. walk_path E w n (abs_path cs) (rel_path ns) = Inl (PathNotFound p)"
  using assms
proof (induction ns arbitrary: n cs)
  case (Cons x ns)
  show ?case
  proof (cases "get_link n x")
    case None
    then show ?thesis
      by (simp add: Let_def)
  next
    case (Some nl)
    have "\<exists>l s. nl = Dir l s"
    proof (cases nl)
      case (Data l s d)
      then have "link_ok E P w (Data l s d)"
        using Cons.prems(1) Some by (simp add: node_tree_ok_def)
      then obtain b where "fs_node E w n [x] = Some (FFile b)"
        using Some Data by (auto elim: link_ok_DataE)
      then show ?thesis
        using Cons.prems(3) [of "[x]" b] by simp
    qed simp
    then obtain l s where dir: "nl = Dir l s"
      by blast
    from Cons.prems(1) Some [unfolded dir] obtain n1 where
      n1: "get_node_from_blobs E (Dir l s) w = Inr n1" "node_tree_ok E P w n1"
      "\<And>q. fs_node E w n (x # q) = fs_node E w n1 q"
      by (rule node_tree_ok_child) blast
    have "fs_node E w n1 ns = None"
      using Cons.prems(2) n1(3) by simp
    moreover have "prefix p ns \<Longrightarrow> fs_node E w n1 p \<noteq> Some (FFile b)" for p b
      using Cons.prems(3) [of "x # p" b] n1(3) by simp
    ultimately have "\<exists>p. walk_path E w n1 (abs_path (cs @ [x])) (rel_path ns) = Inl (PathNotFound p)"
      using n1(2) by (intro Cons.IH)
    then show ?thesis
      using Some dir n1 by (simp add: Let_def)
  qed
qed simp

lemma node_or_root_dir:
  assumes "node_tree_ok E P w n" and "fs_node E w n ns = Some FDir"
  obtains n' where "node_or_root E n (rel_path ns) w = Inr n'" and "node_tree_ok E P w n'"
    and "fs_node E w n' = (\<lambda>q. fs_node E w n (ns @ q))"
proof (cases ns)
  case Nil
  then show ?thesis
    using that [of n] assms by (simp add: node_or_root_def)
next
  case (Cons y ys)
  then show ?thesis
    using that walk_dir [OF assms, of "[]"] by (auto simp: node_or_root_def get_node_at_path_def)
qed

section \<open>Reading\<close>

lemma get_existing:
  assumes "node_tree_ok E P (snd s) (mi_entry (fst s))" and "mount_fs E s (ns @ [x]) = Some ob"
  shows "\<exists>nl. mount_get E (abs_path (ns @ [x])) s = Inr nl \<and> link_ok E P (snd s) nl \<and>
    fs_link E (snd s) nl = (\<lambda>q. mount_fs E s ((ns @ [x]) @ q)) \<and> (is_dir nl \<longleftrightarrow> ob = FDir)"
proof -
  let ?n = "mi_entry (fst s)"
  have "fs_node E (snd s) ?n ns = Some FDir"
    using assms(2) fs_node_parent [of E "snd s" ?n ns x "[]"] by (simp add: mount_fs_def)
  with assms(1) obtain n' where n': "node_or_root E ?n (rel_path ns) (snd s) = Inr n'"
    "node_tree_ok E P (snd s) n'" "fs_node E (snd s) n' = (\<lambda>q. mount_fs E s (ns @ q))"
    unfolding mount_fs_def by (rule node_or_root_dir) blast
  have fs: "fs_node E (snd s) n' (x # q) = mount_fs E s (ns @ x # q)" for q
    using n'(3) by (rule fun_cong)
  have "get_link n' x \<noteq> None"
    using assms(2) fs [of "[]"] by (auto split: option.splits)
  then obtain nl where nl: "get_link n' x = Some nl"
    by blast
  have link: "fs_link E (snd s) nl = (\<lambda>q. mount_fs E s ((ns @ [x]) @ q))"
    using fs nl by (simp add: fun_eq_iff)
  then have "fs_link E (snd s) nl [] = Some ob"
    using assms(2) by simp
  then have "is_dir nl \<longleftrightarrow> ob = FDir"
    by (cases nl) (auto split: sum.splits)
  then show ?thesis
    using n' nl link by (simp add: mount_get_def node_tree_ok_def)
qed

lemma get_missing:
  assumes "node_tree_ok E P (snd s) (mi_entry (fst s))" and "mount_fs E s ns = Some FDir"
    and "mount_fs E s (ns @ [x]) = None"
  shows "mount_get E (abs_path (ns @ [x])) s = Inl (PathNotFound (rel_path (ns @ [x])))"
proof -
  from assms(1,2) obtain n' where n': "node_or_root E (mi_entry (fst s)) (rel_path ns) (snd s) = Inr n'"
    "node_tree_ok E P (snd s) n'" "fs_node E (snd s) n' = (\<lambda>q. mount_fs E s (ns @ q))"
    unfolding mount_fs_def by (rule node_or_root_dir) blast
  have "fs_node E (snd s) n' [x] = None"
    using n'(3) assms(3) by simp
  then have "get_link n' x = None"
  proof (cases "get_link n' x")
    case (Some nl)
    then have "link_ok E P (snd s) nl"
      using n'(2) by (simp add: node_tree_ok_def)
    then show ?thesis
      using Some \<open>fs_node E (snd s) n' [x] = None\<close> by (cases nl) (auto elim: link_ok_DataE)
  qed simp
  then show ?thesis
    using n' by (simp add: mount_get_def)
qed

lemma cat_get:
  "mount_cat E (abs_path p) s = bindR (mount_get E (abs_path p) s) (\<lambda>nl. case nl of
     Data l secret _ \<Rightarrow> bindR (map_err MtBlobsStore (blob_get E (link_hash l) (snd s)))
       (\<lambda>c. map_err MtSecret (decrypt E secret c))
   | Dir _ _ \<Rightarrow> Inl (PathNotNode (rel_path p)))"
  by (auto simp: mount_cat_def mount_get_def bindR_def split: sum.splits)

section \<open>The invariant of a mount\<close>

definition mount_ok :: "('w, 'z) mount_ext_scheme \<Rightarrow> 'w mount_state \<Rightarrow> bool" where
  "mount_ok E s \<longleftrightarrow>
     node_tree_ok E (set (mi_pins (fst s))) (snd s) (mi_entry (fst s)) \<and>
     distinct (mi_pins (fst s)) \<and> (\<forall>h \<in> set (mi_pins (fst s)). length h = 32) \<and>
     log_ok (mi_ops_log (fst s)) \<and> shares_ok E (mi_manifest (fst s)) \<and>
     m_height (mi_manifest (fst s)) = mi_height (fst s) \<and> length (link_hash (mi_link (fst s))) = 32"

lemma mount_ok_tree: "mount_ok E (m, w) \<Longrightarrow> node_tree_ok E (set (mi_pins m)) w (mi_entry m)"
  by (simp add: mount_ok_def)

lemma mount_ok_keeps:
  assumes "mount_ok E (m, w)" and "blob_laws E" and "keeps_blobs E w w'"
  shows "mount_ok E (m, w')" and "mount_fs E (m, w') = mount_fs E (m, w)"
  using assms(1) node_tree_ok_mono [OF mount_ok_tree [OF assms(1)] assms(2,3) subset_refl]
    fs_node_stable [OF mount_ok_tree [OF assms(1)] assms(2,3)]
  by (simp_all add: mount_ok_def mount_fs_def)

lemma record_op_sel [simp]:
  "mi_entry (record_op ty p c d m) = mi_entry m" "mi_pins (record_op ty p c d m) = mi_pins m"
  "mi_manifest (record_op ty p c d m) = mi_manifest m" "mi_height (record_op ty p c d m) = mi_height m"
  "mi_link (record_op ty p c d m) = mi_link m"
  "mi_secret_key (record_op ty p c d m) = mi_secret_key m" "mi_peer_id (record_op ty p c d m) = mi_peer_id m"
  "mi_ops_log (record_op ty p c d m) = snd (log_record (mi_peer_id m) ty p c d (mi_ops_log m))"
  by (simp_all add: record_op_def)

text \<open>Replacing the entry of a mount, with the new blobs pinned.\<close>

lemma mount_ok_new_entry:
  assumes "mount_ok E (m, w)" and "node_tree_ok E (set (mi_pins m) \<union> set hs) w' n"
    and "\<forall>h \<in> set hs. length h = 32"
  shows "mount_ok E (record_op ty p c d (m\<lparr>mi_pins := pins_extend hs (mi_pins m), mi_entry := n\<rparr>), w')"
  using assms by (auto simp: mount_ok_def log_ok_record Un_commute)

lemma pin_one_all: "pin_all hs (pin_one h m) = m\<lparr>mi_pins := pins_extend (h # hs) (mi_pins m)\<rparr>"
  by (simp add: pin_all_def pin_one_def pins_extend_def)

lemma set_and_reload:
  assumes "mount_laws E" and "node_tree_ok E P w n" and "link_ok E P w nl"
    and "set_node_link_at_path E n nl (abs_path (ns @ [x])) w = (Inr (nl', hs), w1)"
    and "reload_entry E nl' w1 = (Inr r, w2)"
  obtains n' where "w2 = w1" and "r = Some n'" and "get_node_from_blobs E nl' w1 = Inr n'"
    and "keeps_blobs E w w1" and "\<forall>h \<in> set hs. length h = 32"
    and "node_tree_ok E (P \<union> set hs) w1 n'"
    and "fs_node E w1 n' = fs_set (ns @ [x]) (fs_link E w nl) (fs_node E w n)"
  using set_node_link_Inr [OF assms(1-4)] assms(5) by (auto simp: reload_entry_def)

section \<open>Reading files\<close>

lemma cat_file:
  assumes "mount_ok E s" and "mount_fs E s (ns @ [x]) = Some (FFile b)"
  shows "mount_cat E (abs_path (ns @ [x])) s = Inr b"
proof -
  have "node_tree_ok E (set (mi_pins (fst s))) (snd s) (mi_entry (fst s))"
    using assms(1) by (simp add: mount_ok_def)
  from get_existing [OF this assms(2)] obtain nl where
    get: "mount_get E (abs_path (ns @ [x])) s = Inr nl" and "\<not> is_dir nl"
    and "fs_link E (snd s) nl [] = Some (FFile b)"
    using assms(2) by auto
  then obtain l k d c where "nl = Data l k d" "blob_get E (link_hash l) (snd s) = Inr c"
    "decrypt E k c = Inr b"
    by (cases nl) (auto split: sum.splits)
  then show ?thesis
    unfolding cat_get get by simp
qed

definition no_file_above :: "string list \<Rightarrow> fs \<Rightarrow> bool" where
  "no_file_above ns F \<longleftrightarrow> (\<forall>p b. prefix p ns \<longrightarrow> F p \<noteq> Some (FFile b))"

lemma no_file_above_None: "F ns \<noteq> Some FDir \<Longrightarrow> no_file_above ns F \<Longrightarrow> F ns = None"
  by (cases "F ns"; cases "the (F ns)") (auto simp: no_file_above_def)

lemma get_missing_above:
  assumes "mount_ok E s" and "mount_fs E s (ns @ [x]) = None" and "no_file_above ns (mount_fs E s)"
  shows "\<exists>p. mount_get E (abs_path (ns @ [x])) s = Inl (PathNotFound p)"
proof -
  have ok: "node_tree_ok E (set (mi_pins (fst s))) (snd s) (mi_entry (fst s))"
    using assms(1) by (simp add: mount_ok_def)
  show ?thesis
  proof (cases "mount_fs E s ns = Some FDir")
    case True
    then show ?thesis
      using get_missing [OF ok True assms(2)] by blast
  next
    case False
    then have "mount_fs E s ns = None"
      using assms(3) by (rule no_file_above_None)
    then have none: "fs_node E (snd s) (mi_entry (fst s)) ns = None" and "ns \<noteq> []"
      by (auto simp: mount_fs_def)
    have "\<exists>p. walk_path E (snd s) (mi_entry (fst s)) (abs_path []) (rel_path ns) = Inl (PathNotFound p)"
      using walk_missing [OF ok none, where cs = "[]"] assms(3)
      by (simp add: no_file_above_def mount_fs_def)
    then show ?thesis
      using \<open>ns \<noteq> []\<close> by (auto simp: mount_get_def node_or_root_def get_node_at_path_def)
  qed
qed

lemma visit_file:
  assumes "node_tree_ok E P w n" and "fs_node E w n ts = Some (FFile b)"
  shows "visit_nodes E w n (abs_path cs) (rel_path (ts @ us)) vs = Inl (PathNotNode (abs_path (cs @ ts)))"
  using assms
proof (induction ts arbitrary: n cs vs)
  case (Cons x ts)
  then obtain nl where nl: "get_link n x = Some nl" "fs_link E w nl ts = Some (FFile b)"
    by (auto split: option.splits)
  show ?case
  proof (cases nl)
    case (Data l s d)
    then have "ts = []"
      using nl(2) by (auto split: list.splits)
    then show ?thesis
      using nl(1) Data by (simp add: Let_def)
  next
    case (Dir l s)
    from Cons.prems(1) nl(1) [unfolded Dir] obtain n1 where
      n1: "get_node_from_blobs E (Dir l s) w = Inr n1" "node_tree_ok E P w n1"
      "\<And>q. fs_node E w n (x # q) = fs_node E w n1 q"
      by (rule node_tree_ok_child) blast
    then show ?thesis
      using Cons.IH [of n1 "cs @ [x]"] Cons.prems(2) nl Dir by (simp add: Let_def)
  qed
qed simp

text \<open>So setting a link succeeds only when no file is in the way.\<close>

lemma set_node_link_no_file:
  assumes "node_tree_ok E P w n"
    and "set_node_link_at_path E n nl (abs_path (ns @ [x])) w = (Inr r, w')"
  shows "no_file_above ns (fs_node E w n)"
proof -
  have "visit_nodes E w n (abs_path []) (rel_path ns) [] \<noteq> Inl e" for e
    using assms(2) unfolding set_node_link_steps by auto
  then have "fs_node E w n p \<noteq> Some (FFile b)" if "prefix p ns" for p b
    using visit_file [OF assms(1), of p b "[]" _ "[]"] that by (metis prefixE)
  then show ?thesis
    by (simp add: no_file_above_def)
qed

section \<open>Adding a file\<close>

lemma add_Inr:
  assumes laws: "mount_laws E" and ok: "mount_ok E (m, w)"
    and add: "mount_add E (abs_path (ns @ [x])) data (m, w) = (Inr (), (m', w'))"
  obtains b hs n l where "data = Inr b" and "\<forall>h \<in> set hs. length h = 32"
    and "node_tree_ok E (set (mi_pins m) \<union> set hs) w' n" and "keeps_blobs E w w'"
    and "fs_node E w' n = fs_set (ns @ [x]) (fs_file b) (mount_fs E (m, w))"
    and "no_file_above ns (mount_fs E (m, w))"
    and "m' = record_op Add (rel_path (ns @ [x])) (Some l) False
      (m\<lparr>mi_pins := pins_extend hs (mi_pins m), mi_entry := n\<rparr>)"
proof -
  note blob = mount_laws_blob [OF laws]
  from add obtain k w1 c w2 h w3 nl' hs w4 r where
    k: "mt_secret_generate E w = (Inr k, w1)"
    and c: "encrypt_reader E k data w1 = (Inr c, w2)"
    and h: "put_stream E [Inr c] w2 = (Inr h, w3)"
    and set: "set_node_link_at_path E (mi_entry m) (new_data_from_path (mime_of_path E)
      (link_new LD_RAW_CODEC h) k (abs_path (ns @ [x]))) (abs_path (ns @ [x])) w3 = (Inr (nl', hs), w4)"
    and r: "reload_entry E nl' w4 = (Inr r, w')"
    and m': "m' = record_op Add (rel_path (ns @ [x])) (Some (link_new LD_RAW_CODEC h)) False
      (set_new_entry r (pin_all hs (pin_one h m)))"
    unfolding mount_add_def Let_def by (clarsimp simp: res_simps)
  from c obtain b where b: "data = Inr b" "encrypt E k b w1 = (Inr c, w2)"
    by (auto simp: encrypt_reader_def split: sum.splits)
  have keep: "keeps_blobs E w w3"
    using keepingD [OF keeping_blobs(1) [OF blob] k] keepingD [OF keeping_random(3) [OF blob] b(2)]
      keeps_put_stream [OF blob h] by (auto intro: keeps_trans)
  define P where "P = insert h (set (mi_pins m))"
  let ?nl = "new_data_from_path (mime_of_path E) (link_new LD_RAW_CODEC h) k (abs_path (ns @ [x]))"
  have dec: "decrypt E k c = Inr b"
    using mount_laws_crypto [OF laws] b(2) by (rule decrypt_encrypt)
  have nl: "link_ok E P w3 ?nl" and fs_nl: "fs_link E w3 ?nl = fs_file b"
    using put_stream_get [OF blob h] dec
    by (auto simp: new_data_from_path_def P_def fs_file_def fun_eq_iff intro: link_ok.is_file split: list.splits)
  have n: "node_tree_ok E P w3 (mi_entry m)"
    by (rule node_tree_ok_mono [OF mount_ok_tree [OF ok] blob keep]) (auto simp: P_def)
  from laws n nl set r obtain n' where "w' = w4" "r = Some n'" and "keeps_blobs E w3 w4"
    "\<forall>h \<in> set hs. length h = 32" "node_tree_ok E (P \<union> set hs) w4 n'"
    "fs_node E w4 n' = fs_set (ns @ [x]) (fs_file b) (fs_node E w3 (mi_entry m))"
    unfolding fs_nl [symmetric] by (rule set_and_reload) blast
  then show ?thesis
    using that [OF b(1), of "h # hs" n' "link_new LD_RAW_CODEC h"] m' keeps_trans [OF keep, of w4]
      put_stream_get(2) [OF blob h] mount_ok_keeps(2) [OF ok blob keep] set_node_link_no_file [OF n set]
    by (auto simp: mount_fs_def P_def pin_one_all set_new_entry_def Un_commute)
qed

section \<open>Removing\<close>

lemma fs_set_del:
  assumes "\<And>p. prefix p ns \<Longrightarrow> F p = Some FDir"
  shows "fs_set ns (fs_del [x] (\<lambda>q. F (ns @ q))) F = fs_del (ns @ [x]) F"
proof
  show "fs_set ns (fs_del [x] (\<lambda>q. F (ns @ q))) F q = fs_del (ns @ [x]) F q" for q
    using assms [of q]
    by (cases "prefix ns q") (auto simp: fs_set_def fs_del_def elim!: prefixE dest: append_prefixD)
qed

lemma mount_fs_parents:
  assumes "mount_fs E s ns = Some ob" and "strict_prefix p ns"
  shows "mount_fs E s p = Some FDir"
  using assms fs_node_parent unfolding mount_fs_def by (fastforce elim!: strict_prefixE')

text \<open>The parent without the removed entry, stored.\<close>

lemma remove_from_parent:
  assumes laws: "mount_laws E" and ok: "mount_ok E (m, w)" and dir: "mount_fs E (m, w) ns = Some FDir"
    and n0: "node_or_root E (mi_entry m) (rel_path ns) w = Inr n0"
    and del: "node_del x n0 = (Some removed, n1)"
    and k: "mt_secret_generate E w = (Inr k, w1)" and l: "put_node_in_blobs E n1 k w1 = (Inr l, w2)"
  shows "keeps_blobs E w w2" and "length (link_hash l) = 32"
    and "mount_fs E (m, w) (ns @ [x]) \<noteq> None"
    and "node_tree_ok E (insert (link_hash l) (set (mi_pins m))) w2 n1"
    and "fs_node E w2 n1 = fs_del [x] (\<lambda>q. mount_fs E (m, w) (ns @ q))"
    and "link_ok E (insert (link_hash l) (set (mi_pins m))) w2 (Dir l k)"
    and "fs_link E w2 (Dir l k) = fs_node E w2 n1"
proof -
  note blob = mount_laws_blob [OF laws]
  show keep: "keeps_blobs E w w2"
    using keepingD [OF keeping_blobs(1) [OF blob] k] keepingD [OF keeping_blobs(3) [OF blob] l]
    by (auto intro: keeps_trans)
  show "length (link_hash l) = 32"
    using put_encrypted_Inr [OF laws l [unfolded put_node_in_blobs_def]] by blast
  from mount_ok_tree [OF ok] dir obtain n0' where "node_or_root E (mi_entry m) (rel_path ns) w = Inr n0'"
    "node_tree_ok E (set (mi_pins m)) w n0'" "fs_node E w n0' = (\<lambda>q. mount_fs E (m, w) (ns @ q))"
    unfolding mount_fs_def fst_conv snd_conv by (rule node_or_root_dir) blast
  then have n0_ok: "node_tree_ok E (set (mi_pins m)) w n0"
    and n0_fs: "fs_node E w n0 = (\<lambda>q. mount_fs E (m, w) (ns @ q))"
    using n0 by auto
  have x: "get_link n0 x = Some removed" and n1: "n1 = snd (node_del x n0)"
    using del fst_node_del [of x n0] by auto
  have "link_ok E (set (mi_pins m)) w removed"
    using n0_ok x by (simp add: node_tree_ok_def)
  then have "fs_node E w n0 [x] \<noteq> None"
    using x by (cases removed) (auto elim: link_ok_DataE)
  then show "mount_fs E (m, w) (ns @ [x]) \<noteq> None"
    unfolding n0_fs .
  have n1_ok: "node_tree_ok E (set (mi_pins m)) w n1"
    unfolding n1 using n0_ok by (rule node_tree_ok_del)
  show n1_ok2: "node_tree_ok E (insert (link_hash l) (set (mi_pins m))) w2 n1"
    by (rule node_tree_ok_mono [OF n1_ok blob keep]) auto
  show "fs_node E w2 n1 = fs_del [x] (\<lambda>q. mount_fs E (m, w) (ns @ q))"
    using fs_node_stable [OF n1_ok blob keep] by (simp add: n1 fs_node_del n0_fs)
  have get: "get_node_from_blobs E (Dir l k) w2 = Inr n1"
    using put_get_node [OF laws _ l] n1_ok by (simp add: node_tree_ok_def)
  then show "fs_link E w2 (Dir l k) = fs_node E w2 n1"
    by (rule fs_link_dir)
  show "link_ok E (insert (link_hash l) (set (mi_pins m))) w2 (Dir l k)"
    using get n1_ok2 by (intro link_ok_Dir) auto
qed

text \<open>The tree with that parent in place of the old one.\<close>

lemma remove_propagates:
  assumes laws: "mount_laws E" and ok: "mount_ok E (m, w)" and dir: "mount_fs E (m, w) ns = Some FDir"
    and n0: "node_or_root E (mi_entry m) (rel_path ns) w = Inr n0"
    and del: "node_del x n0 = (Some removed, n1)"
    and k: "mt_secret_generate E w = (Inr k, w1)" and l: "put_node_in_blobs E n1 k w1 = (Inr l, w2)"
    and ns: "ns \<noteq> []"
    and set: "set_node_link_at_path E (mi_entry m) (Dir l k) (abs_path ns) w2 = (Inr (nl', hs), w3)"
  shows "\<exists>l' k' n'. nl' = Dir l' k' \<and> get_node_from_blobs E nl' w3 = Inr n' \<and> keeps_blobs E w2 w3 \<and>
    node_tree_ok E (set (mi_pins m) \<union> set (link_hash l # hs)) w3 n' \<and>
    (\<forall>h \<in> set (link_hash l # hs). length h = 32) \<and>
    fs_node E w3 n' = fs_del (ns @ [x]) (mount_fs E (m, w))"
proof -
  note blob = mount_laws_blob [OF laws]
  note rem = remove_from_parent [OF laws ok dir n0 del k l]
  obtain ms y where ms: "ns = ms @ [y]"
    using ns by (metis rev_exhaust)
  have entry: "node_tree_ok E (insert (link_hash l) (set (mi_pins m))) w2 (mi_entry m)"
    by (rule node_tree_ok_mono [OF mount_ok_tree [OF ok] blob rem(1)]) auto
  have fs: "fs_node E w2 (mi_entry m) = mount_fs E (m, w)"
    using mount_ok_keeps(2) [OF ok blob rem(1)] by (simp add: mount_fs_def)
  from set_node_link_Inr [OF laws entry rem(6) set [unfolded ms]] obtain l' k' n' where r: "nl' = Dir l' k'"
    "get_node_from_blobs E nl' w3 = Inr n'" "keeps_blobs E w2 w3" "\<forall>h \<in> set hs. length h = 32"
    "node_tree_ok E (insert (link_hash l) (set (mi_pins m)) \<union> set hs) w3 n'"
    "fs_node E w3 n' = fs_set ns (fs_link E w2 (Dir l k)) (fs_node E w2 (mi_entry m))"
    unfolding ms by blast
  have "fs_node E w3 n' = fs_del (ns @ [x]) (mount_fs E (m, w))"
    unfolding r(6) rem(7) rem(5) fs
  proof (rule fs_set_del)
    show "mount_fs E (m, w) p = Some FDir" if "prefix p ns" for p
      using mount_fs_parents [OF dir] dir that by (cases "p = ns") auto
  qed
  then show ?thesis
    using r rem(2) by (auto simp: insert_commute Un_commute)
qed

lemma rm_Inr:
  assumes laws: "mount_laws E" and ok: "mount_ok E (m, w)" and dir: "mount_fs E (m, w) ns = Some FDir"
    and rm: "mount_rm E (abs_path (ns @ [x])) (m, w) = (Inr (), (m', w'))"
  obtains hs n d where "\<forall>h \<in> set hs. length h = 32"
    and "node_tree_ok E (set (mi_pins m) \<union> set hs) w' n" and "keeps_blobs E w w'"
    and "fs_node E w' n = fs_del (ns @ [x]) (mount_fs E (m, w))"
    and "mount_fs E (m, w) (ns @ [x]) \<noteq> None"
    and "m' = record_op Remove (rel_path (ns @ [x])) None d
      (m\<lparr>mi_pins := pins_extend hs (mi_pins m), mi_entry := n\<rparr>)"
proof -
  from rm obtain n0 removed n1 k w1 l w2 m1 where
    n0: "node_or_root E (mi_entry m) (rel_path ns) w = Inr n0"
    and del: "node_del x n0 = (Some removed, n1)"
    and k: "mt_secret_generate E w = (Inr k, w1)" and l: "put_node_in_blobs E n1 k w1 = (Inr l, w2)"
    and cases: "ns = [] \<and> m1 = (pin_one (link_hash l) m)\<lparr>mi_entry := n1\<rparr> \<and> w' = w2 \<or>
      ns \<noteq> [] \<and> (\<exists>nl' hs w3 r. set_node_link_at_path E (mi_entry m) (Dir l k) (abs_path ns) w2 =
          (Inr (nl', hs), w3) \<and> reload_entry E nl' w3 = (Inr r, w') \<and>
        m1 = set_new_entry r (pin_all hs (pin_one (link_hash l) m)))"
    and m': "m' = record_op Remove (rel_path (ns @ [x])) None (is_dir removed) m1"
    unfolding mount_rm_def new_dir_def by (clarsimp simp: res_simps)
  note rem = remove_from_parent [OF laws ok dir n0 del k l]
  from cases show ?thesis
  proof (elim disjE conjE exE)
    assume "ns = []" and "m1 = (pin_one (link_hash l) m)\<lparr>mi_entry := n1\<rparr>" and "w' = w2"
    then show ?thesis
      using that [of "[link_hash l]" n1 "is_dir removed"] rem m'
      by (simp add: pin_one_def pins_extend_def)
  next
    fix nl' hs w3 r
    assume ns: "ns \<noteq> []" and m1: "m1 = set_new_entry r (pin_all hs (pin_one (link_hash l) m))"
      and set: "set_node_link_at_path E (mi_entry m) (Dir l k) (abs_path ns) w2 = (Inr (nl', hs), w3)"
      and r: "reload_entry E nl' w3 = (Inr r, w')"
    from remove_propagates [OF laws ok dir n0 del k l ns set] obtain l' k' n' where
      "nl' = Dir l' k'" and n': "get_node_from_blobs E nl' w3 = Inr n'" and keep: "keeps_blobs E w2 w3"
      and rest: "node_tree_ok E (set (mi_pins m) \<union> set (link_hash l # hs)) w3 n'"
      "\<forall>h \<in> set (link_hash l # hs). length h = 32"
      "fs_node E w3 n' = fs_del (ns @ [x]) (mount_fs E (m, w))"
      by blast
    then have "r = Some n'" "w' = w3"
      using r by (auto simp: reload_entry_def)
    then show ?thesis
      using that [of "link_hash l # hs" n' "is_dir removed"] rest rem(1,3) keep m'
      by (auto simp: m1 pin_one_all set_new_entry_def intro: keeps_trans)
  qed
qed

section \<open>Creating directories\<close>

lemma mkdir_Inr:
  assumes laws: "mount_laws E" and ok: "mount_ok E (m, w)"
    and mkdir: "mount_mkdir E (abs_path (ns @ [x])) (m, w) = (Inr (), (m', w'))"
  obtains hs n where "\<forall>h \<in> set hs. length h = 32"
    and "node_tree_ok E (set (mi_pins m) \<union> set hs) w' n" and "keeps_blobs E w w'"
    and "fs_node E w' n = fs_set (ns @ [x]) fs_empty_dir (mount_fs E (m, w))"
    and "mount_fs E (m, w) (ns @ [x]) = None" and "no_file_above ns (mount_fs E (m, w))"
    and "m' = record_op Mkdir (rel_path (ns @ [x])) None True
      (m\<lparr>mi_pins := pins_extend hs (mi_pins m), mi_entry := n\<rparr>)"
proof -
  note blob = mount_laws_blob [OF laws]
  from mkdir obtain pn k w1 l w2 nl' hs w3 r where
    pn: "(if ns = [] then Inr (mi_entry m)
       else (case get_node_at_path E (mi_entry m) (rel_path ns) w of
               Inr n \<Rightarrow> Inr n | Inl (PathNotFound _) \<Rightarrow> Inr node_new | Inl err \<Rightarrow> Inl err)) = Inr pn"
    and free: "get_link pn x = None"
    and k: "mt_secret_generate E w = (Inr k, w1)" and l: "put_node_in_blobs E node_new k w1 = (Inr l, w2)"
    and set: "set_node_link_at_path E (mi_entry m) (Dir l k) (abs_path (ns @ [x])) w2 = (Inr (nl', hs), w3)"
    and r: "reload_entry E nl' w3 = (Inr r, w')"
    and m': "m' = record_op Mkdir (rel_path (ns @ [x])) None True
      (set_new_entry r (pin_all hs (pin_one (link_hash l) m)))"
    unfolding mount_mkdir_def new_dir_def by (clarsimp simp: res_simps)
  have missing: "mount_fs E (m, w) (ns @ [x]) = None"
  proof (rule ccontr)
    assume some: "mount_fs E (m, w) (ns @ [x]) \<noteq> None"
    then have "mount_fs E (m, w) ns = Some FDir"
      using fs_node_parent [of E w "mi_entry m" ns x "[]"] by (simp add: mount_fs_def)
    with mount_ok_tree [OF ok] obtain n0 where n0: "node_or_root E (mi_entry m) (rel_path ns) w = Inr n0"
      "fs_node E w n0 = (\<lambda>q. mount_fs E (m, w) (ns @ q))"
      unfolding mount_fs_def fst_conv snd_conv by (rule node_or_root_dir) blast
    then have "pn = n0"
      using pn by (auto simp: node_or_root_def split: if_splits)
    then have "fs_node E w n0 [x] = None"
      using free by simp
    then show False
      using some unfolding n0(2) by simp
  qed
  have keep: "keeps_blobs E w w2"
    using keepingD [OF keeping_blobs(1) [OF blob] k] keepingD [OF keeping_blobs(3) [OF blob] l]
    by (auto intro: keeps_trans)
  have len: "length (link_hash l) = 32"
    using put_encrypted_Inr [OF laws l [unfolded put_node_in_blobs_def]] by blast
  define P where "P = insert (link_hash l) (set (mi_pins m))"
  have get: "get_node_from_blobs E (Dir l k) w2 = Inr node_new"
    using put_get_node [OF laws _ l] by (simp add: node_ok)
  have nl: "link_ok E P w2 (Dir l k)"
    using get by (intro link_ok_Dir) (auto simp: P_def)
  have n: "node_tree_ok E P w2 (mi_entry m)"
    by (rule node_tree_ok_mono [OF mount_ok_tree [OF ok] blob keep]) (auto simp: P_def)
  from laws n nl set r obtain n' where "w' = w3" "r = Some n'" and "keeps_blobs E w2 w3"
    "\<forall>h \<in> set hs. length h = 32" "node_tree_ok E (P \<union> set hs) w3 n'"
    "fs_node E w3 n' = fs_set (ns @ [x]) fs_empty_dir (fs_node E w2 (mi_entry m))"
    unfolding fs_link_dir [OF get, unfolded fs_node_new, symmetric] by (rule set_and_reload) blast
  then show ?thesis
    using that [of "link_hash l # hs" n'] m' keeps_trans [OF keep, of w3] missing len
      mount_ok_keeps(2) [OF ok blob keep] set_node_link_no_file [OF n set]
    by (auto simp: mount_fs_def P_def pin_one_all set_new_entry_def Un_commute)
qed

section \<open>Moving\<close>

lemma mv_remove_source_Inr:
  assumes laws: "mount_laws E" and ok: "mount_ok E (m, w)" and dir: "mount_fs E (m, w) ns = Some FDir"
    and rm: "mv_remove_source E (rel_path (ns @ [x])) (m, w) = (Inr (), (m', w'))"
  obtains hs n where "\<forall>h \<in> set hs. length h = 32"
    and "node_tree_ok E (set (mi_pins m) \<union> set hs) w' n" and "keeps_blobs E w w'"
    and "fs_node E w' n = fs_del (ns @ [x]) (mount_fs E (m, w))"
    and "m' = m\<lparr>mi_pins := pins_extend hs (mi_pins m), mi_entry := n\<rparr>"
proof -
  from rm obtain n0 removed n1 k w1 l w2 where
    n0: "node_or_root E (mi_entry m) (rel_path ns) w = Inr n0"
    and del: "node_del x n0 = (Some removed, n1)"
    and k: "mt_secret_generate E w = (Inr k, w1)" and l: "put_node_in_blobs E n1 k w1 = (Inr l, w2)"
    and cases: "ns = [] \<and> m' = (pin_one (link_hash l) m)\<lparr>mi_entry := n1\<rparr> \<and> w' = w2 \<or>
      ns \<noteq> [] \<and> (\<exists>nl' hs n'. set_node_link_at_path E (mi_entry m) (Dir l k) (abs_path ns) w2 =
          (Inr (nl', hs), w') \<and> get_node_from_blobs E nl' w' = Inr n' \<and>
        m' = (pin_all hs (pin_one (link_hash l) m))\<lparr>mi_entry := n'\<rparr>)"
    unfolding mv_remove_source_def new_dir_def by (clarsimp simp: res_simps) blast
  note rem = remove_from_parent [OF laws ok dir n0 del k l]
  from cases show ?thesis
  proof (elim disjE conjE exE)
    assume "ns = []" and "m' = (pin_one (link_hash l) m)\<lparr>mi_entry := n1\<rparr>" and "w' = w2"
    then show ?thesis
      using that [of "[link_hash l]" n1] rem by (simp add: pin_one_def pins_extend_def)
  next
    fix nl' hs n'
    assume ns: "ns \<noteq> []" and m': "m' = (pin_all hs (pin_one (link_hash l) m))\<lparr>mi_entry := n'\<rparr>"
      and set: "set_node_link_at_path E (mi_entry m) (Dir l k) (abs_path ns) w2 = (Inr (nl', hs), w')"
      and n': "get_node_from_blobs E nl' w' = Inr n'"
    from remove_propagates [OF laws ok dir n0 del k l ns set] n' show ?thesis
      using that [of "link_hash l # hs" n'] rem(1) m' by (auto simp: pin_one_all intro: keeps_trans)
  qed
qed

lemma mv_Inr:
  assumes laws: "mount_laws E" and ok: "mount_ok E (m, w)"
    and dir: "mount_fs E (m, w) ns = Some FDir"
    and mv: "mount_mv E (abs_path (ns @ [x])) (abs_path (ts @ [y])) (m, w) = (Inr (), (m', w'))"
  obtains hs n d where "\<forall>h \<in> set hs. length h = 32"
    and "node_tree_ok E (set (mi_pins m) \<union> set hs) w' n" and "keeps_blobs E w w'"
    and "mount_fs E (m, w) (ns @ [x]) \<noteq> None" and "mount_fs E (m, w) (ts @ [y]) = None"
    and "\<not> prefix (ns @ [x]) (ts @ [y])"
    and "fs_node E w' n = fs_set (ts @ [y]) (\<lambda>q. mount_fs E (m, w) ((ns @ [x]) @ q))
      (fs_del (ns @ [x]) (mount_fs E (m, w)))"
    and "m' = record_op (Mv (rel_path (ns @ [x]))) (rel_path (ts @ [y])) None d
      (m\<lparr>mi_pins := pins_extend hs (mi_pins m), mi_entry := n\<rparr>)"
proof -
  note blob = mount_laws_blob [OF laws]
  let ?F = "mount_fs E (m, w)"
  from mv obtain nl m1 w1 nl' hs n' where
    sep: "\<not> prefix (ns @ [x]) (ts @ [y])"
    and get: "mount_get E (abs_path (ns @ [x])) (m, w) = Inr nl"
    and no_dest: "\<And>v. mount_get E (abs_path (ts @ [y])) (m, w) \<noteq> Inr v"
    and rm: "mv_remove_source E (rel_path (ns @ [x])) (m, w) = (Inr (), (m1, w1))"
    and set: "set_node_link_at_path E (mi_entry m1) nl (abs_path (ts @ [y])) w1 = (Inr (nl', hs), w')"
    and n': "get_node_from_blobs E nl' w' = Inr n'"
    and m': "m' = record_op (Mv (rel_path (ns @ [x]))) (rel_path (ts @ [y])) None (is_dir nl)
      ((pin_all hs m1)\<lparr>mi_entry := n'\<rparr>)"
    unfolding mount_mv_def by (clarsimp simp: res_simps simp flip: map_append split: sum.splits)
  have dest: "?F (ts @ [y]) = None"
    using get_existing [of E "set (mi_pins m)" "(m, w)" ts y] mount_ok_tree [OF ok] no_dest by fastforce
  have "?F (ns @ [x]) \<noteq> None"
    using get_missing [of E "set (mi_pins m)" "(m, w)" ns x] mount_ok_tree [OF ok] dir get by auto
  then obtain ob where src: "?F (ns @ [x]) = Some ob"
    by blast
  then have nl: "link_ok E (set (mi_pins m)) w nl" "fs_link E w nl = (\<lambda>q. ?F ((ns @ [x]) @ q))"
    using get_existing [of E "set (mi_pins m)" "(m, w)" ns x ob] mount_ok_tree [OF ok] get by auto
  from laws ok dir rm obtain hs1 n1 where hs1: "\<forall>h \<in> set hs1. length h = 32"
    and n1: "node_tree_ok E (set (mi_pins m) \<union> set hs1) w1 n1" and keep: "keeps_blobs E w w1"
    and fs1: "fs_node E w1 n1 = fs_del (ns @ [x]) ?F"
    and m1: "m1 = m\<lparr>mi_pins := pins_extend hs1 (mi_pins m), mi_entry := n1\<rparr>"
    by (rule mv_remove_source_Inr)
  have nl1: "link_ok E (set (mi_pins m) \<union> set hs1) w1 nl" "fs_link E w1 nl = fs_link E w nl"
    using link_ok_mono [OF nl(1) blob keep] fs_link_stable [OF nl(1) blob keep] by auto
  have "set_node_link_at_path E n1 nl (abs_path (ts @ [y])) w1 = (Inr (nl', hs), w')"
    using set by (simp add: m1)
  from set_node_link_Inr [OF laws n1 nl1(1) this] n' have r:
    "\<forall>h \<in> set hs. length h = 32" "keeps_blobs E w1 w'"
    "node_tree_ok E (set (mi_pins m) \<union> set hs1 \<union> set hs) w' n'"
    "fs_node E w' n' = fs_set (ts @ [y]) (\<lambda>q. ?F ((ns @ [x]) @ q)) (fs_del (ns @ [x]) ?F)"
    by (auto simp: nl1(2) nl(2) fs1)
  have "pin_all hs m1 = m\<lparr>mi_pins := pins_extend (hs1 @ hs) (mi_pins m), mi_entry := n1\<rparr>"
    by (simp add: m1 pin_all_def pins_extend_def)
  then show ?thesis
    using that [of "hs1 @ hs" n' "is_dir nl"] r hs1 dest src sep keeps_trans [OF keep r(2)] m'
    by (auto simp: Un_assoc)
qed

section \<open>Failing operations leave the mount alone\<close>

named_theorems atomic_rules \<open>computations that leave the mount unchanged, or do when they fail\<close>

definition quiet :: "('w mount_state \<Rightarrow> (mount_error + 'a) \<times> 'w mount_state) \<Rightarrow> bool" where
  "quiet f \<longleftrightarrow> (\<forall>s r s'. f s = (r, s') \<longrightarrow> fst s' = fst s)"

definition atomic :: "('w mount_state \<Rightarrow> (mount_error + 'a) \<times> 'w mount_state) \<Rightarrow> bool" where
  "atomic f \<longleftrightarrow> (\<forall>s e s'. f s = (Inl e, s') \<longrightarrow> fst s' = fst s)"

lemma atomicD: "atomic f \<Longrightarrow> f s = (Inl e, s') \<Longrightarrow> fst s' = fst s"
  unfolding atomic_def by blast

lemma quiet_steps [atomic_rules]: "quiet (liftR r)" "quiet (on_world f)" "quiet (read_state q)"
  by (auto simp: quiet_def liftR_def on_world_def read_state_def split: prod.splits)

lemma atomic_lift [atomic_rules]: "atomic (liftR r)"
  by (auto simp: atomic_def liftR_def)

lemma atomic_update [atomic_rules]: "atomic (update_inner f)"
  by (auto simp: atomic_def update_inner_def)

lemma atomic_bind [atomic_rules]: "quiet m \<Longrightarrow> (\<And>x. atomic (f x)) \<Longrightarrow> atomic (bindS m f)"
  unfolding atomic_def quiet_def bindS_def by (fastforce split: prod.splits sum.splits)

lemma atomic_bind_update [atomic_rules]: "atomic m \<Longrightarrow> atomic (bindS m (\<lambda>_. update_inner g))"
  unfolding atomic_def bindS_def update_inner_def by (fastforce split: prod.splits sum.splits)

lemma atomic_cases [atomic_rules]:
  "(\<And>a b. atomic (g a b)) \<Longrightarrow> atomic (case p of (a, b) \<Rightarrow> g a b)"
  "atomic h \<Longrightarrow> (\<And>a. atomic (k a)) \<Longrightarrow> atomic (case v of None \<Rightarrow> h | Some a \<Rightarrow> k a)"
  "atomic h \<Longrightarrow> atomic h' \<Longrightarrow> atomic (if c then h else h')"
  by (auto split: prod.split option.split)

lemma atomic_add: "atomic (mount_add E p d)"
  unfolding mount_add_def Let_def by (intro atomic_rules)

lemma atomic_mkdir: "atomic (mount_mkdir E p)"
  unfolding mount_mkdir_def by (intro atomic_rules)

lemma atomic_rm: "atomic (mount_rm E p)"
  unfolding mount_rm_def by (intro atomic_rules)

lemma keeping_ops [keeping_rules]:
  assumes "mount_laws E"
  shows "keeping E snd (mount_add E p d)" "keeping E snd (mount_mkdir E p)"
    "keeping E snd (mount_rm E p)" "keeping E snd (mount_mv E p q)"
  unfolding mount_add_def mount_mkdir_def mount_rm_def mount_mv_def mv_remove_source_def Let_def
  by (intro keeping_rules mount_laws_blob [OF assms])+

text \<open>
  A failing \<open>mv\<close> fails before it has changed the mount, or after the source has been taken out; the
  invariant holds in any case.
\<close>

lemma atomic_remove_source: "atomic (mv_remove_source E p)"
  unfolding mv_remove_source_def by (intro atomic_rules)

lemma mv_fails:
  assumes "mount_mv E from to s = (Inl e, s')"
  obtains (before) "fst s' = fst s"
  | (after) fc nl s1 where "clean_path from = Inr fc" and "mount_get E from s = Inr nl"
    and "mv_remove_source E fc s = (Inr (), s1)" and "fst s' = fst s1"
    and "snd s' = snd (set_node_link_at_path E (mi_entry (fst s1)) nl to (snd s1))"
proof (cases "\<exists>fc nl s1. clean_path from = Inr fc \<and> mount_get E from s = Inr nl \<and> mv_remove_source E fc s = (Inr (), s1)")
  case True
  then obtain fc nl s1 where "clean_path from = Inr fc" "mount_get E from s = Inr nl"
    "mv_remove_source E fc s = (Inr (), s1)"
    by blast
  then show ?thesis
    using assms before after
    by (auto simp: mount_mv_def bindS_def liftR_def read_state_def on_world_def update_inner_def
        split: prod.splits sum.splits if_splits mount_error.splits)
next
  case False
  have "fst s' = fst s"
  proof (cases "clean_path from")
    case (Inr fc)
    show ?thesis
    proof (cases "mount_get E from s")
      case get: (Inr nl)
      then obtain e1 s1 where rm: "mv_remove_source E fc s = (Inl e1, s1)"
        using False Inr by (cases "mv_remove_source E fc s"; cases "fst (mv_remove_source E fc s)") auto
      then show ?thesis
        using assms Inr get atomicD [OF atomic_remove_source rm]
        by (auto simp: mount_mv_def bindS_def liftR_def read_state_def split: prod.splits sum.splits if_splits)
    qed (use assms Inr in \<open>auto simp: mount_mv_def bindS_def liftR_def read_state_def split: sum.splits if_splits\<close>)
  qed (use assms in \<open>simp add: mount_mv_def bindS_def liftR_def\<close>)
  then show ?thesis
    by (rule before)
qed

lemma mv_keeps_invariant:
  assumes laws: "mount_laws E" and ok: "mount_ok E s" and above: "no_file_above ns (mount_fs E s)"
    and mv: "mount_mv E (abs_path (ns @ [x])) (abs_path (ts @ [y])) s = (r, s')"
  shows "mount_ok E s'"
proof -
  note blob = mount_laws_blob [OF laws]
  obtain m w m' w' where s: "s = (m, w)" "s' = (m', w')"
    by fastforce
  have dir: "mount_fs E s ns = Some FDir" if get: "mount_get E (abs_path (ns @ [x])) s = Inr nl" for nl
  proof (rule ccontr)
    assume not_dir: "mount_fs E s ns \<noteq> Some FDir"
    then have none: "mount_fs E s ns = None"
      using above by (rule no_file_above_None)
    then have "mount_fs E s (ns @ [x]) = None"
      using fs_node_parent [of E w "mi_entry m" ns x "[]"] by (metis s(1) fst_conv snd_conv mount_fs_def option.distinct(1))
    from get_missing_above [OF ok this above] get show False by auto
  qed
  show ?thesis
  proof (cases r)
    case (Inr u)
    with mv have mv': "mount_mv E (abs_path (ns @ [x])) (abs_path (ts @ [y])) (m, w) = (Inr (), (m', w'))"
      by (simp add: s)
    then have "\<exists>nl. mount_get E (abs_path (ns @ [x])) s = Inr nl"
      unfolding mount_mv_def by (auto simp: res_simps s)
    then have "mount_fs E (m, w) ns = Some FDir"
      using dir s by auto
    from laws ok [unfolded s] this mv' show ?thesis
      unfolding s by (rule mv_Inr) (simp add: mount_ok_new_entry [OF ok [unfolded s]])
  next
    case (Inl e)
    with mv have "mount_mv E (abs_path (ns @ [x])) (abs_path (ts @ [y])) s = (Inl e, s')"
      by simp
    then show ?thesis
    proof (cases rule: mv_fails)
      case before
      have "keeps_blobs E w w'"
        using keepingD [OF keeping_ops(4) [OF laws] mv] by (simp add: s)
      then show ?thesis
        using mount_ok_keeps(1) [OF ok [unfolded s] blob] before by (simp add: s)
    next
      case (after fc nl s1)
      obtain m1 w1 where s1: "s1 = (m1, w1)"
        by fastforce
      have fc: "fc = rel_path (ns @ [x])"
        using after(1) clean_path_root [of "rel_path (ns @ [x])"] by simp
      have keep: "keeps_blobs E w1 w'"
        using after(5) keepingD [OF keeping_set_node_link [OF blob]] by (metis prod.collapse s(2) s1 snd_conv id_apply)
      from laws ok [unfolded s] dir [OF after(2), unfolded s] after(3) [unfolded fc s s1]
      have "mount_ok E (m1, w1)"
        by (rule mv_remove_source_Inr) (use ok in \<open>auto simp: s mount_ok_def Un_commute\<close>)
      then show ?thesis
        using mount_ok_keeps(1) [OF _ blob keep] after(4) by (simp add: s s1)
    qed
  qed
qed

section \<open>The contract of the operations\<close>

text \<open>
  What a client of the mount relies on: an operation, run in a state that satisfies its
  precondition, either succeeds and changes the abstract file system as specified, or fails and
  changes nothing; blobs stay readable.
\<close>

locale file_operation =
  fixes run :: "('w, 'z) mount_ext_scheme \<Rightarrow> 'w mount_state \<Rightarrow> (mount_error + unit) \<times> 'w mount_state"
    and pre :: "fs \<Rightarrow> bool"
    and spec :: "fs \<Rightarrow> fs \<Rightarrow> bool"
  assumes keeps: "mount_laws E \<Longrightarrow> keeping E snd (run E)"
    and fails_clean: "atomic (run E)"
    and succeeds: "mount_laws E \<Longrightarrow> mount_ok E (m, w) \<Longrightarrow> pre (mount_fs E (m, w)) \<Longrightarrow>
      run E (m, w) = (Inr (), (m', w')) \<Longrightarrow>
      mount_ok E (m', w') \<and> spec (mount_fs E (m, w)) (mount_fs E (m', w'))"
begin

lemma failure:
  assumes "mount_laws E" and "mount_ok E s" and "run E s = (Inl e, s')"
  shows "fst s' = fst s \<and> mount_ok E s' \<and> mount_fs E s' = mount_fs E s"
proof -
  obtain m w m' w' where s: "s = (m, w)" "s' = (m', w')"
    by fastforce
  have m': "m' = m"
    using atomicD [OF fails_clean assms(3)] by (simp add: s)
  have "keeps_blobs E w w'"
    using keepingD [OF keeps [OF assms(1)] assms(3)] by (simp add: s)
  from mount_ok_keeps [OF assms(2) [unfolded s] mount_laws_blob [OF assms(1)] this] show ?thesis
    by (simp add: s m')
qed

lemma success:
  assumes "mount_laws E" and "mount_ok E s" and "pre (mount_fs E s)" and "run E s = (Inr (), s')"
  shows "mount_ok E s' \<and> spec (mount_fs E s) (mount_fs E s')"
  using succeeds [OF assms(1), of "fst s" "snd s" "fst s'" "snd s'"] assms(2-) by simp

lemma keeps_invariant:
  assumes "mount_laws E" and "mount_ok E s" and "pre (mount_fs E s)" and "run E s = (r, s')"
  shows "mount_ok E s'"
proof (cases r)
  case (Inl e)
  then show ?thesis
    using failure [OF assms(1,2)] assms(4) by blast
next
  case (Inr u)
  then show ?thesis
    using success [OF assms(1-3)] assms(4) by simp
qed

end

lemma rm_parent_dir:
  assumes "mount_ok E (m, w)" and "no_file_above ns (mount_fs E (m, w))"
    and "mount_rm E (abs_path (ns @ [x])) (m, w) = (Inr (), s')"
  shows "mount_fs E (m, w) ns = Some FDir"
proof (rule ccontr)
  assume not_dir: "mount_fs E (m, w) ns \<noteq> Some FDir"
  then have "mount_fs E (m, w) ns = None"
    using assms(2) by (rule no_file_above_None)
  then have none: "fs_node E w (mi_entry m) ns = None" and "ns \<noteq> []"
    by (auto simp: mount_fs_def)
  have "\<exists>p. walk_path E w (mi_entry m) (abs_path []) (rel_path ns) = Inl (PathNotFound p)"
    using walk_missing [OF mount_ok_tree [OF assms(1)] none, where cs = "[]"] assms(2)
    by (simp add: no_file_above_def mount_fs_def)
  then show False
    using assms(3) \<open>ns \<noteq> []\<close>
    unfolding mount_rm_def by (clarsimp simp: res_simps node_or_root_def get_node_at_path_def)
qed

interpretation add_op: file_operation "\<lambda>E. mount_add E (abs_path (ns @ [x])) (Inr b)"
  "\<lambda>F. True" "\<lambda>F F'. no_file_above ns F \<and> F' = fs_set (ns @ [x]) (fs_file b) F" for ns x b
proof
  show "mount_ok E (m', w') \<and> no_file_above ns (mount_fs E (m, w)) \<and>
      mount_fs E (m', w') = fs_set (ns @ [x]) (fs_file b) (mount_fs E (m, w))"
    if "mount_laws E" "mount_ok E (m, w)"
      "mount_add E (abs_path (ns @ [x])) (Inr b) (m, w) = (Inr (), (m', w'))"
    for E :: "('a, 'b) mount_ext_scheme" and m w m' w'
    using that by (rule add_Inr) (simp add: mount_ok_new_entry [OF that(2)] mount_fs_def)
qed (simp_all add: keeping_ops atomic_add)

interpretation mkdir_op: file_operation "\<lambda>E. mount_mkdir E (abs_path (ns @ [x]))"
  "\<lambda>F. True" "\<lambda>F F'. no_file_above ns F \<and> F (ns @ [x]) = None \<and> F' = fs_set (ns @ [x]) fs_empty_dir F" for ns x
proof
  show "mount_ok E (m', w') \<and> no_file_above ns (mount_fs E (m, w)) \<and>
      mount_fs E (m, w) (ns @ [x]) = None \<and>
      mount_fs E (m', w') = fs_set (ns @ [x]) fs_empty_dir (mount_fs E (m, w))"
    if "mount_laws E" "mount_ok E (m, w)"
      "mount_mkdir E (abs_path (ns @ [x])) (m, w) = (Inr (), (m', w'))"
    for E :: "('a, 'b) mount_ext_scheme" and m w m' w'
    using that by (rule mkdir_Inr) (simp add: mount_ok_new_entry [OF that(2)] mount_fs_def)
qed (simp_all add: keeping_ops atomic_mkdir)

interpretation rm_op: file_operation "\<lambda>E. mount_rm E (abs_path (ns @ [x]))"
  "no_file_above ns" "\<lambda>F F'. F (ns @ [x]) \<noteq> None \<and> F' = fs_del (ns @ [x]) F" for ns x
proof
  show "mount_ok E (m', w') \<and> mount_fs E (m, w) (ns @ [x]) \<noteq> None \<and>
      mount_fs E (m', w') = fs_del (ns @ [x]) (mount_fs E (m, w))"
    if "mount_laws E" "mount_ok E (m, w)" "no_file_above ns (mount_fs E (m, w))"
      "mount_rm E (abs_path (ns @ [x])) (m, w) = (Inr (), (m', w'))"
    for E :: "('a, 'b) mount_ext_scheme" and m w m' w'
    using that(1,2) rm_parent_dir [OF that(2-4)] that(4)
    by (rule rm_Inr) (simp add: mount_ok_new_entry [OF that(2)] mount_fs_def)
qed (simp_all add: keeping_ops atomic_rm)

section \<open>Properties\<close>

lemma sample_mount_ok: "mount_ok E (sample_mount, w)"
  by (simp add: mount_ok_def sample_mount_def sample_manifest_def shares_ok_def log_ok_new
      link_default_def)

text \<open>
  C1: adding a file at an absolute path writes exactly that file: the abstract file system gains
  the content at the path (replacing what was there, with the directories above created, none of
  which was a file) and is otherwise unchanged, reading the path gives the bytes back, and the mount invariant (tree
  readable, everything pinned) holds again.
\<close>

theorem add_writes_file:
  assumes "mount_laws E" and "mount_ok E s"
    and "mount_add E (abs_path (ns @ [x])) (Inr b) s = (Inr (), s')"
  shows "mount_ok E s' \<and> no_file_above ns (mount_fs E s) \<and>
    mount_fs E s' = fs_set (ns @ [x]) (fs_file b) (mount_fs E s) \<and>
    mount_cat E (abs_path (ns @ [x])) s' = Inr b"
proof -
  from add_op.success [OF assms(1,2) TrueI assms(3)]
  have ok: "mount_ok E s'" and above: "no_file_above ns (mount_fs E s)"
    and fs: "mount_fs E s' = fs_set (ns @ [x]) (fs_file b) (mount_fs E s)"
    by auto
  have "mount_fs E s' (ns @ [x]) = Some (FFile b)"
    by (simp add: fs fs_set_def fs_file_def)
  then show ?thesis
    using cat_file [OF ok] ok fs above by simp
qed

theorem add_writes_file_witness:
  "mount_cat (sample_ext [[(''f'', sample_file 2 0)]] [] []) (abs_path [''f''])
     (snd (mount_add (sample_ext [[(''f'', sample_file 2 0)]] [] []) (abs_path [''f'']) (Inr [7])
       (sample_mount, (0, [])))) = Inr [7]"
proof -
  let ?E = "sample_ext [[(''f'', sample_file 2 0)]] [] []"
  have "fst (mount_add ?E (abs_path [''f'']) (Inr [7]) (sample_mount, (0, []))) = Inr ()"
    by (simp add: run_defs mount_add_def)
  then show ?thesis
    using add_writes_file [OF sample_laws sample_mount_ok, where ns = "[]" and x = "''f''" and b = "[7]"]
    by (metis append_Nil prod.collapse)
qed

text \<open>
  \<open>mkdir\<close> succeeds only where nothing exists and no file is in the way, and then adds an empty directory (with the
  directories above it) and nothing else.
\<close>

theorem mkdir_adds_directory:
  assumes "mount_laws E" and "mount_ok E s" and "mount_mkdir E (abs_path (ns @ [x])) s = (Inr (), s')"
  shows "mount_ok E s' \<and> no_file_above ns (mount_fs E s) \<and> mount_fs E s (ns @ [x]) = None \<and>
    mount_fs E s' = fs_set (ns @ [x]) fs_empty_dir (mount_fs E s)"
  using mkdir_op.success [OF assms(1,2) TrueI assms(3)] .

theorem mkdir_adds_directory_witness:
  "mount_fs (sample_ext [[], [(''d'', sample_dir 2 0)]] [] [])
     (snd (mount_mkdir (sample_ext [[], [(''d'', sample_dir 2 0)]] [] []) (abs_path [''d''])
       (sample_mount, (0, [])))) [''d''] = Some FDir"
proof -
  let ?E = "sample_ext [[], [(''d'', sample_dir 2 0)]] [] []"
  let ?r = "mount_mkdir ?E (abs_path [''d'']) (sample_mount, (0, []))"
  have "fst ?r = Inr ()"
    by (simp add: run_defs mount_mkdir_def new_dir_def)
  then have "?r = (Inr (), snd ?r)"
    by (metis prod.collapse)
  from mkdir_adds_directory [OF sample_laws sample_mount_ok, where ns = "[]" and x = "''d''", unfolded append_Nil, OF this]
  show ?thesis
    by (simp add: fs_set_def fs_empty_dir_def)
qed

text \<open>
  C21: \<open>rm\<close> of a path none of whose ancestors is a file succeeds only where something exists, and
  then removes it with everything below and nothing else.
\<close>

theorem rm_removes_subtree:
  assumes "mount_laws E" and "mount_ok E s" and "no_file_above ns (mount_fs E s)"
    and "mount_rm E (abs_path (ns @ [x])) s = (Inr (), s')"
  shows "mount_ok E s' \<and> mount_fs E s (ns @ [x]) \<noteq> None \<and>
    mount_fs E s' = fs_del (ns @ [x]) (mount_fs E s)"
  using rm_op.success [OF assms] .

definition sample_tables :: "node list" where
  "sample_tables = [[], [(''f'', sample_file 2 0)], [(''g'', sample_file 2 0)],
     [(''f'', sample_file 2 0), (''g'', sample_file 8 6)], [(''g'', sample_file 8 6)],
     [(''f'', sample_file 8 6)]]"

definition sample_added :: "sample_world mount_state" where
  "sample_added = snd (mount_add (sample_ext sample_tables [] []) (abs_path [''f'']) (Inr [7])
     (sample_mount, (0, [])))"

lemma sample_added_ok:
  "mount_ok (sample_ext sample_tables [] []) sample_added"
  "mount_fs (sample_ext sample_tables [] []) sample_added [''f''] = Some (FFile [7])"
proof -
  let ?r = "mount_add (sample_ext sample_tables [] []) (abs_path [''f'']) (Inr [7]) (sample_mount, (0, []))"
  have "fst ?r = Inr ()"
    by (simp add: run_defs mount_add_def sample_tables_def)
  then have "?r = (Inr (), sample_added)"
    by (simp add: prod_eq_iff sample_added_def)
  from add_op.success [OF sample_laws sample_mount_ok TrueI, where ns = "[]" and x = "''f''" and b = "[7]",
      unfolded append_Nil, OF this]
  show "mount_ok (sample_ext sample_tables [] []) sample_added"
    "mount_fs (sample_ext sample_tables [] []) sample_added [''f''] = Some (FFile [7])"
    by (simp_all add: fs_set_def fs_file_def)
qed

theorem rm_removes_subtree_witness:
  "mount_fs (sample_ext sample_tables [] []) (snd (mount_rm (sample_ext sample_tables [] [])
     (abs_path [''f'']) sample_added)) [''f''] = None"
proof -
  let ?E = "sample_ext sample_tables [] []"
  let ?r = "mount_rm ?E (abs_path [''f'']) sample_added"
  have "fst ?r = Inr ()"
    by (simp add: sample_added_def run_defs mount_add_def mount_rm_def node_del_def bt_remove_def
        node_or_root_def set_new_entry_def record_op_def pin_one_all pin_one_def sample_tables_def)
  then have "?r = (Inr (), snd ?r)"
    by (metis prod.collapse)
  moreover have "no_file_above [] (mount_fs ?E sample_added)"
    by (simp add: no_file_above_def mount_fs_def)
  ultimately show ?thesis
    using rm_removes_subtree [OF sample_laws sample_added_ok(1), where ns = "[]" and x = "''f''"]
    by (auto simp: fs_del_def)
qed

text \<open>
  C20: a successful \<open>mv\<close> of an existing path takes the whole subtree out of its place and puts it,
  contents unchanged, at the destination, where nothing was; everything else stays, and the
  destination is not inside the source.
\<close>

theorem mv_moves_subtree:
  assumes "mount_laws E" and "mount_ok E s" and "mount_fs E s ns = Some FDir"
    and "mount_mv E (abs_path (ns @ [x])) (abs_path (ts @ [y])) s = (Inr (), s')"
  shows "mount_ok E s' \<and> mount_fs E s (ns @ [x]) \<noteq> None \<and> mount_fs E s (ts @ [y]) = None \<and>
    \<not> prefix (ns @ [x]) (ts @ [y]) \<and>
    mount_fs E s' = fs_set (ts @ [y]) (\<lambda>q. mount_fs E s ((ns @ [x]) @ q))
      (fs_del (ns @ [x]) (mount_fs E s))"
proof -
  obtain m w m' w' where s: "s = (m, w)" "s' = (m', w')"
    by fastforce
  from assms(1) assms(2-4) [unfolded s] show ?thesis
    unfolding s by (rule mv_Inr) (simp add: mount_ok_new_entry [OF assms(2) [unfolded s]] mount_fs_def)
qed

lemmas sample_run_defs = sample_added_def run_defs mount_add_def mount_rm_def mount_mv_def
  mv_remove_source_def mount_get_def node_del_def bt_remove_def node_or_root_def get_node_at_path_def
  set_new_entry_def record_op_def pin_one_def pin_all_def sample_tables_def starts_with_def

theorem mv_moves_subtree_witness:
  "mount_fs (sample_ext sample_tables [] []) (snd (mount_mv (sample_ext sample_tables [] [])
     (abs_path [''f'']) (abs_path [''g'']) sample_added)) [''g''] = Some (FFile [7])"
proof -
  let ?E = "sample_ext sample_tables [] []"
  let ?r = "mount_mv ?E (abs_path [''f'']) (abs_path [''g'']) sample_added"
  have "fst ?r = Inr ()"
    by (simp add: sample_run_defs)
  then have "?r = (Inr (), snd ?r)"
    by (metis prod.collapse)
  moreover have "mount_fs ?E sample_added [] = Some FDir"
    by (simp add: mount_fs_def)
  ultimately show ?thesis
    using mv_moves_subtree [OF sample_laws sample_added_ok(1), where ns = "[]" and x = "''f''" and ts = "[]" and y = "''g''"]
    by (auto simp: fs_set_def sample_added_ok(2))
qed

text \<open>
  C37: an \<open>add\<close>, \<open>mkdir\<close> or \<open>rm\<close> that fails, for whatever reason and on any path, leaves the mount
  as it was: same tree, same pins, same log, same abstract file system.
\<close>

theorem failed_operation_changes_nothing:
  assumes "mount_laws E" and "mount_ok E s"
    and "run \<in> {mount_add E p d, mount_mkdir E p, mount_rm E p}" and "run s = (Inl e, s')"
  shows "fst s' = fst s \<and> mount_ok E s' \<and> mount_fs E s' = mount_fs E s"
proof -
  have "atomic run" and "keeping E snd run"
    using assms(3) keeping_ops [OF assms(1)] atomic_add atomic_mkdir atomic_rm by auto
  then have m: "fst s' = fst s" and keep: "keeps_blobs E (snd s) (snd s')"
    using atomicD [of run] keepingD [of E snd run] assms(4) by auto
  have "mount_ok E (fst s, snd s)" and s': "s' = (fst s, snd s')"
    using assms(2) m by (simp_all add: prod_eq_iff)
  from mount_ok_keeps [OF this(1) mount_laws_blob [OF assms(1)] keep] show ?thesis
    by (subst (1 2 3) s') simp
qed

theorem failed_operation_changes_nothing_witness:
  "mount_fs (sample_ext [] [] []) (snd (mount_rm (sample_ext [] [] []) (abs_path [''f''])
     (sample_mount, (0, [])))) = mount_fs (sample_ext [] [] []) (sample_mount, (0, []))"
proof -
  let ?E = "sample_ext [] [] []"
  let ?r = "mount_rm ?E (abs_path [''f'']) (sample_mount, (0, []))"
  have "?r = (Inl (PathNotFound [Normal ''f'']), snd ?r)"
    by (simp add: sample_run_defs)
  then show ?thesis
    using failed_operation_changes_nothing [OF sample_laws sample_mount_ok,
        where run = "mount_rm ?E (abs_path [''f''])" and p = "abs_path [''f'']"] by blast
qed

text \<open>
  \<open>cat\<close> reads the abstract file system: the content of a file, \<open>PathNotNode\<close> for a directory,
  \<open>PathNotFound\<close> where there is nothing (and no file in the way).
\<close>

theorem cat_reads:
  assumes "mount_ok E s"
  shows "case mount_fs E s (ns @ [x]) of
      Some (FFile b) \<Rightarrow> mount_cat E (abs_path (ns @ [x])) s = Inr b
    | Some FDir \<Rightarrow> mount_cat E (abs_path (ns @ [x])) s = Inl (PathNotNode (rel_path (ns @ [x])))
    | None \<Rightarrow> no_file_above ns (mount_fs E s) \<longrightarrow>
        (\<exists>p. mount_cat E (abs_path (ns @ [x])) s = Inl (PathNotFound p))"
proof (cases "mount_fs E s (ns @ [x])")
  case None
  then show ?thesis
    using get_missing_above [OF assms None] by (auto simp: cat_get [of E "ns @ [x]", simplified])
next
  case (Some ob)
  show ?thesis
  proof (cases ob)
    case (FFile b)
    then show ?thesis
      using cat_file [OF assms] Some by simp
  next
    case FDir
    have "node_tree_ok E (set (mi_pins (fst s))) (snd s) (mi_entry (fst s))"
      using assms by (simp add: mount_ok_def)
    from get_existing [OF this Some] FDir obtain nl where
      "mount_get E (abs_path (ns @ [x])) s = Inr nl" "is_dir nl"
      by blast
    then show ?thesis
      using Some FDir by (cases nl) (simp_all add: cat_get [of E "ns @ [x]", simplified])
  qed
qed

theorem cat_reads_witness:
  "mount_cat (sample_ext sample_tables [] []) (abs_path [''f'']) sample_added = Inr [7]"
  using cat_reads [OF sample_added_ok(1), of "[]" "''f''"] by (simp add: sample_added_ok(2))

lemma mv_insert_fails:
  assumes "clean_path from = Inr from_clean" and "clean_path to = Inr to_clean"
    and "\<not> starts_with to from" and "mount_get E from s = Inr nl"
    and "mount_get E to s = Inl err" and "err \<notin> range MtPanic"
    and "mv_remove_source E from_clean s = (Inr (), s')"
    and "set_node_link_at_path E (mi_entry (fst s')) nl to (snd s') = (Inl e, w')"
  shows "mount_mv E from to s = (Inl e, (fst s', w'))"
  using assms by (cases err)
    (auto simp: mount_mv_def bindS_def liftR_def read_state_def on_world_def split: prod.splits)

text \<open>
  C40: \<open>mv\<close> is not atomic. When the destination lies below a file, the source has already been
  taken out of the tree by the time the insertion fails with \<open>PathNotNode\<close>: the error leaves a
  mount whose file system lacks the source.
\<close>

theorem mv_below_file_loses_source:
  assumes laws: "mount_laws E" and ok: "mount_ok E s"
    and dir: "mount_fs E s ns = Some FDir" and dest: "mount_fs E s ts = Some (FFile b)"
    and sep: "\<not> prefix (ns @ [x]) (ts @ [y])"
    and src: "mount_get E (abs_path (ns @ [x])) s = Inr nl"
    and "mount_get E (abs_path (ts @ [y])) s = Inl err" and "err \<notin> range MtPanic"
    and rm: "mv_remove_source E (rel_path (ns @ [x])) s = (Inr (), s')"
  shows "mount_mv E (abs_path (ns @ [x])) (abs_path (ts @ [y])) s = (Inl (PathNotNode (abs_path ts)), s') \<and>
    mount_fs E s' = fs_del (ns @ [x]) (mount_fs E s)"
proof -
  obtain m w m' w' where s: "s = (m, w)" "s' = (m', w')"
    by fastforce
  from laws ok [unfolded s] dir [unfolded s] rm [unfolded s] obtain hs n where
    n: "node_tree_ok E (set (mi_pins m) \<union> set hs) w' n"
    and fs: "fs_node E w' n = fs_del (ns @ [x]) (mount_fs E (m, w))" and m': "mi_entry m' = n"
    by (rule mv_remove_source_Inr) auto
  have "\<not> prefix (ns @ [x]) ts"
    using sep prefix_prefix by blast
  then have "fs_node E w' n ts = Some (FFile b)"
    using dest by (simp add: fs fs_del_def s)
  then have "set_node_link_at_path E (mi_entry (fst s')) nl (abs_path (ts @ [y])) (snd s') =
      (Inl (PathNotNode (abs_path ts)), snd s')"
    unfolding set_node_link_steps using visit_file [OF n, of ts b "[]" "[]" "[]"] by (simp add: s m')
  moreover have "\<not> starts_with (abs_path (ts @ [y])) (abs_path (ns @ [x]))"
    using sep by (simp only: starts_with_abs not_False_eq_True)
  ultimately have "mount_mv E (abs_path (ns @ [x])) (abs_path (ts @ [y])) s = (Inl (PathNotNode (abs_path ts)), s')"
    using mv_insert_fails [OF clean_path_root clean_path_root _ assms(6-9)] by simp
  then show ?thesis
    using fs by (simp add: mount_fs_def s m')
qed

definition sample_two :: "sample_world mount_state" where
  "sample_two = snd (mount_add (sample_ext sample_tables [] []) (abs_path [''g'']) (Inr [200]) sample_added)"

lemma sample_two_ok:
  "mount_ok (sample_ext sample_tables [] []) sample_two"
  "mount_fs (sample_ext sample_tables [] []) sample_two [''g''] = Some (FFile [200])"
proof -
  let ?r = "mount_add (sample_ext sample_tables [] []) (abs_path [''g'']) (Inr [200]) sample_added"
  have "fst ?r = Inr ()"
    by (simp add: sample_run_defs)
  then have "?r = (Inr (), sample_two)"
    by (simp add: prod_eq_iff sample_two_def)
  from add_op.success [OF sample_laws sample_added_ok(1) TrueI, where ns = "[]" and x = "''g''" and b = "[200]",
      unfolded append_Nil, OF this]
  show "mount_ok (sample_ext sample_tables [] []) sample_two"
    "mount_fs (sample_ext sample_tables [] []) sample_two [''g''] = Some (FFile [200])"
    by (simp_all add: fs_set_def fs_file_def)
qed

theorem mv_below_file_loses_source_witness:
  "fst (mount_mv (sample_ext sample_tables [] []) (abs_path [''f'']) (abs_path [''g'', ''h'']) sample_two) =
     Inl (PathNotNode (abs_path [''g''])) \<and>
   mount_fs (sample_ext sample_tables [] []) (snd (mount_mv (sample_ext sample_tables [] [])
     (abs_path [''f'']) (abs_path [''g'', ''h'']) sample_two)) [''f''] = None"
proof -
  let ?E = "sample_ext sample_tables [] []"
  let ?rm = "mv_remove_source ?E [Normal ''f''] sample_two"
  have "fst ?rm = Inr ()"
    by (simp add: sample_two_def sample_run_defs)
  then have "?rm = (Inr (), snd ?rm)"
    by (simp add: prod_eq_iff)
  moreover have "mount_get ?E (abs_path [''f'']) sample_two = Inr (sample_file 2 0)"
    by (simp add: sample_two_def sample_run_defs)
  moreover have "mount_get ?E (abs_path [''g'', ''h'']) sample_two = Inl (MtCodec DecodeError)"
    by (simp add: sample_two_def sample_run_defs)
  moreover have "mount_fs ?E sample_two [] = Some FDir"
    by (simp add: mount_fs_def)
  moreover have "MtCodec DecodeError \<notin> range MtPanic"
    by blast
  ultimately show ?thesis
    using mv_below_file_loses_source [OF sample_laws sample_two_ok(1), where ns = "[]" and x = "''f''"
        and ts = "[''g'']" and y = "''h''" and s' = "snd ?rm" and err = "MtCodec DecodeError"
        and nl = "sample_file 2 0" and b = "[200]"] sample_two_ok(2)
    by (auto simp: fs_del_def)
qed

end
