(* ===== verification/Persist.thy ===== *)
theory Persist
  imports File_Ops
begin

text \<open>
  \<open>mount_inner.rs\<close>, the life cycle of a bucket: \<open>init\<close>, \<open>load\<close>, \<open>save\<close> and \<open>publish\<close>, and the changes of
  membership. A saved version is self-contained: any owner loads it back with the same tree and
  the same operations, everything it needs is among its pins, and its manifest is signed and
  linked to the previous version.
\<close>

section \<open>Creating, saving and loading\<close>

text \<open>The loop of \<open>save\<close> over the shares: owners get the new secret, mirrors are left as they are.\<close>

fun reshare ::
  "('w, 'z) mount_ext_scheme \<Rightarrow> secret \<Rightarrow> shares \<Rightarrow> 'w \<Rightarrow> (mount_error + shares) \<times> 'w" where
  "reshare E secret [] w = (Inr [], w)"
| "reshare E secret ((k, s) # rest) w =
     bindS (if sh_role s = Owner
            then bindS (mapS_err share_failed (secret_share_new E secret (p_identity (sh_principal s))))
              (\<lambda>x. liftR (Inr (set_share x s)))
            else liftR (Inr s))
       (\<lambda>s'. bindS (reshare E secret rest) (\<lambda>rest'. liftR (Inr ((k, s') # rest')))) w"

text \<open>The parts of \<open>save\<close>: the operation log if there is one, and the manifest of the new version.\<close>

definition save_ops_log ::
  "('w, 'z) mount_ext_scheme \<Rightarrow> path_op_log \<Rightarrow> secret \<Rightarrow> pins \<Rightarrow> 'w \<Rightarrow> (mount_error + link option \<times> pins) \<times> 'w" where
  "save_ops_log E ops_log secret pins =
     (if \<not> log_is_empty ops_log
      then bindS (put_ops_log_in_blobs E ops_log secret) (\<lambda>l.
           liftR (Inr (Some l, pins_insert (link_hash l) pins)))
      else liftR (Inr (None, pins)))"

definition next_manifest ::
  "bool \<Rightarrow> secret \<Rightarrow> shares \<Rightarrow> link \<Rightarrow> link \<Rightarrow> link \<Rightarrow> u64 \<Rightarrow> link option \<Rightarrow> manifest \<Rightarrow> manifest" where
  "next_manifest do_publish secret shares pins_link previous_link entry height ops_log_link m =
     (let m1 = m\<lparr>m_shares := shares\<rparr>;
          m2 = (if do_publish then publish secret m1 else unpublish m1);
          m3 = set_height height (set_entry entry (set_previous previous_link (set_pins pins_link m2)));
          m4 = clear_ops_log m3
      in case ops_log_link of Some l \<Rightarrow> set_ops_log l m4 | None \<Rightarrow> m4)"

definition save_version ::
  "('w, 'z) mount_ext_scheme \<Rightarrow> bool \<Rightarrow> mount_inner \<Rightarrow> 'w \<Rightarrow> (mount_error + manifest \<times> link) \<times> 'w" where
  "save_version E do_publish m =
     bindS (mt_secret_generate E) (\<lambda>secret.
     bindS (put_node_in_blobs E (mi_entry m) secret) (\<lambda>entry.
     bindS (save_ops_log E (mi_ops_log m) secret
       (pins_insert (link_hash (mi_link m)) (pins_insert (link_hash entry) (mi_pins m))))
       (\<lambda>(ops_log_link, pins).
     bindS (put_pins_in_blobs E pins) (\<lambda>pins_link.
     bindS (reshare E secret (m_shares (mi_manifest m))) (\<lambda>shares.
     bindS (liftR (map_err MtManifest (manifest_sign E (mi_secret_key m)
       (next_manifest do_publish secret shares pins_link (mi_link m) entry (mi_height m + 1)
         ops_log_link (mi_manifest m))))) (\<lambda>manifest.
     bindS (put_manifest_in_blobs E manifest) (\<lambda>l. liftR (Inr (manifest, l)))))))))"

definition mount_save ::
  "('w, 'z) mount_ext_scheme \<Rightarrow> bool \<Rightarrow> 'w mount_state \<Rightarrow> (mount_error + link \<times> link \<times> u64) \<times> 'w mount_state" where
  "mount_save E do_publish =
     bindS (read_state (\<lambda>(m, w). Inr m)) (\<lambda>m.
     bindS (on_world (save_version E do_publish m)) (\<lambda>(manifest, l).
     bindS (update_inner (\<lambda>i. i\<lparr>mi_manifest := manifest, mi_height := mi_height m + 1, mi_link := l,
       mi_ops_log := clear_preserving_clock (mi_ops_log i)\<rparr>)) (\<lambda>_.
     liftR (Inr (l, mi_link m, mi_height m + 1)))))"

definition mount_publish ::
  "('w, 'z) mount_ext_scheme \<Rightarrow> 'w mount_state \<Rightarrow> (mount_error + link \<times> link \<times> u64) \<times> 'w mount_state" where
  "mount_publish E = mount_save E True"

definition mount_init ::
  "('w, 'z) mount_ext_scheme \<Rightarrow> uuid \<Rightarrow> string \<Rightarrow> secret_key \<Rightarrow> 'w \<Rightarrow> (mount_error + mount_inner) \<times> 'w" where
  "mount_init E i nm owner =
     (let entry = node_new in
     bindS (mt_secret_generate E) (\<lambda>secret.
     bindS (put_node_in_blobs E entry secret) (\<lambda>entry_link.
     bindS (mapS_err share_failed (secret_share_new E secret (public E owner))) (\<lambda>share.
     let pins = pins_insert (link_hash entry_link) pins_new in
     bindS (put_pins_in_blobs E pins) (\<lambda>pins_link.
     bindS (liftR (map_err MtManifest (manifest_sign E owner
       (manifest_new E i nm (public E owner) share entry_link pins_link 0)))) (\<lambda>manifest.
     bindS (put_manifest_in_blobs E manifest) (\<lambda>link.
     liftR (Inr \<lparr>mi_link = link, mi_manifest = manifest, mi_entry = entry, mi_pins = pins,
       mi_height = 0, mi_ops_log = log_new, mi_peer_id = public E owner, mi_secret_key = owner\<rparr>))))))))"

text \<open>\<open>get_secret_for_manifest\<close>; \<open>load\<close> contains the same steps.\<close>

definition get_secret_for_manifest ::
  "('w, 'z) mount_ext_scheme \<Rightarrow> manifest \<Rightarrow> secret_key \<Rightarrow> mount_error + secret" where
  "get_secret_for_manifest E manifest sk =
     bindR (ok_or ShareNotFound (get_share E manifest (public E sk))) (\<lambda>share.
     case sh_role share of
       Owner \<Rightarrow> bindR (ok_or ShareNotFound (sh_share share)) (\<lambda>secret_share.
         map_err share_failed (recover E secret_share sk))
     | Mirror \<Rightarrow> ok_or MirrorCannotMount (m_public manifest))"

definition mount_load ::
  "('w, 'z) mount_ext_scheme \<Rightarrow> link \<Rightarrow> secret_key \<Rightarrow> 'w \<Rightarrow> mount_error + mount_inner" where
  "mount_load E l sk w =
     bindR (get_manifest_from_blobs E l w) (\<lambda>manifest.
     bindR (get_secret_for_manifest E manifest sk) (\<lambda>secret.
     bindR (get_pins_from_blobs E (m_pins manifest) w) (\<lambda>pins.
     bindR (get_node_from_blobs E (Dir (m_entry manifest) secret) w) (\<lambda>entry.
     bindR (case m_ops_log manifest of
              Some ops_link \<Rightarrow> bindR (get_ops_log_from_blobs E ops_link secret w) (\<lambda>log. Inr (rebuild_clock log))
            | None \<Rightarrow> Inr log_new) (\<lambda>ops_log.
     Inr \<lparr>mi_link = l, mi_manifest = manifest, mi_entry = entry, mi_pins = pins,
       mi_height = m_height manifest, mi_ops_log = ops_log, mi_peer_id = public E sk,
       mi_secret_key = sk\<rparr>)))))"

definition load_manifest :: "('w, 'z) mount_ext_scheme \<Rightarrow> link \<Rightarrow> 'w \<Rightarrow> mount_error + manifest" where
  "load_manifest E l w = get_manifest_from_blobs E l w"

section \<open>Membership\<close>

definition add_owner ::
  "('w, 'z) mount_ext_scheme \<Rightarrow> public_key \<Rightarrow> 'w mount_state \<Rightarrow> (mount_error + unit) \<times> 'w mount_state" where
  "add_owner E peer =
     bindS (on_world (mapS_err share_failed (secret_share_new E secret_default peer))) (\<lambda>secret_share.
     update_inner (\<lambda>m. m\<lparr>mi_manifest := add_share E (share_new_owner secret_share peer) (mi_manifest m)\<rparr>))"

definition add_mirror ::
  "('w, 'z) mount_ext_scheme \<Rightarrow> public_key \<Rightarrow> 'w mount_state \<Rightarrow> (mount_error + unit) \<times> 'w mount_state" where
  "add_mirror E peer =
     update_inner (\<lambda>m. m\<lparr>mi_manifest := add_share E (share_new_mirror peer) (mi_manifest m)\<rparr>)"

definition mount_is_published :: "'w mount_state \<Rightarrow> bool" where
  "mount_is_published s \<longleftrightarrow> is_published (mi_manifest (fst s))"

section \<open>Resharing\<close>

lemma reshare_Cons:
  "reshare E secret ((k, s) # rest) w = (Inr shs, w') \<longleftrightarrow>
     (\<exists>s' w1 rest'. (if sh_role s = Owner
        then \<exists>x. secret_share_new E secret (p_identity (sh_principal s)) w = (Inr x, w1) \<and> s' = set_share x s
        else s' = s \<and> w1 = w) \<and>
      reshare E secret rest w1 = (Inr rest', w') \<and> shs = (k, s') # rest')"
  by (auto simp: res_simps)

text \<open>Same keys, principals and roles; every owner's share holds the secret.\<close>

definition reshared :: "('w, 'z) mount_ext_scheme \<Rightarrow> secret \<Rightarrow> share \<Rightarrow> share \<Rightarrow> bool" where
  "reshared E secret s s' \<longleftrightarrow> sh_principal s' = sh_principal s \<and>
     (if sh_role s = Owner
      then \<exists>x w w'. sh_share s' = Some x \<and>
        secret_share_new E secret (p_identity (sh_principal s)) w = (Inr x, w')
      else s' = s)"

lemma reshare_Inr:
  "reshare E secret shs w = (Inr shs', w') \<Longrightarrow>
     list_all2 (\<lambda>(k, s) (k', s'). k' = k \<and> reshared E secret s s') shs shs'"
proof (induction shs arbitrary: w shs')
  case (Cons e shs)
  obtain k s where e: "e = (k, s)"
    by fastforce
  from Cons show ?case
    unfolding e reshare_Cons by (fastforce simp: reshared_def set_share_def split: if_splits)
qed simp

lemma keeping_reshare [keeping_rules]:
  assumes "blob_laws E"
  shows "keeping E id (reshare E secret shs)"
proof (induction shs)
  case Nil
  then show ?case
    by (simp add: keeping_def)
next
  case (Cons e shs)
  obtain k s where e: "e = (k, s)"
    by fastforce
  have "reshare E secret (e # shs) = bindS (if sh_role s = Owner
            then bindS (mapS_err share_failed (secret_share_new E secret (p_identity (sh_principal s))))
              (\<lambda>x. liftR (Inr (set_share x s)))
            else liftR (Inr s))
       (\<lambda>s'. bindS (reshare E secret shs) (\<lambda>rest'. liftR (Inr ((k, s') # rest'))))"
    by (simp add: e fun_eq_iff)
  then show ?case
    by (simp only:) (intro keeping_rules assms Cons)
qed

lemma map_of_reshared:
  assumes "list_all2 (\<lambda>(k, s) (k', s'). k' = k \<and> R s s') xs ys"
  shows "map fst ys = map fst xs"
    and "map_of xs k = Some s \<Longrightarrow> \<exists>s'. map_of ys k = Some s' \<and> R s s'"
    and "(k, s') \<in> set ys \<Longrightarrow> \<exists>s. (k, s) \<in> set xs \<and> R s s'"
  using assms by (induction rule: list_all2_induct) (auto split: if_splits)

lemma shares_ok_reshared:
  assumes "shares_ok E m" and "list_all2 (\<lambda>(k, s) (k', s'). k' = k \<and> reshared E secret s s') (m_shares m) shs"
    and "m_shares m' = shs"
  shows "shares_ok E m'"
proof -
  have "share_ok E k s'" if "(k, s') \<in> set shs" for k s'
    using map_of_reshared(3) [OF assms(2) that] assms(1)
    by (auto simp: shares_ok_def share_ok_def reshared_def sh_role_def split: if_splits)
  moreover have "bt_ok shs"
    using map_of_reshared(1) [OF assms(2)] assms(1) by (simp add: shares_ok_def bt_ok_def)
  ultimately show ?thesis
    using assms(3) by (auto simp: shares_ok_def)
qed

section \<open>Saving\<close>

lemma put_get_manifest:
  assumes "mount_laws E" and "bt_ok (m_shares m)" and "put_manifest_in_blobs E m w = (Inr l, w')"
  shows "get_manifest_from_blobs E l w' = Inr m" and "length (link_hash l) = 32"
proof -
  from assms(3) obtain b h where b: "cbor_encode_manifest E m = Some b"
    and h: "blob_put E b w = (Inr h, w')" and l: "l = link_new manifest_codec h"
    by (auto simp: put_manifest_in_blobs_def manifest_encode_def res_simps)
  note get = put_get [OF mount_laws_blob [OF assms(1)] h]
  then show "get_manifest_from_blobs E l w' = Inr m"
    using get_check_stat [OF mount_laws_blob [OF assms(1)], of l] manifest_cbor [OF assms(1,2) b]
    by (simp add: get_manifest_from_blobs_def manifest_decode_def l)
  show "length (link_hash l) = 32"
    using get(2) by (simp add: l)
qed

lemma put_get_ops:
  assumes "mount_laws E" and "bt_ok (operations log)" and "put_ops_log_in_blobs E log k w = (Inr l, w')"
  shows "get_ops_log_from_blobs E l k w' = Inr \<lparr>operations = operations log, local_clock = 0\<rparr>"
    and "length (link_hash l) = 32"
  using put_encrypted_Inr [OF assms(1) assms(3) [unfolded put_ops_log_in_blobs_def]]
    ops_codec [OF assms(1,2)]
  by (auto simp: get_ops_log_from_blobs_def)

lemma put_get_pins:
  assumes "mount_laws E" and "distinct p" and "\<forall>h \<in> set p. length h = 32"
    and "put_pins_in_blobs E p w = (Inr l, w')"
  shows "get_pins_from_blobs E l w' = Inr p"
proof -
  note blob = mount_laws_blob [OF assms(1)]
  from assms(4) obtain h where h: "create_hash_list E p w = (Inr h, w')" and l: "l = link_new LD_RAW_CODEC h"
    by (auto simp: put_pins_in_blobs_def res_simps)
  have "blob_get E h w' = Inr (concat p)"
    using put_get(1) [OF blob] h by (simp add: create_hash_list_def)
  then have "check_stat E l w' = Inr ()"
    using get_check_stat [OF blob, of l] by (simp add: l)
  then show ?thesis
    using create_read_hash_list [OF blob assms(3) h] pins_vec_roundtrip [OF assms(2)]
    by (simp add: get_pins_from_blobs_def l pins_to_vec_def)
qed

lemma keeps_reads:
  assumes "blob_laws E" and "keeps_blobs E w w'"
  shows "get_manifest_from_blobs E l w = Inr m \<Longrightarrow> get_manifest_from_blobs E l w' = Inr m"
    and "get_ops_log_from_blobs E l k w = Inr log \<Longrightarrow> get_ops_log_from_blobs E l k w' = Inr log"
    and "get_pins_from_blobs E l w = Inr p \<Longrightarrow> get_pins_from_blobs E l w' = Inr p"
  using keeps_stat [OF assms] keeps_blob_get [OF assms(2)] keeps_read_hash_list [OF assms(2)]
  by (auto simp: get_manifest_from_blobs_def get_ops_log_from_blobs_def get_pins_from_blobs_def res_simps)

lemma save_ops_log_Inr:
  "save_ops_log E log k pins w = (Inr (opl, pins'), w') \<longleftrightarrow>
     (case opl of
        None \<Rightarrow> operations log = [] \<and> pins' = pins \<and> w' = w
      | Some l \<Rightarrow> operations log \<noteq> [] \<and> put_ops_log_in_blobs E log k w = (Inr l, w') \<and>
          pins' = pins_insert (link_hash l) pins)"
  by (auto simp: save_ops_log_def res_simps log_is_empty_def split: option.splits)

lemma keeping_save_ops_log [keeping_rules]:
  assumes "blob_laws E"
  shows "keeping E id (save_ops_log E log k pins)"
  unfolding save_ops_log_def by (intro keeping_rules assms)

lemma next_manifest_eq:
  "next_manifest pub k shs pl prev entry h opl m =
     m\<lparr>m_shares := shs, m_public := (if pub then Some k else None), m_pins := pl,
       m_previous := Some prev, m_entry := entry, m_height := h, m_ops_log := opl\<rparr>"
  by (simp add: next_manifest_def Let_def split: option.split)

lemma mount_save_Inr:
  "mount_save E pub (m, w) = (Inr (l, prev, h), (m', w')) \<longleftrightarrow>
     (\<exists>man. save_version E pub m w = (Inr (man, l), w') \<and> prev = mi_link m \<and> h = mi_height m + 1 \<and>
        m' = m\<lparr>mi_manifest := man, mi_height := mi_height m + 1, mi_link := l,
          mi_ops_log := clear_preserving_clock (mi_ops_log m)\<rparr>)"
  by (auto simp: mount_save_def res_simps)

text \<open>What a successful save stored: every part reads back in the world after it.\<close>

lemma save_version_Inr:
  assumes laws: "mount_laws E" and ok: "mount_ok E (m, w)"
    and save: "save_version E pub m w = (Inr (man, l), w')"
  obtains k entry opl pins pl shs where
    "get_manifest_from_blobs E l w' = Inr man" and "length (link_hash l) = 32"
    and "verify_signature E man = Inr True" and "m_author man = Some (public E (mi_secret_key m))"
    and "m_shares man = shs" and "m_public man = (if pub then Some k else None)" and "m_pins man = pl"
    and "m_previous man = Some (mi_link m)" and "m_entry man = entry"
    and "m_height man = mi_height m + 1" and "m_ops_log man = opl" and "m_id man = m_id (mi_manifest m)"
    and "length k = 32" and "keeps_blobs E w w'"
    and "list_all2 (\<lambda>(key, s) (key', s'). key' = key \<and> reshared E k s s') (m_shares (mi_manifest m)) shs"
    and "get_node_from_blobs E (Dir entry k) w' = Inr (mi_entry m)"
    and "get_pins_from_blobs E pl w' = Inr pins"
    and "set pins = set (mi_pins m) \<union> {link_hash entry, link_hash (mi_link m)} \<union> link_hash ` set_option opl"
    and "distinct pins" and "\<forall>h \<in> set pins. length h = 32"
    and "case opl of
      None \<Rightarrow> operations (mi_ops_log m) = []
    | Some ol \<Rightarrow> get_ops_log_from_blobs E ol k w' =
        Inr \<lparr>operations = operations (mi_ops_log m), local_clock = 0\<rparr>"
proof -
  note blob = mount_laws_blob [OF laws]
  note ok' = ok [unfolded mount_ok_def fst_conv snd_conv]
  let ?pins = "\<lambda>entry. pins_insert (link_hash (mi_link m)) (pins_insert (link_hash entry) (mi_pins m))"
  from save obtain k w1 entry w2 opl pins w3 pl w4 shs w5 where
    k: "mt_secret_generate E w = (Inr k, w1)" and n: "put_node_in_blobs E (mi_entry m) k w1 = (Inr entry, w2)"
    and log: "save_ops_log E (mi_ops_log m) k (?pins entry) w2 = (Inr (opl, pins), w3)"
    and pl: "put_pins_in_blobs E pins w3 = (Inr pl, w4)"
    and shs: "reshare E k (m_shares (mi_manifest m)) w4 = (Inr shs, w5)"
    and sign: "manifest_sign E (mi_secret_key m) (next_manifest pub k shs pl (mi_link m) entry
      (mi_height m + 1) opl (mi_manifest m)) = Inr man"
    and man: "put_manifest_in_blobs E man w5 = (Inr l, w')"
    by (auto simp: save_version_def res_simps)
  have k1: "keeps_blobs E w w1" and k2: "keeps_blobs E w1 w2" and k3: "keeps_blobs E w2 w3"
    and k4: "keeps_blobs E w3 w4" and k5: "keeps_blobs E w4 w5" and k6: "keeps_blobs E w5 w'"
    using keepingD [OF keeping_blobs(1) [OF blob] k] keepingD [OF keeping_blobs(3) [OF blob] n]
      keepingD [OF keeping_save_ops_log [OF blob] log] keepingD [OF keeping_blobs(6) [OF blob] pl]
      keepingD [OF keeping_reshare [OF blob] shs] keepingD [OF keeping_blobs(5) [OF blob] man] by auto
  note k46 = keeps_trans [OF k5 k6] note k36 = keeps_trans [OF k4 k46]
  note k26 = keeps_trans [OF k3 k36] note k06 = keeps_trans [OF k1 keeps_trans [OF k2 k26]]
  have shs': "list_all2 (\<lambda>(key, s) (key', s'). key' = key \<and> reshared E k s s') (m_shares (mi_manifest m)) shs"
    using shs by (rule reshare_Inr)
  note signed = sign_verifies [OF mount_laws_crypto [OF laws] sign, unfolded next_manifest_eq]
  have sel: "m_shares man = shs" "m_public man = (if pub then Some k else None)" "m_pins man = pl"
    "m_previous man = Some (mi_link m)" "m_entry man = entry" "m_height man = mi_height m + 1"
    "m_ops_log man = opl" "m_id man = m_id (mi_manifest m)"
    using sign by (auto simp: manifest_sign_Inr next_manifest_eq)
  have "bt_ok (m_shares man)"
    using shares_ok_reshared [OF _ shs' sel(1)] ok' by (simp add: shares_ok_def)
  note man' = put_get_manifest [OF laws this man]
  have entry: "get_node_from_blobs E (Dir entry k) w' = Inr (mi_entry m)" "length (link_hash entry) = 32"
    using keeps_get_node [OF blob k26] put_get_node [OF laws _ n] ok'
      put_encrypted_Inr [OF laws n [unfolded put_node_in_blobs_def]] by (auto simp: node_tree_ok_def)
  have log': "case opl of None \<Rightarrow> operations (mi_ops_log m) = [] \<and> pins = ?pins entry
     | Some ol \<Rightarrow> pins = pins_insert (link_hash ol) (?pins entry) \<and> length (link_hash ol) = 32 \<and>
         get_ops_log_from_blobs E ol k w' = Inr \<lparr>operations = operations (mi_ops_log m), local_clock = 0\<rparr>"
    using log put_get_ops [OF laws] keeps_reads(2) [OF blob k36] ok'
    by (auto simp: save_ops_log_Inr log_ok_def split: option.splits)
  have pins: "set pins = set (mi_pins m) \<union> {link_hash entry, link_hash (mi_link m)} \<union> link_hash ` set_option opl"
    "distinct pins" "\<forall>h \<in> set pins. length h = 32"
    using log' ok' entry(2) by (auto split: option.splits)
  have "get_pins_from_blobs E pl w' = Inr pins"
    using keeps_reads(3) [OF blob k46] put_get_pins [OF laws pins(2,3) pl] by blast
  moreover have "length k = 32"
    using secret_generate_length [OF mount_laws_crypto [OF laws]] k by (auto simp: mt_secret_generate_def res_simps)
  ultimately show ?thesis
    using that [OF man' _ _ sel _ k06 shs' entry(1) _ pins] signed log' by (auto split: option.splits)
qed

section \<open>Loading a saved version\<close>

lemma hex_inject: "crypto_laws E \<Longrightarrow> public_key_to_hex E a = public_key_to_hex E b \<longleftrightarrow> a = b"
  using hex_roundtrip [of E] by (metis option.inject public_key_to_hex_def)

lemma reshared_owner_secret:
  assumes laws: "crypto_laws E" and "shares_ok E m" and "length k = 32"
    and re: "list_all2 (\<lambda>(key, s) (key', s'). key' = key \<and> reshared E k s s') (m_shares m) shs"
    and "m_shares man = shs" and "get_share E m (public E sk) = Some sh" and "sh_role sh = Owner"
  shows "get_secret_for_manifest E man sk = Inr k"
proof -
  let ?key = "public_key_to_hex E (public E sk)"
  have get: "map_of (m_shares m) ?key = Some sh"
    using assms(6) by (simp add: get_share_def)
  then have "share_ok E ?key sh"
    using assms(2) by (auto simp: shares_ok_def dest!: map_of_SomeD)
  then have ident: "p_identity (sh_principal sh) = public E sk"
    by (simp add: share_ok_def hex_inject [OF laws])
  from map_of_reshared(2) [OF re get] obtain sh' where sh': "map_of shs ?key = Some sh'" "reshared E k sh sh'"
    by blast
  then obtain x w w' where x: "sh_share sh' = Some x" "sh_role sh' = Owner"
    "secret_share_new E k (public E sk) w = (Inr x, w')"
    using assms(7) ident by (auto simp: reshared_def sh_role_def)
  have "recover E x sk = Inr k"
    using laws assms(3) x(3) by (rule recover_new)
  then show ?thesis
    using sh' x by (simp add: get_secret_for_manifest_def get_share_def assms(5))
qed

text \<open>What a holder of the version's secret loads.\<close>

lemma load_saved:
  assumes laws: "mount_laws E" and ok: "mount_ok E (m, w)"
    and save: "save_version E pub m w = (Inr (man, l), w')"
    and secret: "\<And>k. length k = 32 \<Longrightarrow> m_public man = (if pub then Some k else None) \<Longrightarrow>
      list_all2 (\<lambda>(key, s) (key', s'). key' = key \<and> reshared E k s s') (m_shares (mi_manifest m)) (m_shares man) \<Longrightarrow>
      get_secret_for_manifest E man sk = Inr k"
    and keep: "keeps_blobs E w' w''"
  shows "\<exists>m''. mount_load E l sk w'' = Inr m'' \<and> mount_ok E (m'', w'') \<and> mi_manifest m'' = man \<and>
    mount_fs E (m'', w'') = mount_fs E (m, w) \<and> mi_height m'' = mi_height m + 1 \<and>
    operations (mi_ops_log m'') = operations (mi_ops_log m) \<and>
    set (mi_pins m) \<union> {link_hash (m_entry man), link_hash (mi_link m)} \<union> link_hash ` set_option (m_ops_log man)
      = set (mi_pins m'')"
proof -
  note blob = mount_laws_blob [OF laws]
  note ok' = ok [unfolded mount_ok_def fst_conv snd_conv]
  from laws ok save obtain k entry opl pins pl shs where
    man: "get_manifest_from_blobs E l w' = Inr man" "length (link_hash l) = 32"
    and sel: "m_shares man = shs" "m_public man = (if pub then Some k else None)" "m_pins man = pl"
      "m_entry man = entry" "m_height man = mi_height m + 1" "m_ops_log man = opl"
    and k: "length k = 32" "keeps_blobs E w w'"
      "list_all2 (\<lambda>(key, s) (key', s'). key' = key \<and> reshared E k s s') (m_shares (mi_manifest m)) shs"
    and entry: "get_node_from_blobs E (Dir entry k) w' = Inr (mi_entry m)"
    and pl: "get_pins_from_blobs E pl w' = Inr pins"
    and pins: "set pins = set (mi_pins m) \<union> {link_hash entry, link_hash (mi_link m)} \<union> link_hash ` set_option opl"
      "distinct pins" "\<forall>h \<in> set pins. length h = 32"
    and opl: "case opl of None \<Rightarrow> operations (mi_ops_log m) = []
      | Some ol \<Rightarrow> get_ops_log_from_blobs E ol k w' =
          Inr \<lparr>operations = operations (mi_ops_log m), local_clock = 0\<rparr>"
    by (rule save_version_Inr)
  define log where "log = (case opl of None \<Rightarrow> log_new
      | Some ol \<Rightarrow> rebuild_clock \<lparr>operations = operations (mi_ops_log m), local_clock = 0\<rparr>)"
  define m'' where "m'' = \<lparr>mi_link = l, mi_manifest = man, mi_entry = mi_entry m, mi_pins = pins,
       mi_height = m_height man, mi_ops_log = log, mi_peer_id = public E sk, mi_secret_key = sk\<rparr>"
  have log_ops: "operations log = operations (mi_ops_log m)"
    using opl by (auto simp: log_def log_new_def rebuild_clock_def split: option.splits)
  have "get_secret_for_manifest E man sk = Inr k"
    using secret [OF k(1)] sel k(3) by simp
  then have load: "mount_load E l sk w'' = Inr m''"
    using keeps_reads [OF blob keep] keeps_get_node [OF blob keep entry] man(1) pl opl
    by (auto simp: mount_load_def m''_def log_def sel split: option.splits)
  have tree: "node_tree_ok E (set pins) w'' (mi_entry m)"
    by (rule node_tree_ok_mono [OF mount_ok_tree [OF ok] blob keeps_trans [OF k(2) keep]]) (auto simp: pins(1))
  have "log_ok log"
    using ok' log_ops by (simp add: log_ok_def)
  moreover have "shares_ok E man"
    using shares_ok_reshared [OF _ k(3) sel(1)] ok' by simp
  ultimately have "mount_ok E (m'', w'')"
    using tree pins(2,3) man(2) by (simp add: mount_ok_def m''_def)
  moreover have "mount_fs E (m'', w'') = mount_fs E (m, w)"
    using mount_ok_keeps(2) [OF ok blob keeps_trans [OF k(2) keep]] by (simp add: mount_fs_def m''_def)
  ultimately show ?thesis
    using load log_ops pins(1) by (auto simp: m''_def sel)
qed

section \<open>Properties\<close>

lemma owner_loads_saved:
  assumes "mount_laws E" and "mount_ok E (m, w)"
    and "mount_save E pub (m, w) = (Inr (l, prev, h), (m', w'))"
    and "get_share E (mi_manifest m) (public E sk) = Some sh" and "sh_role sh = Owner"
    and "keeps_blobs E w' w''"
  shows "\<exists>m''. mount_load E l sk w'' = Inr m'' \<and> mount_ok E (m'', w'') \<and>
    mount_fs E (m'', w'') = mount_fs E (m, w) \<and> mi_height m'' = mi_height m + 1 \<and>
    operations (mi_ops_log m'') = operations (mi_ops_log m) \<and>
    set (mi_pins m'') = set (mi_pins m) \<union> {link_hash (m_entry (mi_manifest m'')), link_hash (mi_link m)} \<union>
      link_hash ` set_option (m_ops_log (mi_manifest m''))"
proof -
  from assms(3) obtain man where save: "save_version E pub m w = (Inr (man, l), w')"
    by (auto simp: mount_save_Inr)
  have shares: "shares_ok E (mi_manifest m)"
    using assms(2) by (simp add: mount_ok_def)
  have secret: "get_secret_for_manifest E man sk = Inr k"
    if "length k = 32" and "m_public man = (if pub then Some k else None)" and
      "list_all2 (\<lambda>(key, s) (key', s'). key' = key \<and> reshared E k s s') (m_shares (mi_manifest m)) (m_shares man)"
    for k
    using reshared_owner_secret [OF mount_laws_crypto [OF assms(1)] shares that(1,3) refl assms(4,5)] .
  from load_saved [OF assms(1,2) save secret assms(6)] show ?thesis
    by blast
qed

text \<open>
  C2: a saved version loads back. Every owner of the bucket can load the link that \<open>save\<close> returned
  (now and after any further writes) and gets a mount with the same files and directories, the same
  operations, the height one more, all of it readable and covered by the pins of the version,
  which also name the root node, the previous version and the operation log.
\<close>

theorem save_load_owner:
  assumes "mount_laws E" and "mount_ok E (m, w)"
    and "mount_save E pub (m, w) = (Inr (l, prev, h), (m', w'))"
    and "get_share E (mi_manifest m) (public E sk) = Some sh" and "sh_role sh = Owner"
    and "keeps_blobs E w' w''"
  shows "\<exists>m''. mount_load E l sk w'' = Inr m'' \<and> mount_ok E (m'', w'') \<and>
    mount_fs E (m'', w'') = mount_fs E (m, w) \<and> mi_height m'' = mi_height m + 1 \<and>
    operations (mi_ops_log m'') = operations (mi_ops_log m) \<and>
    set (mi_pins m'') = set (mi_pins m) \<union> {link_hash (m_entry (mi_manifest m'')), link_hash (mi_link m)} \<union>
      link_hash ` set_option (m_ops_log (mi_manifest m''))"
  using assms by (rule owner_loads_saved)

lemma get_share_saved:
  assumes "list_all2 (\<lambda>(key, s) (key', s'). key' = key \<and> reshared E k s s') (m_shares m) (m_shares man)"
  shows "get_share E m pk = None \<Longrightarrow> get_share E man pk = None"
    and "get_share E m pk = Some sh \<Longrightarrow> sh_role sh = Mirror \<Longrightarrow> get_share E man pk = Some sh"
proof -
  show "get_share E man pk = None" if "get_share E m pk = None"
    using that map_of_reshared(1) [OF assms] by (simp add: get_share_def map_of_eq_None_iff flip: set_map)
  show "get_share E man pk = Some sh" if "get_share E m pk = Some sh" and "sh_role sh = Mirror"
    using map_of_reshared(2) [OF assms that(1) [unfolded get_share_def]] that(2)
    by (auto simp: get_share_def reshared_def)
qed

text \<open>A bucket with one owner, saved once on the sample functions.\<close>

definition sample_owner :: secret_key where
  "sample_owner = replicate 32 9"

definition sample_owner_share :: "nat \<Rightarrow> string \<times> share" where
  "sample_owner_share e = (CHR ''h'' # map (\<lambda>x. char_of (unat x)) sample_owner,
     share_new_owner (replicate 32 (of_nat e) @ replicate 8 0 @ replicate 32 0) sample_owner)"

definition sample_bucket :: mount_inner where
  "sample_bucket = sample_mount\<lparr>mi_manifest := sample_manifest\<lparr>m_shares := [sample_owner_share 7]\<rparr>,
     mi_secret_key := sample_owner, mi_peer_id := sample_owner\<rparr>"

definition sample_saved :: "signature option \<Rightarrow> manifest" where
  "sample_saved sig = sample_manifest\<lparr>m_shares := [sample_owner_share 4], m_height := 1,
     m_entry := link_new LD_RAW_CODEC (replicate 32 2), m_pins := link_new LD_RAW_CODEC (replicate 32 3),
     m_previous := Some link_default, m_author := Some sample_owner, m_signature := sig\<rparr>"

definition sample_store :: "sample_world mount_ext" where
  "sample_store = sample_ext [[]] [] [sample_saved None, sample_saved (Some [0]), sample_manifest]"

lemmas save_run_defs = sample_store_def sample_bucket_def sample_saved_def sample_owner_share_def
  sample_owner_def mount_save_def save_version_def save_ops_log_def next_manifest_def log_is_empty_def
  log_new_def put_pins_in_blobs_def create_hash_list_def pins_insert_def secret_share_new_def
  secret_key_generate_def public_def to_x25519_def share_new_owner_def sh_role_def set_share_def
  manifest_sign_def signable_bytes_def manifest_encode_def sign_def put_manifest_in_blobs_def
  link_default_def run_defs

lemma sample_save_runs:
  "mount_save sample_store False (sample_bucket, (0, [])) =
     (Inr (link_new manifest_codec (replicate 32 5), link_default, 1),
      snd (mount_save sample_store False (sample_bucket, (0, []))))"
  by (simp add: save_run_defs)

lemma sample_store_laws: "mount_laws sample_store"
  unfolding sample_store_def by (rule sample_laws)

lemma sample_bucket_ok: "mount_ok sample_store (sample_bucket, (0, []))"
  by (simp add: mount_ok_def sample_bucket_def sample_mount_def sample_manifest_def shares_ok_def
      share_ok_def sample_owner_share_def share_new_owner_def sh_role_def sample_store_def
      public_key_to_hex_def log_ok_new link_default_def)

lemma sample_save_pair:
  "mount_save sample_store False (sample_bucket, (0, [])) =
     (Inr (link_new manifest_codec (replicate 32 5), link_default, 1),
      (fst (snd (mount_save sample_store False (sample_bucket, (0, [])))),
       snd (snd (mount_save sample_store False (sample_bucket, (0, []))))))"
  using sample_save_runs by (metis prod.collapse)

theorem save_load_owner_witness:
  "\<exists>m''. mount_load sample_store (link_new manifest_codec (replicate 32 5)) sample_owner
     (snd (snd (mount_save sample_store False (sample_bucket, (0, []))))) = Inr m'' \<and> mi_height m'' = 1"
proof -
  have share: "get_share sample_store (mi_manifest sample_bucket) (public sample_store sample_owner) =
      Some (snd (sample_owner_share 7))"
    by (simp add: get_share_def sample_store_def public_key_to_hex_def public_def sample_bucket_def
        sample_owner_share_def sample_owner_def)
  have role: "sh_role (snd (sample_owner_share 7)) = Owner"
    by (simp add: sh_role_def sample_owner_share_def share_new_owner_def)
  show ?thesis
    using save_load_owner [OF sample_store_laws sample_bucket_ok sample_save_pair share role keeps_refl]
    by (auto simp: sample_bucket_def sample_mount_def)
qed

text \<open>
  C25: access of mirrors and strangers. A saved bucket that was not published cannot be mounted by a
  mirror (\<open>MirrorCannotMount\<close>); a published one can, with the same file system; a key without a
  share gets \<open>ShareNotFound\<close> either way.
\<close>

theorem save_load_others:
  assumes "mount_laws E" and "mount_ok E (m, w)"
    and "mount_save E pub (m, w) = (Inr (l, prev, h), (m', w'))" and "keeps_blobs E w' w''"
  shows "case get_share E (mi_manifest m) (public E sk) of
      None \<Rightarrow> mount_load E l sk w'' = Inl ShareNotFound
    | Some sh \<Rightarrow> sh_role sh = Mirror \<longrightarrow>
        (if pub then \<exists>m''. mount_load E l sk w'' = Inr m'' \<and> mount_fs E (m'', w'') = mount_fs E (m, w)
         else mount_load E l sk w'' = Inl MirrorCannotMount)"
proof -
  from assms(3) obtain man where save: "save_version E pub m w = (Inr (man, l), w')"
    by (auto simp: mount_save_Inr)
  from assms(1,2) save obtain k where man: "get_manifest_from_blobs E l w' = Inr man"
    and pub: "m_public man = (if pub then Some k else None)" and re:
    "list_all2 (\<lambda>(key, s) (key', s'). key' = key \<and> reshared E k s s') (m_shares (mi_manifest m)) (m_shares man)"
    by (rule save_version_Inr) blast
  have man': "get_manifest_from_blobs E l w'' = Inr man"
    using man by (rule keeps_reads(1) [OF mount_laws_blob [OF assms(1)] assms(4)])
  show ?thesis
  proof (cases "get_share E (mi_manifest m) (public E sk)")
    case None
    then show ?thesis
      using get_share_saved(1) [OF re None] man' by (simp add: mount_load_def get_secret_for_manifest_def)
  next
    case (Some sh)
    note share = get_share_saved(2) [OF re Some]
    have "get_secret_for_manifest E man sk = Inr k'"
      if "sh_role sh = Mirror" and "m_public man = (if pub then Some k' else None)" and pub for k'
      using share [OF that(1)] that by (simp add: get_secret_for_manifest_def)
    then have "\<exists>m''. mount_load E l sk w'' = Inr m'' \<and> mount_fs E (m'', w'') = mount_fs E (m, w)"
      if "sh_role sh = Mirror" and pub
      using load_saved [OF assms(1,2) save _ assms(4), of sk] that by blast
    moreover have "mount_load E l sk w'' = Inl MirrorCannotMount" if "sh_role sh = Mirror" and "\<not> pub"
      using share [OF that(1)] that pub man' by (simp add: mount_load_def get_secret_for_manifest_def)
    ultimately show ?thesis
      using Some by simp
  qed
qed

theorem save_load_others_witness:
  "mount_load sample_store (link_new manifest_codec (replicate 32 5)) (replicate 32 8)
     (snd (snd (mount_save sample_store False (sample_bucket, (0, []))))) = Inl ShareNotFound"
proof -
  have "get_share sample_store (mi_manifest sample_bucket) (public sample_store (replicate 32 8)) = None"
    by (simp add: get_share_def sample_store_def public_key_to_hex_def public_def sample_bucket_def
        sample_owner_share_def sample_owner_def)
  then show ?thesis
    using save_load_others [OF sample_store_laws sample_bucket_ok sample_save_pair keeps_refl, of "replicate 32 8"]
    by simp
qed

lemma save_keeps_mount:
  assumes "mount_laws E" and "mount_ok E (m, w)"
    and "mount_save E pub (m, w) = (Inr (l, prev, h), (m', w'))"
  shows "mount_ok E (m', w') \<and> mount_fs E (m', w') = mount_fs E (m, w) \<and>
    prev = mi_link m \<and> h = mi_height m + 1 \<and> mi_link m' = l \<and>
    get_manifest_from_blobs E l w' = Inr (mi_manifest m') \<and>
    m_previous (mi_manifest m') = Some (mi_link m) \<and> m_height (mi_manifest m') = mi_height m + 1 \<and>
    m_author (mi_manifest m') = Some (public E (mi_secret_key m)) \<and>
    verify_signature E (mi_manifest m') = Inr True \<and>
    log_is_empty (mi_ops_log m') \<and> local_clock (mi_ops_log m') = local_clock (mi_ops_log m) \<and>
    is_published (mi_manifest m') = pub"
proof -
  from assms(3) obtain man where save: "save_version E pub m w = (Inr (man, l), w')"
    and eqs: "prev = mi_link m" "h = mi_height m + 1"
    "m' = m\<lparr>mi_manifest := man, mi_height := mi_height m + 1, mi_link := l,
       mi_ops_log := clear_preserving_clock (mi_ops_log m)\<rparr>"
    by (auto simp: mount_save_Inr)
  from assms(1,2) save obtain k where man: "get_manifest_from_blobs E l w' = Inr man"
    "length (link_hash l) = 32" "verify_signature E man = Inr True"
    "m_author man = Some (public E (mi_secret_key m))" "m_public man = (if pub then Some k else None)"
    "m_previous man = Some (mi_link m)" "m_height man = mi_height m + 1" "keeps_blobs E w w'"
    "list_all2 (\<lambda>(key, s) (key', s'). key' = key \<and> reshared E k s s') (m_shares (mi_manifest m)) (m_shares man)"
    by (rule save_version_Inr) blast
  note grown = mount_ok_keeps [OF assms(2) mount_laws_blob [OF assms(1)] man(8)]
  have "shares_ok E man"
    using shares_ok_reshared [OF _ man(9) refl] assms(2) by (simp add: mount_ok_def)
  then have "mount_ok E (m', w')"
    using grown(1) man(2,7) by (simp add: mount_ok_def eqs log_ok_clear)
  moreover have "mount_fs E (m', w') = mount_fs E (m, w)"
    using grown(2) by (simp add: mount_fs_def eqs)
  ultimately show ?thesis
    using man eqs by (simp add: is_published_def log_is_empty_def clear_preserving_clock_def)
qed

text \<open>
  What a version holds: the tree and the operations, under a secret that every owner recovers, and
  the members it had before.
\<close>

lemma save_stores_content:
  assumes "mount_laws E" and "mount_ok E (m, w)"
    and "mount_save E pub (m, w) = (Inr (l, prev, h), (m', w'))"
  shows "map fst (m_shares (mi_manifest m')) = map fst (m_shares (mi_manifest m))"
    and "\<exists>k. get_node_from_blobs E (Dir (m_entry (mi_manifest m')) k) w' = Inr (mi_entry m) \<and>
      (case m_ops_log (mi_manifest m') of
         None \<Rightarrow> operations (mi_ops_log m) = []
       | Some ol \<Rightarrow> get_ops_log_from_blobs E ol k w' =
           Inr \<lparr>operations = operations (mi_ops_log m), local_clock = 0\<rparr>) \<and>
      (\<forall>sk sh. get_share E (mi_manifest m) (public E sk) = Some sh \<longrightarrow> sh_role sh = Owner \<longrightarrow>
         get_secret_for_manifest E (mi_manifest m') sk = Inr k)"
proof -
  from assms(3) obtain man where save: "save_version E pub m w = (Inr (man, l), w')"
    and m': "mi_manifest m' = man"
    by (auto simp: mount_save_Inr)
  from assms(1,2) save obtain k where k: "length k = 32"
    and re: "list_all2 (\<lambda>(key, s) (key', s'). key' = key \<and> reshared E k s s') (m_shares (mi_manifest m)) (m_shares man)"
    and entry: "get_node_from_blobs E (Dir (m_entry man) k) w' = Inr (mi_entry m)"
    and ops: "case m_ops_log man of None \<Rightarrow> operations (mi_ops_log m) = []
      | Some ol \<Rightarrow> get_ops_log_from_blobs E ol k w' =
          Inr \<lparr>operations = operations (mi_ops_log m), local_clock = 0\<rparr>"
    by (rule save_version_Inr) blast
  have shares: "shares_ok E (mi_manifest m)"
    using assms(2) by (simp add: mount_ok_def)
  have "get_secret_for_manifest E man sk = Inr k"
    if "get_share E (mi_manifest m) (public E sk) = Some sh" "sh_role sh = Owner" for sk sh
    using reshared_owner_secret [OF mount_laws_crypto [OF assms(1)] shares k re refl that] .
  then show "\<exists>k. get_node_from_blobs E (Dir (m_entry (mi_manifest m')) k) w' = Inr (mi_entry m) \<and>
      (case m_ops_log (mi_manifest m') of
         None \<Rightarrow> operations (mi_ops_log m) = []
       | Some ol \<Rightarrow> get_ops_log_from_blobs E ol k w' =
           Inr \<lparr>operations = operations (mi_ops_log m), local_clock = 0\<rparr>) \<and>
      (\<forall>sk sh. get_share E (mi_manifest m) (public E sk) = Some sh \<longrightarrow> sh_role sh = Owner \<longrightarrow>
         get_secret_for_manifest E (mi_manifest m') sk = Inr k)"
    using entry ops m' by blast
  show "map fst (m_shares (mi_manifest m')) = map fst (m_shares (mi_manifest m))"
    using map_of_reshared(1) [OF re] m' by simp
qed

lemma save_stores_log:
  assumes "mount_laws E" and "mount_ok E (m, w)"
    and "mount_save E pub (m, w) = (Inr (l, prev, h), (m', w'))"
    and "bt_get (operations (mi_ops_log m)) i \<noteq> None"
  shows "\<exists>ol k log. m_ops_log (mi_manifest m') = Some ol \<and>
    get_ops_log_from_blobs E ol k w' = Inr log \<and> operations log = operations (mi_ops_log m)"
  using save_stores_content(2) [OF assms(1-3)] assms(4) by (fastforce split: option.splits)

text \<open>
  C24: \<open>save\<close> starts the next version: the new manifest is signed by the saver and its signature
  verifies, it points to the version before it, its height is one more, and the version holds the
  tree and exactly the operations of the log, under a secret that every owner recovers. The log of
  the mount is empty afterwards with its clock kept, and the mount invariant and the files are as
  before.
\<close>

theorem save_chains_versions:
  assumes "mount_laws E" and "mount_ok E (m, w)"
    and "mount_save E pub (m, w) = (Inr (l, prev, h), (m', w'))"
  shows "mount_ok E (m', w') \<and> mount_fs E (m', w') = mount_fs E (m, w) \<and>
    prev = mi_link m \<and> h = mi_height m + 1 \<and> mi_link m' = l \<and>
    get_manifest_from_blobs E l w' = Inr (mi_manifest m') \<and>
    m_previous (mi_manifest m') = Some (mi_link m) \<and> m_height (mi_manifest m') = mi_height m + 1 \<and>
    m_author (mi_manifest m') = Some (public E (mi_secret_key m)) \<and>
    verify_signature E (mi_manifest m') = Inr True \<and>
    log_is_empty (mi_ops_log m') \<and> local_clock (mi_ops_log m') = local_clock (mi_ops_log m) \<and>
    is_published (mi_manifest m') = pub \<and>
    (\<exists>k. get_node_from_blobs E (Dir (m_entry (mi_manifest m')) k) w' = Inr (mi_entry m) \<and>
      (case m_ops_log (mi_manifest m') of
         None \<Rightarrow> operations (mi_ops_log m) = []
       | Some ol \<Rightarrow> get_ops_log_from_blobs E ol k w' =
           Inr \<lparr>operations = operations (mi_ops_log m), local_clock = 0\<rparr>) \<and>
      (\<forall>sk sh. get_share E (mi_manifest m) (public E sk) = Some sh \<longrightarrow> sh_role sh = Owner \<longrightarrow>
         get_secret_for_manifest E (mi_manifest m') sk = Inr k))"
  using save_keeps_mount [OF assms] save_stores_content(2) [OF assms] by blast

theorem save_chains_versions_witness:
  "m_previous (mi_manifest (fst (snd (mount_save sample_store False (sample_bucket, (0, [])))))) =
     Some link_default"
  using save_chains_versions [OF sample_store_laws sample_bucket_ok sample_save_pair]
  by (simp add: sample_bucket_def sample_mount_def)

text \<open>
  A new bucket is a well-formed mount of the empty directory at height 0 whose manifest is
  stored, signed by its owner and has no predecessor; the owner loads it as it was made.
\<close>

theorem init_empty_bucket:
  assumes laws: "mount_laws E" and init: "mount_init E i nm owner w = (Inr m, w')"
  shows "mount_ok E (m, w') \<and> mount_fs E (m, w') = fs_empty_dir \<and> mi_height m = 0 \<and>
    get_manifest_from_blobs E (mi_link m) w' = Inr (mi_manifest m) \<and>
    m_previous (mi_manifest m) = None \<and> verify_signature E (mi_manifest m) = Inr True \<and>
    m_author (mi_manifest m) = Some (public E owner) \<and> m_id (mi_manifest m) = i \<and> mi_secret_key m = owner \<and>
    (\<exists>sh. get_share E (mi_manifest m) (public E owner) = Some sh \<and> sh_role sh = Owner) \<and>
    mount_load E (mi_link m) owner w' = Inr m"
proof -
  note blob = mount_laws_blob [OF laws]
  from init obtain k w1 entry w2 sh w3 pl w4 man l where
    k: "mt_secret_generate E w = (Inr k, w1)"
    and n: "put_node_in_blobs E node_new k w1 = (Inr entry, w2)"
    and sh: "secret_share_new E k (public E owner) w2 = (Inr sh, w3)"
    and pl: "put_pins_in_blobs E (pins_insert (link_hash entry) pins_new) w3 = (Inr pl, w4)"
    and sign: "manifest_sign E owner (manifest_new E i nm (public E owner) sh entry pl 0) = Inr man"
    and man: "put_manifest_in_blobs E man w4 = (Inr l, w')"
    and m: "m = \<lparr>mi_link = l, mi_manifest = man, mi_entry = node_new,
      mi_pins = pins_insert (link_hash entry) pins_new, mi_height = 0, mi_ops_log = log_new,
      mi_peer_id = public E owner, mi_secret_key = owner\<rparr>"
    unfolding mount_init_def Let_def by (auto simp: res_simps)
  have sel: "m_shares man = m_shares (manifest_new E i nm (public E owner) sh entry pl 0)"
    "m_height man = 0" "m_previous man = None"
    using sign by (auto simp: manifest_sign_Inr manifest_new_def)
  have shares: "shares_ok E man"
    using shares_ok_new [of E i nm "public E owner" sh entry pl 0] sel(1) by (simp add: shares_ok_def)
  then have man': "get_manifest_from_blobs E l w' = Inr man" "length (link_hash l) = 32"
    using put_get_manifest [OF laws _ man] by (simp_all add: shares_ok_def)
  have len: "length (link_hash entry) = 32"
    using put_encrypted_Inr [OF laws n [unfolded put_node_in_blobs_def]] by blast
  then have ok: "mount_ok E (m, w')"
    using shares man'(2) sel(2) by (simp add: mount_ok_def m pins_insert_def pins_new_def log_ok_new)
  have k4: "keeps_blobs E w4 w'" and k2: "keeps_blobs E w2 w'"
    using keepingD [OF keeping_share_new [OF blob] sh] keepingD [OF keeping_blobs(6) [OF blob] pl]
      keepingD [OF keeping_blobs(5) [OF blob] man] by (auto intro: keeps_trans)
  have "length k = 32"
    using secret_generate_length [OF mount_laws_crypto [OF laws]] k by (auto simp: mt_secret_generate_def res_simps)
  then have "recover E sh owner = Inr k"
    using recover_new [OF mount_laws_crypto [OF laws] _ sh] by simp
  then have "get_secret_for_manifest E man owner = Inr k"
    using sign by (auto simp: get_secret_for_manifest_def get_share_def manifest_sign_Inr manifest_new_def sh_role_def)
  moreover have "get_node_from_blobs E (Dir entry k) w' = Inr node_new"
    using keeps_get_node [OF blob k2 put_get_node [OF laws _ n]] by (simp add: node_ok)
  moreover have "get_pins_from_blobs E pl w' = Inr (pins_insert (link_hash entry) pins_new)"
    using keeps_reads(3) [OF blob k4 put_get_pins [OF laws _ _ pl]] len by (simp add: pins_insert_def pins_new_def)
  moreover have "m_pins man = pl" "m_entry man = entry" "m_ops_log man = None" "m_id man = i"
    "\<exists>sh. get_share E man (public E owner) = Some sh \<and> sh_role sh = Owner"
    using sign by (auto simp: manifest_sign_Inr manifest_new_def get_share_def sh_role_def)
  ultimately show ?thesis
    using ok man'(1) sel sign_verifies [OF mount_laws_crypto [OF laws] sign]
    by (simp add: m mount_fs_def fs_node_new mount_load_def)
qed

definition sample_first :: "signature option \<Rightarrow> manifest" where
  "sample_first sig = sample_manifest\<lparr>m_shares := [sample_owner_share 3],
     m_entry := link_new LD_RAW_CODEC (replicate 32 2), m_pins := link_new LD_RAW_CODEC (replicate 32 4),
     m_author := Some sample_owner, m_signature := sig\<rparr>"

theorem init_empty_bucket_witness:
  "\<exists>m w'. mount_init (sample_ext [[]] [] [sample_first None, sample_first (Some [0])]) 0 ''b'' sample_owner
     (0, []) = (Inr m, w') \<and> mi_height m = 0"
proof -
  let ?E = "sample_ext [[]] [] [sample_first None, sample_first (Some [0])]"
  let ?r = "mount_init ?E 0 ''b'' sample_owner (0, [])"
  have "\<exists>m w'. ?r = (Inr m, w')"
    by (simp add: sample_first_def mount_init_def save_run_defs manifest_new_def public_key_to_hex_def pins_new_def)
  then show ?thesis
    using init_empty_bucket [OF sample_laws, of _ _ _ 0 "''b''" sample_owner] by blast
qed

section \<open>Changing the members\<close>

lemma mount_ok_add_share:
  assumes "mount_ok E (m, w)" and "sh = share_new_owner x pk \<or> sh = share_new_mirror pk"
  shows "mount_ok E (m\<lparr>mi_manifest := add_share E sh (mi_manifest m)\<rparr>, w)"
proof -
  have "shares_ok E (add_share E sh (mi_manifest m))"
    using assms by (intro shares_ok_add) (auto simp: mount_ok_def)
  then show ?thesis
    using assms(1) by (simp add: mount_ok_def add_share_def)
qed

lemma add_mirror_ok: "mount_ok E s \<Longrightarrow> add_mirror E pk s = (r, s') \<Longrightarrow> mount_ok E s'"
  using mount_ok_add_share [of E "fst s" "snd s" "share_new_mirror pk" _ pk]
  by (auto simp: add_mirror_def update_inner_def)

text \<open>
  Adding an owner files a share for the new key at once, but what it wraps is the all-zero
  default secret, not the secret of any version: only the next \<open>save\<close> gives the new owner access.
\<close>

theorem add_owner_share_is_placeholder:
  assumes laws: "mount_laws E" and ok: "mount_ok E s"
    and add: "add_owner E (public E sk) s = (Inr (), s')"
  shows "mount_ok E s' \<and> mount_fs E s' = mount_fs E s \<and>
    get_secret_for_manifest E (mi_manifest (fst s')) sk = Inr (replicate 32 0)"
proof -
  obtain m w m' w' where s: "s = (m, w)" "s' = (m', w')"
    by fastforce
  from add obtain x where x: "secret_share_new E secret_default (public E sk) w = (Inr x, w')"
    and m': "m' = m\<lparr>mi_manifest := add_share E (share_new_owner x (public E sk)) (mi_manifest m)\<rparr>"
    by (auto simp: add_owner_def res_simps s)
  note grown = mount_ok_keeps [OF ok [unfolded s] mount_laws_blob [OF laws]
      keepingD [OF keeping_share_new [OF mount_laws_blob [OF laws]] x, simplified]]
  have "mount_ok E (m', w')"
    unfolding m' using grown(1) by (rule mount_ok_add_share) blast
  moreover have "mount_fs E (m', w') = mount_fs E (m, w)"
    using grown(2) by (simp add: mount_fs_def m')
  moreover have "recover E x sk = Inr secret_default"
    using recover_new [OF mount_laws_crypto [OF laws] _ x] by (simp add: secret_default_def)
  ultimately show ?thesis
    by (simp add: s m' get_secret_for_manifest_def get_share_def add_share_def share_new_owner_def
        map_laws sh_role_def secret_default_def)
qed

theorem add_owner_share_is_placeholder_witness:
  "get_secret_for_manifest (sample_ext [] [] []) (mi_manifest (fst (snd (add_owner (sample_ext [] [] [])
     (public (sample_ext [] [] []) sample_owner) (sample_mount, (0, [])))))) sample_owner = Inr (replicate 32 0)"
proof -
  let ?E = "sample_ext [] [] []"
  let ?r = "add_owner ?E (public ?E sample_owner) (sample_mount, (0, []))"
  have "fst ?r = Inr ()"
    by (simp add: add_owner_def save_run_defs secret_default_def)
  then have "?r = (Inr (), snd ?r)"
    by (simp add: prod_eq_iff)
  from add_owner_share_is_placeholder [OF sample_laws sample_mount_ok this] show ?thesis
    by blast
qed

end
