(* ===== verification/Mount_Merge.thy ===== *)
theory Mount_Merge
  imports Persist
begin

text \<open>
  \<open>mount_inner.rs\<close>, merging two mounts of a bucket: \<open>find_common_ancestor\<close>, \<open>collect_ops_since\<close>,
  \<open>apply_resolved_state\<close> and \<open>merge_from\<close>. The walks along the \<open>previous\<close> links end when the chain
  of versions reaches its first one; they are partial functions whose value \<open>None\<close> is a walk that
  does not return, and the properties show that on the chains that \<open>init\<close> and \<open>save\<close> build they do.
\<close>

section \<open>Walking the chain\<close>

partial_function (option) collect_loop ::
  "('w, 'z) mount_ext_scheme \<Rightarrow> 'w \<Rightarrow> secret_key \<Rightarrow> link option \<Rightarrow> link \<Rightarrow> path_op_log list \<Rightarrow>
     (mount_error + path_op_log list) option" where
  "collect_loop E w sk ancestor l all_logs =
     (if ancestor = Some l then Some (Inr all_logs)
      else case get_manifest_from_blobs E l w of
        Inl e \<Rightarrow> Some (Inl e)
      | Inr manifest \<Rightarrow>
          (case get_secret_for_manifest E manifest sk of
             Inl e \<Rightarrow> (if e = ShareNotFound then Some (Inr all_logs) else Some (Inl e))
           | Inr secret \<Rightarrow>
               (case (case m_ops_log manifest of
                        None \<Rightarrow> Inr all_logs
                      | Some ops_link \<Rightarrow> bindR (get_ops_log_from_blobs E ops_link secret w)
                          (\<lambda>ops_log. Inr (all_logs @ [rebuild_clock ops_log]))) of
                  Inl e \<Rightarrow> Some (Inl e)
                | Inr all_logs' \<Rightarrow>
                    (case m_previous manifest of
                       Some prev \<Rightarrow> collect_loop E w sk ancestor prev all_logs'
                     | None \<Rightarrow> Some (Inr all_logs')))))"

definition collect_ops_since ::
  "('w, 'z) mount_ext_scheme \<Rightarrow> link option \<Rightarrow> 'w mount_state \<Rightarrow> (mount_error + path_op_log) option" where
  "collect_ops_since E ancestor s =
     (let m = fst s;
          start = (if \<not> log_is_empty (mi_ops_log m) then [mi_ops_log m] else []) in
      Option.bind (collect_loop E (snd s) (mi_secret_key m) ancestor (mi_link m) start) (\<lambda>r.
      Some (bindR r (\<lambda>all_logs.
        Inr (foldl (\<lambda>merged log. fst (merge merged log)) log_new (rev all_logs))))))"

text \<open>First loop of \<open>find_common_ancestor\<close>: the links of a chain; second: the first one in the set.\<close>

partial_function (option) chain_loop ::
  "('w, 'z) mount_ext_scheme \<Rightarrow> 'w \<Rightarrow> link \<Rightarrow> link list \<Rightarrow> (mount_error + link list) option" where
  "chain_loop E w l chain =
     (case get_manifest_from_blobs E l w of
        Inl e \<Rightarrow> Some (Inl e)
      | Inr manifest \<Rightarrow>
          (case m_previous manifest of
             Some prev \<Rightarrow> chain_loop E w prev (List.insert l chain)
           | None \<Rightarrow> Some (Inr (List.insert l chain))))"

partial_function (option) search_loop ::
  "('w, 'z) mount_ext_scheme \<Rightarrow> 'w \<Rightarrow> link list \<Rightarrow> link \<Rightarrow> (mount_error + link option) option" where
  "search_loop E w chain l =
     (if l \<in> set chain then Some (Inr (Some l))
      else case get_manifest_from_blobs E l w of
        Inl e \<Rightarrow> Some (Inl e)
      | Inr manifest \<Rightarrow>
          (case m_previous manifest of
             Some prev \<Rightarrow> search_loop E w chain prev
           | None \<Rightarrow> Some (Inr None)))"

definition mount_common_ancestor ::
  "('w, 'z) mount_ext_scheme \<Rightarrow> mount_inner \<Rightarrow> mount_inner \<Rightarrow> 'w \<Rightarrow> (mount_error + link option) option" where
  "mount_common_ancestor E m other w =
     Option.bind (chain_loop E w (mi_link m) []) (\<lambda>r.
     case r of Inl e \<Rightarrow> Some (Inl e) | Inr self_chain \<Rightarrow> search_loop E w self_chain (mi_link other))"

section \<open>Applying and merging\<close>

fun apply_ops ::
  "('w, 'z) mount_ext_scheme \<Rightarrow> (path \<times> path_operation) list \<Rightarrow> 'w mount_state \<Rightarrow>
     (mount_error + unit) \<times> 'w mount_state" where
  "apply_ops E [] s = (Inr (), s)"
| "apply_ops E ((p, op) # rest) s =
     (if po_content_link op \<noteq> None then
        (case mount_get E (push [RootDir] p) s of
           Inr _ \<Rightarrow> apply_ops E rest s
         | Inl (PathNotFound _) \<Rightarrow>
             apply_ops E rest ((fst s)\<lparr>mi_ops_log := fst (merge (mi_ops_log (fst s)) (from_operation op))\<rparr>, snd s)
         | Inl e \<Rightarrow> (Inl e, s))
      else if po_is_dir op \<and> po_type op = Mkdir then
        (case mount_mkdir E (push [RootDir] p) s of
           (Inr _, s') \<Rightarrow> apply_ops E rest s'
         | (Inl (PathAlreadyExists _), s') \<Rightarrow> apply_ops E rest s'
         | (Inl e, s') \<Rightarrow> (Inl e, s'))
      else apply_ops E rest s)"

definition apply_resolved_state ::
  "('w, 'z) mount_ext_scheme \<Rightarrow> path_op_log \<Rightarrow> 'w mount_state \<Rightarrow> (mount_error + unit) \<times> 'w mount_state" where
  "apply_resolved_state E merged_ops = apply_ops E (resolve_all merged_ops)"

text \<open>The last part of \<open>merge_from\<close>, once the operations of both sides are collected.\<close>

definition merge_collected ::
  "('w, 'z) mount_ext_scheme \<Rightarrow> resolver \<Rightarrow> path_op_log \<Rightarrow> path_op_log \<Rightarrow> 'w mount_state \<Rightarrow>
     (mount_error + merge_result \<times> link) \<times> 'w mount_state" where
  "merge_collected E resolve local_ops incoming_ops =
     bindS (read_state (\<lambda>(m, w). Inr (mi_peer_id m))) (\<lambda>peer_id.
     let (merged_ops, result) = merge_with_resolver local_ops incoming_ops resolve peer_id in
     bindS (apply_resolved_state E merged_ops) (\<lambda>_.
     bindS (update_inner (\<lambda>m. m\<lparr>mi_ops_log := fst (merge (mi_ops_log m) merged_ops)\<rparr>)) (\<lambda>_.
     bindS (mount_save E False) (\<lambda>(l, _, _). liftR (Inr (result, l))))))"

definition merge_from ::
  "('w, 'z) mount_ext_scheme \<Rightarrow> mount_inner \<Rightarrow> resolver \<Rightarrow> 'w mount_state \<Rightarrow>
     ((mount_error + merge_result \<times> link) \<times> 'w mount_state) option" where
  "merge_from E incoming resolve s =
     Option.bind (mount_common_ancestor E (fst s) incoming (snd s)) (\<lambda>r. case r of
       Inl e \<Rightarrow> Some (Inl e, s)
     | Inr ancestor \<Rightarrow>
     Option.bind (collect_ops_since E ancestor s) (\<lambda>r. case r of
       Inl e \<Rightarrow> Some (Inl e, s)
     | Inr local_ops \<Rightarrow>
     Option.bind (collect_ops_since E ancestor (incoming, snd s)) (\<lambda>r. case r of
       Inl e \<Rightarrow> Some (Inl e, s)
     | Inr incoming_ops \<Rightarrow> Some (merge_collected E resolve local_ops incoming_ops s))))"

section \<open>Chains of versions\<close>

text \<open>The links from a version back to the first one.\<close>

inductive version_chain :: "('w, 'z) mount_ext_scheme \<Rightarrow> 'w \<Rightarrow> link \<Rightarrow> link list \<Rightarrow> bool" for E w where
  genesis: "get_manifest_from_blobs E l w = Inr m \<Longrightarrow> m_previous m = None \<Longrightarrow> version_chain E w l [l]"
| later: "get_manifest_from_blobs E l w = Inr m \<Longrightarrow> m_previous m = Some p \<Longrightarrow>
    version_chain E w p ls \<Longrightarrow> version_chain E w l (l # ls)"

lemma version_chain_mono:
  assumes "version_chain E w l ls" and "blob_laws E" and "keeps_blobs E w w'"
  shows "version_chain E w' l ls"
  using assms(1) by induction
    (auto intro: version_chain.intros keeps_reads(1) [OF assms(2,3)])

lemma version_chain_save:
  assumes "mount_laws E" and "mount_ok E (m, w)"
    and "mount_save E pub (m, w) = (Inr (l, prev, h), (m', w'))" and "version_chain E w (mi_link m) ls"
  shows "version_chain E w' l (l # ls)"
proof -
  from assms(3) obtain man where save: "save_version E pub m w = (Inr (man, l), w')"
    by (auto simp: mount_save_Inr)
  from assms(1,2) save have man: "get_manifest_from_blobs E l w' = Inr man"
    "m_previous man = Some (mi_link m)" "keeps_blobs E w w'"
    by (rule save_version_Inr, blast)+
  then show ?thesis
    using version_chain_mono [OF assms(4) mount_laws_blob [OF assms(1)]] by (auto intro: version_chain.later)
qed

lemma chain_loop_chain:
  assumes "version_chain E w l ls"
  shows "\<exists>chain'. chain_loop E w l chain = Some (Inr chain') \<and> set chain' = set chain \<union> set ls"
  using assms
proof (induction arbitrary: chain)
  case (genesis l m)
  then show ?case
    by (subst chain_loop.simps) auto
next
  case (later l m p ls)
  show ?case
    using later.IH [of "List.insert l chain"] later.hyps by (subst chain_loop.simps) auto
qed

lemma search_loop_chain:
  assumes "version_chain E w l ls"
  shows "search_loop E w chain l = Some (Inr (find (\<lambda>x. x \<in> set chain) ls))"
  using assms
proof induction
  case (genesis l m)
  then show ?case
    by (subst search_loop.simps) auto
next
  case (later l m p ls)
  then show ?case
    by (subst search_loop.simps) auto
qed

lemma collect_loop_returns:
  assumes "version_chain E w l ls"
  shows "\<exists>r. collect_loop E w sk anc l logs = Some r"
  using assms
proof (induction arbitrary: logs)
  case (genesis l m)
  then show ?case
    by (subst collect_loop.simps) (auto split: sum.splits option.splits)
next
  case (later l m p ls)
  then show ?case
    by (subst collect_loop.simps) (auto split: sum.splits option.splits)
qed

section \<open>Collecting operations\<close>

text \<open>The log a version carries, as a reader with the key sees it.\<close>

definition version_logs ::
  "('w, 'z) mount_ext_scheme \<Rightarrow> 'w \<Rightarrow> secret_key \<Rightarrow> link \<Rightarrow> mount_error + path_op_log list" where
  "version_logs E w sk l =
     bindR (get_manifest_from_blobs E l w) (\<lambda>manifest.
     bindR (get_secret_for_manifest E manifest sk) (\<lambda>secret.
     case m_ops_log manifest of
       None \<Rightarrow> Inr []
     | Some ops_link \<Rightarrow> bindR (get_ops_log_from_blobs E ops_link secret w) (\<lambda>log. Inr [rebuild_clock log])))"

lemma collect_loop_chain:
  assumes "version_chain E w l ls"
    and "\<And>x. x \<in> set (takeWhile (\<lambda>x. anc \<noteq> Some x) ls) \<Longrightarrow> version_logs E w sk x = Inr (f x)"
  shows "collect_loop E w sk anc l logs =
    Some (Inr (logs @ concat (map f (takeWhile (\<lambda>x. anc \<noteq> Some x) ls))))"
  using assms
proof (induction arbitrary: logs)
  case (genesis l m)
  then show ?case
    by (subst collect_loop.simps) (auto simp: version_logs_def res_simps split: option.splits)
next
  case (later l m p ls)
  show ?case
  proof (cases "anc = Some l")
    case True
    then show ?thesis
      by (subst collect_loop.simps) simp
  next
    case False
    then have "version_logs E w sk l = Inr (f l)"
      and rest: "collect_loop E w sk anc p logs' =
        Some (Inr (logs' @ concat (map f (takeWhile (\<lambda>x. anc \<noteq> Some x) ls))))" for logs'
      using later by auto
    then show ?thesis
      using later.hyps False
      by (subst collect_loop.simps) (auto simp: version_logs_def res_simps split: option.splits)
  qed
qed

lemma keys_foldl_merge:
  "dom (bt_get (operations (foldl (\<lambda>merged log. fst (merge merged log)) l0 ls))) =
     dom (bt_get (operations l0)) \<union> (\<Union>l \<in> set ls. dom (bt_get (operations l)))"
  by (induction ls arbitrary: l0) (auto simp: get_merge)

lemma log_ok_foldl_merge:
  "log_ok l0 \<Longrightarrow> (\<forall>l \<in> set ls. log_ok l) \<Longrightarrow> log_ok (foldl (\<lambda>merged log. fst (merge merged log)) l0 ls)"
  by (induction ls arbitrary: l0) (auto intro: log_ok_merge)

text \<open>
  The common ancestor of two mounts is the most recent version of the other's chain that is
  also in this mount's chain; the search always returns, and finds nothing only when the chains
  are disjoint.
\<close>

theorem common_ancestor_is_latest:
  assumes "version_chain E w (mi_link m) ls" and "version_chain E w (mi_link other) ls'"
  shows "mount_common_ancestor E m other w = Some (Inr (find (\<lambda>l. l \<in> set ls) ls'))"
proof -
  from chain_loop_chain [OF assms(1), of "[]"] obtain chain where
    chain: "chain_loop E w (mi_link m) [] = Some (Inr chain)" "set chain = set ls"
    by auto
  then show ?thesis
    using search_loop_chain [OF assms(2), of chain] by (simp add: mount_common_ancestor_def)
qed

text \<open>Two versions on top of one first version, readable by a mirror.\<close>

definition fork_link :: "nat \<Rightarrow> link" where
  "fork_link i = link_new LD_CBOR_CODEC (replicate 32 (of_nat i))"

definition fork_manifest :: "nat \<Rightarrow> manifest" where
  "fork_manifest i = sample_manifest\<lparr>m_height := of_nat (min i 1), m_public := Some [],
     m_shares := [(CHR ''h'' # map (\<lambda>x. char_of (unat x)) sample_owner, share_new_mirror sample_owner)],
     m_previous := (if i = 0 then None else Some (fork_link 0)), m_name := replicate i CHR ''v''\<rparr>"

definition fork_store :: "sample_world mount_ext" where
  "fork_store = sample_ext [] [] [fork_manifest 0, fork_manifest 1, fork_manifest 2]"

definition fork_world :: sample_world where
  "fork_world = (3, [(link_hash (fork_link i), [of_nat i]). i \<leftarrow> [0, 1, 2]])"

definition fork_mount :: "nat \<Rightarrow> mount_inner" where
  "fork_mount i = sample_mount\<lparr>mi_link := fork_link i, mi_secret_key := sample_owner\<rparr>"

lemma fork_get:
  "i \<in> {0, 1, 2} \<Longrightarrow> get_manifest_from_blobs fork_store (fork_link i) fork_world = Inr (fork_manifest i)"
  by (auto simp: get_manifest_from_blobs_def fork_store_def fork_world_def fork_link_def check_stat_def
      blob_stat_def blob_get_def manifest_decode_def table_decode_def)

lemma fork_chain: "version_chain fork_store fork_world (fork_link (Suc i)) [fork_link (Suc i), fork_link 0]"
  if "i < 2"
proof (rule version_chain.later)
  show "get_manifest_from_blobs fork_store (fork_link (Suc i)) fork_world = Inr (fork_manifest (Suc i))"
    using that by (intro fork_get) auto
  show "m_previous (fork_manifest (Suc i)) = Some (fork_link 0)"
    by (simp add: fork_manifest_def)
  show "version_chain fork_store fork_world (fork_link 0) [fork_link 0]"
    by (rule version_chain.genesis [OF fork_get]) (simp_all add: fork_manifest_def sample_manifest_def)
qed

lemma fork_mount_link: "mi_link (fork_mount i) = fork_link i"
  by (simp add: fork_mount_def)

theorem common_ancestor_is_latest_witness:
  "mount_common_ancestor fork_store (fork_mount 1) (fork_mount 2) fork_world = Some (Inr (Some (fork_link 0)))"
  using common_ancestor_is_latest [of fork_store fork_world "fork_mount 1" _ "fork_mount 2"]
    fork_chain [of 0] fork_chain [of 1]
  by (simp add: fork_mount_link fork_link_def link_new_def numeral_2_eq_2)

text \<open>
  \<open>collect_ops_since\<close> returns exactly the operations since the ancestor: an operation id is in
  the result if and only if it is in the unsaved log or in the log of a version after the ancestor.
\<close>

theorem collect_ops_complete:
  assumes "version_chain E (snd s) (mi_link (fst s)) ls"
    and "\<And>x. x \<in> set (takeWhile (\<lambda>x. anc \<noteq> Some x) ls) \<Longrightarrow>
      version_logs E (snd s) (mi_secret_key (fst s)) x = Inr (f x)"
  shows "\<exists>log. collect_ops_since E anc s = Some (Inr log) \<and>
    (\<forall>i. bt_get (operations log) i \<noteq> None \<longleftrightarrow>
       bt_get (operations (mi_ops_log (fst s))) i \<noteq> None \<or>
       (\<exists>x \<in> set (takeWhile (\<lambda>x. anc \<noteq> Some x) ls). \<exists>l \<in> set (f x). bt_get (operations l) i \<noteq> None))"
proof -
  let ?start = "if \<not> log_is_empty (mi_ops_log (fst s)) then [mi_ops_log (fst s)] else []"
  let ?logs = "?start @ concat (map f (takeWhile (\<lambda>x. anc \<noteq> Some x) ls))"
  let ?log = "foldl (\<lambda>merged log. fst (merge merged log)) log_new (rev ?logs)"
  have res: "collect_ops_since E anc s = Some (Inr ?log)"
    using collect_loop_chain [OF assms, where logs = ?start] by (simp add: collect_ops_since_def Let_def)
  have "i \<in> dom (bt_get (operations ?log)) \<longleftrightarrow> (\<exists>l \<in> set ?logs. i \<in> dom (bt_get (operations l)))" for i
    unfolding keys_foldl_merge set_rev by (simp add: log_new_def del: set_append)
  then have "bt_get (operations ?log) i \<noteq> None \<longleftrightarrow> (\<exists>l \<in> set ?logs. bt_get (operations l) i \<noteq> None)" for i
    unfolding domIff .
  then show ?thesis
    using res by (auto simp: log_is_empty_def)
qed

theorem collect_ops_complete_witness:
  "\<exists>log. collect_ops_since fork_store (Some (fork_link 0)) (fork_mount 1, fork_world) = Some (Inr log)"
proof -
  have "version_logs fork_store fork_world sample_owner (fork_link 1) = Inr []"
    using fork_get [of 1]
    by (simp add: version_logs_def get_secret_for_manifest_def get_share_def fork_store_def public_def
        public_key_to_hex_def sample_owner_def fork_manifest_def share_new_mirror_def sh_role_def sample_manifest_def)
  then show ?thesis
    using collect_ops_complete [of fork_store "(fork_mount 1, fork_world)" "[fork_link 1, fork_link 0]"
        "Some (fork_link 0)" "\<lambda>_. []"] fork_chain [of 0]
    by (auto simp: fork_mount_def fork_link_def link_new_def)
qed

text \<open>
  C36: merging always returns: when both mounts stand on chains of versions that reach a first
  version, \<open>merge_from\<close> ends, with a result or an error.
\<close>

theorem merge_from_returns:
  assumes "version_chain E (snd s) (mi_link (fst s)) ls"
    and "version_chain E (snd s) (mi_link incoming) ls'"
  shows "merge_from E incoming resolve s \<noteq> None"
proof -
  from chain_loop_chain [OF assms(1), of "[]"] search_loop_chain [OF assms(2)]
  obtain a where a: "mount_common_ancestor E (fst s) incoming (snd s) = Some (Inr a)"
    by (auto simp: mount_common_ancestor_def)
  from collect_loop_returns [OF assms(1)] collect_loop_returns [OF assms(2)]
  obtain r r' where "collect_ops_since E a s = Some r" "collect_ops_since E a (incoming, snd s) = Some r'"
    unfolding collect_ops_since_def Let_def by (metis fst_conv snd_conv bind.bind_lunit)
  then show ?thesis
    by (auto simp: merge_from_def a split: sum.splits) (metis prod_cases3)
qed

theorem merge_from_returns_witness:
  "merge_from fork_store (fork_mount 2) last_write_wins (fork_mount 1, fork_world) \<noteq> None"
  using merge_from_returns [of fork_store "(fork_mount 1, fork_world)" _ "fork_mount 2"]
    fork_chain [of 0] fork_chain [of 1] by (simp add: fork_mount_link numeral_2_eq_2)

section \<open>Merging keeps what is there\<close>

text \<open>Operations on files stay within the version: its link, manifest and keys are kept.\<close>

definition same_version :: "'w mount_state \<Rightarrow> 'w mount_state \<Rightarrow> bool" where
  "same_version s s' \<longleftrightarrow> mi_link (fst s') = mi_link (fst s) \<and> mi_manifest (fst s') = mi_manifest (fst s) \<and>
     mi_height (fst s') = mi_height (fst s) \<and> mi_secret_key (fst s') = mi_secret_key (fst s) \<and>
     mi_peer_id (fst s') = mi_peer_id (fst s)"

lemma same_version_refl [simp]: "same_version s s"
  by (simp add: same_version_def)

lemma same_version_trans: "same_version a b \<Longrightarrow> same_version b c \<Longrightarrow> same_version a c"
  by (simp add: same_version_def)

definition within :: "('w mount_state \<Rightarrow> (mount_error + 'a) \<times> 'w mount_state) \<Rightarrow> bool" where
  "within f \<longleftrightarrow> (\<forall>s r s'. f s = (r, s') \<longrightarrow> same_version s s')"

lemma within_quiet: "quiet f \<Longrightarrow> within f"
  unfolding quiet_def within_def same_version_def by metis

lemma within_bind: "within m \<Longrightarrow> (\<And>x. within (f x)) \<Longrightarrow> within (bindS m f)"
  unfolding within_def bindS_def by (fastforce intro: same_version_trans split: prod.splits sum.splits)

lemma within_update: "(\<And>m w. same_version (m, w) (f m, w :: 'w)) \<Longrightarrow> within (update_inner f :: 'w mount_state \<Rightarrow> _)"
  unfolding within_def update_inner_def by auto

lemma within_cases:
  "(\<And>a b. within (g a b)) \<Longrightarrow> within (case p of (a, b) \<Rightarrow> g a b)"
  "within h \<Longrightarrow> within h' \<Longrightarrow> within (if c then h else h')"
  by (auto split: prod.split)

lemma mkdir_within: "within (mount_mkdir E p)"
  unfolding mount_mkdir_def
  by (intro within_bind within_cases within_update within_quiet [OF quiet_steps(1)]
      within_quiet [OF quiet_steps(2)] within_quiet [OF quiet_steps(3)])
    (simp add: same_version_def pin_one_all set_new_entry_def split: option.split)

lemma mkdir_same_version: "mount_mkdir E p s = (r, s') \<Longrightarrow> same_version s s'"
  using mkdir_within [of E p] unfolding within_def by blast

lemma mkdir_keeps_entries:
  assumes "mount_laws E" and "mount_ok E s" and "mount_mkdir E (push [RootDir] (rel_path ns)) s = (r, s')"
  shows "mount_ok E s'" and "mount_fs E s p = Some ob \<Longrightarrow> mount_fs E s' p = Some ob"
    and "same_version s s'"
proof -
  show "same_version s s'"
    using mkdir_same_version assms(3) .
  have "mount_ok E s' \<and> (mount_fs E s p = Some ob \<longrightarrow> mount_fs E s' p = Some ob)"
  proof (cases ns rule: rev_cases)
    case Nil
    then have "s' = s"
      using assms(3) by (cases s) (auto simp: mount_mkdir_def bindS_def liftR_def read_state_def)
    then show ?thesis
      using assms(2) by simp
  next
    case (snoc ms x)
    then have mk: "mount_mkdir E (abs_path (ms @ [x])) s = (r, s')"
      using assms(3) by simp
    show ?thesis
    proof (cases r)
      case (Inl e)
      then show ?thesis
        using mkdir_op.failure [OF assms(1,2)] mk by auto
    next
      case (Inr u)
      then have "mount_ok E s'" and above: "no_file_above ms (mount_fs E s)"
        and free: "mount_fs E s (ms @ [x]) = None"
        and fs: "mount_fs E s' = fs_set (ms @ [x]) fs_empty_dir (mount_fs E s)"
        using mkdir_op.success [OF assms(1,2) TrueI] mk by auto
      moreover have "mount_fs E s' p = Some ob" if "mount_fs E s p = Some ob"
      proof -
        have "\<not> prefix (ms @ [x]) p"
          using mount_fs_parents [OF that, of "ms @ [x]"] that free by (cases "ms @ [x] = p") (auto simp: prefix_order.less_le)
        moreover have "ob = FDir" if "prefix p (ms @ [x])"
          using above free \<open>mount_fs E s p = Some ob\<close> that
          by (cases ob) (auto simp: no_file_above_def)
        ultimately show ?thesis
          using that by (auto simp: fs fs_set_def)
      qed
      ultimately show ?thesis
        by blast
    qed
  qed
  then show "mount_ok E s'" and "mount_fs E s p = Some ob \<Longrightarrow> mount_fs E s' p = Some ob"
    by auto
qed

lemma mount_ok_log:
  "mount_ok E (m, w) \<Longrightarrow> log_ok l \<Longrightarrow> mount_ok E (m\<lparr>mi_ops_log := l\<rparr>, w)"
  "mount_fs E (m\<lparr>mi_ops_log := l\<rparr>, w) = mount_fs E (m, w)"
  by (simp_all add: mount_ok_def mount_fs_def)

lemma apply_file_op:
  assumes "po_content_link op \<noteq> None" and "apply_ops E ((p, op) # rest) s = (r, s')"
  shows "(\<exists>e. r = Inl e \<and> s' = s) \<or> apply_ops E rest s = (r, s') \<or>
    apply_ops E rest ((fst s)\<lparr>mi_ops_log := fst (merge (mi_ops_log (fst s)) (from_operation op))\<rparr>, snd s) = (r, s')"
  using assms by (auto split: sum.splits mount_error.splits)

lemma apply_other_op:
  assumes "po_content_link op = None" and "apply_ops E ((p, op) # rest) s = (r, s')"
  shows "apply_ops E rest s = (r, s') \<or>
    (\<exists>r1 s1. mount_mkdir E (push [RootDir] p) s = (r1, s1) \<and>
      ((\<exists>e. r = Inl e \<and> s' = s1) \<or> apply_ops E rest s1 = (r, s')))"
proof (cases "po_is_dir op \<and> po_type op = Mkdir")
  case True
  obtain r1 s1 where mk: "mount_mkdir E (push [RootDir] p) s = (r1, s1)"
    using surj_pair [of "mount_mkdir E (push [RootDir] p) s"] by auto
  show ?thesis
  proof (cases r1)
    case (Inl e)
    then show ?thesis
      using assms True mk by (cases e) auto
  qed (use assms True mk in auto)
qed (use assms in auto)

lemma apply_ops_keeps:
  assumes "mount_laws E"
  shows "mount_ok E s \<Longrightarrow> \<forall>(p, op) \<in> set ops. \<exists>ns. p = rel_path ns \<Longrightarrow> apply_ops E ops s = (r, s') \<Longrightarrow>
    mount_ok E s' \<and> (\<forall>p ob. mount_fs E s p = Some ob \<longrightarrow> mount_fs E s' p = Some ob) \<and>
    same_version s s' \<and> keeps_blobs E (snd s) (snd s')"
proof (induction ops arbitrary: s)
  case (Cons e ops)
  obtain p op ns where e: "e = (p, op)" "p = rel_path ns"
    using Cons.prems(2) by (cases e) auto
  note ap = Cons.prems(3) [unfolded e(1)]
  have IH: "mount_ok E s1 \<Longrightarrow> apply_ops E ops s1 = (r, s') \<Longrightarrow>
      mount_ok E s' \<and> (\<forall>p ob. mount_fs E s1 p = Some ob \<longrightarrow> mount_fs E s' p = Some ob) \<and>
      same_version s1 s' \<and> keeps_blobs E (snd s1) (snd s')" for s1
    using Cons.IH [of s1] Cons.prems(2) by simp
  show ?case
  proof (cases "po_content_link op = None")
    case False
    let ?log = "fst (merge (mi_ops_log (fst s)) (from_operation op))"
    have "log_ok ?log"
      using Cons.prems(1) by (intro log_ok_merge log_ok_from_operation) (simp add: mount_ok_def)
    then have "mount_ok E ((fst s)\<lparr>mi_ops_log := ?log\<rparr>, snd s)"
      using mount_ok_log(1) [of E "fst s" "snd s"] Cons.prems(1) by simp
    moreover have "mount_fs E ((fst s)\<lparr>mi_ops_log := ?log\<rparr>, snd s) = mount_fs E s"
      by (simp add: mount_fs_def)
    moreover have "same_version s ((fst s)\<lparr>mi_ops_log := ?log\<rparr>, snd s)"
      by (simp add: same_version_def)
    moreover note IH [of "((fst s)\<lparr>mi_ops_log := ?log\<rparr>, snd s)"] IH [of s]
    ultimately show ?thesis
      using apply_file_op [OF False ap] Cons.prems(1) by (elim disjE) (auto intro: same_version_trans)
  next
    case True
    from apply_other_op [OF True ap] show ?thesis
    proof (elim disjE exE conjE)
      assume "apply_ops E ops s = (r, s')"
      then show ?thesis
        using IH Cons.prems(1) by blast
    next
      fix r1 s1
      assume mk: "mount_mkdir E (push [RootDir] p) s = (r1, s1)"
      note step = mkdir_keeps_entries [OF assms Cons.prems(1) mk [unfolded e(2)]]
      have keep: "keeps_blobs E (snd s) (snd s1)"
        using keepingD [OF keeping_ops(2) [OF assms] mk] .
      {
        assume "apply_ops E ops s1 = (r, s')"
        then show ?thesis
          using IH [OF step(1)] step(2,3) keep by (blast intro: same_version_trans keeps_trans)
      next
        fix err
        assume "s' = s1"
        then show ?thesis
          using step keep by blast
      }
    qed
  qed
qed simp

text \<open>
  C23: merging never loses local files. When \<open>merge_from\<close> succeeds, every file and directory of the
  mount is still there with the same content, the invariant holds, the result has been saved as the
  next version of the chain under the link that is returned, and the operation log stored with that
  version has every operation of the merge. (The logs are well formed, and the paths in them plain:
  no \<open>..\<close> components.)
\<close>

theorem merge_keeps_local_files:
  assumes laws: "mount_laws E" and ok: "mount_ok E s"
    and chain: "version_chain E (snd s) (mi_link (fst s)) ls"
    and collected: "mount_common_ancestor E (fst s) incoming (snd s) = Some (Inr a)"
      "collect_ops_since E a s = Some (Inr lo)" "collect_ops_since E a (incoming, snd s) = Some (Inr io)"
    and wf: "log_ok lo" "log_ok io"
    and merged: "merged = fst (merge_with_resolver lo io resolve (mi_peer_id (fst s)))"
    and plain: "\<forall>(p, op) \<in> set (resolve_all merged). \<exists>ns. p = rel_path ns"
    and run: "merge_from E incoming resolve s = Some (Inr (res, l), s')"
  shows "mount_ok E s' \<and> (\<forall>p ob. mount_fs E s p = Some ob \<longrightarrow> mount_fs E s' p = Some ob) \<and>
    version_chain E (snd s') l (l # ls) \<and> mi_link (fst s') = l \<and>
    (\<forall>i. bt_get (operations merged) i \<noteq> None \<longrightarrow>
      (\<exists>ol k log. m_ops_log (mi_manifest (fst s')) = Some ol \<and>
        get_ops_log_from_blobs E ol k (snd s') = Inr log \<and> bt_get (operations log) i \<noteq> None))"
proof -
  note blob = mount_laws_blob [OF laws]
  obtain m' w' where s': "s' = (m', w')"
    by fastforce
  from run collected have "merge_collected E resolve lo io s = (Inr (res, l), (m', w'))"
    by (simp add: merge_from_def s')
  then obtain m1 w1 m2 pr h where ap: "apply_ops E (resolve_all merged) s = (Inr (), (m1, w1))"
    and m2: "m2 = m1\<lparr>mi_ops_log := fst (merge (mi_ops_log m1) merged)\<rparr>"
    and save: "mount_save E False (m2, w1) = (Inr (l, pr, h), (m', w'))"
    unfolding merge_collected_def apply_resolved_state_def merged
    by (cases s) (auto simp: res_simps Let_def split: prod.splits)
  from apply_ops_keeps [OF laws ok plain ap] have step: "mount_ok E (m1, w1)"
    "\<And>p ob. mount_fs E s p = Some ob \<Longrightarrow> mount_fs E (m1, w1) p = Some ob"
    "mi_link m1 = mi_link (fst s)" "keeps_blobs E (snd s) w1"
    by (auto simp: same_version_def)
  have "log_ok (mi_ops_log m2)"
    using step(1) wf by (simp add: m2 merged mount_ok_def log_ok_merge log_ok_merge_with_resolver)
  then have ok2: "mount_ok E (m2, w1)" "mount_fs E (m2, w1) = mount_fs E (m1, w1)"
    using step(1) by (simp_all add: m2 mount_ok_log)
  from save_keeps_mount [OF laws ok2(1) save] have saved: "mount_ok E (m', w')"
    "mount_fs E (m', w') = mount_fs E (m2, w1)" "mi_link m' = l"
    by auto
  have "version_chain E w' l (l # ls)"
    using version_chain_save [OF laws ok2(1) save] version_chain_mono [OF chain blob step(4)]
    by (simp add: m2 step(3))
  moreover have "\<exists>ol k log. m_ops_log (mi_manifest m') = Some ol \<and>
        get_ops_log_from_blobs E ol k w' = Inr log \<and> bt_get (operations log) i \<noteq> None"
    if i: "bt_get (operations merged) i \<noteq> None" for i
  proof -
    have log2: "operations (mi_ops_log m2) = operations (fst (merge (mi_ops_log m1) merged))"
      by (simp add: m2)
    have "bt_get (operations (mi_ops_log m2)) i \<noteq> None"
      using i by (auto simp: log2 get_merge)
    from save_stores_log [OF laws ok2(1) save this] this show ?thesis
      by metis
  qed
  ultimately show ?thesis
    using saved ok2(2) step(2) by (simp add: s')
qed

text \<open>A bucket merged with itself, from its first version.\<close>

definition self_world :: sample_world where
  "self_world = (0, [(replicate 32 0, [2])])"

lemma self_chain: "version_chain sample_store self_world (mi_link sample_bucket) [mi_link sample_bucket]"
  by (rule version_chain.genesis [where m = sample_manifest])
    (simp_all add: get_manifest_from_blobs_def sample_store_def self_world_def sample_bucket_def sample_mount_def
      link_default_def check_stat_def blob_stat_def blob_get_def manifest_decode_def table_decode_def
      sample_manifest_def)

lemma self_collect:
  "mount_common_ancestor sample_store sample_bucket sample_bucket self_world = Some (Inr (Some (mi_link sample_bucket)))"
  "collect_ops_since sample_store (Some (mi_link sample_bucket)) (sample_bucket, self_world) = Some (Inr log_new)"
proof -
  show "mount_common_ancestor sample_store sample_bucket sample_bucket self_world =
      Some (Inr (Some (mi_link sample_bucket)))"
    using chain_loop_chain [OF self_chain, of "[]"] search_loop_chain [OF self_chain]
    by (auto simp: mount_common_ancestor_def)
  have "log_is_empty (mi_ops_log sample_bucket)"
    by (simp add: log_is_empty_def sample_bucket_def sample_mount_def log_new_def)
  moreover have "collect_loop sample_store self_world sk (Some l) l logs = Some (Inr logs)" for sk l logs
    by (subst collect_loop.simps) simp
  ultimately show "collect_ops_since sample_store (Some (mi_link sample_bucket)) (sample_bucket, self_world) =
      Some (Inr log_new)"
    by (simp add: collect_ops_since_def Let_def)
qed

theorem merge_keeps_local_files_witness:
  "\<exists>s'. merge_from sample_store sample_bucket last_write_wins (sample_bucket, self_world) =
      Some (Inr (merge_result_new, link_new manifest_codec (replicate 32 5)), s') \<and> mount_ok sample_store s'"
proof -
  have merged: "fst (merge_with_resolver log_new log_new last_write_wins p) = log_new" for p
    by (simp add: merge_with_resolver_def log_new_def)
  have "\<exists>s'. merge_collected sample_store last_write_wins log_new log_new (sample_bucket, self_world) =
      (Inr (merge_result_new, link_new manifest_codec (replicate 32 5)), s')"
    by (simp add: merge_collected_def merge_with_resolver_def apply_resolved_state_def resolve_all_def
        group_by_path_def merge_def self_world_def save_run_defs)
  then obtain s' where run: "merge_from sample_store sample_bucket last_write_wins (sample_bucket, self_world) =
      Some (Inr (merge_result_new, link_new manifest_codec (replicate 32 5)), s')"
    by (auto simp: merge_from_def self_collect)
  have ok: "mount_ok sample_store (sample_bucket, self_world)"
    by (rule mount_ok_keeps [OF sample_bucket_ok mount_laws_blob [OF sample_store_laws]])
      (simp add: keeps_blobs_def sample_store_def)
  have "\<forall>(p, op) \<in> set (resolve_all log_new). \<exists>ns. p = rel_path ns"
    by (simp add: resolve_all_def group_by_path_def log_new_def)
  from merge_keeps_local_files [OF sample_store_laws ok, unfolded fst_conv snd_conv, OF self_chain self_collect(1)
      self_collect(2) self_collect(2) log_ok_new(1) log_ok_new(1) merged [symmetric] this run]
  have "mount_ok sample_store s'"
    by blast
  then show ?thesis
    using run by blast
qed

end
