(* ===== verification/Bucket_Log.thy ===== *)
theory Bucket_Log
  imports Manifest "HOL-Library.AList"
begin

text \<open>
  \<open>common/src/bucket_log\<close>: the log of the versions of each bucket that a peer has accepted. The
  trait \<open>BucketLogProvider\<close> (\<open>provider.rs\<close>) is the locale \<open>bucket_log\<close>: its operations and what an
  append promises. The in-memory provider (\<open>memory.rs\<close>) is modelled on hash maps as association
  lists and interprets the locale. Its lock is held for the whole of each operation; the error of
  a poisoned lock is not modelled.
\<close>

datatype bucket_log_error =
    Provider string
  | HeadNotFound u64
  | Conflict
  | InvalidAppend link link u64
  | LogPanic string

section \<open>The interface\<close>

text \<open>
  The default method \<open>head\<close> of the trait. The argument of \<open>unwrap_or\<close> is evaluated in any case, so
  a failing \<open>height\<close> fails the call also when a height is given.
\<close>

definition list_max :: "'a::linorder list \<Rightarrow> 'a option" where
  "list_max xs = (if xs = [] then None else Some (Max (set xs)))"

definition provider_head ::
  "(uuid \<Rightarrow> bucket_log_error + u64) \<Rightarrow> (uuid \<Rightarrow> u64 \<Rightarrow> bucket_log_error + link list) \<Rightarrow>
     uuid \<Rightarrow> u64 option \<Rightarrow> bucket_log_error + link \<times> u64" where
  "provider_head get_height get_heads i height =
     bindR (get_height i) (\<lambda>top.
     let h = (case height of Some x \<Rightarrow> x | None \<Rightarrow> top) in
     bindR (get_heads i h) (\<lambda>heads.
     bindR (ok_or (HeadNotFound h) (list_max heads)) (\<lambda>l. Inr (l, h))))"

text \<open>
  The contract. \<open>links s i h\<close> are the accepted links of bucket \<open>i\<close> at height \<open>h\<close>, read through
  \<open>heads\<close>. An append is accepted only when it extends an accepted version (or starts the bucket at
  height 0) and is new; it then adds that one link, and a rejected append adds nothing. \<open>fits\<close> says
  which links and heights the provider can represent: it keeps its invariant on those.
\<close>

locale bucket_log =
  fixes ok :: "'s \<Rightarrow> bool"
    and fits :: "link \<Rightarrow> u64 \<Rightarrow> bool"
    and empty :: 's
    and append :: "uuid \<Rightarrow> string \<Rightarrow> link \<Rightarrow> link option \<Rightarrow> u64 \<Rightarrow> bool \<Rightarrow> 's \<Rightarrow> (bucket_log_error + unit) \<times> 's"
    and heads :: "'s \<Rightarrow> uuid \<Rightarrow> u64 \<Rightarrow> bucket_log_error + link list"
    and height :: "'s \<Rightarrow> uuid \<Rightarrow> bucket_log_error + u64"
    and has :: "'s \<Rightarrow> uuid \<Rightarrow> link \<Rightarrow> bucket_log_error + u64 list"
  assumes empty_ok: "ok empty" and empty_heads: "heads empty i h = Inr []"
    and heads_total: "ok s \<Longrightarrow> \<exists>ls. heads s i h = Inr ls"
    and append_ok: "ok s \<Longrightarrow> append i nm cur prev h pub s = (r, s') \<Longrightarrow> r \<noteq> Inr () \<or> fits cur h \<Longrightarrow> ok s'"
    and append_rejected: "ok s \<Longrightarrow> append i nm cur prev h pub s = (Inl e, s') \<Longrightarrow> heads s' = heads s"
    and append_accepted: "ok s \<Longrightarrow> append i nm cur prev h pub s = (Inr (), s') \<Longrightarrow>
      cur \<notin> set (projr (heads s i h)) \<and>
      (case prev of None \<Rightarrow> h = 0 | Some p \<Rightarrow> h \<noteq> 0 \<and> p \<in> set (projr (heads s i (h - 1)))) \<and>
      (fits cur h \<longrightarrow> set (projr (heads s' i h)) = insert cur (set (projr (heads s i h)))) \<and>
      (\<forall>i' h'. (i', h') \<noteq> (i, h) \<longrightarrow> heads s' i' h' = heads s i' h')"
    and height_max: "ok s \<Longrightarrow> height s i =
      (if \<forall>h. heads s i h = Inr [] then Inl (HeadNotFound 0)
       else Inr (Max {h. heads s i h \<noteq> Inr []}))"
    and has_heights: "ok s \<Longrightarrow> \<exists>hs. has s i l = Inr hs \<and> set hs = {h. l \<in> set (projr (heads s i h))}"
begin

definition links :: "'s \<Rightarrow> uuid \<Rightarrow> u64 \<Rightarrow> link set" where
  "links s i h = set (projr (heads s i h))"

lemma heads_links: "ok s \<Longrightarrow> heads s i h = Inr [] \<longleftrightarrow> links s i h = {}"
  using heads_total [of s i h] by (auto simp: links_def)

lemma accepted_links:
  assumes "ok s" and "append i nm cur prev h pub s = (Inr (), s')" and "fits cur h"
  shows "links s' i' h' = (if i' = i \<and> h' = h then insert cur (links s i h) else links s i' h')"
  using append_accepted [OF assms(1,2)] assms(3) by (auto simp: links_def)

lemma rejected_links: "ok s \<Longrightarrow> append i nm cur prev h pub s = (Inl e, s') \<Longrightarrow> links s' = links s"
  using append_rejected by (auto simp: links_def fun_eq_iff)

text \<open>States reached from the empty log by appends, accepted (at a height within bounds) or not.\<close>

inductive reached :: "'s \<Rightarrow> bool" where
  reached_empty: "reached empty"
| reached_append: "reached s \<Longrightarrow> append i nm cur prev h pub s = (r, s') \<Longrightarrow> r \<noteq> Inr () \<or> fits cur h \<Longrightarrow>
    reached s'"

lemma reached_ok: "reached s \<Longrightarrow> ok s"
  by (induction rule: reached.induct) (auto intro: empty_ok append_ok)

text \<open>The log of a bucket has no gaps: below an accepted version there is one at every height.\<close>

lemma no_gap_below: "reached s \<Longrightarrow> links s i h \<noteq> {} \<Longrightarrow> h \<noteq> 0 \<Longrightarrow> links s i (h - 1) \<noteq> {}"
proof (induction arbitrary: i h rule: reached.induct)
  case reached_empty
  then show ?case
    by (simp add: links_def empty_heads)
next
  case (reached_append s j nm cur prev k pub r s')
  note ok = reached_ok [OF reached_append.hyps(1)]
  show ?case
  proof (cases r)
    case (Inl e)
    then show ?thesis
      using rejected_links [OF ok] reached_append by auto
  next
    case (Inr u)
    with reached_append.hyps(2) have ap: "append j nm cur prev k pub s = (Inr (), s')"
      by simp
    have fits: "fits cur k"
      using reached_append.hyps(3) Inr by simp
    show ?thesis
    proof (cases "i = j \<and> h = k")
      case True
      then have "links s i (h - 1) \<noteq> {}"
        using append_accepted [OF ok ap] reached_append.prems(2)
        by (auto simp: links_def split: option.splits)
      then show ?thesis
        by (simp add: accepted_links [OF ok ap fits])
    next
      case False
      then have "links s' i h = links s i h"
        by (auto simp: accepted_links [OF ok ap fits])
      then have "links s i (h - 1) \<noteq> {}"
        using reached_append.IH [of i h] reached_append.prems by simp
      then show ?thesis
        by (auto simp: accepted_links [OF ok ap fits])
    qed
  qed
qed

text \<open>The default method \<open>head\<close>: the greatest link at the greatest height.\<close>

lemma finite_heights: "finite {h. links s i h \<noteq> {}}"
  by (rule finite_subset [OF subset_UNIV]) simp

lemma head_spec:
  assumes "ok s"
  shows "provider_head (height s) (heads s) i None =
    (if \<forall>h. links s i h = {} then Inl (HeadNotFound 0)
     else let h = Max {h. links s i h \<noteq> {}} in Inr (Max (links s i h), h))"
proof (cases "\<forall>h. links s i h = {}")
  case True
  then show ?thesis
    using height_max [OF assms, of i] by (simp add: provider_head_def heads_links [OF assms])
next
  case False
  let ?top = "Max {h. links s i h \<noteq> {}}"
  have "?top \<in> {h. links s i h \<noteq> {}}"
    using False by (intro Max_in finite_heights) auto
  then obtain ls where "heads s i ?top = Inr ls" "ls \<noteq> []"
    using heads_total [OF assms, of i ?top] by (auto simp: links_def)
  then show ?thesis
    using False height_max [OF assms, of i]
    by (simp add: provider_head_def heads_links [OF assms] list_max_def links_def Let_def)
qed

end

section \<open>The in-memory provider (\<open>memory.rs\<close>)\<close>

text \<open>A \<open>HashMap\<close> is the list of its entries in the order of an iteration, without repeated keys.\<close>

abbreviation hm_insert :: "'k \<Rightarrow> 'v \<Rightarrow> ('k \<times> 'v) list \<Rightarrow> ('k \<times> 'v) list" where
  "hm_insert \<equiv> AList.update"

definition hm_or_default :: "'v \<Rightarrow> ('k \<times> 'v) list \<Rightarrow> 'k \<Rightarrow> 'v" where
  "hm_or_default d m k = (case map_of m k of Some v \<Rightarrow> v | None \<Rightarrow> d)"

record mem_log =
  ml_entries :: "(uuid \<times> (u64 \<times> link list) list) list"
  ml_max_heights :: "(uuid \<times> u64) list"
  ml_link_index :: "(uuid \<times> (link \<times> u64 list) list) list"
  ml_names :: "(uuid \<times> string) list"
  ml_published :: "(uuid \<times> (link \<times> bool) list) list"

definition mem_new :: mem_log where
  "mem_new = \<lparr>ml_entries = [], ml_max_heights = [], ml_link_index = [], ml_names = [], ml_published = []\<rparr>"

definition mem_exists :: "mem_log \<Rightarrow> uuid \<Rightarrow> bucket_log_error + bool" where
  "mem_exists s i = Inr (map_of (ml_entries s) i \<noteq> None)"

definition mem_heads :: "mem_log \<Rightarrow> uuid \<Rightarrow> u64 \<Rightarrow> bucket_log_error + link list" where
  "mem_heads s i h = Inr (case map_of (ml_entries s) i of
     None \<Rightarrow> [] | Some heights \<Rightarrow> hm_or_default [] heights h)"

text \<open>
  \<open>append\<close>: the name is stored and the bucket's entry created before the checks, so both stay
  behind when the append is rejected.
\<close>

definition mem_append ::
  "uuid \<Rightarrow> string \<Rightarrow> link \<Rightarrow> link option \<Rightarrow> u64 \<Rightarrow> bool \<Rightarrow> mem_log \<Rightarrow> (bucket_log_error + unit) \<times> mem_log" where
  "mem_append i nm current previous height published s =
     (let bucket_entries = hm_or_default [] (ml_entries s) i;
          s1 = s\<lparr>ml_names := hm_insert i nm (ml_names s), ml_entries := hm_insert i bucket_entries (ml_entries s)\<rparr>;
          check = (if (case map_of bucket_entries height of Some links \<Rightarrow> current \<in> set links | None \<Rightarrow> False)
                   then Inl Conflict
                   else case previous of
                     Some prev_link \<Rightarrow>
                       (if height = 0 then Inl (InvalidAppend current prev_link height)
                        else if \<not> (case map_of bucket_entries (height - 1) of
                                     Some links \<Rightarrow> prev_link \<in> set links | None \<Rightarrow> False)
                        then Inl (InvalidAppend current prev_link (height - 1))
                        else Inr ())
                   | None \<Rightarrow> (if height \<noteq> 0 then Inl (InvalidAppend current link_default height) else Inr ()))
      in case check of
           Inl e \<Rightarrow> (Inl e, s1)
         | Inr _ \<Rightarrow>
             (let bucket_entries' = hm_insert height (hm_or_default [] bucket_entries height @ [current]) bucket_entries;
                  index = hm_or_default [] (ml_link_index s) i;
                  flags = hm_or_default [] (ml_published s) i
              in (Inr (), s1\<lparr>
                ml_entries := hm_insert i bucket_entries' (ml_entries s1),
                ml_max_heights := (case map_of (ml_max_heights s) i of
                    Some current_max \<Rightarrow> if current_max < height then hm_insert i height (ml_max_heights s) else ml_max_heights s
                  | None \<Rightarrow> hm_insert i height (ml_max_heights s)),
                ml_link_index := hm_insert i (hm_insert current (hm_or_default [] index current @ [height]) index)
                  (ml_link_index s),
                ml_published := hm_insert i (hm_insert current published flags) (ml_published s)\<rparr>)))"

definition mem_height :: "mem_log \<Rightarrow> uuid \<Rightarrow> bucket_log_error + u64" where
  "mem_height s i = ok_or (HeadNotFound 0) (map_of (ml_max_heights s) i)"

definition mem_has :: "mem_log \<Rightarrow> uuid \<Rightarrow> link \<Rightarrow> bucket_log_error + u64 list" where
  "mem_has s i l = Inr (case map_of (ml_link_index s) i of
     None \<Rightarrow> [] | Some idx \<Rightarrow> hm_or_default [] idx l)"

definition mem_list_buckets :: "mem_log \<Rightarrow> bucket_log_error + uuid list" where
  "mem_list_buckets s = Inr (map fst (ml_entries s))"

definition mem_latest_published :: "mem_log \<Rightarrow> uuid \<Rightarrow> bucket_log_error + (link \<times> u64) option" where
  "mem_latest_published s i =
     (case (map_of (ml_published s) i, map_of (ml_entries s) i) of
        (Some published_map, Some entries) \<Rightarrow>
          Inr (foldl (\<lambda>best (height, links).
                foldl (\<lambda>best l.
                  if hm_or_default False published_map l \<and>
                     (case best of None \<Rightarrow> True | Some b \<Rightarrow> snd b < height)
                  then Some (l, height) else best) best links) None entries)
      | _ \<Rightarrow> Inr None)"

section \<open>The in-memory provider keeps the contract\<close>

text \<open>The derived tables agree with the entries.\<close>

definition mem_links :: "mem_log \<Rightarrow> uuid \<Rightarrow> u64 \<Rightarrow> link list" where
  "mem_links s i h = projr (mem_heads s i h)"

definition mem_distinct :: "mem_log \<Rightarrow> bool" where
  "mem_distinct s \<longleftrightarrow> (\<forall>i. distinct (map fst (hm_or_default [] (ml_entries s) i)))"

definition mem_ok :: "mem_log \<Rightarrow> bool" where
  "mem_ok s \<longleftrightarrow>
     (\<forall>i. map_of (ml_max_heights s) i =
        (if \<forall>h. mem_links s i h = [] then None else Some (Max {h. mem_links s i h \<noteq> []}))) \<and>
     (\<forall>i l. set (projr (mem_has s i l)) = {h. l \<in> set (mem_links s i h)}) \<and> mem_distinct s"

lemma mem_heads_links: "mem_heads s i h = Inr (mem_links s i h)"
  by (simp add: mem_links_def mem_heads_def)

lemma hm_or_default_update: "hm_or_default d (hm_insert k v m) k' = (if k' = k then v else hm_or_default d m k')"
  by (simp add: hm_or_default_def update_conv')

lemma mem_links_entries:
  "mem_links s i h = hm_or_default [] (hm_or_default [] (ml_entries s) i) h"
  by (simp add: mem_links_def mem_heads_def hm_or_default_def split: option.split)

lemma map_of_links: "(case map_of (hm_or_default [] (ml_entries s) i) h of Some links \<Rightarrow> l \<in> set links | None \<Rightarrow> False) \<longleftrightarrow>
    l \<in> set (mem_links s i h)"
  by (simp add: mem_links_entries hm_or_default_def split: option.split)

definition mem_check :: "uuid \<Rightarrow> link \<Rightarrow> link option \<Rightarrow> u64 \<Rightarrow> mem_log \<Rightarrow> bucket_log_error + unit" where
  "mem_check i cur prev h s =
     (if cur \<in> set (mem_links s i h) then Inl Conflict
      else case prev of
        Some p \<Rightarrow> (if h = 0 then Inl (InvalidAppend cur p h)
                   else if p \<notin> set (mem_links s i (h - 1)) then Inl (InvalidAppend cur p (h - 1)) else Inr ())
      | None \<Rightarrow> (if h \<noteq> 0 then Inl (InvalidAppend cur link_default h) else Inr ()))"

text \<open>\<open>append\<close> as a check followed by the updates.\<close>

lemma mem_append_eq:
  "mem_append i nm cur prev h pub s =
     (let b = hm_or_default [] (ml_entries s) i;
          s1 = s\<lparr>ml_names := hm_insert i nm (ml_names s), ml_entries := hm_insert i b (ml_entries s)\<rparr>
      in case mem_check i cur prev h s of
           Inl e \<Rightarrow> (Inl e, s1)
         | Inr _ \<Rightarrow> (Inr (), s1\<lparr>
             ml_entries := hm_insert i (hm_insert h (mem_links s i h @ [cur]) b) (ml_entries s1),
             ml_max_heights := (case map_of (ml_max_heights s) i of
                 Some t \<Rightarrow> if t < h then hm_insert i h (ml_max_heights s) else ml_max_heights s
               | None \<Rightarrow> hm_insert i h (ml_max_heights s)),
             ml_link_index := hm_insert i (hm_insert cur (projr (mem_has s i cur) @ [h])
               (hm_or_default [] (ml_link_index s) i)) (ml_link_index s),
             ml_published := hm_insert i (hm_insert cur pub (hm_or_default [] (ml_published s) i)) (ml_published s)\<rparr>))"
proof -
  have has: "projr (mem_has s i cur) = hm_or_default [] (hm_or_default [] (ml_link_index s) i) cur"
    by (simp add: mem_has_def hm_or_default_def split: option.split)
  show ?thesis
    unfolding mem_append_def mem_check_def Let_def map_of_links mem_links_entries has by simp
qed

lemma mem_append_rejected:
  assumes "mem_append i nm cur prev h pub s = (Inl e, s')"
  shows "mem_links s' = mem_links s" and "ml_max_heights s' = ml_max_heights s" and "mem_has s' = mem_has s"
  using assms by (auto simp: mem_append_eq Let_def fun_eq_iff mem_links_entries hm_or_default_update mem_has_def
      split: sum.splits)

lemma mem_append_accepted:
  assumes "mem_append i nm cur prev h pub s = (Inr (), s')"
  shows "mem_links s' j k = (if j = i \<and> k = h then mem_links s i h @ [cur] else mem_links s j k)"
    and "map_of (ml_max_heights s') j = (if j = i then Some (case map_of (ml_max_heights s) i of
      None \<Rightarrow> h | Some t \<Rightarrow> max t h) else map_of (ml_max_heights s) j)"
    and "projr (mem_has s' j l) = projr (mem_has s j l) @ (if j = i \<and> l = cur then [h] else [])"
    and "mem_check i cur prev h s = Inr ()"
proof -
  show "mem_check i cur prev h s = Inr ()"
    using assms by (auto simp: mem_append_eq Let_def split: sum.splits)
  with assms have s': "ml_entries s' = hm_insert i (hm_insert h (mem_links s i h @ [cur])
        (hm_or_default [] (ml_entries s) i)) (hm_insert i (hm_or_default [] (ml_entries s) i) (ml_entries s))"
    "ml_max_heights s' = (case map_of (ml_max_heights s) i of
       Some t \<Rightarrow> if t < h then hm_insert i h (ml_max_heights s) else ml_max_heights s
     | None \<Rightarrow> hm_insert i h (ml_max_heights s))"
    "ml_link_index s' = hm_insert i (hm_insert cur (projr (mem_has s i cur) @ [h])
       (hm_or_default [] (ml_link_index s) i)) (ml_link_index s)"
    by (auto simp: mem_append_eq Let_def)
  show "mem_links s' j k = (if j = i \<and> k = h then mem_links s i h @ [cur] else mem_links s j k)"
    by (simp add: mem_links_entries [of s'] s' hm_or_default_update) (simp add: mem_links_entries)
  show "map_of (ml_max_heights s') j = (if j = i then Some (case map_of (ml_max_heights s) i of
      None \<Rightarrow> h | Some t \<Rightarrow> max t h) else map_of (ml_max_heights s) j)"
    by (auto simp: s' update_conv' max_def split: option.split)
  have has: "projr (mem_has x j l) = hm_or_default [] (hm_or_default [] (ml_link_index x) j) l" for x j l
    by (simp add: mem_has_def hm_or_default_def split: option.split)
  show "projr (mem_has s' j l) = projr (mem_has s j l) @ (if j = i \<and> l = cur then [h] else [])"
    by (simp add: has s' hm_or_default_update)
qed

lemma mem_check_ok:
  "mem_check i cur prev h s = Inr () \<longleftrightarrow> cur \<notin> set (mem_links s i h) \<and>
     (case prev of None \<Rightarrow> h = 0 | Some p \<Rightarrow> h \<noteq> 0 \<and> p \<in> set (mem_links s i (h - 1)))"
  by (auto simp: mem_check_def split: option.splits)

lemma mem_links_new: "mem_links mem_new i h = []"
  by (simp add: mem_links_def mem_heads_def mem_new_def)

lemma mem_ok_new: "mem_ok mem_new"
  by (simp add: mem_ok_def mem_links_new) (simp add: mem_new_def mem_has_def mem_distinct_def hm_or_default_def)

lemma mem_distinct_append: "mem_distinct s \<Longrightarrow> mem_append i nm cur prev h pub s = (r, s') \<Longrightarrow> mem_distinct s'"
  by (auto simp: mem_append_eq mem_distinct_def Let_def hm_or_default_update distinct_update split: sum.splits)

lemma Max_insert_heights:
  fixes f :: "u64 \<Rightarrow> 'a list"
  assumes "\<And>k. g k = (if k = h then f h @ [c] else f k)"
  shows "Max {k. g k \<noteq> []} = (if \<forall>k. f k = [] then h else max (Max {k. f k \<noteq> []}) h)"
proof -
  have g: "{k. g k \<noteq> []} = insert h {k. f k \<noteq> []}"
    using assms by auto
  have fin: "finite {k. f k \<noteq> []}"
    by (rule finite_subset [OF subset_UNIV]) simp
  show ?thesis
    unfolding g using fin by (auto simp: max.commute)
qed

lemma mem_ok_accepted:
  assumes ok: "mem_ok s" and ap: "mem_append i nm cur prev h pub s = (Inr (), s')"
  shows "mem_ok s'"
proof -
  note acc = mem_append_accepted [OF ap]
  have "map_of (ml_max_heights s') j =
      (if \<forall>h. mem_links s' j h = [] then None else Some (Max {h. mem_links s' j h \<noteq> []}))" for j
  proof (cases "j = i")
    case True
    have "Max {k. mem_links s' i k \<noteq> []} = (if \<forall>k. mem_links s i k = [] then h
        else max (Max {k. mem_links s i k \<noteq> []}) h)"
      by (rule Max_insert_heights [where c = cur]) (simp add: acc(1))
    moreover have "\<not> (\<forall>k. mem_links s' i k = [])"
      using acc(1) [of i h] by (metis append_is_Nil_conv list.distinct(1))
    ultimately show ?thesis
      using ok True acc(2) [of i] by (auto simp: mem_ok_def)
  next
    case False
    then show ?thesis
      using ok acc(1,2) by (simp add: mem_ok_def)
  qed
  moreover have "set (projr (mem_has s' j l)) = {k. l \<in> set (mem_links s' j k)}" for j l
    using ok by (auto simp: acc(1,3) mem_ok_def)
  ultimately show ?thesis
    using ok mem_distinct_append [OF _ ap] by (simp add: mem_ok_def)
qed

lemma mem_ok_append: "mem_ok s \<Longrightarrow> mem_append i nm cur prev h pub s = (r, s') \<Longrightarrow> mem_ok s'"
proof (cases r)
  case (Inl e)
  assume "mem_ok s" "mem_append i nm cur prev h pub s = (r, s')"
  then show ?thesis
    using mem_append_rejected [of i nm cur prev h pub s e s'] mem_distinct_append [of s i nm cur prev h pub r s'] Inl
    by (simp add: mem_ok_def)
next
  case (Inr u)
  assume "mem_ok s" "mem_append i nm cur prev h pub s = (r, s')"
  then show ?thesis
    using mem_ok_accepted Inr by simp
qed

interpretation mem: bucket_log mem_ok "\<lambda>_ _. True" mem_new mem_append mem_heads mem_height mem_has
proof
  show "mem_ok mem_new"
    by (rule mem_ok_new)
  show "mem_heads mem_new i h = Inr []" for i h
    by (simp add: mem_heads_links mem_links_new)
  show "\<exists>ls. mem_heads s i h = Inr ls" for s i h
    by (simp add: mem_heads_links)
  show "mem_ok s'" if "mem_ok s" "mem_append i nm cur prev h pub s = (r, s')" for i nm cur prev h pub s r s'
    using that by (rule mem_ok_append)
  show "mem_heads s' = mem_heads s"
    if "mem_append i nm cur prev h pub s = (Inl e, s')" for i nm cur prev h pub s e s'
    using mem_append_rejected(1) [OF that] by (simp add: fun_eq_iff mem_heads_links)
  show "cur \<notin> set (projr (mem_heads s i h)) \<and>
      (case prev of None \<Rightarrow> h = 0 | Some p \<Rightarrow> h \<noteq> 0 \<and> p \<in> set (projr (mem_heads s i (h - 1)))) \<and>
      (True \<longrightarrow> set (projr (mem_heads s' i h)) = insert cur (set (projr (mem_heads s i h)))) \<and>
      (\<forall>i' h'. (i', h') \<noteq> (i, h) \<longrightarrow> mem_heads s' i' h' = mem_heads s i' h')"
    if "mem_append i nm cur prev h pub s = (Inr (), s')" for i nm cur prev h pub s s'
    using mem_append_accepted(1,4) [OF that] by (auto simp: mem_heads_links mem_check_ok split: option.splits)
  show "mem_height s i = (if \<forall>h. mem_heads s i h = Inr [] then Inl (HeadNotFound 0)
      else Inr (Max {h. mem_heads s i h \<noteq> Inr []}))" if "mem_ok s" for s i
    using that by (simp add: mem_height_def mem_heads_links mem_ok_def)
  show "\<exists>hs. mem_has s i l = Inr hs \<and> set hs = {h. l \<in> set (projr (mem_heads s i h))}"
    if "mem_ok s" for s i l
    using that by (cases "mem_has s i l") (auto simp: mem_heads_links mem_ok_def mem_has_def)
qed

lemma mem_links_set: "mem.links s i h = set (mem_links s i h)"
  by (simp add: mem.links_def mem_heads_links)

text \<open>The latest published version of the in-memory provider.\<close>

definition mem_flagged :: "mem_log \<Rightarrow> uuid \<Rightarrow> link \<Rightarrow> bool" where
  "mem_flagged s i l \<longleftrightarrow> hm_or_default False (hm_or_default [] (ml_published s) i) l"

text \<open>The scan keeps the first flagged link at the greatest height seen so far.\<close>

definition scan_best :: "(link \<Rightarrow> bool) \<Rightarrow> (link \<times> u64) option \<Rightarrow> (link \<times> u64) list \<Rightarrow> (link \<times> u64) option" where
  "scan_best flag = foldl (\<lambda>best (l, h).
     if flag l \<and> (case best of None \<Rightarrow> True | Some b \<Rightarrow> snd b < h) then Some (l, h) else best)"

lemma scan_best_spec:
  "case scan_best flag best xs of
     None \<Rightarrow> best = None \<and> (\<forall>(l, h) \<in> set xs. \<not> flag l)
   | Some (l, h) \<Rightarrow> (best = Some (l, h) \<or> (l, h) \<in> set xs \<and> flag l) \<and>
       (\<forall>b. best = Some b \<longrightarrow> snd b \<le> h) \<and> (\<forall>(l', h') \<in> set xs. flag l' \<longrightarrow> h' \<le> h)"
proof (induction xs arbitrary: best)
  case Nil
  then show ?case
    by (simp add: scan_best_def split: option.split)
next
  case (Cons x xs)
  obtain l h where x: "x = (l, h)"
    by fastforce
  let ?best = "if flag l \<and> (case best of None \<Rightarrow> True | Some b \<Rightarrow> snd b < h) then Some (l, h) else best"
  have step: "scan_best flag best (x # xs) = scan_best flag ?best xs"
    by (simp add: scan_best_def x)
  show ?case
    using Cons.IH [of ?best] unfolding step
    by (cases "flag l"; cases best; cases "scan_best flag ?best xs") (auto simp: x split: if_splits)
qed

lemma latest_published_scan:
  "mem_latest_published s i =
     (case (map_of (ml_published s) i, map_of (ml_entries s) i) of
        (Some flags, Some entries) \<Rightarrow>
          Inr (scan_best (hm_or_default False flags) None (concat (map (\<lambda>(h, ls). map (\<lambda>l. (l, h)) ls) entries)))
      | _ \<Rightarrow> Inr None)"
proof -
  have inner: "foldl (\<lambda>best l. if f l \<and> (case best of None \<Rightarrow> True | Some b \<Rightarrow> snd b < h) then Some (l, h) else best) best ls =
      scan_best f best (map (\<lambda>l. (l, h)) ls)" for f h best and ls :: "link list"
    by (simp add: scan_best_def foldl_map)
  have app: "scan_best f best (xs @ ys) = scan_best f (scan_best f best xs) ys" for f best xs ys
    by (simp add: scan_best_def)
  have "foldl (\<lambda>best (height, links). foldl (\<lambda>best l.
      if f l \<and> (case best of None \<Rightarrow> True | Some b \<Rightarrow> snd b < height) then Some (l, height) else best) best links) best entries =
      scan_best f best (concat (map (\<lambda>(h, ls). map (\<lambda>l. (l, h)) ls) entries))" for f best and entries :: "(u64 \<times> link list) list"
    by (induction entries arbitrary: best) (auto simp: inner app, simp add: scan_best_def)
  then show ?thesis
    by (simp add: mem_latest_published_def split: option.split)
qed

text \<open>
  The answer is an accepted version that was appended as published, and no published version is
  higher.
\<close>

lemma latest_published_accepted:
  assumes "mem_ok s"
  shows "case projr (mem_latest_published s i) of
      None \<Rightarrow> \<forall>h l. l \<in> set (mem_links s i h) \<longrightarrow> \<not> mem_flagged s i l
    | Some (l, h) \<Rightarrow> l \<in> set (mem_links s i h) \<and> mem_flagged s i l \<and>
        (\<forall>h' l'. l' \<in> set (mem_links s i h') \<and> mem_flagged s i l' \<longrightarrow> h' \<le> h)"
proof (cases "map_of (ml_published s) i")
  case None
  then show ?thesis
    by (simp add: latest_published_scan mem_flagged_def hm_or_default_def)
next
  case (Some flags)
  show ?thesis
  proof (cases "map_of (ml_entries s) i")
    case None
    then show ?thesis
      using Some by (simp add: latest_published_scan mem_links_entries hm_or_default_def)
  next
    case entries: (Some entries)
    define xs where "xs = concat (map (\<lambda>(h, ls). map (\<lambda>l. (l, h)) ls) entries)"
    have "distinct (map fst entries)"
      using assms entries by (auto simp: mem_ok_def mem_distinct_def hm_or_default_def split: option.splits)
    then have mem: "(l, h) \<in> set xs \<longleftrightarrow> l \<in> set (mem_links s i h)" for l h
      using entries by (force simp: xs_def mem_links_entries hm_or_default_def split: option.split dest: map_of_SomeD)
    have flag: "hm_or_default False flags = mem_flagged s i"
      using Some by (simp add: mem_flagged_def hm_or_default_def fun_eq_iff)
    have "projr (mem_latest_published s i) = scan_best (mem_flagged s i) None xs"
      using Some entries by (simp add: latest_published_scan flag xs_def)
    then show ?thesis
      using scan_best_spec [where flag = "mem_flagged s i" and best = None and xs = xs] by (force simp flip: mem split: option.splits)
  qed
qed

section \<open>Properties\<close>

text \<open>States of a provider that some sequence of appends leads to, each accepted or rejected.\<close>

inductive mem_reachable :: "mem_log \<Rightarrow> bool" where
  initial: "mem_reachable mem_new"
| appended: "mem_reachable s \<Longrightarrow> mem_append i nm cur prev h pub s = (r, s') \<Longrightarrow> mem_reachable s'"

lemma mem_reachable_snd: "mem_reachable s \<Longrightarrow> mem_reachable (snd (mem_append i nm cur prev h pub s))"
  by (rule appended) (auto simp: prod_eq_iff)

lemma mem_reachable_reached: "mem_reachable s \<Longrightarrow> mem.reached s"
  by (induction rule: mem_reachable.induct) (auto intro: mem.reached.intros)

text \<open>
  The log of a bucket is a chain without gaps: in every reachable state of the provider, an
  accepted version above height 0 has an accepted version one below it, so that \<open>height\<close> counts the
  versions of a history.
\<close>

theorem bucket_log_no_gaps:
  assumes "mem_reachable s" and "mem_links s i h \<noteq> []" and "h \<noteq> 0"
  shows "mem_links s i (h - 1) \<noteq> []"
  using mem.no_gap_below [OF mem_reachable_reached [OF assms(1)], of i h] assms(2,3)
  by (simp add: mem_links_set)

theorem bucket_log_no_gaps_witness:
  "mem_links (snd (mem_append 0 [] (link_new 1 [2]) (Some (link_new 1 [1])) 1 False
     (snd (mem_append 0 [] (link_new 1 [1]) None 0 False mem_new)))) 0 (1 - 1) \<noteq> []"
proof (rule bucket_log_no_gaps)
  let ?s = "snd (mem_append 0 [] (link_new 1 [1]) None 0 False mem_new)"
  let ?s' = "snd (mem_append 0 [] (link_new 1 [2]) (Some (link_new 1 [1])) 1 False ?s)"
  show "mem_reachable ?s'"
    by (intro mem_reachable_snd initial)
  show "mem_links ?s' 0 1 \<noteq> []"
    by (simp add: mem_append_def mem_new_def mem_links_def mem_heads_def hm_or_default_def)
qed simp

text \<open>
  The canonical head. For a bucket with accepted versions \<open>head\<close> returns the greatest link at
  the greatest height; it is an accepted version, and no accepted version is higher. Without
  versions it fails with \<open>HeadNotFound(0)\<close>.
\<close>

theorem mem_head_is_highest:
  assumes "mem_reachable s"
  shows "case provider_head (mem_height s) (mem_heads s) i None of
      Inr (l, h) \<Rightarrow> l \<in> set (mem_links s i h) \<and> (\<forall>l' \<in> set (mem_links s i h). l' \<le> l) \<and>
        (\<forall>h'. mem_links s i h' \<noteq> [] \<longrightarrow> h' \<le> h)
    | Inl e \<Rightarrow> e = HeadNotFound 0 \<and> (\<forall>h. mem_links s i h = [])"
proof -
  note ok = mem.reached_ok [OF mem_reachable_reached [OF assms]]
  show ?thesis
  proof (cases "\<forall>h. mem_links s i h = []")
    case True
    then show ?thesis
      by (simp add: mem.head_spec [OF ok] mem_links_set)
  next
    case False
    let ?top = "Max {h. mem_links s i h \<noteq> []}"
    have fin: "finite {h. mem_links s i h \<noteq> []}"
      by (rule finite_subset [OF subset_UNIV]) simp
    have top: "?top \<in> {h. mem_links s i h \<noteq> []}"
      using False by (intro Max_in fin) auto
    have head: "provider_head (mem_height s) (mem_heads s) i None = Inr (Max (set (mem_links s i ?top)), ?top)"
      using False by (simp add: mem.head_spec [OF ok] mem_links_set Let_def)
    have "Max (set (mem_links s i ?top)) \<in> set (mem_links s i ?top)"
      using top by (intro Max_in) auto
    then show ?thesis
      unfolding head using fin by auto
  qed
qed

theorem mem_head_is_highest_witness:
  "provider_head (mem_height (snd (mem_append 0 [] (link_new 1 [1]) None 0 False mem_new)))
     (mem_heads (snd (mem_append 0 [] (link_new 1 [1]) None 0 False mem_new))) 0 None = Inr (link_new 1 [1], 0)"
proof -
  let ?s = "snd (mem_append 0 [] (link_new 1 [1]) None 0 False mem_new)"
  have links: "mem_links ?s 0 h = (if h = 0 then [link_new 1 [1]] else [])" for h
    by (simp add: mem_append_def mem_new_def mem_links_def mem_heads_def hm_or_default_def)
  have "mem_reachable ?s"
    by (intro mem_reachable_snd initial)
  from mem_head_is_highest [OF this, of 0] show ?thesis
    unfolding links by (auto split: sum.splits if_splits)
qed

text \<open>
  A rejected append is not quite without trace: for a bucket the provider does not know, the
  rejection leaves an empty entry, after which \<open>exists\<close> answers true for a bucket without versions.
\<close>

theorem rejected_append_creates_bucket:
  assumes "mem_append i nm cur prev h pub s = (Inl e, s')"
  shows "mem_exists s' i = Inr True \<and> mem_links s' = mem_links s"
  using mem_append_rejected(1) [OF assms] assms
  by (auto simp: mem_append_eq Let_def mem_exists_def update_conv' split: sum.splits)

theorem rejected_append_creates_bucket_witness:
  "mem_exists mem_new 7 = Inr False \<and>
   mem_exists (snd (mem_append 7 [] link_default None 3 False mem_new)) 7 = Inr True"
proof -
  have "fst (mem_append 7 [] link_default None 3 False mem_new) = Inl (InvalidAppend link_default link_default 3)"
    by (simp add: mem_append_def mem_new_def hm_or_default_def)
  then have "mem_append 7 [] link_default None 3 False mem_new =
      (Inl (InvalidAppend link_default link_default 3), snd (mem_append 7 [] link_default None 3 False mem_new))"
    by (simp add: prod_eq_iff)
  from rejected_append_creates_bucket [OF this] show ?thesis
    by (simp add: mem_exists_def mem_new_def)
qed

end
