(* ===== verification/Peer.thy ===== *)
theory Peer
  imports Persist Bucket_Log
begin

text \<open>
  \<open>common/src/peer/peer_inner.rs\<close>, the job types of \<open>peer/sync\<close>, the job queue of
  \<open>daemon/src/sync_provider.rs\<close> and the ping exchange of \<open>peer/protocol/messages/ping.rs\<close>.

  A peer is generic over its bucket log provider: the trait is the record \<open>log_provider\<close>, and the
  locale \<open>peer_log\<close> ties its operations to the contract of \<open>Bucket_Log\<close>. The sync provider is the
  daemon's, which puts jobs on a bounded queue. The network is the argument \<open>net\<close> of the operations
  that send: it takes a recipient and a ping and returns the reply or an error.
\<close>

section \<open>Jobs and their queue\<close>

record sync_target =
  st_link :: link
  st_height :: u64
  st_peer_ids :: "public_key list"

record sync_bucket_job =
  sb_bucket_id :: uuid
  sb_target :: sync_target

record download_pins_job =
  dp_pins_link :: link
  dp_peer_ids :: "public_key list"

record ping_peer_job =
  pp_bucket_id :: uuid
  pp_peer_id :: public_key

datatype sync_job =
    SyncBucket sync_bucket_job
  | DownloadPins download_pins_job
  | PingPeer ping_peer_job

text \<open>
  The text of \<open>InvalidManifestInChain\<close> is the message of the error it carries; here it carries the
  error. \<open>ProvenancePanic\<close> is the \<open>expect\<close> on the author.
\<close>

datatype provenance_error =
    InvalidSignature
  | AuthorNotInShares
  | AuthorNotWriter
  | InvalidManifestInChain link provenance_error
  | ProvenancePanic string

datatype queue_error = QueueFull | QueueDisconnected

text \<open>The causes behind the \<open>anyhow\<close> errors of the peer.\<close>

datatype sync_error =
    SyncLog bucket_log_error
  | SyncBlobs blobs_error
  | SyncDownload link blobs_error
  | SyncProvenance provenance_error
  | SyncAppend u64 bucket_log_error
  | SyncPins blobs_error
  | SyncQueue queue_error
  | SyncKey key_error
  | SyncNet string
  | SyncPanic string

text \<open>
  The flume channel: its capacity, the jobs that wait, and whether the receiver is still there.
  (\<open>bounded(0)\<close> also hands a job to a worker that is already waiting; the daemon does not use it.)
\<close>

record job_queue =
  jq_capacity :: "nat option"
  jq_jobs :: "sync_job list"
  jq_connected :: bool

definition queue_new :: "nat option \<Rightarrow> job_queue" where
  "queue_new max_queue_size = \<lparr>jq_capacity = max_queue_size, jq_jobs = [], jq_connected = True\<rparr>"

definition queue_full :: "job_queue \<Rightarrow> bool" where
  "queue_full q \<longleftrightarrow> (case jq_capacity q of None \<Rightarrow> False | Some n \<Rightarrow> n \<le> length (jq_jobs q))"

definition queue_execute :: "sync_job \<Rightarrow> job_queue \<Rightarrow> (queue_error + unit) \<times> job_queue" where
  "queue_execute j q =
     (if \<not> jq_connected q then (Inl QueueDisconnected, q)
      else if queue_full q then (Inl QueueFull, q)
      else (Inr (), q\<lparr>jq_jobs := jq_jobs q @ [j]\<rparr>))"

section \<open>Providers and peers\<close>

record 'l log_provider =
  lp_exists :: "'l \<Rightarrow> uuid \<Rightarrow> bucket_log_error + bool"
  lp_heads :: "'l \<Rightarrow> uuid \<Rightarrow> u64 \<Rightarrow> bucket_log_error + link list"
  lp_append :: "uuid \<Rightarrow> string \<Rightarrow> link \<Rightarrow> link option \<Rightarrow> u64 \<Rightarrow> bool \<Rightarrow> 'l \<Rightarrow> (bucket_log_error + unit) \<times> 'l"
  lp_height :: "'l \<Rightarrow> uuid \<Rightarrow> bucket_log_error + u64"
  lp_has :: "'l \<Rightarrow> uuid \<Rightarrow> link \<Rightarrow> bucket_log_error + u64 list"
  lp_list_buckets :: "'l \<Rightarrow> bucket_log_error + uuid list"
  lp_latest_published :: "'l \<Rightarrow> uuid \<Rightarrow> bucket_log_error + (link \<times> u64) option"

definition lp_head :: "'l log_provider \<Rightarrow> 'l \<Rightarrow> uuid \<Rightarrow> bucket_log_error + link \<times> u64" where
  "lp_head L l i = provider_head (lp_height L l) (lp_heads L l) i None"

definition mem_provider :: "mem_log log_provider" where
  "mem_provider = \<lparr>lp_exists = mem_exists, lp_heads = mem_heads, lp_append = mem_append, lp_height = mem_height,
     lp_has = mem_has, lp_list_buckets = mem_list_buckets, lp_latest_published = mem_latest_published\<rparr>"

record 'l peer =
  pr_log :: 'l
  pr_secret_key :: secret_key
  pr_queue :: job_queue

type_synonym ('l, 'w) peer_state = "'l peer \<times> 'w"

definition dispatch :: "sync_job \<Rightarrow> 'l peer \<Rightarrow> (queue_error + unit) \<times> 'l peer" where
  "dispatch j p = (case queue_execute j (pr_queue p) of (r, q) \<Rightarrow> (r, p\<lparr>pr_queue := q\<rparr>))"

section \<open>The ping exchange\<close>

record ping_message =
  pm_bucket_id :: uuid
  pm_link :: link
  pm_height :: u64

datatype ping_reply_status = NotFound | Ahead link u64 | Behind link u64 | InSync

record ping_reply =
  py_bucket_id :: uuid
  py_status :: ping_reply_status

text \<open>
  What an error of the log is to the callers: a panic of the provider (\<open>LogPanic\<close>) is no value that
  they could handle and goes through all of them.
\<close>

definition log_error :: "(bucket_log_error \<Rightarrow> 'e) \<Rightarrow> (string \<Rightarrow> 'e) \<Rightarrow> bucket_log_error \<Rightarrow> 'e" where
  "log_error f panic e = (case e of LogPanic msg \<Rightarrow> panic msg | _ \<Rightarrow> f e)"

definition handle_message :: "'l log_provider \<Rightarrow> ping_message \<Rightarrow> 'l peer \<Rightarrow> sync_error + ping_reply" where
  "handle_message L ping p =
     bindR (case lp_head L (pr_log p) (pm_bucket_id ping) of
              Inl e \<Rightarrow> log_error (\<lambda>_. Inr NotFound) (\<lambda>msg. Inl (SyncPanic msg)) e
            | Inr (l, h) \<Rightarrow> Inr (if h < pm_height ping then Behind l h
                else if h = pm_height ping then InSync else Ahead l h)) (\<lambda>status.
     Inr \<lparr>py_bucket_id = pm_bucket_id ping, py_status = status\<rparr>)"

text \<open>Whom to download from: the peers of our version if it can be read, else the other side only.\<close>

definition known_peers ::
  "('w, 'z) blob_ext_scheme \<Rightarrow> link \<Rightarrow> public_key \<Rightarrow> 'w \<Rightarrow> sync_error + public_key list" where
  "known_peers E our_link other w =
     (case get_cbor E (manifest_decode E) (link_hash our_link) w of
        Inr manifest \<Rightarrow> map_err SyncPanic (get_peer_ids E manifest)
      | Inl _ \<Rightarrow> Inr [other])"

text \<open>A failing dispatch is only logged.\<close>

definition dispatch_logged :: "sync_job \<Rightarrow> 'l peer \<Rightarrow> 'l peer" where
  "dispatch_logged j p = snd (dispatch j p)"

definition handle_message_side_effect ::
  "('w, 'z) blob_ext_scheme \<Rightarrow> public_key \<Rightarrow> ping_message \<Rightarrow> ping_reply \<Rightarrow> ('l, 'w) peer_state \<Rightarrow>
     (sync_error + unit) \<times> ('l, 'w) peer_state" where
  "handle_message_side_effect E sender ping pong s =
     (case s of (p, w) \<Rightarrow>
      case py_status pong of
        Behind our_link our_height \<Rightarrow>
          (case known_peers E our_link sender w of
             Inl e \<Rightarrow> (Inl e, (p, w))
           | Inr peer_ids \<Rightarrow>
               (Inr (), (dispatch_logged (SyncBucket \<lparr>sb_bucket_id = pm_bucket_id ping, sb_target =
                  \<lparr>st_link = pm_link ping, st_height = pm_height ping, st_peer_ids = peer_ids\<rparr>\<rparr>) p, w)))
      | NotFound \<Rightarrow>
          (Inr (), (dispatch_logged (SyncBucket \<lparr>sb_bucket_id = pm_bucket_id ping, sb_target =
             \<lparr>st_link = pm_link ping, st_height = pm_height ping, st_peer_ids = [sender]\<rparr>\<rparr>) p, w))
      | _ \<Rightarrow> (Inr (), (p, w)))"

definition handle_reply ::
  "('w, 'z) blob_ext_scheme \<Rightarrow> 'l log_provider \<Rightarrow> public_key \<Rightarrow> ping_reply \<Rightarrow> ('l, 'w) peer_state \<Rightarrow>
     (sync_error + unit) \<times> ('l, 'w) peer_state" where
  "handle_reply E L recipient pong s =
     (case s of (p, w) \<Rightarrow>
      case py_status pong of
        Ahead l h \<Rightarrow>
          (case (case lp_head L (pr_log p) (py_bucket_id pong) of
                   Inr (our_link, _) \<Rightarrow> known_peers E our_link recipient w
                 | Inl e \<Rightarrow> log_error (\<lambda>_. Inr [recipient]) (\<lambda>msg. Inl (SyncPanic msg)) e) of
             Inl e \<Rightarrow> (Inl e, (p, w))
           | Inr peer_ids \<Rightarrow>
               (Inr (), (dispatch_logged (SyncBucket \<lparr>sb_bucket_id = py_bucket_id pong, sb_target =
                  \<lparr>st_link = l, st_height = h, st_peer_ids = peer_ids\<rparr>\<rparr>) p, w)))
      | _ \<Rightarrow> (Inr (), (p, w)))"

text \<open>The responder: reply first, then the side effect, whose failure does not fail the request.\<close>

definition handle_ping ::
  "('w, 'z) blob_ext_scheme \<Rightarrow> 'l log_provider \<Rightarrow> public_key \<Rightarrow> ping_message \<Rightarrow> ('l, 'w) peer_state \<Rightarrow>
     (sync_error + ping_reply) \<times> ('l, 'w) peer_state" where
  "handle_ping E L sender ping s =
     (case handle_message L ping (fst s) of
        Inl e \<Rightarrow> (Inl e, s)
      | Inr reply \<Rightarrow> (Inr reply, snd (handle_message_side_effect E sender ping reply s)))"

type_synonym 'w network = "public_key \<Rightarrow> ping_message \<Rightarrow> 'w \<Rightarrow> (string + ping_reply) \<times> 'w"

definition ping_send ::
  "'w network \<Rightarrow> ('w, 'z) blob_ext_scheme \<Rightarrow> 'l log_provider \<Rightarrow> public_key \<Rightarrow> ping_message \<Rightarrow>
     ('l, 'w) peer_state \<Rightarrow> (sync_error + ping_reply) \<times> ('l, 'w) peer_state" where
  "ping_send net E L recipient request s =
     (case s of (p, w) \<Rightarrow>
      case net recipient request w of
        (Inl e, w') \<Rightarrow> (Inl (SyncNet e), (p, w'))
      | (Inr response, w') \<Rightarrow>
          (case handle_reply E L recipient response (p, w') of
             (Inl e, s') \<Rightarrow> (Inl e, s')
           | (Inr _, s') \<Rightarrow> (Inr response, s')))"

definition ping_peer_execute ::
  "'w network \<Rightarrow> ('w, 'z) blob_ext_scheme \<Rightarrow> 'l log_provider \<Rightarrow> ping_peer_job \<Rightarrow> ('l, 'w) peer_state \<Rightarrow>
     (sync_error + unit) \<times> ('l, 'w) peer_state" where
  "ping_peer_execute net E L job s =
     (case lp_head L (pr_log (fst s)) (pp_bucket_id job) of
        Inl e \<Rightarrow> (log_error (\<lambda>_. Inr ()) (\<lambda>msg. Inl (SyncPanic msg)) e, s)
      | Inr (our_link, our_height) \<Rightarrow>
          (case ping_send net E L (pp_peer_id job)
                  \<lparr>pm_bucket_id = pp_bucket_id job, pm_link = our_link, pm_height = our_height\<rparr> s of
             (Inr pong, s') \<Rightarrow> (Inr (), s')
           | (Inl e, s') \<Rightarrow> (Inl e, s')))"

section \<open>Operations of a peer\<close>

text \<open>The loop of \<open>ping\<close> over the keys of the shares; dispatch errors are logged and passed over.\<close>

fun ping_keys ::
  "('w, 'z) crypto_ext_scheme \<Rightarrow> uuid \<Rightarrow> string \<Rightarrow> string list \<Rightarrow> 'l peer \<Rightarrow> (sync_error + unit) \<times> 'l peer" where
  "ping_keys E i our_key [] p = (Inr (), p)"
| "ping_keys E i our_key (k # ks) p =
     (if k = our_key then ping_keys E i our_key ks p
      else case public_key_from_hex E k of
        Inl (KeyPanic e) \<Rightarrow> (Inl (SyncPanic e), p)
      | Inl e \<Rightarrow> (Inl (SyncKey e), p)
      | Inr pk \<Rightarrow> ping_keys E i our_key ks
          (dispatch_logged (PingPeer \<lparr>pp_bucket_id = i, pp_peer_id = pk\<rparr>) p))"

definition peer_ping ::
  "('w, 'z) blob_ext_scheme \<Rightarrow> 'l log_provider \<Rightarrow> uuid \<Rightarrow> ('l, 'w) peer_state \<Rightarrow>
     (sync_error + unit) \<times> ('l, 'w) peer_state" where
  "peer_ping E L i s =
     (case s of (p, w) \<Rightarrow>
      case lp_head L (pr_log p) i of
        Inl e \<Rightarrow> (Inl (log_error SyncLog SyncPanic e), s)
      | Inr (head_link, _) \<Rightarrow>
          (case get_cbor E (manifest_decode E) (link_hash head_link) w of
             Inl e \<Rightarrow> (Inl (SyncBlobs e), s)
           | Inr manifest \<Rightarrow>
               (case ping_keys E i (public_key_to_hex E (public E (pr_secret_key p)))
                       (map fst (m_shares manifest)) p of
                  (r, p') \<Rightarrow> (r, (p', w)))))"

text \<open>
  \<open>ping_and_collect\<close> pings the other keys and collects the answers. The pings run as concurrent
  tasks; here they run in the order in which they are started. A ping that fails, or whose task
  panics, is left out; a key that is no curve point panics before any answer is collected. \<open>late\<close>
  says that the given timeout passes before the last answer: the tasks go on, the call fails.
\<close>

fun parse_keys :: "('w, 'z) crypto_ext_scheme \<Rightarrow> string list \<Rightarrow> sync_error + (string \<times> public_key) list" where
  "parse_keys E [] = Inr []"
| "parse_keys E (k # ks) =
     (case public_key_from_hex E k of
        Inl (KeyPanic e) \<Rightarrow> Inl (SyncPanic e)
      | Inl _ \<Rightarrow> parse_keys E ks
      | Inr pk \<Rightarrow> bindR (parse_keys E ks) (\<lambda>rest. Inr ((k, pk) # rest)))"

fun collect_pings ::
  "'w network \<Rightarrow> ('w, 'z) blob_ext_scheme \<Rightarrow> 'l log_provider \<Rightarrow> ping_message \<Rightarrow> (string \<times> public_key) list \<Rightarrow>
     ('l, 'w) peer_state \<Rightarrow> (string \<rightharpoonup> ping_reply_status) \<Rightarrow> (string \<rightharpoonup> ping_reply_status) \<times> ('l, 'w) peer_state" where
  "collect_pings net E L ping [] s results = (results, s)"
| "collect_pings net E L ping ((k, pk) # rest) s results =
     (case ping_send net E L pk ping s of
        (Inr reply, s') \<Rightarrow> collect_pings net E L ping rest s' (results(k \<mapsto> py_status reply))
      | (Inl _, s') \<Rightarrow> collect_pings net E L ping rest s' results)"

definition ping_and_collect ::
  "'w network \<Rightarrow> bool \<Rightarrow> ('w, 'z) blob_ext_scheme \<Rightarrow> 'l log_provider \<Rightarrow> uuid \<Rightarrow> ('l, 'w) peer_state \<Rightarrow>
     (sync_error + (string \<rightharpoonup> ping_reply_status)) \<times> ('l, 'w) peer_state" where
  "ping_and_collect net late E L i s =
     (case s of (p, w) \<Rightarrow>
      case lp_head L (pr_log p) i of
        Inl e \<Rightarrow> (Inl (log_error SyncLog SyncPanic e), s)
      | Inr (head_link, head_height) \<Rightarrow>
          (case get_cbor E (manifest_decode E) (link_hash head_link) w of
             Inl e \<Rightarrow> (Inl (SyncBlobs e), s)
           | Inr manifest \<Rightarrow>
               (let our_key = public_key_to_hex E (public E (pr_secret_key p)) in
                case parse_keys E (filter (\<lambda>k. k \<noteq> our_key) (map fst (m_shares manifest))) of
                  Inl e \<Rightarrow> (Inl e, s)
                | Inr peers \<Rightarrow>
                    (case collect_pings net E L \<lparr>pm_bucket_id = i, pm_link = head_link, pm_height = head_height\<rparr>
                            peers s Map.empty of
                       (results, s') \<Rightarrow>
                         (if late then (Inl (SyncNet ''Ping collection timed out''), s')
                          else (Inr results, s'))))))"

definition peer_mount ::
  "('w, 'z) mount_ext_scheme \<Rightarrow> 'l log_provider \<Rightarrow> uuid \<Rightarrow> ('l, 'w) peer_state \<Rightarrow> mount_error + mount_inner" where
  "peer_mount E L i s =
     (case lp_head L (pr_log (fst s)) i of
        Inl e \<Rightarrow> Inl (log_error (\<lambda>_. MtDefault ''Failed to get current head'') MtPanic e)
      | Inr (l, _) \<Rightarrow> mount_load E l (pr_secret_key (fst s)) (snd s))"

definition mount_for_read ::
  "('w, 'z) mount_ext_scheme \<Rightarrow> 'l log_provider \<Rightarrow> uuid \<Rightarrow> ('l, 'w) peer_state \<Rightarrow> mount_error + mount_inner" where
  "mount_for_read E L i s =
     (case s of (p, w) \<Rightarrow>
      case lp_head L (pr_log p) i of
        Inl e \<Rightarrow> Inl (log_error (\<lambda>_. MtDefault ''Failed to get current head'') MtPanic e)
      | Inr (head_link, _) \<Rightarrow>
          (let our_role = (case load_manifest E head_link w of
                 Inl _ \<Rightarrow> None
               | Inr m \<Rightarrow> map_option sh_role (get_share E m (public E (pr_secret_key p)))) in
           case our_role of
             Some Owner \<Rightarrow> peer_mount E L i s
           | _ \<Rightarrow>
               (case lp_latest_published L (pr_log p) i of
                  Inl e \<Rightarrow> Inl (log_error (\<lambda>_. MtDefault ''Failed to get latest published'') MtPanic e)
                | Inr None \<Rightarrow> Inl (MtDefault ''No published version available'')
                | Inr (Some (l, _)) \<Rightarrow> mount_load E l (pr_secret_key p) w)))"

text \<open>The notification loop of \<open>save_mount\<close>: keys that do not parse are skipped, and so are we.\<close>

fun notify_peers ::
  "('w, 'z) crypto_ext_scheme \<Rightarrow> uuid \<Rightarrow> public_key \<Rightarrow> string list \<Rightarrow> 'l peer \<Rightarrow> (mount_error + unit) \<times> 'l peer" where
  "notify_peers E i our_public_key [] p = (Inr (), p)"
| "notify_peers E i our_public_key (k # ks) p =
     (case public_key_from_hex E k of
        Inl (KeyPanic e) \<Rightarrow> (Inl (MtPanic e), p)
      | Inl _ \<Rightarrow> notify_peers E i our_public_key ks p
      | Inr pk \<Rightarrow>
          (if pk = our_public_key then notify_peers E i our_public_key ks p
           else notify_peers E i our_public_key ks
             (dispatch_logged (PingPeer \<lparr>pp_bucket_id = i, pp_peer_id = pk\<rparr>) p)))"

text \<open>
  \<open>save_mount\<close>: the peer, the mount that is saved and the world. The mount is saved first; when the
  append is then refused, the mount has moved on and the log has not.
\<close>

definition save_mount ::
  "('w, 'z) mount_ext_scheme \<Rightarrow> 'l log_provider \<Rightarrow> bool \<Rightarrow> 'l peer \<Rightarrow> 'w mount_state \<Rightarrow>
     (mount_error + link) \<times> 'l peer \<times> 'w mount_state" where
  "save_mount E L do_publish p s =
     (let i = m_id (mi_manifest (fst s)); nm = m_name (mi_manifest (fst s)) in
      case mount_save E do_publish s of
        (Inl e, s') \<Rightarrow> (Inl e, (p, s'))
      | (Inr (l, previous_link, height), s') \<Rightarrow>
          (let manifest = mi_manifest (fst s') in
           case lp_append L i nm l (Some previous_link) height (is_published manifest) (pr_log p) of
             (Inl e, log') \<Rightarrow> (Inl (MtDefault ''Failed to append to log''), (p\<lparr>pr_log := log'\<rparr>, s'))
           | (Inr _, log') \<Rightarrow>
               (case notify_peers E i (public E (pr_secret_key p)) (map fst (m_shares manifest))
                       (p\<lparr>pr_log := log'\<rparr>) of
                  (Inl e, p') \<Rightarrow> (Inl e, (p', s'))
                | (Inr _, p') \<Rightarrow> (Inr l, (p', s')))))"


section \<open>The queue\<close>

definition queue_ok :: "job_queue \<Rightarrow> bool" where
  "queue_ok q \<longleftrightarrow> (case jq_capacity q of None \<Rightarrow> True | Some n \<Rightarrow> length (jq_jobs q) \<le> n)"

lemma queue_ok_execute: "queue_ok q \<Longrightarrow> queue_execute j q = (r, q') \<Longrightarrow> queue_ok q'"
  by (auto simp: queue_ok_def queue_execute_def queue_full_def split: if_splits option.splits)

lemma dispatch_frame:
  assumes "dispatch j p = (r, p')"
  shows "pr_log p' = pr_log p" and "pr_secret_key p' = pr_secret_key p"
    and "jq_capacity (pr_queue p') = jq_capacity (pr_queue p)"
    and "queue_ok (pr_queue p) \<Longrightarrow> queue_ok (pr_queue p')"
  using assms
  by (auto simp: dispatch_def queue_execute_def queue_ok_def queue_full_def split: prod.splits if_splits option.splits)

lemma dispatch_logged_frame [simp]:
  "pr_log (dispatch_logged j p) = pr_log p" "pr_secret_key (dispatch_logged j p) = pr_secret_key p"
  "jq_capacity (pr_queue (dispatch_logged j p)) = jq_capacity (pr_queue p)"
  "queue_ok (pr_queue p) \<Longrightarrow> queue_ok (pr_queue (dispatch_logged j p))"
  using dispatch_frame [of j p "fst (dispatch j p)"] by (auto simp: dispatch_logged_def)

text \<open>A queue that takes a job: the receiver is there and there is room.\<close>

definition accepts :: "'l peer \<Rightarrow> bool" where
  "accepts p \<longleftrightarrow> jq_connected (pr_queue p) \<and> \<not> queue_full (pr_queue p)"

lemma dispatch_accepts:
  "accepts p \<Longrightarrow> dispatch_logged j p = p\<lparr>pr_queue := (pr_queue p)\<lparr>jq_jobs := jq_jobs (pr_queue p) @ [j]\<rparr>\<rparr>"
  by (simp add: dispatch_logged_def dispatch_def queue_execute_def accepts_def)

text \<open>The jobs of a batch that a queue takes: those that fit, in order.\<close>

definition fitting :: "job_queue \<Rightarrow> sync_job list \<Rightarrow> sync_job list" where
  "fitting q js =
     (if jq_connected q
      then (case jq_capacity q of None \<Rightarrow> js | Some n \<Rightarrow> take (n - length (jq_jobs q)) js) else [])"

definition enqueue :: "sync_job list \<Rightarrow> 'l peer \<Rightarrow> 'l peer" where
  "enqueue js p = p\<lparr>pr_queue := (pr_queue p)\<lparr>jq_jobs := jq_jobs (pr_queue p) @ fitting (pr_queue p) js\<rparr>\<rparr>"

lemma enqueue_Nil [simp]: "enqueue [] p = p"
  by (simp add: enqueue_def fitting_def split: option.split)

lemma enqueue_Cons: "enqueue (j # js) p = enqueue js (dispatch_logged j p)"
proof -
  have "take (n - k) (j # js) = (if n \<le> k then [] else j # take (n - Suc k) js)" for n k
    by (simp add: take_Cons' Suc_diff_Suc)
  then show ?thesis
    by (auto simp: enqueue_def dispatch_logged_def dispatch_def queue_execute_def queue_full_def fitting_def
        split: option.splits)
qed

section \<open>Peers over a provider that keeps the contract\<close>

text \<open>
  What a peer relies on beyond the contract of the log: a bucket with versions exists, and the
  latest published version is one of them.
\<close>

locale peer_log = bucket_log ok fits emp "lp_append L" "lp_heads L" "lp_height L" "lp_has L"
  for ok :: "'l \<Rightarrow> bool" and fits :: "link \<Rightarrow> u64 \<Rightarrow> bool" and emp :: 'l and L :: "'l log_provider" +
  assumes exists_versions: "ok s \<Longrightarrow> lp_heads L s i h \<noteq> Inr [] \<Longrightarrow> lp_exists L s i = Inr True"
    and published_accepted: "ok s \<Longrightarrow> lp_latest_published L s i = Inr (Some (l, h)) \<Longrightarrow>
      l \<in> set (projr (lp_heads L s i h))"
begin

lemma head_links:
  assumes "ok s" and "lp_head L s i = Inr (l, h)"
  shows "l \<in> links s i h" and "l' \<in> links s i h' \<Longrightarrow> h' \<le> h" and "l' \<in> links s i h \<Longrightarrow> l' \<le> l"
proof -
  have eq: "h = Max {h. links s i h \<noteq> {}}" "l = Max (links s i h)" and ex: "\<not> (\<forall>h. links s i h = {})"
    using assms(2) by (auto simp: lp_head_def head_spec [OF assms(1)] Let_def split: if_splits)
  have "h \<in> {h. links s i h \<noteq> {}}"
    unfolding eq(1) using ex by (intro Max_in finite_heights) auto
  then show "l \<in> links s i h"
    unfolding eq(2) by (intro Max_in) (auto simp: links_def)
  show "h' \<le> h" if "l' \<in> links s i h'"
    unfolding eq(1) using that by (intro Max_ge finite_heights) auto
  show "l' \<le> l" if "l' \<in> links s i h"
    unfolding eq(2) using that by (intro Max_ge) (simp_all add: links_def)
qed

lemma headI:
  assumes "ok s" and "l \<in> links s i h" and "\<And>h'. links s i h' \<noteq> {} \<Longrightarrow> h' \<le> h"
    and "\<And>l'. l' \<in> links s i h \<Longrightarrow> l' \<le> l"
  shows "lp_head L s i = Inr (l, h)"
proof -
  have "Max {h. links s i h \<noteq> {}} = h"
    using assms(2,3) by (intro Max_eqI finite_heights) auto
  moreover have "Max (links s i h) = l"
    using assms(2,4) by (intro Max_eqI) (auto simp: links_def)
  ultimately show ?thesis
    using assms(1,2) by (auto simp: lp_head_def head_spec Let_def)
qed

text \<open>Appending on top of the head makes the appended version the head.\<close>

lemma append_head:
  assumes ok: "ok s" and head: "lp_head L s i = Inr (prev, h)" and bound: "h \<noteq> - 1" "fits l (h + 1)"
    and ap: "lp_append L i nm l (Some prev) (h + 1) pub s = (Inr (), s')"
  shows "lp_head L s' i = Inr (l, h + 1)"
proof -
  have links: "links s' i' h' = (if i' = i \<and> h' = h + 1 then insert l (links s i (h + 1)) else links s i' h')" for i' h'
    by (rule accepted_links [OF ok ap bound(2)])
  have above: "h < h + 1"
    using bound(1) by (rule u64_less_Suc)
  have none: "links s i h' = {}" if "h < h'" for h'
    using head_links(2) [OF ok head] that by fastforce
  have "h' \<le> h + 1" if "links s' i h' \<noteq> {}" for h'
    using that none [of h'] above by (cases "h < h'") (auto simp: links split: if_splits)
  then show ?thesis
    using none [OF above] append_ok [OF ok ap] bound(2) by (intro headI) (auto simp: links)
qed

end

interpretation mem_peer: peer_log mem_ok "\<lambda>_ _. True" mem_new mem_provider
proof -
  have base: "bucket_log mem_ok (\<lambda>_ _. True) mem_new (lp_append mem_provider) (lp_heads mem_provider)
      (lp_height mem_provider) (lp_has mem_provider)"
    using mem.bucket_log_axioms by (simp add: mem_provider_def)
  show "peer_log mem_ok (\<lambda>_ _. True) mem_new mem_provider"
  proof (rule peer_log.intro [OF base], unfold_locales)
    show "lp_exists mem_provider s i = Inr True" if "lp_heads mem_provider s i h \<noteq> Inr []" for s i h
      using that by (auto simp: mem_provider_def mem_exists_def mem_heads_def split: option.splits)
    show "l \<in> set (projr (lp_heads mem_provider s i h))"
      if "mem_ok s" "lp_latest_published mem_provider s i = Inr (Some (l, h))" for s i l h
      using latest_published_accepted [OF that(1), of i] that(2)
      by (simp add: mem_provider_def mem_heads_links)
  qed
qed

lemma mem_peer_links [simp]: "mem_peer.links s i h = set (mem_links s i h)"
  by (simp add: mem_provider_def mem_links_set)

lemma mem_provider_sel [simp]:
  "lp_exists mem_provider = mem_exists" "lp_heads mem_provider = mem_heads"
  "lp_append mem_provider = mem_append" "lp_height mem_provider = mem_height" "lp_has mem_provider = mem_has"
  "lp_list_buckets mem_provider = mem_list_buckets"
  "lp_latest_published mem_provider = mem_latest_published"
  by (simp_all add: mem_provider_def)

section \<open>Saving through a peer\<close>

lemma notify_peers_frame:
  assumes "notify_peers E i us ks p = (r, p')"
  shows "pr_log p' = pr_log p \<and> pr_secret_key p' = pr_secret_key p \<and>
    jq_capacity (pr_queue p') = jq_capacity (pr_queue p) \<and> (queue_ok (pr_queue p) \<longrightarrow> queue_ok (pr_queue p'))"
  using assms
  by (induction E i us ks p rule: notify_peers.induct)
    (auto split: sum.splits key_error.splits if_splits)

text \<open>Whom \<open>save_mount\<close> notifies: the keys of the shares that can be read, other than our own.\<close>

definition other_members :: "('w, 'z) crypto_ext_scheme \<Rightarrow> public_key \<Rightarrow> string list \<Rightarrow> public_key list" where
  "other_members E us ks =
     filter (\<lambda>pk. pk \<noteq> us) (concat (map (\<lambda>k. case public_key_from_hex E k of Inr pk \<Rightarrow> [pk] | Inl _ \<Rightarrow> []) ks))"

lemma notify_peers_enqueue:
  "notify_peers E i us ks p = (Inr u, p') \<Longrightarrow>
     p' = enqueue (map (\<lambda>pk. PingPeer \<lparr>pp_bucket_id = i, pp_peer_id = pk\<rparr>) (other_members E us ks)) p"
  by (induction E i us ks p rule: notify_peers.induct)
    (auto simp: other_members_def enqueue_Cons split: sum.splits key_error.splits if_splits)

lemma save_mount_Inr:
  assumes "save_mount E L pub p (m, w) = (Inr l, (p', (m', w')))"
  obtains prev h log' where "mount_save E pub (m, w) = (Inr (l, prev, h), (m', w'))"
    and "lp_append L (m_id (mi_manifest m)) (m_name (mi_manifest m)) l (Some prev) h
      (is_published (mi_manifest m')) (pr_log p) = (Inr (), log')"
    and "pr_log p' = log'" and "pr_secret_key p' = pr_secret_key p"
    and "pr_queue p' = pr_queue (enqueue (map (\<lambda>pk. PingPeer \<lparr>pp_bucket_id = m_id (mi_manifest m), pp_peer_id = pk\<rparr>)
      (other_members E (public E (pr_secret_key p)) (map fst (m_shares (mi_manifest m'))))) p)"
  using assms
  by (auto simp: save_mount_def Let_def enqueue_def split: prod.splits sum.splits dest!: notify_peers_enqueue)

text \<open>
  C4: saving through a peer advances its log. When the saved mount stands on the head of its bucket
  and the height does not overflow, the new head is the saved version, one higher: a stored manifest
  that points to the old head and whose signature by the saver verifies. The peer, being an owner,
  mounts it with the same files and operations, and its queue has got a ping for every other member
  whose key can be read, as far as they fit.
\<close>

theorem save_mount_advances_head:
  assumes laws: "mount_laws E" and ok: "mount_ok E (m, w)" and log: "mem_ok (pr_log p)"
    and head: "lp_head mem_provider (pr_log p) (m_id (mi_manifest m)) = Inr (mi_link m, mi_height m)"
    and bound: "mi_height m \<noteq> - 1"
    and owner: "get_share E (mi_manifest m) (public E (pr_secret_key p)) = Some sh" "sh_role sh = Owner"
    and run: "save_mount E mem_provider pub p (m, w) = (Inr l, (p', (m', w')))"
  shows "lp_head mem_provider (pr_log p') (m_id (mi_manifest m)) = Inr (l, mi_height m + 1) \<and> mem_ok (pr_log p') \<and>
    (\<exists>man. load_manifest E l w' = Inr man \<and> m_previous man = Some (mi_link m) \<and> m_height man = mi_height m + 1 \<and>
      m_author man = Some (public E (mi_secret_key m)) \<and> verify_signature E man = Inr True \<and> is_published man = pub) \<and>
    pr_queue p' = (pr_queue p)\<lparr>jq_jobs := jq_jobs (pr_queue p) @ fitting (pr_queue p)
      (map (\<lambda>pk. PingPeer \<lparr>pp_bucket_id = m_id (mi_manifest m), pp_peer_id = pk\<rparr>)
        (other_members E (public E (pr_secret_key p)) (map fst (m_shares (mi_manifest m)))))\<rparr> \<and>
    (\<exists>m''. peer_mount E mem_provider (m_id (mi_manifest m)) (p', w') = Inr m'' \<and> mount_ok E (m'', w') \<and>
      mount_fs E (m'', w') = mount_fs E (m, w) \<and> operations (mi_ops_log m'') = operations (mi_ops_log m))"
proof -
  from run obtain prev h where save: "mount_save E pub (m, w) = (Inr (l, prev, h), (m', w'))"
    and ap: "lp_append mem_provider (m_id (mi_manifest m)) (m_name (mi_manifest m)) l (Some prev) h
      (is_published (mi_manifest m')) (pr_log p) = (Inr (), pr_log p')"
    and key: "pr_secret_key p' = pr_secret_key p"
    and queue: "pr_queue p' = pr_queue (enqueue (map (\<lambda>pk. PingPeer \<lparr>pp_bucket_id = m_id (mi_manifest m), pp_peer_id = pk\<rparr>)
      (other_members E (public E (pr_secret_key p)) (map fst (m_shares (mi_manifest m'))))) p)"
    by (elim save_mount_Inr) blast
  have eqs: "prev = mi_link m" "h = mi_height m + 1"
    using save_keeps_mount [OF laws ok save] by auto
  have head': "lp_head mem_provider (pr_log p') (m_id (mi_manifest m)) = Inr (l, mi_height m + 1)"
    by (rule mem_peer.append_head [OF log head bound _ ap [unfolded eqs]]) simp
  moreover have "mem_ok (pr_log p')"
    using log ap by (auto intro: mem_ok_append)
  moreover have "\<exists>man. load_manifest E l w' = Inr man \<and> m_previous man = Some (mi_link m) \<and> m_height man = mi_height m + 1 \<and>
      m_author man = Some (public E (mi_secret_key m)) \<and> verify_signature E man = Inr True \<and> is_published man = pub"
    using save_keeps_mount [OF laws ok save] by (simp add: load_manifest_def)
  moreover have "pr_queue p' = (pr_queue p)\<lparr>jq_jobs := jq_jobs (pr_queue p) @ fitting (pr_queue p)
      (map (\<lambda>pk. PingPeer \<lparr>pp_bucket_id = m_id (mi_manifest m), pp_peer_id = pk\<rparr>)
        (other_members E (public E (pr_secret_key p)) (map fst (m_shares (mi_manifest m)))))\<rparr>"
    using queue save_stores_content(1) [OF laws ok save] by (simp add: enqueue_def)
  moreover from owner_loads_saved [OF laws ok save owner keeps_refl] head' key
  have "\<exists>m''. peer_mount E mem_provider (m_id (mi_manifest m)) (p', w') = Inr m'' \<and> mount_ok E (m'', w') \<and>
      mount_fs E (m'', w') = mount_fs E (m, w) \<and> operations (mi_ops_log m'') = operations (mi_ops_log m)"
    by (auto simp: peer_mount_def)
  ultimately show ?thesis
    by blast
qed

definition sample_peer :: "mem_log peer" where
  "sample_peer = \<lparr>pr_log = snd (mem_append 0 [] link_default None 0 False mem_new),
     pr_secret_key = sample_owner, pr_queue = queue_new (Some 2)\<rparr>"

lemmas peer_run_defs = sample_peer_def queue_new_def lp_head_def provider_head_def mem_height_def mem_heads_def
  mem_append_def mem_new_def hm_or_default_def list_max_def Let_def

lemma sample_peer_ok: "mem_ok (pr_log sample_peer)"
  using mem_ok_append [OF mem_ok_new, of 0 "[]" link_default None 0 False]
  by (simp add: sample_peer_def prod_eq_iff)

lemma sample_save_mount:
  "\<exists>p' s'. save_mount sample_store mem_provider False sample_peer (sample_bucket, (0, [])) =
     (Inr (link_new manifest_codec (replicate 32 5)), (p', s'))"
proof -
  obtain s' where save: "mount_save sample_store False (sample_bucket, (0, [])) =
      (Inr (link_new manifest_codec (replicate 32 5), link_default, 1), s')"
    using sample_save_runs by blast
  then have "s' = snd (mount_save sample_store False (sample_bucket, (0, [])))"
    by simp
  then have shares: "map fst (m_shares (mi_manifest (fst s'))) =
      [CHR ''h'' # map (\<lambda>x. char_of (unat x)) sample_owner]"
    by (simp add: save_run_defs)
  have id: "m_id (mi_manifest sample_bucket) = 0" "m_name (mi_manifest sample_bucket) = ''b''"
    by (simp_all add: sample_bucket_def sample_mount_def sample_manifest_def)
  have key: "public_key_from_hex sample_store (CHR ''h'' # map (\<lambda>x. char_of (unat x)) sample_owner) =
      Inr sample_owner" "public sample_store sample_owner = sample_owner"
    by (simp_all add: sample_store_def sample_owner_def public_key_from_hex_def strip_0x_def public_key_from_def
        public_def PUBLIC_KEY_SIZE_def sample_ext_defs sample_crypto_def)
  have append: "\<exists>log'. mem_append 0 ''b'' (link_new manifest_codec (replicate 32 5)) (Some link_default) 1 pub
      (pr_log sample_peer) = (Inr (), log')" for pub
    by (simp add: peer_run_defs)
  have secret: "pr_secret_key sample_peer = sample_owner"
    by (simp add: sample_peer_def)
  show ?thesis
    using append [of "is_published (mi_manifest (fst s'))"] shares
    by (cases s') (auto simp: save_mount_def save Let_def id key secret)
qed

theorem save_mount_advances_head_witness:
  "\<exists>p' s'. save_mount sample_store mem_provider False sample_peer (sample_bucket, (0, [])) =
     (Inr (link_new manifest_codec (replicate 32 5)), (p', s')) \<and>
   lp_head mem_provider (pr_log p') 0 = Inr (link_new manifest_codec (replicate 32 5), 1)"
proof -
  obtain p' m' w' where run: "save_mount sample_store mem_provider False sample_peer (sample_bucket, (0, [])) =
      (Inr (link_new manifest_codec (replicate 32 5)), (p', (m', w')))"
    using sample_save_mount by fastforce
  have head: "lp_head mem_provider (pr_log sample_peer) (m_id (mi_manifest sample_bucket)) =
      Inr (mi_link sample_bucket, mi_height sample_bucket)"
    by (simp add: peer_run_defs sample_bucket_def sample_mount_def sample_manifest_def bindR_def)
  have share: "get_share sample_store (mi_manifest sample_bucket) (public sample_store (pr_secret_key sample_peer)) =
      Some (snd (sample_owner_share 7))" and role: "sh_role (snd (sample_owner_share 7)) = Owner"
    by (simp_all add: get_share_def sample_store_def public_key_to_hex_def public_def sample_bucket_def
        sample_owner_share_def sample_owner_def sample_peer_def sh_role_def share_new_owner_def)
  have "mi_height sample_bucket \<noteq> - 1"
    by (simp add: sample_bucket_def sample_mount_def)
  from save_mount_advances_head [OF sample_store_laws sample_bucket_ok sample_peer_ok head this share role run]
  show ?thesis
    using run by (simp add: sample_bucket_def sample_mount_def sample_manifest_def)
qed

section \<open>Reading as an owner or a mirror\<close>

text \<open>
  Who reads what. An owner (by the manifest at the head) reads the head. Anyone else reads only
  versions that were appended as published, the highest of them, and is refused when there is none.
\<close>

theorem mount_for_read_roles:
  assumes log: "mem_ok (pr_log p)" and head: "lp_head mem_provider (pr_log p) i = Inr (l, h)"
    and role: "role = (case load_manifest E l w of Inl _ \<Rightarrow> None
      | Inr man \<Rightarrow> map_option sh_role (get_share E man (public E (pr_secret_key p))))"
  shows "(role = Some Owner \<longrightarrow> mount_for_read E mem_provider i (p, w) = mount_load E l (pr_secret_key p) w) \<and>
    (role \<noteq> Some Owner \<longrightarrow>
      (if \<exists>l h. l \<in> set (mem_links (pr_log p) i h) \<and> mem_flagged (pr_log p) i l
       then \<exists>l' h'. l' \<in> set (mem_links (pr_log p) i h') \<and> mem_flagged (pr_log p) i l' \<and>
         (\<forall>l h. l \<in> set (mem_links (pr_log p) i h) \<and> mem_flagged (pr_log p) i l \<longrightarrow> h \<le> h') \<and>
         mount_for_read E mem_provider i (p, w) = mount_load E l' (pr_secret_key p) w
       else mount_for_read E mem_provider i (p, w) = Inl (MtDefault ''No published version available'')))"
proof (intro conjI impI)
  show "mount_for_read E mem_provider i (p, w) = mount_load E l (pr_secret_key p) w" if "role = Some Owner"
    using that head by (simp add: mount_for_read_def peer_mount_def role)
  assume "role \<noteq> Some Owner"
  then have eq: "mount_for_read E mem_provider i (p, w) =
      (case projr (mem_latest_published (pr_log p) i) of
         None \<Rightarrow> Inl (MtDefault ''No published version available'')
       | Some (l, _) \<Rightarrow> mount_load E l (pr_secret_key p) w)"
    using head unfolding role mount_for_read_def
    by (auto simp: latest_published_scan Let_def split: option.splits sum.splits principal_role.splits)
  show "if \<exists>l h. l \<in> set (mem_links (pr_log p) i h) \<and> mem_flagged (pr_log p) i l
      then \<exists>l' h'. l' \<in> set (mem_links (pr_log p) i h') \<and> mem_flagged (pr_log p) i l' \<and>
        (\<forall>l h. l \<in> set (mem_links (pr_log p) i h) \<and> mem_flagged (pr_log p) i l \<longrightarrow> h \<le> h') \<and>
        mount_for_read E mem_provider i (p, w) = mount_load E l' (pr_secret_key p) w
      else mount_for_read E mem_provider i (p, w) = Inl (MtDefault ''No published version available'')"
  proof (cases "projr (mem_latest_published (pr_log p) i)")
    case None
    then show ?thesis
      using latest_published_accepted [OF log, of i] by (auto simp: eq)
  next
    case (Some b)
    then show ?thesis
      using latest_published_accepted [OF log, of i] by (cases b) (auto simp: eq)
  qed
qed

theorem mount_for_read_roles_witness:
  "mount_for_read sample_store mem_provider 0 (sample_peer, (0, [])) =
     Inl (MtDefault ''No published version available'')"
proof -
  have head: "lp_head mem_provider (pr_log sample_peer) 0 = Inr (link_default, 0)"
    by (simp add: peer_run_defs bindR_def)
  have "load_manifest sample_store link_default (0, []) = Inl (LinkNotFound link_default)"
    by (simp add: load_manifest_def get_manifest_from_blobs_def check_stat_def blob_stat_def sample_store_def bindR_def)
  moreover have "\<not> mem_flagged (pr_log sample_peer) 0 l" for l
    by (simp add: peer_run_defs mem_flagged_def)
  ultimately show ?thesis
    using mount_for_read_roles [OF sample_peer_ok head refl, of sample_store "(0, [])"] by simp
qed

section \<open>The exchange between two peers\<close>

definition enqueued :: "uuid \<Rightarrow> link \<Rightarrow> u64 \<Rightarrow> public_key list \<Rightarrow> 'l peer \<Rightarrow> 'l peer" where
  "enqueued i l h ids p = p\<lparr>pr_queue := (pr_queue p)\<lparr>jq_jobs := jq_jobs (pr_queue p) @
     [SyncBucket \<lparr>sb_bucket_id = i, sb_target = \<lparr>st_link = l, st_height = h, st_peer_ids = ids\<rparr>\<rparr>]\<rparr>\<rparr>"

text \<open>
  C34: a ping makes the lower side catch up. Peer \<open>a\<close> (key \<open>ka\<close>) pings \<open>b\<close> (key \<open>kb\<close>) with its head. If
  \<open>b\<close> does not have the bucket, or is lower, \<open>b\<close> queues one sync job towards \<open>a\<close>'s head and \<open>a\<close> does
  nothing; if \<open>b\<close> is higher, \<open>a\<close> queues one towards \<open>b\<close>'s head and \<open>b\<close> does nothing. At equal heights
  neither does, whether or not the heads are the same version.
\<close>

theorem ping_exchange_syncs_lower_side:
  assumes head: "lp_head L (pr_log a) i = Inr (la, ha)" and room: "accepts a" "accepts b"
    and peers: "\<exists>ids. known_peers E la kb wa = Inr ids" "\<forall>l. \<exists>ids. known_peers E l ka wb = Inr ids"
    and responder: "handle_ping E L ka \<lparr>pm_bucket_id = i, pm_link = la, pm_height = ha\<rparr> (b, wb) = (Inr reply, (b', wb'))"
    and initiator: "handle_reply E L kb reply (a, wa) = (r, (a', wa'))"
  shows "case lp_head L (pr_log b) i of
      Inl _ \<Rightarrow> a' = a \<and> b' = enqueued i la ha [ka] b
    | Inr (lb, hb) \<Rightarrow>
        if hb < ha then a' = a \<and> (\<exists>ids. b' = enqueued i la ha ids b)
        else if ha < hb then (\<exists>ids. a' = enqueued i lb hb ids a) \<and> b' = b
        else a' = a \<and> b' = b"
proof -
  note defs = handle_ping_def handle_message_def handle_message_side_effect_def handle_reply_def Let_def
    dispatch_accepts [OF room(1)] dispatch_accepts [OF room(2)] enqueued_def
  show ?thesis
  proof (cases "lp_head L (pr_log b) i")
    case (Inl e)
    then show ?thesis
      using responder initiator by (cases e) (auto simp: defs log_error_def)
  next
    case (Inr hd)
    obtain lb hb where hd: "hd = (lb, hb)"
      by fastforce
    obtain idsa idsb where ids: "known_peers E la kb wa = Inr idsa" "known_peers E lb ka wb = Inr idsb"
      using peers by blast
    consider "hb < ha" | "hb = ha" | "ha < hb" "\<not> hb < ha" "hb \<noteq> ha"
      by fastforce
    then show ?thesis
      using Inr responder initiator by cases (auto simp: defs hd ids head)
  qed
qed

theorem ping_exchange_syncs_lower_side_witness:
  "lp_head mem_provider (pr_log sample_peer) 0 = Inr (link_default, 0) \<and>
   fst (snd (handle_ping sample_store mem_provider [1] \<lparr>pm_bucket_id = 0, pm_link = link_default, pm_height = 0\<rparr>
     (sample_peer\<lparr>pr_log := mem_new\<rparr>, (0, [])))) =
   enqueued 0 link_default 0 [[1]] (sample_peer\<lparr>pr_log := mem_new\<rparr>)"
proof -
  let ?b = "sample_peer\<lparr>pr_log := mem_new\<rparr>"
  let ?ping = "\<lparr>pm_bucket_id = 0, pm_link = link_default, pm_height = 0\<rparr>"
  have head: "lp_head mem_provider (pr_log sample_peer) 0 = Inr (link_default, 0)"
    by (simp add: peer_run_defs bindR_def)
  have room: "accepts sample_peer" "accepts ?b"
    by (simp_all add: accepts_def queue_full_def sample_peer_def queue_new_def)
  have known: "known_peers sample_store l k (0, []) = Inr [k]" for l k
    by (simp add: known_peers_def get_cbor_def sample_store_def bindR_def)
  have none: "lp_head mem_provider (pr_log ?b) 0 = Inl (HeadNotFound 0)"
    by (simp add: lp_head_def provider_head_def mem_height_def mem_new_def)
  have "\<exists>reply s. handle_ping sample_store mem_provider [1] ?ping (?b, (0, [])) = (Inr reply, s)"
    using none by (simp add: handle_ping_def handle_message_def log_error_def handle_message_side_effect_def)
  then obtain reply b' wb where resp: "handle_ping sample_store mem_provider [1] ?ping (?b, (0, [])) = (Inr reply, (b', wb))"
    by fastforce
  obtain r a' wa where init: "handle_reply sample_store mem_provider [2] reply (sample_peer, (0, [])) = (r, (a', wa))"
    by (metis prod.collapse)
  have "b' = enqueued 0 link_default 0 [[1]] ?b"
    using ping_exchange_syncs_lower_side [OF head room _ _ resp init] known none by simp
  then show ?thesis
    using head resp by simp
qed

end
