(* ===== verification/Peer_Sync.thy ===== *)
theory Peer_Sync
  imports Peer Mount_Merge
begin

text \<open>
  \<open>common/src/peer/sync\<close>: what a peer does with the jobs it queued. A sync job walks the remote
  chain of manifests back to a version the log has (\<open>find_common_ancestor\<close>), downloads the manifests
  after it, checks who signed them, and appends to the log (\<open>sync_bucket.rs\<close>); \<open>download_pins.rs\<close>
  fetches the content; the worker of \<open>daemon/src/sync_provider.rs\<close> takes jobs off the queue.

  The walks follow links that other peers supply and need not end: they are partial functions.
\<close>

section \<open>Provenance\<close>

datatype provenance_result = Valid | NotAuthorized | UnsignedLegacy

definition verify_author ::
  "('w, 'z) manifest_ext_scheme \<Rightarrow> manifest \<Rightarrow> manifest option \<Rightarrow> provenance_error + provenance_result" where
  "verify_author E manifest previous =
     (if \<not> is_signed manifest then Inr UnsignedLegacy
      else case verify_signature E manifest of
        Inl _ \<Rightarrow> Inl InvalidSignature
      | Inr False \<Rightarrow> Inl InvalidSignature
      | Inr True \<Rightarrow>
          (case m_author manifest of
             None \<Rightarrow> Inl (ProvenancePanic ''is_signed() was true'')
           | Some author \<Rightarrow>
               (let check_shares = (case previous of Some p \<Rightarrow> m_shares p | None \<Rightarrow> m_shares manifest) in
                bindR (ok_or AuthorNotInShares (bt_get check_shares (public_key_to_hex E author)))
                  (\<lambda>author_share.
                if sh_role author_share \<noteq> Owner then Inl AuthorNotWriter else Inr Valid))))"

definition verify_provenance ::
  "('w, 'z) manifest_ext_scheme \<Rightarrow> secret_key \<Rightarrow> manifest \<Rightarrow> manifest option \<Rightarrow>
     provenance_error + provenance_result" where
  "verify_provenance E our_secret manifest previous =
     (let our_key_hex = public_key_to_hex E (public E our_secret) in
      if \<not> list_ex (\<lambda>(key_hex, _). key_hex = our_key_hex) (m_shares manifest) then Inr NotAuthorized
      else verify_author E manifest previous)"

section \<open>Walking a remote chain\<close>

partial_function (option) download_loop ::
  "('w, 'z) blob_ext_scheme \<Rightarrow> link option \<Rightarrow> public_key list \<Rightarrow> link \<Rightarrow> (manifest \<times> link) list \<Rightarrow> 'w \<Rightarrow>
     ((sync_error + (manifest \<times> link) list) \<times> 'w) option" where
  "download_loop E stop_link peer_ids current_link manifests w =
     (case download_hash E (link_hash current_link) peer_ids w of
        (Inl e, w') \<Rightarrow> Some (Inl (SyncDownload current_link e), w')
      | (Inr _, w') \<Rightarrow>
          (case get_cbor E (manifest_decode E) (link_hash current_link) w' of
             Inl e \<Rightarrow> Some (Inl (SyncBlobs e), w')
           | Inr manifest \<Rightarrow>
               (if stop_link = Some current_link then Some (Inr manifests, w')
                else case m_previous manifest of
                  Some prev_link \<Rightarrow>
                    download_loop E stop_link peer_ids prev_link (manifests @ [(manifest, current_link)]) w'
                | None \<Rightarrow> Some (Inr (manifests @ [(manifest, current_link)]), w'))))"

fun verify_chain ::
  "('w, 'z) manifest_ext_scheme \<Rightarrow> manifest option \<Rightarrow> (manifest \<times> link) list \<Rightarrow> sync_error + unit" where
  "verify_chain E previous [] = Inr ()"
| "verify_chain E previous ((manifest, l) # rest) =
     bindR (map_err (\<lambda>e. SyncProvenance (InvalidManifestInChain l e)) (verify_author E manifest previous))
       (\<lambda>_. verify_chain E (Some manifest) rest)"

definition download_manifest_chain ::
  "('w, 'z) blob_ext_scheme \<Rightarrow> link \<Rightarrow> link option \<Rightarrow> public_key list \<Rightarrow> manifest option \<Rightarrow> 'w \<Rightarrow>
     ((sync_error + (manifest \<times> link) list) \<times> 'w) option" where
  "download_manifest_chain E start_link stop_link peer_ids trusted_base w =
     Option.bind (download_loop E stop_link peer_ids start_link [] w) (\<lambda>(r, w').
     Some (bindR r (\<lambda>ms. let manifests = rev ms in
       bindR (verify_chain E trusted_base manifests) (\<lambda>_. Inr manifests)), w'))"

text \<open>An error of \<open>has\<close> is logged and the walk goes on.\<close>

partial_function (option) ancestor_loop ::
  "('w, 'z) blob_ext_scheme \<Rightarrow> (link \<Rightarrow> bucket_log_error + u64 list) \<Rightarrow> public_key list \<Rightarrow> link \<Rightarrow> 'w \<Rightarrow>
     ((sync_error + (link \<times> u64) option) \<times> 'w) option" where
  "ancestor_loop E has_link peer_ids current_link w =
     (case download_hash E (link_hash current_link) peer_ids w of
        (Inl e, w') \<Rightarrow> Some (Inl (SyncDownload current_link e), w')
      | (Inr _, w') \<Rightarrow>
          (case get_cbor E (manifest_decode E) (link_hash current_link) w' of
             Inl e \<Rightarrow> Some (Inl (SyncBlobs e), w')
           | Inr manifest \<Rightarrow>
               (if (case has_link current_link of Inr heights \<Rightarrow> heights \<noteq> [] | Inl _ \<Rightarrow> False)
                then Some (Inr (Some (current_link, m_height manifest)), w')
                else case m_previous manifest of
                  Some prev_link \<Rightarrow> ancestor_loop E has_link peer_ids prev_link w'
                | None \<Rightarrow> Some (Inr None, w'))))"

section \<open>The sync job\<close>

text \<open>\<open>apply_manifest_chain\<close> looks at the first manifest only.\<close>

definition apply_manifest_chain ::
  "'l log_provider \<Rightarrow> uuid \<Rightarrow> (manifest \<times> link) list \<Rightarrow> 'l peer \<Rightarrow> (sync_error + unit) \<times> 'l peer" where
  "apply_manifest_chain L i manifests p =
     (case manifests of
        [] \<Rightarrow> (Inr (), p)
      | (manifest, l) # _ \<Rightarrow>
          (case lp_append L i (m_name manifest) l (m_previous manifest) (m_height manifest)
                  (is_published manifest) (pr_log p) of
             (Inl e, log') \<Rightarrow> (Inl (SyncAppend (m_height manifest) e), p\<lparr>pr_log := log'\<rparr>)
           | (Inr _, log') \<Rightarrow>
               (case dispatch (DownloadPins \<lparr>dp_pins_link = m_pins manifest,
                        dp_peer_ids = map (\<lambda>(_, s). p_identity (sh_principal s)) (m_shares manifest)\<rparr>)
                      (p\<lparr>pr_log := log'\<rparr>) of
                  (r, p') \<Rightarrow> (map_err SyncQueue r, p'))))"

text \<open>\<open>execute\<close> after the search for the ancestor: \<open>stop_link\<close> is the ancestor's link.\<close>

definition sync_from ::
  "('w, 'z) blob_ext_scheme \<Rightarrow> 'l log_provider \<Rightarrow> sync_bucket_job \<Rightarrow> link option \<Rightarrow> ('l, 'w) peer_state \<Rightarrow>
     ((sync_error + unit) \<times> ('l, 'w) peer_state) option" where
  "sync_from E L job stop_link s =
     (case s of (p, w) \<Rightarrow>
      case (case stop_link of
              Some l \<Rightarrow> bindR (get_cbor E (manifest_decode E) (link_hash l) w) (\<lambda>m. Inr (Some m))
            | None \<Rightarrow> Inr None) of
        Inl e \<Rightarrow> Some (Inl (SyncBlobs e), (p, w))
      | Inr trusted_base \<Rightarrow>
          Option.bind (download_manifest_chain E (st_link (sb_target job)) stop_link
              (st_peer_ids (sb_target job)) trusted_base w) (\<lambda>(r, w').
          case r of
            Inl e \<Rightarrow> Some (Inl e, (p, w'))
          | Inr manifests \<Rightarrow>
              (if manifests = [] then Some (Inr (), (p, w'))
               else case verify_provenance E (pr_secret_key p) (fst (last manifests)) trusted_base of
                 Inl e \<Rightarrow> Some (Inl (SyncProvenance e), (p, w'))
               | Inr NotAuthorized \<Rightarrow> Some (Inr (), (p, w'))
               | Inr _ \<Rightarrow> (case apply_manifest_chain L (sb_bucket_id job) manifests p of
                    (r, p') \<Rightarrow> Some (r, (p', w'))))))"

definition sync_bucket_execute ::
  "('w, 'z) blob_ext_scheme \<Rightarrow> 'l log_provider \<Rightarrow> sync_bucket_job \<Rightarrow> ('l, 'w) peer_state \<Rightarrow>
     ((sync_error + unit) \<times> ('l, 'w) peer_state) option" where
  "sync_bucket_execute E L job s =
     (case s of (p, w) \<Rightarrow>
      case lp_exists L (pr_log p) (sb_bucket_id job) of
        Inl e \<Rightarrow> Some (Inl (SyncLog e), (p, w))
      | Inr exists \<Rightarrow>
          Option.bind (if exists
              then ancestor_loop E (lp_has L (pr_log p) (sb_bucket_id job)) (st_peer_ids (sb_target job))
                (st_link (sb_target job)) w
              else Some (Inr None, w)) (\<lambda>(r, w').
          case r of
            Inl e \<Rightarrow> Some (Inl e, (p, w'))
          | Inr common_ancestor \<Rightarrow>
              (if exists \<and> common_ancestor = None then Some (Inr (), (p, w'))
               else sync_from E L job (map_option fst common_ancestor) (p, w'))))"

definition download_pins_execute ::
  "('w, 'z) blob_ext_scheme \<Rightarrow> download_pins_job \<Rightarrow> ('l, 'w) peer_state \<Rightarrow>
     (sync_error + unit) \<times> ('l, 'w) peer_state" where
  "download_pins_execute E job s =
     (case s of (p, w) \<Rightarrow>
      case download_hash_list E (link_hash (dp_pins_link job)) (dp_peer_ids job) w of
        (r, w') \<Rightarrow> (map_err SyncPins r, (p, w')))"

definition execute_job ::
  "'w network \<Rightarrow> ('w, 'z) blob_ext_scheme \<Rightarrow> 'l log_provider \<Rightarrow> sync_job \<Rightarrow> ('l, 'w) peer_state \<Rightarrow>
     ((sync_error + unit) \<times> ('l, 'w) peer_state) option" where
  "execute_job net E L job s =
     (case job of
        DownloadPins j \<Rightarrow> Some (download_pins_execute E j s)
      | SyncBucket j \<Rightarrow> sync_bucket_execute E L j s
      | PingPeer j \<Rightarrow> Some (ping_peer_execute net E L j s))"

text \<open>Periodic pings: every bucket of the log; errors are logged, a panic ends the worker.\<close>

fun ping_buckets ::
  "('w, 'z) blob_ext_scheme \<Rightarrow> 'l log_provider \<Rightarrow> uuid list \<Rightarrow> ('l, 'w) peer_state \<Rightarrow> ('l, 'w) peer_state" where
  "ping_buckets E L [] s = s"
| "ping_buckets E L (i # is) s =
     (case peer_ping E L i s of
        (Inl (SyncPanic _), s') \<Rightarrow> s'
      | (_, s') \<Rightarrow> ping_buckets E L is s')"

definition schedule_periodic_pings ::
  "('w, 'z) blob_ext_scheme \<Rightarrow> 'l log_provider \<Rightarrow> ('l, 'w) peer_state \<Rightarrow> ('l, 'w) peer_state" where
  "schedule_periodic_pings E L s =
     (case lp_list_buckets L (pr_log (fst s)) of
        Inl _ \<Rightarrow> s
      | Inr bucket_ids \<Rightarrow> ping_buckets E L bucket_ids s)"

section \<open>Chains as the walks see them\<close>

abbreviation read_manifest :: "('w, 'z) blob_ext_scheme \<Rightarrow> link \<Rightarrow> 'w \<Rightarrow> blobs_error + manifest" where
  "read_manifest E l \<equiv> get_cbor E (manifest_decode E) (link_hash l)"

lemma get_cbor_keeps: "keeps_blobs E w w' \<Longrightarrow> get_cbor E d h w = Inr x \<Longrightarrow> get_cbor E d h w' = Inr x"
  by (auto simp: keeps_blobs_def get_cbor_def res_simps)

text \<open>The manifests from a link back to \<open>stop\<close> (exclusive) or to the first version.\<close>

inductive walk :: "('w, 'z) blob_ext_scheme \<Rightarrow> 'w \<Rightarrow> link option \<Rightarrow> link \<Rightarrow> (manifest \<times> link) list \<Rightarrow> bool"
  for E w stop where
  walk_stop: "stop = Some l \<Longrightarrow> walk E w stop l []"
| walk_first: "read_manifest E l w = Inr m \<Longrightarrow> stop \<noteq> Some l \<Longrightarrow> m_previous m = None \<Longrightarrow> walk E w stop l [(m, l)]"
| walk_later: "read_manifest E l w = Inr m \<Longrightarrow> stop \<noteq> Some l \<Longrightarrow> m_previous m = Some p \<Longrightarrow>
    walk E w stop p ns \<Longrightarrow> walk E w stop l ((m, l) # ns)"

inductive_cases walk_Nil: "walk E w stop l []"

inductive reaches :: "('w, 'z) blob_ext_scheme \<Rightarrow> 'w \<Rightarrow> link \<Rightarrow> link \<Rightarrow> bool" for E w where
  reaches_refl: "reaches E w l l"
| reaches_step: "read_manifest E l w = Inr m \<Longrightarrow> m_previous m = Some p \<Longrightarrow> reaches E w p a \<Longrightarrow> reaches E w l a"

lemma walk_read: "walk E w stop l ns \<Longrightarrow> (m, k) \<in> set ns \<Longrightarrow> read_manifest E k w = Inr m"
  by (induction rule: walk.induct) auto

lemma walk_head: "walk E w stop l ns \<Longrightarrow> ns \<noteq> [] \<Longrightarrow> snd (hd ns) = l"
  by (auto elim: walk.cases)

lemma walk_from_ancestor:
  assumes "walk E w (Some a) l ns" and "reaches E w l a" and "ns \<noteq> []"
  shows "m_previous (fst (last ns)) = Some a"
  using assms
proof (induction rule: walk.induct)
  case (walk_first l m)
  then show ?case
    by (auto elim: reaches.cases)
next
  case (walk_later l m p ns)
  then have "reaches E w p a"
    by (auto elim: reaches.cases)
  then show ?case
    using walk_later by (cases "ns = []") (auto elim: walk_Nil)
qed simp

lemma reaches_mono: "reaches E w l a \<Longrightarrow> keeps_blobs E w w' \<Longrightarrow> reaches E w' l a"
  by (induction rule: reaches.induct) (auto intro: reaches.intros get_cbor_keeps)

lemma walk_to_first: "walk E w None l ns \<Longrightarrow> ns \<noteq> [] \<and> m_previous (fst (last ns)) = None"
  by (induction rule: walk.induct) auto

lemma download_loop_walk:
  assumes laws: "blob_laws E" and "download_loop E stop ids l acc w = Some (r, w')"
  shows "keeps_blobs E w w' \<and> (\<forall>ms. r = Inr ms \<longrightarrow> (\<exists>ns. ms = acc @ ns \<and> walk E w' stop l ns))"
proof -
  have "case y of (r, w') \<Rightarrow> blob_laws E \<longrightarrow> keeps_blobs E w w' \<and>
      (\<forall>ms. r = Inr ms \<longrightarrow> (\<exists>ns. ms = acc @ ns \<and> walk E w' stop l ns))"
    if "download_loop E stop ids l acc w = Some y" for y
    using that
  proof (induction E stop ids l acc w y rule: download_loop.raw_induct [rotated 1, consumes 1, case_names 1])
    case (1 loop E stop ids l acc w y)
    obtain d w1 where d: "download_hash E (link_hash l) ids w = (d, w1)"
      by fastforce
    show ?case
    proof (cases d)
      case (Inl e)
      then show ?thesis
        using 1(2) d by (auto dest: keeps_download_hash)
    next
      case (Inr u)
      show ?thesis
      proof (cases "read_manifest E l w1")
        case (Inl e)
        then show ?thesis
          using 1(2) d Inr by (auto dest: keeps_download_hash)
      next
        case m: (Inr m)
        show ?thesis
        proof (cases "stop = Some l \<or> m_previous m = None")
          case True
          then show ?thesis
            using 1(2) d Inr m
            by (auto split: if_splits option.splits dest: keeps_download_hash intro: walk_stop walk_first)
        next
          case False
          then obtain prev where prev: "stop \<noteq> Some l" "m_previous m = Some prev"
            by auto
          then have rec: "loop E stop ids prev (acc @ [(m, l)]) w1 = Some y"
            using 1(2) d Inr m by simp
          show ?thesis
            using 1(1) [OF rec] keeps_download_hash [OF _ d] m prev
            by (auto intro: keeps_trans walk_later [OF get_cbor_keeps])
        qed
      qed
    qed
  qed
  from this [OF assms(2)] laws show ?thesis
    by simp
qed

lemma ancestor_loop_reaches:
  assumes laws: "blob_laws E" and "ancestor_loop E has ids l w = Some (r, w')"
  shows "keeps_blobs E w w' \<and> (\<forall>a h. r = Inr (Some (a, h)) \<longrightarrow>
    reaches E w' l a \<and> (\<exists>hs. has a = Inr hs \<and> hs \<noteq> []))"
proof -
  have "case y of (r, w') \<Rightarrow> blob_laws E \<longrightarrow> keeps_blobs E w w' \<and> (\<forall>a h. r = Inr (Some (a, h)) \<longrightarrow>
      reaches E w' l a \<and> (\<exists>hs. has a = Inr hs \<and> hs \<noteq> []))"
    if "ancestor_loop E has ids l w = Some y" for y
    using that
  proof (induction E has ids l w y rule: ancestor_loop.raw_induct [rotated 1, consumes 1, case_names 1])
    case (1 loop E has ids l w y)
    obtain d w1 where d: "download_hash E (link_hash l) ids w = (d, w1)"
      by fastforce
    show ?case
    proof (cases d)
      case (Inl e)
      then show ?thesis
        using 1(2) d by (auto dest: keeps_download_hash)
    next
      case (Inr u)
      show ?thesis
      proof (cases "read_manifest E l w1")
        case (Inl e)
        then show ?thesis
          using 1(2) d Inr by (auto dest: keeps_download_hash)
      next
        case m: (Inr m)
        let ?found = "case has l of Inr hs \<Rightarrow> hs \<noteq> [] | Inl _ \<Rightarrow> False"
        show ?thesis
        proof (cases "?found \<or> m_previous m = None")
          case True
          then show ?thesis
            using 1(2) d Inr m
            by (auto split: if_splits option.splits sum.splits dest: keeps_download_hash intro: reaches_refl)
        next
          case False
          then obtain prev where prev: "\<not> ?found" "m_previous m = Some prev"
            by auto
          then have rec: "loop E has ids prev w1 = Some y"
            using 1(2) d Inr m by simp
          show ?thesis
            using 1(1) [OF rec] keeps_download_hash [OF _ d] m prev(2)
            by (fastforce intro: keeps_trans reaches_step get_cbor_keeps)
        qed
      qed
    qed
  qed
  from this [OF assms(2)] laws show ?thesis
    by simp
qed

section \<open>What a sync job appends\<close>

text \<open>
  A manifest is authorised by \<open>base\<close> when it is unsigned (the migration case) or its signature
  verifies and its author is an owner in \<open>base\<close>.
\<close>

definition authorised :: "('w, 'z) manifest_ext_scheme \<Rightarrow> manifest \<Rightarrow> manifest \<Rightarrow> bool" where
  "authorised E base m \<longleftrightarrow> is_signed m \<longrightarrow> verify_signature E m = Inr True \<and>
     (\<exists>a sh. m_author m = Some a \<and> get_share E base a = Some sh \<and> sh_role sh = Owner)"

lemma verify_author_authorised:
  assumes "verify_author E m previous = Inr r"
  shows "authorised E (case previous of Some b \<Rightarrow> b | None \<Rightarrow> m) m" and "r \<noteq> NotAuthorized"
  using assms
  by (auto simp: verify_author_def authorised_def get_share_def bindR_def ok_or_def Let_def
      split: if_splits sum.splits bool.splits option.splits)

lemma verify_chain_first: "verify_chain E base ((m, l) # ns) = Inr () \<Longrightarrow> authorised E (case base of Some b \<Rightarrow> b | None \<Rightarrow> m) m"
  by (auto simp: res_simps dest: verify_author_authorised(1))

lemma verify_provenance_share:
  "verify_provenance E sk m base = Inr r \<Longrightarrow> r \<noteq> NotAuthorized \<Longrightarrow> get_share E m (public E sk) \<noteq> None"
  by (auto simp: verify_provenance_def Let_def get_share_def list_ex_iff map_of_eq_None_iff rev_image_eqI
      split: if_splits)

lemma sync_from_Some:
  assumes laws: "blob_laws E" and run: "sync_from E L job stop (p, w) = Some (r, (p', w'))"
  shows "keeps_blobs E w w' \<and> (p' = p \<or> (\<exists>m l ns base. walk E w' stop (st_link (sb_target job)) ns \<and> ns \<noteq> [] \<and>
    last ns = (m, l) \<and> (\<forall>k. stop = Some k \<longrightarrow> read_manifest E k w = Inr (the base)) \<and>
    (stop = None \<longleftrightarrow> base = None) \<and> authorised E (case base of Some b \<Rightarrow> b | None \<Rightarrow> m) m \<and>
    get_share E (fst (hd ns)) (public E (pr_secret_key p)) \<noteq> None \<and>
    apply_manifest_chain L (sb_bucket_id job) (rev ns) p = (r, p')))"
proof -
  consider (base) base where "(case stop of
      Some l \<Rightarrow> bindR (read_manifest E l w) (\<lambda>m. Inr (Some m)) | None \<Rightarrow> Inr None) = Inr base"
    | (unread) "p' = p" "w' = w"
    using run by (auto simp: sync_from_def split: sum.splits)
  then show ?thesis
  proof cases
    case (base base)
    obtain d w1 where d: "download_loop E stop (st_peer_ids (sb_target job)) (st_link (sb_target job)) [] w = Some (d, w1)"
      using run base by (auto simp: sync_from_def download_manifest_chain_def bind_eq_Some_conv)
    note walk = download_loop_walk [OF laws d]
    show ?thesis
    proof (cases "p' = p")
      case True
      then show ?thesis
        using run base d walk
        by (auto simp: sync_from_def download_manifest_chain_def split: sum.splits if_splits
            provenance_result.splits prod.splits)
    next
      case False
      then obtain ns where ns: "d = Inr ns" "ns \<noteq> []" "verify_chain E base (rev ns) = Inr ()"
        and prov: "\<exists>res. verify_provenance E (pr_secret_key p) (fst (hd ns)) base = Inr res \<and> res \<noteq> NotAuthorized"
        and ap: "apply_manifest_chain L (sb_bucket_id job) (rev ns) p = (r, p')" and w': "w' = w1"
        using run base d
        by (auto simp: sync_from_def download_manifest_chain_def bindR_def last_rev Let_def split: sum.splits
            if_splits provenance_result.splits prod.splits; blast)
      obtain m l where last: "last ns = (m, l)"
        by fastforce
      have rev: "rev ns = (m, l) # rev (butlast ns)"
        using ns(2) last by (metis append_butlast_last_id rev.simps(2) rev_append rev_rev_ident rev_singleton_conv append_Cons append_Nil)
      have auth: "authorised E (case base of Some b \<Rightarrow> b | None \<Rightarrow> m) m"
        using ns(3) unfolding rev by (rule verify_chain_first)
      have "walk E w' stop (st_link (sb_target job)) ns" "keeps_blobs E w w'"
        using walk ns(1) w' by auto
      moreover have "get_share E (fst (hd ns)) (public E (pr_secret_key p)) \<noteq> None"
        using prov verify_provenance_share by blast
      moreover have "(\<forall>k. stop = Some k \<longrightarrow> read_manifest E k w = Inr (the base)) \<and> (stop = None \<longleftrightarrow> base = None)"
        using base by (auto simp: res_simps split: option.splits)
      ultimately show ?thesis
        using ns(2) last auth ap by blast
    qed
  qed auto
qed

lemma apply_chain_frame:
  assumes "apply_manifest_chain L i ms p = (r, p')"
  shows "pr_secret_key p' = pr_secret_key p \<and> jq_capacity (pr_queue p') = jq_capacity (pr_queue p) \<and>
    (queue_ok (pr_queue p) \<longrightarrow> queue_ok (pr_queue p'))"
  using assms dispatch_frame
  by (fastforce simp: apply_manifest_chain_def split: list.splits prod.splits sum.splits)

context peer_log
begin

text \<open>The first version of the chain is appended when the provider accepts it; nothing else is.\<close>

lemma apply_chain_links:
  assumes ok: "ok (pr_log p)" and run: "apply_manifest_chain L i ((m, l) # ns) p = (r, p')"
  shows "\<exists>res. lp_append L i (m_name m) l (m_previous m) (m_height m) (is_published m) (pr_log p) = (res, pr_log p') \<and>
    (case res of Inl e \<Rightarrow> links (pr_log p') = links (pr_log p) | Inr _ \<Rightarrow>
      l \<notin> links (pr_log p) i (m_height m) \<and>
      (case m_previous m of None \<Rightarrow> m_height m = 0
        | Some prev \<Rightarrow> m_height m \<noteq> 0 \<and> prev \<in> links (pr_log p) i (m_height m - 1)) \<and>
      (fits l (m_height m) \<longrightarrow> (\<forall>j k. links (pr_log p') j k =
        (if j = i \<and> k = m_height m then insert l (links (pr_log p) j k) else links (pr_log p) j k))))"
proof -
  obtain res log' where ap: "lp_append L i (m_name m) l (m_previous m) (m_height m) (is_published m) (pr_log p) = (res, log')"
    by fastforce
  then have log': "pr_log p' = log'"
    using run dispatch_frame(1) by (fastforce simp: apply_manifest_chain_def split: prod.splits sum.splits)
  show ?thesis
  proof (cases res)
    case (Inl e)
    then show ?thesis
      using ap log' rejected_links [OF ok] by auto
  next
    case (Inr u)
    then have acc: "lp_append L i (m_name m) l (m_previous m) (m_height m) (is_published m) (pr_log p) = (Inr (), log')"
      using ap by simp
    show ?thesis
      using ap Inr append_accepted [OF ok acc] accepted_links [OF ok acc]
      by (auto simp: log' links_def split: option.splits)
  qed
qed

lemma has_nonempty: "ok s \<Longrightarrow> lp_has L s i l = Inr hs \<Longrightarrow> hs \<noteq> [] \<longleftrightarrow> (\<exists>h. l \<in> links s i h)"
  using has_heights [of s i l] by (fastforce simp: links_def simp flip: set_empty)

text \<open>A sync job either does nothing to the peer or goes on from an ancestor that the log has.\<close>

lemma sync_bucket_cases:
  assumes laws: "blob_laws E" and ok: "ok (pr_log p)"
    and run: "sync_bucket_execute E L job (p, w) = Some (r, (p', w'))"
  obtains (unchanged) "p' = p" and "keeps_blobs E w w'"
  | (synced) stop w1 where "sync_from E L job stop (p, w1) = Some (r, (p', w'))" and "keeps_blobs E w w1"
    and "case stop of None \<Rightarrow> lp_exists L (pr_log p) (sb_bucket_id job) = Inr False
      | Some a \<Rightarrow> reaches E w1 (st_link (sb_target job)) a \<and> (\<exists>h. a \<in> links (pr_log p) (sb_bucket_id job) h)"
proof (cases "lp_exists L (pr_log p) (sb_bucket_id job)")
  case (Inl e)
  then show ?thesis
    using run by (intro unchanged) (simp_all add: sync_bucket_execute_def)
next
  case ex: (Inr b)
  show ?thesis
  proof (cases b)
    case False
    then show ?thesis
      using run ex by (intro synced [of None w]) (simp_all add: sync_bucket_execute_def)
  next
    case True
    then obtain a w1 where loop: "ancestor_loop E (lp_has L (pr_log p) (sb_bucket_id job))
        (st_peer_ids (sb_target job)) (st_link (sb_target job)) w = Some (a, w1)"
      using run ex by (auto simp: sync_bucket_execute_def bind_eq_Some_conv)
    note reach = ancestor_loop_reaches [OF laws loop]
    show ?thesis
    proof (cases "\<exists>x h. a = Inr (Some (x, h))")
      case True
      then obtain x h where a: "a = Inr (Some (x, h))"
        by blast
      have "sync_from E L job (Some x) (p, w1) = Some (r, (p', w'))"
        using run ex \<open>b\<close> loop a by (simp add: sync_bucket_execute_def)
      moreover have "\<exists>h. x \<in> links (pr_log p) (sb_bucket_id job) h"
        using reach a has_nonempty [OF ok] by blast
      ultimately show ?thesis
        using reach a by (intro synced [of "Some x" w1]) auto
    next
      case False
      then have "(\<exists>e. a = Inl e) \<or> a = Inr None"
        by (cases a) (auto simp: option.case_eq_if, metis not_Some_eq prod.exhaust)
      then show ?thesis
        using run ex \<open>b\<close> loop reach by (intro unchanged) (auto simp: sync_bucket_execute_def)
    qed
  qed
qed

lemma sync_bucket_effect:
  assumes laws: "blob_laws E" and ok: "ok (pr_log p)"
    and run: "sync_bucket_execute E L job (p, w) = Some (r, (p', w'))"
  shows "keeps_blobs E w w' \<and> (p' = p \<or>
    (\<exists>m l ns res. apply_manifest_chain L (sb_bucket_id job) ((m, l) # ns) p = (res, p') \<and>
      read_manifest E l w' = Inr m \<and>
      (case m_previous m of
         None \<Rightarrow> (\<forall>h. links (pr_log p) (sb_bucket_id job) h = {}) \<and> authorised E m m
       | Some prev \<Rightarrow> (\<exists>h. prev \<in> links (pr_log p) (sb_bucket_id job) h) \<and>
           (\<exists>base. read_manifest E prev w' = Inr base \<and> authorised E base m)) \<and>
      (\<exists>t. read_manifest E (st_link (sb_target job)) w' = Inr t \<and>
        get_share E t (public E (pr_secret_key p)) \<noteq> None)))"
    (is "_ \<and> (p' = p \<or> ?appended)")
  using laws ok run
proof (cases rule: sync_bucket_cases)
  case (synced stop w1)
  let ?i = "sb_bucket_id job" and ?t = "st_link (sb_target job)"
  note sf = synced(1) and k1 = synced(2) and stop = synced(3)
  show ?thesis
  proof (cases "p' = p")
    case True
    moreover have "keeps_blobs E w1 w'"
      using sync_from_Some [OF laws sf] by (rule conjunct1)
    ultimately show ?thesis
      using keeps_trans [OF k1] by simp
  next
    case False
  from sync_from_Some [OF laws sf] False obtain m l ns base where k2: "keeps_blobs E w1 w'"
    and walk: "walk E w' stop ?t ns" "ns \<noteq> []" "last ns = (m, l)"
    and base: "\<forall>k. stop = Some k \<longrightarrow> read_manifest E k w1 = Inr (the base)" "stop = None \<longleftrightarrow> base = None"
    and auth: "authorised E (case base of Some b \<Rightarrow> b | None \<Rightarrow> m) m"
    and share: "get_share E (fst (hd ns)) (public E (pr_secret_key p)) \<noteq> None"
    and ap: "apply_manifest_chain L ?i (rev ns) p = (r, p')"
    by blast
  have rev: "rev ns = (m, l) # rev (butlast ns)"
    using walk(2,3) by (metis append_butlast_last_id rev_eq_Cons_iff rev_rev_ident)
  have read: "read_manifest E l w' = Inr m"
    using walk_read [OF walk(1)] walk(2,3) last_in_set by metis
  have target: "read_manifest E ?t w' = Inr (fst (hd ns))"
    using walk_read [OF walk(1), of "fst (hd ns)" ?t] walk_head [OF walk(1,2)] walk(2)
    by (metis list.set_sel(1) prod.collapse)
  have prev: "case m_previous m of
      None \<Rightarrow> (\<forall>h. links (pr_log p) ?i h = {}) \<and> authorised E m m
    | Some prev \<Rightarrow> (\<exists>h. prev \<in> links (pr_log p) ?i h) \<and>
        (\<exists>base. read_manifest E prev w' = Inr base \<and> authorised E base m)"
  proof (cases stop)
    case None
    have "links (pr_log p) ?i h = {}" for h
      using exists_versions [OF ok, of ?i h] stop None heads_links [OF ok, of ?i h] by auto
    then show ?thesis
      using None walk walk_to_first auth base by (force split: option.splits)
  next
    case (Some a)
    have reach: "reaches E w' ?t a"
      using stop Some reaches_mono [OF _ k2] by simp
    have "m_previous m = Some a"
      using walk_from_ancestor [OF walk(1) [unfolded Some] reach walk(2)] walk(3) by simp
    moreover have "read_manifest E a w' = Inr (the base)" "base \<noteq> None"
      using base Some get_cbor_keeps [OF k2] by auto
    ultimately show ?thesis
      using stop Some auth by auto
  qed
  show ?thesis
    using keeps_trans [OF k1 k2] ap [unfolded rev] read target share prev by blast
  qed
qed simp

end

lemma mem_peer_links_eq: "mem_peer.links = (\<lambda>s i h. set (mem_links s i h))"
  by (intro ext) (rule mem_peer_links)

lemmas mem_sync_effect = mem_peer.sync_bucket_effect [unfolded mem_peer_links_eq, unfolded set_empty]
lemmas mem_apply_links = mem_peer.apply_chain_links [unfolded mem_peer_links_eq, unfolded mem_provider_sel simp_thms]

lemma mem_apply_subset:
  assumes "mem_ok (pr_log p)" and "apply_manifest_chain mem_provider i ((m, l) # ns) p = (r, p')"
  shows "set (mem_links (pr_log p) j h) \<subseteq> set (mem_links (pr_log p') j h)"
    and "set (mem_links (pr_log p') j h) \<subseteq> insert l (set (mem_links (pr_log p) j h))"
proof -
  obtain res :: "bucket_log_error + unit" where "case res of
      Inl e \<Rightarrow> (\<lambda>i h. set (mem_links (pr_log p') i h)) = (\<lambda>i h. set (mem_links (pr_log p) i h))
    | Inr _ \<Rightarrow> l \<notin> set (mem_links (pr_log p) i (m_height m)) \<and>
        (case m_previous m of None \<Rightarrow> m_height m = 0
          | Some prev \<Rightarrow> m_height m \<noteq> 0 \<and> prev \<in> set (mem_links (pr_log p) i (m_height m - 1))) \<and>
        (\<forall>j k. set (mem_links (pr_log p') j k) =
          (if j = i \<and> k = m_height m then insert l (set (mem_links (pr_log p) j k)) else set (mem_links (pr_log p) j k)))"
    using mem_apply_links [OF assms] by blast
  then have "set (mem_links (pr_log p) j h) \<subseteq> set (mem_links (pr_log p') j h) \<and>
      set (mem_links (pr_log p') j h) \<subseteq> insert l (set (mem_links (pr_log p) j h))"
    by (cases res) (auto simp: fun_eq_iff split: if_splits)
  then show "set (mem_links (pr_log p) j h) \<subseteq> set (mem_links (pr_log p') j h)"
    and "set (mem_links (pr_log p') j h) \<subseteq> insert l (set (mem_links (pr_log p) j h))"
    by auto
qed

text \<open>
  C3: a sync job of a peer with the in-memory log only appends authorised history. Whatever the other peers send, the log changes by
  at most one version: one that is stored here, follows a version the log already has and is signed
  by an owner of that version (or starts a bucket the log does not have, signed by an owner of its
  own; or is unsigned), on the way to a target version that lists this peer. Nothing else is
  accepted, and nothing accepted or stored is lost.
\<close>

theorem sync_appends_only_authorised:
  assumes laws: "blob_laws E" and ok: "mem_ok (pr_log p)"
    and run: "sync_bucket_execute E mem_provider job (p, w) = Some (r, (p', w'))"
  shows "mem_ok (pr_log p') \<and> keeps_blobs E w w' \<and> pr_secret_key p' = pr_secret_key p \<and>
    ((\<forall>j k. set (mem_links (pr_log p') j k) = set (mem_links (pr_log p) j k)) \<or>
     (\<exists>m l. read_manifest E l w' = Inr m \<and>
       (\<forall>j k. set (mem_links (pr_log p') j k) =
         (if j = sb_bucket_id job \<and> k = m_height m then insert l (set (mem_links (pr_log p) j k))
          else set (mem_links (pr_log p) j k))) \<and>
       (case m_previous m of
          None \<Rightarrow> m_height m = 0 \<and> (\<forall>h. mem_links (pr_log p) (sb_bucket_id job) h = []) \<and> authorised E m m
        | Some prev \<Rightarrow> m_height m \<noteq> 0 \<and> prev \<in> set (mem_links (pr_log p) (sb_bucket_id job) (m_height m - 1)) \<and>
            (\<exists>base. read_manifest E prev w' = Inr base \<and> authorised E base m)) \<and>
       (\<exists>t. read_manifest E (st_link (sb_target job)) w' = Inr t \<and>
         get_share E t (public E (pr_secret_key p)) \<noteq> None)))"
proof (cases "p' = p")
  case True
  then show ?thesis
    using mem_sync_effect [OF laws ok run] ok by simp
next
  case False
  with mem_sync_effect [OF laws ok run] obtain m l ns res where k: "keeps_blobs E w w'"
    and ap: "apply_manifest_chain mem_provider (sb_bucket_id job) ((m, l) # ns) p = (res, p')"
    and read: "read_manifest E l w' = Inr m"
    and prev: "case m_previous m of
         None \<Rightarrow> (\<forall>h. mem_links (pr_log p) (sb_bucket_id job) h = []) \<and> authorised E m m
       | Some prev \<Rightarrow> (\<exists>h. prev \<in> set (mem_links (pr_log p) (sb_bucket_id job) h)) \<and>
           (\<exists>base. read_manifest E prev w' = Inr base \<and> authorised E base m)"
    and target: "\<exists>t. read_manifest E (st_link (sb_target job)) w' = Inr t \<and>
        get_share E t (public E (pr_secret_key p)) \<noteq> None"
    by blast
  from mem_apply_links [OF ok ap] obtain a where
    app: "mem_append (sb_bucket_id job) (m_name m) l (m_previous m) (m_height m) (is_published m) (pr_log p) = (a, pr_log p')"
    and links: "case a of Inl e \<Rightarrow> \<forall>j k. set (mem_links (pr_log p') j k) = set (mem_links (pr_log p) j k)
      | Inr _ \<Rightarrow> (case m_previous m of None \<Rightarrow> m_height m = 0
          | Some prev \<Rightarrow> m_height m \<noteq> 0 \<and> prev \<in> set (mem_links (pr_log p) (sb_bucket_id job) (m_height m - 1))) \<and>
        (\<forall>j k. set (mem_links (pr_log p') j k) =
          (if j = sb_bucket_id job \<and> k = m_height m then insert l (set (mem_links (pr_log p) j k))
           else set (mem_links (pr_log p) j k)))"
    by (fastforce simp: fun_eq_iff split: sum.splits)
  have ok': "mem_ok (pr_log p')"
    using ok app by (rule mem_ok_append)
  have key: "pr_secret_key p' = pr_secret_key p"
    using apply_chain_frame [OF ap] by simp
  show ?thesis
  proof (cases a)
    case (Inl e)
    then show ?thesis
      using ok' k key links by simp
  next
    case (Inr u)
    have "case m_previous m of
        None \<Rightarrow> m_height m = 0 \<and> (\<forall>h. mem_links (pr_log p) (sb_bucket_id job) h = []) \<and> authorised E m m
      | Some prev \<Rightarrow> m_height m \<noteq> 0 \<and> prev \<in> set (mem_links (pr_log p) (sb_bucket_id job) (m_height m - 1)) \<and>
          (\<exists>base. read_manifest E prev w' = Inr base \<and> authorised E base m)"
      using links prev Inr by (auto split: option.splits)
    moreover have "\<forall>j k. set (mem_links (pr_log p') j k) =
        (if j = sb_bucket_id job \<and> k = m_height m then insert l (set (mem_links (pr_log p) j k))
         else set (mem_links (pr_log p) j k))"
      using links Inr by simp
    ultimately show ?thesis
      using ok' k key read target by blast
  qed
qed

section \<open>Sync jobs return\<close>

text \<open>
  The chain is the one a peer has who has all of it (world \<open>wr\<close>); what any world holds under the hashes
  of the chain is what that peer has.
\<close>

lemma read_get_manifest: "get_manifest_from_blobs E l w = Inr m \<Longrightarrow> read_manifest E l w = Inr m"
  by (auto simp: get_manifest_from_blobs_def get_cbor_def blob_get_def res_simps)

definition same_content :: "('w, 'z) blob_ext_scheme \<Rightarrow> 'w \<Rightarrow> 'w \<Rightarrow> link set \<Rightarrow> bool" where
  "same_content E w wr ls \<longleftrightarrow> (\<forall>w' k m. keeps_blobs E w w' \<longrightarrow> k \<in> ls \<longrightarrow>
     read_manifest E k w' = Inr m \<longrightarrow> read_manifest E k wr = Inr m)"

lemma same_contentD:
  "same_content E w wr ls \<Longrightarrow> keeps_blobs E w w' \<Longrightarrow> k \<in> ls \<Longrightarrow> read_manifest E k w' = Inr m \<Longrightarrow>
    read_manifest E k wr = Inr m"
  by (simp add: same_content_def)

lemma same_content_mono: "same_content E w wr ls \<Longrightarrow> keeps_blobs E w w1 \<Longrightarrow> ls' \<subseteq> ls \<Longrightarrow> same_content E w1 wr ls'"
  unfolding same_content_def by (metis keeps_trans subset_iff)

lemma version_chain_head: "version_chain E w l ls \<Longrightarrow> l \<in> set ls"
  by (auto elim: version_chain.cases)

lemma chain_step:
  assumes "version_chain E wr l ls" and "same_content E w wr (set ls)" and "keeps_blobs E w w1"
    and "read_manifest E l w1 = Inr m" and "m_previous m = Some prev"
  shows "\<exists>ls'. version_chain E wr prev ls' \<and> same_content E w1 wr (set ls') \<and> length ls' < length ls"
proof -
  have read: "read_manifest E l wr = Inr m"
    using same_contentD [OF assms(2,3) version_chain_head [OF assms(1)] assms(4)] .
  from assms(1) show ?thesis
  proof cases
    case (genesis m')
    then show ?thesis
      using assms(5) read read_get_manifest [of E l wr m'] by simp
  next
    case (later m' p ls')
    then show ?thesis
      using assms(5) read read_get_manifest [of E l wr m'] same_content_mono [OF assms(2,3), of "set ls'"] by auto
  qed
qed

lemma download_loop_returns:
  assumes laws: "blob_laws E" and "version_chain E wr l ls" and "same_content E w wr (set ls)"
  shows "\<exists>r w'. download_loop E stop ids l acc w = Some (r, w')"
  using assms(2,3)
proof (induction "length ls" arbitrary: l ls acc w rule: less_induct)
  case less
  obtain d w1 where d: "download_hash E (link_hash l) ids w = (d, w1)"
    by fastforce
  have rec: "\<exists>r w'. download_loop E stop ids prev acc' w1 = Some (r, w')"
    if "read_manifest E l w1 = Inr m" "m_previous m = Some prev" for m prev acc'
    using chain_step [OF less.prems keeps_download_hash [OF laws d] that] less.hyps by blast
  show ?case
    by (subst download_loop.simps) (auto simp: d rec split: sum.splits option.splits)
qed

lemma ancestor_loop_returns:
  assumes laws: "blob_laws E" and "version_chain E wr l ls" and "same_content E w wr (set ls)"
  shows "\<exists>r w'. ancestor_loop E has ids l w = Some (r, w')"
  using assms(2,3)
proof (induction "length ls" arbitrary: l ls w rule: less_induct)
  case less
  obtain d w1 where d: "download_hash E (link_hash l) ids w = (d, w1)"
    by fastforce
  have rec: "\<exists>r w'. ancestor_loop E has ids prev w1 = Some (r, w')"
    if "read_manifest E l w1 = Inr m" "m_previous m = Some prev" for m prev
    using chain_step [OF less.prems keeps_download_hash [OF laws d] that] less.hyps by blast
  show ?case
    by (subst ancestor_loop.simps) (auto simp: d rec split: sum.splits option.splits)
qed

text \<open>
  C35: a sync job always returns. If the target version has a chain back to a first version somewhere,
  and hashes mean the same content everywhere, then the job ends, with success or an error, whatever
  the peers answer and whether or not they can be reached.
\<close>

theorem sync_job_returns:
  assumes laws: "blob_laws E" and chain: "version_chain E wr (st_link (sb_target job)) ls"
    and same: "same_content E w wr (set ls)"
  shows "\<exists>r s'. sync_bucket_execute E L job (p, w) = Some (r, s')"
proof -
  let ?t = "st_link (sb_target job)" and ?ids = "st_peer_ids (sb_target job)"
  have goes_on: "\<exists>y. sync_from E L job stop (p, w1) = Some y" if k: "keeps_blobs E w w1" for stop w1
  proof -
    obtain d w2 where "download_loop E stop ?ids ?t [] w1 = Some (d, w2)"
      using download_loop_returns [OF laws chain same_content_mono [OF same k order_refl]] by blast
    then show ?thesis
      by (auto simp: sync_from_def download_manifest_chain_def split: sum.split provenance_result.split prod.split)
  qed
  obtain a w1 where loop: "ancestor_loop E (lp_has L (pr_log p) (sb_bucket_id job)) ?ids ?t w = Some (a, w1)"
    using ancestor_loop_returns [OF laws chain same] by blast
  have "\<exists>y. sync_bucket_execute E L job (p, w) = Some y"
    using goes_on [of w None] goes_on [of w1] ancestor_loop_reaches [OF laws loop]
    by (auto simp: sync_bucket_execute_def loop split: sum.split)
  then show ?thesis
    by (metis prod.collapse)
qed

text \<open>
  A job catches up by one version only. When more than one version is missing (the predecessor
  of the target is not in the log either), the target is still not in the log after the job, however
  it ended: of the chain it downloaded and checked, the job appends just the oldest manifest.
\<close>

theorem sync_catches_up_one_version:
  assumes laws: "blob_laws E" and ok: "mem_ok (pr_log p)"
    and run: "sync_bucket_execute E mem_provider job (p, w) = Some (r, (p', w'))"
    and target: "read_manifest E (st_link (sb_target job)) w' = Inr t" "m_previous t = Some q"
    and missing: "\<forall>h. st_link (sb_target job) \<notin> set (mem_links (pr_log p) (sb_bucket_id job) h)"
      "\<forall>h. q \<notin> set (mem_links (pr_log p) (sb_bucket_id job) h)"
  shows "st_link (sb_target job) \<notin> set (mem_links (pr_log p') (sb_bucket_id job) h)"
proof (cases "p' = p")
  case True
  then show ?thesis
    using missing by simp
next
  case False
  with mem_sync_effect [OF laws ok run] obtain m l ns res where
    ap: "apply_manifest_chain mem_provider (sb_bucket_id job) ((m, l) # ns) p = (res, p')"
    and read: "read_manifest E l w' = Inr m"
    and prev: "\<forall>x. m_previous m = Some x \<longrightarrow> (\<exists>h. x \<in> set (mem_links (pr_log p) (sb_bucket_id job) h))"
    by (fastforce split: option.splits)
  have "l \<noteq> st_link (sb_target job)"
    using read prev target missing(2) by auto
  then show ?thesis
    using mem_apply_subset [OF ok ap] missing(1) by blast
qed

section \<open>A peer at work\<close>

text \<open>Operations that touch nothing of the peer but its queue, and keep the blobs.\<close>

definition only_queue :: "('w, 'z) blob_ext_scheme \<Rightarrow> ('l, 'w) peer_state \<Rightarrow> ('l, 'w) peer_state \<Rightarrow> bool" where
  "only_queue E s s' \<longleftrightarrow> pr_log (fst s') = pr_log (fst s) \<and> pr_secret_key (fst s') = pr_secret_key (fst s) \<and>
     jq_capacity (pr_queue (fst s')) = jq_capacity (pr_queue (fst s)) \<and>
     (queue_ok (pr_queue (fst s)) \<longrightarrow> queue_ok (pr_queue (fst s'))) \<and> keeps_blobs E (snd s) (snd s')"

lemma only_queue_refl [simp]: "only_queue E s s"
  by (simp add: only_queue_def)

lemma only_queue_trans: "only_queue E a b \<Longrightarrow> only_queue E b c \<Longrightarrow> only_queue E a c"
  by (auto simp: only_queue_def intro: keeps_trans)

lemma only_queue_dispatch [simp]: "only_queue E (p, w) (dispatch_logged j p, w)"
  by (simp add: only_queue_def)

lemma only_queue_ping_keys: "ping_keys E0 i us ks p = (r, p') \<Longrightarrow> only_queue E (p, w) (p', w)"
  by (induction E0 i us ks p rule: ping_keys.induct)
    (auto split: if_splits sum.splits key_error.splits intro: only_queue_trans [OF only_queue_dispatch])

lemma only_queue_peer_ping: "peer_ping E L i s = (r, s') \<Longrightarrow> only_queue E s s'"
  by (cases s) (auto simp: peer_ping_def split: sum.splits prod.splits intro: only_queue_ping_keys)

lemma only_queue_ping_buckets: "only_queue E s (ping_buckets E L is s)"
proof (induction E L "is" s rule: ping_buckets.induct)
  case (2 E L i "is" s)
  obtain r s' where ping: "peer_ping E L i s = (r, s')"
    by (cases "peer_ping E L i s") blast
  then show ?case
    using 2 only_queue_peer_ping [OF ping]
    by (auto split: sum.splits sync_error.splits intro: only_queue_trans)
qed simp

lemma only_queue_pings: "only_queue E s (schedule_periodic_pings E L s)"
  by (simp add: schedule_periodic_pings_def only_queue_ping_buckets split: sum.split)

lemma only_queue_handle_ping: "handle_ping E L sender ping s = (reply, s') \<Longrightarrow> only_queue E s s'"
  by (cases s) (auto simp: handle_ping_def handle_message_side_effect_def Let_def
      split: ping_reply_status.splits sum.splits)

lemma only_queue_handle_reply: "handle_reply E L k pong s = (r, s') \<Longrightarrow> only_queue E s s'"
  by (cases s) (auto simp: handle_reply_def split: ping_reply_status.splits sum.splits prod.splits)

lemma only_queue_ping_send:
  assumes "\<forall>k m w. keeps_blobs E w (snd (net k m w))" and "ping_send net E L k ping s = (r, s')"
  shows "only_queue E s s'"
proof -
  obtain x w1 where net: "net k ping (snd s) = (x, w1)"
    by fastforce
  then have "only_queue E s (fst s, w1)"
    using assms(1) by (metis (no_types) only_queue_def fst_conv snd_conv)
  moreover have "only_queue E (fst s, w1) s'"
    using assms(2) net only_queue_handle_reply [of E L k _ "(fst s, w1)"]
    by (cases s) (auto simp: ping_send_def split: sum.splits prod.splits)
  ultimately show ?thesis
    by (rule only_queue_trans)
qed

lemma only_queue_ping_peer:
  assumes "\<forall>k m w. keeps_blobs E w (snd (net k m w))" and "ping_peer_execute net E L job s = (r, s')"
  shows "only_queue E s s'"
  using assms(2)
  by (auto simp: ping_peer_execute_def split: sum.splits prod.splits dest: only_queue_ping_send [OF assms(1)])

lemma only_queue_collect_pings:
  assumes "\<forall>k m w. keeps_blobs E w (snd (net k m w))"
  shows "collect_pings net E L ping ks s results = (results', s') \<Longrightarrow> only_queue E s s'"
proof (induction ks arbitrary: s results)
  case (Cons k ks)
  obtain r s1 where send: "ping_send net E L (snd k) ping s = (r, s1)"
    by (rule prod.exhaust)
  then show ?case
    using Cons only_queue_trans [OF only_queue_ping_send [OF assms send]]
    by (cases k) (auto split: sum.splits)
qed simp

lemma only_queue_ping_and_collect:
  assumes "\<forall>k m w. keeps_blobs E w (snd (net k m w))" and "ping_and_collect net late E L i s = (r, s')"
  shows "only_queue E s s'"
  using assms(2)
  by (auto simp: ping_and_collect_def Let_def split: prod.splits sum.splits if_splits
      dest: only_queue_collect_pings [OF assms(1)])

lemma keeps_download_hash_list:
  assumes "blob_laws E" and "download_hash_list E h ps w = (r, w')"
  shows "keeps_blobs E w w'"
  using assms(2) by (auto simp: download_hash_list_def split: prod.splits sum.splits bool.splits if_splits
      dest: keeps_download_hash [OF assms(1)] keeps_download_each [OF assms(1)] intro: keeps_trans)

lemma only_queue_download_pins:
  "blob_laws E \<Longrightarrow> download_pins_execute E job s = (r, s') \<Longrightarrow> only_queue E s s'"
  by (cases s) (auto simp: download_pins_execute_def only_queue_def split: prod.splits dest: keeps_download_hash_list)

text \<open>
  The steps of a peer: the worker takes a job off the queue, the timer pings, another peer pings, the
  peers of a bucket are asked for their state, a mount is saved.
\<close>

inductive peer_step ::
  "'w network \<Rightarrow> ('w, 'z) mount_ext_scheme \<Rightarrow> (mem_log, 'w) peer_state \<Rightarrow> (mem_log, 'w) peer_state \<Rightarrow> bool"
  for net E where
  work: "jq_jobs (pr_queue p) = j # js \<Longrightarrow>
    execute_job net E mem_provider j (p\<lparr>pr_queue := (pr_queue p)\<lparr>jq_jobs := js\<rparr>\<rparr>, w) = Some (r, s') \<Longrightarrow>
    peer_step net E (p, w) s'"
| tick: "peer_step net E s (schedule_periodic_pings E mem_provider s)"
| message: "handle_ping E mem_provider sender ping s = (reply, s') \<Longrightarrow> peer_step net E s s'"
| collect: "ping_and_collect net late E mem_provider i s = (a, s') \<Longrightarrow> peer_step net E s s'"
| save: "mount_ok E (m, w) \<Longrightarrow> save_mount E mem_provider pub p (m, w) = (r, (p', (m', w'))) \<Longrightarrow>
    peer_step net E (p, w) (p', w')"

inductive peer_run ::
  "'w network \<Rightarrow> ('w, 'z) mount_ext_scheme \<Rightarrow> (mem_log, 'w) peer_state \<Rightarrow> (mem_log, 'w) peer_state \<Rightarrow> bool"
  for net E s where
  run_start: "peer_run net E s s"
| run_step: "peer_run net E s s' \<Longrightarrow> peer_step net E s' s'' \<Longrightarrow> peer_run net E s s''"

text \<open>Every version the log accepted is stored and, if signed, its signature verifies.\<close>

definition backed :: "('w, 'z) blob_ext_scheme \<Rightarrow> mem_log \<Rightarrow> 'w \<Rightarrow> bool" where
  "backed E log w \<longleftrightarrow> (\<forall>i h l. l \<in> set (mem_links log i h) \<longrightarrow>
     (\<exists>m. read_manifest E l w = Inr m \<and> (is_signed m \<longrightarrow> verify_signature E m = Inr True)))"

definition peer_ok :: "('w, 'z) blob_ext_scheme \<Rightarrow> (mem_log, 'w) peer_state \<Rightarrow> bool" where
  "peer_ok E s \<longleftrightarrow> mem_ok (pr_log (fst s)) \<and> queue_ok (pr_queue (fst s)) \<and> backed E (pr_log (fst s)) (snd s)"

text \<open>Nothing is lost from one state to a later one.\<close>

definition grows :: "('w, 'z) blob_ext_scheme \<Rightarrow> (mem_log, 'w) peer_state \<Rightarrow> (mem_log, 'w) peer_state \<Rightarrow> bool" where
  "grows E s s' \<longleftrightarrow> keeps_blobs E (snd s) (snd s') \<and> pr_secret_key (fst s') = pr_secret_key (fst s) \<and>
     jq_capacity (pr_queue (fst s')) = jq_capacity (pr_queue (fst s)) \<and>
     (\<forall>i h. set (mem_links (pr_log (fst s)) i h) \<subseteq> set (mem_links (pr_log (fst s')) i h))"

lemma grows_refl [simp]: "grows E s s"
  by (simp add: grows_def)

lemma grows_trans: "grows E a b \<Longrightarrow> grows E b c \<Longrightarrow> grows E a c"
  unfolding grows_def by (metis (no_types, lifting) keeps_trans order_trans)

lemma backed_keeps: "backed E log w \<Longrightarrow> keeps_blobs E w w' \<Longrightarrow> backed E log w'"
  unfolding backed_def by (meson get_cbor_keeps)

lemma only_queue_ok: "only_queue E s s' \<Longrightarrow> peer_ok E s \<Longrightarrow> peer_ok E s' \<and> grows E s s'"
  by (auto simp: only_queue_def peer_ok_def grows_def backed_keeps)

lemma backed_insert:
  assumes "backed E log w" and "keeps_blobs E w w'"
    and "\<And>i h. set (mem_links log' i h) \<subseteq> insert l (set (mem_links log i h))"
    and "read_manifest E l w' = Inr m" and "is_signed m \<longrightarrow> verify_signature E m = Inr True"
  shows "backed E log' w'"
  using backed_keeps [OF assms(1,2)] assms(3-5) unfolding backed_def by (metis insertE subset_iff)

lemma sync_job_ok:
  assumes laws: "blob_laws E" and ok: "peer_ok E (p, w)"
    and run: "sync_bucket_execute E mem_provider job (p, w) = Some (r, (p', w'))"
  shows "peer_ok E (p', w') \<and> grows E (p, w) (p', w')"
proof (cases "p' = p")
  case True
  moreover have "keeps_blobs E w w'"
    using mem_sync_effect [OF laws _ run] ok by (simp add: peer_ok_def)
  ultimately show ?thesis
    using ok by (auto simp: peer_ok_def grows_def backed_keeps)
next
  case False
  have log: "mem_ok (pr_log p)"
    using ok by (simp add: peer_ok_def)
  from False mem_sync_effect [OF laws log run] obtain m l ns res where k: "keeps_blobs E w w'"
    and ap: "apply_manifest_chain mem_provider (sb_bucket_id job) ((m, l) # ns) p = (res, p')"
    and read: "read_manifest E l w' = Inr m" and auth: "\<exists>b. authorised E b m"
    by (fastforce split: option.splits)
  have sig: "is_signed m \<longrightarrow> verify_signature E m = Inr True"
    using auth by (auto simp: authorised_def)
  have "mem_ok (pr_log p')"
    using mem_apply_links [OF log ap] mem_ok_append [OF log] by blast
  moreover have "backed E (pr_log p') w'"
    using backed_insert [OF _ k mem_apply_subset(2) [OF log ap] read sig] ok by (simp add: peer_ok_def)
  ultimately show ?thesis
    using ok k apply_chain_frame [OF ap] mem_apply_subset(1) [OF log ap] by (simp add: peer_ok_def grows_def)
qed

lemma mem_append_links:
  assumes "mem_append i nm cur prev h pub s = (r, s')"
  shows "set (mem_links s j k) \<subseteq> set (mem_links s' j k) \<and> set (mem_links s' j k) \<subseteq> insert cur (set (mem_links s j k))"
proof (cases r)
  case (Inl e)
  then show ?thesis
    using mem_append_rejected(1) [of i nm cur prev h pub s e s'] assms by auto
next
  case (Inr u)
  then show ?thesis
    using mem_append_accepted(1) [of i nm cur prev h pub s s' j k] assms by auto
qed

lemma keeping_save:
  assumes "blob_laws E"
  shows "keeping E snd (mount_save E pub)"
  unfolding mount_save_def save_version_def by (intro keeping_rules assms)

lemma save_mount_ok:
  assumes laws: "mount_laws E" and ok: "peer_ok E (p, w)" and mok: "mount_ok E (m, w)"
    and run: "save_mount E mem_provider pub p (m, w) = (r, (p', (m', w')))"
  shows "peer_ok E (p', w') \<and> grows E (p, w) (p', w')"
proof -
  obtain a m1 w1 where save: "mount_save E pub (m, w) = (a, (m1, w1))"
    by (metis prod.collapse)
  have k: "keeps_blobs E w w1"
    using keepingD [OF keeping_save [OF mount_laws_blob [OF laws]] save] by simp
  show ?thesis
  proof (cases a)
    case (Inl e)
    then show ?thesis
      using run save ok k by (auto simp: save_mount_def Let_def peer_ok_def grows_def backed_keeps)
  next
    case (Inr x)
    obtain l prev h where x: "x = (l, prev, h)"
      by (cases x) auto
    note saved = save_keeps_mount [OF laws mok save [unfolded Inr x]]
    obtain b log' where ap: "mem_append (m_id (mi_manifest m)) (m_name (mi_manifest m)) l (Some prev) h
        (is_published (mi_manifest m1)) (pr_log p) = (b, log')"
      by fastforce
    have log: "mem_ok (pr_log p)" "backed E (pr_log p) w" "queue_ok (pr_queue p)"
      using ok by (simp_all add: peer_ok_def)
    have links: "set (mem_links (pr_log p) i k) \<subseteq> set (mem_links log' i k)"
      "set (mem_links log' i k) \<subseteq> insert l (set (mem_links (pr_log p) i k))" for i k
      using mem_append_links [OF ap, of i k] by auto
    have fields: "w' = w1" "pr_log p' = log'" "pr_secret_key p' = pr_secret_key p"
      "jq_capacity (pr_queue p') = jq_capacity (pr_queue p)" "queue_ok (pr_queue p')"
      using run save Inr x ap log(3)
      by (auto simp: save_mount_def Let_def split: sum.splits prod.splits dest!: notify_peers_frame)
    have "backed E log' w1"
      using backed_insert [OF log(2) k links(2) read_get_manifest] saved by blast
    then show ?thesis
      using fields k links(1) mem_ok_append [OF log(1) ap] by (simp add: peer_ok_def grows_def)
  qed
qed

text \<open>
  C31: a peer with the in-memory log at work. Whatever sequence of jobs, timers, pings to and from others and saves it
  goes through: the log keeps its invariant, the queue stays within its capacity, every accepted version
  is stored and verifies when it is signed (an unsigned one is accepted too), no accepted version and no blob is lost, and the
  identity of the peer does not change.
\<close>

theorem peer_run_invariant:
  assumes laws: "mount_laws E" and net: "\<forall>k m w. keeps_blobs E w (snd (net k m w))"
    and run: "peer_run net E s s'" and ok: "peer_ok E s"
  shows "peer_ok E s' \<and> grows E s s'"
  using run
proof induction
  case (run_step s' s'')
  note blob = mount_laws_blob [OF laws]
  have ok': "peer_ok E s'" and g: "grows E s s'"
    using run_step.IH by auto
  have "peer_ok E s'' \<and> grows E s' s''"
    using run_step.hyps(2)
  proof cases
    case (work p j js w r)
    let ?p = "p\<lparr>pr_queue := (pr_queue p)\<lparr>jq_jobs := js\<rparr>\<rparr>"
    have oq: "only_queue E (p, w) (?p, w)"
      using work(2) by (auto simp: only_queue_def queue_ok_def split: option.splits)
    note pop = only_queue_ok [OF oq ok' [unfolded work(1)]]
    have "peer_ok E s'' \<and> grows E (?p, w) s''"
    proof (cases j)
      case (SyncBucket job)
      then show ?thesis
        using work(3) sync_job_ok [OF blob, of ?p w job r] pop by (cases s'') (simp add: execute_job_def)
    next
      case (DownloadPins job)
      then show ?thesis
        using work(3) pop by (auto simp: execute_job_def dest: only_queue_download_pins [OF blob] only_queue_ok)
    next
      case (PingPeer job)
      then show ?thesis
        using work(3) pop by (auto simp: execute_job_def dest: only_queue_ping_peer [OF net] only_queue_ok)
    qed
    then show ?thesis
      using pop grows_trans work(1) by blast
  next
    case tick
    then show ?thesis
      using only_queue_ok [OF only_queue_pings ok'] by simp
  next
    case (message sender ping reply)
    then show ?thesis
      using only_queue_ok [OF only_queue_handle_ping ok'] by simp
  next
    case (collect late i a)
    then show ?thesis
      using only_queue_ok [OF only_queue_ping_and_collect [OF net] ok'] by simp
  next
    case (save m w pub p r p' m' w')
    then show ?thesis
      using save_mount_ok [OF laws] ok' by simp
  qed
  then show ?case
    using grows_trans [OF g] by blast
qed (simp add: ok)

section \<open>A concrete run\<close>

text \<open>A peer that has nothing yet syncs towards the second version of a bucket that lists it.\<close>

definition fork_job :: sync_bucket_job where
  "fork_job = \<lparr>sb_bucket_id = 0, sb_target = \<lparr>st_link = fork_link 1, st_height = 1, st_peer_ids = []\<rparr>\<rparr>"

definition fork_peer :: "mem_log peer" where
  "fork_peer = \<lparr>pr_log = mem_new, pr_secret_key = sample_owner,
     pr_queue = \<lparr>jq_capacity = Some 2, jq_jobs = [], jq_connected = True\<rparr>\<rparr>"

lemma fork_store_blob_laws: "blob_laws fork_store" "mount_laws fork_store"
  unfolding fork_store_def by (rule sample_blob_laws, rule sample_laws)

lemma fork_read: "i \<in> {0, 1, 2} \<Longrightarrow> read_manifest fork_store (fork_link i) fork_world = Inr (fork_manifest i)"
  by (rule read_get_manifest [OF fork_get])

lemma fork_download:
  "i \<in> {0, 1, 2} \<Longrightarrow> download_hash fork_store (link_hash (fork_link i)) ids fork_world = (Inr (), fork_world)"
  by (auto simp: download_hash_def blob_stat_def fork_store_def fork_world_def fork_link_def)

lemma fork_loop:
  "download_loop fork_store None ids (fork_link (Suc 0)) [] fork_world =
     Some (Inr [(fork_manifest (Suc 0), fork_link (Suc 0)), (fork_manifest 0, fork_link 0)], fork_world)"
proof -
  have prev: "m_previous (fork_manifest (Suc 0)) = Some (fork_link 0)" "m_previous (fork_manifest 0) = None"
    by (simp_all add: fork_manifest_def sample_manifest_def)
  have last: "download_loop fork_store None ids (fork_link 0) acc fork_world =
      Some (Inr (acc @ [(fork_manifest 0, fork_link 0)]), fork_world)" for acc
    using fork_download [of 0] fork_read [of 0] by (subst download_loop.simps) (simp add: prev)
  show ?thesis
    using fork_download [of "Suc 0"] fork_read [of "Suc 0"]
    by (subst download_loop.simps) (simp add: prev last)
qed

lemma fork_peer_sel: "pr_log fork_peer = mem_new" "pr_secret_key fork_peer = sample_owner"
  by (simp_all add: fork_peer_def)

lemma fork_sync_runs:
  "\<exists>p'. sync_bucket_execute fork_store mem_provider fork_job (fork_peer, fork_world) = Some (Inr (), (p', fork_world)) \<and>
     fork_link 0 \<in> set (mem_links (pr_log p') 0 0)"
proof -
  have unsigned: "\<not> is_signed (fork_manifest i)" for i
    by (simp add: fork_manifest_def sample_manifest_def is_signed_def)
  have listed: "list_ex (\<lambda>(k, _). k = public_key_to_hex fork_store (public fork_store sample_owner)) (m_shares (fork_manifest i))" for i
    by (simp add: fork_manifest_def fork_store_def public_key_to_hex_def public_def sample_owner_def)
  let ?chain = "[(fork_manifest 0, fork_link 0), (fork_manifest (Suc 0), fork_link (Suc 0))]"
  have "\<exists>p'. apply_manifest_chain mem_provider 0 ?chain fork_peer =
      (Inr (), p') \<and> fork_link 0 \<in> set (mem_links (pr_log p') 0 0)"
    by (simp add: apply_manifest_chain_def fork_peer_def mem_append_def mem_new_def hm_or_default_def Let_def
        dispatch_def queue_execute_def queue_full_def mem_links_def mem_heads_def fork_manifest_def sample_manifest_def)
  then obtain p' where ap: "apply_manifest_chain mem_provider 0 ?chain fork_peer =
      (Inr (), p')" and mem: "fork_link 0 \<in> set (mem_links (pr_log p') 0 0)"
    by blast
  have "sync_bucket_execute fork_store mem_provider fork_job (fork_peer, fork_world) = Some (Inr (), (p', fork_world))"
    using ap unsigned listed
    by (simp add: sync_bucket_execute_def sync_from_def fork_job_def mem_exists_def download_manifest_chain_def
        fork_loop verify_author_def verify_provenance_def fork_peer_sel mem_new_def Let_def)
  then show ?thesis
    using mem by blast
qed

theorem sync_appends_only_authorised_witness:
  "\<exists>p'. sync_bucket_execute fork_store mem_provider fork_job (fork_peer, fork_world) = Some (Inr (), (p', fork_world)) \<and>
     fork_link 0 \<in> set (mem_links (pr_log p') 0 0) \<and> mem_ok (pr_log p')"
proof -
  have "mem_ok (pr_log fork_peer)"
    by (simp add: fork_peer_def mem_ok_new)
  then show ?thesis
    using fork_sync_runs sync_appends_only_authorised [OF fork_store_blob_laws(1)] by blast
qed

lemma fork_same: "same_content fork_store fork_world fork_world {fork_link 1, fork_link 0}"
  using get_cbor_keeps [of fork_store fork_world] fork_read [of 0] fork_read [of 1]
  by (fastforce simp: same_content_def)

theorem sync_job_returns_witness:
  "\<exists>r s'. sync_bucket_execute fork_store mem_provider fork_job (fork_peer, fork_world) = Some (r, s')"
  using sync_job_returns [OF fork_store_blob_laws(1), of fork_world fork_job "[fork_link 1, fork_link 0]" fork_world]
    fork_chain [of 0] fork_same by (simp add: fork_job_def)

theorem sync_catches_up_one_version_witness:
  "\<exists>p'. sync_bucket_execute fork_store mem_provider fork_job (fork_peer, fork_world) = Some (Inr (), (p', fork_world)) \<and>
     fork_link 1 \<notin> set (mem_links (pr_log p') 0 1)"
proof -
  obtain p' where run: "sync_bucket_execute fork_store mem_provider fork_job (fork_peer, fork_world) =
      Some (Inr (), (p', fork_world))"
    using fork_sync_runs by blast
  have log: "mem_ok (pr_log fork_peer)" "mem_links (pr_log fork_peer) i h = []" for i h
    by (simp_all add: fork_peer_def mem_ok_new mem_links_new)
  have target: "read_manifest fork_store (st_link (sb_target fork_job)) fork_world = Inr (fork_manifest 1)"
    "m_previous (fork_manifest 1) = Some (fork_link 0)"
    using fork_read [of 1] by (simp_all add: fork_job_def fork_manifest_def)
  show ?thesis
    using sync_catches_up_one_version [OF fork_store_blob_laws(1) log(1) run target, of 1] run log(2)
    by (simp add: fork_job_def)
qed

theorem peer_run_invariant_witness:
  "\<exists>s'. peer_run (\<lambda>k m w. (Inl [], w)) fork_store (fork_peer\<lparr>pr_queue := (pr_queue fork_peer)\<lparr>jq_jobs := [SyncBucket fork_job]\<rparr>\<rparr>,
     fork_world) s' \<and> peer_ok fork_store s' \<and> fork_link 0 \<in> set (mem_links (pr_log (fst s')) 0 0)"
proof -
  let ?p = "fork_peer\<lparr>pr_queue := (pr_queue fork_peer)\<lparr>jq_jobs := [SyncBucket fork_job]\<rparr>\<rparr>"
  let ?net = "\<lambda>(k :: public_key) (m :: ping_message) (w :: sample_world). (Inl [] :: string + ping_reply, w)"
  obtain p' where run: "sync_bucket_execute fork_store mem_provider fork_job (fork_peer, fork_world) =
      Some (Inr (), (p', fork_world))" and mem: "fork_link 0 \<in> set (mem_links (pr_log p') 0 0)"
    using fork_sync_runs by blast
  have "peer_step ?net fork_store (?p, fork_world) (p', fork_world)"
  proof (rule peer_step.work)
    show "jq_jobs (pr_queue ?p) = [SyncBucket fork_job]"
      by simp
    show "execute_job ?net fork_store mem_provider (SyncBucket fork_job)
        (?p\<lparr>pr_queue := (pr_queue ?p)\<lparr>jq_jobs := []\<rparr>\<rparr>, fork_world) = Some (Inr (), (p', fork_world))"
      using run by (simp add: execute_job_def fork_peer_def)
  qed
  then have steps: "peer_run ?net fork_store (?p, fork_world) (p', fork_world)"
    by (rule peer_run.run_step [OF peer_run.run_start])
  have "peer_ok fork_store (?p, fork_world)"
    by (simp add: peer_ok_def fork_peer_def mem_ok_new queue_ok_def backed_def mem_links_new)
  then have "peer_ok fork_store (p', fork_world)"
    using peer_run_invariant [OF fork_store_blob_laws(2) _ steps] by simp
  then show ?thesis
    using steps mem by fastforce
qed

end
