(* ===== verification/Sql_Log.thy ===== *)
theory Sql_Log
  imports Peer
begin

text \<open>
  \<open>daemon/src/database\<close>: the bucket log of the daemon, a table \<open>bucket_log\<close> of an SQLite database
  (\<open>bucket_log_provider.rs\<close>, the queries of the user interface in \<open>bucket_queries.rs\<close>).

  A table is the list of its rows, a query selects from it; the order of rows that a query does not
  order is that of insertion. The columns hold what the program binds: UUIDs (whose text sorts as
  the number), CIDs (their text is read back as the same CID), and \<open>height as i64\<close>, a signed number.
  The primary key is not read by any query and left out. The table has two constraints,
  \<open>UNIQUE(bucket_id, height)\<close> and \<open>UNIQUE(bucket_id, current_link)\<close>
  (\<open>migrations/20251030000000_create_bucket_log.up.sql\<close>). Whether the driver names the constraint that an
  insertion violates is its business: the argument \<open>constraint_name\<close>. Failing connections are not
  modelled.
\<close>

section \<open>The table\<close>

definition as_i64 :: "u64 \<Rightarrow> int" where
  "as_i64 h = sint h"

definition as_u64 :: "int \<Rightarrow> u64" where
  "as_u64 x = word_of_int x"

record bucket_row =
  br_bucket_id :: uuid
  br_name :: string
  br_current_link :: cid
  br_previous_link :: "cid option"
  br_height :: int
  br_published :: bool
  br_created_at :: int

text \<open>The rows and the clock that \<open>CURRENT_TIMESTAMP\<close> reads.\<close>

record database =
  db_rows :: "bucket_row list"
  db_clock :: int

definition rows_of :: "uuid \<Rightarrow> database \<Rightarrow> bucket_row list" where
  "rows_of i db = filter (\<lambda>r. br_bucket_id r = i) (db_rows db)"

definition order_asc :: "bucket_row list \<Rightarrow> bucket_row list" where
  "order_asc rs = sort_key br_height rs"

definition order_desc :: "bucket_row list \<Rightarrow> bucket_row list" where
  "order_desc rs = sort_key (\<lambda>r. - br_height r) rs"

text \<open>A CID column as a link: the conversion panics on codecs that links do not have.\<close>

definition read_cid :: "cid \<Rightarrow> bucket_log_error + link" where
  "read_cid c = map_err LogPanic (link_from_cid c)"

fun collectR :: "('e + 'a) list \<Rightarrow> 'e + 'a list" where
  "collectR [] = Inr []"
| "collectR (r # rs) = bindR r (\<lambda>x. bindR (collectR rs) (\<lambda>xs. Inr (x # xs)))"

datatype unique_constraint = UniqueHeight | UniqueLink

definition violated :: "uuid \<Rightarrow> cid \<Rightarrow> int \<Rightarrow> database \<Rightarrow> unique_constraint option" where
  "violated i c h db =
     (if \<exists>r \<in> set (rows_of i db). br_height r = h then Some UniqueHeight
      else if \<exists>r \<in> set (rows_of i db). br_current_link r = c then Some UniqueLink
      else None)"

section \<open>The provider\<close>

definition sql_new :: database where
  "sql_new = \<lparr>db_rows = [], db_clock = 0\<rparr>"

definition sql_exists :: "database \<Rightarrow> uuid \<Rightarrow> bucket_log_error + bool" where
  "sql_exists db i = Inr (0 < length (rows_of i db))"

definition sql_heads :: "database \<Rightarrow> uuid \<Rightarrow> u64 \<Rightarrow> bucket_log_error + link list" where
  "sql_heads db i h =
     collectR (map (\<lambda>r. read_cid (br_current_link r)) (filter (\<lambda>r. br_height r = as_i64 h) (rows_of i db)))"

definition sql_insert ::
  "(unique_constraint \<Rightarrow> string option) \<Rightarrow> bucket_row \<Rightarrow> database \<Rightarrow> (bucket_log_error + unit) \<times> database" where
  "sql_insert constraint_name r db =
     (case violated (br_bucket_id r) (br_current_link r) (br_height r) db of
        Some v \<Rightarrow> (case constraint_name v of
            Some _ \<Rightarrow> (Inl Conflict, db)
          | None \<Rightarrow> (Inl (Provider ''UNIQUE constraint failed''), db))
      | None \<Rightarrow> (Inr (), db\<lparr>db_rows := db_rows db @ [r]\<rparr>))"

definition new_row :: "uuid \<Rightarrow> string \<Rightarrow> link \<Rightarrow> link option \<Rightarrow> u64 \<Rightarrow> bool \<Rightarrow> int \<Rightarrow> bucket_row" where
  "new_row i nm current previous height published now =
     \<lparr>br_bucket_id = i, br_name = nm, br_current_link = link_to_cid current,
      br_previous_link = map_option link_to_cid previous, br_height = as_i64 height,
      br_published = published, br_created_at = now\<rparr>"

definition sql_append ::
  "(unique_constraint \<Rightarrow> string option) \<Rightarrow> uuid \<Rightarrow> string \<Rightarrow> link \<Rightarrow> link option \<Rightarrow> u64 \<Rightarrow> bool \<Rightarrow> database \<Rightarrow>
     (bucket_log_error + unit) \<times> database" where
  "sql_append constraint_name i nm current previous height published db =
     (let insert = sql_insert constraint_name (new_row i nm current previous height published (db_clock db)) db
      in case previous of
           None \<Rightarrow> (if height \<noteq> 0 then (Inl (InvalidAppend current link_default height), db) else insert)
         | Some prev_link \<Rightarrow>
             (if height = 0 then (Inl (InvalidAppend current prev_link height), db)
              else if length (filter (\<lambda>r. br_current_link r = link_to_cid prev_link \<and>
                        br_height r = as_i64 (height - 1)) (rows_of i db)) = 0
              then (Inl (InvalidAppend current prev_link height), db)
              else insert))"

definition sql_height :: "database \<Rightarrow> uuid \<Rightarrow> bucket_log_error + u64" where
  "sql_height db i =
     (case list_max (map br_height (rows_of i db)) of
        Some h \<Rightarrow> Inr (as_u64 h)
      | None \<Rightarrow> Inl (HeadNotFound 0))"

definition sql_has :: "database \<Rightarrow> uuid \<Rightarrow> link \<Rightarrow> bucket_log_error + u64 list" where
  "sql_has db i l =
     Inr (map (\<lambda>r. as_u64 (br_height r)) (filter (\<lambda>r. br_current_link r = link_to_cid l) (rows_of i db)))"

definition sql_list_buckets :: "database \<Rightarrow> bucket_log_error + uuid list" where
  "sql_list_buckets db = Inr (sort (remdups (map br_bucket_id (db_rows db))))"

definition sql_latest_published :: "database \<Rightarrow> uuid \<Rightarrow> bucket_log_error + (link \<times> u64) option" where
  "sql_latest_published db i =
     (case order_desc (filter br_published (rows_of i db)) of
        [] \<Rightarrow> Inr None
      | r # _ \<Rightarrow> bindR (read_cid (br_current_link r)) (\<lambda>l. Inr (Some (l, as_u64 (br_height r)))))"

definition sql_provider :: "(unique_constraint \<Rightarrow> string option) \<Rightarrow> database log_provider" where
  "sql_provider constraint_name = \<lparr>lp_exists = sql_exists, lp_heads = sql_heads,
     lp_append = sql_append constraint_name, lp_height = sql_height, lp_has = sql_has,
     lp_list_buckets = sql_list_buckets, lp_latest_published = sql_latest_published\<rparr>"

section \<open>Queries of the user interface\<close>

record bucket_info =
  bi_id :: uuid
  bi_name :: string
  bi_link :: link
  bi_created_at :: int

record bucket_log_entry =
  be_bucket_id :: uuid
  be_name :: string
  be_current_link :: link
  be_previous_link :: "link option"
  be_height :: u64
  be_published :: bool
  be_created_at :: int

definition row_info :: "bucket_row \<Rightarrow> bucket_log_error + bucket_info" where
  "row_info r = bindR (read_cid (br_current_link r)) (\<lambda>l.
     Inr \<lparr>bi_id = br_bucket_id r, bi_name = br_name r, bi_link = l, bi_created_at = br_created_at r\<rparr>)"

definition row_entry :: "bucket_row \<Rightarrow> bucket_log_error + bucket_log_entry" where
  "row_entry r =
     bindR (read_cid (br_current_link r)) (\<lambda>l.
     bindR (case br_previous_link r of
              None \<Rightarrow> Inr None
            | Some c \<Rightarrow> bindR (read_cid c) (\<lambda>l. Inr (Some l))) (\<lambda>prev.
     Inr \<lparr>be_bucket_id = br_bucket_id r, be_name = br_name r, be_current_link = l, be_previous_link = prev,
       be_height = as_u64 (br_height r), be_published = br_published r, be_created_at = br_created_at r\<rparr>))"

definition get_bucket_info :: "database \<Rightarrow> uuid \<Rightarrow> bucket_log_error + bucket_info option" where
  "get_bucket_info db i =
     (case order_desc (rows_of i db) of
        [] \<Rightarrow> Inr None
      | r # _ \<Rightarrow> bindR (row_info r) (\<lambda>x. Inr (Some x)))"

text \<open>The \<open>LIKE\<close> of SQLite: \<open>%\<close> is any text, \<open>_\<close> any character, ASCII letters match in either case.\<close>

definition ascii_lower :: "char \<Rightarrow> char" where
  "ascii_lower c = (let n = of_char c :: nat in if 65 \<le> n \<and> n \<le> 90 then char_of (n + 32) else c)"

fun sql_like :: "string \<Rightarrow> string \<Rightarrow> bool" where
  "sql_like [] s = (s = [])"
| "sql_like (p # ps) [] = (p = CHR ''%'' \<and> sql_like ps [])"
| "sql_like (p # ps) (c # s) =
     (if p = CHR ''%'' then sql_like ps (c # s) \<or> sql_like (p # ps) s
      else (p = CHR ''_'' \<or> ascii_lower p = ascii_lower c) \<and> sql_like ps s)"

text \<open>
  The latest row of every bucket whose name matches, newest first. A group of the query is one row,
  since a bucket has one row per height.
\<close>

definition latest_rows :: "database \<Rightarrow> bucket_row list" where
  "latest_rows db = filter (\<lambda>r. Some (br_height r) = list_max (map br_height (rows_of (br_bucket_id r) db))) (db_rows db)"

definition list_bucket_infos ::
  "database \<Rightarrow> string option \<Rightarrow> 32 word option \<Rightarrow> bucket_log_error + bucket_info list" where
  "list_bucket_infos db name_prefix limit =
     (let limit_val = min (case limit of Some n \<Rightarrow> n | None \<Rightarrow> 100) 1000;
          pattern = (case name_prefix of Some p \<Rightarrow> p @ ''%'' | None \<Rightarrow> ''%'')
      in collectR (map row_info (take (unat limit_val)
           (sort_key (\<lambda>r. - br_created_at r) (filter (\<lambda>r. sql_like pattern (br_name r)) (latest_rows db))))))"

text \<open>The product \<open>page * page_size\<close> is one of \<open>u32\<close> values and wraps.\<close>

definition get_bucket_logs ::
  "database \<Rightarrow> uuid \<Rightarrow> 32 word \<Rightarrow> 32 word \<Rightarrow> bucket_log_error + bucket_log_entry list" where
  "get_bucket_logs db i page page_size =
     (let limit = min page_size 100; offset = page * page_size
      in collectR (map row_entry (take (unat limit) (drop (unat offset) (order_desc (rows_of i db))))))"

definition get_all_bucket_logs :: "database \<Rightarrow> uuid \<Rightarrow> bucket_log_error + bucket_log_entry list" where
  "get_all_bucket_logs db i = collectR (map row_entry (order_asc (rows_of i db)))"

definition get_bucket_log_count :: "database \<Rightarrow> uuid \<Rightarrow> int" where
  "get_bucket_log_count db i = int (length (rows_of i db))"


section \<open>The provider keeps the contract\<close>

lemma as_u64_i64 [simp]: "as_u64 (as_i64 h) = h"
  by (simp add: as_u64_def as_i64_def)

lemma as_i64_inject [simp]: "as_i64 a = as_i64 b \<longleftrightarrow> a = b"
  by (metis as_u64_i64)

lemma as_i64_0 [simp]: "as_i64 0 = 0"
  by (simp add: as_i64_def)

text \<open>Below \<open>2 ^ 63\<close> the signed column is the number.\<close>

definition sql_fits :: "link \<Rightarrow> u64 \<Rightarrow> bool" where
  "sql_fits l h \<longleftrightarrow> link_codec l \<in> {LD_RAW_CODEC, LD_CBOR_CODEC} \<and> unat h < 2 ^ 63"

lemma shift_mod: "0 \<le> x \<Longrightarrow> x < 2 * b \<Longrightarrow> (x + b) mod (2 * b) - b = (if x < b then x else x - 2 * (b::int))"
proof (cases "x < b")
  case False
  assume "0 \<le> x" "x < 2 * b"
  then have "(x + b) mod (2 * b) = (x - b) mod (2 * b)"
    using mod_add_self2 [of "x - b" "2 * b"] by (simp add: algebra_simps)
  also have "\<dots> = x - b"
    using False \<open>x < 2 * b\<close> by (intro mod_pos_pos_trivial) auto
  finally show ?thesis
    using False by simp
qed simp

lemma as_i64_cases: "as_i64 h = (if unat h < 2 ^ 63 then int (unat h) else int (unat h) - 2 * 2 ^ 63)"
proof -
  have eq: "sint h = (uint h + 2 ^ 63) mod (2 * 2 ^ 63) - 2 ^ 63"
    by (simp add: sint_uint signed_take_bit_eq_take_bit_shift take_bit_eq_mod)
  have b: "uint h < 2 * 2 ^ 63" "0 \<le> uint h"
    using unsigned_less [of h, where ?'a = int] by auto
  have "uint h < 2 ^ 63 \<longleftrightarrow> unat h < 2 ^ 63"
    using of_nat_less_iff [of "unat h" "2 ^ 63", where ?'a = int] by simp
  then show ?thesis
    unfolding as_i64_def eq shift_mod [OF b(2,1)] by simp
qed

lemma as_i64_small: "unat h < 2 ^ 63 \<Longrightarrow> as_i64 h = int (unat h)"
  by (simp add: as_i64_cases)

lemma as_i64_range: "n \<le> 2 ^ 63 \<Longrightarrow> as_i64 h \<in> {0..<int n} \<longleftrightarrow> unat h < n"
proof -
  assume n: "n \<le> 2 ^ 63"
  have "uint h < 2 * 2 ^ 63"
    using unsigned_less [of h, where ?'a = int] by simp
  moreover have "unat h < m \<longleftrightarrow> uint h < int m" for m
    using of_nat_less_iff [of "unat h" m, where ?'a = int] by simp
  ultimately show ?thesis
    using n by (auto simp: as_i64_cases)
qed

lemma as_u64_int: "as_u64 (int n) = of_nat n"
  by (simp add: as_u64_def)

section \<open>The invariant\<close>

definition row_link :: "bucket_row \<Rightarrow> link" where
  "row_link r = Link (cid_codec (br_current_link r)) (cid_digest (br_current_link r))"

definition valid_row :: "bucket_row \<Rightarrow> bool" where
  "valid_row r \<longleftrightarrow> (\<exists>l. link_codec l \<in> {LD_RAW_CODEC, LD_CBOR_CODEC} \<and> br_current_link r = link_to_cid l)"

lemma link_to_cid_inject [simp]: "link_to_cid a = link_to_cid b \<longleftrightarrow> a = b"
  by (auto simp: link_to_cid_def intro: link.expand)

lemma row_link_new [simp]: "row_link (new_row i nm cur prev h pub t) = cur"
  by (simp add: row_link_def new_row_def link_to_cid_def)

lemma valid_row_read:
  assumes "valid_row r"
  shows "read_cid (br_current_link r) = Inr (row_link r)" and "br_current_link r = link_to_cid (row_link r)"
  using assms by (auto simp: valid_row_def read_cid_def row_link_def link_to_cid_def link_from_cid_def)

lemma collectR_Inr: "(\<And>x. x \<in> set xs \<Longrightarrow> f x = Inr (g x)) \<Longrightarrow> collectR (map f xs) = Inr (map g xs)"
  by (induction xs) auto

text \<open>The heights of a bucket are \<open>0\<close> to the number of its rows.\<close>

definition sql_ok :: "database \<Rightarrow> bool" where
  "sql_ok db \<longleftrightarrow> (\<forall>r \<in> set (db_rows db). valid_row r) \<and>
     (\<forall>i. distinct (map br_current_link (rows_of i db))) \<and>
     (\<forall>i. length (rows_of i db) \<le> 2 ^ 63 \<and> br_height ` set (rows_of i db) = {0..<int (length (rows_of i db))})"

abbreviation at_height :: "database \<Rightarrow> uuid \<Rightarrow> u64 \<Rightarrow> bucket_row list" where
  "at_height db i h \<equiv> filter (\<lambda>r. br_height r = as_i64 h) (rows_of i db)"

lemma sql_ok_valid: "sql_ok db \<Longrightarrow> r \<in> set (rows_of i db) \<Longrightarrow> valid_row r"
  by (simp add: sql_ok_def rows_of_def)

lemma sql_ok_distinct:
  assumes "sql_ok db"
  shows "distinct (map br_height (rows_of i db))" and "distinct (map br_current_link (rows_of i db))"
  using assms by (auto simp: sql_ok_def intro!: card_distinct)

lemma sql_heads_ok: "sql_ok db \<Longrightarrow> sql_heads db i h = Inr (map row_link (at_height db i h))"
  unfolding sql_heads_def by (rule collectR_Inr) (auto intro: valid_row_read(1) sql_ok_valid)

lemma at_height_unique:
  assumes "sql_ok db" and "r \<in> set (at_height db i h)"
  shows "at_height db i h = [r]"
proof -
  have "distinct (at_height db i h)" "\<forall>r' \<in> set (at_height db i h). r' = r"
    using sql_ok_distinct [OF assms(1), of i] assms(2)
    by (auto simp: distinct_map inj_on_def)
  then show ?thesis
    using assms(2) by (cases "at_height db i h"; cases "tl (at_height db i h)") (simp_all del: set_filter)
qed

lemma at_height_nonempty: "sql_ok db \<Longrightarrow> at_height db i h \<noteq> [] \<longleftrightarrow> unat h < length (rows_of i db)"
proof -
  assume ok: "sql_ok db"
  have "at_height db i h \<noteq> [] \<longleftrightarrow> as_i64 h \<in> br_height ` set (rows_of i db)"
    by (simp add: filter_empty_conv image_iff) metis
  then show ?thesis
    using ok as_i64_range by (simp add: sql_ok_def)
qed

lemma rows_of_append [simp]:
  "rows_of i (db\<lparr>db_rows := db_rows db @ [r]\<rparr>) = rows_of i db @ (if br_bucket_id r = i then [r] else [])"
  by (simp add: rows_of_def)

lemma sql_append_rejected: "sql_append cn i nm cur prev h pub db = (Inl e, db') \<Longrightarrow> db' = db"
  by (auto simp: sql_append_def sql_insert_def Let_def split: option.splits if_splits)

lemma sql_append_accepted:
  "sql_append cn i nm cur prev h pub db = (Inr (), db') \<longleftrightarrow>
     db' = db\<lparr>db_rows := db_rows db @ [new_row i nm cur prev h pub (db_clock db)]\<rparr> \<and>
     violated i (link_to_cid cur) (as_i64 h) db = None \<and>
     (case prev of None \<Rightarrow> h = 0
      | Some p \<Rightarrow> h \<noteq> 0 \<and> (\<exists>r \<in> set (at_height db i (h - 1)). br_current_link r = link_to_cid p))"
  by (auto simp: sql_append_def sql_insert_def new_row_def Let_def filter_empty_conv split: option.splits if_splits)

lemma violated_None:
  "violated i c h db = None \<longleftrightarrow> h \<notin> br_height ` set (rows_of i db) \<and> c \<notin> br_current_link ` set (rows_of i db)"
  by (auto simp: violated_def)


text \<open>An accepted version has the next height, as long as the table has room for it.\<close>

lemma accepted_height:
  assumes ok: "sql_ok db" and ap: "sql_append cn i nm cur prev h pub db = (Inr (), db')"
    and room: "length (rows_of i db) < 2 ^ 63"
  shows "unat h = length (rows_of i db)"
proof -
  let ?n = "length (rows_of i db)"
  have new: "\<not> unat h < ?n"
    using ap ok as_i64_range [of ?n h] by (simp add: sql_append_accepted violated_None sql_ok_def)
  show ?thesis
  proof (cases "h = 0")
    case True
    then show ?thesis
      using new by simp
  next
    case False
    then have "at_height db i (h - 1) \<noteq> []"
      using ap by (auto simp: sql_append_accepted filter_empty_conv split: option.splits)
    then have "unat (h - 1) < ?n"
      using at_height_nonempty [OF ok] by simp
    then show ?thesis
      using new False by (simp add: unat_minus_one)
  qed
qed

lemma sql_ok_new: "sql_ok sql_new"
  by (simp add: sql_ok_def sql_new_def rows_of_def)

lemma sql_ok_accepted:
  assumes ok: "sql_ok db" and ap: "sql_append cn i nm cur prev h pub db = (Inr (), db')"
    and codec: "link_codec cur \<in> {LD_RAW_CODEC, LD_CBOR_CODEC}" and room: "length (rows_of i db) < 2 ^ 63"
  shows "sql_ok db'"
proof -
  let ?r = "new_row i nm cur prev h pub (db_clock db)"
  have db': "db' = db\<lparr>db_rows := db_rows db @ [?r]\<rparr>" and new: "violated i (link_to_cid cur) (as_i64 h) db = None"
    using ap by (auto simp: sql_append_accepted)
  have row: "br_bucket_id ?r = i" "br_current_link ?r = link_to_cid cur" "br_height ?r = int (length (rows_of i db))"
    using accepted_height [OF ok ap room] room by (simp_all add: new_row_def as_i64_small)
  have "valid_row ?r"
    using codec row(2) by (auto simp: valid_row_def)
  moreover have "{0..<int (Suc n)} = insert (int n) {0..<int n}" for n
    by auto
  ultimately show ?thesis
    using ok new room row by (auto simp: sql_ok_def db' violated_None simp del: of_nat_Suc)
qed

lemma sql_append_ok:
  assumes "sql_ok db" and "sql_append cn i nm cur prev h pub db = (r, db')" and "r \<noteq> Inr () \<or> sql_fits cur h"
  shows "sql_ok db'"
proof (cases r)
  case (Inl e)
  then show ?thesis
    using assms sql_append_rejected by blast
next
  case (Inr u)
  then have ap: "sql_append cn i nm cur prev h pub db = (Inr (), db')" and fits: "sql_fits cur h"
    using assms by simp_all
  have "as_i64 h \<notin> {0..<int (length (rows_of i db))}"
    using ap assms(1) by (auto simp: sql_append_accepted violated_None sql_ok_def)
  then have "length (rows_of i db) < 2 ^ 63"
    using fits as_i64_range [of "length (rows_of i db)" h] assms(1) by (auto simp: sql_fits_def sql_ok_def not_less)
  then show ?thesis
    using sql_ok_accepted [OF assms(1) ap] fits by (simp add: sql_fits_def)
qed

lemma sql_height_ok:
  assumes "sql_ok db"
  shows "sql_height db i = (if rows_of i db = [] then Inl (HeadNotFound 0)
    else Inr (of_nat (length (rows_of i db) - 1)))"
proof (cases "rows_of i db = []")
  case False
  let ?n = "length (rows_of i db)"
  have "Max (br_height ` set (rows_of i db)) = int (?n - 1)"
    using assms False by (intro Max_eqI) (auto simp: sql_ok_def)
  then show ?thesis
    using False by (simp add: sql_height_def list_max_def as_u64_int)
qed (simp add: sql_height_def list_max_def)

lemma height_i64:
  assumes "sql_ok db" and "r \<in> set (rows_of i db)"
  shows "as_i64 (as_u64 (br_height r)) = br_height r"
proof -
  have "br_height ` set (rows_of i db) = {0..<int (length (rows_of i db))}" "length (rows_of i db) \<le> 2 ^ 63"
    using assms(1) by (simp_all add: sql_ok_def)
  with assms(2) have "br_height r \<in> {0..<int (length (rows_of i db))}" "length (rows_of i db) \<le> 2 ^ 63"
    by blast+
  then obtain n where n: "br_height r = int n" "n < 2 ^ 63"
    by (metis (no_types) atLeastLessThan_iff nonneg_int_cases of_nat_less_iff order_less_le_trans)
  then have "unat (of_nat n :: u64) = n"
    by (simp add: unat_of_nat)
  then show ?thesis
    using n by (simp add: as_u64_int as_i64_small)
qed

interpretation sql: bucket_log sql_ok sql_fits sql_new "sql_append cn" sql_heads sql_height sql_has for cn
proof
  show "sql_ok sql_new"
    by (rule sql_ok_new)
  show "sql_heads sql_new i h = Inr []" for i h
    by (simp add: sql_heads_def sql_new_def rows_of_def)
  show "\<exists>ls. sql_heads s i h = Inr ls" if "sql_ok s" for s i h
    using sql_heads_ok [OF that] by blast
  show "sql_ok s'" if "sql_ok s" "sql_append cn i nm cur prev h pub s = (r, s')" "r \<noteq> Inr () \<or> sql_fits cur h"
    for s i nm cur prev h pub r s'
    using that by (rule sql_append_ok)
  show "sql_heads s' = sql_heads s" if "sql_append cn i nm cur prev h pub s = (Inl e, s')" for i nm cur prev h pub s e s'
    using sql_append_rejected [OF that] by simp
next
  fix i nm cur prev h pub s s'
  assume ok: "sql_ok s" and ap: "sql_append cn i nm cur prev h pub s = (Inr (), s')"
  let ?r = "new_row i nm cur prev h pub (db_clock s)"
  have s': "s' = s\<lparr>db_rows := db_rows s @ [?r]\<rparr>" and new: "violated i (link_to_cid cur) (as_i64 h) s = None"
    using ap by (auto simp: sql_append_accepted)
  have new_row: "br_height ?r = as_i64 h" "br_bucket_id ?r = i"
    by (simp_all add: new_row_def)
  have empty: "at_height s i h = []"
    using new by (auto simp: violated_None filter_empty_conv image_iff)
  have "case prev of None \<Rightarrow> h = 0 | Some p \<Rightarrow> h \<noteq> 0 \<and> p \<in> set (projr (sql_heads s i (h - 1)))"
    using ap valid_row_read(2) [OF sql_ok_valid [OF ok]]
    by (fastforce simp: sql_append_accepted sql_heads_ok [OF ok] split: option.splits)
  moreover have "sql_heads s' i' h' = sql_heads s i' h'" if "(i', h') \<noteq> (i, h)" for i' h'
    using that by (auto simp: sql_heads_def s' new_row_def)
  moreover have "set (projr (sql_heads s' i h)) = {cur}" if "sql_fits cur h"
    using empty sql_heads_ok [OF sql_append_ok [OF ok ap], of i h] that new_row(1,2) by (simp add: s')
  ultimately show "cur \<notin> set (projr (sql_heads s i h)) \<and>
      (case prev of None \<Rightarrow> h = 0 | Some p \<Rightarrow> h \<noteq> 0 \<and> p \<in> set (projr (sql_heads s i (h - 1)))) \<and>
      (sql_fits cur h \<longrightarrow> set (projr (sql_heads s' i h)) = insert cur (set (projr (sql_heads s i h)))) \<and>
      (\<forall>i' h'. (i', h') \<noteq> (i, h) \<longrightarrow> sql_heads s' i' h' = sql_heads s i' h')"
    by (simp add: sql_heads_ok [OF ok] empty)
next
  fix s i
  assume ok: "sql_ok s"
  let ?n = "length (rows_of i s)"
  have heads: "sql_heads s i h \<noteq> Inr [] \<longleftrightarrow> unat h < ?n" for h
    using at_height_nonempty [OF ok, of h i] by (simp add: sql_heads_ok [OF ok])
  have n: "?n \<le> 2 ^ 63"
    using ok by (simp add: sql_ok_def)
  show "sql_height s i = (if \<forall>h. sql_heads s i h = Inr [] then Inl (HeadNotFound 0)
      else Inr (Max {h. sql_heads s i h \<noteq> Inr []}))"
  proof (cases "rows_of i s = []")
    case True
    then show ?thesis
      using heads by (simp add: sql_height_ok [OF ok])
  next
    case False
    have top: "unat (of_nat (?n - 1) :: u64) = ?n - 1"
      using n by (simp add: unat_of_nat)
    have "Max {h. sql_heads s i h \<noteq> Inr []} = of_nat (?n - 1)"
    proof (rule Max_eqI)
      show "finite {h. sql_heads s i h \<noteq> Inr []}"
        by (rule finite_subset [OF subset_UNIV]) simp
      show "h \<le> of_nat (?n - 1)" if "h \<in> {h. sql_heads s i h \<noteq> Inr []}" for h
        using that top unfolding mem_Collect_eq heads word_le_nat_alt by linarith
      show "of_nat (?n - 1) \<in> {h. sql_heads s i h \<noteq> Inr []}"
        using top False unfolding mem_Collect_eq heads by simp
    qed
    moreover have "sql_heads s i 0 \<noteq> Inr []"
      using heads [of 0] False by simp
    ultimately show ?thesis
      using False sql_height_ok [OF ok, of i] by auto
  qed
next
  show "\<exists>hs. sql_has s i l = Inr hs \<and> set hs = {h. l \<in> set (projr (sql_heads s i h))}" if ok: "sql_ok s" for s i l
  proof -
    have cid: "br_current_link r = link_to_cid l \<longleftrightarrow> row_link r = l" if "r \<in> set (rows_of i s)" for r
      using valid_row_read(2) [OF sql_ok_valid [OF ok that]] by (metis link_to_cid_inject)
    have "as_u64 (br_height r) = h \<longleftrightarrow> br_height r = as_i64 h" if "r \<in> set (rows_of i s)" for r h
      using height_i64 [OF ok that] by auto
    then show ?thesis
      using cid by (auto simp: sql_has_def sql_heads_ok [OF ok] image_iff) metis+
  qed
qed


lemma row_height:
  assumes "sql_ok db" and "r \<in> set (rows_of i db)"
  shows "r \<in> set (at_height db i (as_u64 (br_height r)))"
    and "br_height r = int (unat (as_u64 (br_height r)))" and "unat (as_u64 (br_height r)) < length (rows_of i db)"
proof -
  show at: "r \<in> set (at_height db i (as_u64 (br_height r)))"
    using assms height_i64 by simp
  then have "at_height db i (as_u64 (br_height r)) \<noteq> []"
    by (metis empty_iff list.set(1))
  then show less: "unat (as_u64 (br_height r)) < length (rows_of i db)"
    using at_height_nonempty [OF assms(1)] by blast
  then have "unat (as_u64 (br_height r)) < 2 ^ 63"
    using assms(1) by (metis order_less_le_trans sql_ok_def)
  then show "br_height r = int (unat (as_u64 (br_height r)))"
    using height_i64 [OF assms] as_i64_small by metis
qed

text \<open>The latest published version: the published row of greatest height.\<close>

lemma sql_latest_ok:
  assumes ok: "sql_ok db"
  shows "case sql_latest_published db i of
      Inl _ \<Rightarrow> False
    | Inr None \<Rightarrow> \<forall>r \<in> set (rows_of i db). \<not> br_published r
    | Inr (Some (l, h)) \<Rightarrow> \<exists>r \<in> set (at_height db i h). row_link r = l \<and> br_published r \<and>
        (\<forall>r' \<in> set (rows_of i db). br_published r' \<longrightarrow> br_height r' \<le> br_height r)"
proof (cases "order_desc (filter br_published (rows_of i db))")
  case Nil
  then have "set (filter br_published (rows_of i db)) = {}"
    by (metis list.set(1) order_desc_def set_sort)
  then show ?thesis
    using Nil by (simp add: sql_latest_published_def)
next
  case (Cons r rs)
  have set: "set (order_desc (filter br_published (rows_of i db))) = set (filter br_published (rows_of i db))"
    by (simp add: order_desc_def)
  have "sorted (map (\<lambda>r. - br_height r) (order_desc (filter br_published (rows_of i db))))"
    unfolding order_desc_def by (rule sorted_sort_key)
  then have max: "br_height r' \<le> br_height r" if "r' \<in> set (rows_of i db)" "br_published r'" for r'
    using that set Cons by (auto simp: set_eq_iff)
  have r: "r \<in> set (rows_of i db)" "br_published r"
    using set Cons by (auto simp: set_eq_iff)
  then show ?thesis
    using Cons max valid_row_read(1) [OF sql_ok_valid [OF ok r(1)]] row_height(1) [OF ok r(1)]
    by (auto simp: sql_latest_published_def)
qed

interpretation sql_peer: peer_log sql_ok sql_fits sql_new "sql_provider cn" for cn
proof -
  have base: "bucket_log sql_ok sql_fits sql_new (lp_append (sql_provider cn)) (lp_heads (sql_provider cn))
      (lp_height (sql_provider cn)) (lp_has (sql_provider cn))"
    using sql.bucket_log_axioms by (simp add: sql_provider_def)
  show "peer_log sql_ok sql_fits sql_new (sql_provider cn)"
  proof (rule peer_log.intro [OF base], unfold_locales)
    show "lp_exists (sql_provider cn) s i = Inr True" if "sql_ok s" "lp_heads (sql_provider cn) s i h \<noteq> Inr []" for s i h
      using that by (auto simp: sql_provider_def sql_exists_def sql_heads_ok filter_empty_conv)
    show "l \<in> set (projr (lp_heads (sql_provider cn) s i h))"
      if "sql_ok s" "lp_latest_published (sql_provider cn) s i = Inr (Some (l, h))" for s i l h
      using sql_latest_ok [OF that(1), of i] that by (auto simp: sql_provider_def sql_heads_ok)
  qed
qed

section \<open>Reachable databases\<close>

text \<open>States of the table that appends of well-formed links lead to while time passes.\<close>

inductive sql_reachable :: "(unique_constraint \<Rightarrow> string option) \<Rightarrow> database \<Rightarrow> bool" for cn where
  created: "sql_reachable cn sql_new"
| appended: "sql_reachable cn db \<Longrightarrow> link_codec cur \<in> {LD_RAW_CODEC, LD_CBOR_CODEC} \<Longrightarrow>
    sql_append cn i nm cur prev h pub db = (r, db') \<Longrightarrow> sql_reachable cn db'"
| later: "sql_reachable cn db \<Longrightarrow> sql_reachable cn (db\<lparr>db_clock := t\<rparr>)"

lemma rows_of_clock [simp]: "rows_of i (db\<lparr>db_clock := t\<rparr>) = rows_of i db"
  by (simp add: rows_of_def)

lemma rows_of_le: "length (rows_of i db) \<le> length (db_rows db)"
  by (simp add: rows_of_def)

lemma sql_reachable_ok: "sql_reachable cn db \<Longrightarrow> length (db_rows db) < 2 ^ 63 \<Longrightarrow> sql_ok db"
proof (induction rule: sql_reachable.induct)
  case created
  show ?case
    by (rule sql_ok_new)
next
  case (appended db cur i nm prev h pub r db')
  show ?case
  proof (cases r)
    case (Inl e)
    then show ?thesis
      using appended sql_append_rejected by blast
  next
    case (Inr u)
    then have ap: "sql_append cn i nm cur prev h pub db = (Inr (), db')"
      using appended.hyps by simp
    then have len: "length (db_rows db) < 2 ^ 63"
      using appended.prems by (simp add: sql_append_accepted)
    then have "length (rows_of i db) < 2 ^ 63"
      using rows_of_le order_le_less_trans by blast
    then show ?thesis
      using sql_ok_accepted [OF _ ap] appended len by blast
  qed
next
  case (later db t)
  then show ?case
    by (simp add: sql_ok_def)
qed


section \<open>The table and the in-memory log\<close>

text \<open>The in-memory log that saw the accepted appends of a database.\<close>

definition simulates :: "database \<Rightarrow> mem_log \<Rightarrow> bool" where
  "simulates db m \<longleftrightarrow> mem_reachable m \<and>
     (\<forall>i h. mem_links m i h = map row_link (at_height db i h)) \<and>
     (\<forall>r \<in> set (db_rows db). mem_flagged m (br_bucket_id r) (row_link r) = br_published r) \<and>
     (\<forall>i. mem_exists m i = sql_exists db i)"

lemma simulates_new: "simulates sql_new mem_new"
proof -
  have "mem_exists mem_new i = sql_exists sql_new i" for i
    by (simp add: sql_new_def rows_of_def mem_exists_def sql_exists_def mem_new_def)
  then show ?thesis
    by (simp add: simulates_def initial mem_links_new) (simp add: sql_new_def rows_of_def)
qed

lemma mem_flagged_accepted:
  assumes "mem_append i nm cur prev h pub s = (Inr (), s')"
  shows "mem_flagged s' j l = (if j = i \<and> l = cur then pub else mem_flagged s j l)"
    and "mem_exists s' j = Inr (j = i \<or> projr (mem_exists s j))"
proof -
  have "ml_published s' = hm_insert i (hm_insert cur pub (hm_or_default [] (ml_published s) i)) (ml_published s)"
    "\<exists>a b. ml_entries s' = hm_insert i a (hm_insert i b (ml_entries s))"
    using assms by (auto simp: mem_append_eq Let_def split: sum.splits)
  then show "mem_flagged s' j l = (if j = i \<and> l = cur then pub else mem_flagged s j l)"
    "mem_exists s' j = Inr (j = i \<or> projr (mem_exists s j))"
    by (auto simp: mem_flagged_def hm_or_default_update mem_exists_def update_conv')
qed

lemma simulates_append:
  assumes sim: "simulates db m" and ok: "sql_ok db"
    and ap: "sql_append cn i nm cur prev h pub db = (Inr (), db')"
  shows "fst (mem_append i nm cur prev h pub m) = Inr ()" and "simulates db' (snd (mem_append i nm cur prev h pub m))"
proof -
  let ?r = "new_row i nm cur prev h pub (db_clock db)"
  have db': "db' = db\<lparr>db_rows := db_rows db @ [?r]\<rparr>" and new: "violated i (link_to_cid cur) (as_i64 h) db = None"
    and prev: "case prev of None \<Rightarrow> h = 0
      | Some p \<Rightarrow> h \<noteq> 0 \<and> (\<exists>r \<in> set (at_height db i (h - 1)). br_current_link r = link_to_cid p)"
    using ap by (auto simp: sql_append_accepted)
  have row: "br_bucket_id ?r = i" "br_height ?r = as_i64 h" "br_published ?r = pub"
    by (simp_all add: new_row_def)
  have links: "mem_links m j k = map row_link (at_height db j k)" for j k
    using sim by (simp add: simulates_def)
  have empty: "at_height db i h = []"
    using new by (auto simp: violated_None filter_empty_conv image_iff)
  have "mem_check i cur prev h m = Inr ()"
    using prev valid_row_read(2) [OF sql_ok_valid [OF ok]]
    by (fastforce simp: mem_check_ok links empty split: option.splits)
  then show acc: "fst (mem_append i nm cur prev h pub m) = Inr ()"
    by (simp add: mem_append_eq)
  let ?m = "snd (mem_append i nm cur prev h pub m)"
  have ma: "mem_append i nm cur prev h pub m = (Inr (), ?m)"
    using acc by (simp add: prod_eq_iff)
  have "mem_links ?m j k = map row_link (at_height db' j k)" for j k
    using row by (auto simp: mem_append_accepted(1) [OF ma] links db' empty)
  moreover have "mem_flagged ?m (br_bucket_id r) (row_link r) = br_published r" if "r \<in> set (db_rows db)" for r
  proof -
    have "\<not> (br_bucket_id r = i \<and> row_link r = cur)"
    proof
      assume r: "br_bucket_id r = i \<and> row_link r = cur"
      then have "r \<in> set (rows_of i db)"
        using that by (simp add: rows_of_def)
      then have "link_to_cid cur \<in> br_current_link ` set (rows_of i db)"
        using valid_row_read(2) [OF sql_ok_valid [OF ok]] r by (metis image_eqI)
      then show False
        using new by (simp add: violated_None)
    qed
    then show ?thesis
      using sim that by (auto simp: mem_flagged_accepted(1) [OF ma] simulates_def)
  qed
  moreover have "mem_flagged ?m i cur = pub"
    by (simp add: mem_flagged_accepted(1) [OF ma])
  moreover have "mem_exists ?m j = sql_exists db' j" for j
    using sim row by (auto simp: mem_flagged_accepted(2) [OF ma] simulates_def sql_exists_def db')
  ultimately show "simulates db' ?m"
    using sim row mem_reachable_snd by (auto simp: simulates_def db')
qed

lemma simulates_latest:
  assumes sim: "simulates db m" and ok: "sql_ok db"
  shows "sql_latest_published db i = mem_latest_published m i"
proof -
  have mok: "mem_ok m"
    using sim mem.reached_ok [OF mem_reachable_reached] by (simp add: simulates_def)
  obtain x where x: "mem_latest_published m i = Inr x"
    by (cases "mem_latest_published m i") (auto simp: latest_published_scan split: option.splits)
  have flag: "mem_flagged m i (row_link r) = br_published r" if "r \<in> set (rows_of i db)" for r
    using sim that by (auto simp: simulates_def rows_of_def)
  have links: "mem_links m i h = map row_link (at_height db i h)" for h
    using sim by (simp add: simulates_def)
  have all: "row_link r \<in> set (mem_links m i (as_u64 (br_height r)))" if "r \<in> set (rows_of i db)" for r
    using row_height(1) [OF ok that] unfolding links by (metis image_eqI list.set_map)
  show ?thesis
  proof (cases x)
    case None
    then have "\<not> br_published r" if "r \<in> set (rows_of i db)" for r
      using latest_published_accepted [OF mok, of i] x all [OF that] flag [OF that] by auto
    then show ?thesis
      using sql_latest_ok [OF ok, of i] x None row_height(1) [OF ok]
      by (auto split: sum.splits option.splits)
  next
    case (Some y)
    obtain l h where y: "y = (l, h)"
      by fastforce
    then have mem: "l \<in> set (mem_links m i h)" "mem_flagged m i l"
      "\<And>h' l'. l' \<in> set (mem_links m i h') \<Longrightarrow> mem_flagged m i l' \<Longrightarrow> h' \<le> h"
      using latest_published_accepted [OF mok, of i] x Some by auto
    obtain r where r: "r \<in> set (at_height db i h)" "l = row_link r"
      using mem(1) links by auto
    then have rows: "r \<in> set (rows_of i db)" "br_height r = as_i64 h" "br_published r"
      using mem(2) flag by auto
    from sql_latest_ok [OF ok, of i] rows obtain l' h' r' where
      sql: "sql_latest_published db i = Inr (Some (l', h'))" "r' \<in> set (at_height db i h')" "l' = row_link r'"
        "br_published r'" "br_height r \<le> br_height r'"
      by (auto split: sum.splits option.splits)
    then have r': "r' \<in> set (rows_of i db)" "h' = as_u64 (br_height r')" "h = as_u64 (br_height r)"
      using rows by auto
    have "h' \<le> h"
      using mem(3) all [OF r'(1)] flag [OF r'(1)] sql(3,4) r'(2) by blast
    moreover have "h \<le> h'"
      using sql(5) row_height(2) [OF ok rows(1)] row_height(2) [OF ok r'(1)] r'(2,3)
      by (metis of_nat_le_iff word_le_nat_alt)
    ultimately have "r' = r"
      using at_height_unique [OF ok r(1)] at_height_unique [OF ok sql(2)] by simp
    then show ?thesis
      using x Some y sql r(2) \<open>h' \<le> h\<close> \<open>h \<le> h'\<close> by simp
  qed
qed

lemma reachable_simulated:
  "sql_reachable cn db \<Longrightarrow> length (db_rows db) < 2 ^ 63 \<Longrightarrow> \<exists>m. simulates db m"
proof (induction rule: sql_reachable.induct)
  case created
  then show ?case
    using simulates_new by blast
next
  case (appended db cur i nm prev h pub r db')
  show ?case
  proof (cases r)
    case (Inl e)
    then show ?thesis
      using appended sql_append_rejected by blast
  next
    case (Inr u)
    then have ap: "sql_append cn i nm cur prev h pub db = (Inr (), db')"
      using appended.hyps by simp
    then have len: "length (db_rows db) < 2 ^ 63"
      using appended.prems by (simp add: sql_append_accepted)
    then show ?thesis
      using simulates_append(2) [OF _ sql_reachable_ok ap] appended by blast
  qed
next
  case (later db t)
  then show ?case
    by (auto simp: simulates_def sql_exists_def)
qed

text \<open>
  C32: the SQL provider refines the in-memory provider. For every reachable database (of fewer than
  \<open>2 ^ 63\<close> rows) there is a reachable state of the in-memory provider that answers every query of the
  trait in the same way: \<open>exists\<close>, \<open>heads\<close>, \<open>height\<close>, \<open>has\<close>, \<open>latest_published\<close> and \<open>head\<close>.
\<close>

theorem sql_refines_memory:
  assumes "sql_reachable cn db" and "length (db_rows db) < 2 ^ 63"
  shows "\<exists>m. mem_reachable m \<and> (\<forall>i.
    sql_exists db i = mem_exists m i \<and> sql_heads db i = mem_heads m i \<and> sql_height db i = mem_height m i \<and>
    sql_latest_published db i = mem_latest_published m i \<and>
    lp_head (sql_provider cn) db i = lp_head mem_provider m i \<and>
    (\<forall>l. set (projr (sql_has db i l)) = set (projr (mem_has m i l))))"
proof -
  note ok = sql_reachable_ok [OF assms]
  obtain m where sim: "simulates db m"
    using reachable_simulated [OF assms] by blast
  then have mr: "mem_reachable m" and mok: "mem_ok m"
    using mem.reached_ok [OF mem_reachable_reached] by (simp_all add: simulates_def)
  have heads: "sql_heads db i = mem_heads m i" for i
    using sim by (simp add: fun_eq_iff sql_heads_ok [OF ok] mem_heads_links simulates_def)
  have height: "sql_height db i = mem_height m i" for i
    by (simp add: sql.height_max [OF ok] mem.height_max [OF mok] heads)
  have "set (projr (sql_has db i l)) = set (projr (mem_has m i l))" for i l
    using sql.has_heights [OF ok, of i l] mem.has_heights [OF mok, of i l] by (auto simp: heads)
  moreover have "lp_head (sql_provider cn) db i = lp_head mem_provider m i" for i
    by (simp add: lp_head_def sql_provider_def provider_head_def height heads)
  ultimately show ?thesis
    using sim mr heads height simulates_latest [OF sim ok] by (auto simp: simulates_def)
qed


text \<open>
  C33: heights count versions. In a reachable database (of fewer than \<open>2 ^ 63\<close> rows) the heights of a
  bucket are \<open>0, 1, \<dots>\<close> up to the number of its log entries, with one link each, and \<open>height\<close> is one
  less than that number: the signed column never overflows.
\<close>

theorem sql_heights_dense:
  assumes "sql_reachable cn db" and "length (db_rows db) < 2 ^ 63"
  shows "(\<forall>h. (\<exists>l. sql_heads db i h = Inr [l]) \<longleftrightarrow> int (unat h) < get_bucket_log_count db i) \<and>
    (\<forall>h. sql_heads db i h = Inr [] \<longleftrightarrow> get_bucket_log_count db i \<le> int (unat h)) \<and>
    sql_height db i = (if get_bucket_log_count db i = 0 then Inl (HeadNotFound 0)
      else Inr (as_u64 (get_bucket_log_count db i - 1)))"
proof -
  note ok = sql_reachable_ok [OF assms]
  have "\<exists>r. at_height db i h = [r]" if "unat h < length (rows_of i db)" for h
    using at_height_nonempty [OF ok, of h i] at_height_unique [OF ok] that by (metis list.set_sel(1))
  moreover have "at_height db i h = []" if "\<not> unat h < length (rows_of i db)" for h
    using at_height_nonempty [OF ok, of h i] that by blast
  moreover have count: "int (unat h) < get_bucket_log_count db i \<longleftrightarrow> unat h < length (rows_of i db)" for h :: u64
    unfolding get_bucket_log_count_def by (rule of_nat_less_iff)
  ultimately have "(\<exists>l. sql_heads db i h = Inr [l]) \<longleftrightarrow> int (unat h) < get_bucket_log_count db i"
    "sql_heads db i h = Inr [] \<longleftrightarrow> get_bucket_log_count db i \<le> int (unat h)" for h
    unfolding count linorder_not_less [symmetric, of "get_bucket_log_count db i"] sql_heads_ok [OF ok] by fastforce+
  moreover have "int (length (rows_of i db)) - 1 = int (length (rows_of i db) - 1)" if "rows_of i db \<noteq> []"
    using that by (cases "rows_of i db") simp_all
  ultimately show ?thesis
    using sql_height_ok [OF ok, of i] by (auto simp: get_bucket_log_count_def as_u64_int)
qed

text \<open>
  The table refuses concurrent versions. When a bucket already has a version at some height, an
  append of another one on the same predecessor fails and changes nothing; every in-memory log with
  the same heads accepts it. Which error is reported depends on whether the driver names the
  violated constraint.
\<close>

theorem sql_refuses_forks:
  assumes "sql_heads db i h = Inr ls" and "ls \<noteq> []" and "cur \<notin> set ls" and "h \<noteq> 0"
    and "sql_heads db i (h - 1) = Inr ps" and "p \<in> set ps" and "sql_reachable cn db" and "length (db_rows db) < 2 ^ 63"
  shows "sql_append cn i nm cur (Some p) h pub db =
      (Inl (if cn UniqueHeight = None then Provider ''UNIQUE constraint failed'' else Conflict), db) \<and>
    (mem_heads m i = sql_heads db i \<longrightarrow> fst (mem_append i nm cur (Some p) h pub m) = Inr ())"
proof -
  note ok = sql_reachable_ok [OF assms(7,8)]
  have "\<exists>r \<in> set (rows_of i db). br_height r = as_i64 h"
    using assms(1,2) by (auto simp: sql_heads_ok [OF ok] neq_Nil_conv filter_eq_Cons_iff)
  then have v: "violated i (link_to_cid cur) (as_i64 h) db = Some UniqueHeight"
    by (simp add: violated_def)
  obtain r where r: "r \<in> set (rows_of i db)" "br_height r = as_i64 (h - 1)" "row_link r = p"
    using assms(5,6) by (auto simp: sql_heads_ok [OF ok])
  then have "br_current_link r = link_to_cid p"
    using valid_row_read(2) [OF sql_ok_valid [OF ok]] by metis
  then have "filter (\<lambda>r. br_current_link r = link_to_cid p \<and> br_height r = as_i64 (h - 1)) (rows_of i db) \<noteq> []"
    using r by (auto simp: filter_empty_conv)
  then have "sql_append cn i nm cur (Some p) h pub db =
      (Inl (if cn UniqueHeight = None then Provider ''UNIQUE constraint failed'' else Conflict), db)"
    using assms(4) v by (simp add: sql_append_def sql_insert_def new_row_def Let_def split: option.split)
  moreover have "mem_check i cur (Some p) h m = Inr ()" if "mem_heads m i = sql_heads db i"
    using that assms(1,3-6) by (simp add: mem_check_ok mem_links_def)
  ultimately show ?thesis
    by (simp add: mem_append_eq)
qed

text \<open>
  A link whose CID has another codec is stored, and from then on reading the heads at its height
  panics: links that come from other peers are not checked before they are appended.
\<close>

lemma bad_codec_panics:
  assumes ap: "sql_append cn i nm cur prev h pub db = (Inr (), db')"
    and codec: "link_codec cur \<notin> {LD_RAW_CODEC, LD_CBOR_CODEC}"
  shows "sql_heads db' i h = Inl (LogPanic ''unsupported codec'')"
proof -
  have "at_height db i h = []" and db': "db' = db\<lparr>db_rows := db_rows db @ [new_row i nm cur prev h pub (db_clock db)]\<rparr>"
    using ap by (auto simp: sql_append_accepted violated_None filter_empty_conv image_iff)
  then have "at_height db' i h = [new_row i nm cur prev h pub (db_clock db)]"
    by (simp add: new_row_def)
  then show ?thesis
    using codec by (simp add: sql_heads_def read_cid_def link_from_cid_def new_row_def link_to_cid_def)
qed

section \<open>Paging through a history\<close>

lemma concat_pages: "concat (map (\<lambda>k. take n (drop (k * n) xs)) [0..<m]) = take (m * n) xs"
  by (induction m) (simp_all add: add.commute flip: take_add)

lemma collectR_iff: "collectR (map f xs) = Inr ys \<longleftrightarrow> list_all2 (\<lambda>x y. f x = Inr y) xs ys"
  by (induction xs arbitrary: ys) (auto simp: res_simps list_all2_Cons1)

text \<open>
  Pages of at most 100 entries, as long as \<open>page * page_size\<close> does not wrap, cut the history into
  pieces without loss. (A larger page size is cut to 100 entries but still multiplies the offset,
  so entries between the pages are never shown.)
\<close>

lemma pages_cover_history:
  assumes ps: "unat page_size \<le> 100" and big: "length (rows_of i db) \<le> m * unat page_size"
    and wrap: "m * unat page_size < 2 ^ 32" and rows: "\<And>r. r \<in> set (rows_of i db) \<Longrightarrow> row_entry r = Inr (f r)"
  shows "concat (map (\<lambda>k. projr (get_bucket_logs db i (of_nat k) page_size)) [0..<m]) =
    map f (order_desc (rows_of i db))"
proof -
  have page: "get_bucket_logs db i (of_nat k) page_size =
      Inr (map f (take (unat page_size) (drop (k * unat page_size) (order_desc (rows_of i db)))))" if "k < m" for k
  proof -
    have le: "k * unat page_size < 2 ^ 32"
      using wrap that by (meson less_imp_le_nat mult_le_mono1 order_le_less_trans)
    have small: "unat (of_nat n :: 32 word) = n" if "n < 2 ^ 32" for n
      using that by (simp add: unat_of_nat)
    have "of_nat k * page_size = (of_nat (k * unat page_size) :: 32 word)"
      by simp
    then have off: "unat (of_nat k * page_size :: 32 word) = k * unat page_size"
      using le small by metis
    have lim: "unat (min page_size 100) = unat page_size"
      using ps by (simp add: min_def word_le_nat_alt)
    show ?thesis
      unfolding get_bucket_logs_def Let_def off lim
      by (rule collectR_Inr) (auto simp: order_desc_def intro!: rows dest!: in_set_takeD in_set_dropD)
  qed
  have "concat (map (\<lambda>k. projr (get_bucket_logs db i (of_nat k) page_size)) [0..<m]) =
      concat (map (\<lambda>k. take (unat page_size) (drop (k * unat page_size) (map f (order_desc (rows_of i db))))) [0..<m])"
    by (intro arg_cong [of _ _ concat] map_cong) (simp_all add: page take_map drop_map)
  also have "\<dots> = map f (order_desc (rows_of i db))"
    using big by (simp add: concat_pages order_desc_def)
  finally show ?thesis .
qed


section \<open>A concrete table\<close>

text \<open>Two versions of a bucket.\<close>

definition two_versions :: database where
  "two_versions = snd (sql_append (\<lambda>_. None) 0 ''b'' (link_new LD_CBOR_CODEC [2]) (Some (link_new LD_CBOR_CODEC [1])) 1 True
     (snd (sql_append (\<lambda>_. None) 0 ''b'' (link_new LD_CBOR_CODEC [1]) None 0 False sql_new)))"

lemma as_i64_1 [simp]: "as_i64 1 = 1"
  using as_i64_small [of 1] by simp

lemmas sql_run_defs = two_versions_def sql_append_def sql_insert_def new_row_def violated_def rows_of_def sql_new_def
  link_to_cid_def link_from_cid_def read_cid_def

lemma two_versions_reachable: "sql_reachable (\<lambda>_. None) two_versions"
  unfolding two_versions_def
  by (intro sql_reachable.appended [OF sql_reachable.appended [OF sql_reachable.created]])
    (auto simp: prod_eq_iff)

lemma two_versions_rows: "length (db_rows two_versions) < 2 ^ 63"
  by (simp add: sql_run_defs)

lemma two_versions_heads:
  "sql_heads two_versions 0 0 = Inr [link_new LD_CBOR_CODEC [1]]"
  "sql_heads two_versions 0 1 = Inr [link_new LD_CBOR_CODEC [2]]"
  by (simp_all add: sql_heads_def sql_run_defs LD_CBOR_CODEC_def LD_RAW_CODEC_def link_new_def)

theorem sql_refines_memory_witness:
  "\<exists>m. mem_reachable m \<and> mem_heads m 0 1 = Inr [link_new LD_CBOR_CODEC [2]] \<and>
     mem_latest_published m 0 = sql_latest_published two_versions 0"
  using sql_refines_memory [OF two_versions_reachable two_versions_rows] two_versions_heads by metis

theorem sql_heights_dense_witness: "sql_height two_versions 0 = Inr 1 \<and> sql_heads two_versions 0 2 = Inr []"
proof -
  have count: "get_bucket_log_count two_versions 0 = 2"
    by (simp add: get_bucket_log_count_def sql_run_defs)
  show ?thesis
    using sql_heights_dense [OF two_versions_reachable two_versions_rows, of 0] unfolding count
    by (simp add: as_u64_def)
qed

theorem sql_refuses_forks_witness:
  "sql_append (\<lambda>_. None) 0 ''b'' (link_new LD_CBOR_CODEC [3]) (Some (link_new LD_CBOR_CODEC [1])) 1 False two_versions =
     (Inl (Provider ''UNIQUE constraint failed''), two_versions)"
  using sql_refuses_forks [OF two_versions_heads(2), of "link_new LD_CBOR_CODEC [3]", OF _ _ _ _ _ two_versions_reachable two_versions_rows]
    two_versions_heads(1) by (simp add: link_new_def)

end
