(* ===== verification/Inode_Table.thy ===== *)
theory Inode_Table
  imports Paths
begin

text \<open>
  \<open>daemon/src/fuse/inode_table.rs\<close> and \<open>cache.rs\<close>: the inode numbers of the FUSE file system and its
  caches, both keyed by path strings. The hash maps are maps. Strings are lists of characters, and
  the white space that \<open>trim\<close> takes off is that of ASCII.

  The caches are those of the moka crate, which may drop an entry at any time (expiry, eviction):
  a lookup finds what was put last or nothing, and the drop is a step of its own in the theory that
  uses the caches.
\<close>

section \<open>Path strings\<close>

definition is_whitespace :: "char \<Rightarrow> bool" where
  "is_whitespace c \<longleftrightarrow> (let n = of_char c :: nat in n = 32 \<or> 9 \<le> n \<and> n \<le> 13)"

definition trim :: "string \<Rightarrow> string" where
  "trim s = rev (dropWhile is_whitespace (rev (dropWhile is_whitespace s)))"

definition normalize_path :: "string \<Rightarrow> string" where
  "normalize_path path0 =
     (let path = trim path0 in
      if path = [] \<or> path = ''/'' then ''/''
      else let normalized = (if hd path = CHR ''/'' then path else CHR ''/'' # path)
           in if 1 < length normalized \<and> last normalized = CHR ''/'' then butlast normalized else normalized)"

text \<open>\<open>rfind('/')\<close>: the position of the last slash.\<close>

fun rfind_slash :: "string \<Rightarrow> nat option" where
  "rfind_slash [] = None"
| "rfind_slash (c # cs) =
     (case rfind_slash cs of
        Some n \<Rightarrow> Some (Suc n)
      | None \<Rightarrow> (if c = CHR ''/'' then Some 0 else None))"

definition parent_path :: "string \<Rightarrow> string" where
  "parent_path path =
     (let normalized = normalize_path path in
      if normalized = ''/'' then ''/''
      else case rfind_slash normalized of
        Some 0 \<Rightarrow> ''/''
      | Some pos \<Rightarrow> take pos normalized
      | None \<Rightarrow> ''/'')"

definition filename :: "string \<Rightarrow> string" where
  "filename path =
     (let normalized = trim path in
      if normalized = ''/'' \<or> normalized = [] then []
      else case rfind_slash normalized of
        Some pos \<Rightarrow> drop (pos + 1) normalized
      | None \<Rightarrow> normalized)"

section \<open>The inode table\<close>

record inode_table =
  it_path_to_inode :: "string \<rightharpoonup> u64"
  it_inode_to_path :: "u64 \<rightharpoonup> string"
  it_next_inode :: u64

definition ROOT_INODE :: u64 where
  "ROOT_INODE = 1"

definition inode_new :: inode_table where
  "inode_new = \<lparr>it_path_to_inode = [''/'' \<mapsto> ROOT_INODE], it_inode_to_path = [ROOT_INODE \<mapsto> ''/''], it_next_inode = 2\<rparr>"

definition get_or_create :: "string \<Rightarrow> inode_table \<Rightarrow> u64 \<times> inode_table" where
  "get_or_create path t =
     (let normalized = normalize_path path in
      case it_path_to_inode t normalized of
        Some inode \<Rightarrow> (inode, t)
      | None \<Rightarrow>
          (let inode = it_next_inode t
           in (inode, t\<lparr>it_next_inode := inode + 1,
                 it_path_to_inode := (it_path_to_inode t)(normalized \<mapsto> inode),
                 it_inode_to_path := (it_inode_to_path t)(inode \<mapsto> normalized)\<rparr>)))"

definition get_inode :: "string \<Rightarrow> inode_table \<Rightarrow> u64 option" where
  "get_inode path t = it_path_to_inode t (normalize_path path)"

definition get_path :: "u64 \<Rightarrow> inode_table \<Rightarrow> string option" where
  "get_path inode t = it_inode_to_path t inode"

definition inode_remove :: "u64 \<Rightarrow> inode_table \<Rightarrow> string option \<times> inode_table" where
  "inode_remove inode t =
     (case it_inode_to_path t inode of
        Some path \<Rightarrow> (Some path, t\<lparr>it_inode_to_path := (it_inode_to_path t)(inode := None),
                       it_path_to_inode := (it_path_to_inode t)(path := None)\<rparr>)
      | None \<Rightarrow> (None, t))"

definition remove_by_path :: "string \<Rightarrow> inode_table \<Rightarrow> u64 option \<times> inode_table" where
  "remove_by_path path t =
     (let normalized = normalize_path path in
      case it_path_to_inode t normalized of
        Some inode \<Rightarrow> (Some inode, t\<lparr>it_path_to_inode := (it_path_to_inode t)(normalized := None),
                        it_inode_to_path := (it_inode_to_path t)(inode := None)\<rparr>)
      | None \<Rightarrow> (None, t))"

definition inode_rename :: "string \<Rightarrow> string \<Rightarrow> inode_table \<Rightarrow> u64 option \<times> inode_table" where
  "inode_rename old_path new_path t =
     (let old_normalized = normalize_path old_path; new_normalized = normalize_path new_path in
      case it_path_to_inode t old_normalized of
        Some inode \<Rightarrow> (Some inode, t\<lparr>
            it_path_to_inode := ((it_path_to_inode t)(old_normalized := None))(new_normalized \<mapsto> inode),
            it_inode_to_path := (it_inode_to_path t)(inode \<mapsto> new_normalized)\<rparr>)
      | None \<Rightarrow> (None, t))"

definition inode_clear :: "inode_table \<Rightarrow> inode_table" where
  "inode_clear t = t\<lparr>it_path_to_inode := [''/'' \<mapsto> ROOT_INODE], it_inode_to_path := [ROOT_INODE \<mapsto> ''/''],
     it_next_inode := 2\<rparr>"

section \<open>The caches\<close>

record cached_content =
  cc_data :: bytes
  cc_mime_type :: string

record cached_attr =
  ca_size :: u64
  ca_is_dir :: bool
  ca_mime_type :: "string option"
  ca_mtime :: int

record cached_dir_entry =
  cd_name :: string
  cd_is_dir :: bool

record file_cache_config =
  fc_max_size_mb :: "32 word"
  fc_ttl_secs :: "32 word"

definition file_cache_config_default :: file_cache_config where
  "file_cache_config_default = \<lparr>fc_max_size_mb = 100, fc_ttl_secs = 60\<rparr>"

record file_cache =
  fc_content :: "string \<rightharpoonup> cached_content"
  fc_attrs :: "string \<rightharpoonup> cached_attr"
  fc_dirs :: "string \<rightharpoonup> cached_dir_entry list"
  fc_config :: file_cache_config

definition cache_new :: "file_cache_config \<Rightarrow> file_cache" where
  "cache_new config = \<lparr>fc_content = Map.empty, fc_attrs = Map.empty, fc_dirs = Map.empty, fc_config = config\<rparr>"

definition normalize_key :: "string \<Rightarrow> string" where
  "normalize_key path0 =
     (let path = trim path0 in
      if path = [] \<or> path = ''/'' then ''/''
      else let key = (if hd path = CHR ''/'' then path else CHR ''/'' # path)
           in if 1 < length key \<and> last key = CHR ''/'' then butlast key else key)"

definition get_content :: "string \<Rightarrow> file_cache \<Rightarrow> cached_content option" where
  "get_content path c = fc_content c (normalize_key path)"

definition put_content :: "string \<Rightarrow> cached_content \<Rightarrow> file_cache \<Rightarrow> file_cache" where
  "put_content path x c = c\<lparr>fc_content := (fc_content c)(normalize_key path \<mapsto> x)\<rparr>"

definition get_attr :: "string \<Rightarrow> file_cache \<Rightarrow> cached_attr option" where
  "get_attr path c = fc_attrs c (normalize_key path)"

definition put_attr :: "string \<Rightarrow> cached_attr \<Rightarrow> file_cache \<Rightarrow> file_cache" where
  "put_attr path x c = c\<lparr>fc_attrs := (fc_attrs c)(normalize_key path \<mapsto> x)\<rparr>"

definition get_dir :: "string \<Rightarrow> file_cache \<Rightarrow> cached_dir_entry list option" where
  "get_dir path c = fc_dirs c (normalize_key path)"

definition put_dir :: "string \<Rightarrow> cached_dir_entry list \<Rightarrow> file_cache \<Rightarrow> file_cache" where
  "put_dir path x c = c\<lparr>fc_dirs := (fc_dirs c)(normalize_key path \<mapsto> x)\<rparr>"

definition invalidate :: "string \<Rightarrow> file_cache \<Rightarrow> file_cache" where
  "invalidate path c =
     (let key = normalize_key path
      in c\<lparr>fc_content := (fc_content c)(key := None), fc_attrs := (fc_attrs c)(key := None),
           fc_dirs := (fc_dirs c)(key := None)\<rparr>)"

definition invalidate_all :: "file_cache \<Rightarrow> file_cache" where
  "invalidate_all c = c\<lparr>fc_content := Map.empty, fc_attrs := Map.empty, fc_dirs := Map.empty\<rparr>"

text \<open>Only the root prefix invalidates anything.\<close>

definition invalidate_prefix :: "string \<Rightarrow> file_cache \<Rightarrow> file_cache" where
  "invalidate_prefix path c = (if normalize_key path = ''/'' then invalidate_all c else c)"


section \<open>Well-formed path strings\<close>

text \<open>
  The names a kernel sends: not empty, without slash, not \<open>.\<close> or \<open>..\<close>; and not ending in white
  space, which the table and the caches would take off.
\<close>

definition good_name :: "string \<Rightarrow> bool" where
  "good_name n \<longleftrightarrow> n \<noteq> [] \<and> CHR ''/'' \<notin> set n \<and> n \<noteq> ''.'' \<and> n \<noteq> ''..'' \<and> \<not> is_whitespace (last n)"

definition path_str :: "string list \<Rightarrow> string" where
  "path_str ns = (if ns = [] then ''/'' else concat (map (Cons (CHR ''/'')) ns))"

lemma path_str_Nil [simp]: "path_str [] = ''/''"
  by (simp add: path_str_def)

lemma path_str_Cons: "path_str (n # ns) = CHR ''/'' # n @ (if ns = [] then [] else path_str ns)"
  by (simp add: path_str_def)

lemma path_str_snoc: "path_str (ns @ [n]) = (if ns = [] then [] else path_str ns) @ CHR ''/'' # n"
  by (simp add: path_str_def)

lemma trim_id: "s \<noteq> [] \<Longrightarrow> \<not> is_whitespace (hd s) \<Longrightarrow> \<not> is_whitespace (last s) \<Longrightarrow> trim s = s"
  using dropWhile_eq_self_iff [of is_whitespace s] dropWhile_eq_self_iff [of is_whitespace "rev s"]
  by (simp add: trim_def hd_rev)

lemma slash_not_whitespace [simp]: "\<not> is_whitespace (CHR ''/'')"
  by (simp add: is_whitespace_def)

lemma trim_path_str:
  assumes "\<forall>n \<in> set ns. good_name n"
  shows "trim (path_str ns) = path_str ns" and "hd (path_str ns) = CHR ''/''" and "path_str ns \<noteq> []"
    and "ns \<noteq> [] \<Longrightarrow> last (path_str ns) \<noteq> CHR ''/'' \<and> 1 < length (path_str ns)"
proof -
  have hd: "hd (path_str ns) = CHR ''/''" "path_str ns \<noteq> []"
    by (cases ns; simp add: path_str_Cons)+
  have last: "last (path_str ns) \<noteq> CHR ''/'' \<and> \<not> is_whitespace (last (path_str ns)) \<and> 1 < length (path_str ns)"
    if "ns \<noteq> []"
  proof (cases ns rule: rev_cases)
    case (snoc ms n)
    then have n: "n \<noteq> []" "CHR ''/'' \<notin> set n" "\<not> is_whitespace (last n)"
      using assms by (simp_all add: good_name_def)
    then have "last n \<noteq> CHR ''/''"
      using last_in_set by metis
    then show ?thesis
      using n by (simp add: snoc path_str_snoc)
  qed (use that in simp)
  show "trim (path_str ns) = path_str ns"
    using hd last by (cases "ns = []") (auto simp: trim_id)
  show "hd (path_str ns) = CHR ''/''" "path_str ns \<noteq> []"
    "ns \<noteq> [] \<Longrightarrow> last (path_str ns) \<noteq> CHR ''/'' \<and> 1 < length (path_str ns)"
    using hd last by blast+
qed

lemma normalize_path_str:
  "\<forall>n \<in> set ns. good_name n \<Longrightarrow> normalize_path (path_str ns) = path_str ns"
  using trim_path_str [of ns] by (cases "ns = []") (auto simp: normalize_path_def Let_def)

lemma normalize_key_path: "normalize_key = normalize_path"
  by (simp add: normalize_key_def normalize_path_def fun_eq_iff)

lemma path_str_root [simp]: "\<forall>n \<in> set ns. good_name n \<Longrightarrow> path_str ns = ''/'' \<longleftrightarrow> ns = []"
  using trim_path_str(4) [of ns] by (cases "ns = []") auto

lemma rfind_slash_append:
  "CHR ''/'' \<notin> set n \<Longrightarrow> rfind_slash (xs @ CHR ''/'' # n) = Some (length xs)"
proof -
  assume "CHR ''/'' \<notin> set n"
  then have "rfind_slash n = None"
    by (induction n) auto
  then show ?thesis
    by (induction xs) auto
qed

lemma parent_path_str:
  assumes "\<forall>n \<in> set (ns @ [n]). good_name n"
  shows "parent_path (path_str (ns @ [n])) = path_str ns" and "filename (path_str (ns @ [n])) = n"
proof -
  have norm: "normalize_path (path_str (ns @ [n])) = path_str (ns @ [n])" "trim (path_str (ns @ [n])) = path_str (ns @ [n])"
    "path_str (ns @ [n]) \<noteq> ''/''" "path_str (ns @ [n]) \<noteq> []"
    using normalize_path_str [OF assms] trim_path_str(1,3) [OF assms] path_str_root [OF assms] by auto
  have slash: "rfind_slash (path_str (ns @ [n])) = Some (length (if ns = [] then [] else path_str ns))"
    unfolding path_str_snoc using assms by (intro rfind_slash_append) (simp add: good_name_def)
  have "path_str ns \<noteq> []"
    using trim_path_str(3) [of ns] assms by simp
  then show "parent_path (path_str (ns @ [n])) = path_str ns"
    using norm slash by (cases "path_str ns") (auto simp: parent_path_def Let_def path_str_snoc)
  show "filename (path_str (ns @ [n])) = n"
    using norm slash by (simp add: filename_def Let_def path_str_snoc)
qed

lemma components_path_str: "\<forall>n \<in> set ns. good_name n \<Longrightarrow> components (path_str ns) = abs_path ns"
proof -
  assume good: "\<forall>n \<in> set ns. good_name n"
  have "split_slash (concat (map (Cons (CHR ''/'')) ns)) = [] # ns"
    using good
  proof (induction ns)
    case (Cons n ns)
    then show ?case
      by (cases ns) (auto simp: split_slash_append split_slash_no_slash good_name_def)
  qed simp
  moreover have "concat (map part_comp ns) = map Normal ns"
    using good by (induction ns) (auto simp: part_comp_def good_name_def)
  ultimately show ?thesis
    using good by (cases ns) (auto simp: components_def path_str_def part_comp_def)
qed

lemma path_str_inject:
  "\<forall>n \<in> set ns. good_name n \<Longrightarrow> \<forall>n \<in> set ms. good_name n \<Longrightarrow> path_str ns = path_str ms \<longleftrightarrow> ns = ms"
  by (metis components_path_str list.inject rel_path_inject)


section \<open>The invariant of the table\<close>

definition good_path :: "string \<Rightarrow> bool" where
  "good_path p \<longleftrightarrow> (\<exists>ns. (\<forall>n \<in> set ns. good_name n) \<and> p = path_str ns)"

lemma good_path_normal [simp]: "good_path p \<Longrightarrow> normalize_path p = p"
  by (auto simp: good_path_def normalize_path_str)

lemma good_path_root [simp]: "good_path ''/''"
  unfolding good_path_def by (rule exI [of _ "[]"]) simp

text \<open>
  The inode of a path leads back to the path; inodes in use are below the next one; the root is
  inode 1. (The other direction can fail: after a rename onto a known path two inodes have it.)
\<close>

definition inode_ok :: "inode_table \<Rightarrow> bool" where
  "inode_ok t \<longleftrightarrow> (\<forall>p n. it_path_to_inode t p = Some n \<longrightarrow> it_inode_to_path t n = Some p) \<and>
     (\<forall>n p. it_inode_to_path t n = Some p \<longrightarrow> n < it_next_inode t \<and> good_path p) \<and>
     it_path_to_inode t ''/'' = Some ROOT_INODE"

text \<open>Room for \<open>k\<close> more inodes before the counter wraps.\<close>

definition inode_room :: "nat \<Rightarrow> inode_table \<Rightarrow> bool" where
  "inode_room k t \<longleftrightarrow> unat (it_next_inode t) + k < 2 ^ 64"

lemma inode_ok_new: "inode_ok inode_new"
  by (auto simp: inode_ok_def inode_new_def ROOT_INODE_def split: if_splits)

lemma inode_ok_clear: "inode_ok (inode_clear t)"
  by (auto simp: inode_ok_def inode_clear_def ROOT_INODE_def split: if_splits)

lemma inode_room_next:
  assumes "inode_room (Suc k) t"
  shows "unat (it_next_inode t + 1) = unat (it_next_inode t) + 1" and "it_next_inode t < it_next_inode t + 1"
proof -
  have "unat (it_next_inode t) + unat (1 :: u64) < 2 ^ 64"
    using assms by (simp add: inode_room_def)
  then show eq: "unat (it_next_inode t + 1) = unat (it_next_inode t) + 1"
    using unat_add_lem [of "it_next_inode t" 1] by simp
  then show "it_next_inode t < it_next_inode t + 1"
    by (simp add: word_less_nat_alt)
qed

lemma get_or_create_ok:
  assumes ok: "inode_ok t" and room: "inode_room (Suc k) t" and good: "good_path p" and run: "get_or_create p t = (n, t')"
  shows "inode_ok t'" and "inode_room k t'" and "get_path n t' = Some p" and "get_inode p t' = Some n"
    and "get_path m t = Some q \<Longrightarrow> get_path m t' = Some q"
proof -
  note next_ = inode_room_next [OF room]
  have fresh: "m \<noteq> it_next_inode t" if "it_inode_to_path t m = Some q" for m q
    using ok that by (auto simp: inode_ok_def)
  have new: "it_path_to_inode t q \<noteq> Some (it_next_inode t)" for q
    using ok fresh by (auto simp: inode_ok_def)
  have less: "m < it_next_inode t + 1" if "it_inode_to_path t m = Some q" for m q
    using ok that next_(2) by (meson inode_ok_def order_less_trans)
  show "inode_ok t'"
    using ok good run new next_(2) less
    by (auto simp: get_or_create_def Let_def inode_ok_def split: option.splits if_splits)
  show "inode_room k t'"
    using run room next_(1) by (auto simp: get_or_create_def Let_def inode_room_def split: option.splits)
  show "get_path n t' = Some p" "get_inode p t' = Some n"
    using ok good run
    by (auto simp: get_or_create_def Let_def get_path_def get_inode_def inode_ok_def split: option.splits)
  show "get_path m t' = Some q" if "get_path m t = Some q"
    using that fresh run by (auto simp: get_or_create_def Let_def get_path_def split: option.splits)
qed

lemma inode_inject:
  "inode_ok t \<Longrightarrow> it_path_to_inode t a = Some n \<Longrightarrow> it_path_to_inode t b = Some n \<Longrightarrow> a = b"
  by (metis inode_ok_def option.inject)

lemma remove_by_path_ok:
  assumes "inode_ok t" and "good_path p" and "p \<noteq> ''/''"
  shows "inode_ok (snd (remove_by_path p t))" and "get_inode p (snd (remove_by_path p t)) = None"
  using assms inode_inject [OF assms(1)]
  by (auto simp: remove_by_path_def Let_def inode_ok_def get_inode_def split: option.splits if_splits)

lemma inode_rename_ok:
  assumes "inode_ok t" and "good_path p" and "p \<noteq> ''/''" and "good_path q" and "q \<noteq> ''/''"
  shows "inode_ok (snd (inode_rename p q t))"
    and "get_inode p t = Some n \<Longrightarrow> get_inode q (snd (inode_rename p q t)) = Some n \<and> get_path n (snd (inode_rename p q t)) = Some q"
proof -
  show "inode_ok (snd (inode_rename p q t))"
    using assms inode_inject [OF assms(1)]
    by (fastforce simp: inode_rename_def Let_def inode_ok_def split: option.splits if_splits)
  show "get_inode q (snd (inode_rename p q t)) = Some n \<and> get_path n (snd (inode_rename p q t)) = Some q"
    if "get_inode p t = Some n"
    using that assms by (simp add: inode_rename_def get_inode_def get_path_def)
qed

section \<open>Numbering paths\<close>

text \<open>
  What the file system needs of the table: a path that is numbered can be looked up by its number,
  now and after further paths have been numbered.
\<close>

locale path_numbers =
  fixes ok :: "'t \<Rightarrow> bool"
    and room :: "nat \<Rightarrow> 't \<Rightarrow> bool"
    and good :: "string \<Rightarrow> bool"
    and number :: "string \<Rightarrow> 't \<Rightarrow> u64 \<times> 't"
    and path_of :: "u64 \<Rightarrow> 't \<Rightarrow> string option"
  assumes number_ok: "ok t \<Longrightarrow> room (Suc k) t \<Longrightarrow> good p \<Longrightarrow> number p t = (n, t') \<Longrightarrow>
      ok t' \<and> room k t' \<and> path_of n t' = Some p"
    and number_keeps: "ok t \<Longrightarrow> room (Suc k) t \<Longrightarrow> good p \<Longrightarrow> number p t = (n, t') \<Longrightarrow>
      path_of m t = Some q \<Longrightarrow> path_of m t' = Some q"
begin

text \<open>The list version, as a relation between the paths and their numbers.\<close>

inductive numbered :: "string list \<Rightarrow> 't \<Rightarrow> u64 list \<Rightarrow> 't \<Rightarrow> bool" where
  numbered_Nil: "numbered [] t [] t"
| numbered_Cons: "number p t = (n, t1) \<Longrightarrow> numbered ps t1 ns t2 \<Longrightarrow> numbered (p # ps) t (n # ns) t2"

lemma numbered_ok:
  "numbered ps t ns t' \<Longrightarrow> ok t \<Longrightarrow> room (length ps + k) t \<Longrightarrow> \<forall>p \<in> set ps. good p \<Longrightarrow>
     ok t' \<and> room k t' \<and> list_all2 (\<lambda>p n. path_of n t' = Some p) ps ns \<and>
     (\<forall>m q. path_of m t = Some q \<longrightarrow> path_of m t' = Some q)"
proof (induction arbitrary: k rule: numbered.induct)
  case (numbered_Cons p t n t1 ps ns t2)
  have step: "ok t1" "room (length ps + k) t1" "path_of n t1 = Some p"
    using number_ok [OF numbered_Cons.prems(1) _ _ numbered_Cons.hyps(1), of "length ps + k"] numbered_Cons.prems by auto
  have keep: "path_of m t1 = Some q" if "path_of m t = Some q" for m q
    using number_keeps [OF numbered_Cons.prems(1) _ _ numbered_Cons.hyps(1) that, of "length ps + k"] numbered_Cons.prems by auto
  show ?case
    using numbered_Cons.IH [OF step(1,2)] numbered_Cons.prems(3) step(3) keep by auto
qed simp

end

interpretation inodes: path_numbers inode_ok inode_room good_path get_or_create get_path
  by unfold_locales (auto dest: get_or_create_ok)

end
