(* ===== verification/Jax_Fs.thy ===== *)
theory Jax_Fs
  imports File_Ops Inode_Table
begin

text \<open>
  \<open>daemon/src/fuse/jax_fs.rs\<close>: the operations of the FUSE file system over a mount. A request takes
  the state of the file system and returns the reply, an error number or a value, with the state it
  leaves. \<open>FsPanic\<close> is a panic of the session thread. A name that is not valid UTF-8 is \<open>None\<close>; the
  offsets of the protocol are the 64 bits that \<open>as usize\<close> makes of them. \<open>write_flags\<close> are the open
  flags of libc that ask for write access, and \<open>fits\<close> decides when the reply buffer of \<open>readdir\<close> is
  full. The clock, the user and the group that attributes carry are part of the state.
\<close>

section \<open>State\<close>

record write_buffer =
  wb_data :: bytes
  wb_dirty :: bool

record 'w jax_fs =
  jf_mount :: "'w mount_state"
  jf_mount_id :: "128 word"
  jf_inodes :: inode_table
  jf_write_buffers :: "u64 \<rightharpoonup> write_buffer"
  jf_cache :: file_cache
  jf_save_tx :: bool
  jf_save_requests :: "128 word list"
  jf_read_only :: bool
  jf_next_fh :: u64
  jf_now :: int
  jf_user :: "32 word \<times> 32 word"

definition jax_fs_new ::
  "'w mount_state \<Rightarrow> 128 word \<Rightarrow> file_cache_config \<Rightarrow> bool \<Rightarrow> bool \<Rightarrow> int \<Rightarrow> 32 word \<times> 32 word \<Rightarrow> 'w jax_fs" where
  "jax_fs_new m mount_id config read_only save_tx now user =
     \<lparr>jf_mount = m, jf_mount_id = mount_id, jf_inodes = inode_new, jf_write_buffers = Map.empty,
      jf_cache = cache_new config, jf_save_tx = save_tx, jf_save_requests = [], jf_read_only = read_only,
      jf_next_fh = 1, jf_now = now, jf_user = user\<rparr>"

datatype errno = ENOENT | EIO | EROFS | EINVAL | EISDIR | ENOTSUP | FsPanic string

datatype file_type = Directory | RegularFile

record file_attr =
  fa_ino :: u64
  fa_size :: u64
  fa_blocks :: u64
  fa_mtime :: u64
  fa_kind :: file_type
  fa_perm :: nat
  fa_user :: "32 word \<times> 32 word"

type_synonym ('w, 'a) fuse = "'w jax_fs \<Rightarrow> (errno + 'a) \<times> 'w jax_fs"

section \<open>Helpers\<close>

definition BLOCK_SIZE :: u64 where
  "BLOCK_SIZE = 512"

definition next_handle :: "('w, u64) fuse" where
  "next_handle s = (Inr (jf_next_fh s), s\<lparr>jf_next_fh := jf_next_fh s + 1\<rparr>)"

definition should_filter :: "string \<Rightarrow> bool" where
  "should_filter name \<longleftrightarrow> prefix ''._'' name \<or> name = ''.DS_Store'' \<or> name = ''.Spotlight-V100''"

text \<open>\<open>div_ceil\<close> on \<open>u64\<close>, and \<open>mtime as u64\<close>.\<close>

definition div_ceil :: "u64 \<Rightarrow> u64 \<Rightarrow> u64" where
  "div_ceil a b = (if a mod b = 0 then a div b else a div b + 1)"

definition make_attr :: "u64 \<Rightarrow> cached_attr \<Rightarrow> 'w jax_fs \<Rightarrow> file_attr" where
  "make_attr inode attr s =
     \<lparr>fa_ino = inode, fa_size = ca_size attr, fa_blocks = div_ceil (ca_size attr) BLOCK_SIZE,
      fa_mtime = word_of_int (ca_mtime attr), fa_kind = (if ca_is_dir attr then Directory else RegularFile),
      fa_perm = (if ca_is_dir attr then 493 else 420), fa_user = jf_user s\<rparr>"

definition fs_error :: "mount_error \<Rightarrow> errno" where
  "fs_error e = (case e of MtPanic m \<Rightarrow> FsPanic m | _ \<Rightarrow> EIO)"

text \<open>Running an operation of the mount, and reading from it where errors other than panics are dropped.\<close>

definition on_mount :: "('w mount_state \<Rightarrow> (mount_error + 'a) \<times> 'w mount_state) \<Rightarrow> ('w, 'a) fuse" where
  "on_mount f s = (case f (jf_mount s) of (r, m) \<Rightarrow> (map_err fs_error r, s\<lparr>jf_mount := m\<rparr>))"

definition try_mount :: "('w mount_state \<Rightarrow> mount_error + 'a) \<Rightarrow> ('w, 'a option) fuse" where
  "try_mount f s =
     (case f (jf_mount s) of
        Inr x \<Rightarrow> (Inr (Some x), s)
      | Inl (MtPanic m) \<Rightarrow> (Inl (FsPanic m), s)
      | Inl _ \<Rightarrow> (Inr None, s))"

definition on_cache :: "(file_cache \<Rightarrow> file_cache) \<Rightarrow> ('w, unit) fuse" where
  "on_cache f s = (Inr (), s\<lparr>jf_cache := f (jf_cache s)\<rparr>)"

definition number_path :: "string \<Rightarrow> ('w, u64) fuse" where
  "number_path path s = (case get_or_create path (jf_inodes s) of (n, t) \<Rightarrow> (Inr n, s\<lparr>jf_inodes := t\<rparr>))"

definition path_of_inode :: "u64 \<Rightarrow> ('w, string) fuse" where
  "path_of_inode ino s =
     (case get_path ino (jf_inodes s) of Some p \<Rightarrow> (Inr p, s) | None \<Rightarrow> (Inl ENOENT, s))"

definition child_path :: "string \<Rightarrow> string \<Rightarrow> string" where
  "child_path base name = (if base = ''/'' then CHR ''/'' # name else base @ CHR ''/'' # name)"

definition request_save :: "('w, unit) fuse" where
  "request_save s =
     (Inr (), if jf_save_tx s then s\<lparr>jf_save_requests := jf_save_requests s @ [jf_mount_id s]\<rparr> else s)"

definition fail_if :: "bool \<Rightarrow> errno \<Rightarrow> ('w, unit) fuse" where
  "fail_if b e s = (if b then Inl e else Inr (), s)"

definition the_name :: "errno \<Rightarrow> string option \<Rightarrow> ('w, string) fuse" where
  "the_name e name s = (ok_or e name, s)"

definition vec_resize :: "nat \<Rightarrow> bytes \<Rightarrow> bytes" where
  "vec_resize n d = take n d @ replicate (n - length d) 0"

section \<open>Reading through the caches\<close>

text \<open>The attributes of an entry of a listing; the size of a file is that of its content.\<close>

definition entry_attr ::
  "('w, 'z) mount_ext_scheme \<Rightarrow> path \<times> node_link \<Rightarrow> ('w, cached_attr) fuse" where
  "entry_attr E = (\<lambda>(entry_path, l).
     bindS (if is_dir l then (\<lambda>s. (Inr 0, s))
            else bindS (try_mount (mount_cat E (push [RootDir] entry_path))) (\<lambda>r s.
              (Inr (case r of Some data \<Rightarrow> of_nat (length data) | None \<Rightarrow> 0), s)))
       (\<lambda>size s. (Inr \<lparr>ca_size = size, ca_is_dir = is_dir l, ca_mime_type = None, ca_mtime = jf_now s\<rparr>, s)))"

definition load_attr ::
  "('w, 'z) mount_ext_scheme \<Rightarrow> string \<Rightarrow> ('w, cached_attr option) fuse" where
  "load_attr E path =
     (if path = ''/'' then (\<lambda>s. (Inr (Some \<lparr>ca_size = 0, ca_is_dir = True, ca_mime_type = None, ca_mtime = jf_now s\<rparr>), s))
      else bindS (try_mount (mount_ls E (components (parent_path path)))) (\<lambda>r.
        case r of
          None \<Rightarrow> (\<lambda>s. (Inr None, s))
        | Some entries \<Rightarrow>
            (case find (\<lambda>(entry_path, l). file_name entry_path = Some (filename path)) entries of
               None \<Rightarrow> (\<lambda>s. (Inr None, s))
             | Some e \<Rightarrow> bindS (entry_attr E e) (\<lambda>a s. (Inr (Some a), s)))))"

definition fetch_attr :: "('w, 'z) mount_ext_scheme \<Rightarrow> string \<Rightarrow> ('w, cached_attr option) fuse" where
  "fetch_attr E path s =
     (case get_attr path (jf_cache s) of
        Some attr \<Rightarrow> (Inr (Some attr), s)
      | None \<Rightarrow> bindS (load_attr E path) (\<lambda>r.
          case r of
            None \<Rightarrow> (\<lambda>s. (Inr None, s))
          | Some attr \<Rightarrow> bindS (on_cache (put_attr path attr)) (\<lambda>_ s. (Inr (Some attr), s))) s)"

definition dir_entries :: "(path, node_link) btree \<Rightarrow> cached_dir_entry list" where
  "dir_entries entries = concat (map (\<lambda>(entry_path, l).
     case file_name entry_path of
       None \<Rightarrow> []
     | Some name \<Rightarrow> if should_filter name then [] else [\<lparr>cd_name = name, cd_is_dir = is_dir l\<rparr>]) entries)"

definition fetch_dir :: "('w, 'z) mount_ext_scheme \<Rightarrow> string \<Rightarrow> ('w, cached_dir_entry list option) fuse" where
  "fetch_dir E path s =
     (case get_dir path (jf_cache s) of
        Some entries \<Rightarrow> (Inr (Some entries), s)
      | None \<Rightarrow> bindS (try_mount (mount_ls E (components path))) (\<lambda>r.
          case r of
            None \<Rightarrow> (\<lambda>s. (Inr None, s))
          | Some entries \<Rightarrow> bindS (on_cache (put_dir path (dir_entries entries))) (\<lambda>_ s.
              (Inr (Some (dir_entries entries)), s))) s)"

definition fetch_content :: "('w, 'z) mount_ext_scheme \<Rightarrow> string \<Rightarrow> ('w, cached_content option) fuse" where
  "fetch_content E path s =
     (case get_content path (jf_cache s) of
        Some content \<Rightarrow> (Inr (Some content), s)
      | None \<Rightarrow> bindS (try_mount (mount_cat E (components path))) (\<lambda>r.
          case r of
            None \<Rightarrow> (\<lambda>s. (Inr None, s))
          | Some data \<Rightarrow>
              (let content = \<lparr>cc_data = data, cc_mime_type = ''application/octet-stream''\<rparr>
               in bindS (on_cache (put_content path content)) (\<lambda>_ s. (Inr (Some content), s)))) s)"

section \<open>Requests\<close>

definition handle_truncate ::
  "('w, 'z) mount_ext_scheme \<Rightarrow> string \<Rightarrow> u64 \<Rightarrow> u64 option \<Rightarrow> ('w, unit) fuse" where
  "handle_truncate E path new_size fh =
     bindS (fetch_attr E path) (\<lambda>attr.
     bindS (fail_if (case attr of Some a \<Rightarrow> ca_is_dir a | None \<Rightarrow> False) EISDIR) (\<lambda>_ s.
     case Option.bind fh (\<lambda>h. map_option (Pair h) (jf_write_buffers s h)) of
       Some (h, b) \<Rightarrow> (Inr (), s\<lparr>jf_write_buffers :=
         (jf_write_buffers s)(h \<mapsto> \<lparr>wb_data = vec_resize (unat new_size) (wb_data b), wb_dirty = True\<rparr>)\<rparr>)
     | None \<Rightarrow>
         bindS (if new_size = 0 then on_mount (mount_add E (components path) (Inr []))
                else bindS (try_mount (mount_cat E (components path))) (\<lambda>current.
                  let new_data = vec_resize (unat new_size) (case current of Some d \<Rightarrow> d | None \<Rightarrow> [])
                  in on_mount (mount_add E (components path) (Inr new_data)))) (\<lambda>_.
         bindS (on_cache (invalidate path)) (\<lambda>_. request_save)) s))"

definition fs_lookup :: "('w, 'z) mount_ext_scheme \<Rightarrow> u64 \<Rightarrow> string option \<Rightarrow> ('w, file_attr) fuse" where
  "fs_lookup E par name0 =
     bindS (the_name ENOENT name0) (\<lambda>name.
     bindS (fail_if (should_filter name) ENOENT) (\<lambda>_.
     bindS (path_of_inode par) (\<lambda>parent_path.
     let path = child_path parent_path name in
     bindS (fetch_attr E path) (\<lambda>r.
     case r of
       None \<Rightarrow> (\<lambda>s. (Inl ENOENT, s))
     | Some attr \<Rightarrow> bindS (number_path path) (\<lambda>inode s. (Inr (make_attr inode attr s), s))))))"

definition fs_getattr :: "('w, 'z) mount_ext_scheme \<Rightarrow> u64 \<Rightarrow> ('w, file_attr) fuse" where
  "fs_getattr E ino =
     bindS (path_of_inode ino) (\<lambda>path.
     bindS (fetch_attr E path) (\<lambda>r s.
     case r of None \<Rightarrow> (Inl ENOENT, s) | Some attr \<Rightarrow> (Inr (make_attr ino attr s), s)))"

text \<open>\<open>setattr\<close> looks at the size and the modification time (\<open>TimeOrNow\<close>; seconds before the epoch are now).\<close>

datatype time_or_now = SpecificTime int | Now

definition fs_setattr ::
  "('w, 'z) mount_ext_scheme \<Rightarrow> u64 \<Rightarrow> u64 option \<Rightarrow> time_or_now option \<Rightarrow> u64 option \<Rightarrow> ('w, file_attr) fuse" where
  "fs_setattr E ino size_arg mtime fh =
     bindS (path_of_inode ino) (\<lambda>path.
     bindS (case size_arg of
              None \<Rightarrow> (\<lambda>s. (Inr (), s))
            | Some new_size \<Rightarrow> (\<lambda>s. if jf_read_only s then (Inl EROFS, s) else handle_truncate E path new_size fh s)) (\<lambda>_.
     bindS (case mtime of
              None \<Rightarrow> (\<lambda>s. (Inr (), s))
            | Some t \<Rightarrow> bindS (fetch_attr E path) (\<lambda>r s.
                let new_mtime = (case t of SpecificTime x \<Rightarrow> (if 0 \<le> x then x else jf_now s) | Now \<Rightarrow> jf_now s)
                in case r of
                     None \<Rightarrow> (Inr (), s)
                   | Some attr \<Rightarrow> on_cache (put_attr path (attr\<lparr>ca_mtime := new_mtime\<rparr>)) s)) (\<lambda>_.
     bindS (fetch_attr E path) (\<lambda>r s.
     case r of None \<Rightarrow> (Inl ENOENT, s) | Some attr \<Rightarrow> (Inr (make_attr ino attr s), s)))))"

type_synonym dir_entry = "u64 \<times> file_type \<times> string"

fun number_entries :: "string \<Rightarrow> cached_dir_entry list \<Rightarrow> inode_table \<Rightarrow> dir_entry list \<times> inode_table" where
  "number_entries path [] t = ([], t)"
| "number_entries path (e # es) t =
     (case get_or_create (child_path path (cd_name e)) t of
        (n, t1) \<Rightarrow> (case number_entries path es t1 of
           (ds, t2) \<Rightarrow> ((n, if cd_is_dir e then Directory else RegularFile, cd_name e) # ds, t2)))"

text \<open>The entries that the reply buffer takes, with the offset of the one after each.\<close>

fun fill_reply ::
  "((nat \<times> dir_entry) list \<Rightarrow> bool) \<Rightarrow> (nat \<times> dir_entry) list \<Rightarrow> (nat \<times> dir_entry) list \<Rightarrow> (nat \<times> dir_entry) list" where
  "fill_reply fits acc [] = acc"
| "fill_reply fits acc (e # es) =
     (if fits (acc @ [e]) then fill_reply fits (acc @ [e]) es else acc)"

definition fs_readdir ::
  "('w, 'z) mount_ext_scheme \<Rightarrow> ((nat \<times> dir_entry) list \<Rightarrow> bool) \<Rightarrow> u64 \<Rightarrow> u64 \<Rightarrow> ('w, (nat \<times> dir_entry) list) fuse" where
  "fs_readdir E fits ino offset =
     bindS (path_of_inode ino) (\<lambda>path.
     bindS (fetch_dir E path) (\<lambda>r.
     case r of
       None \<Rightarrow> (\<lambda>s. (Inl EIO, s))
     | Some entries \<Rightarrow>
         bindS (if ino = ROOT_INODE then (\<lambda>s. (Inr ino, s)) else number_path (parent_path path)) (\<lambda>parent_ino s.
         case number_entries path entries (jf_inodes s) of
           (ds, t) \<Rightarrow>
             (let all_entries = (ino, Directory, ''.'') # (parent_ino, Directory, ''..'') # ds
              in (Inr (fill_reply fits [] (drop (unat offset) (zip [1..<length all_entries + 1] all_entries))),
                  s\<lparr>jf_inodes := t\<rparr>)))))"

text \<open>
  A slice \<open>data[start..end]\<close> with \<open>start = offset as usize\<close> and \<open>end = (offset + size).min(len)\<close>; the sum
  wraps, and a slice that ends before it starts panics.
\<close>

definition read_slice :: "bytes \<Rightarrow> u64 \<Rightarrow> 32 word \<Rightarrow> errno + bytes" where
  "read_slice data offset count =
     (let start = unat offset; fin = min (unat (offset + ucast count)) (length data)
      in if fin < start then Inl (FsPanic ''slice index starts after its end'')
         else Inr (take (fin - start) (drop start data)))"

definition fs_read ::
  "('w, 'z) mount_ext_scheme \<Rightarrow> u64 \<Rightarrow> u64 \<Rightarrow> u64 \<Rightarrow> 32 word \<Rightarrow> ('w, bytes) fuse" where
  "fs_read E ino fh offset count s =
     (case Option.bind (jf_write_buffers s fh) (\<lambda>b. if unat offset < length (wb_data b) then Some b else None) of
        Some b \<Rightarrow> (read_slice (wb_data b) offset count, s)
      | None \<Rightarrow>
          bindS (path_of_inode ino) (\<lambda>path.
          bindS (fetch_content E path) (\<lambda>r s.
          case r of
            None \<Rightarrow> (Inl EIO, s)
          | Some content \<Rightarrow>
              (if unat offset < length (cc_data content) then read_slice (cc_data content) offset count
               else Inr [], s))) s)"

definition fs_open ::
  "32 word \<Rightarrow> ('w, 'z) mount_ext_scheme \<Rightarrow> u64 \<Rightarrow> 32 word \<Rightarrow> ('w, u64) fuse" where
  "fs_open write_flags E ino flags =
     bindS (path_of_inode ino) (\<lambda>path.
     bindS (fetch_attr E path) (\<lambda>attr.
     bindS (fail_if (attr = None) ENOENT) (\<lambda>_.
     bindS (\<lambda>s. fail_if (jf_read_only s \<and> and flags write_flags \<noteq> 0) EROFS s) (\<lambda>_.
     next_handle))))"

definition fs_write :: "u64 \<Rightarrow> u64 \<Rightarrow> bytes \<Rightarrow> ('w, 32 word) fuse" where
  "fs_write fh offset data s =
     (if jf_read_only s then (Inl EROFS, s)
      else
        (let b = (case jf_write_buffers s fh of Some b \<Rightarrow> b | None \<Rightarrow> \<lparr>wb_data = [], wb_dirty = False\<rparr>);
             start = unat offset;
             fin = unat (offset + of_nat (length data));
             d = (if length (wb_data b) < fin then vec_resize fin (wb_data b) else wb_data b)
         in if fin < start
            then (Inl (FsPanic ''slice index starts after its end''),
                  s\<lparr>jf_write_buffers := (jf_write_buffers s)(fh \<mapsto> b\<lparr>wb_data := d\<rparr>)\<rparr>)
            else (Inr (of_nat (length data)), s\<lparr>jf_write_buffers := (jf_write_buffers s)
                   (fh \<mapsto> \<lparr>wb_data = take start d @ data @ drop fin d, wb_dirty = True\<rparr>)\<rparr>)))"

definition fs_flush :: "('w, 'z) mount_ext_scheme \<Rightarrow> u64 \<Rightarrow> u64 \<Rightarrow> ('w, unit) fuse" where
  "fs_flush E ino fh s =
     (if jf_read_only s then (Inr (), s)
      else bindS (path_of_inode ino) (\<lambda>path s.
        case jf_write_buffers s fh of
          Some b \<Rightarrow>
            (if wb_dirty b then
               bindS (on_mount (mount_add E (components path) (Inr (wb_data b)))) (\<lambda>_ s.
               bindS (on_cache (invalidate path)) (\<lambda>_. request_save)
                 (s\<lparr>jf_write_buffers := (jf_write_buffers s)(fh \<mapsto> b\<lparr>wb_dirty := False\<rparr>)\<rparr>)) s
             else (Inr (), s))
        | None \<Rightarrow> (Inr (), s)) s)"

definition fs_release :: "u64 \<Rightarrow> ('w, unit) fuse" where
  "fs_release fh s = (Inr (), s\<lparr>jf_write_buffers := (jf_write_buffers s)(fh := None)\<rparr>)"

definition fs_create ::
  "('w, 'z) mount_ext_scheme \<Rightarrow> u64 \<Rightarrow> string option \<Rightarrow> ('w, file_attr \<times> u64) fuse" where
  "fs_create E par name0 =
     bindS (\<lambda>s. fail_if (jf_read_only s) EROFS s) (\<lambda>_.
     bindS (the_name EINVAL name0) (\<lambda>name.
     bindS (path_of_inode par) (\<lambda>parent_path.
     let path = child_path parent_path name in
     bindS (on_mount (mount_add E (components path) (Inr []))) (\<lambda>_.
     bindS (number_path path) (\<lambda>inode s.
     let attr = \<lparr>ca_size = 0, ca_is_dir = False, ca_mime_type = None, ca_mtime = jf_now s\<rparr> in
     bindS (on_cache (put_attr path attr)) (\<lambda>_.
     bindS next_handle (\<lambda>fh s.
     (Inr (make_attr inode attr s, fh),
      s\<lparr>jf_write_buffers := (jf_write_buffers s)(fh \<mapsto> \<lparr>wb_data = [], wb_dirty = False\<rparr>)\<rparr>))) s)))))"

definition fs_mkdir :: "('w, 'z) mount_ext_scheme \<Rightarrow> u64 \<Rightarrow> string option \<Rightarrow> ('w, file_attr) fuse" where
  "fs_mkdir E par name0 =
     bindS (\<lambda>s. fail_if (jf_read_only s) EROFS s) (\<lambda>_.
     bindS (the_name EINVAL name0) (\<lambda>name.
     bindS (path_of_inode par) (\<lambda>parent_path.
     let path = child_path parent_path name in
     bindS (on_mount (mount_mkdir E (components path))) (\<lambda>_.
     bindS (number_path path) (\<lambda>inode s.
     let attr = \<lparr>ca_size = 0, ca_is_dir = True, ca_mime_type = None, ca_mtime = jf_now s\<rparr> in
     bindS (on_cache (put_attr path attr)) (\<lambda>_.
     bindS (on_cache (invalidate parent_path)) (\<lambda>_ s.
     (Inr (make_attr inode attr s), s))) s)))))"

definition fs_unlink :: "('w, 'z) mount_ext_scheme \<Rightarrow> u64 \<Rightarrow> string option \<Rightarrow> ('w, unit) fuse" where
  "fs_unlink E par name0 =
     bindS (\<lambda>s. fail_if (jf_read_only s) EROFS s) (\<lambda>_.
     bindS (the_name EINVAL name0) (\<lambda>name.
     bindS (path_of_inode par) (\<lambda>parent_path.
     let path = child_path parent_path name in
     bindS (on_mount (mount_rm E (components path))) (\<lambda>_.
     bindS (\<lambda>s. (Inr (), s\<lparr>jf_inodes := snd (remove_by_path path (jf_inodes s))\<rparr>)) (\<lambda>_.
     bindS (on_cache (invalidate path)) (\<lambda>_. on_cache (invalidate parent_path)))))))"

definition fs_rmdir :: "('w, 'z) mount_ext_scheme \<Rightarrow> u64 \<Rightarrow> string option \<Rightarrow> ('w, unit) fuse" where
  "fs_rmdir = fs_unlink"

definition fs_rename ::
  "('w, 'z) mount_ext_scheme \<Rightarrow> u64 \<Rightarrow> string option \<Rightarrow> u64 \<Rightarrow> string option \<Rightarrow> ('w, unit) fuse" where
  "fs_rename E par name0 newpar newname0 =
     bindS (\<lambda>s. fail_if (jf_read_only s) EROFS s) (\<lambda>_.
     bindS (the_name EINVAL name0) (\<lambda>name.
     bindS (the_name EINVAL newname0) (\<lambda>newname.
     bindS (path_of_inode par) (\<lambda>old_parent_path.
     bindS (path_of_inode newpar) (\<lambda>new_parent_path.
     let old_path = child_path old_parent_path name; new_path = child_path new_parent_path newname in
     bindS (on_mount (mount_mv E (components old_path) (components new_path))) (\<lambda>_.
     bindS (\<lambda>s. (Inr (), s\<lparr>jf_inodes := snd (inode_rename old_path new_path (jf_inodes s))\<rparr>)) (\<lambda>_.
     bindS (on_cache (invalidate old_path)) (\<lambda>_.
     bindS (on_cache (invalidate new_path)) (\<lambda>_.
     bindS (on_cache (invalidate old_parent_path)) (\<lambda>_.
     if old_parent_path \<noteq> new_parent_path then on_cache (invalidate new_parent_path)
     else (\<lambda>s. (Inr (), s))))))))))))"

definition fs_xattr :: "('w, unit) fuse" where
  "fs_xattr s = (Inl ENOTSUP, s)"

text \<open>The listener of sync events; \<open>Lagged\<close> is the error of a receiver that missed events.\<close>

datatype sync_event = BucketUpdated "128 word" | MountInvalidated "128 word" | Lagged

definition handle_sync_event :: "sync_event \<Rightarrow> 'w jax_fs \<Rightarrow> 'w jax_fs" where
  "handle_sync_event ev s =
     (case ev of
        MountInvalidated i \<Rightarrow> (if i = jf_mount_id s then s\<lparr>jf_cache := invalidate_all (jf_cache s)\<rparr> else s)
      | BucketUpdated _ \<Rightarrow> s\<lparr>jf_cache := invalidate_all (jf_cache s)\<rparr>
      | Lagged \<Rightarrow> s\<lparr>jf_cache := invalidate_all (jf_cache s)\<rparr>)"


section \<open>What a request leaves alone\<close>

text \<open>
  \<open>leaves P f\<close>: whatever its result, \<open>f\<close> leads from a state to one related by \<open>P\<close>. The rules compose
  along \<open>bindS\<close>.
\<close>

named_theorems leaves_rules \<open>relations between the states before and after a request\<close>

definition leaves :: "('s \<Rightarrow> 's \<Rightarrow> bool) \<Rightarrow> ('s \<Rightarrow> 'a \<times> 's) \<Rightarrow> bool" where
  "leaves P f \<longleftrightarrow> reflp P \<and> transp P \<and> (\<forall>s. P s (snd (f s)))"

lemma leavesD: "leaves P f \<Longrightarrow> f s = (r, s') \<Longrightarrow> P s s'"
  unfolding leaves_def by (metis snd_conv)

lemma leaves_bind [leaves_rules]:
  assumes "leaves P m" and "\<And>x. leaves P (f x)"
  shows "leaves P (bindS m f)"
proof -
  have "P s (snd (bindS m f s))" for s
    using assms unfolding leaves_def bindS_def
    by (auto split: prod.splits sum.splits) (metis snd_conv transpE)+
  then show ?thesis
    using assms(1) by (simp add: leaves_def)
qed

lemma leaves_cases [leaves_rules]:
  "leaves P f \<Longrightarrow> leaves P g \<Longrightarrow> leaves P (if c then f else g)"
  "leaves P f \<Longrightarrow> (\<And>x. leaves P (h x)) \<Longrightarrow> leaves P (case v of None \<Rightarrow> f | Some x \<Rightarrow> h x)"
  by (auto split: option.split)

text \<open>Reading only touches the caches.\<close>

definition same_but_cache :: "'w jax_fs \<Rightarrow> 'w jax_fs \<Rightarrow> bool" where
  "same_but_cache s s' \<longleftrightarrow> (\<exists>c. s' = s\<lparr>jf_cache := c\<rparr>)"

lemma same_but_cache_order: "reflp same_but_cache" "transp same_but_cache"
proof -
  show "reflp same_but_cache"
    unfolding same_but_cache_def by (rule reflpI) (metis jax_fs.surjective jax_fs.update_convs(5))
  show "transp same_but_cache"
    unfolding same_but_cache_def by (rule transpI) auto
qed

lemma leaves_cache [leaves_rules]:
  "leaves same_but_cache (on_cache f)" "leaves same_but_cache (try_mount g)"
  "leaves same_but_cache (\<lambda>s. (h s, s))" "leaves same_but_cache (path_of_inode i)"
  "leaves same_but_cache (fail_if b e)" "leaves same_but_cache (the_name e n)"
  using same_but_cache_order reflpD [OF same_but_cache_order(1)]
  by (auto simp: leaves_def on_cache_def try_mount_def path_of_inode_def fail_if_def the_name_def same_but_cache_def
      split: sum.splits mount_error.splits option.splits)

lemma leaves_option [leaves_rules]:
  "leaves P (\<lambda>s. f s) \<Longrightarrow> (\<And>x. leaves P (\<lambda>s. h x s)) \<Longrightarrow> leaves P (\<lambda>s. case v of None \<Rightarrow> f s | Some x \<Rightarrow> h x s)"
  by (cases v) simp_all

lemma leaves_on_cache [leaves_rules]:
  "leaves same_but_cache (\<lambda>s. on_cache (F s) s)" "leaves same_but_cache (\<lambda>s. fail_if (b s) e s)"
  using same_but_cache_order reflpD [OF same_but_cache_order(1)]
  by (auto simp: leaves_def on_cache_def fail_if_def same_but_cache_def)

lemma leaves_fetch [leaves_rules]:
  "leaves same_but_cache (fetch_attr E p)" "leaves same_but_cache (fetch_dir E p)"
  "leaves same_but_cache (fetch_content E p)"
proof -
  have state: "leaves same_but_cache (\<lambda>s. case v s of Some x \<Rightarrow> (k x, s) | None \<Rightarrow> g s)" if "leaves same_but_cache g"
    for v :: "'a jax_fs \<Rightarrow> 'c option" and k :: "'c \<Rightarrow> 'd" and g :: "'a jax_fs \<Rightarrow> 'd \<times> 'a jax_fs"
    using that reflpD [OF same_but_cache_order(1)] by (auto simp: leaves_def split: option.split)
  show "leaves same_but_cache (fetch_attr E p)"
    unfolding fetch_attr_def load_attr_def entry_attr_def case_prod_beta by (intro state leaves_rules)
  show "leaves same_but_cache (fetch_dir E p)"
    unfolding fetch_dir_def by (intro state leaves_rules)
  show "leaves same_but_cache (fetch_content E p)"
    unfolding fetch_content_def Let_def by (intro state leaves_rules)
qed


section \<open>Events\<close>

text \<open>
  What happens to the file system: requests of the kernel, sync events, entries dropping out of the
  caches, time passing. \<open>fs_run\<close> is the state after a sequence of events.
\<close>

datatype fuse_request =
    Lookup u64 "string option"
  | GetAttr u64
  | SetAttr u64 "u64 option" "time_or_now option" "u64 option"
  | ReadDir u64 u64
  | Read u64 u64 u64 "32 word"
  | Open u64 "32 word"
  | Write u64 u64 bytes
  | Flush u64 u64
  | Release u64
  | Create u64 "string option"
  | MkDir u64 "string option"
  | Unlink u64 "string option"
  | RmDir u64 "string option"
  | Rename u64 "string option" u64 "string option"
  | XAttr

datatype fs_event = Request fuse_request | Sync sync_event | Evict "string set" | Tick int

definition evict :: "string set \<Rightarrow> file_cache \<Rightarrow> file_cache" where
  "evict K c = c\<lparr>fc_content := fc_content c |` (- K), fc_attrs := fc_attrs c |` (- K), fc_dirs := fc_dirs c |` (- K)\<rparr>"

fun request_state ::
  "32 word \<Rightarrow> ((nat \<times> dir_entry) list \<Rightarrow> bool) \<Rightarrow> ('w, 'z) mount_ext_scheme \<Rightarrow> fuse_request \<Rightarrow> 'w jax_fs \<Rightarrow> 'w jax_fs" where
  "request_state wflags fits E (Lookup par n) s = snd (fs_lookup E par n s)"
| "request_state wflags fits E (GetAttr i) s = snd (fs_getattr E i s)"
| "request_state wflags fits E (SetAttr i z t fh) s = snd (fs_setattr E i z t fh s)"
| "request_state wflags fits E (ReadDir i off) s = snd (fs_readdir E fits i off s)"
| "request_state wflags fits E (Read i fh off z) s = snd (fs_read E i fh off z s)"
| "request_state wflags fits E (Open i flags) s = snd (fs_open wflags E i flags s)"
| "request_state wflags fits E (Write fh off d) s = snd (fs_write fh off d s)"
| "request_state wflags fits E (Flush i fh) s = snd (fs_flush E i fh s)"
| "request_state wflags fits E (Release fh) s = snd (fs_release fh s)"
| "request_state wflags fits E (Create par n) s = snd (fs_create E par n s)"
| "request_state wflags fits E (MkDir par n) s = snd (fs_mkdir E par n s)"
| "request_state wflags fits E (Unlink par n) s = snd (fs_unlink E par n s)"
| "request_state wflags fits E (RmDir par n) s = snd (fs_rmdir E par n s)"
| "request_state wflags fits E (Rename par n par' n') s = snd (fs_rename E par n par' n' s)"
| "request_state wflags fits E XAttr s = snd (fs_xattr s)"

fun event_state ::
  "32 word \<Rightarrow> ((nat \<times> dir_entry) list \<Rightarrow> bool) \<Rightarrow> ('w, 'z) mount_ext_scheme \<Rightarrow> fs_event \<Rightarrow> 'w jax_fs \<Rightarrow> 'w jax_fs" where
  "event_state wflags fits E (Request r) s = request_state wflags fits E r s"
| "event_state wflags fits E (Sync ev) s = handle_sync_event ev s"
| "event_state wflags fits E (Evict K) s = s\<lparr>jf_cache := evict K (jf_cache s)\<rparr>"
| "event_state wflags fits E (Tick t) s = s\<lparr>jf_now := t\<rparr>"

definition fs_run ::
  "32 word \<Rightarrow> ((nat \<times> dir_entry) list \<Rightarrow> bool) \<Rightarrow> ('w, 'z) mount_ext_scheme \<Rightarrow> fs_event list \<Rightarrow> 'w jax_fs \<Rightarrow> 'w jax_fs" where
  "fs_run wflags fits E = fold (event_state wflags fits E)"

section \<open>Read-only mounts\<close>

definition same_mode :: "'w jax_fs \<Rightarrow> 'w jax_fs \<Rightarrow> bool" where
  "same_mode s s' \<longleftrightarrow> jf_read_only s' = jf_read_only s"

definition untouched :: "'w jax_fs \<Rightarrow> 'w jax_fs \<Rightarrow> bool" where
  "untouched s s' \<longleftrightarrow> jf_read_only s' = jf_read_only s \<and>
     (jf_read_only s \<longrightarrow> jf_mount s' = jf_mount s \<and> jf_save_requests s' = jf_save_requests s)"

lemma mode_orders: "reflp same_mode" "transp same_mode" "reflp untouched" "transp untouched"
  by (auto simp: same_mode_def untouched_def reflp_def transp_def)

lemma cache_untouched: "same_but_cache s s' \<Longrightarrow> same_mode s s'" "same_but_cache s s' \<Longrightarrow> untouched s s'"
  by (auto simp: same_but_cache_def same_mode_def untouched_def)

lemma leaves_cache_mode: "leaves same_but_cache f \<Longrightarrow> leaves same_mode f" "leaves same_but_cache f \<Longrightarrow> leaves untouched f"
  by (auto simp: leaves_def mode_orders intro: cache_untouched)

lemmas leaves_reads [leaves_rules] = leaves_cache [THEN leaves_cache_mode(1)] leaves_fetch [THEN leaves_cache_mode(1)]
  leaves_cache [THEN leaves_cache_mode(2)] leaves_fetch [THEN leaves_cache_mode(2)]
  leaves_on_cache [THEN leaves_cache_mode(2)]

lemma leaves_mode [leaves_rules]:
  "leaves same_mode (on_mount f)" "leaves same_mode (number_path p)" "leaves same_mode request_save"
  "leaves same_mode next_handle" "leaves untouched (number_path p)" "leaves untouched next_handle"
  "leaves same_mode (\<lambda>s. (x, s\<lparr>jf_inodes := g s\<rparr>))" "leaves same_mode (\<lambda>s. (y s, s\<lparr>jf_write_buffers := h s\<rparr>))"
  by (auto simp: mode_orders leaves_def on_mount_def number_path_def request_save_def next_handle_def same_mode_def untouched_def
      split: prod.splits)

text \<open>A request that is guarded by the mode does not get past the guard.\<close>

lemma leaves_guard [leaves_rules]:
  assumes "leaves same_mode f"
  shows "leaves untouched (bindS (\<lambda>s. fail_if (jf_read_only s) e s) (\<lambda>_. f))"
proof -
  have "untouched s (snd (bindS (\<lambda>s. fail_if (jf_read_only s) e s) (\<lambda>_. f) s))" for s
    using assms mode_orders(3) by (auto simp: leaves_def bindS_def fail_if_def untouched_def same_mode_def)
  then show ?thesis
    using mode_orders by (simp add: leaves_def)
qed


lemma leaves_state_if [leaves_rules]:
  "leaves P f \<Longrightarrow> leaves P g \<Longrightarrow> leaves P (\<lambda>s. if c s then f s else g s)"
  by (auto simp: leaves_def)

lemma leaves_bind_state [leaves_rules]:
  assumes "\<And>a. leaves P (m a)" and "\<And>a x. leaves P (f a x)"
  shows "leaves P (\<lambda>s. bindS (m s) (f s) s)"
  using leaves_bind [of P "m s" "f s" for s] assms by (auto simp: leaves_def)

lemma leaves_buffers [leaves_rules]:
  "leaves same_mode f \<Longrightarrow>
    leaves same_mode (\<lambda>s. case g s of Some (h, b) \<Rightarrow> (Inr x, s\<lparr>jf_write_buffers := k h b s\<rparr>) | None \<Rightarrow> f s)"
  by (auto simp: leaves_def same_mode_def split: option.split)

lemma leaves_truncate [leaves_rules]: "leaves same_mode (handle_truncate E p z fh)"
  unfolding handle_truncate_def Let_def by (intro leaves_rules)

lemma leaves_flush: "leaves same_mode (fs_flush E i fh)"
proof -
  have "leaves same_mode (\<lambda>s. case jf_write_buffers s fh of
      Some b \<Rightarrow> if wb_dirty b then bindS (on_mount (mount_add E (components p) (Inr (wb_data b)))) (\<lambda>_ s.
          bindS (on_cache (invalidate p)) (\<lambda>_. request_save)
            (s\<lparr>jf_write_buffers := (jf_write_buffers s)(fh \<mapsto> b\<lparr>wb_dirty := False\<rparr>)\<rparr>)) s else (Inr (), s)
    | None \<Rightarrow> (Inr (), s))" for p
    by (auto simp: leaves_def mode_orders same_mode_def bindS_def on_mount_def on_cache_def request_save_def
        split: option.split prod.split sum.split)
  then show ?thesis
    unfolding fs_flush_def by (intro leaves_rules)
qed

lemma request_untouched: "untouched s (request_state wflags fits E r s)"
proof -
  have st: "untouched s (snd (f s))" if "leaves untouched f" for f :: "('a, 'c) fuse"
    using that by (simp add: leaves_def)
  have refl: "untouched s s"
    by (simp add: untouched_def)
  show ?thesis
  proof (cases r)
    case (SetAttr i z t fh)
    have "leaves untouched (\<lambda>s. if jf_read_only s then (Inl EROFS, s) else handle_truncate E p n fh s)" for p n
      using leaves_truncate [of E p n fh] mode_orders by (auto simp: leaves_def untouched_def same_mode_def)
    then have "leaves untouched (fs_setattr E i z t fh)"
      unfolding fs_setattr_def Let_def by (intro leaves_bind leaves_cases leaves_option leaves_reads)
    then show ?thesis
      using SetAttr st by simp
  next
    case (Flush i fh)
    have "leaves untouched (fs_flush E i fh)"
      using leaves_flush [of E i fh] mode_orders by (auto simp: leaves_def untouched_def same_mode_def fs_flush_def)
    then show ?thesis
      using Flush st by simp
  next
    case (ReadDir i off)
    have "leaves untouched (\<lambda>s. case number_entries path entries (jf_inodes s) of (ds, t) \<Rightarrow> (x ds, s\<lparr>jf_inodes := t\<rparr>))"
      for path entries and x :: "dir_entry list \<Rightarrow> errno + (nat \<times> dir_entry) list"
      by (auto simp: leaves_def mode_orders untouched_def split: prod.split)
    then have "leaves untouched (fs_readdir E fits i off)"
      unfolding fs_readdir_def Let_def by (intro leaves_rules)
    then show ?thesis
      using ReadDir st by simp
  next
    case (Read i fh off z)
    have buffer: "leaves untouched (\<lambda>s. case g s of Some b \<Rightarrow> (x b, s) | None \<Rightarrow> f s)" if "leaves untouched f"
      for f :: "('a, bytes) fuse" and g :: "'a jax_fs \<Rightarrow> write_buffer option" and x
      using that by (auto simp: leaves_def untouched_def split: option.split)
    have "leaves untouched (fs_read E i fh off z)"
      unfolding fs_read_def by (intro buffer leaves_rules)
    then show ?thesis
      using Read st by simp
  next
    case (Lookup par n)
    have "leaves untouched (fs_lookup E par n)"
      unfolding fs_lookup_def Let_def by (intro leaves_rules)
    then show ?thesis
      using Lookup st by simp
  next
    case (Create par n)
    have "leaves untouched (fs_create E par n)"
      unfolding fs_create_def Let_def by (rule leaves_guard) (intro leaves_rules)
    then show ?thesis
      using Create st by simp
  next
    case (MkDir par n)
    have "leaves untouched (fs_mkdir E par n)"
      unfolding fs_mkdir_def Let_def by (rule leaves_guard) (intro leaves_rules)
    then show ?thesis
      using MkDir st by simp
  next
    case (Unlink par n)
    have "leaves untouched (fs_unlink E par n)"
      unfolding fs_unlink_def Let_def by (rule leaves_guard) (intro leaves_rules)
    then show ?thesis
      using Unlink st by simp
  next
    case (RmDir par n)
    have "leaves untouched (fs_unlink E par n)"
      unfolding fs_unlink_def Let_def by (rule leaves_guard) (intro leaves_rules)
    then show ?thesis
      using RmDir st by (simp add: fs_rmdir_def)
  next
    case (Rename par n par' n')
    have "leaves untouched (fs_rename E par n par' n')"
      unfolding fs_rename_def Let_def by (rule leaves_guard) (intro leaves_rules)
    then show ?thesis
      using Rename st by simp
  next
    case (GetAttr i)
    have "leaves untouched (fs_getattr E i)"
      unfolding fs_getattr_def by (intro leaves_rules)
    then show ?thesis
      using GetAttr st by simp
  next
    case (Open i flags)
    have "leaves untouched (fs_open wflags E i flags)"
      unfolding fs_open_def by (intro leaves_rules)
    then show ?thesis
      using Open st by simp
  next
    case (Write fh off d)
    then show ?thesis
      by (simp add: fs_write_def Let_def untouched_def)
  qed (simp_all add: fs_release_def fs_xattr_def untouched_def)
qed


text \<open>
  C28: a mount that is read-only stays as it is: whatever requests, sync events, evictions and ticks
  of the clock happen, the bucket's tree, pins, log and blobs do not change and no save is requested.
\<close>

theorem read_only_never_changes:
  assumes "jf_read_only s"
  shows "jf_mount (fs_run wflags fits E evs s) = jf_mount s \<and>
    jf_save_requests (fs_run wflags fits E evs s) = jf_save_requests s"
proof -
  have step: "untouched s (event_state wflags fits E ev s)" for ev s
    by (cases ev) (simp_all add: request_untouched, auto simp: untouched_def handle_sync_event_def split: sync_event.split)
  have "untouched s (fs_run wflags fits E evs s)"
    unfolding fs_run_def
  proof (induction evs arbitrary: s)
    case Nil
    then show ?case
      by (simp add: untouched_def)
  next
    case (Cons ev evs)
    then show ?case
      using transpD [OF mode_orders(4) step Cons.IH] by simp
  qed
  then show ?thesis
    using assms by (simp add: untouched_def)
qed


section \<open>The invariant of the file system\<close>

definition jax_ok :: "('w, 'z) mount_ext_scheme \<Rightarrow> 'w jax_fs \<Rightarrow> bool" where
  "jax_ok E s \<longleftrightarrow> mount_ok E (jf_mount s) \<and> inode_ok (jf_inodes s)"

lemma child_path_str: "\<forall>n \<in> set ns. good_name n \<Longrightarrow> child_path (path_str ns) n = path_str (ns @ [n])"
  by (simp add: child_path_def path_str_snoc)

lemma good_child: "good_path p \<Longrightarrow> good_name n \<Longrightarrow> good_path (child_path p n) \<and> child_path p n \<noteq> ''/''"
proof -
  assume "good_path p" and n: "good_name n"
  then obtain ns where ns: "\<forall>n \<in> set ns. good_name n" "p = path_str ns"
    by (auto simp: good_path_def)
  then have all: "\<forall>m \<in> set (ns @ [n]). good_name m"
    using n by auto
  then show ?thesis
    using path_str_root [OF all] all unfolding good_path_def ns(2) child_path_str [OF ns(1)] by blast
qed

lemma good_parent: "good_path p \<Longrightarrow> good_path (parent_path p)"
proof -
  assume "good_path p"
  then obtain ns where ns: "\<forall>n \<in> set ns. good_name n" "p = path_str ns"
    by (auto simp: good_path_def)
  show ?thesis
  proof (cases ns rule: rev_cases)
    case Nil
    then show ?thesis
      using ns by (simp add: parent_path_def)
  next
    case (snoc ms m)
    then have "parent_path p = path_str ms"
      using ns parent_path_str(1) [of ms m] by simp
    then show ?thesis
      using ns snoc unfolding good_path_def by auto
  qed
qed

lemma inode_good: "inode_ok t \<Longrightarrow> get_path i t = Some p \<Longrightarrow> good_path p"
  by (auto simp: inode_ok_def get_path_def)

lemma cache_ok: "same_but_cache s s' \<Longrightarrow> jax_ok E s \<Longrightarrow> jax_ok E s'"
  by (auto simp: same_but_cache_def jax_ok_def)

text \<open>Adding at the root panics; elsewhere it keeps the invariant.\<close>

lemma add_keeps_ok:
  assumes laws: "mount_laws E" and ok: "mount_ok E m" and good: "good_path p"
    and run: "mount_add E (components p) (Inr d) m = (r, m')"
  shows "mount_ok E m'"
proof -
  obtain ns where ns: "\<forall>n \<in> set ns. good_name n" "p = path_str ns"
    using good by (auto simp: good_path_def)
  show ?thesis
  proof (cases ns rule: rev_cases)
    case (snoc ms x)
    then show ?thesis
      using add_op.keeps_invariant [OF laws ok TrueI, of ms x d r m'] run components_path_str [OF ns(1)] ns(2) by simp
  next
    case Nil
    have root: "set_node_link_at_path E n nl [RootDir] w = (Inl (MtPanic ''unwrap on None''), w)" for n nl w
      by (simp add: set_node_link_at_path_def bindS_def liftR_def file_name_unwrap_def file_name_def)
    have "components p = [RootDir]"
      using components_path_str [OF ns(1)] ns(2) Nil by simp
    then obtain e where "r = Inl e"
      using run root by (auto simp: mount_add_def Let_def bindS_def on_world_def read_state_def split: prod.splits sum.splits)
    then have "fst m' = fst m" "keeps_blobs E (snd m) (snd m')"
      using atomicD [OF atomic_add] run keepingD [OF keeping_ops(1) [OF laws] run] by blast+
    then show ?thesis
      using mount_ok_keeps(1) [of E "fst m" "snd m"] ok mount_laws_blob [OF laws] by (metis prod.collapse)
  qed
qed


named_theorems fuse_simps \<open>the steps of a request, one at a time\<close>

lemma bind_steps [fuse_simps]:
  "bindS (path_of_inode i) k s = (case get_path i (jf_inodes s) of Some p \<Rightarrow> k p s | None \<Rightarrow> (Inl ENOENT, s))"
  "bindS (the_name e n) k' s = (case n of Some x \<Rightarrow> k' x s | None \<Rightarrow> (Inl e, s))"
  "bindS (fail_if b e) k2 s = (if b then (Inl e, s) else k2 () s)"
  "bindS (\<lambda>s. fail_if (b' s) e s) k3 s = (if b' s then (Inl e, s) else k3 () s)"
  "bindS (on_cache f) k4 s = k4 () (s\<lparr>jf_cache := f (jf_cache s)\<rparr>)"
  "bindS (number_path p) k5 s = (case get_or_create p (jf_inodes s) of (n, t) \<Rightarrow> k5 n (s\<lparr>jf_inodes := t\<rparr>))"
  "bindS next_handle k6 s = k6 (jf_next_fh s) (s\<lparr>jf_next_fh := jf_next_fh s + 1\<rparr>)"
  "bindS (\<lambda>s. (Inr y, u s)) k7 s = k7 y (u s)"
  "bindS (on_mount g) k8 s = (case g (jf_mount s) of (r, m) \<Rightarrow>
     (case r of Inr z \<Rightarrow> k8 z (s\<lparr>jf_mount := m\<rparr>) | Inl e \<Rightarrow> (Inl (fs_error e), s\<lparr>jf_mount := m\<rparr>)))"
  by (auto simp: bindS_def path_of_inode_def the_name_def fail_if_def on_cache_def number_path_def next_handle_def
      on_mount_def split: option.split prod.split sum.split)

lemma request_save_state [fuse_simps]:
  "jf_mount (snd (request_save s)) = jf_mount s" "jf_inodes (snd (request_save s)) = jf_inodes s"
  "jf_write_buffers (snd (request_save s)) = jf_write_buffers s" "jf_cache (snd (request_save s)) = jf_cache s"
  "fst (request_save s) = Inr ()"
  by (simp_all add: request_save_def)

section \<open>Well-formed requests\<close>

definition name_ok :: "string option \<Rightarrow> bool" where
  "name_ok name \<longleftrightarrow> (case name of Some n \<Rightarrow> good_name n | None \<Rightarrow> True)"

text \<open>The directory an entry is removed from is not a file and not below one.\<close>

definition dir_request :: "('w, 'z) mount_ext_scheme \<Rightarrow> u64 \<Rightarrow> 'w jax_fs \<Rightarrow> bool" where
  "dir_request E par s \<longleftrightarrow> (\<forall>ns. get_path par (jf_inodes s) = Some (path_str ns) \<longrightarrow> (\<forall>n \<in> set ns. good_name n) \<longrightarrow>
     no_file_above ns (mount_fs E (jf_mount s)))"

fun request_ok :: "('w, 'z) mount_ext_scheme \<Rightarrow> fuse_request \<Rightarrow> 'w jax_fs \<Rightarrow> bool" where
  "request_ok E (Lookup par n) s \<longleftrightarrow> name_ok n \<and> inode_room 1 (jf_inodes s)"
| "request_ok E (Create par n) s \<longleftrightarrow> name_ok n \<and> inode_room 1 (jf_inodes s)"
| "request_ok E (MkDir par n) s \<longleftrightarrow> name_ok n \<and> inode_room 1 (jf_inodes s)"
| "request_ok E (Unlink par n) s \<longleftrightarrow> name_ok n \<and> dir_request E par s"
| "request_ok E (RmDir par n) s \<longleftrightarrow> name_ok n \<and> dir_request E par s"
| "request_ok E (Rename par n par' n') s \<longleftrightarrow> name_ok n \<and> name_ok n' \<and> dir_request E par s"
| "request_ok E (ReadDir i off) s \<longleftrightarrow> (\<forall>p es s1. get_path i (jf_inodes s) = Some p \<longrightarrow>
     fetch_dir E p s = (Inr (Some es), s1) \<longrightarrow>
     (\<forall>e \<in> set es. good_name (cd_name e)) \<and> inode_room (length es + 1) (jf_inodes s))"
| "request_ok E _ s \<longleftrightarrow> True"

fun event_ok :: "('w, 'z) mount_ext_scheme \<Rightarrow> fs_event \<Rightarrow> 'w jax_fs \<Rightarrow> bool" where
  "event_ok E (Request r) s \<longleftrightarrow> request_ok E r s"
| "event_ok E _ s \<longleftrightarrow> True"

fun run_ok ::
  "32 word \<Rightarrow> ((nat \<times> dir_entry) list \<Rightarrow> bool) \<Rightarrow> ('w, 'z) mount_ext_scheme \<Rightarrow> fs_event list \<Rightarrow> 'w jax_fs \<Rightarrow> bool" where
  "run_ok wflags fits E [] s \<longleftrightarrow> True"
| "run_ok wflags fits E (ev # evs) s \<longleftrightarrow> event_ok E ev s \<and> run_ok wflags fits E evs (event_state wflags fits E ev s)"

section \<open>Requests keep the invariant\<close>

lemma jax_ok_updates [simp]:
  "jax_ok E (s\<lparr>jf_cache := c\<rparr>) = jax_ok E s" "jax_ok E (s\<lparr>jf_write_buffers := b\<rparr>) = jax_ok E s"
  "jax_ok E (s\<lparr>jf_next_fh := h\<rparr>) = jax_ok E s" "jax_ok E (s\<lparr>jf_now := t\<rparr>) = jax_ok E s"
  "jax_ok E (snd (request_save s)) = jax_ok E s"
  by (simp_all add: jax_ok_def request_save_state)

lemma number_ok:
  "jax_ok E s \<Longrightarrow> good_path p \<Longrightarrow> inode_room 1 (jf_inodes s) \<Longrightarrow> get_or_create p (jf_inodes s) = (n, t) \<Longrightarrow>
    jax_ok E (s\<lparr>jf_inodes := t\<rparr>)"
  using get_or_create_ok(1) [of "jf_inodes s" 0 p n t] by (simp add: jax_ok_def)

lemma lookup_ok:
  assumes ok: "jax_ok E s" and name: "name_ok n" and room: "inode_room 1 (jf_inodes s)"
  shows "jax_ok E (snd (fs_lookup E par n s))"
proof (cases "\<exists>x p. n = Some x \<and> \<not> should_filter x \<and> get_path par (jf_inodes s) = Some p")
  case True
  then obtain x p where n: "n = Some x" "\<not> should_filter x" "get_path par (jf_inodes s) = Some p"
    by blast
  have good: "good_path (child_path p x)"
    using good_child inode_good n ok name by (auto simp: jax_ok_def name_ok_def)
  obtain r s1 where fetch: "fetch_attr E (child_path p x) s = (r, s1)"
    by fastforce
  obtain c where s1: "s1 = s\<lparr>jf_cache := c\<rparr>"
    using leavesD [OF leaves_fetch(1) fetch] by (auto simp: same_but_cache_def)
  obtain i t where num: "get_or_create (child_path p x) (jf_inodes s) = (i, t)"
    by fastforce
  have "bindS (fetch_attr E (child_path p x)) k s = (case r of Inl e \<Rightarrow> (Inl e, s1) | Inr y \<Rightarrow> k y s1)"
    for k :: "cached_attr option \<Rightarrow> ('a, file_attr) fuse"
    using fetch by (simp add: bindS_def split: sum.split)
  then show ?thesis
    using n ok s1 num number_ok [OF ok good room num]
    by (simp add: fs_lookup_def fuse_simps Let_def jax_ok_def split: sum.split option.split)
qed (use ok in \<open>auto simp: fs_lookup_def fuse_simps split: option.split\<close>)

lemma create_ok:
  assumes laws: "mount_laws E" and ok: "jax_ok E s" and name: "name_ok n" and room: "inode_room 1 (jf_inodes s)"
  shows "jax_ok E (snd (fs_create E par n s))"
proof (cases "\<exists>x p. \<not> jf_read_only s \<and> n = Some x \<and> get_path par (jf_inodes s) = Some p")
  case True
  then obtain x p where n: "\<not> jf_read_only s" "n = Some x" "get_path par (jf_inodes s) = Some p"
    by blast
  have good: "good_path (child_path p x)"
    using good_child inode_good n ok name by (auto simp: jax_ok_def name_ok_def)
  obtain r m where add: "mount_add E (components (child_path p x)) (Inr []) (jf_mount s) = (r, m)"
    by (rule prod.exhaust)
  have ok1: "jax_ok E (s\<lparr>jf_mount := m\<rparr>)"
    using add_keeps_ok [OF laws _ good add] ok by (simp add: jax_ok_def)
  obtain i t where num: "get_or_create (child_path p x) (jf_inodes s) = (i, t)"
    by fastforce
  show ?thesis
    using n add ok1 num number_ok [OF ok1 good] room
    by (simp add: fs_create_def fuse_simps Let_def split: sum.split)
qed (use ok in \<open>auto simp: fs_create_def fuse_simps split: option.split\<close>)


lemma child_components:
  assumes "good_path p" and "good_name x"
  obtains ns where "\<forall>n \<in> set ns. good_name n" and "p = path_str ns" and "components (child_path p x) = abs_path (ns @ [x])"
proof -
  obtain ns where ns: "\<forall>n \<in> set ns. good_name n" "p = path_str ns"
    using assms(1) by (auto simp: good_path_def)
  then have "\<forall>n \<in> set (ns @ [x]). good_name n"
    using assms(2) by auto
  then show ?thesis
    using that [OF ns] components_path_str by (simp only: ns(2) child_path_str [OF ns(1)] simp_thms)
qed

lemma mkdir_ok:
  assumes laws: "mount_laws E" and ok: "jax_ok E s" and name: "name_ok n" and room: "inode_room 1 (jf_inodes s)"
  shows "jax_ok E (snd (fs_mkdir E par n s))"
proof (cases "\<exists>x p. \<not> jf_read_only s \<and> n = Some x \<and> get_path par (jf_inodes s) = Some p")
  case True
  then obtain x p where n: "\<not> jf_read_only s" "n = Some x" "get_path par (jf_inodes s) = Some p"
    by blast
  have gp: "good_path p" "good_name x"
    using inode_good n ok name by (auto simp: jax_ok_def name_ok_def)
  then have good: "good_path (child_path p x)"
    using good_child by blast
  from gp obtain ns where comp: "components (child_path p x) = abs_path (ns @ [x])"
    by (rule child_components)
  obtain r m where run: "mount_mkdir E (components (child_path p x)) (jf_mount s) = (r, m)"
    by (rule prod.exhaust)
  have ok1: "jax_ok E (s\<lparr>jf_mount := m\<rparr>)"
    using mkdir_op.keeps_invariant [OF laws _ TrueI run [unfolded comp]] ok by (simp add: jax_ok_def)
  obtain i t where num: "get_or_create (child_path p x) (jf_inodes s) = (i, t)"
    by (rule prod.exhaust)
  show ?thesis
    using n run ok1 num number_ok [OF ok1 good] room
    by (simp add: fs_mkdir_def fuse_simps Let_def split: sum.split)
qed (use ok in \<open>auto simp: fs_mkdir_def fuse_simps split: option.split\<close>)

lemma unlink_ok:
  assumes laws: "mount_laws E" and ok: "jax_ok E s" and name: "name_ok n" and dir: "dir_request E par s"
  shows "jax_ok E (snd (fs_unlink E par n s))"
proof (cases "\<exists>x p. \<not> jf_read_only s \<and> n = Some x \<and> get_path par (jf_inodes s) = Some p")
  case True
  then obtain x p where n: "\<not> jf_read_only s" "n = Some x" "get_path par (jf_inodes s) = Some p"
    by blast
  have gp: "good_path p" "good_name x"
    using inode_good n ok name by (auto simp: jax_ok_def name_ok_def)
  then have good: "good_path (child_path p x)" "child_path p x \<noteq> ''/''"
    using good_child by blast+
  from gp obtain ns where ns: "\<forall>n \<in> set ns. good_name n" "p = path_str ns"
    and comp: "components (child_path p x) = abs_path (ns @ [x])"
    by (rule child_components)
  obtain r m where run: "mount_rm E (components (child_path p x)) (jf_mount s) = (r, m)"
    by (rule prod.exhaust)
  have "no_file_above ns (mount_fs E (jf_mount s))"
    using dir n(3) ns by (simp add: dir_request_def)
  then have "mount_ok E m"
    using rm_op.keeps_invariant [OF laws _ _ run [unfolded comp]] ok by (simp add: jax_ok_def)
  then show ?thesis
    using n run ok remove_by_path_ok(1) [OF _ good]
    by (simp add: fs_unlink_def fuse_simps Let_def jax_ok_def on_cache_def split: sum.split)
qed (use ok in \<open>auto simp: fs_unlink_def fuse_simps split: option.split\<close>)

lemma rename_ok:
  assumes laws: "mount_laws E" and ok: "jax_ok E s" and names: "name_ok n" "name_ok n'" and dir: "dir_request E par s"
  shows "jax_ok E (snd (fs_rename E par n par' n' s))"
proof (cases "\<exists>x x' p p'. \<not> jf_read_only s \<and> n = Some x \<and> n' = Some x' \<and> get_path par (jf_inodes s) = Some p \<and>
    get_path par' (jf_inodes s) = Some p'")
  case True
  then obtain x x' p p' where n: "\<not> jf_read_only s" "n = Some x" "n' = Some x'" "get_path par (jf_inodes s) = Some p"
      "get_path par' (jf_inodes s) = Some p'"
    by blast
  have gp: "good_path p" "good_name x" and gp': "good_path p'" "good_name x'"
    using inode_good n ok names by (auto simp: jax_ok_def name_ok_def)
  then have good: "good_path (child_path p x)" "child_path p x \<noteq> ''/''" "good_path (child_path p' x')" "child_path p' x' \<noteq> ''/''"
    using good_child by blast+
  from gp obtain ns where ns: "\<forall>n \<in> set ns. good_name n" "p = path_str ns"
    and comp: "components (child_path p x) = abs_path (ns @ [x])"
    by (rule child_components)
  from gp' obtain ms where comp': "components (child_path p' x') = abs_path (ms @ [x'])"
    by (rule child_components)
  obtain r m where run: "mount_mv E (components (child_path p x)) (components (child_path p' x')) (jf_mount s) = (r, m)"
    by (rule prod.exhaust)
  have "no_file_above ns (mount_fs E (jf_mount s))"
    using dir n(4) ns by (simp add: dir_request_def)
  then have "mount_ok E m"
    using mv_keeps_invariant [OF laws _ _ run [unfolded comp comp']] ok by (simp add: jax_ok_def)
  then show ?thesis
    using n run ok inode_rename_ok(1) [OF _ good]
    by (auto simp: fs_rename_def fuse_simps Let_def jax_ok_def on_cache_def split: sum.split)
qed (use ok in \<open>auto simp: fs_rename_def fuse_simps split: option.split\<close>)

lemma flush_ok:
  assumes laws: "mount_laws E" and ok: "jax_ok E s"
  shows "jax_ok E (snd (fs_flush E i fh s))"
proof (cases "\<exists>p b. \<not> jf_read_only s \<and> get_path i (jf_inodes s) = Some p \<and> jf_write_buffers s fh = Some b \<and> wb_dirty b")
  case True
  then obtain p b where n: "\<not> jf_read_only s" "get_path i (jf_inodes s) = Some p" "jf_write_buffers s fh = Some b" "wb_dirty b"
    by blast
  obtain r m where run: "mount_add E (components p) (Inr (wb_data b)) (jf_mount s) = (r, m)"
    by (rule prod.exhaust)
  have "mount_ok E m"
    using add_keeps_ok [OF laws _ _ run] ok inode_good n by (auto simp: jax_ok_def)
  then show ?thesis
    using n run ok by (simp add: fs_flush_def fuse_simps jax_ok_def split: sum.split)
qed (use ok in \<open>auto simp: fs_flush_def fuse_simps split: option.split\<close>)


lemma bind_ok:
  assumes "jax_ok E (snd (f s))" and "\<And>x. fst (f s) = Inr x \<Longrightarrow> jax_ok E (snd (g x (snd (f s))))"
  shows "jax_ok E (snd (bindS f g s))"
  using assms by (auto simp: bindS_def split: prod.split sum.split)

lemma leaves_ok: "leaves same_but_cache f \<Longrightarrow> jax_ok E s \<Longrightarrow> jax_ok E (snd (f s))"
  by (auto simp: leaves_def intro: cache_ok)

lemmas fetch_ok = leaves_fetch [THEN leaves_ok]

lemma truncate_ok:
  assumes laws: "mount_laws E" and ok: "jax_ok E s" and good: "good_path p"
  shows "jax_ok E (snd (handle_truncate E p z fh s))"
  unfolding handle_truncate_def
proof (rule bind_ok)
  show "jax_ok E (snd (fetch_attr E p s))"
    by (rule fetch_ok(1) [OF ok])
next
  fix attr
  define s1 where "s1 = snd (fetch_attr E p s)"
  have ok1: "jax_ok E s1"
    using fetch_ok(1) [OF ok] by (simp add: s1_def)
  have add: "jax_ok E (s1\<lparr>jf_mount := m\<rparr>)" if "mount_add E (components p) (Inr d) (jf_mount s1) = (r, m)" for d r m
    using add_keeps_ok [OF laws _ good that] ok1 by (simp add: jax_ok_def)
  have written: "jax_ok E (snd (bindS (on_mount (mount_add E (components p) (Inr d)))
      (\<lambda>_. bindS (on_cache (invalidate p)) (\<lambda>_. request_save)) s1))" for d
    using add by (simp add: fuse_simps split: prod.split sum.split)
  have read: "bindS (bindS (try_mount g) (\<lambda>c. on_mount (h c))) k s1 =
      (case g (jf_mount s1) of Inr x \<Rightarrow> bindS (on_mount (h (Some x))) k s1
       | Inl e \<Rightarrow> (case e of MtPanic m \<Rightarrow> (Inl (FsPanic m), s1) | _ \<Rightarrow> bindS (on_mount (h None)) k s1))"
    for g :: "'a mount_state \<Rightarrow> mount_error + bytes" and h and k :: "unit \<Rightarrow> ('a, unit) fuse"
    by (auto simp: bindS_def try_mount_def split: sum.split mount_error.split)
  show "jax_ok E (snd (bindS (fail_if (case attr of Some a \<Rightarrow> ca_is_dir a | None \<Rightarrow> False) EISDIR) (\<lambda>_ s.
      case Option.bind fh (\<lambda>h. map_option (Pair h) (jf_write_buffers s h)) of
        Some (h, b) \<Rightarrow> (Inr (), s\<lparr>jf_write_buffers :=
          (jf_write_buffers s)(h \<mapsto> \<lparr>wb_data = vec_resize (unat z) (wb_data b), wb_dirty = True\<rparr>)\<rparr>)
      | None \<Rightarrow> bindS (if z = 0 then on_mount (mount_add E (components p) (Inr []))
          else bindS (try_mount (mount_cat E (components p))) (\<lambda>current.
            let new_data = vec_resize (unat z) (case current of Some d \<Rightarrow> d | None \<Rightarrow> [])
            in on_mount (mount_add E (components p) (Inr new_data))))
          (\<lambda>_. bindS (on_cache (invalidate p)) (\<lambda>_. request_save)) s) (snd (fetch_attr E p s))))"
    unfolding s1_def [symmetric] using ok1 written
    by (auto simp: fuse_simps(3) Let_def read split: option.split sum.split mount_error.split)
qed

lemma setattr_ok:
  assumes laws: "mount_laws E" and ok: "jax_ok E s"
  shows "jax_ok E (snd (fs_setattr E i z t fh s))"
proof (cases "get_path i (jf_inodes s)")
  case (Some p)
  then have good: "good_path p"
    using inode_good ok by (auto simp: jax_ok_def)
  define sized where "sized = (case z of None \<Rightarrow> (\<lambda>s. (Inr (), s))
    | Some n \<Rightarrow> (\<lambda>s :: 'a jax_fs. if jf_read_only s then (Inl EROFS, s) else handle_truncate E p n fh s))"
  have ok1: "jax_ok E (snd (sized s))"
    using truncate_ok [OF laws ok good] ok by (simp add: sized_def split: option.split)
  define rest where "rest = bindS (case t of
        None \<Rightarrow> (\<lambda>s. (Inr (), s))
      | Some t \<Rightarrow> bindS (fetch_attr E p) (\<lambda>r s. case r of
            None \<Rightarrow> (Inr (), s)
          | Some attr \<Rightarrow> on_cache (put_attr p (attr\<lparr>ca_mtime :=
              case t of SpecificTime x \<Rightarrow> (if 0 \<le> x then x else jf_now s) | Now \<Rightarrow> jf_now s\<rparr>)) s)) (\<lambda>_.
      bindS (fetch_attr E p) (\<lambda>r s.
        case r of None \<Rightarrow> (Inl ENOENT, s) | Some attr \<Rightarrow> (Inr (make_attr i attr s), s)))"
  have rest: "leaves same_but_cache rest" "fs_setattr E i z t fh s = bindS sized (\<lambda>_. rest) s"
  proof -
    show "leaves same_but_cache rest"
      unfolding rest_def by (intro leaves_rules)
    show "fs_setattr E i z t fh s = bindS sized (\<lambda>_. rest) s"
      unfolding fs_setattr_def Let_def bind_steps(1) Some option.case sized_def rest_def by (rule refl)
  qed
  show ?thesis
    unfolding rest(2) by (rule bind_ok) (use ok1 leaves_ok [OF rest(1) ok1] in auto)
qed (use ok in \<open>simp add: fs_setattr_def fuse_simps\<close>)


lemma number_entries_numbered:
  "number_entries p es t = (ds, t') \<Longrightarrow> inodes.numbered (map (\<lambda>e. child_path p (cd_name e)) es) t (map fst ds) t'"
proof (induction es arbitrary: t ds)
  case Nil
  then show ?case
    by (simp add: inodes.numbered_Nil)
next
  case (Cons e es)
  obtain n t1 where first: "get_or_create (child_path p (cd_name e)) t = (n, t1)"
    by (rule prod.exhaust)
  obtain ds1 t2 where rest: "number_entries p es t1 = (ds1, t2)"
    by (rule prod.exhaust)
  show ?case
    using Cons.prems first rest Cons.IH [of t1 ds1] inodes.numbered_Cons [OF first] by auto
qed

lemma readdir_ok:
  assumes ok: "jax_ok E s" and req: "request_ok E (ReadDir i off) s"
  shows "jax_ok E (snd (fs_readdir E fits i off s))"
proof (cases "get_path i (jf_inodes s)")
  case (Some p)
  then have good: "good_path p"
    using inode_good ok by (auto simp: jax_ok_def)
  obtain r s1 where fetch: "fetch_dir E p s = (r, s1)"
    by (rule prod.exhaust)
  obtain c where s1: "s1 = s\<lparr>jf_cache := c\<rparr>"
    using leavesD [OF leaves_fetch(2) fetch] by (auto simp: same_but_cache_def)
  have bind: "bindS (fetch_dir E p) k s = (case r of Inl e \<Rightarrow> (Inl e, s1) | Inr y \<Rightarrow> k y s1)"
    for k :: "cached_dir_entry list option \<Rightarrow> ('a, (nat \<times> dir_entry) list) fuse"
    using fetch by (simp add: bindS_def split: sum.split)
  show ?thesis
  proof (cases "\<exists>es. r = Inr (Some es)")
    case True
    then obtain es where es: "r = Inr (Some es)"
      by blast
    have names: "\<forall>e \<in> set es. good_name (cd_name e)" and room: "inode_room (length es + 1) (jf_inodes s)"
      using req Some fetch es by auto
    obtain pn s2 where par: "(if i = ROOT_INODE then (\<lambda>s. (Inr i, s)) else number_path (parent_path p)) s1 = (Inr pn, s2)"
      by (cases "i = ROOT_INODE"; cases "get_or_create (parent_path p) (jf_inodes s1)") (auto simp: number_path_def)
    have s2: "jax_ok E s2" "inode_room (length es) (jf_inodes s2)"
      using ok par s1 room good_parent [OF good] get_or_create_ok(1,2) [of "jf_inodes s" "length es" "parent_path p"]
      by (auto simp: jax_ok_def number_path_def inode_room_def split: if_splits prod.splits)
    obtain ds t where num: "number_entries p es (jf_inodes s2) = (ds, t)"
      by (rule prod.exhaust)
    have "inode_ok t"
      using inodes.numbered_ok [OF number_entries_numbered [OF num], of 0] s2 names good_child [OF good]
      by (auto simp: jax_ok_def)
    then show ?thesis
      using es par num s2(1) bind Some
      by (cases "i = ROOT_INODE") (simp_all add: fs_readdir_def fuse_simps(1) Let_def, simp_all add: bindS_def jax_ok_def)
  qed (use Some bind s1 ok in \<open>auto simp: fs_readdir_def fuse_simps(1) split: sum.split option.split\<close>)
qed (use ok in \<open>simp add: fs_readdir_def fuse_simps(1)\<close>)

lemma request_keeps_ok:
  assumes laws: "mount_laws E" and ok: "jax_ok E s" and req: "request_ok E r s"
  shows "jax_ok E (request_state wflags fits E r s)"
proof (cases r)
  case (GetAttr i)
  have "leaves same_but_cache (fs_getattr E i)"
    unfolding fs_getattr_def by (intro leaves_rules)
  then show ?thesis
    using GetAttr ok by (simp add: leaves_ok)
next
  case (Read i fh off z)
  have buffer: "leaves same_but_cache (\<lambda>s. case g s of Some b \<Rightarrow> (x b, s) | None \<Rightarrow> f s)" if "leaves same_but_cache f"
    for f :: "('a, bytes) fuse" and g :: "'a jax_fs \<Rightarrow> write_buffer option" and x
    using that reflpD [OF same_but_cache_order(1)] by (auto simp: leaves_def split: option.split)
  have "leaves same_but_cache (fs_read E i fh off z)"
    unfolding fs_read_def by (intro buffer leaves_rules)
  then show ?thesis
    using Read ok by (simp add: leaves_ok)
next
  case (Open i flags)
  have "jax_ok E (snd (fs_open wflags E i flags s))"
    unfolding fs_open_def fuse_simps(1) using ok fetch_ok(1) [OF ok]
    by (auto intro!: bind_ok simp: fail_if_def next_handle_def split: option.split)
  then show ?thesis
    using Open by simp
next
  case (Write fh off d)
  then show ?thesis
    using ok by (simp add: fs_write_def Let_def)
qed (use assms lookup_ok create_ok mkdir_ok unlink_ok rename_ok flush_ok setattr_ok readdir_ok in
    \<open>auto simp: fs_rmdir_def fs_release_def fs_xattr_def simp del: request_ok.simps(7)\<close>)

text \<open>
  C26: the file system keeps its mount in order. From a state in which the mount and the inode table
  satisfy their invariants, every sequence of well-formed requests, sync events, evictions and ticks
  leads to such a state: the bucket's tree stays readable and pinned, every known path has an inode
  that leads back to it, the root is inode 1.
\<close>

theorem jax_fs_invariant:
  assumes "mount_laws E" and "jax_ok E s" and "run_ok wflags fits E evs s"
  shows "jax_ok E (fs_run wflags fits E evs s)"
  using assms(2,3)
proof (induction evs arbitrary: s)
  case (Cons ev evs)
  have "jax_ok E (event_state wflags fits E ev s)"
    using request_keeps_ok [OF assms(1)] Cons.prems
    by (cases ev) (auto simp: handle_sync_event_def split: sync_event.split)
  then show ?case
    using Cons by (simp add: fs_run_def)
qed (simp add: fs_run_def)

section \<open>Writing\<close>

lemma read_slice_bytes:
  assumes "unat off + unat cnt < 2 ^ 64" and "unat off < length d"
  shows "read_slice d off cnt = Inr (take (unat cnt) (drop (unat off) d))"
proof -
  have "unat cnt < 2 ^ 64"
    using assms(1) by simp
  then have "unat (ucast cnt :: u64) = unat cnt"
    by (simp add: unsigned_ucast_eq take_bit_nat_eq_self)
  then have "unat (off + ucast cnt) = unat off + unat cnt"
    using assms(1) unat_add_lem [of off "ucast cnt"] by simp
  then show ?thesis
    using assms(2) by (auto simp: read_slice_def Let_def min_def)
qed

lemma read_file:
  assumes "jax_ok E s" and "get_path i (jf_inodes s) = Some (path_str (ns @ [x]))" and "\<forall>n \<in> set (ns @ [x]). good_name n"
    and "mount_fs E (jf_mount s) (ns @ [x]) = Some (FFile d)" and "get_content (path_str (ns @ [x])) (jf_cache s) = None"
    and "jf_write_buffers s fh = None" and "unat off + unat cnt < 2 ^ 64"
  shows "fst (fs_read E i fh off cnt s) = Inr (take (unat cnt) (drop (unat off) d))"
proof -
  have "mount_cat E (components (path_str (ns @ [x]))) (jf_mount s) = Inr d"
    using cat_file [of E "jf_mount s" ns x d] components_path_str [OF assms(3)] assms(1,4) by (simp add: jax_ok_def)
  then show ?thesis
    using assms read_slice_bytes [OF assms(7), of d]
    by (auto simp: fs_read_def path_of_inode_def fetch_content_def bindS_def try_mount_def on_cache_def Let_def)
qed

lemma invalidate_content: "get_content p (invalidate p c) = None"
  by (simp add: get_content_def invalidate_def Let_def)

lemma flush_dirty:
  assumes "\<not> jf_read_only s" and "get_path i (jf_inodes s) = Some p"
    and "jf_write_buffers s fh = Some b" and "wb_dirty b"
    and "mount_add E (components p) (Inr (wb_data b)) (jf_mount s) = (r, m)"
  shows "fs_flush E i fh s = (case r of
      Inl e \<Rightarrow> (Inl (fs_error e), s\<lparr>jf_mount := m\<rparr>)
    | Inr _ \<Rightarrow> request_save (s\<lparr>jf_mount := m, jf_write_buffers := (jf_write_buffers s)(fh \<mapsto> b\<lparr>wb_dirty := False\<rparr>),
        jf_cache := invalidate p (jf_cache s)\<rparr>))"
  using assms by (simp add: fs_flush_def fuse_simps split: sum.split)

text \<open>
  C27: flushing the buffer of a handle makes its bytes the content of the file, for every reader: the
  tree has the file with exactly the bytes of the buffer and is otherwise unchanged, a save is
  requested, the buffer is clean, and a read through another handle returns the slice it asks for. When
  the mount refuses, nothing is lost: the tree, the save requests and the buffer are as before.
\<close>

theorem flush_publishes:
  assumes laws: "mount_laws E" and ok: "jax_ok E s" and rw: "\<not> jf_read_only s"
    and path: "get_path i (jf_inodes s) = Some (path_str (ns @ [x]))" and good: "\<forall>n \<in> set (ns @ [x]). good_name n"
    and buf: "jf_write_buffers s fh = Some b" "wb_dirty b"
    and reader: "jf_write_buffers s fh' = None" "unat off + unat cnt < 2 ^ 64"
  shows "case fs_flush E i fh s of
      (Inr _, s') \<Rightarrow>
        mount_fs E (jf_mount s') = fs_set (ns @ [x]) (fs_file (wb_data b)) (mount_fs E (jf_mount s)) \<and>
        jf_save_requests s' = jf_save_requests s @ (if jf_save_tx s then [jf_mount_id s] else []) \<and>
        jf_write_buffers s' fh = Some (b\<lparr>wb_dirty := False\<rparr>) \<and>
        fst (fs_read E i fh' off cnt s') = Inr (take (unat cnt) (drop (unat off) (wb_data b)))
    | (Inl _, s') \<Rightarrow>
        mount_fs E (jf_mount s') = mount_fs E (jf_mount s) \<and> jf_save_requests s' = jf_save_requests s \<and>
        jf_write_buffers s' = jf_write_buffers s"
proof -
  obtain r m where add: "mount_add E (components (path_str (ns @ [x]))) (Inr (wb_data b)) (jf_mount s) = (r, m)"
    by (rule prod.exhaust)
  note run = add [unfolded components_path_str [OF good]] and flush = flush_dirty [OF rw path buf add]
  have mok: "mount_ok E (jf_mount s)"
    using ok by (simp add: jax_ok_def)
  show ?thesis
  proof (cases r)
    case (Inl e)
    then show ?thesis
      using add_op.failure [OF laws mok] run by (simp add: flush)
  next
    case (Inr u)
    define s' where "s' = snd (fs_flush E i fh s)"
    have s': "fs_flush E i fh s = (Inr (), s')" "jf_mount s' = m" "jf_inodes s' = jf_inodes s"
      "jf_write_buffers s' = (jf_write_buffers s)(fh \<mapsto> b\<lparr>wb_dirty := False\<rparr>)"
      "jf_cache s' = invalidate (path_str (ns @ [x])) (jf_cache s)"
      "jf_save_requests s' = jf_save_requests s @ (if jf_save_tx s then [jf_mount_id s] else [])"
      using Inr by (simp_all add: s'_def flush request_save_def)
    have fs: "mount_fs E m = fs_set (ns @ [x]) (fs_file (wb_data b)) (mount_fs E (jf_mount s))"
      using add_op.success [OF laws mok TrueI] run Inr by simp
    have "fst (fs_read E i fh' off cnt s') = Inr (take (unat cnt) (drop (unat off) (wb_data b)))"
    proof (rule read_file)
      show "jax_ok E s'"
        using flush_ok [OF laws ok, of i fh] by (simp add: s'_def)
      show "mount_fs E (jf_mount s') (ns @ [x]) = Some (FFile (wb_data b))"
        by (simp add: s' fs fs_set_def fs_file_def)
    qed (use path good reader buf in \<open>auto simp: s' invalidate_content\<close>)
    then show ?thesis
      using s' fs by simp
  qed
qed

text \<open>The buffer of a handle after a write.\<close>

lemma write_fits:
  fixes off :: u64
  assumes "unat off + length d < 2 ^ 64"
  shows "unat (off + of_nat (length d)) = unat off + length d"
  using assms unat_add_lem [of off "of_nat (length d)"] by (simp add: unat_of_nat)

lemma vec_resize_parts:
  defines "grown \<equiv> \<lambda>fin w. if length w < fin then vec_resize fin w else w"
  shows "start \<le> fin \<Longrightarrow> take start (grown fin w) = take start w @ replicate (start - length w) 0"
    and "drop fin (grown fin w) = drop fin w"
  by (auto simp: grown_def vec_resize_def min_def take_Cons')

lemma fs_write_buffer:
  assumes "\<not> jf_read_only s" and "unat off + length d < 2 ^ 64"
  shows "fs_write fh off d s = (Inr (of_nat (length d)), s\<lparr>jf_write_buffers := (jf_write_buffers s)(fh \<mapsto>
     \<lparr>wb_data = (let old = (case jf_write_buffers s fh of Some b \<Rightarrow> wb_data b | None \<Rightarrow> [])
        in take (unat off) old @ replicate (unat off - length old) 0 @ d @ drop (unat off + length d) old), wb_dirty = True\<rparr>)\<rparr>)"
  using assms(1) write_fits [OF assms(2)]
  by (simp add: fs_write_def vec_resize_parts Let_def split: option.split)

text \<open>
  A write into an open file replaces the file. The buffer of a handle starts empty, not with the
  content of the file, so once a first write at an offset has been flushed the file is that many zero
  bytes and the written data, whatever it contained before.
\<close>

theorem partial_write_zeroes:
  assumes laws: "mount_laws E" and ok: "jax_ok E s" and rw: "\<not> jf_read_only s"
    and path: "get_path i (jf_inodes s) = Some (path_str (ns @ [x]))" and good: "\<forall>n \<in> set (ns @ [x]). good_name n"
    and fresh: "jf_write_buffers s fh = None" and len: "unat off + length d < 2 ^ 64"
    and run: "fs_flush E i fh (snd (fs_write fh off d s)) = (Inr (), s')"
  shows "mount_fs E (jf_mount s') (ns @ [x]) = Some (FFile (replicate (unat off) 0 @ d))"
proof -
  define s1 where "s1 = snd (fs_write fh off d s)"
  have s1: "s1 = s\<lparr>jf_write_buffers := (jf_write_buffers s)(fh \<mapsto> \<lparr>wb_data = replicate (unat off) 0 @ d, wb_dirty = True\<rparr>)\<rparr>"
    using fs_write_buffer [OF rw len] fresh by (simp add: s1_def)
  obtain r m where add: "mount_add E (components (path_str (ns @ [x]))) (Inr (replicate (unat off) 0 @ d)) (jf_mount s) = (r, m)"
    by (rule prod.exhaust)
  note flush = flush_dirty [of s1 i "path_str (ns @ [x])" fh "\<lparr>wb_data = replicate (unat off) 0 @ d, wb_dirty = True\<rparr>" E r m]
  have u: "r = Inr ()" "jf_mount s' = m"
    using run [folded s1_def] flush rw path add s1 by (auto simp: request_save_def split: sum.splits if_splits)
  then show ?thesis
    using add_op.success [OF laws _ TrueI, of "jf_mount s" ns x _ m] add components_path_str [OF good] ok
    by (simp add: jax_ok_def fs_set_def fs_file_def)
qed

section \<open>Runs\<close>

text \<open>A file system whose table knows \<open>/f\<close> as inode 2.\<close>

definition sample_fs :: "sample_world mount_state \<Rightarrow> bool \<Rightarrow> sample_world jax_fs" where
  "sample_fs m ro = (jax_fs_new m 5 file_cache_config_default ro True 0 (0, 0))
     \<lparr>jf_inodes := snd (get_or_create ''/f'' inode_new)\<rparr>"

lemma normalize_f [simp]: "normalize_path ''/f'' = ''/f''" "path_str [''f''] = ''/f''" "good_name ''f''" "good_path ''/f''"
proof -
  show f: "path_str [''f''] = ''/f''" "good_name ''f''"
    by (simp_all add: path_str_def good_name_def is_whitespace_def)
  then show "normalize_path ''/f'' = ''/f''" "good_path ''/f''"
    using normalize_path_str [of "[''f'']"] by (auto simp: good_path_def intro: exI [of _ "[''f'']"])
qed

lemma sample_fs_simps [simp]:
  "get_path 2 (jf_inodes (sample_fs m ro)) = Some ''/f''" "jf_mount (sample_fs m ro) = m"
  "jf_read_only (sample_fs m ro) = ro" "jf_write_buffers (sample_fs m ro) = Map.empty"
  "inode_ok (jf_inodes (sample_fs m ro))"
proof -
  have "inode_room (Suc 0) inode_new"
    by (simp add: inode_room_def inode_new_def ROOT_INODE_def)
  from get_or_create_ok(1) [OF inode_ok_new this, of "''/f''"] show "inode_ok (jf_inodes (sample_fs m ro))"
    by (simp add: sample_fs_def) (metis prod.collapse)
qed (simp_all add: sample_fs_def jax_fs_new_def get_or_create_def Let_def inode_new_def get_path_def ROOT_INODE_def)

lemma root_request:
  assumes "jax_ok E s"
  shows "dir_request E 1 s"
proof -
  have path: "get_path 1 (jf_inodes s) = Some ''/''"
    using assms by (auto simp: jax_ok_def inode_ok_def get_path_def ROOT_INODE_def)
  have "no_file_above ns (mount_fs E (jf_mount s))" if "\<forall>n \<in> set ns. good_name n" "''/'' = path_str ns" for ns
    using path_str_root [OF that(1)] that(2) by (simp add: no_file_above_def mount_fs_def)
  then show ?thesis
    by (simp add: dir_request_def path)
qed

theorem jax_fs_invariant_witness:
  "jax_ok (sample_ext sample_tables [] []) (fs_run 3 (\<lambda>_. True) (sample_ext sample_tables [] [])
     [Request (Create 1 (Some ''f'')), Sync Lagged, Request (Write 1 0 [9]), Request (Unlink 1 (Some ''f''))]
     (jax_fs_new (sample_mount, (0, [])) 5 file_cache_config_default False True 0 (0, 0)))"
proof -
  let ?E = "sample_ext sample_tables [] []" and ?s = "jax_fs_new (sample_mount, (0, [])) 5 file_cache_config_default False True 0 (0, 0)"
  have ok: "jax_ok ?E ?s" and room: "inode_room 1 (jf_inodes ?s)"
    using sample_mount_ok inode_ok_new by (simp_all add: jax_ok_def jax_fs_new_def inode_room_def inode_new_def ROOT_INODE_def)
  have name: "name_ok (Some ''f'')"
    by (simp add: name_ok_def)
  have "dir_request ?E 1 (snd (fs_write 1 0 [9] (handle_sync_event Lagged (snd (fs_create ?E 1 (Some ''f'') ?s)))))"
    using create_ok [OF sample_laws ok name room, of 1]
    by (intro root_request) (simp add: fs_write_def Let_def handle_sync_event_def)
  then have "run_ok 3 (\<lambda>_. True) ?E [Request (Create 1 (Some ''f'')), Sync Lagged, Request (Write 1 0 [9]),
      Request (Unlink 1 (Some ''f''))] ?s"
    using room name by simp
  then show ?thesis
    using jax_fs_invariant [OF sample_laws ok] by blast
qed

theorem read_only_never_changes_witness:
  "jf_mount (fs_run 3 (\<lambda>_. True) (sample_ext sample_tables [] [])
     [Request (Unlink 1 (Some ''f'')), Request (Write 1 0 [9]), Request (Flush 2 1)] (sample_fs sample_added True)) = sample_added"
  using read_only_never_changes [of "sample_fs sample_added True" 3 "\<lambda>_. True" "sample_ext sample_tables [] []"] by simp

lemma sample_flush:
  assumes "fst (mount_add E (abs_path [''f'']) (Inr (wb_data b)) m) = Inr ()" and "wb_dirty b"
  shows "fst (fs_flush E 2 1 ((sample_fs m False)\<lparr>jf_write_buffers := [1 \<mapsto> b]\<rparr>)) = Inr ()"
proof -
  have "mount_add E (components ''/f'') (Inr (wb_data b)) m =
      (Inr (), snd (mount_add E (abs_path [''f'']) (Inr (wb_data b)) m))"
    using assms(1) components_path_str [of "[''f'']"] by (simp add: prod_eq_iff)
  then show ?thesis
    using flush_dirty [of "(sample_fs m False)\<lparr>jf_write_buffers := [1 \<mapsto> b]\<rparr>" 2 "''/f''" 1 b E] assms(2)
    by (simp add: request_save_state)
qed

theorem flush_publishes_witness:
  "fst (fs_read (sample_ext sample_tables [] []) 2 2 1 8 (snd (fs_flush (sample_ext sample_tables [] []) 2 1
     (snd (fs_write 1 0 [9, 8] (sample_fs (sample_mount, (0, [])) False)))))) = Inr [8]"
proof -
  let ?E = "sample_ext sample_tables [] []" and ?s = "snd (fs_write 1 0 [9, 8] (sample_fs (sample_mount, (0, [])) False))"
  have s: "?s = (sample_fs (sample_mount, (0, [])) False)\<lparr>jf_write_buffers := [1 \<mapsto> \<lparr>wb_data = [9, 8], wb_dirty = True\<rparr>]\<rparr>"
    using fs_write_buffer [of "sample_fs (sample_mount, (0, [])) False" 0 "[9, 8]" 1] by simp
  have "fst (mount_add ?E (abs_path [''f'']) (Inr [9, 8]) (sample_mount, (0, []))) = Inr ()"
    by (simp add: run_defs mount_add_def sample_tables_def)
  then have "fst (fs_flush ?E 2 1 ?s) = Inr ()"
    unfolding s by (intro sample_flush) simp_all
  moreover have "jax_ok ?E ?s"
    using sample_mount_ok by (simp add: s jax_ok_def)
  ultimately show ?thesis
    using flush_publishes [OF sample_laws, of sample_tables "[]" "[]" ?s 2 "[]" "''f''" 1 _ 2 1 8]
    by (simp add: s split: prod.splits)
qed

theorem partial_write_zeroes_witness:
  "mount_fs (sample_ext sample_tables [] []) (jf_mount (snd (fs_flush (sample_ext sample_tables [] []) 2 1
     (snd (fs_write 1 2 [9] (sample_fs sample_added False)))))) [''f''] = Some (FFile [0, 0, 9])"
proof -
  let ?E = "sample_ext sample_tables [] []" and ?s = "snd (fs_write 1 2 [9] (sample_fs sample_added False))"
  have zeroes: "replicate 2 x = [x, x]" for x :: byte
    by (simp add: numeral_2_eq_2)
  have s: "?s = (sample_fs sample_added False)\<lparr>jf_write_buffers := [1 \<mapsto> \<lparr>wb_data = [0, 0, 9], wb_dirty = True\<rparr>]\<rparr>"
    using fs_write_buffer [of "sample_fs sample_added False" 2 "[9]" 1] by (simp add: zeroes)
  have "fst (mount_add ?E (abs_path [''f'']) (Inr [0, 0, 9]) sample_added) = Inr ()"
    by (simp add: sample_run_defs)
  then have "fst (fs_flush ?E 2 1 ?s) = Inr ()"
    unfolding s by (intro sample_flush) simp_all
  then have "fs_flush ?E 2 1 ?s = (Inr (), snd (fs_flush ?E 2 1 ?s))"
    by (metis prod.collapse)
  moreover have "jax_ok ?E (sample_fs sample_added False)"
    using sample_added_ok by (simp add: jax_ok_def)
  ultimately show ?thesis
    using partial_write_zeroes [OF sample_laws, of sample_tables "[]" "[]" "sample_fs sample_added False" 2 "[]" "''f''" 1 2 "[9]"]
    by (simp add: zeroes)
qed

end
