(* ===== verification/Fuse_Mounts.thy ===== *)
theory Fuse_Mounts
  imports Sql_Log
begin

text \<open>
  The mount configurations of the daemon: \<open>daemon/src/database/models/fuse_mount.rs\<close>, a table
  \<open>fuse_mounts\<close> of the same database, with the statuses of \<open>database/types/mount_status.rs\<close>.

  As in \<open>Sql_Log\<close> a table is the list of its rows. Its constraints are the primary key \<open>mount_id\<close> and
  \<open>UNIQUE\<close> on \<open>mount_point\<close> (\<open>migrations/20260211000000_create_fuse_mounts.up.sql\<close>), the defaults of the columns an
  insertion leaves out are those of the migration. Integer columns are \<open>i64\<close> values, booleans the
  integers that \<open>DBool\<close> reads back. \<open>CURRENT_TIMESTAMP\<close> is the clock of the table, and the identifier
  that \<open>DUuid::new\<close> draws is an argument.
\<close>

section \<open>Statuses\<close>

datatype mount_status = Stopped | Starting | Running | Stopping | Error

fun status_as_str :: "mount_status \<Rightarrow> string" where
  "status_as_str Stopped = ''stopped''"
| "status_as_str Starting = ''starting''"
| "status_as_str Running = ''running''"
| "status_as_str Stopping = ''stopping''"
| "status_as_str Error = ''error''"

definition status_from_str :: "string \<Rightarrow> mount_status" where
  "status_from_str s =
     (if s = ''stopped'' then Stopped
      else if s = ''starting'' then Starting
      else if s = ''running'' then Running
      else if s = ''stopping'' then Stopping
      else if s = ''error'' then Error
      else Stopped)"

section \<open>The table\<close>

record fuse_mount =
  fm_mount_id :: uuid
  fm_bucket_id :: uuid
  fm_mount_point :: string
  fm_enabled :: bool
  fm_auto_mount :: bool
  fm_read_only :: bool
  fm_cache_size_mb :: int
  fm_cache_ttl_secs :: int
  fm_status :: string
  fm_error_message :: "string option"
  fm_created_at :: int
  fm_updated_at :: int

record fuse_table =
  ft_rows :: "fuse_mount list"
  ft_clock :: int

datatype sqlx_error = UniqueViolation string | RowNotFound | ColumnDecode bucket_log_error

definition unwrap_or :: "'a option \<Rightarrow> 'a \<Rightarrow> 'a" where
  "unwrap_or x d = (case x of Some v \<Rightarrow> v | None \<Rightarrow> d)"

definition fuse_get :: "uuid \<Rightarrow> fuse_table \<Rightarrow> fuse_mount option" where
  "fuse_get i t = find (\<lambda>r. fm_mount_id r = i) (ft_rows t)"

definition fuse_list :: "fuse_table \<Rightarrow> fuse_mount list" where
  "fuse_list t = sort_key (\<lambda>r. - fm_created_at r) (ft_rows t)"

definition auto_list :: "fuse_table \<Rightarrow> fuse_mount list" where
  "auto_list t = sort_key fm_created_at (filter (\<lambda>r. fm_auto_mount r \<and> fm_enabled r) (ft_rows t))"

definition by_bucket :: "uuid \<Rightarrow> fuse_table \<Rightarrow> fuse_mount list" where
  "by_bucket i t = sort_key (\<lambda>r. - fm_created_at r) (filter (\<lambda>r. fm_bucket_id r = i) (ft_rows t))"

definition fuse_create ::
  "uuid \<Rightarrow> uuid \<Rightarrow> string \<Rightarrow> bool \<Rightarrow> bool \<Rightarrow> int option \<Rightarrow> int option \<Rightarrow> fuse_table \<Rightarrow>
     (sqlx_error + fuse_mount) \<times> fuse_table" where
  "fuse_create new_id bucket_id mount_point auto_mount read_only cache_size_mb cache_ttl_secs t =
     (let r = \<lparr>fm_mount_id = new_id, fm_bucket_id = bucket_id, fm_mount_point = mount_point, fm_enabled = True,
        fm_auto_mount = auto_mount, fm_read_only = read_only, fm_cache_size_mb = unwrap_or cache_size_mb 100,
        fm_cache_ttl_secs = unwrap_or cache_ttl_secs 60, fm_status = ''stopped'', fm_error_message = None,
        fm_created_at = ft_clock t, fm_updated_at = ft_clock t\<rparr>
      in if new_id \<in> fm_mount_id ` set (ft_rows t) then (Inl (UniqueViolation ''mount_id''), t)
         else if mount_point \<in> fm_mount_point ` set (ft_rows t) then (Inl (UniqueViolation ''mount_point''), t)
         else (let t' = t\<lparr>ft_rows := ft_rows t @ [r]\<rparr> in (ok_or RowNotFound (fuse_get new_id t'), t')))"

text \<open>An \<open>UPDATE ... WHERE mount_id = i\<close>.\<close>

definition update_rows :: "uuid \<Rightarrow> (fuse_mount \<Rightarrow> fuse_mount) \<Rightarrow> fuse_table \<Rightarrow> fuse_table" where
  "update_rows i f t = t\<lparr>ft_rows := map (\<lambda>r. if fm_mount_id r = i then f r else r) (ft_rows t)\<rparr>"

definition fuse_update ::
  "uuid \<Rightarrow> string option \<Rightarrow> bool option \<Rightarrow> bool option \<Rightarrow> bool option \<Rightarrow> int option \<Rightarrow> int option \<Rightarrow> fuse_table \<Rightarrow>
     (sqlx_error + fuse_mount option) \<times> fuse_table" where
  "fuse_update i mount_point0 enabled0 auto_mount0 read_only0 cache_size_mb cache_ttl_secs t =
     (case fuse_get i t of
        None \<Rightarrow> (Inr None, t)
      | Some existing \<Rightarrow>
          (let mount_point = unwrap_or mount_point0 (fm_mount_point existing);
               t' = update_rows i (\<lambda>r. r\<lparr>fm_mount_point := mount_point,
                 fm_enabled := unwrap_or enabled0 (fm_enabled existing),
                 fm_auto_mount := unwrap_or auto_mount0 (fm_auto_mount existing),
                 fm_read_only := unwrap_or read_only0 (fm_read_only existing),
                 fm_cache_size_mb := unwrap_or cache_size_mb (fm_cache_size_mb existing),
                 fm_cache_ttl_secs := unwrap_or cache_ttl_secs (fm_cache_ttl_secs existing),
                 fm_updated_at := ft_clock t\<rparr>) t
           in if \<exists>r \<in> set (ft_rows t). fm_mount_id r \<noteq> i \<and> fm_mount_point r = mount_point
              then (Inl (UniqueViolation ''mount_point''), t)
              else (Inr (fuse_get i t'), t')))"

definition fuse_delete :: "uuid \<Rightarrow> fuse_table \<Rightarrow> bool \<times> fuse_table" where
  "fuse_delete i t =
     (i \<in> fm_mount_id ` set (ft_rows t), t\<lparr>ft_rows := filter (\<lambda>r. fm_mount_id r \<noteq> i) (ft_rows t)\<rparr>)"

definition update_status :: "uuid \<Rightarrow> mount_status \<Rightarrow> string option \<Rightarrow> fuse_table \<Rightarrow> bool \<times> fuse_table" where
  "update_status i status error_message t =
     (i \<in> fm_mount_id ` set (ft_rows t),
      update_rows i (\<lambda>r. r\<lparr>fm_status := status_as_str status, fm_error_message := error_message,
        fm_updated_at := ft_clock t\<rparr>) t)"

section \<open>The invariant of the table\<close>

lemma status_roundtrip [simp]: "status_from_str (status_as_str s) = s"
  by (cases s) (simp_all add: status_from_str_def)

lemma status_as_str_inject [simp]: "status_as_str a = status_as_str b \<longleftrightarrow> a = b"
  by (metis status_roundtrip)

text \<open>
  A column that is written from a \<open>u32\<close> and read back with \<open>as u32\<close>.
\<close>

definition u32_column :: "int \<Rightarrow> bool" where
  "u32_column x \<longleftrightarrow> 0 \<le> x \<and> x < 2 ^ 32"

definition row_ok :: "fuse_mount \<Rightarrow> bool" where
  "row_ok r \<longleftrightarrow> fm_status r \<in> range status_as_str \<and> u32_column (fm_cache_size_mb r) \<and> u32_column (fm_cache_ttl_secs r)"

definition table_ok :: "fuse_table \<Rightarrow> bool" where
  "table_ok t \<longleftrightarrow> distinct (map fm_mount_id (ft_rows t)) \<and> distinct (map fm_mount_point (ft_rows t)) \<and>
     (\<forall>r \<in> set (ft_rows t). row_ok r)"

definition u32_arg :: "int option \<Rightarrow> bool" where
  "u32_arg x \<longleftrightarrow> (case x of Some v \<Rightarrow> u32_column v | None \<Rightarrow> True)"

lemma u32_column_of_word: "u32_arg (map_option (\<lambda>v :: 32 word. int (unat v)) x)"
  using unsigned_less [where 'a = int and 'b = 32] by (auto simp: u32_arg_def u32_column_def split: option.split)

lemma unwrap_u32: "u32_arg x \<Longrightarrow> u32_column d \<Longrightarrow> u32_column (unwrap_or x d)"
  by (auto simp: u32_arg_def unwrap_or_def split: option.splits)

lemma fuse_get_Some:
  assumes "table_ok t"
  shows "fuse_get i t = Some r \<longleftrightarrow> r \<in> set (ft_rows t) \<and> fm_mount_id r = i"
proof
  assume "r \<in> set (ft_rows t) \<and> fm_mount_id r = i"
  moreover from this have "fuse_get i t \<noteq> None"
    by (auto simp: fuse_get_def find_None_iff)
  ultimately show "fuse_get i t = Some r"
    using assms by (auto simp: table_ok_def fuse_get_def find_Some_iff distinct_map inj_on_def)
qed (auto simp: fuse_get_def find_Some_iff)

lemma fuse_get_None: "fuse_get i t = None \<longleftrightarrow> i \<notin> fm_mount_id ` set (ft_rows t)"
  by (auto simp: fuse_get_def find_None_iff)

lemma fuse_get_id: "fuse_get i t = Some r \<Longrightarrow> fm_mount_id r = i"
  by (auto simp: fuse_get_def find_Some_iff)

text \<open>What a query by identifier answers after each statement.\<close>

lemma find_map_same:
  "(\<And>r. P (f r) = P r) \<Longrightarrow> find P (map f rs) = map_option f (find P rs)"
  by (induction rs) auto

lemma fuse_get_update:
  assumes "\<And>r. fm_mount_id (f r) = fm_mount_id r"
  shows "fuse_get j (update_rows i f t) = (if j = i then map_option f (fuse_get j t) else fuse_get j t)"
proof -
  have "fuse_get j (update_rows i f t) = map_option (\<lambda>r. if fm_mount_id r = i then f r else r) (fuse_get j t)"
    using assms by (simp add: fuse_get_def update_rows_def find_map_same)
  then show ?thesis
    using fuse_get_id [of j t] by (cases "fuse_get j t") auto
qed

lemma fuse_get_append: "fuse_get j (t\<lparr>ft_rows := ft_rows t @ [r]\<rparr>) =
    (case fuse_get j t of Some x \<Rightarrow> Some x | None \<Rightarrow> if fm_mount_id r = j then Some r else None)"
proof -
  have "find P (xs @ [r]) = (case find P xs of Some x \<Rightarrow> Some x | None \<Rightarrow> if P r then Some r else None)" for P xs
    by (induction xs) auto
  then show ?thesis
    by (simp add: fuse_get_def)
qed

lemma fuse_get_delete: "fuse_get j (snd (fuse_delete i t)) = (if j = i then None else fuse_get j t)"
proof -
  have "find (\<lambda>r. fm_mount_id r = j) (filter (\<lambda>r. fm_mount_id r \<noteq> i) rs) =
      (if j = i then None else find (\<lambda>r. fm_mount_id r = j) rs)" for rs
    by (induction rs) auto
  from this [of "ft_rows t"] show ?thesis
    by (cases "j = i") (simp_all add: fuse_get_def fuse_delete_def)
qed

lemma fuse_get_status: "fuse_get j (snd (update_status i st msg t)) =
    (if j = i then map_option (\<lambda>r. r\<lparr>fm_status := status_as_str st, fm_error_message := msg, fm_updated_at := ft_clock t\<rparr>)
       (fuse_get j t) else fuse_get j t)"
  by (simp add: update_status_def fuse_get_update)

lemmas fuse_get_after = fuse_get_append fuse_get_delete fuse_get_status

lemma table_ok_update:
  assumes ok: "table_ok t" and id: "\<And>r. fm_mount_id (f r) = fm_mount_id r"
    and row: "\<And>r. row_ok r \<Longrightarrow> row_ok (f r)"
    and point: "\<And>r. fm_mount_point (f r) = fm_mount_point r \<or> fm_mount_point (f r) = p"
    and free: "\<And>r. r \<in> set (ft_rows t) \<Longrightarrow> fm_mount_id r \<noteq> i \<Longrightarrow> fm_mount_point r \<noteq> p"
  shows "table_ok (update_rows i f t)"
proof -
  let ?g = "\<lambda>r. if fm_mount_id r = i then f r else r"
  have ids: "map fm_mount_id (ft_rows (update_rows i f t)) = map fm_mount_id (ft_rows t)"
    using id by (simp add: update_rows_def)
  have inj: "inj_on fm_mount_id (set (ft_rows t))" "inj_on fm_mount_point (set (ft_rows t))" "distinct (ft_rows t)"
    using ok by (auto simp: table_ok_def distinct_map)
  have "inj_on (\<lambda>r. fm_mount_point (?g r)) (set (ft_rows t))"
  proof (rule inj_onI)
    fix x y
    assume xy: "x \<in> set (ft_rows t)" "y \<in> set (ft_rows t)" "fm_mount_point (?g x) = fm_mount_point (?g y)"
    show "x = y"
      using xy inj(1,2) free point [of x] point [of y] unfolding inj_on_def by (auto split: if_splits)
  qed
  then have points: "distinct (map fm_mount_point (ft_rows (update_rows i f t)))"
    using inj(3) by (simp add: update_rows_def distinct_map comp_def)
  have "\<forall>r \<in> set (ft_rows (update_rows i f t)). row_ok r"
    using ok row by (auto simp: table_ok_def update_rows_def)
  then show ?thesis
    using ok ids points by (simp add: table_ok_def)
qed

lemma table_ok_status: "table_ok t \<Longrightarrow> table_ok (snd (update_status i st msg t))"
proof -
  assume ok: "table_ok t"
  let ?f = "\<lambda>r. r\<lparr>fm_status := status_as_str st, fm_error_message := msg, fm_updated_at := ft_clock t\<rparr>"
  have "distinct (map fm_mount_point (ft_rows (update_rows i ?f t))) = distinct (map fm_mount_point (ft_rows t))"
       "distinct (map fm_mount_id (ft_rows (update_rows i ?f t))) = distinct (map fm_mount_id (ft_rows t))"
    by (simp_all add: update_rows_def comp_def if_distrib cong: if_cong map_cong)
  then show ?thesis
    using ok by (auto simp: table_ok_def update_status_def row_ok_def) (auto simp: update_rows_def split: if_splits)
qed

lemma table_ok_delete: "table_ok t \<Longrightarrow> table_ok (snd (fuse_delete i t))"
  by (auto simp: table_ok_def fuse_delete_def intro: distinct_map_filter)

lemma table_ok_create:
  assumes "table_ok t" and "u32_arg size_mb" and "u32_arg ttl" and "fuse_create i b p am ro size_mb ttl t = (r, t')"
  shows "table_ok t'"
proof -
  have "row_ok x" if "fm_status x = ''stopped''" "fm_cache_size_mb x = unwrap_or size_mb 100"
      "fm_cache_ttl_secs x = unwrap_or ttl 60" for x
    using that unwrap_u32 [OF assms(2), of 100] unwrap_u32 [OF assms(3), of 60] range_eqI [of "''stopped''" status_as_str Stopped]
    by (simp add: row_ok_def u32_column_def)
  then show ?thesis
    using assms(1,4) by (auto simp: fuse_create_def Let_def table_ok_def split: if_splits)
qed

lemma fuse_create_Inr:
  assumes "fuse_create i b p am ro size_mb ttl t = (Inr x, t')"
  shows "fuse_get i t = None \<and> t' = t\<lparr>ft_rows := ft_rows t @ [x]\<rparr> \<and> fm_mount_id x = i \<and>
    fm_bucket_id x = b \<and> fm_mount_point x = p \<and> fm_auto_mount x = am \<and> fm_read_only x = ro \<and> fm_enabled x \<and>
    fm_status x = status_as_str Stopped"
proof -
  have none: "fuse_get i t = None"
    using assms by (auto simp: fuse_create_def Let_def fuse_get_None split: if_splits)
  then show ?thesis
    using assms by (auto simp: fuse_create_def Let_def fuse_get_append split: if_splits)
qed

lemma table_ok_fuse_update:
  assumes ok: "table_ok t" and args: "u32_arg size_mb" "u32_arg ttl" and run: "fuse_update i p en am ro size_mb ttl t = (r, t')"
  shows "table_ok t'"
proof (cases "fuse_get i t")
  case (Some e)
  then have "e \<in> set (ft_rows t)" "fm_mount_id e = i"
    using ok fuse_get_Some by blast+
  moreover from this have cols: "u32_column (unwrap_or size_mb (fm_cache_size_mb e))" "u32_column (unwrap_or ttl (fm_cache_ttl_secs e))"
    using ok args by (auto simp: table_ok_def row_ok_def intro: unwrap_u32)
  ultimately show ?thesis
    using run Some ok
    by (auto simp: fuse_update_def Let_def row_ok_def split: if_splits
        intro!: table_ok_update [where p = "unwrap_or p (fm_mount_point e)"])
qed (use run ok in \<open>auto simp: fuse_update_def\<close>)

lemma fuse_update_get:
  assumes "fuse_update i p en am ro size_mb ttl t = (r, t')"
  shows "map_option fm_status (fuse_get j t') = map_option fm_status (fuse_get j t)"
proof (cases "t' = t")
  case False
  then obtain f where "t' = update_rows i f t" "\<And>r. fm_mount_id (f r) = fm_mount_id r" "\<And>r. fm_status (f r) = fm_status r"
    using assms by (auto simp: fuse_update_def Let_def split: option.splits if_splits)
  then show ?thesis
    by (simp add: fuse_get_update option.map_comp comp_def)
qed simp

section \<open>The interface of the table\<close>

text \<open>
  What the mount manager relies on: the status of a mount is the last one that was set, statements
  about one mount leave the others alone, and every statement keeps the table in order.
\<close>

locale status_table =
  fixes ok :: "'t \<Rightarrow> bool"
    and status :: "uuid \<Rightarrow> 't \<Rightarrow> mount_status option"
    and set_to :: "uuid \<Rightarrow> mount_status \<Rightarrow> string option \<Rightarrow> 't \<Rightarrow> 't"
    and remove :: "uuid \<Rightarrow> 't \<Rightarrow> 't"
  assumes set_ok: "ok t \<Longrightarrow> ok (set_to i s msg t)"
    and remove_ok: "ok t \<Longrightarrow> ok (remove i t)"
    and status_set: "status j (set_to i s msg t) = (if j = i then map_option (\<lambda>_. s) (status j t) else status j t)"
    and status_remove: "status j (remove i t) = (if j = i then None else status j t)"
begin

text \<open>
  The table says of a set \<open>R\<close> of running mounts what is true, or that they are in error. Of the mounts
  in \<open>S\<close> it may still say what was true before.
\<close>

definition sound :: "uuid set \<Rightarrow> uuid set \<Rightarrow> 't \<Rightarrow> bool" where
  "sound S R t \<longleftrightarrow> ok t \<and> (\<forall>i. status i t = Some Running \<longrightarrow> i \<in> R \<union> S) \<and>
     (\<forall>i \<in> R. status i t = Some Running \<or> status i t = Some Error)"

lemma sound_started: "sound S R t \<Longrightarrow> status i t \<noteq> None \<Longrightarrow> sound S (insert i R) (set_to i Running msg t)"
  by (auto simp: sound_def set_ok status_set split: if_splits)

lemma sound_idle: "sound S R t \<Longrightarrow> i \<notin> R \<Longrightarrow> s \<noteq> Running \<Longrightarrow> sound S R (set_to i s msg t)"
  by (auto simp: sound_def set_ok status_set split: if_splits)

lemma sound_error: "sound S R t \<Longrightarrow> sound S R (set_to i Error msg t)"
  by (auto simp: sound_def set_ok status_set split: if_splits)

lemma sound_stopped: "sound S R t \<Longrightarrow> s \<noteq> Running \<Longrightarrow> sound S (R - {i}) (set_to i s msg t)"
  by (auto simp: sound_def set_ok status_set split: if_splits)

lemma sound_removed: "sound S R t \<Longrightarrow> sound S (R - {i}) (remove i t)"
  by (auto simp: sound_def remove_ok status_remove split: if_splits)

lemma sound_same: "sound S R t \<Longrightarrow> ok t' \<Longrightarrow> (\<And>i. status i t' = status i t) \<Longrightarrow> sound S R t'"
  by (auto simp: sound_def)

lemma sound_added: "sound S R t \<Longrightarrow> ok t' \<Longrightarrow> status j t = None \<Longrightarrow> s \<noteq> Running \<Longrightarrow>
    (\<And>i. status i t' = (if i = j then Some s else status i t)) \<Longrightarrow> sound S R t'"
  by (auto simp: sound_def split: if_splits)

end

definition row_status :: "uuid \<Rightarrow> fuse_table \<Rightarrow> mount_status option" where
  "row_status i t = map_option (\<lambda>r. status_from_str (fm_status r)) (fuse_get i t)"

interpretation statuses: status_table table_ok row_status "\<lambda>i s msg t. snd (update_status i s msg t)" "\<lambda>i t. snd (fuse_delete i t)"
  by unfold_locales
    (auto simp: table_ok_status table_ok_delete row_status_def fuse_get_status fuse_get_delete option.map_comp comp_def)

end
