(* ===== verification/Mount_Manager.thy ===== *)
theory Mount_Manager
  imports Fuse_Mounts Jax_Fs Mount_Merge
begin

text \<open>
  \<open>daemon/src/fuse/mount_manager.rs\<close>: the live mounts of the daemon, over the table of their
  configurations, the peer whose buckets they show and the operating system that mounts them.

  The \<open>Arc\<close> that a live mount shares with its file system is one value, the mount inside the state of
  the file system; its save queue is there too and is served by \<open>handle_save\<close>. The world of the blobs
  is that of the manager, and a file system works on it when a request comes in (\<open>session_request\<close>).
  Operations take the locks of the program for their whole length and are single steps here. The
  loops of a merge may run forever on a version chain that has a cycle: \<open>None\<close>. The operating system
  is the argument \<open>X\<close>; the commands are those of Linux. A save request that is still queued when its
  mount is started again or deleted, which an old task would serve, is dropped.
\<close>

section \<open>State\<close>

record 'o os_ext =
  os_path_exists :: "string \<Rightarrow> 'o \<Rightarrow> bool"
  os_create_dir_all :: "string \<Rightarrow> 'o \<Rightarrow> (string + unit) \<times> 'o"
  os_is_dir :: "string \<Rightarrow> 'o \<Rightarrow> bool"
  os_spawn_mount :: "string \<Rightarrow> 'o \<Rightarrow> (string + unit) \<times> 'o"
  os_fusermount :: "string \<Rightarrow> string \<Rightarrow> 'o \<Rightarrow> (string + bool) \<times> 'o"

record 'w live_mount =
  lm_fs :: "'w jax_fs"
  lm_session :: bool
  lm_cache :: file_cache
  lm_config :: fuse_mount

definition lm_mount :: "'w live_mount \<Rightarrow> mount_inner" where
  "lm_mount live = fst (jf_mount (lm_fs live))"

definition set_mount :: "mount_inner \<Rightarrow> 'w live_mount \<Rightarrow> 'w live_mount" where
  "set_mount m live = live\<lparr>lm_fs := (lm_fs live)\<lparr>jf_mount := (m, snd (jf_mount (lm_fs live)))\<rparr>\<rparr>"

record ('w, 'o) mount_manager =
  mm_mounts :: "(uuid \<times> 'w live_mount) list"
  mm_table :: fuse_table
  mm_peer :: "database peer"
  mm_world :: 'w
  mm_os :: 'o
  mm_events :: "sync_event list"

datatype manager_error =
    Database sqlx_error
  | BucketNotFound uuid
  | MountNotFound uuid
  | MountPointNotFound string
  | MountPointNotDirectory string
  | AlreadyRunning uuid
  | MountLoad mount_error
  | SpawnFailed string
  | UnmountFailed string
  | ManagerPanic string

type_synonym ('w, 'o, 'a) managed = "('w, 'o) mount_manager \<Rightarrow> (manager_error + 'a) \<times> ('w, 'o) mount_manager"

definition manager_new :: "database peer \<Rightarrow> fuse_table \<Rightarrow> 'w \<Rightarrow> 'o \<Rightarrow> ('w, 'o) mount_manager" where
  "manager_new p t w os =
     \<lparr>mm_mounts = [], mm_table = t, mm_peer = p, mm_world = w, mm_os = os, mm_events = []\<rparr>"

definition put_live :: "uuid \<Rightarrow> 'w live_mount \<Rightarrow> ('w, 'o) mount_manager \<Rightarrow> ('w, 'o) mount_manager" where
  "put_live i live st = st\<lparr>mm_mounts := hm_insert i live (mm_mounts st)\<rparr>"

definition set_status ::
  "uuid \<Rightarrow> mount_status \<Rightarrow> string option \<Rightarrow> ('w, 'o) mount_manager \<Rightarrow> ('w, 'o) mount_manager" where
  "set_status i status msg st = st\<lparr>mm_table := snd (update_status i status msg (mm_table st))\<rparr>"

definition load_error :: "mount_error \<Rightarrow> manager_error" where
  "load_error e = (case e of MtPanic m \<Rightarrow> ManagerPanic m | _ \<Rightarrow> MountLoad e)"

definition as_u32 :: "int \<Rightarrow> 32 word" where
  "as_u32 x = word_of_int x"

section \<open>Synchronisation\<close>

text \<open>The end of an iteration: the cache of the live mount is emptied and the subscribers are told.\<close>

definition invalidated ::
  "uuid \<Rightarrow> 'w live_mount \<Rightarrow> ('w, 'o) mount_manager \<Rightarrow> ('w, 'o) mount_manager" where
  "invalidated i live st =
     put_live i (live\<lparr>lm_cache := invalidate_all (lm_cache live)\<rparr>)
       (st\<lparr>mm_events := mm_events st @ [MountInvalidated i]\<rparr>)"

definition reload ::
  "('w, 'z) mount_ext_scheme \<Rightarrow> database log_provider \<Rightarrow> uuid \<Rightarrow> uuid \<Rightarrow> 'w live_mount \<Rightarrow> ('w, 'o, unit) managed" where
  "reload E L bucket_id i live st =
     (case peer_mount E L bucket_id (mm_peer st, mm_world st) of
        Inl e \<Rightarrow> (Inl (load_error e), put_live i live st)
      | Inr new_mount \<Rightarrow> (Inr (), invalidated i (set_mount new_mount live) st))"

definition sync_mount ::
  "('w, 'z) mount_ext_scheme \<Rightarrow> database log_provider \<Rightarrow> (hash \<Rightarrow> string) \<Rightarrow> uuid \<Rightarrow> uuid \<Rightarrow> 'w live_mount \<Rightarrow>
     ('w, 'o) mount_manager \<Rightarrow> ((manager_error + unit) \<times> ('w, 'o) mount_manager) option" where
  "sync_mount E L show_hash bucket_id i live st =
     (if \<not> log_is_empty (mi_ops_log (lm_mount live)) then
        (case peer_mount E L bucket_id (mm_peer st, mm_world st) of
           Inl e \<Rightarrow> Some (Inl (load_error e), st)
         | Inr incoming \<Rightarrow>
             Option.bind (merge_from E incoming (conflict_file show_hash CONFLICT_HASH_LENGTH)
                 (lm_mount live, mm_world st)) (\<lambda>(r, m, w).
               let live1 = set_mount m live; st1 = st\<lparr>mm_world := w\<rparr> in
               case r of
                 Inr _ \<Rightarrow>
                   (case save_mount E L False (mm_peer st) (m, w) of
                      (r', p, m', w') \<Rightarrow>
                        (let live2 = set_mount m' live; st2 = st\<lparr>mm_peer := p, mm_world := w'\<rparr> in
                         case r' of
                           Inl (MtPanic msg) \<Rightarrow> Some (Inl (ManagerPanic msg), put_live i live2 st2)
                         | _ \<Rightarrow> Some (Inr (), invalidated i live2 st2)))
               | Inl (MtPanic msg) \<Rightarrow> Some (Inl (ManagerPanic msg), put_live i live1 st1)
               | Inl _ \<Rightarrow> Some (reload E L bucket_id i live1 st1)))
      else Some (reload E L bucket_id i live st))"

fun sync_mounts ::
  "('w, 'z) mount_ext_scheme \<Rightarrow> database log_provider \<Rightarrow> (hash \<Rightarrow> string) \<Rightarrow> uuid \<Rightarrow> uuid list \<Rightarrow>
     ('w, 'o) mount_manager \<Rightarrow> ((manager_error + unit) \<times> ('w, 'o) mount_manager) option" where
  "sync_mounts E L show_hash bucket_id [] st = Some (Inr (), st)"
| "sync_mounts E L show_hash bucket_id (i # ids) st =
     (case map_of (mm_mounts st) i of
        None \<Rightarrow> sync_mounts E L show_hash bucket_id ids st
      | Some live \<Rightarrow>
          (if fm_bucket_id (lm_config live) = bucket_id then
             Option.bind (sync_mount E L show_hash bucket_id i live st) (\<lambda>(r, st').
               case r of
                 Inl e \<Rightarrow> Some (Inl e, st')
               | Inr _ \<Rightarrow> sync_mounts E L show_hash bucket_id ids st')
           else sync_mounts E L show_hash bucket_id ids st))"

definition on_bucket_synced ::
  "('w, 'z) mount_ext_scheme \<Rightarrow> database log_provider \<Rightarrow> (hash \<Rightarrow> string) \<Rightarrow> uuid \<Rightarrow>
     ('w, 'o) mount_manager \<Rightarrow> ((manager_error + unit) \<times> ('w, 'o) mount_manager) option" where
  "on_bucket_synced E L show_hash bucket_id st =
     sync_mounts E L show_hash bucket_id (map fst (mm_mounts st)) st"

section \<open>Configurations\<close>

definition as_i64_arg :: "32 word option \<Rightarrow> int option" where
  "as_i64_arg x = map_option (\<lambda>v. int (unat v)) x"

definition create_mount ::
  "'o os_ext \<Rightarrow> uuid \<Rightarrow> uuid \<Rightarrow> string \<Rightarrow> bool \<Rightarrow> bool \<Rightarrow> 32 word option \<Rightarrow> 32 word option \<Rightarrow>
     ('w, 'o, fuse_mount) managed" where
  "create_mount X new_id bucket_id mount_point auto_mount read_only cache_size_mb cache_ttl_secs st =
     (case get_bucket_info (pr_log (mm_peer st)) bucket_id of
        Inl e \<Rightarrow> (Inl (log_error (\<lambda>e. Database (ColumnDecode e)) ManagerPanic e), st)
      | Inr None \<Rightarrow> (Inl (BucketNotFound bucket_id), st)
      | Inr (Some _) \<Rightarrow>
          (case (if os_path_exists X mount_point (mm_os st) then (Inr (), mm_os st)
                 else os_create_dir_all X mount_point (mm_os st)) of
             (Inl e, os) \<Rightarrow> (Inl (MountPointNotFound (mount_point @ '' (failed to create: '' @ e @ '')'')), st\<lparr>mm_os := os\<rparr>)
           | (Inr _, os) \<Rightarrow>
               (if \<not> os_is_dir X mount_point os then (Inl (MountPointNotDirectory mount_point), st\<lparr>mm_os := os\<rparr>)
                else
                  (case fuse_create new_id bucket_id mount_point auto_mount read_only (as_i64_arg cache_size_mb)
                          (as_i64_arg cache_ttl_secs) (mm_table st) of
                     (r, t) \<Rightarrow> (map_err Database r, st\<lparr>mm_os := os, mm_table := t\<rparr>)))))"

definition manager_get :: "uuid \<Rightarrow> ('w, 'o) mount_manager \<Rightarrow> manager_error + fuse_mount option" where
  "manager_get i st = Inr (fuse_get i (mm_table st))"

definition manager_list :: "('w, 'o) mount_manager \<Rightarrow> manager_error + fuse_mount list" where
  "manager_list st = Inr (fuse_list (mm_table st))"

definition manager_update ::
  "uuid \<Rightarrow> string option \<Rightarrow> bool option \<Rightarrow> bool option \<Rightarrow> bool option \<Rightarrow> 32 word option \<Rightarrow> 32 word option \<Rightarrow>
     ('w, 'o, fuse_mount option) managed" where
  "manager_update i mount_point enabled auto_mount read_only cache_size_mb cache_ttl_secs st =
     (case fuse_update i mount_point enabled auto_mount read_only (as_i64_arg cache_size_mb)
             (as_i64_arg cache_ttl_secs) (mm_table st) of
        (r, t) \<Rightarrow> (map_err Database r, st\<lparr>mm_table := t\<rparr>))"

section \<open>Starting and stopping\<close>

definition start ::
  "'o os_ext \<Rightarrow> ('w, 'z) mount_ext_scheme \<Rightarrow> database log_provider \<Rightarrow> int \<Rightarrow> 32 word \<times> 32 word \<Rightarrow> uuid \<Rightarrow>
     ('w, 'o, unit) managed" where
  "start X E L now user i st =
     (case fuse_get i (mm_table st) of
        None \<Rightarrow> (Inl (MountNotFound i), st)
      | Some mount_config \<Rightarrow>
          (if (case map_of (mm_mounts st) i of Some live \<Rightarrow> lm_session live | None \<Rightarrow> False)
           then (Inl (AlreadyRunning i), st)
           else
             (let st1 = set_status i Starting None st in
              case peer_mount E L (fm_bucket_id mount_config) (mm_peer st, mm_world st) of
                Inl e \<Rightarrow> (Inl (load_error e), st1)
              | Inr bucket_mount \<Rightarrow>
                  (let config = \<lparr>fc_max_size_mb = as_u32 (fm_cache_size_mb mount_config),
                                 fc_ttl_secs = as_u32 (fm_cache_ttl_secs mount_config)\<rparr>;
                       fs = jax_fs_new (bucket_mount, mm_world st) i config (fm_read_only mount_config) True now user
                   in case os_spawn_mount X (fm_mount_point mount_config) (mm_os st) of
                        (Inl e, os) \<Rightarrow> (Inl (SpawnFailed (''Failed to mount at '' @ fm_mount_point mount_config @ '': '' @ e)),
                                        st1\<lparr>mm_os := os\<rparr>)
                      | (Inr _, os) \<Rightarrow>
                          (Inr (), set_status i Running None (put_live i
                             \<lparr>lm_fs = fs, lm_session = True, lm_cache = cache_new config, lm_config = mount_config\<rparr>
                             (st1\<lparr>mm_os := os\<rparr>)))))))"

definition unmount_path :: "'o os_ext \<Rightarrow> string \<Rightarrow> ('w, 'o, unit) managed" where
  "unmount_path X mount_point st =
     (case os_fusermount X ''-u'' mount_point (mm_os st) of
        (Inl e, os) \<Rightarrow> (Inl (UnmountFailed e), st\<lparr>mm_os := os\<rparr>)
      | (Inr success, os) \<Rightarrow>
          (Inr (), st\<lparr>mm_os := if success then os else snd (os_fusermount X ''-uz'' mount_point os)\<rparr>))"

definition stop :: "'o os_ext \<Rightarrow> uuid \<Rightarrow> ('w, 'o, unit) managed" where
  "stop X i st =
     (let st1 = set_status i Stopping None st;
          (mount_point, st2) =
            (case map_of (mm_mounts st) i of
               Some live \<Rightarrow> (Some (fm_mount_point (lm_config live)), put_live i (live\<lparr>lm_session := False\<rparr>) st1)
             | None \<Rightarrow> (map_option fm_mount_point (fuse_get i (mm_table st1)), st1))
      in case mount_point of
           None \<Rightarrow> (Inr (), st2)
         | Some p \<Rightarrow> bindS (unmount_path X p) (\<lambda>_ st. (Inr (), set_status i Stopped None st)) st2)"

definition manager_delete :: "'o os_ext \<Rightarrow> uuid \<Rightarrow> ('w, 'o, bool) managed" where
  "manager_delete X i st =
     (let st1 = snd (stop X i st);
          st2 = st1\<lparr>mm_mounts := AList.delete i (mm_mounts st1)\<rparr>;
          (deleted, t) = fuse_delete i (mm_table st2)
      in (Inr deleted, st2\<lparr>mm_table := t\<rparr>))"

definition stop_all :: "'o os_ext \<Rightarrow> ('w, 'o, unit) managed" where
  "stop_all X st = (Inr (), fold (\<lambda>i st. snd (stop X i st)) (map fst (mm_mounts st)) st)"

definition start_auto ::
  "'o os_ext \<Rightarrow> ('w, 'z) mount_ext_scheme \<Rightarrow> database log_provider \<Rightarrow> int \<Rightarrow> 32 word \<times> 32 word \<Rightarrow>
     (manager_error \<Rightarrow> string) \<Rightarrow> ('w, 'o, unit) managed" where
  "start_auto X E L now user display st =
     (Inr (), fold (\<lambda>r st.
        case start X E L now user (fm_mount_id r) st of
          (Inr _, st') \<Rightarrow> st'
        | (Inl e, st') \<Rightarrow> set_status (fm_mount_id r) Error (Some (display e)) st') (auto_list (mm_table st)) st)"

definition get_live_mount :: "uuid \<Rightarrow> ('w, 'o) mount_manager \<Rightarrow> mount_inner option" where
  "get_live_mount i st = map_option lm_mount (map_of (mm_mounts st) i)"

definition get_mount_cache :: "uuid \<Rightarrow> ('w, 'o) mount_manager \<Rightarrow> file_cache option" where
  "get_mount_cache i st = map_option lm_cache (map_of (mm_mounts st) i)"

section \<open>What the file systems do\<close>

text \<open>A turn of the save handler: the next request in the queue of a mount; a failure is logged.\<close>

definition handle_save ::
  "('w, 'z) mount_ext_scheme \<Rightarrow> database log_provider \<Rightarrow> uuid \<Rightarrow> ('w, 'o) mount_manager \<Rightarrow> ('w, 'o) mount_manager" where
  "handle_save E L i st =
     (case map_of (mm_mounts st) i of
        None \<Rightarrow> st
      | Some live \<Rightarrow>
          (case jf_save_requests (lm_fs live) of
             [] \<Rightarrow> st
           | _ # rest \<Rightarrow>
               (case save_mount E L False (mm_peer st) (lm_mount live, mm_world st) of
                  (_, p, m, w) \<Rightarrow>
                    put_live i (set_mount m (live\<lparr>lm_fs := (lm_fs live)\<lparr>jf_save_requests := rest\<rparr>\<rparr>))
                      (st\<lparr>mm_peer := p, mm_world := w\<rparr>))))"

text \<open>A request of the kernel to the file system of a mount that is running.\<close>

definition session_request ::
  "32 word \<Rightarrow> ((nat \<times> dir_entry) list \<Rightarrow> bool) \<Rightarrow> ('w, 'z) mount_ext_scheme \<Rightarrow> uuid \<Rightarrow> fuse_request \<Rightarrow>
     ('w, 'o) mount_manager \<Rightarrow> ('w, 'o) mount_manager" where
  "session_request wflags fits E i r st =
     (case map_of (mm_mounts st) i of
        None \<Rightarrow> st
      | Some live \<Rightarrow>
          (if lm_session live then
             (let fs = request_state wflags fits E r ((lm_fs live)\<lparr>jf_mount := (lm_mount live, mm_world st)\<rparr>)
              in put_live i (live\<lparr>lm_fs := fs\<rparr>) (st\<lparr>mm_world := snd (jf_mount fs)\<rparr>))
           else st))"

section \<open>Running mounts\<close>

definition running_mounts :: "('w, 'o) mount_manager \<Rightarrow> uuid set" where
  "running_mounts st = {i. case map_of (mm_mounts st) i of Some live \<Rightarrow> lm_session live | None \<Rightarrow> False}"

definition manager_ok :: "uuid set \<Rightarrow> ('w, 'o) mount_manager \<Rightarrow> bool" where
  "manager_ok S st \<longleftrightarrow> statuses.sound S (running_mounts st) (mm_table st)"

named_theorems manager_simps \<open>what the operations change\<close>

lemma mounts_simps [manager_simps]:
  "map_of (mm_mounts (put_live i live st)) = (map_of (mm_mounts st))(i \<mapsto> live)"
  "mm_table (put_live i live st) = mm_table st" "mm_peer (put_live i live st) = mm_peer st"
  "mm_world (put_live i live st) = mm_world st" "mm_mounts (set_status i s msg st) = mm_mounts st"
  "mm_table (set_status i s msg st) = snd (update_status i s msg (mm_table st))"
  "mm_peer (set_status i s msg st) = mm_peer st" "mm_world (set_status i s msg st) = mm_world st"
  by (simp_all add: put_live_def set_status_def update_conv')

lemma running_simps [manager_simps]:
  "running_mounts (put_live i live st) = (if lm_session live then insert i (running_mounts st) else running_mounts st - {i})"
  "running_mounts (set_status i s msg st) = running_mounts st"
  "running_mounts (st\<lparr>mm_os := os\<rparr>) = running_mounts st" "running_mounts (st\<lparr>mm_table := t\<rparr>) = running_mounts st"
  "running_mounts (st\<lparr>mm_peer := p\<rparr>) = running_mounts st" "running_mounts (st\<lparr>mm_world := w\<rparr>) = running_mounts st"
  "running_mounts (st\<lparr>mm_events := ev\<rparr>) = running_mounts st"
  by (auto simp: running_mounts_def mounts_simps split: if_splits)

lemma running_present: "map_of (mm_mounts st) i = Some live \<Longrightarrow> i \<in> running_mounts st \<longleftrightarrow> lm_session live"
  by (simp add: running_mounts_def)

lemma lm_session_set_mount [simp]: "lm_session (set_mount m live) = lm_session live" "lm_mount (set_mount m live) = m"
  "lm_config (set_mount m live) = lm_config live"
  by (simp_all add: set_mount_def lm_mount_def)

text \<open>Replacing a live mount by one with the same session changes nothing for the table.\<close>

lemma running_replaced [manager_simps]:
  "map_of (mm_mounts st) i = Some live \<Longrightarrow> lm_session live' = lm_session live \<Longrightarrow>
    running_mounts (put_live i live' st) = running_mounts st"
  by (auto simp: running_mounts_def mounts_simps)

lemma start_ok: "manager_ok S st \<Longrightarrow> manager_ok S (snd (start X E L now user i st))"
proof (cases "fuse_get i (mm_table st)")
  case (Some r)
  assume ok: "manager_ok S st"
  have known: "row_status i t \<noteq> None" if "t = snd (update_status i Starting None (mm_table st))" for t
    using Some by (simp add: that row_status_def fuse_get_status)
  show ?thesis
  proof (cases "i \<in> running_mounts st")
    case False
    have s1: "statuses.sound S (running_mounts st) (snd (update_status i Starting None (mm_table st)))"
      using statuses.sound_idle [OF ok [unfolded manager_ok_def] False] by simp
    note s2 = statuses.sound_started [OF s1 known [OF refl], of None]
    have idle: "\<not> (case map_of (mm_mounts st) i of Some live \<Rightarrow> lm_session live | None \<Rightarrow> False)"
      using False by (simp add: running_mounts_def)
    show ?thesis
      using s1 s2 Some idle unfolding manager_ok_def
      by (simp add: start_def Let_def manager_simps split: sum.split prod.split)
  qed (use ok Some in \<open>auto simp: start_def running_mounts_def\<close>)
qed (simp add: start_def)

lemma unmount_os: "\<exists>r os. unmount_path X p st = (r, st\<lparr>mm_os := os\<rparr>)"
  by (auto simp: unmount_path_def split: prod.split sum.split)

lemma stop_ok:
  fixes st :: "('w, 'o) mount_manager"
  assumes ok: "manager_ok S st"
  shows "manager_ok S (snd (stop X i st)) \<and> i \<notin> running_mounts (snd (stop X i st))"
proof -
  have s1: "statuses.sound S (running_mounts st - {i}) (snd (update_status i Stopping None (mm_table st)))"
    using statuses.sound_stopped ok by (simp add: manager_ok_def)
  have idle: "running_mounts st - {i} = running_mounts st" if "map_of (mm_mounts st) i = None"
    using that by (auto simp: running_mounts_def)
  have s2: "statuses.sound S (running_mounts st - {i}) (snd (update_status i Stopped None (snd (update_status i Stopping None (mm_table st)))))"
    using statuses.sound_stopped [OF s1, of Stopped i None] by simp
  have stopped: "manager_ok S (snd (bindS (unmount_path X p) (\<lambda>_ st. (Inr (), set_status i Stopped None st)) st2)) \<and>
      i \<notin> running_mounts (snd (bindS (unmount_path X p) (\<lambda>_ st. (Inr (), set_status i Stopped None st)) st2))"
    if st2: "running_mounts st2 = running_mounts st - {i}" "mm_table st2 = snd (update_status i Stopping None (mm_table st))"
    for p and st2 :: "('w, 'o) mount_manager"
  proof -
    obtain r os where un: "unmount_path X p st2 = (r, st2\<lparr>mm_os := os\<rparr>)"
      using unmount_os [of X p st2] by blast
    show ?thesis
      using s1 s2 st2 by (cases r) (simp_all add: bindS_def un manager_ok_def manager_simps)
  qed
  show ?thesis
  proof (cases "map_of (mm_mounts st) i")
    case None
    then show ?thesis
      using stopped [of "set_status i Stopping None st"] s1 idle
      by (auto simp: stop_def Let_def manager_simps manager_ok_def split: option.split)
  next
    case (Some live)
    then show ?thesis
      using stopped [of "put_live i (live\<lparr>lm_session := False\<rparr>) (set_status i Stopping None st)"]
      by (simp add: stop_def Let_def manager_simps)
  qed
qed

lemma delete_ok:
  fixes st :: "('w, 'o) mount_manager"
  assumes "manager_ok S st"
  shows "manager_ok S (snd (manager_delete X i st))"
proof -
  from stop_ok [OF assms, of X i] have "statuses.sound S (running_mounts (snd (stop X i st)) - {i}) (snd (fuse_delete i (mm_table (snd (stop X i st)))))"
    by (intro statuses.sound_removed) (simp add: manager_ok_def)
  moreover have "running_mounts (st\<lparr>mm_mounts := AList.delete i (mm_mounts st)\<rparr>) = running_mounts st - {i}" for st :: "('w, 'o) mount_manager"
    by (auto simp: running_mounts_def delete_conv' split: if_splits)
  ultimately show ?thesis
    by (auto simp: manager_delete_def Let_def manager_ok_def manager_simps split: prod.split)
qed

lemma create_mount_ok: "manager_ok S st \<Longrightarrow> manager_ok S (snd (create_mount X j b p am ro cs ct st))"
proof -
  assume ok: "manager_ok S st"
  have "statuses.sound S (running_mounts st) t" if run: "fuse_create j b p am ro (as_i64_arg cs) (as_i64_arg ct) (mm_table st) = (r, t)" for r t
  proof (cases r)
    case (Inl e)
    then show ?thesis
      using run ok by (auto simp: fuse_create_def manager_ok_def Let_def fuse_get_append fuse_get_None split: if_splits option.splits)
  next
    case (Inr x)
    note new = fuse_create_Inr [OF run [unfolded Inr]]
    have tok: "table_ok t"
      using table_ok_create [OF _ _ _ run] ok u32_column_of_word by (simp add: manager_ok_def statuses.sound_def as_i64_arg_def)
    show ?thesis
      by (rule statuses.sound_added [OF ok [unfolded manager_ok_def] tok, of j Stopped])
        (use new in \<open>auto simp: row_status_def fuse_get_append status_from_str_def split: option.split\<close>)
  qed
  then show ?thesis
    using ok by (auto simp: create_mount_def manager_ok_def manager_simps split: sum.split option.split prod.split)
qed

lemma update_ok: "manager_ok S st \<Longrightarrow> manager_ok S (snd (manager_update i p en am ro cs ct st))"
proof -
  assume ok: "manager_ok S st"
  obtain r t where run: "fuse_update i p en am ro (as_i64_arg cs) (as_i64_arg ct) (mm_table st) = (r, t)"
    by (rule prod.exhaust)
  have "table_ok t"
    using table_ok_fuse_update [OF _ _ _ run] ok u32_column_of_word by (simp add: manager_ok_def statuses.sound_def as_i64_arg_def)
  moreover have "row_status j t = row_status j (mm_table st)" for j
    using fuse_update_get [OF run, of j] by (cases "fuse_get j t"; cases "fuse_get j (mm_table st)") (simp_all add: row_status_def)
  ultimately have "statuses.sound S (running_mounts st) t"
    using statuses.sound_same ok by (simp add: manager_ok_def)
  then show ?thesis
    by (simp add: manager_update_def run manager_ok_def manager_simps)
qed

lemma stop_all_ok: "manager_ok S st \<Longrightarrow> manager_ok S (snd (stop_all X st))"
proof -
  have "manager_ok S st \<Longrightarrow> manager_ok S (fold (\<lambda>i st. snd (stop X i st)) ids st)" for ids
    by (induction ids arbitrary: st) (simp_all add: stop_ok)
  then show "manager_ok S st \<Longrightarrow> manager_ok S (snd (stop_all X st))"
    by (simp add: stop_all_def)
qed

lemma start_auto_ok: "manager_ok S st \<Longrightarrow> manager_ok S (snd (start_auto X E L now user display st))"
proof -
  have "manager_ok S (case start X E L now user i st of (Inr _, st') \<Rightarrow> st' | (Inl e, st') \<Rightarrow> set_status i Error (Some (display e)) st')"
    if "manager_ok S st" for i st
    using start_ok [OF that, of X E L now user i]
    by (auto simp: manager_ok_def manager_simps intro: statuses.sound_error split: prod.split sum.split)
  then have "manager_ok S (fold (\<lambda>r st. case start X E L now user (fm_mount_id r) st of
      (Inr _, st') \<Rightarrow> st' | (Inl e, st') \<Rightarrow> set_status (fm_mount_id r) Error (Some (display e)) st') rs st)" if "manager_ok S st" for rs st
    using that by (induction rs arbitrary: st) simp_all
  then show "manager_ok S st \<Longrightarrow> manager_ok S (snd (start_auto X E L now user display st))"
    by (simp add: start_auto_def)
qed

text \<open>
  Saving and serving requests leave the sessions and the table alone; synchronising also leaves alone
  what a file system keeps besides its mount.
\<close>

definition same_status :: "('w, 'o) mount_manager \<Rightarrow> ('w, 'o) mount_manager \<Rightarrow> bool" where
  "same_status st st' \<longleftrightarrow> mm_table st' = mm_table st \<and> running_mounts st' = running_mounts st"

lemma same_status_ok: "same_status st st' \<Longrightarrow> manager_ok S st \<Longrightarrow> manager_ok S st'"
  by (simp add: same_status_def manager_ok_def)

lemma same_status_refl: "same_status st st"
  by (simp add: same_status_def)

lemma same_status_fields [simp]:
  "same_status (st\<lparr>mm_world := w\<rparr>) st' = same_status st st'" "same_status (st\<lparr>mm_peer := p\<rparr>) st' = same_status st st'"
  by (simp_all add: same_status_def manager_simps)

lemma same_status_put:
  "map_of (mm_mounts st) i = Some live \<Longrightarrow> lm_session live' = lm_session live \<Longrightarrow> same_status st (put_live i live' st)"
  by (simp add: same_status_def running_replaced mounts_simps)

definition same_files :: "'w live_mount \<Rightarrow> 'w live_mount \<Rightarrow> bool" where
  "same_files live live' \<longleftrightarrow> lm_session live' = lm_session live \<and> (\<exists>m. lm_fs live' = (lm_fs live)\<lparr>jf_mount := m\<rparr>)"

definition only_mounts :: "('w, 'o) mount_manager \<Rightarrow> ('w, 'o) mount_manager \<Rightarrow> bool" where
  "only_mounts st st' \<longleftrightarrow> mm_table st' = mm_table st \<and>
     (\<forall>i. rel_option same_files (map_of (mm_mounts st) i) (map_of (mm_mounts st') i))"

lemma same_files_refl [simp]: "same_files live live"
  unfolding same_files_def by (metis jax_fs.surjective jax_fs.update_convs(1))

lemma same_files_trans: "same_files a b \<Longrightarrow> same_files b c \<Longrightarrow> same_files a c"
  unfolding same_files_def by (metis jax_fs.update_convs(1) jax_fs.surjective)

lemma same_files_mount [simp]: "same_files live (set_mount m live)" "same_files live (l\<lparr>lm_cache := c\<rparr>) = same_files live l"
  by (auto simp: same_files_def set_mount_def)

lemma only_mounts_order: "only_mounts st st" "only_mounts st st1 \<Longrightarrow> only_mounts st1 st2 \<Longrightarrow> only_mounts st st2"
proof -
  show "only_mounts st st"
    by (simp add: only_mounts_def option.rel_refl)
  have "rel_option same_files x z" if "rel_option same_files x y" "rel_option same_files y z" for x y z :: "'a live_mount option"
    using that by (cases x; cases y; cases z) (auto intro: same_files_trans)
  then show "only_mounts st st2" if "only_mounts st st1" "only_mounts st1 st2"
    using that unfolding only_mounts_def by metis
qed

lemma only_mounts_status: "only_mounts st st' \<Longrightarrow> same_status st st'"
proof -
  assume only: "only_mounts st st'"
  have "(case map_of (mm_mounts st') i of Some live \<Rightarrow> lm_session live | None \<Rightarrow> False) =
      (case map_of (mm_mounts st) i of Some live \<Rightarrow> lm_session live | None \<Rightarrow> False)" for i
    using only unfolding only_mounts_def same_files_def
    by (cases "map_of (mm_mounts st) i"; cases "map_of (mm_mounts st') i") (auto dest: spec [of _ i])
  then show ?thesis
    using only by (simp add: same_status_def running_mounts_def only_mounts_def)
qed

lemma only_mounts_fields [simp]:
  "only_mounts (st\<lparr>mm_world := w\<rparr>) st' = only_mounts st st'" "only_mounts (st\<lparr>mm_peer := p\<rparr>) st' = only_mounts st st'"
  "only_mounts (st\<lparr>mm_events := ev\<rparr>) st' = only_mounts st st'"
  by (simp_all add: only_mounts_def)

lemma only_mounts_put: "map_of (mm_mounts st) i = Some live \<Longrightarrow> same_files live live' \<Longrightarrow> only_mounts st (put_live i live' st)"
  by (auto simp: only_mounts_def mounts_simps option.rel_refl)

lemma only_mounts_invalidated:
  "map_of (mm_mounts st) i = Some live \<Longrightarrow> same_files live live' \<Longrightarrow> only_mounts st (invalidated i live' st)"
  using only_mounts_put [of "st\<lparr>mm_events := mm_events st @ [MountInvalidated i]\<rparr>" i live] by (simp add: invalidated_def)

lemma only_mounts_reload:
  "map_of (mm_mounts st) i = Some live \<Longrightarrow> same_files live live' \<Longrightarrow> only_mounts st (snd (reload E L b i live' st))"
  using only_mounts_invalidated [of st i live "set_mount _ live'"] same_files_trans [of live live' "set_mount _ live'"]
  by (auto simp: reload_def only_mounts_put split: sum.split)

lemma sync_mount_files:
  assumes live: "map_of (mm_mounts st) i = Some live" and run: "sync_mount E L sh b i live st = Some (r, st')"
  shows "only_mounts st st'"
proof -
  have put: "only_mounts st (put_live i (set_mount m live) (st\<lparr>mm_peer := p, mm_world := w\<rparr>))"
    "only_mounts st (put_live i (set_mount m live) (st\<lparr>mm_world := w\<rparr>))"
    "only_mounts st (invalidated i (set_mount m live) (st\<lparr>mm_peer := p, mm_world := w\<rparr>))"
    "only_mounts st (snd (reload E L b i (set_mount m live) (st\<lparr>mm_world := w\<rparr>)))"
    "only_mounts st (snd (reload E L b i live st))" for m p w
    using only_mounts_put [of "st\<lparr>mm_peer := p, mm_world := w\<rparr>" i live] only_mounts_put [of "st\<lparr>mm_world := w\<rparr>" i live]
      only_mounts_invalidated [of "st\<lparr>mm_peer := p, mm_world := w\<rparr>" i live]
      only_mounts_reload [of "st\<lparr>mm_world := w\<rparr>" i live _ E] only_mounts_reload [of st i live _ E] live by simp_all
  have reloaded: "only_mounts st st'" if "reload E L b i (set_mount m live) (st\<lparr>mm_world := w\<rparr>) = (r, st')" for m w
    using put(4) [of m w] that by simp
  show ?thesis
  proof (cases "log_is_empty (mi_ops_log (lm_mount live))")
    case True
    then show ?thesis
      using run put(5) by (auto simp: sync_mount_def)
  next
    case False
    show ?thesis
    proof (cases "peer_mount E L b (mm_peer st, mm_world st)")
      case (Inl e)
      then show ?thesis
        using run False only_mounts_order(1) [of st] by (simp add: sync_mount_def)
    next
      case (Inr incoming)
      obtain q m w where merge: "merge_from E incoming (conflict_file sh CONFLICT_HASH_LENGTH) (lm_mount live, mm_world st) = Some (q, m, w)"
        using run False Inr by (auto simp: sync_mount_def Option.bind_eq_Some_conv)
      show ?thesis
      proof (cases q)
        case (Inl e)
        then show ?thesis
          using run False Inr merge put(2) reloaded [of m w] by (cases e) (auto simp: sync_mount_def \<open>peer_mount E L b _ = Inr _\<close>)
      next
        case (Inr x)
        obtain r' p m' w' where save: "save_mount E L False (mm_peer st) (m, w) = (r', p, m', w')"
          by (rule prod_cases4)
        show ?thesis
        proof (cases r')
          case (Inl e)
          then show ?thesis
            using run False merge save Inr put(1,3) by (cases e) (auto simp: sync_mount_def \<open>peer_mount E L b _ = Inr _\<close>)
        qed (use run False merge save Inr put(3) in \<open>auto simp: sync_mount_def \<open>peer_mount E L b _ = Inr _\<close>\<close>)
      qed
    qed
  qed
qed

lemma sync_mounts_files: "sync_mounts E L sh b ids st = Some (r, st') \<Longrightarrow> only_mounts st st'"
proof (induction ids arbitrary: st)
  case (Cons i ids)
  show ?case
  proof (cases "map_of (mm_mounts st) i")
    case (Some live)
    show ?thesis
    proof (cases "fm_bucket_id (lm_config live) = b")
      case True
      then obtain r1 st1 where one: "sync_mount E L sh b i live st = Some (r1, st1)"
        and rest: "(case r1 of Inl e \<Rightarrow> Some (Inl e, st1) | Inr _ \<Rightarrow> sync_mounts E L sh b ids st1) = Some (r, st')"
        using Cons.prems Some by (auto simp: Option.bind_eq_Some_conv)
      show ?thesis
        using sync_mount_files [OF Some one] rest Cons.IH [of st1] by (cases r1) (auto intro: only_mounts_order(2))
    qed (use Cons Some in simp)
  qed (use Cons in simp)
qed (simp add: only_mounts_order(1))

lemma handle_save_status: "same_status st (handle_save E L i st)"
proof (cases "map_of (mm_mounts st) i")
  case (Some live)
  obtain r p m w where save: "save_mount E L False (mm_peer st) (lm_mount live, mm_world st) = (r, p, m, w)"
    by (rule prod_cases4)
  show ?thesis
    using same_status_put [of "st\<lparr>mm_peer := p, mm_world := w\<rparr>" i live] Some
    by (simp add: handle_save_def save same_status_refl split: list.split)
qed (simp add: handle_save_def same_status_def)

lemma session_request_status: "same_status st (session_request wflags fits E i r st)"
proof (cases "map_of (mm_mounts st) i")
  case (Some live)
  show ?thesis
    using same_status_put [of "st\<lparr>mm_world := w\<rparr>" i live for w] Some
    by (simp add: session_request_def Let_def same_status_refl)
qed (simp add: session_request_def same_status_def)

section \<open>The manager as a state machine\<close>

text \<open>
  A step is a call of an operation, a bucket that was synchronised, a turn of a save handler or a
  request to a file system. The arguments of the calls are arbitrary.
\<close>

inductive manager_step ::
  "'o os_ext \<Rightarrow> ('w, 'z) mount_ext_scheme \<Rightarrow> database log_provider \<Rightarrow> ('w, 'o) mount_manager \<Rightarrow> ('w, 'o) mount_manager \<Rightarrow> bool"
  for X E L where
  created: "create_mount X j b p am ro cs ct st = (r, st') \<Longrightarrow> manager_step X E L st st'"
| updated: "manager_update i p en am ro cs ct st = (r', st') \<Longrightarrow> manager_step X E L st st'"
| deleted: "manager_delete X i st = (d, st') \<Longrightarrow> manager_step X E L st st'"
| started: "start X E L now user i st = (u, st') \<Longrightarrow> manager_step X E L st st'"
| stopped: "stop X i st = (u, st') \<Longrightarrow> manager_step X E L st st'"
| all_stopped: "stop_all X st = (u, st') \<Longrightarrow> manager_step X E L st st'"
| auto_started: "start_auto X E L now user display st = (u, st') \<Longrightarrow> manager_step X E L st st'"
| synced: "on_bucket_synced E L show_hash b st = Some (u, st') \<Longrightarrow> manager_step X E L st st'"
| saved: "handle_save E L i st = st' \<Longrightarrow> manager_step X E L st st'"
| requested: "session_request wflags fits E i q st = st' \<Longrightarrow> manager_step X E L st st'"

lemma manager_step_ok:
  assumes "manager_step X E L st st'" and "manager_ok S st"
  shows "manager_ok S st'"
  using assms
proof cases
  case synced
  then show ?thesis
    using sync_mounts_files only_mounts_status same_status_ok assms(2) by (metis on_bucket_synced_def)
next
  case saved
  then show ?thesis
    using handle_save_status same_status_ok assms(2) by metis
next
  case requested
  then show ?thesis
    using session_request_status same_status_ok assms(2) by metis
qed (use create_mount_ok update_ok delete_ok start_ok stop_ok stop_all_ok start_auto_ok assms(2) in \<open>metis snd_conv\<close>)+

text \<open>
  The mounts that a table reports as running. Nothing resets the statuses when the daemon starts, and
  it does not stop its mounts when it ends, so that these may be left over from the run before.
\<close>

definition reported_running :: "fuse_table \<Rightarrow> uuid set" where
  "reported_running t = {i. row_status i t = Some Running}"

lemma manager_new_ok: "table_ok t \<Longrightarrow> manager_ok (reported_running t) (manager_new p t w os)"
  by (simp add: manager_ok_def statuses.sound_def reported_running_def running_mounts_def manager_new_def)

section \<open>Properties\<close>

lemma manager_reachable_ok:
  assumes "table_ok t" and "(manager_step X E L)\<^sup>*\<^sup>* (manager_new p t w os) st"
  shows "manager_ok (reported_running t) st"
  using assms(2) by (induction rule: rtranclp_induct) (use assms(1) in \<open>auto intro: manager_new_ok manager_step_ok\<close>)

text \<open>
  C29: the statuses in the database are sound up to what an earlier run left behind. Whatever calls,
  synchronisations, saves and requests happen after the daemon has started on a well-formed table, a
  mount that the table reports as running has a session or was reported as running when the daemon
  started, and a mount with a session is reported as running or, after an automatic start that found it
  running, as in error. The table stays well-formed, so that the same holds after the next start:
  identifiers and mount points are unique.
\<close>

theorem manager_status_sound:
  assumes "table_ok t" and "(manager_step X E L)\<^sup>*\<^sup>* (manager_new p t w os) st"
  shows "table_ok (mm_table st) \<and>
    distinct (map fm_mount_id (ft_rows (mm_table st))) \<and> distinct (map fm_mount_point (ft_rows (mm_table st))) \<and>
    (\<forall>i. row_status i (mm_table st) = Some Running \<longrightarrow> i \<in> running_mounts st \<or> i \<in> reported_running t) \<and>
    (\<forall>i \<in> running_mounts st. row_status i (mm_table st) = Some Running \<or> row_status i (mm_table st) = Some Error)"
  using manager_reachable_ok [OF assms] by (auto simp: manager_ok_def statuses.sound_def table_ok_def)

text \<open>
  C39: the columns of a mount configuration hold values of the types they are read as. In every state
  the daemon reaches, the cache size and the cache lifetime of a row survive the cast \<open>as u32\<close> with
  which a mount is started and reported, and the status text is one of the five statuses.
\<close>

theorem mount_columns_typed:
  assumes "table_ok t" and "(manager_step X E L)\<^sup>*\<^sup>* (manager_new p t w os) st"
    and "fuse_get i (mm_table st) = Some r"
  shows "int (unat (as_u32 (fm_cache_size_mb r))) = fm_cache_size_mb r \<and>
    int (unat (as_u32 (fm_cache_ttl_secs r))) = fm_cache_ttl_secs r \<and>
    status_as_str (status_from_str (fm_status r)) = fm_status r"
proof -
  have "row_ok r"
    using manager_reachable_ok [OF assms(1,2)] assms(3) fuse_get_Some [of "mm_table st"]
    by (auto simp: manager_ok_def statuses.sound_def table_ok_def)
  moreover have "int (unat (as_u32 x)) = x" if "u32_column x" for x
    using that by (simp add: as_u32_def u32_column_def unsigned_of_int take_bit_int_eq_self)
  ultimately show ?thesis
    by (auto simp: row_ok_def)
qed

text \<open>
  What starting a mount does. It succeeds exactly when the mount is configured, not running, the
  bucket can be loaded and the system mounts it; then the live mount shows the head of the bucket, is
  running, and is reported as running. When it fails, the live mounts are unchanged and the status is
  untouched if the mount was unknown or already running, and is left at \<open>starting\<close> otherwise.
\<close>

theorem start_outcomes:
  "case start X E L now user i st of
     (Inr _, st') \<Rightarrow> (\<exists>r m. fuse_get i (mm_table st) = Some r \<and> i \<notin> running_mounts st \<and>
        peer_mount E L (fm_bucket_id r) (mm_peer st, mm_world st) = Inr m \<and>
        fst (os_spawn_mount X (fm_mount_point r) (mm_os st)) = Inr () \<and>
        get_live_mount i st' = Some m \<and> running_mounts st' = insert i (running_mounts st) \<and>
        row_status i (mm_table st') = Some Running)
   | (Inl e, st') \<Rightarrow> mm_mounts st' = mm_mounts st \<and>
       (if fuse_get i (mm_table st) = None then e = MountNotFound i \<and> st' = st
        else if i \<in> running_mounts st then e = AlreadyRunning i \<and> st' = st
        else row_status i (mm_table st') = Some Starting)"
proof (cases "fuse_get i (mm_table st)")
  case (Some r)
  have run: "(case map_of (mm_mounts st) i of Some live \<Rightarrow> lm_session live | None \<Rightarrow> False) \<longleftrightarrow> i \<in> running_mounts st"
    by (simp add: running_mounts_def)
  have status: "row_status i (snd (update_status i s msg t)) = Some s" if "fuse_get i t = Some r'" for s msg t r'
    using that by (simp add: row_status_def fuse_get_status)
  have known: "\<exists>r'. fuse_get i (snd (update_status i Starting None (mm_table st))) = Some r'"
    using Some by (simp add: fuse_get_status)
  show ?thesis
  proof (cases "i \<in> running_mounts st")
    case False
    then show ?thesis
      using Some known status
      by (auto simp: start_def run Let_def manager_simps get_live_mount_def lm_mount_def jax_fs_new_def split: sum.split prod.split)
  qed (simp add: start_def Some run)
qed (simp add: start_def)

section \<open>A merge is not recorded\<close>

lemma sql_append_unknown:
  "link_to_cid prev \<notin> br_current_link ` set (db_rows db) \<Longrightarrow>
    \<exists>e. sql_append cn i nm cur (Some prev) h pub db = (Inl e, db)"
  by (auto simp: sql_append_def Let_def rows_of_def filter_empty_conv image_iff)

lemma mount_save_outcome:
  assumes "mount_save E pub s = (r, s')"
  shows "case r of Inr (l, prev, h) \<Rightarrow> prev = mi_link (fst s) \<and> mi_link (fst s') = l \<and> log_is_empty (mi_ops_log (fst s'))
    | Inl _ \<Rightarrow> fst s' = fst s"
  using assms
  by (cases s) (auto simp: mount_save_def bindS_def read_state_def on_world_def update_inner_def liftR_def log_is_empty_def
      clear_preserving_clock_def split: sum.splits prod.splits)

lemma merge_from_saves:
  assumes "merge_from E incoming res s = Some (Inr (x, l), s')"
  shows "mi_link (fst s') = l \<and> log_is_empty (mi_ops_log (fst s'))"
proof -
  obtain lo io where "merge_collected E res lo io s = (Inr (x, l), s')"
    using assms by (auto simp: merge_from_def split: sum.splits Option.bind_splits)
  then obtain s1 prev h where "mount_save E False s1 = (Inr (l, prev, h), s')"
    unfolding merge_collected_def by (auto simp: res_simps Let_def split: prod.splits)
  from mount_save_outcome [OF this] show ?thesis
    by simp
qed

lemma save_mount_unknown:
  assumes "link_to_cid (mi_link m) \<notin> br_current_link ` set (db_rows (pr_log p))" and "log_is_empty (mi_ops_log m)"
    and "save_mount E (sql_provider cn) pub p (m, w) = (r, p', m', w')"
  shows "pr_log p' = pr_log p \<and> log_is_empty (mi_ops_log m') \<and> (\<exists>e. r = Inl e)"
proof -
  obtain q s1 where save: "mount_save E pub (m, w) = (q, s1)"
    by (rule prod.exhaust)
  show ?thesis
  proof (cases q)
    case (Inl e)
    then show ?thesis
      using assms(2,3) save mount_save_outcome [OF save] by (auto simp: save_mount_def Let_def)
  next
    case (Inr x)
    obtain l prev h where x: "x = (l, prev, h)"
      by (rule prod_cases3)
    have out: "prev = mi_link m" "log_is_empty (mi_ops_log (fst s1))"
      using mount_save_outcome [OF save] by (simp_all add: Inr x)
    obtain e where "sql_append cn (m_id (mi_manifest m)) (m_name (mi_manifest m)) l (Some (mi_link m)) h
        (is_published (mi_manifest (fst s1))) (pr_log p) = (Inl e, pr_log p)"
      using sql_append_unknown [OF assms(1)] by blast
    then show ?thesis
      using assms(3) out by (auto simp: save_mount_def Let_def save Inr x sql_provider_def)
  qed
qed

text \<open>
  C30: merging into a live mount never reaches the log. When a bucket with unsaved local changes is
  synchronised, the merge itself stores a version, \<open>l\<close>, that no log records; saving once more makes a
  version on top of \<open>l\<close>, which the log refuses. The log stays as it was, the operation reports success
  (unless it panics), the unsaved changes are forgotten, and the next synchronisation replaces the
  live mount by the head of the log: the local changes and the merge are gone.
\<close>

theorem merged_version_unrecorded:
  fixes st :: "('w, 'o) mount_manager"
  assumes changes: "\<not> log_is_empty (mi_ops_log (lm_mount live))"
    and head: "peer_mount E (sql_provider cn) b (mm_peer st, mm_world st) = Inr incoming"
    and merge: "merge_from E incoming (conflict_file show_hash CONFLICT_HASH_LENGTH) (lm_mount live, mm_world st) =
      Some (Inr (res, l), m, w)"
    and fresh: "link_to_cid l \<notin> br_current_link ` set (db_rows (pr_log (mm_peer st)))"
  shows "\<exists>r st' live'. sync_mount E (sql_provider cn) show_hash b i live st = Some (r, st') \<and>
    (r = Inr () \<or> (\<exists>msg. r = Inl (ManagerPanic msg))) \<and> pr_log (mm_peer st') = pr_log (mm_peer st) \<and>
    map_of (mm_mounts st') i = Some live' \<and>
    (\<forall>h. peer_mount E (sql_provider cn) b (mm_peer st', mm_world st') = Inr h \<longrightarrow>
      (\<exists>st''. sync_mount E (sql_provider cn) show_hash b i live' st' = Some (Inr (), st'') \<and> get_live_mount i st'' = Some h))"
proof -
  obtain r' p m' w' where save: "save_mount E (sql_provider cn) False (mm_peer st) (m, w) = (r', p, m', w')"
    by (rule prod_cases4)
  have "link_to_cid (mi_link m) \<notin> br_current_link ` set (db_rows (pr_log (mm_peer st)))" "log_is_empty (mi_ops_log m)"
    using merge_from_saves [OF merge] fresh by simp_all
  from save_mount_unknown [OF this save] obtain e where
    out: "pr_log p = pr_log (mm_peer st)" "log_is_empty (mi_ops_log m')" "r' = Inl e"
    by blast
  have again: "\<exists>st''. sync_mount E (sql_provider cn) show_hash b i live' st' = Some (Inr (), st'') \<and> get_live_mount i st'' = Some h"
    if "peer_mount E (sql_provider cn) b (mm_peer st', mm_world st') = Inr h" "lm_mount live' = m'"
    for h live' and st' :: "('w, 'o) mount_manager"
    using that out(2) by (simp add: sync_mount_def reload_def invalidated_def get_live_mount_def manager_simps) (simp add: lm_mount_def set_mount_def)
  show ?thesis
  proof (cases "\<exists>msg. e = MtPanic msg")
    case True
    then obtain msg where "sync_mount E (sql_provider cn) show_hash b i live st =
        Some (Inl (ManagerPanic msg), put_live i (set_mount m' live) (st\<lparr>mm_peer := p, mm_world := w'\<rparr>))"
      using changes head merge save out by (auto simp: sync_mount_def)
    then show ?thesis
      using out again by (auto simp: manager_simps)
  next
    case False
    then have "sync_mount E (sql_provider cn) show_hash b i live st =
        Some (Inr (), invalidated i (set_mount m' live) (st\<lparr>mm_peer := p, mm_world := w'\<rparr>))"
      using changes head merge save out by (cases e) (auto simp: sync_mount_def)
    then show ?thesis
      using out again by (auto simp: invalidated_def manager_simps lm_mount_def set_mount_def)
  qed
qed

text \<open>
  Synchronising leaves the cache of the file system stale. A file system caches what it reads in a
  cache of its own, which only its event listener would empty, and nothing starts that listener: after
  a synchronisation a file whose content was cached is still read as before, whatever the new
  version of the bucket contains.
\<close>

theorem sync_leaves_file_cache:
  assumes run: "on_bucket_synced E L show_hash b st = Some (r, st')" and live: "map_of (mm_mounts st) i = Some live"
    and cached: "get_path ino (jf_inodes (lm_fs live)) = Some p" "get_content p (jf_cache (lm_fs live)) = Some c"
      "jf_write_buffers (lm_fs live) fh = None"
  shows "\<exists>live'. map_of (mm_mounts st') i = Some live' \<and> lm_session live' = lm_session live \<and>
    fst (fs_read E ino fh off cnt (lm_fs live')) =
      (if unat off < length (cc_data c) then read_slice (cc_data c) off cnt else Inr [])"
proof -
  have "rel_option same_files (map_of (mm_mounts st) i) (map_of (mm_mounts st') i)"
    using sync_mounts_files [OF run [unfolded on_bucket_synced_def]] by (simp add: only_mounts_def)
  then obtain live' m where live': "map_of (mm_mounts st') i = Some live'" "lm_session live' = lm_session live"
    "lm_fs live' = (lm_fs live)\<lparr>jf_mount := m\<rparr>"
    unfolding live by (auto simp: option_rel_Some1 same_files_def)
  have "fst (fs_read E ino fh off cnt (lm_fs live')) =
      (if unat off < length (cc_data c) then read_slice (cc_data c) off cnt else Inr [])"
    using cached by (simp add: live'(3) fs_read_def path_of_inode_def fetch_content_def bindS_def)
  then show ?thesis
    using live' by blast
qed

section \<open>Runs\<close>

text \<open>
  A new bucket, the first version of which is the head of the log, and a mount of it in which a
  removal has not been saved. The store encodes the first version, the merged one and the one after.
\<close>

definition removal :: path_operation where
  "removal = \<lparr>po_id = OpId 1 sample_owner, po_type = Remove, po_path = [Normal ''x''], po_content_link = None, po_is_dir = False\<rparr>"

definition later_version ::
  "manifest \<Rightarrow> nat \<Rightarrow> nat \<Rightarrow> nat \<Rightarrow> nat \<Rightarrow> nat \<Rightarrow> link option \<Rightarrow> signature option \<Rightarrow> manifest" where
  "later_version m prev share_key secret entry pins_blob ops sig =
     m\<lparr>m_height := m_height m + 1, m_previous := Some (link_new manifest_codec (replicate 32 (of_nat prev))),
       m_shares := [(CHR ''h'' # map (\<lambda>x. char_of (unat x)) sample_owner, share_new_owner
         (replicate 32 (of_nat share_key) @ replicate 8 0 @ replicate 32 (of_nat secret)) sample_owner)], m_entry := link_new LD_RAW_CODEC (replicate 32 (of_nat entry)),
       m_pins := link_new LD_RAW_CODEC (replicate 32 (of_nat pins_blob)), m_ops_log := ops, m_signature := sig\<rparr>"

definition merged_version :: "signature option \<Rightarrow> manifest" where
  "merged_version = later_version (sample_first None) 5 12 6 8 11 (Some (link_new LD_RAW_CODEC (replicate 32 10)))"

definition saved_version :: "signature option \<Rightarrow> manifest" where
  "saved_version = later_version (merged_version None) 13 18 14 16 17 None"

definition sync_store :: "sample_world mount_ext" where
  "sync_store = sample_ext [[]] [[(po_id removal, removal)]] [sample_first None, sample_first (Some [0]),
     merged_version None, merged_version (Some [2]), saved_version None, saved_version (Some [4])]"

definition sync_world :: sample_world where
  "sync_world = (6, [(replicate 32 5, [1]), (replicate 32 4, replicate 32 2),
     (replicate 32 2, replicate 12 1 @ replicate 32 0 @ 0 # replicate 31 0 @ [0])])"

definition sync_head :: mount_inner where
  "sync_head = \<lparr>mi_link = link_new manifest_codec (replicate 32 5), mi_manifest = sample_first (Some [0]), mi_entry = [],
     mi_pins = [replicate 32 2], mi_height = 0, mi_ops_log = log_new, mi_peer_id = sample_owner, mi_secret_key = sample_owner\<rparr>"

definition sync_local :: mount_inner where
  "sync_local = sync_head\<lparr>mi_ops_log := \<lparr>operations = [(po_id removal, removal)], local_clock = 2\<rparr>\<rparr>"

definition sync_peer :: "database peer" where
  "sync_peer = \<lparr>pr_log = \<lparr>db_rows = [new_row 0 ''b'' (mi_link sync_head) None 0 False 0], db_clock = 0\<rparr>,
     pr_secret_key = sample_owner, pr_queue = queue_new None\<rparr>"

definition sync_live :: "mount_inner \<Rightarrow> sample_world live_mount" where
  "sync_live m = \<lparr>lm_fs = jax_fs_new (m, sync_world) 1 file_cache_config_default False True 0 (0, 0),
     lm_session = True, lm_cache = cache_new file_cache_config_default,
     lm_config = \<lparr>fm_mount_id = 1, fm_bucket_id = 0, fm_mount_point = ''/m'', fm_enabled = True, fm_auto_mount = False,
       fm_read_only = False, fm_cache_size_mb = 100, fm_cache_ttl_secs = 60, fm_status = ''running'',
       fm_error_message = None, fm_created_at = 0, fm_updated_at = 0\<rparr>\<rparr>"

definition sync_manager :: "sample_world live_mount \<Rightarrow> (sample_world, unit) mount_manager" where
  "sync_manager live = (manager_new sync_peer \<lparr>ft_rows = [], ft_clock = 0\<rparr> sync_world ())\<lparr>mm_mounts := [(1, live)]\<rparr>"

lemmas sync_store_defs = sync_store_def merged_version_def saved_version_def later_version_def sample_first_def removal_def

lemma sync_bucket_created: "mount_init sync_store 0 ''b'' sample_owner (0, []) = (Inr sync_head, sync_world)"
  by (simp add: sync_store_defs sync_world_def sync_head_def mount_init_def save_run_defs manifest_new_def
      public_key_to_hex_def pins_new_def eval_nat_numeral(1))

lemma sync_peer_mount: "peer_mount sync_store (sql_provider cn) 0 (sync_peer, sync_world) = Inr sync_head"
proof -
  have "lp_head (sql_provider cn) (pr_log sync_peer) 0 = Inr (mi_link sync_head, 0)"
    by (simp add: lp_head_def provider_head_def sql_provider_def sql_height_def sql_heads_def sync_peer_def rows_of_def
        new_row_def list_max_def read_cid_def link_from_cid_def link_to_cid_def sync_head_def as_u64_def manifest_codec_def link_new_def)
  moreover have "get_manifest_from_blobs sync_store (mi_link sync_head) sync_world = Inr (sample_first (Some [0]))"
    by (simp add: get_manifest_from_blobs_def sync_store_def sync_world_def sync_head_def check_stat_def blob_stat_def
        blob_get_def manifest_decode_def table_decode_def)
  moreover have "get_secret_for_manifest sync_store (sample_first (Some [0])) sample_owner = Inr (replicate 32 0)"
  proof -
    have "secret_share_new sync_store (replicate 32 0) (public sync_store sample_owner) (3, []) =
        (Inr (replicate 32 3 @ replicate 8 0 @ replicate 32 0), (4, []))"
      by (simp add: sync_store_def save_run_defs)
    from recover_new [OF mount_laws_crypto _ this] sample_laws show ?thesis
      by (simp add: get_secret_for_manifest_def get_share_def sync_store_def sample_first_def public_key_to_hex_def public_def
          sample_owner_share_def sample_owner_def share_new_owner_def sh_role_def)
  qed
  moreover have "get_pins_from_blobs sync_store (m_pins (sample_first (Some [0]))) sync_world = Inr [replicate 32 2]"
    by (simp add: get_pins_from_blobs_def sync_store_def sample_first_def sync_world_def check_stat_def blob_stat_def
        read_hash_list_def blob_get_def chunks_exact.simps pins_from_vec_def pins_insert_def pins_new_def)
  moreover have "get_node_from_blobs sync_store (Dir (m_entry (sample_first (Some [0]))) (replicate 32 0)) sync_world = Inr []"
    by (simp add: get_node_from_blobs_def sync_store_def sample_first_def sync_world_def check_stat_def blob_stat_def
        blob_get_def decrypt_def table_decode_def)
  moreover have "public sync_store sample_owner = sample_owner" "m_ops_log (sample_first sig) = None" "m_height (sample_first sig) = 0" for sig
    by (simp_all add: public_def sync_store_def sample_owner_def sample_first_def sample_manifest_def)
  ultimately show ?thesis
    by (simp add: peer_mount_def sync_peer_def mount_load_def) (simp add: sync_head_def)
qed

lemma sync_merge_runs:
  "\<exists>s'. merge_from sync_store sync_head (conflict_file show_hash CONFLICT_HASH_LENGTH) (sync_local, sync_world) =
     Some (Inr (merge_result_new, link_new manifest_codec (replicate 32 13)), s')"
proof -
  have first: "get_manifest_from_blobs sync_store (mi_link sync_head) sync_world = Inr (sample_first (Some [0]))"
    "m_previous (sample_first (Some [0])) = None" "mi_link sync_local = mi_link sync_head"
    by (simp_all add: get_manifest_from_blobs_def sync_store_def sync_world_def sync_head_def check_stat_def blob_stat_def
        blob_get_def manifest_decode_def table_decode_def sample_first_def sample_manifest_def sync_local_def)
  then have chain: "version_chain sync_store sync_world (mi_link sync_head) [mi_link sync_head]"
    by (intro version_chain.genesis)
  have ancestor: "mount_common_ancestor sync_store sync_local sync_head sync_world = Some (Inr (Some (mi_link sync_head)))"
    using chain_loop_chain [OF chain, of "[]"] search_loop_chain [OF chain] by (auto simp: mount_common_ancestor_def first(3))
  have loop: "collect_loop sync_store sync_world sk (Some l) l logs = Some (Inr logs)" for sk l logs
    by (subst collect_loop.simps) simp
  have logs: "collect_ops_since sync_store (Some (mi_link sync_head)) (sync_local, sync_world) = Some (Inr (mi_ops_log sync_local))"
    "collect_ops_since sync_store (Some (mi_link sync_head)) (sync_head, sync_world) = Some (Inr log_new)"
    using loop by (simp_all add: collect_ops_since_def Let_def first(3) log_is_empty_def sync_local_def sync_head_def log_new_def
        merge_def merge_step_def removal_def)
  have "\<exists>s'. merge_collected sync_store res (mi_ops_log sync_local) log_new (sync_local, sync_world) =
      (Inr (merge_result_new, link_new manifest_codec (replicate 32 13)), s')" for res
    by (simp add: merge_collected_def merge_with_resolver_def apply_resolved_state_def resolve_all_def group_by_path_def
        max_by_id_def merge_def merge_step_def save_run_defs put_ops_log_in_blobs_def sync_store_defs sync_world_def sync_head_def sync_local_def)
  then show ?thesis
    by (simp add: merge_from_def ancestor logs)
qed

abbreviation sync_log :: "database log_provider" where
  "sync_log \<equiv> sql_provider (\<lambda>_. None)"

theorem merged_version_unrecorded_witness:
  "\<exists>r st'. sync_mount sync_store sync_log (\<lambda>_. []) 0 1 (sync_live sync_local) (sync_manager (sync_live sync_local)) = Some (r, st') \<and>
     pr_log (mm_peer st') = pr_log sync_peer"
proof -
  let ?live = "sync_live sync_local"
  obtain m w where merge: "merge_from sync_store sync_head (conflict_file (\<lambda>_. []) CONFLICT_HASH_LENGTH) (sync_local, sync_world) =
      Some (Inr (merge_result_new, link_new manifest_codec (replicate 32 13)), m, w)"
    using sync_merge_runs [of "\<lambda>_. []"] by auto
  have st: "mm_peer (sync_manager ?live) = sync_peer" "mm_world (sync_manager ?live) = sync_world" "lm_mount ?live = sync_local"
    by (simp_all add: sync_manager_def manager_new_def sync_live_def lm_mount_def jax_fs_new_def)
  have "\<not> log_is_empty (mi_ops_log (lm_mount ?live))"
    unfolding st by (simp add: log_is_empty_def sync_local_def)
  moreover have "link_to_cid (link_new manifest_codec (replicate 32 13)) \<notin> br_current_link ` set (db_rows (pr_log sync_peer))"
    by (simp add: sync_peer_def new_row_def sync_head_def link_new_def)
  ultimately show ?thesis
    using merged_version_unrecorded [of ?live sync_store "\<lambda>_. None" 0 "sync_manager ?live" sync_head "\<lambda>_. []"
        merge_result_new "link_new manifest_codec (replicate 32 13)" m w 1] sync_peer_mount merge
    by (auto simp: st)
qed

text \<open>A mount whose file system has cached a file.\<close>

definition cached_live :: "sample_world live_mount" where
  "cached_live = (sync_live sync_head)\<lparr>lm_fs := (sample_fs (sync_head, sync_world) False)
     \<lparr>jf_cache := put_content ''/f'' \<lparr>cc_data = [7], cc_mime_type = []\<rparr> (cache_new file_cache_config_default)\<rparr>\<rparr>"

theorem sync_leaves_file_cache_witness:
  "\<exists>st' live'. on_bucket_synced sync_store sync_log (\<lambda>_. []) 0 (sync_manager cached_live) = Some (Inr (), st') \<and>
     map_of (mm_mounts st') 1 = Some live' \<and> fst (fs_read sync_store 2 1 0 8 (lm_fs live')) = Inr [7]"
proof -
  have live: "map_of (mm_mounts (sync_manager cached_live)) 1 = Some cached_live" "fm_bucket_id (lm_config cached_live) = 0"
    "mm_mounts (sync_manager cached_live) = [(1, cached_live)]" "log_is_empty (mi_ops_log (lm_mount cached_live))"
    "mm_peer (sync_manager cached_live) = sync_peer" "mm_world (sync_manager cached_live) = sync_world"
    by (simp_all add: sync_manager_def manager_new_def cached_live_def sync_live_def lm_mount_def log_is_empty_def sync_head_def log_new_def)
  then obtain st' where run: "on_bucket_synced sync_store sync_log (\<lambda>_. []) 0 (sync_manager cached_live) = Some (Inr (), st')"
    by (simp add: on_bucket_synced_def sync_mount_def reload_def sync_peer_mount)
  have "get_path 2 (jf_inodes (lm_fs cached_live)) = Some ''/f''" "jf_write_buffers (lm_fs cached_live) 1 = None"
    "get_content ''/f'' (jf_cache (lm_fs cached_live)) = Some \<lparr>cc_data = [7], cc_mime_type = []\<rparr>"
    by (simp_all add: cached_live_def get_content_def put_content_def)
  from sync_leaves_file_cache [OF run live(1) this(1,3,2), of 0 8] run show ?thesis
    by (auto simp: read_slice_def)
qed

definition sample_os :: "unit os_ext" where
  "sample_os = \<lparr>os_path_exists = (\<lambda>_ _. True), os_create_dir_all = (\<lambda>_ _. (Inr (), ())), os_is_dir = (\<lambda>_ _. True),
     os_spawn_mount = (\<lambda>_ _. (Inr (), ())), os_fusermount = (\<lambda>_ _ _. (Inr True, ()))\<rparr>"

definition first_manager :: "(sample_world, unit) mount_manager" where
  "first_manager = manager_new sync_peer \<lparr>ft_rows = [], ft_clock = 0\<rparr> sync_world ()"

definition created_manager :: "(sample_world, unit) mount_manager" where
  "created_manager = snd (create_mount sample_os 1 0 ''/m'' False False (Some 10) None first_manager)"

definition started_manager :: "(sample_world, unit) mount_manager" where
  "started_manager = snd (start sample_os sync_store sync_log 0 (0, 0) 1 created_manager)"

lemma started_reachable: "(manager_step sample_os sync_store sync_log)\<^sup>*\<^sup>* first_manager started_manager"
proof -
  have "manager_step sample_os sync_store sync_log first_manager created_manager"
    unfolding created_manager_def by (rule created, rule surjective_pairing)
  moreover have "manager_step sample_os sync_store sync_log created_manager started_manager"
    unfolding started_manager_def by (rule started, rule surjective_pairing)
  ultimately show ?thesis
    by (meson converse_rtranclp_into_rtranclp rtranclp.rtrancl_refl)
qed

lemma created_row: "\<exists>r. fuse_get 1 (mm_table created_manager) = Some r \<and> fm_cache_size_mb r = 10 \<and> fm_bucket_id r = 0 \<and>
    mm_mounts created_manager = [] \<and> mm_peer created_manager = sync_peer \<and> mm_world created_manager = sync_world"
  by (simp add: created_manager_def create_mount_def first_manager_def manager_new_def sample_os_def sync_peer_def
      get_bucket_info_def order_desc_def rows_of_def new_row_def row_info_def read_cid_def link_from_cid_def link_to_cid_def
      sync_head_def manifest_codec_def link_new_def fuse_create_def Let_def fuse_get_def as_i64_arg_def unwrap_or_def)

lemma started_row: "\<exists>r. fuse_get 1 (mm_table started_manager) = Some r \<and> fm_cache_size_mb r = 10 \<and> fm_status r = ''running''"
  using created_row
  by (auto simp: started_manager_def start_def sync_peer_mount Let_def sample_os_def manager_simps fuse_get_status)

lemma first_table: "table_ok \<lparr>ft_rows = [], ft_clock = 0\<rparr>" "reported_running \<lparr>ft_rows = [], ft_clock = 0\<rparr> = {}"
  by (simp_all add: reported_running_def table_ok_def row_status_def fuse_get_def)

theorem manager_status_sound_witness: "1 \<in> running_mounts started_manager"
proof -
  from started_row obtain r where "fuse_get 1 (mm_table started_manager) = Some r" "fm_status r = ''running''"
    by blast
  then have "row_status 1 (mm_table started_manager) = Some Running"
    by (simp add: row_status_def status_from_str_def)
  then show ?thesis
    using manager_status_sound [OF first_table(1) started_reachable [unfolded first_manager_def]] first_table(2) by blast
qed

theorem mount_columns_typed_witness:
  "\<exists>r. fuse_get 1 (mm_table started_manager) = Some r \<and> as_u32 (fm_cache_size_mb r) = 10 \<and>
     status_as_str (status_from_str (fm_status r)) = ''running''"
proof -
  from started_row obtain r where r: "fuse_get 1 (mm_table started_manager) = Some r" "fm_cache_size_mb r = 10" "fm_status r = ''running''"
    by blast
  from mount_columns_typed [OF first_table(1) started_reachable [unfolded first_manager_def] r(1)] r show ?thesis
    by (auto simp: as_u32_def)
qed

end
