(* ===== verification/Object_Store.thy ===== *)
theory Object_Store
  imports Blobs_Store "HOL-Library.AList"
begin

text \<open>
  \<open>crates/object-store\<close>: the content-addressed blob store behind the iroh-blobs client, blob
  metadata in a SQLite table (\<open>database.rs\<close>), blob data in an object storage (\<open>storage.rs\<close>), and
  the operations that combine them (\<open>object_store.rs\<close>).

  The crates below it are external: \<open>backend_ext\<close> holds the requests of the \<open>object_store\<close> crate,
  the hash type of iroh-blobs and the answer of the database connection (\<open>Some\<close> of an error when a
  query fails). The table is the list of its rows. Every request may fail and may change the
  world \<open>'w\<close>; \<open>held\<close> is the content of the object storage as its documentation describes it, which
  the code never calls and the laws \<open>backend_laws\<close> speak of: a write is atomic, a read returns
  what is held, a deletion removes at most the object it names.
\<close>

datatype os_error = OsNotFound string | OsOther string

record 'w backend_ext =
  os_put :: "string \<Rightarrow> bytes \<Rightarrow> 'w \<Rightarrow> (os_error + unit) \<times> 'w"
  os_get :: "string \<Rightarrow> 'w \<Rightarrow> (os_error + (os_error + bytes)) \<times> 'w"
  os_delete :: "string \<Rightarrow> 'w \<Rightarrow> (os_error + unit) \<times> 'w"
  object_path :: "string \<Rightarrow> string"
  db_query :: "'w \<Rightarrow> string option \<times> 'w"
  utc_now :: "'w \<Rightarrow> int"
  hash_of :: "bytes \<Rightarrow> hash"
  hash_str :: "hash \<Rightarrow> string"
  hash_parse :: "string \<Rightarrow> hash option"
  held :: "'w \<Rightarrow> string \<Rightarrow> bytes option"

definition backend_laws :: "('w, 'z) backend_ext_scheme \<Rightarrow> bool" where
  "backend_laws X \<longleftrightarrow>
     (\<forall>w e w'. db_query X w = (e, w') \<longrightarrow> held X w' = held X w) \<and>
     (\<forall>p w r w'. os_get X p w = (r, w') \<longrightarrow> held X w' = held X w \<and>
        (\<forall>b. r = Inr (Inr b) \<longrightarrow> held X w p = Some b) \<and>
        (\<forall>e. r = Inl (OsNotFound e) \<longrightarrow> held X w p = None)) \<and>
     (\<forall>p d w r w'. os_put X p d w = (r, w') \<longrightarrow>
        held X w' = (held X w)(p \<mapsto> d) \<or> isl r \<and> held X w' = held X w) \<and>
     (\<forall>p w r w'. os_delete X p w = (r, w') \<longrightarrow>
        held X w' = (held X w)(p := None) \<or> (\<exists>e. r = Inl (OsOther e)) \<and> held X w' = held X w) \<and>
     (\<forall>d. length (hash_of X d) = 32) \<and>
     (\<forall>h. length h = 32 \<longrightarrow> hash_parse X (hash_str X h) = Some h \<and>
        object_path X (''data/'' @ hash_str X h) = ''data/'' @ hash_str X h \<and>
        object_path X (''outboard/'' @ hash_str X h) = ''outboard/'' @ hash_str X h)"

datatype blob_store_error =
    Database string
  | ObjectStoreError os_error
  | Io string
  | Migration string
  | InvalidConfig string
  | BucketNotFound string

section \<open>Metadata (\<open>database.rs\<close>)\<close>

datatype blob_state = Complete | Partial | Deleting

fun blob_state_as_str :: "blob_state \<Rightarrow> string" where
  "blob_state_as_str Complete = ''complete''"
| "blob_state_as_str Partial = ''partial''"
| "blob_state_as_str Deleting = ''deleting''"

definition blob_state_parse :: "string \<Rightarrow> blob_state" where
  "blob_state_parse s =
     (if s = ''complete'' then Complete
      else if s = ''partial'' then Partial
      else if s = ''deleting'' then Deleting
      else Complete)"

text \<open>A row of the table \<open>blobs\<close>, with the columns of the migration, and what \<open>get_blob\<close> reads of it.\<close>

record blob_row =
  br_hash :: string
  br_size :: int
  br_has_outboard :: int
  br_state :: string
  br_created_at :: int
  br_updated_at :: int

record blob_metadata =
  bm_hash :: string
  bm_size :: int
  bm_has_outboard :: bool
  bm_state :: blob_state
  bm_created_at :: int
  bm_updated_at :: int

record 'w blob_store =
  bs_rows :: "blob_row list"
  bs_world :: 'w

text \<open>One statement on the connection pool: it fails without effect, or runs.\<close>

definition query ::
  "('w, 'z) backend_ext_scheme \<Rightarrow> ('w blob_store \<Rightarrow> 'a \<times> 'w blob_store) \<Rightarrow> 'w blob_store \<Rightarrow>
     (blob_store_error + 'a) \<times> 'w blob_store" where
  "query X f s =
     (case db_query X (bs_world s) of
        (Some e, w') \<Rightarrow> (Inl (Database e), s\<lparr>bs_world := w'\<rparr>)
      | (None, w') \<Rightarrow> (case f (s\<lparr>bs_world := w'\<rparr>) of (x, s') \<Rightarrow> (Inr x, s')))"

text \<open>\<open>INSERT ... ON CONFLICT(hash) DO UPDATE\<close>: an existing row keeps its creation time.\<close>

definition upsert_row :: "blob_row \<Rightarrow> blob_row list \<Rightarrow> blob_row list" where
  "upsert_row n rows =
     (if br_hash n \<in> br_hash ` set rows
      then map (\<lambda>r. if br_hash r = br_hash n
             then r\<lparr>br_size := br_size n, br_has_outboard := br_has_outboard n, br_state := br_state n,
                    br_updated_at := br_updated_at n\<rparr>
             else r) rows
      else rows @ [n])"

definition insert_blob ::
  "('w, 'z) backend_ext_scheme \<Rightarrow> string \<Rightarrow> int \<Rightarrow> bool \<Rightarrow> 'w blob_store \<Rightarrow>
     (blob_store_error + unit) \<times> 'w blob_store" where
  "insert_blob X h n has_outboard s =
     (let now = utc_now X (bs_world s)
      in query X (\<lambda>s. ((), s\<lparr>bs_rows := upsert_row
           \<lparr>br_hash = h, br_size = n, br_has_outboard = of_bool has_outboard,
            br_state = blob_state_as_str Complete, br_created_at = now, br_updated_at = now\<rparr>
           (bs_rows s)\<rparr>)) s)"

definition metadata_of :: "blob_row \<Rightarrow> blob_metadata" where
  "metadata_of r = \<lparr>bm_hash = br_hash r, bm_size = br_size r, bm_has_outboard = br_has_outboard r \<noteq> 0,
     bm_state = blob_state_parse (br_state r), bm_created_at = br_created_at r,
     bm_updated_at = br_updated_at r\<rparr>"

definition get_blob ::
  "('w, 'z) backend_ext_scheme \<Rightarrow> string \<Rightarrow> 'w blob_store \<Rightarrow>
     (blob_store_error + blob_metadata option) \<times> 'w blob_store" where
  "get_blob X h = query X (\<lambda>s. (map_option metadata_of (find (\<lambda>r. br_hash r = h) (bs_rows s)), s))"

definition has_row :: "string \<Rightarrow> blob_row list \<Rightarrow> bool" where
  "has_row h rows \<longleftrightarrow> (\<exists>r \<in> set rows. br_hash r = h \<and> br_state r = blob_state_as_str Complete)"

definition has_blob ::
  "('w, 'z) backend_ext_scheme \<Rightarrow> string \<Rightarrow> 'w blob_store \<Rightarrow>
     (blob_store_error + bool) \<times> 'w blob_store" where
  "has_blob X h = query X (\<lambda>s. (has_row h (bs_rows s), s))"

definition delete_blob ::
  "('w, 'z) backend_ext_scheme \<Rightarrow> string \<Rightarrow> 'w blob_store \<Rightarrow>
     (blob_store_error + bool) \<times> 'w blob_store" where
  "delete_blob X h = query X (\<lambda>s.
     (0 < length (filter (\<lambda>r. br_hash r = h) (bs_rows s)),
      s\<lparr>bs_rows := filter (\<lambda>r. br_hash r \<noteq> h) (bs_rows s)\<rparr>))"

definition list_blobs ::
  "('w, 'z) backend_ext_scheme \<Rightarrow> 'w blob_store \<Rightarrow> (blob_store_error + string list) \<times> 'w blob_store" where
  "list_blobs X = query X (\<lambda>s.
     (map br_hash (sort_key (\<lambda>r. - br_created_at r)
        (filter (\<lambda>r. br_state r = blob_state_as_str Complete) (bs_rows s))), s))"

section \<open>Object storage (\<open>storage.rs\<close>)\<close>

definition data_path :: "('w, 'z) backend_ext_scheme \<Rightarrow> string \<Rightarrow> string" where
  "data_path X h = object_path X (''data/'' @ h)"

definition outboard_path :: "('w, 'z) backend_ext_scheme \<Rightarrow> string \<Rightarrow> string" where
  "outboard_path X h = object_path X (''outboard/'' @ h)"

definition put_data ::
  "('w, 'z) backend_ext_scheme \<Rightarrow> string \<Rightarrow> bytes \<Rightarrow> 'w blob_store \<Rightarrow>
     (blob_store_error + unit) \<times> 'w blob_store" where
  "put_data X h d s =
     (case os_put X (data_path X h) d (bs_world s) of
        (r, w') \<Rightarrow> (map_err ObjectStoreError r, s\<lparr>bs_world := w'\<rparr>))"

definition get_data ::
  "('w, 'z) backend_ext_scheme \<Rightarrow> string \<Rightarrow> 'w blob_store \<Rightarrow>
     (blob_store_error + bytes option) \<times> 'w blob_store" where
  "get_data X h s =
     (case os_get X (data_path X h) (bs_world s) of
        (Inr body, w') \<Rightarrow> (map_err ObjectStoreError (bindR body (\<lambda>b. Inr (Some b))), s\<lparr>bs_world := w'\<rparr>)
      | (Inl (OsNotFound _), w') \<Rightarrow> (Inr None, s\<lparr>bs_world := w'\<rparr>)
      | (Inl e, w') \<Rightarrow> (Inl (ObjectStoreError e), s\<lparr>bs_world := w'\<rparr>))"

text \<open>The two deletions share their handling of the answer: a missing object counts as deleted.\<close>

definition delete_object ::
  "('w, 'z) backend_ext_scheme \<Rightarrow> string \<Rightarrow> 'w blob_store \<Rightarrow>
     (blob_store_error + unit) \<times> 'w blob_store" where
  "delete_object X p s =
     (case os_delete X p (bs_world s) of
        (Inr _, w') \<Rightarrow> (Inr (), s\<lparr>bs_world := w'\<rparr>)
      | (Inl (OsNotFound _), w') \<Rightarrow> (Inr (), s\<lparr>bs_world := w'\<rparr>)
      | (Inl e, w') \<Rightarrow> (Inl (ObjectStoreError e), s\<lparr>bs_world := w'\<rparr>))"

definition delete_data ::
  "('w, 'z) backend_ext_scheme \<Rightarrow> string \<Rightarrow> 'w blob_store \<Rightarrow>
     (blob_store_error + unit) \<times> 'w blob_store" where
  "delete_data X h = delete_object X (data_path X h)"

definition delete_outboard ::
  "('w, 'z) backend_ext_scheme \<Rightarrow> string \<Rightarrow> 'w blob_store \<Rightarrow>
     (blob_store_error + unit) \<times> 'w blob_store" where
  "delete_outboard X h = delete_object X (outboard_path X h)"

section \<open>The blob store (\<open>object_store.rs\<close>)\<close>

definition OUTBOARD_THRESHOLD :: nat where "OUTBOARD_THRESHOLD = 16 * 1024"

definition store_put ::
  "('w, 'z) backend_ext_scheme \<Rightarrow> bytes \<Rightarrow> 'w blob_store \<Rightarrow>
     (blob_store_error + hash) \<times> 'w blob_store" where
  "store_put X data =
     (let n = length data; h = hash_of X data; h_str = hash_str X h;
          has_outboard = OUTBOARD_THRESHOLD < n
      in bindS (put_data X h_str data) (\<lambda>_.
         bindS (insert_blob X h_str (int n) has_outboard) (\<lambda>_.
         liftR (Inr h))))"

definition store_get ::
  "('w, 'z) backend_ext_scheme \<Rightarrow> hash \<Rightarrow> 'w blob_store \<Rightarrow>
     (blob_store_error + bytes option) \<times> 'w blob_store" where
  "store_get X h =
     bindS (has_blob X (hash_str X h)) (\<lambda>present.
     if \<not> present then liftR (Inr None) else get_data X (hash_str X h))"

definition store_delete ::
  "('w, 'z) backend_ext_scheme \<Rightarrow> hash \<Rightarrow> 'w blob_store \<Rightarrow>
     (blob_store_error + bool) \<times> 'w blob_store" where
  "store_delete X h =
     bindS (get_blob X (hash_str X h)) (\<lambda>metadata.
     case metadata of
       None \<Rightarrow> liftR (Inr False)
     | Some m \<Rightarrow>
         bindS (delete_data X (hash_str X h)) (\<lambda>_.
         bindS (if bm_has_outboard m then delete_outboard X (hash_str X h) else liftR (Inr ())) (\<lambda>_.
         bindS (delete_blob X (hash_str X h)) (\<lambda>_.
         liftR (Inr True)))))"

definition store_list ::
  "('w, 'z) backend_ext_scheme \<Rightarrow> 'w blob_store \<Rightarrow> (blob_store_error + hash list) \<times> 'w blob_store" where
  "store_list X = bindS (list_blobs X) (\<lambda>strs. liftR (Inr (List.map_filter (hash_parse X) strs)))"

section \<open>Opening a store\<close>

text \<open>
  \<open>ObjectStoreConfig\<close> and \<open>Storage::new\<close>. A path is the list of its components. What the file
  system, the S3 client builder, the first item of a listing and the database connection answer
  is external; an S3 listing that fails is a missing bucket when it says so.
\<close>

datatype object_store_config =
    Memory
  | Local "string list"
  | S3 string string string string "string option"

record s3_settings =
  s3_endpoint :: string
  s3_access_key :: string
  s3_secret_key :: string
  s3_bucket :: string
  s3_region :: string
  s3_allow_http :: bool

datatype storage = InMemory | LocalFileSystem "string list" | AmazonS3 s3_settings

record config_ext =
  create_dir_all :: "string list \<Rightarrow> string option"
  local_fs :: "string list \<Rightarrow> string option"
  s3_build :: "s3_settings \<Rightarrow> string option"
  s3_list_first :: "s3_settings \<Rightarrow> os_error option"
  os_error_text :: "os_error \<Rightarrow> string"
  db_connect :: "string list option \<Rightarrow> string + blob_row list"
  db_migrate :: "string list option \<Rightarrow> string option"

definition str_contains :: "string \<Rightarrow> string \<Rightarrow> bool" where
  "str_contains s t \<longleftrightarrow> (\<exists>i \<in> set [0..<Suc (length s)]. prefix t (drop i s))"

definition storage_new :: "config_ext \<Rightarrow> object_store_config \<Rightarrow> blob_store_error + storage" where
  "storage_new C config =
     (case config of
        Memory \<Rightarrow> Inr InMemory
      | Local path \<Rightarrow>
          (case create_dir_all C path of
             Some e \<Rightarrow> Inl (Io e)
           | None \<Rightarrow> (case local_fs C path of
               Some e \<Rightarrow> Inl (InvalidConfig e)
             | None \<Rightarrow> Inr (LocalFileSystem path)))
      | S3 endpoint access_key secret_key bucket region \<Rightarrow>
          (let b = \<lparr>s3_endpoint = endpoint, s3_access_key = access_key, s3_secret_key = secret_key,
                 s3_bucket = bucket,
                 s3_region = (case region of Some r \<Rightarrow> r | None \<Rightarrow> ''us-east-1''),
                 s3_allow_http = prefix ''http://'' endpoint\<rparr>
           in case s3_build C b of
                Some e \<Rightarrow> Inl (InvalidConfig e)
              | None \<Rightarrow> (case s3_list_first C b of
                  None \<Rightarrow> Inr (AmazonS3 b)
                | Some (OsNotFound _) \<Rightarrow> Inl (BucketNotFound bucket)
                | Some e \<Rightarrow>
                    (let msg = os_error_text C e
                     in if str_contains msg ''NoSuchBucket'' \<or>
                           str_contains msg ''bucket'' \<and> str_contains msg ''not''
                        then Inl (BucketNotFound bucket) else Inl (ObjectStoreError e)))))"

text \<open>\<open>Database::new\<close> creates the directory of the file first; \<open>Database::in_memory\<close> has no file.\<close>

definition database_connect :: "config_ext \<Rightarrow> string list option \<Rightarrow> blob_store_error + blob_row list" where
  "database_connect C path =
     bindR (map_err Database (db_connect C path)) (\<lambda>rows.
     case db_migrate C path of Some e \<Rightarrow> Inl (Migration e) | None \<Rightarrow> Inr rows)"

definition database_new :: "config_ext \<Rightarrow> string list \<Rightarrow> blob_store_error + blob_row list" where
  "database_new C path =
     (if path \<noteq> [] then
        (case create_dir_all C (butlast path) of
           Some e \<Rightarrow> Inl (Io e) | None \<Rightarrow> database_connect C (Some path))
      else database_connect C (Some path))"

definition database_in_memory :: "config_ext \<Rightarrow> blob_store_error + blob_row list" where
  "database_in_memory C = database_connect C None"

definition blob_store_new ::
  "config_ext \<Rightarrow> string list \<Rightarrow> object_store_config \<Rightarrow> blob_store_error + blob_row list \<times> storage" where
  "blob_store_new C db_path config =
     bindR (database_new C db_path) (\<lambda>db. bindR (storage_new C config) (\<lambda>st. Inr (db, st)))"

definition blob_store_in_memory ::
  "config_ext \<Rightarrow> object_store_config \<Rightarrow> blob_store_error + blob_row list \<times> storage" where
  "blob_store_in_memory C config =
     bindR (database_in_memory C) (\<lambda>db. bindR (storage_new C config) (\<lambda>st. Inr (db, st)))"

definition blob_store_new_local ::
  "config_ext \<Rightarrow> string list \<Rightarrow> blob_store_error + blob_row list \<times> storage" where
  "blob_store_new_local C data_dir =
     blob_store_new C (data_dir @ [''blobs.db'']) (Local (data_dir @ [''objects'']))"

definition blob_store_new_ephemeral :: "config_ext \<Rightarrow> blob_store_error + blob_row list \<times> storage" where
  "blob_store_new_ephemeral C = blob_store_in_memory C Memory"

definition object_store_new_s3 ::
  "config_ext \<Rightarrow> string list \<Rightarrow> string \<Rightarrow> string \<Rightarrow> string \<Rightarrow> string \<Rightarrow> string option \<Rightarrow>
     blob_store_error + blob_row list \<times> storage" where
  "object_store_new_s3 C db_path endpoint access_key secret_key bucket region =
     blob_store_new C db_path (S3 endpoint access_key secret_key bucket region)"

section \<open>Requests in flight\<close>

text \<open>
  The tasks of the actor run the operations of the store concurrently. An operation in flight is
  the program point of its body: each step is one request to the database or the storage (the
  places where the body awaits), and the steps of different operations interleave.
\<close>

datatype outcome = OHash hash | OData "bytes option" | ODeleted bool

datatype inflight =
    PutStart bytes
  | PutRow bytes
  | GetStart hash
  | GetData hash
  | DelStart hash
  | DelData hash bool
  | DelOutboard hash
  | DelRow hash
  | Done "blob_store_error + outcome"

definition advance ::
  "('w blob_store \<Rightarrow> (blob_store_error + 'a) \<times> 'w blob_store) \<Rightarrow> ('a \<Rightarrow> inflight) \<Rightarrow> 'w blob_store \<Rightarrow>
     inflight \<times> 'w blob_store" where
  "advance m k s = (case m s of (Inl e, s') \<Rightarrow> (Done (Inl e), s') | (Inr x, s') \<Rightarrow> (k x, s'))"

fun step_op :: "('w, 'z) backend_ext_scheme \<Rightarrow> inflight \<Rightarrow> 'w blob_store \<Rightarrow> inflight \<times> 'w blob_store" where
  "step_op X (PutStart d) = advance (put_data X (hash_str X (hash_of X d)) d) (\<lambda>_. PutRow d)"
| "step_op X (PutRow d) =
     advance (insert_blob X (hash_str X (hash_of X d)) (int (length d)) (OUTBOARD_THRESHOLD < length d))
       (\<lambda>_. Done (Inr (OHash (hash_of X d))))"
| "step_op X (GetStart h) =
     advance (has_blob X (hash_str X h)) (\<lambda>present. if \<not> present then Done (Inr (OData None)) else GetData h)"
| "step_op X (GetData h) = advance (get_data X (hash_str X h)) (\<lambda>x. Done (Inr (OData x)))"
| "step_op X (DelStart h) =
     advance (get_blob X (hash_str X h)) (\<lambda>m. case m of
       None \<Rightarrow> Done (Inr (ODeleted False)) | Some m \<Rightarrow> DelData h (bm_has_outboard m))"
| "step_op X (DelData h has_outboard) =
     advance (delete_data X (hash_str X h)) (\<lambda>_. if has_outboard then DelOutboard h else DelRow h)"
| "step_op X (DelOutboard h) = advance (delete_outboard X (hash_str X h)) (\<lambda>_. DelRow h)"
| "step_op X (DelRow h) = advance (delete_blob X (hash_str X h)) (\<lambda>_. Done (Inr (ODeleted True)))"
| "step_op X (Done r) = Pair (Done r)"

text \<open>One scheduler choice after another: the operation at each chosen position makes a step.\<close>

fun interleave ::
  "('w, 'z) backend_ext_scheme \<Rightarrow> nat list \<Rightarrow> inflight list \<Rightarrow> 'w blob_store \<Rightarrow> inflight list \<times> 'w blob_store" where
  "interleave X [] ts s = (ts, s)"
| "interleave X (i # is) ts s =
     (if i < length ts
      then (case step_op X (ts ! i) s of (t', s') \<Rightarrow> interleave X is (ts[i := t']) s')
      else interleave X is ts s)"

section \<open>The contract of a content-addressed store\<close>

text \<open>
  The interface the iroh-blobs commands rely on: a store holds data under hashes (\<open>view\<close>), a
  successful write makes the data visible under its hash, a failed one loses nothing, a read
  returns what the store holds, a deletion removes at most the blob it names. Every request may
  fail.
\<close>

datatype store_op = OpPut bytes | OpGet hash | OpDelete hash

fun op_valid :: "store_op \<Rightarrow> bool" where
  "op_valid (OpPut d) = True"
| "op_valid (OpGet h) = (length h = 32)"
| "op_valid (OpDelete h) = (length h = 32)"

locale content_store =
  fixes laws :: "'x \<Rightarrow> bool"
    and hsh :: "'x \<Rightarrow> bytes \<Rightarrow> hash"
    and inv :: "'x \<Rightarrow> 's \<Rightarrow> bool"
    and view :: "'x \<Rightarrow> 's \<Rightarrow> hash \<Rightarrow> bytes option"
    and put :: "'x \<Rightarrow> bytes \<Rightarrow> 's \<Rightarrow> ('e + hash) \<times> 's"
    and get :: "'x \<Rightarrow> hash \<Rightarrow> 's \<Rightarrow> ('e + bytes option) \<times> 's"
    and del :: "'x \<Rightarrow> hash \<Rightarrow> 's \<Rightarrow> ('e + bool) \<times> 's"
  assumes put_inv: "laws X \<Longrightarrow> inv X s \<Longrightarrow> put X d s = (r, s') \<Longrightarrow> inv X s'"
    and get_inv: "laws X \<Longrightarrow> inv X s \<Longrightarrow> length h = 32 \<Longrightarrow> get X h s = (q, s') \<Longrightarrow> inv X s'"
    and del_inv: "laws X \<Longrightarrow> inv X s \<Longrightarrow> length h = 32 \<Longrightarrow> del X h s = (q', s') \<Longrightarrow> inv X s'"
    and view_hash: "laws X \<Longrightarrow> inv X s \<Longrightarrow> view X s h = Some d \<Longrightarrow> hsh X d = h"
    and put_ok: "laws X \<Longrightarrow> inv X s \<Longrightarrow> put X d s = (Inr h, s') \<Longrightarrow>
      h = hsh X d \<and> view X s' = (view X s)(h \<mapsto> d)"
    and put_err: "laws X \<Longrightarrow> inv X s \<Longrightarrow> put X d s = (Inl e, s') \<Longrightarrow>
      view X s' = view X s \<or> view X s' = (view X s)(hsh X d \<mapsto> d)"
    and get_view: "laws X \<Longrightarrow> inv X s \<Longrightarrow> length h = 32 \<Longrightarrow> get X h s = (q, s') \<Longrightarrow> view X s' = view X s"
    and get_ok: "laws X \<Longrightarrow> inv X s \<Longrightarrow> length h = 32 \<Longrightarrow> get X h s = (Inr x, s') \<Longrightarrow> x = view X s h"
    and del_true: "laws X \<Longrightarrow> inv X s \<Longrightarrow> length h = 32 \<Longrightarrow> del X h s = (Inr b, s') \<Longrightarrow>
      view X s' = (view X s)(h := None)"
    and del_other: "laws X \<Longrightarrow> inv X s \<Longrightarrow> length h = 32 \<Longrightarrow> del X h s = (q', s') \<Longrightarrow> h' \<noteq> h \<Longrightarrow>
      view X s' h' = view X s h'"
begin

definition step1 :: "'x \<Rightarrow> store_op \<Rightarrow> 's \<Rightarrow> 's" where
  "step1 X op s = (case op of
     OpPut d \<Rightarrow> snd (put X d s) | OpGet h \<Rightarrow> snd (get X h s) | OpDelete h \<Rightarrow> snd (del X h s))"

lemma step1_inv: "laws X \<Longrightarrow> op_valid op \<Longrightarrow> inv X s \<Longrightarrow> inv X (step1 X op s)"
  by (cases op) (simp_all add: step1_def put_inv [OF _ _ surjective_pairing] get_inv [OF _ _ _ surjective_pairing]
      del_inv [OF _ _ _ surjective_pairing])

text \<open>What one request leaves of a blob it does not delete: the data, or other data of that hash.\<close>

lemma step1_keeps:
  assumes "laws X" and "inv X s" and "view X s h = Some b" and "op_valid op" and "op \<noteq> OpDelete h"
  shows "view X (step1 X op s) h = Some b \<or> (\<exists>d. op = OpPut d \<and> hsh X d = h \<and> view X (step1 X op s) h = Some d)"
proof (cases op)
  case (OpPut d)
  obtain r s' where p: "put X d s = (r, s')"
    by (rule prod.exhaust)
  show ?thesis
    using assms(3) OpPut p put_ok [OF assms(1,2)] put_err [OF assms(1,2)]
    by (cases r) (fastforce simp: step1_def)+
next
  case (OpGet h')
  then show ?thesis
    using assms get_view [OF assms(1,2), of h' "fst (get X h' s)" "snd (get X h' s)"] by (simp add: step1_def)
next
  case (OpDelete h')
  then show ?thesis
    using assms(3-5) del_other [OF assms(1,2), of h' "fst (del X h' s)" "snd (del X h' s)" h]
    by (auto simp: step1_def)
qed

primrec steps :: "'x \<Rightarrow> store_op list \<Rightarrow> 's \<Rightarrow> 's" where
  "steps X [] s = s"
| "steps X (op # ops) s = steps X ops (step1 X op s)"

lemma steps_inv: "laws X \<Longrightarrow> \<forall>op \<in> set ops. op_valid op \<Longrightarrow> inv X s \<Longrightarrow> inv X (steps X ops s)"
  by (induction ops arbitrary: s) (auto simp: step1_inv)

lemma steps_keep:
  assumes "laws X" and "inv X s" and "view X s h = Some b"
    and "\<forall>op \<in> set ops. op_valid op \<and> op \<noteq> OpDelete h \<and> (\<forall>d. op = OpPut d \<and> hsh X d = h \<longrightarrow> d = b)"
  shows "view X (steps X ops s) h = Some b"
  using assms(2-)
proof (induction ops arbitrary: s)
  case (Cons op ops)
  have "view X (step1 X op s) h = Some b"
    using step1_keeps [OF assms(1) Cons.prems(1,2), of op] Cons.prems(3) by auto
  then show ?case
    using Cons step1_inv [OF assms(1)] by simp
qed simp

text \<open>A read after a write, with other requests between them: the data, or an error.\<close>

lemma put_steps_get:
  assumes "laws X" and "inv X s" and "length (hsh X d) = 32" and "put X d s = (Inr h, s1)"
    and "\<forall>op \<in> set ops. op_valid op \<and> op \<noteq> OpDelete h \<and> (\<forall>d'. op = OpPut d' \<and> hsh X d' = h \<longrightarrow> d' = d)"
    and "get X h (steps X ops s1) = (r, s2)"
  shows "r = Inr (Some d) \<or> isl r"
proof -
  have s1: "inv X s1" "view X s1 h = Some d" "h = hsh X d"
    using put_inv [OF assms(1,2,4)] put_ok [OF assms(1,2,4)] by auto
  have "view X (steps X ops s1) h = Some d" and "inv X (steps X ops s1)"
    using steps_keep [OF assms(1) s1(1,2)] steps_inv [OF assms(1) _ s1(1)] assms(5) by auto
  then show ?thesis
    using get_ok [OF assms(1), of "steps X ops s1" h] assms(3,6) s1(3) by (cases r) auto
qed

end

section \<open>The invariant of the store\<close>

definition data_key :: "('w, 'z) backend_ext_scheme \<Rightarrow> hash \<Rightarrow> string" where
  "data_key X h = ''data/'' @ hash_str X h"

definition row_matches :: "('w, 'z) backend_ext_scheme \<Rightarrow> blob_row \<Rightarrow> bool" where
  "row_matches X r \<longleftrightarrow> (\<exists>d. br_hash r = hash_str X (hash_of X d) \<and> br_size r = int (length d) \<and>
     br_has_outboard r = of_bool (OUTBOARD_THRESHOLD < length d) \<and> br_state r = blob_state_as_str Complete)"

text \<open>
  The rows have different hashes and describe data of their hash, and an object stored under the
  data path of a hash has that hash.
\<close>

definition addressed :: "('w, 'z) backend_ext_scheme \<Rightarrow> 'w \<Rightarrow> bool" where
  "addressed X w \<longleftrightarrow> (\<forall>h d. length h = 32 \<and> held X w (data_key X h) = Some d \<longrightarrow> hash_of X d = h)"

definition store_ok :: "('w, 'z) backend_ext_scheme \<Rightarrow> 'w blob_store \<Rightarrow> bool" where
  "store_ok X s \<longleftrightarrow> distinct (map br_hash (bs_rows s)) \<and> (\<forall>r \<in> set (bs_rows s). row_matches X r) \<and>
     addressed X (bs_world s)"

text \<open>What the store holds for its clients: the object, when the table lists it as complete.\<close>

definition blob_view :: "('w, 'z) backend_ext_scheme \<Rightarrow> 'w blob_store \<Rightarrow> hash \<Rightarrow> bytes option" where
  "blob_view X s h =
     (if length h = 32 \<and> has_row (hash_str X h) (bs_rows s)
      then held X (bs_world s) (data_key X h) else None)"

lemma backend_laws_parts:
  assumes "backend_laws X"
  shows
    "\<forall>w e w'. db_query X w = (e, w') \<longrightarrow> held X w' = held X w"
    "\<forall>p w r w'. os_get X p w = (r, w') \<longrightarrow> held X w' = held X w \<and>
        (\<forall>b. r = Inr (Inr b) \<longrightarrow> held X w p = Some b) \<and> (\<forall>e. r = Inl (OsNotFound e) \<longrightarrow> held X w p = None)"
    "\<forall>p d w r w'. os_put X p d w = (r, w') \<longrightarrow>
        held X w' = (held X w)(p \<mapsto> d) \<or> isl r \<and> held X w' = held X w"
    "\<forall>p w r w'. os_delete X p w = (r, w') \<longrightarrow>
        held X w' = (held X w)(p := None) \<or> (\<exists>e. r = Inl (OsOther e)) \<and> held X w' = held X w"
    "\<forall>d. length (hash_of X d) = 32"
    "\<forall>h. length h = 32 \<longrightarrow> hash_parse X (hash_str X h) = Some h \<and>
        object_path X (''data/'' @ hash_str X h) = ''data/'' @ hash_str X h \<and>
        object_path X (''outboard/'' @ hash_str X h) = ''outboard/'' @ hash_str X h"
  using assms unfolding backend_laws_def by - (elim conjE, assumption)+

lemma hash_len: "backend_laws X \<Longrightarrow> length (hash_of X d) = 32"
  by (simp add: backend_laws_parts(5))

lemma hash_str_inject:
  "backend_laws X \<Longrightarrow> length h = 32 \<Longrightarrow> length h' = 32 \<Longrightarrow> hash_str X h = hash_str X h' \<longleftrightarrow> h = h'"
  using backend_laws_parts(6) by (metis option.inject)

lemma data_path_hash: "backend_laws X \<Longrightarrow> length h = 32 \<Longrightarrow> data_path X (hash_str X h) = data_key X h"
  using backend_laws_parts(6) [of X, THEN spec, of h] by (simp add: data_path_def data_key_def)

lemma outboard_path_hash:
  "backend_laws X \<Longrightarrow> length h = 32 \<Longrightarrow> outboard_path X (hash_str X h) \<noteq> data_key X h'"
  using backend_laws_parts(6) [of X, THEN spec, of h] by (simp add: outboard_path_def data_key_def)

lemma data_key_inject:
  "backend_laws X \<Longrightarrow> length h = 32 \<Longrightarrow> length h' = 32 \<Longrightarrow> data_key X h = data_key X h' \<longleftrightarrow> h = h'"
  by (simp add: data_key_def hash_str_inject)

section \<open>The effect of each request\<close>

text \<open>A statement leaves the objects alone; when it fails it leaves the table alone too.\<close>

lemma query_cases:
  assumes "backend_laws X" and "query X f s = (r, s')"
  obtains (failed) e w where "r = Inl e" and "s' = s\<lparr>bs_world := w\<rparr>" and "held X w = held X (bs_world s)"
  | (ran) x w where "r = Inr x" and "f (s\<lparr>bs_world := w\<rparr>) = (x, s')" and "held X w = held X (bs_world s)"
  using assms(2) backend_laws_parts(1) [OF assms(1), rule_format, of "bs_world s"]
  by (fastforce simp: query_def split: prod.splits option.splits)

lemma has_row_map:
  "has_row h (map g rows) \<longleftrightarrow> (\<exists>r \<in> set rows. br_hash (g r) = h \<and> br_state (g r) = blob_state_as_str Complete)"
  by (simp add: has_row_def)

lemma has_row_upsert:
  "has_row h (upsert_row n rows) \<longleftrightarrow>
     (if h = br_hash n then br_state n = blob_state_as_str Complete else has_row h rows)"
proof (cases "br_hash n \<in> br_hash ` set rows")
  case True
  then show ?thesis
    by (auto simp: upsert_row_def has_row_map has_row_def [of h rows])
qed (force simp: has_row_def upsert_row_def image_iff)

lemma upsert_distinct: "distinct (map br_hash rows) \<Longrightarrow> distinct (map br_hash (upsert_row n rows))"
  by (auto simp: upsert_row_def o_def if_distrib cong: if_cong)

lemma upsert_matches:
  assumes "\<forall>r \<in> set rows. row_matches X r" and "row_matches X n"
  shows "\<forall>r \<in> set (upsert_row n rows). row_matches X r"
proof -
  have "row_matches X (r\<lparr>br_size := br_size n, br_has_outboard := br_has_outboard n, br_state := br_state n,
      br_updated_at := br_updated_at n\<rparr>)" if "br_hash r = br_hash n" for r
    using that assms(2) unfolding row_matches_def by simp
  then show ?thesis
    using assms by (auto simp: upsert_row_def)
qed

lemma insert_blob_effect:
  assumes "backend_laws X" and "store_ok X s" and "length d = n"
    and "insert_blob X (hash_str X (hash_of X d)) (int n) (OUTBOARD_THRESHOLD < n) s = (r, s')"
  shows "store_ok X s' \<and> held X (bs_world s') = held X (bs_world s) \<and>
     (if isl r then bs_rows s' = bs_rows s
      else \<forall>h. has_row h (bs_rows s') \<longleftrightarrow> h = hash_str X (hash_of X d) \<or> has_row h (bs_rows s))"
proof (cases rule: query_cases [OF assms(1) assms(4) [unfolded insert_blob_def Let_def], case_names failed ran])
  case (failed e w)
  then show ?thesis
    using assms(2) by (simp add: store_ok_def addressed_def)
next
  case (ran x w)
  let ?n = "\<lparr>br_hash = hash_str X (hash_of X d), br_size = int n,
    br_has_outboard = of_bool (OUTBOARD_THRESHOLD < n), br_state = blob_state_as_str Complete,
    br_created_at = utc_now X (bs_world s), br_updated_at = utc_now X (bs_world s)\<rparr>"
  have "row_matches X ?n"
    using assms(3) by (auto simp: row_matches_def)
  then show ?thesis
    using ran assms(2) upsert_matches [of "bs_rows s" X ?n] upsert_distinct [of "bs_rows s" ?n]
      has_row_upsert [of _ ?n "bs_rows s"]
    by (clarsimp simp: store_ok_def addressed_def)
qed

lemma isl_map_err: "isl (map_err f q) = isl q"
  by (cases q) simp_all

lemma put_data_effect:
  assumes "backend_laws X" and "store_ok X s"
    and "put_data X (hash_str X (hash_of X d)) d s = (r, s')"
  shows "store_ok X s' \<and> bs_rows s' = bs_rows s \<and>
     (held X (bs_world s') = (held X (bs_world s))(data_key X (hash_of X d) \<mapsto> d) \<or>
      isl r \<and> held X (bs_world s') = held X (bs_world s))"
proof -
  obtain q w where q: "os_put X (data_path X (hash_str X (hash_of X d))) d (bs_world s) = (q, w)"
    by (rule prod.exhaust)
  then have "s' = s\<lparr>bs_world := w\<rparr>" and r: "isl r = isl q"
    using assms(3) by (auto simp: put_data_def isl_map_err)
  moreover have h: "held X w = (held X (bs_world s))(data_key X (hash_of X d) \<mapsto> d) \<or>
      isl q \<and> held X w = held X (bs_world s)"
    using backend_laws_parts(3) [OF assms(1), rule_format, OF q] by (simp add: data_path_hash [OF assms(1) hash_len [OF assms(1)]])
  moreover have "addressed X w"
    using h assms(2) by (auto simp: store_ok_def addressed_def data_key_inject [OF assms(1)] hash_len [OF assms(1)] split: if_splits)
  ultimately show ?thesis
    using assms(2) by (simp add: store_ok_def)
qed

lemma get_data_effect:
  assumes "backend_laws X" and "length h = 32" and "get_data X (hash_str X h) s = (r, s')"
  shows "bs_rows s' = bs_rows s \<and> held X (bs_world s') = held X (bs_world s) \<and>
     (\<forall>x. r = Inr x \<longrightarrow> x = held X (bs_world s) (data_key X h))"
proof -
  obtain q w where q: "os_get X (data_path X (hash_str X h)) (bs_world s) = (q, w)"
    by (rule prod.exhaust)
  note l = backend_laws_parts(2) [OF assms(1), rule_format, OF q]
  show ?thesis
    using assms(3) q l data_path_hash [OF assms(1,2)]
    by (auto simp: get_data_def bindR_def map_err_def split: sum.splits os_error.splits)
qed

lemma delete_object_effect:
  assumes "backend_laws X" and "delete_object X p s = (r, s')"
  shows "bs_rows s' = bs_rows s \<and> (held X (bs_world s') = (held X (bs_world s))(p := None) \<or>
     isl r \<and> held X (bs_world s') = held X (bs_world s))"
proof -
  obtain q w where q: "os_delete X p (bs_world s) = (q, w)"
    by (rule prod.exhaust)
  note l = backend_laws_parts(4) [OF assms(1), rule_format, OF q]
  show ?thesis
    using assms(2) q l by (auto simp: delete_object_def split: sum.splits os_error.splits)
qed

lemma addressed_remove: "addressed X w \<Longrightarrow> held X w' = (held X w)(p := None) \<or> held X w' = held X w \<Longrightarrow> addressed X w'"
  by (auto simp: addressed_def split: if_splits)

lemma store_ok_held:
  assumes "store_ok X s" and "bs_rows s' = bs_rows s" and "held X (bs_world s') = held X (bs_world s)"
  shows "store_ok X s'"
  using assms by (simp add: store_ok_def addressed_def)

lemma blob_view_same:
  assumes "\<And>h. has_row h (bs_rows s') = has_row h (bs_rows s)" and "held X (bs_world s') = held X (bs_world s)"
  shows "blob_view X s' = blob_view X s"
  using assms by (simp add: blob_view_def fun_eq_iff)

lemma blob_view_put:
  assumes "backend_laws X"
    and "\<And>h. has_row h (bs_rows s') \<longleftrightarrow> h = hash_str X (hash_of X d) \<or> has_row h (bs_rows s)"
    and "held X (bs_world s') = (held X (bs_world s))(data_key X (hash_of X d) \<mapsto> d)"
  shows "blob_view X s' = (blob_view X s)(hash_of X d \<mapsto> d)"
  using assms(2,3) by (auto simp: blob_view_def fun_eq_iff hash_str_inject [OF assms(1)] hash_len [OF assms(1)]
      data_key_inject [OF assms(1)])

text \<open>A write: it succeeds and the data is visible, or it fails and no blob is lost.\<close>

lemma store_put_effect:
  assumes "backend_laws X" and "store_ok X s" and "store_put X d s = (r, s')"
  shows "store_ok X s' \<and>
    (case r of
       Inr h \<Rightarrow> h = hash_of X d \<and> blob_view X s' = (blob_view X s)(h \<mapsto> d)
     | Inl e \<Rightarrow> bs_rows s' = bs_rows s \<and>
         (held X (bs_world s') = (held X (bs_world s))(data_key X (hash_of X d) \<mapsto> d) \<or>
          held X (bs_world s') = held X (bs_world s)))"
proof -
  let ?h = "hash_str X (hash_of X d)"
  obtain r1 s1 where p: "put_data X ?h d s = (r1, s1)"
    by (rule prod.exhaust)
  note p' = put_data_effect [OF assms(1,2) p]
  obtain r2 s2 where i: "insert_blob X ?h (int (length d)) (OUTBOARD_THRESHOLD < length d) s1 = (r2, s2)"
    by (rule prod.exhaust)
  have i': "store_ok X s2 \<and> held X (bs_world s2) = held X (bs_world s1) \<and>
     (if isl r2 then bs_rows s2 = bs_rows s1
      else \<forall>h. has_row h (bs_rows s2) \<longleftrightarrow> h = ?h \<or> has_row h (bs_rows s1))"
    using p' by (intro insert_blob_effect [OF assms(1) _ refl i]) simp
  show ?thesis
  proof (cases r1)
    case (Inl e)
    then show ?thesis
      using assms(3) p p' by (auto simp: store_put_def Let_def bindS_def)
  next
    case (Inr u)
    then have r: "(r, s') = (case r2 of Inl e \<Rightarrow> (Inl e, s2) | Inr _ \<Rightarrow> (Inr (hash_of X d), s2))"
      using assms(3) p i by (simp add: store_put_def Let_def bindS_def liftR_def split: sum.splits)
    show ?thesis
      using r p' i' Inr blob_view_put [OF assms(1), of s2 d s] by (cases r2) simp_all
  qed
qed

lemma blob_view_overwrite:
  assumes "backend_laws X" and "bs_rows s' = bs_rows s"
    and "held X (bs_world s') = (held X (bs_world s))(data_key X (hash_of X d) \<mapsto> d)"
  shows "blob_view X s' = blob_view X s \<or> blob_view X s' = (blob_view X s)(hash_of X d \<mapsto> d)"
proof (cases "has_row (hash_str X (hash_of X d)) (bs_rows s)")
  case True
  then have "blob_view X s' = (blob_view X s)(hash_of X d \<mapsto> d)"
    using assms(2,3) by (intro blob_view_put [OF assms(1)]) auto
  then show ?thesis ..
next
  case False
  then have "blob_view X s' = blob_view X s"
    using assms(2,3) by (auto simp: blob_view_def fun_eq_iff data_key_inject [OF assms(1)] hash_len [OF assms(1)])
  then show ?thesis ..
qed

lemma store_get_effect:
  assumes "backend_laws X" and "length h = 32" and "store_get X h s = (r, s')"
  shows "bs_rows s' = bs_rows s \<and> held X (bs_world s') = held X (bs_world s) \<and>
    (\<forall>x. r = Inr x \<longrightarrow> x = blob_view X s h)"
proof -
  obtain q s1 where q: "has_blob X (hash_str X h) s = (q, s1)"
    by (rule prod.exhaust)
  have s1: "bs_rows s1 = bs_rows s \<and> held X (bs_world s1) = held X (bs_world s) \<and>
      (\<forall>b. q = Inr b \<longrightarrow> b = has_row (hash_str X h) (bs_rows s))"
    by (cases rule: query_cases [OF assms(1) q [unfolded has_blob_def]]) auto
  show ?thesis
  proof (cases "q = Inr True")
    case True
    then have "get_data X (hash_str X h) s1 = (r, s')"
      using assms(3) q by (simp add: store_get_def bindS_def)
    from get_data_effect [OF assms(1,2) this] show ?thesis
      using s1 True assms(2) by (auto simp: blob_view_def)
  next
    case False
    then show ?thesis
      using assms(3) q s1 by (cases q) (auto simp: store_get_def bindS_def liftR_def blob_view_def)
  qed
qed

text \<open>The steps of a deletion after the row was found.\<close>

lemma delete_blob_effect:
  assumes "backend_laws X" and "delete_blob X t s = (r, s')"
  shows "held X (bs_world s') = held X (bs_world s) \<and>
    (if isl r then bs_rows s' = bs_rows s else bs_rows s' = filter (\<lambda>r. br_hash r \<noteq> t) (bs_rows s))"
  by (cases rule: query_cases [OF assms(1) assms(2) [unfolded delete_blob_def]]) auto

lemma has_row_filter: "has_row h (filter (\<lambda>r. br_hash r \<noteq> t) rows) \<longleftrightarrow> h \<noteq> t \<and> has_row h rows"
  by (auto simp: has_row_def)

text \<open>What the steps of a deletion of \<open>h\<close> may change: the row of \<open>h\<close> and the object of \<open>h\<close>.\<close>

definition only_removes :: "('w, 'z) backend_ext_scheme \<Rightarrow> hash \<Rightarrow> 'w blob_store \<Rightarrow> 'w blob_store \<Rightarrow> bool" where
  "only_removes X h s s' \<longleftrightarrow>
     (bs_rows s' = bs_rows s \<or> bs_rows s' = filter (\<lambda>r. br_hash r \<noteq> hash_str X h) (bs_rows s)) \<and>
     (\<forall>h'. length h' = 32 \<longrightarrow> held X (bs_world s') (data_key X h') = held X (bs_world s) (data_key X h') \<or>
        h' = h \<and> held X (bs_world s') (data_key X h') = None)"

lemma only_removes_trans:
  "only_removes X h s s1 \<Longrightarrow> only_removes X h s1 s2 \<Longrightarrow> only_removes X h s s2"
  unfolding only_removes_def by (intro conjI allI impI; elim conjE) (fastforce, metis)

lemma only_removes_ok: "only_removes X h s s' \<Longrightarrow> store_ok X s \<Longrightarrow> store_ok X s'"
  by (fastforce simp: only_removes_def store_ok_def addressed_def distinct_map_filter)

lemma only_removes_view:
  assumes "backend_laws X" and "length h = 32" and "only_removes X h s s'" and "h' \<noteq> h"
  shows "blob_view X s' h' = blob_view X s h'"
  using assms by (auto simp: only_removes_def blob_view_def has_row_filter hash_str_inject [OF assms(1)])

lemma only_removes_delete_data:
  assumes "backend_laws X" and "length h = 32" and "delete_data X (hash_str X h) s = (r, s')"
  shows "only_removes X h s s'"
  using delete_object_effect [OF assms(1) assms(3) [unfolded delete_data_def]]
  by (auto simp: only_removes_def data_path_hash [OF assms(1,2)] data_key_inject [OF assms(1)] assms(2) split: if_splits)

lemma only_removes_delete_outboard:
  assumes "backend_laws X" and "length h = 32" and "delete_outboard X (hash_str X h) s = (r, s')"
  shows "only_removes X h s s'"
  using delete_object_effect [OF assms(1) assms(3) [unfolded delete_outboard_def]]
    outboard_path_hash [OF assms(1,2), THEN not_sym] by (auto simp: only_removes_def)

lemma only_removes_delete_blob:
  "backend_laws X \<Longrightarrow> delete_blob X (hash_str X h) s = (r, s') \<Longrightarrow> only_removes X h s s'"
  using delete_blob_effect [of X "hash_str X h" s r s'] by (auto simp: only_removes_def split: if_splits)

lemma get_blob_effect:
  assumes "backend_laws X" and "get_blob X t s = (r, s')"
  shows "bs_rows s' = bs_rows s \<and> held X (bs_world s') = held X (bs_world s) \<and>
    (\<forall>m. r = Inr m \<longrightarrow> (m = None) = (\<forall>r \<in> set (bs_rows s). br_hash r \<noteq> t))"
  by (cases rule: query_cases [OF assms(1) assms(2) [unfolded get_blob_def]])
    (auto simp: find_None_iff)

lemma only_removes_same:
  "bs_rows s' = bs_rows s \<Longrightarrow> held X (bs_world s') = held X (bs_world s) \<Longrightarrow> only_removes X h s s'"
  by (simp add: only_removes_def)

lemma store_delete_effect:
  assumes X: "backend_laws X" and "length h = 32" and "store_delete X h s = (r, s')"
  shows "only_removes X h s s' \<and> (\<not> isl r \<longrightarrow> \<not> has_row (hash_str X h) (bs_rows s'))"
proof -
  let ?t = "hash_str X h"
  obtain q s1 where q: "get_blob X ?t s = (q, s1)" by (rule prod.exhaust)
  note s1 = get_blob_effect [OF X q]
  have k1: "only_removes X h s s1" using s1 by (intro only_removes_same) auto
  show ?thesis
  proof (cases "\<exists>m. q = Inr (Some m)")
    case False
    then have "s' = s1 \<and> (\<not> isl r \<longrightarrow> q = Inr None)"
      using assms(3) q by (auto simp: store_delete_def bindS_def liftR_def split: sum.splits option.splits)
    then show ?thesis using k1 s1 by (auto simp: has_row_def)
  next
    case True
    then obtain m where m: "q = Inr (Some m)" by blast
    let ?out = "if bm_has_outboard m then delete_outboard X ?t else liftR (Inr ())"
    obtain r2 s2 where d: "delete_data X ?t s1 = (r2, s2)" by (rule prod.exhaust)
    obtain r3 s3 where o: "?out s2 = (r3, s3)" by (rule prod.exhaust)
    obtain r4 s4 where b: "delete_blob X ?t s3 = (r4, s4)" by (rule prod.exhaust)
    have k2: "only_removes X h s s2"
      by (rule only_removes_trans [OF k1 only_removes_delete_data [OF X assms(2) d]])
    have "only_removes X h s2 s3"
      using o only_removes_delete_outboard [OF X assms(2)] only_removes_same [of s2 s2 X h]
      by (auto simp: liftR_def split: if_splits)
    note k3 = only_removes_trans [OF k2 this]
    note k4 = only_removes_trans [OF k3 only_removes_delete_blob [OF X b]]
    have "(r, s') = (case r2 of Inl e \<Rightarrow> (Inl e, s2) | Inr _ \<Rightarrow> case r3 of Inl e \<Rightarrow> (Inl e, s3)
        | Inr _ \<Rightarrow> case r4 of Inl e \<Rightarrow> (Inl e, s4) | Inr _ \<Rightarrow> (Inr True, s4))"
      using assms(3) q m d o b
      by (cases r2; cases r3; cases r4) (auto simp: store_delete_def bindS_def liftR_def)
    then show ?thesis
      using k2 k3 k4 delete_blob_effect [OF X b]
      by (cases r2; cases r3; cases r4) (simp_all add: has_row_filter)
  qed
qed

interpretation obj: content_store backend_laws hash_of store_ok blob_view store_put store_get store_delete
proof (unfold_locales, goal_cases)
  case (1 X s d r s')
  then show ?case
    using store_put_effect by blast
next
  case (2 X s h q s')
  then show ?case
    using store_get_effect store_ok_held by blast
next
  case (3 X s h q s')
  then show ?case
    using store_delete_effect only_removes_ok by blast
next
  case (4 X s h d)
  then show ?case
    by (auto simp: blob_view_def store_ok_def addressed_def split: if_splits)
next
  case (5 X s d h s')
  then show ?case
    using store_put_effect by fastforce
next
  case (6 X s d e s')
  then show ?case
    using store_put_effect [OF 6] blob_view_overwrite [of X s' s d] blob_view_same [of s' s X] by auto
next
  case (7 X s h q s')
  then show ?case
    using store_get_effect [OF 7(1,3,4)] by (intro blob_view_same) auto
next
  case (8 X s h x s')
  then show ?case
    using store_get_effect by blast
next
  case (9 X s h b s')
  then show ?case
    using store_delete_effect [OF 9(1,3,4)] only_removes_view [OF 9(1,3)]
    by (auto simp: fun_eq_iff blob_view_def [of X s' h])
next
  case (10 X s h q' s' h')
  then show ?case
    using store_delete_effect only_removes_view by blast
qed

section \<open>Crash consistency and interleavings\<close>

text \<open>A blob the table lists has its data in the storage.\<close>

definition backed :: "('w, 'z) backend_ext_scheme \<Rightarrow> hash \<Rightarrow> 'w blob_store \<Rightarrow> bool" where
  "backed X h s \<longleftrightarrow> (has_row (hash_str X h) (bs_rows s) \<longrightarrow> held X (bs_world s) (data_key X h) \<noteq> None)"

text \<open>
  What an operation in flight relies on: the data of a write whose row is still to come is stored.
  No step of another operation breaks it, unless that operation deletes the same hash.
\<close>

fun assertion :: "('w, 'z) backend_ext_scheme \<Rightarrow> hash \<Rightarrow> inflight \<Rightarrow> 'w blob_store \<Rightarrow> bool" where
  "assertion X h (PutRow d) s = (hash_of X d = h \<longrightarrow> held X (bs_world s) (data_key X h) \<noteq> None)"
| "assertion X h t s = True"

fun target_of :: "inflight \<Rightarrow> hash option" where
  "target_of (DelStart h) = Some h"
| "target_of (DelData h b) = Some h"
| "target_of (DelOutboard h) = Some h"
| "target_of (DelRow h) = Some h"
| "target_of t = None"

fun hashes_of :: "inflight \<Rightarrow> hash list" where
  "hashes_of (GetStart h) = [h]"
| "hashes_of (GetData h) = [h]"
| "hashes_of (DelStart h) = [h]"
| "hashes_of (DelData h b) = [h]"
| "hashes_of (DelOutboard h) = [h]"
| "hashes_of (DelRow h) = [h]"
| "hashes_of t = []"

definition wf_op :: "inflight \<Rightarrow> bool" where
  "wf_op t \<longleftrightarrow> (\<forall>h \<in> set (hashes_of t). length h = 32)"

text \<open>Running the steps of one operation alone is the operation.\<close>

primrec finish_op :: "('w, 'z) backend_ext_scheme \<Rightarrow> nat \<Rightarrow> inflight \<Rightarrow> 'w blob_store \<Rightarrow> inflight \<times> 'w blob_store" where
  "finish_op X 0 t s = (t, s)"
| "finish_op X (Suc n) t s = (case step_op X t s of (t', s') \<Rightarrow> finish_op X n t' s')"

lemma finish_Done [simp]: "finish_op X n (Done r) s = (Done r, s)"
  by (induction n) auto

definition done_with :: "('a \<Rightarrow> outcome) \<Rightarrow> (blob_store_error + 'a) \<times> 's \<Rightarrow> inflight \<times> 's" where
  "done_with f p = (Done (map_sum id f (fst p)), snd p)"

lemmas op_defs = advance_def bindS_def liftR_def done_with_def

lemma put_steps: "finish_op X 2 (PutStart d) s = done_with OHash (store_put X d s)"
  by (simp add: numeral_2_eq_2 store_put_def Let_def op_defs split: prod.split sum.split)

lemma get_steps: "finish_op X 2 (GetStart h) s = done_with OData (store_get X h s)"
  by (simp add: numeral_2_eq_2 store_get_def op_defs split: prod.split sum.split)

lemma delete_steps: "finish_op X 4 (DelStart h) s = done_with ODeleted (store_delete X h s)"
  by (simp add: eval_nat_numeral store_delete_def op_defs split: prod.split sum.split option.split)

text \<open>What a step guarantees for a hash that the operation does not delete.\<close>

definition step_safe ::
  "('w, 'z) backend_ext_scheme \<Rightarrow> hash \<Rightarrow> 'w blob_store \<Rightarrow> inflight \<times> 'w blob_store \<Rightarrow> bool" where
  "step_safe X h s p \<longleftrightarrow> (case p of (t', s') \<Rightarrow>
     store_ok X s' \<and> backed X h s' \<and> assertion X h t' s' \<and> wf_op t' \<and> target_of t' \<noteq> Some h \<and>
     (held X (bs_world s) (data_key X h) \<noteq> None \<longrightarrow> held X (bs_world s') (data_key X h) \<noteq> None))"

lemma assertion_Done: "assertion X h (Done r) s" "wf_op (Done r)" "target_of (Done r) \<noteq> Some h"
  by (simp_all add: wf_op_def)

lemma step_safe_put:
  assumes "backend_laws X" and "store_ok X s" and "backed X h s" and "length h = 32"
  shows "step_safe X h s (step_op X (PutStart d) s)"
proof -
  obtain r s' where p: "put_data X (hash_str X (hash_of X d)) d s = (r, s')"
    by (rule prod.exhaust)
  show ?thesis
    using put_data_effect [OF assms(1,2) p] assms(3) p
    by (cases r) (auto simp: step_safe_def advance_def backed_def wf_op_def)
qed

lemma step_safe_row:
  assumes "backend_laws X" and "store_ok X s" and "backed X h s" and "length h = 32"
    and "assertion X h (PutRow d) s"
  shows "step_safe X h s (step_op X (PutRow d) s)"
proof -
  obtain r s' where p: "insert_blob X (hash_str X (hash_of X d)) (int (length d))
      (OUTBOARD_THRESHOLD < length d) s = (r, s')"
    by (rule prod.exhaust)
  show ?thesis
    using insert_blob_effect [OF assms(1,2) refl p] assms(3-5) p
    by (cases r) (auto simp: step_safe_def advance_def backed_def wf_op_def hash_str_inject [OF assms(1)]
        hash_len [OF assms(1)])
qed

lemma step_safe_read:
  assumes "backend_laws X" and "store_ok X s" and "backed X h s"
    and "bs_rows s' = bs_rows s \<and> held X (bs_world s') = held X (bs_world s)"
    and "assertion X h t' s'" and "wf_op t'" and "target_of t' \<noteq> Some h"
  shows "step_safe X h s (t', s')"
  using assms by (auto simp: step_safe_def backed_def intro: store_ok_held)

lemma step_safe_removal:
  assumes "backend_laws X" and "store_ok X s" and "backed X h s" and "length h = 32"
    and "only_removes X h' s s'" and "length h' = 32" and "h' \<noteq> h"
    and "assertion X h t' s'" and "wf_op t'" and "target_of t' \<noteq> Some h"
  shows "step_safe X h s (t', s')"
  using assms only_removes_ok [OF assms(5,2)]
  by (auto simp: step_safe_def backed_def only_removes_def has_row_filter)

lemma step_op_safe:
  assumes X: "backend_laws X" and "store_ok X s" and "backed X h s" and "length h = 32"
    and "assertion X h t s" and "wf_op t" and "target_of t \<noteq> Some h"
  shows "step_safe X h s (step_op X t s)"
proof (cases t)
  case (PutStart d)
  then show ?thesis using step_safe_put [OF assms(1-4)] by simp
next
  case (PutRow d)
  then show ?thesis using step_safe_row [OF assms(1-4)] assms(5) by simp
next
  case (GetStart h')
  obtain r s' where p: "has_blob X (hash_str X h') s = (r, s')" by (rule prod.exhaust)
  have "bs_rows s' = bs_rows s \<and> held X (bs_world s') = held X (bs_world s)"
    by (cases rule: query_cases [OF X p [unfolded has_blob_def]]) auto
  then show ?thesis
    using GetStart p assms(6) by (cases r) (auto simp: advance_def wf_op_def intro!: step_safe_read [OF assms(1-3)])
next
  case (GetData h')
  obtain r s' where p: "get_data X (hash_str X h') s = (r, s')" by (rule prod.exhaust)
  show ?thesis
    using GetData p assms(6) get_data_effect [OF X _ p]
    by (cases r) (auto simp: advance_def wf_op_def intro!: step_safe_read [OF assms(1-3)])
next
  case (DelStart h')
  obtain r s' where p: "get_blob X (hash_str X h') s = (r, s')" by (rule prod.exhaust)
  show ?thesis
    using DelStart p assms(6,7) get_blob_effect [OF X p]
    by (cases r) (auto simp: advance_def wf_op_def split: option.split intro!: step_safe_read [OF assms(1-3)])
next
  case (DelData h' b)
  obtain r s' where p: "delete_data X (hash_str X h') s = (r, s')" by (rule prod.exhaust)
  show ?thesis
    using DelData p assms(6,7) only_removes_delete_data [OF X _ p]
    by (cases r) (auto simp: advance_def wf_op_def intro!: step_safe_removal [OF assms(1-4)])
next
  case (DelOutboard h')
  obtain r s' where p: "delete_outboard X (hash_str X h') s = (r, s')" by (rule prod.exhaust)
  show ?thesis
    using DelOutboard p assms(6,7) only_removes_delete_outboard [OF X _ p]
    by (cases r) (auto simp: advance_def wf_op_def intro!: step_safe_removal [OF assms(1-4)])
next
  case (DelRow h')
  obtain r s' where p: "delete_blob X (hash_str X h') s = (r, s')" by (rule prod.exhaust)
  show ?thesis
    using DelRow p assms(6,7) only_removes_delete_blob [OF X p]
    by (cases r) (auto simp: advance_def wf_op_def intro!: step_safe_removal [OF assms(1-4)])
next
  case (Done r)
  then show ?thesis by (auto simp: wf_op_def intro!: step_safe_read [OF assms(1-3)])
qed

lemma assertion_stable:
  assumes "assertion X h t s"
    and "held X (bs_world s) (data_key X h) \<noteq> None \<longrightarrow> held X (bs_world s') (data_key X h) \<noteq> None"
  shows "assertion X h t s'"
  using assms by (cases t) auto

lemma interleave_safe:
  assumes "backend_laws X" and "length h = 32" and "store_ok X s" and "backed X h s"
    and "\<forall>t \<in> set ts. assertion X h t s \<and> wf_op t \<and> target_of t \<noteq> Some h"
    and "interleave X sched ts s = (ts', s')"
  shows "store_ok X s' \<and> backed X h s'"
  using assms(3-)
proof (induction sched arbitrary: ts s)
  case (Cons i sched)
  show ?case
  proof (cases "i < length ts")
    case True
    obtain t' s1 where t': "step_op X (ts ! i) s = (t', s1)" by (rule prod.exhaust)
    have "step_safe X h s (t', s1)"
      using True Cons.prems(3) step_op_safe [OF assms(1) Cons.prems(1,2) assms(2), of "ts ! i"] t' by simp
    moreover from this have "\<forall>t \<in> set (ts[i := t']). assertion X h t s1 \<and> wf_op t \<and> target_of t \<noteq> Some h"
      using Cons.prems(3) assertion_stable [of X h _ s s1] set_update_subset_insert [of ts i t']
      by (fastforce simp: step_safe_def)
    ultimately show ?thesis
      using Cons.IH [of s1 "ts[i := t']"] Cons.prems(4) True t' by (simp add: step_safe_def)
  next
    case False
    then show ?thesis using Cons by simp
  qed
qed simp

section \<open>Refinement of a finite map\<close>

text \<open>
  The abstract store is a map from hashes to data. Requests are answered from the map, and
  \<open>blob_view\<close> is the abstraction.
\<close>

fun apply_op :: "(bytes \<Rightarrow> hash) \<Rightarrow> store_op \<Rightarrow> (hash \<Rightarrow> bytes option) \<Rightarrow> outcome \<times> (hash \<Rightarrow> bytes option)" where
  "apply_op hf (OpPut d) m = (OHash (hf d), m(hf d \<mapsto> d))"
| "apply_op hf (OpGet h) m = (OData (m h), m)"
| "apply_op hf (OpDelete h) m = (ODeleted (m h \<noteq> None), m(h := None))"

primrec apply_ops :: "(bytes \<Rightarrow> hash) \<Rightarrow> store_op list \<Rightarrow> (hash \<Rightarrow> bytes option) \<Rightarrow> outcome list \<times> (hash \<Rightarrow> bytes option)" where
  "apply_ops hf [] m = ([], m)"
| "apply_ops hf (op # ops) m =
     (case apply_op hf op m of (r, m1) \<Rightarrow> case apply_ops hf ops m1 of (rs, m2) \<Rightarrow> (r # rs, m2))"

fun exec_op ::
  "('w, 'z) backend_ext_scheme \<Rightarrow> store_op \<Rightarrow> 'w blob_store \<Rightarrow> (blob_store_error + outcome) \<times> 'w blob_store" where
  "exec_op X (OpPut d) s = map_prod (map_sum id OHash) id (store_put X d s)"
| "exec_op X (OpGet h) s = map_prod (map_sum id OData) id (store_get X h s)"
| "exec_op X (OpDelete h) s = map_prod (map_sum id ODeleted) id (store_delete X h s)"

primrec exec_ops ::
  "('w, 'z) backend_ext_scheme \<Rightarrow> store_op list \<Rightarrow> 'w blob_store \<Rightarrow>
     (blob_store_error + outcome) list \<times> 'w blob_store" where
  "exec_ops X [] s = ([], s)"
| "exec_ops X (op # ops) s =
     (case exec_op X op s of (r, s1) \<Rightarrow> case exec_ops X ops s1 of (rs, s2) \<Rightarrow> (r # rs, s2))"

definition all_backed :: "('w, 'z) backend_ext_scheme \<Rightarrow> 'w blob_store \<Rightarrow> bool" where
  "all_backed X s \<longleftrightarrow> (\<forall>h. length h = 32 \<longrightarrow> backed X h s)"

lemma exec_ops_steps: "snd (exec_ops X ops s) = obj.steps X ops s"
proof (induction ops arbitrary: s)
  case (Cons op ops)
  have "snd (exec_op X op s) = obj.step1 X op s"
    by (cases op) (simp_all add: obj.step1_def)
  then show ?case
    using Cons [of "snd (exec_op X op s)"] by (simp add: split_beta)
qed simp

lemma backed_view: "length h = 32 \<Longrightarrow> backed X h s \<Longrightarrow> has_row (hash_str X h) (bs_rows s) \<longleftrightarrow> blob_view X s h \<noteq> None"
  by (auto simp: backed_def blob_view_def)

lemma rows_complete:
  "store_ok X s \<Longrightarrow> has_row t (bs_rows s) \<longleftrightarrow> (\<exists>r \<in> set (bs_rows s). br_hash r = t)"
  by (fastforce simp: store_ok_def has_row_def row_matches_def)

text \<open>The answer of a deletion tells whether the blob was listed.\<close>

lemma store_delete_answer:
  assumes "backend_laws X" and "store_ok X s" and "store_delete X h s = (Inr b, s')"
  shows "b = has_row (hash_str X h) (bs_rows s)"
proof -
  obtain q s1 where q: "get_blob X (hash_str X h) s = (q, s1)" by (rule prod.exhaust)
  show ?thesis
    using assms(3) q get_blob_effect [OF assms(1) q] rows_complete [OF assms(2)]
    by (fastforce simp: store_delete_def bindS_def liftR_def split: sum.splits prod.splits option.splits)
qed

lemma finish_safe:
  assumes "backend_laws X" and "length h = 32"
  shows "store_ok X s \<Longrightarrow> backed X h s \<Longrightarrow> assertion X h t s \<Longrightarrow> wf_op t \<Longrightarrow> target_of t \<noteq> Some h \<Longrightarrow>
    backed X h (snd (finish_op X n t s))"
proof (induction n arbitrary: t s)
  case (Suc n)
  obtain t' s1 where t': "step_op X t s = (t', s1)" by (rule prod.exhaust)
  then have "step_safe X h s (t', s1)"
    using step_op_safe [OF assms(1) Suc.prems(1,2) assms(2) Suc.prems(3-5)] by simp
  then show ?case
    using Suc.IH t' by (simp add: step_safe_def)
qed simp

text \<open>A write keeps every listed blob backed by its data, also when it fails half way.\<close>

lemma store_put_backed:
  assumes "backend_laws X" and "store_ok X s" and "all_backed X s" and "store_put X d s = (r, s')"
  shows "all_backed X s'"
proof -
  have "snd (finish_op X 2 (PutStart d) s) = s'"
    using assms(4) by (simp add: put_steps done_with_def)
  then show ?thesis
    using assms(2,3) finish_safe [OF assms(1), of _ s "PutStart d" 2]
    by (auto simp: all_backed_def wf_op_def)
qed

lemma store_delete_backed:
  assumes "backend_laws X" and "length h = 32" and "all_backed X s" and "store_delete X h s = (Inr b, s')"
  shows "all_backed X s'"
proof -
  have eff: "only_removes X h s s'" "\<not> has_row (hash_str X h) (bs_rows s')"
    using store_delete_effect [OF assms(1,2,4)] by auto
  have "backed X h' s'" if "length h' = 32" for h'
    using eff assms(3) that by (cases "h' = h") (auto simp: all_backed_def backed_def only_removes_def has_row_filter)
  then show ?thesis
    by (simp add: all_backed_def)
qed

lemma exec_op_refines:
  assumes "backend_laws X" and "store_ok X s" and "all_backed X s" and "op_valid op"
    and "exec_op X op s = (Inr r, s')"
  shows "store_ok X s' \<and> all_backed X s' \<and> apply_op (hash_of X) op (blob_view X s) = (r, blob_view X s')"
proof (cases op)
  case (OpPut d)
  obtain q s1 where q: "store_put X d s = (q, s1)" by (rule prod.exhaust)
  then obtain h where h: "q = Inr h" "s1 = s'" "r = OHash h"
    using assms(5) OpPut by (cases q) auto
  note p = q [unfolded h]
  show ?thesis
    using OpPut h store_put_backed [OF assms(1-3) p] obj.put_ok [OF assms(1,2) p] obj.put_inv [OF assms(1,2) p] by simp
next
  case (OpGet h)
  obtain q s1 where q: "store_get X h s = (q, s1)" by (rule prod.exhaust)
  then obtain x where x: "q = Inr x" "s1 = s'" "r = OData x"
    using assms(5) OpGet by (cases q) auto
  have l: "length h = 32" using assms(4) OpGet by simp
  note g = q [unfolded x]
  have "all_backed X s'"
    using store_get_effect [OF assms(1) l g] assms(3) by (simp add: all_backed_def backed_def)
  then show ?thesis
    using OpGet x obj.get_ok [OF assms(1,2) l g] obj.get_view [OF assms(1,2) l g] obj.get_inv [OF assms(1,2) l g]
    by simp
next
  case (OpDelete h)
  obtain q s1 where q: "store_delete X h s = (q, s1)" by (rule prod.exhaust)
  then obtain b where b: "q = Inr b" "s1 = s'" "r = ODeleted b"
    using assms(5) OpDelete by (cases q) auto
  have l: "length h = 32" using assms(4) OpDelete by simp
  note d = q [unfolded b]
  have "b = (blob_view X s h \<noteq> None)"
    using store_delete_answer [OF assms(1,2) d] backed_view [OF l, of X s] assms(3) l by (simp add: all_backed_def)
  then show ?thesis
    using OpDelete b store_delete_backed [OF assms(1) l assms(3) d] obj.del_true [OF assms(1,2) l d]
      obj.del_inv [OF assms(1,2) l d] by simp
qed

text \<open>
  C10: a store whose requests succeed is a map from hashes to data: whatever sequence of writes, reads and deletions
  runs, the answers and the blobs visible at the end are those of the same sequence on the map.
\<close>

theorem store_refines_map:
  assumes "backend_laws X" and "store_ok X s" and "all_backed X s" and "\<forall>op \<in> set ops. op_valid op"
    and "exec_ops X ops s = (map Inr rs, s')"
  shows "apply_ops (hash_of X) ops (blob_view X s) = (rs, blob_view X s')"
  using assms(2-)
proof (induction ops arbitrary: s rs)
  case (Cons op ops)
  obtain r s1 where r: "exec_op X op s = (r, s1)" by (rule prod.exhaust)
  obtain q s2 where q: "exec_ops X ops s1 = (q, s2)" by (rule prod.exhaust)
  obtain r' rs' where rs: "rs = r' # rs'" "r = Inr r'" "q = map Inr rs'" "s2 = s'"
    using Cons.prems(4) r q by auto
  have s1: "store_ok X s1 \<and> all_backed X s1 \<and> apply_op (hash_of X) op (blob_view X s) = (r', blob_view X s1)"
    using Cons.prems(1-3) r rs by (intro exec_op_refines [OF assms(1)]) auto
  then have "apply_ops (hash_of X) ops (blob_view X s1) = (rs', blob_view X s')"
    using Cons.prems(3) q rs by (intro Cons.IH) auto
  then show ?case
    using s1 rs by simp
qed simp

text \<open>
  Stored data reads back: after a successful write, and any requests that neither delete the blob
  nor write other data of the same hash, a read returns the data or an error, never another answer.
\<close>

theorem stored_data_reads_back:
  assumes "backend_laws X" and "store_ok X s" and "store_put X d s = (Inr h, s1)"
    and "\<forall>op \<in> set ops. op_valid op \<and> op \<noteq> OpDelete h \<and> (\<forall>d'. op = OpPut d' \<and> hash_of X d' = h \<longrightarrow> d' = d)"
    and "store_get X h (snd (exec_ops X ops s1)) = (r, s2)"
  shows "r = Inr (Some d) \<or> isl r"
  using obj.put_steps_get [OF assms(1,2) hash_len [OF assms(1)] assms(3,4), of r s2] assms(5)
  by (simp add: exec_ops_steps)

text \<open>
  C15: writes, reads and deletions of other blobs may interleave request by request, and may fail at any request: a
  blob that no operation in flight deletes stays backed by its data whenever the table lists it.
\<close>

theorem interleaved_requests_backed:
  assumes "backend_laws X" and "length h = 32" and "store_ok X s" and "backed X h s"
    and "\<forall>t \<in> set ts. wf_op t \<and> target_of t \<noteq> Some h \<and> (\<forall>d. t \<noteq> PutRow d)"
    and "interleave X sched ts s = (ts', s')"
  shows "store_ok X s' \<and> backed X h s'"
proof -
  have "assertion X h t s" if "t \<in> set ts" for t
    by (cases t) (use that assms(5) in auto)
  then show ?thesis
    using assms(5) by (intro interleave_safe [OF assms(1-4) _ assms(6)]) blast
qed

text \<open>A listing names exactly the blobs of the table, each once; with every blob backed, exactly the visible ones.\<close>

lemma store_list_complete:
  assumes "backend_laws X" and "store_ok X s" and "store_list X s = (Inr hs, s')"
  shows "distinct hs \<and> (\<forall>h. length h = 32 \<longrightarrow> (h \<in> set hs \<longleftrightarrow> has_row (hash_str X h) (bs_rows s)))"
proof -
  let ?key = "\<lambda>r. - br_created_at r" and ?P = "\<lambda>r. br_state r = blob_state_as_str Complete"
  obtain q s1 where q: "list_blobs X s = (q, s1)" by (rule prod.exhaust)
  then obtain strs where strs: "q = Inr strs" "hs = List.map_filter (hash_parse X) strs"
    using assms(3) by (cases q) (auto simp: store_list_def bindS_def liftR_def)
  have s: "strs = map br_hash (sort_key ?key (filter ?P (bs_rows s)))"
    by (cases rule: query_cases [OF assms(1) q [unfolded list_blobs_def]]) (auto simp: strs)
  have "\<exists>h. length h = 32 \<and> t = hash_str X h" if "t \<in> set strs" for t
    using that s assms(2) hash_len [OF assms(1)] by (auto simp: store_ok_def row_matches_def) blast
  then obtain f where f: "\<And>t. t \<in> set strs \<Longrightarrow> length (f t) = 32 \<and> t = hash_str X (f t)"
    by metis
  have hs: "hs = map f strs"
  proof -
    have "hash_parse X t = Some (f t)" if "t \<in> set strs" for t
      using f [OF that] backend_laws_parts(6) [OF assms(1)] by metis
    then show ?thesis
      unfolding strs(2) by (induction strs) (simp_all add: List.map_filter_simps)
  qed
  have "distinct strs"
    using s assms(2) by (simp add: store_ok_def distinct_map inj_on_def)
  then have "distinct hs"
    unfolding hs distinct_map using f by (metis inj_onI)
  moreover have "h \<in> set hs \<longleftrightarrow> has_row (hash_str X h) (bs_rows s)" if "length h = 32" for h
  proof -
    have "h \<in> set hs \<longleftrightarrow> hash_str X h \<in> set strs"
    proof
      assume "h \<in> set hs"
      then obtain t where "t \<in> set strs" "h = f t"
        by (auto simp: hs)
      then show "hash_str X h \<in> set strs"
        using f [of t] by simp
    next
      assume t: "hash_str X h \<in> set strs"
      then have "f (hash_str X h) = h"
        using f [OF t] hash_str_inject [OF assms(1) that, of "f (hash_str X h)"] by simp
      then show "h \<in> set hs"
        using imageI [OF t, of f] by (simp add: hs)
    qed
    then show ?thesis
      by (force simp: s has_row_def image_iff)
  qed
  ultimately show ?thesis by blast
qed

section \<open>A sample backend\<close>

text \<open>
  Objects in an association list, a plan of which requests fail, hashes that are the padded first
  bytes of the data, written as characters. The laws hold of it, and runs can be evaluated.
\<close>

type_synonym sample_backend_world = "(string \<times> bytes) list \<times> bool list"

fun next_fault :: "sample_backend_world \<Rightarrow> bool \<times> sample_backend_world" where
  "next_fault (objs, []) = (False, (objs, []))"
| "next_fault (objs, f # fs) = (f, (objs, fs))"

definition sample_backend :: "sample_backend_world backend_ext" where
  "sample_backend = \<lparr>
     os_put = (\<lambda>p d w. case next_fault w of (f, (objs, fs)) \<Rightarrow>
       if f then (Inl (OsOther ''io''), (objs, fs)) else (Inr (), (AList.update p d objs, fs))),
     os_get = (\<lambda>p w. case next_fault w of (f, (objs, fs)) \<Rightarrow>
       if f then (Inl (OsOther ''io''), (objs, fs))
       else (case map_of objs p of None \<Rightarrow> (Inl (OsNotFound p), (objs, fs)) | Some b \<Rightarrow> (Inr (Inr b), (objs, fs)))),
     os_delete = (\<lambda>p w. case next_fault w of (f, (objs, fs)) \<Rightarrow>
       if f then (Inl (OsOther ''io''), (objs, fs)) else (Inr (), (AList.delete p objs, fs))),
     object_path = id,
     db_query = (\<lambda>w. case next_fault w of (f, w') \<Rightarrow> ((if f then Some ''busy'' else None), w')),
     utc_now = (\<lambda>w. 0),
     hash_of = (\<lambda>d. take 32 (d @ replicate 32 0)),
     hash_str = map (\<lambda>x. char_of (unat x)),
     hash_parse = (\<lambda>s. Some (map (\<lambda>c. of_nat (of_char c)) s)),
     held = (\<lambda>w. map_of (fst w))\<rparr>"

lemma next_fault_objs: "next_fault w = (f, w') \<Longrightarrow> fst w' = fst w"
  by (cases w rule: next_fault.cases) auto

lemma sample_backend_laws: "backend_laws sample_backend"
proof -
  have str: "map ((\<lambda>c. of_nat (of_char c)) \<circ> (\<lambda>x. char_of (unat x))) h = (h :: bytes)" for h
  proof (rule map_idI)
    fix x :: byte
    have "unat x mod 256 = unat x"
      using unsigned_less [of x] by simp
    then show "((\<lambda>c. of_nat (of_char c)) \<circ> (\<lambda>x. char_of (unat x))) x = x"
      by simp
  qed
  show ?thesis
    unfolding backend_laws_def
    by (auto simp: sample_backend_def str update_conv' delete_conv' split: prod.splits if_splits option.splits
        dest!: next_fault_objs)
qed

definition empty_store :: "bool list \<Rightarrow> sample_backend_world blob_store" where
  "empty_store faults = \<lparr>bs_rows = [], bs_world = ([], faults)\<rparr>"

lemma empty_store_ok: "store_ok sample_backend (empty_store faults)" "all_backed sample_backend (empty_store faults)"
  by (simp_all add: empty_store_def store_ok_def addressed_def all_backed_def backed_def has_row_def sample_backend_def)

lemmas store_run_defs = store_put_def store_get_def store_delete_def put_data_def get_data_def delete_data_def
  delete_outboard_def delete_object_def insert_blob_def get_blob_def has_blob_def delete_blob_def query_def
  bindS_def bindR_def liftR_def map_err_def Let_def upsert_row_def has_row_def metadata_of_def data_path_def outboard_path_def
  OUTBOARD_THRESHOLD_def empty_store_def sample_backend_def advance_def

theorem store_refines_map_witness:
  "apply_ops (hash_of sample_backend) [OpPut [7], OpGet (7 # replicate 31 0), OpDelete (7 # replicate 31 0)] Map.empty =
     ([OHash (7 # replicate 31 0), OData (Some [7]), ODeleted True], Map.empty)"
proof -
  let ?ops = "[OpPut [7], OpGet (7 # replicate 31 0), OpDelete (7 # replicate 31 0)]"
  have e: "exec_ops sample_backend ?ops (empty_store []) =
     (map Inr [OHash (7 # replicate 31 0), OData (Some [7]), ODeleted True], empty_store [])"
    by (simp add: store_run_defs)
  have v: "blob_view sample_backend (empty_store []) = Map.empty"
    by (simp add: blob_view_def empty_store_def has_row_def fun_eq_iff)
  show ?thesis
    using store_refines_map [OF sample_backend_laws empty_store_ok _ e] v by simp
qed

theorem stored_data_reads_back_witness:
  "fst (store_get sample_backend (7 # replicate 31 0)
     (snd (exec_ops sample_backend [OpPut [9], OpGet (7 # replicate 31 0)]
       (snd (store_put sample_backend [7] (empty_store [])))))) = Inr (Some [7])"
proof -
  let ?h = "7 # replicate 31 0 :: hash" and ?ops = "[OpPut [9], OpGet (7 # replicate 31 0)]"
  obtain s1 where s1: "store_put sample_backend [7] (empty_store []) = (Inr ?h, s1)"
    by (simp add: store_run_defs)
  let ?r = "store_get sample_backend ?h (snd (exec_ops sample_backend ?ops s1))"
  have "hash_of sample_backend [9] \<noteq> ?h"
    by (simp add: sample_backend_def)
  then have "fst ?r = Inr (Some [7]) \<or> isl (fst ?r)"
    using stored_data_reads_back [OF sample_backend_laws empty_store_ok(1) s1, of ?ops "fst ?r" "snd ?r"] by simp
  moreover have "\<not> isl (fst (store_get sample_backend ?h (snd (exec_ops sample_backend ?ops
      (snd (store_put sample_backend [7] (empty_store [])))))))"
    by (simp add: store_run_defs)
  ultimately show ?thesis
    using s1 by simp
qed

theorem interleaved_requests_backed_witness:
  "backed sample_backend (7 # replicate 31 0)
     (snd (interleave sample_backend [0, 1, 1, 0, 2] [PutStart [7], PutStart [9], DelStart (9 # replicate 31 0)]
       (empty_store [False, False, True])))"
  using interleaved_requests_backed [OF sample_backend_laws _ empty_store_ok(1) _ _ surjective_pairing,
      of "7 # replicate 31 0" "[False, False, True]" "[PutStart [7], PutStart [9], DelStart (9 # replicate 31 0)]"
         "[0, 1, 1, 0, 2]"] empty_store_ok(2)
  by (simp add: all_backed_def wf_op_def)

text \<open>
  A write and a deletion of the same blob interleave badly. The write stores the data, the
  deletion removes data and row, the write adds its row: it reports success, the table lists the
  blob, and a read finds nothing.
\<close>

lemma put_delete_race:
  "\<exists>s. interleave sample_backend [1, 0, 1, 1, 0] [PutStart [7], DelStart (7 # replicate 31 0)]
     (snd (store_put sample_backend [7] (empty_store []))) =
       ([Done (Inr (OHash (7 # replicate 31 0))), Done (Inr (ODeleted True))], s) \<and>
     fst (store_list sample_backend s) = Inr [7 # replicate 31 0] \<and>
     fst (store_get sample_backend (7 # replicate 31 0) s) = Inr None"
  by (simp add: store_run_defs store_list_def list_blobs_def List.map_filter_def)

text \<open>A deletion that fails at its last request leaves a listed blob without data.\<close>

lemma failed_delete_leaves_row:
  "\<exists>s. store_delete sample_backend (7 # replicate 31 0)
     (snd (store_put sample_backend [7] (empty_store [False, False, False, False, True]))) =
       (Inl (Database ''busy''), s) \<and>
     fst (store_list sample_backend s) = Inr [7 # replicate 31 0] \<and>
     fst (store_get sample_backend (7 # replicate 31 0) s) = Inr None"
  by (simp add: store_run_defs store_list_def list_blobs_def List.map_filter_def)

end
