(* ===== verification/Store_Actor.thy ===== *)
theory Store_Actor
  imports Object_Store
begin

text \<open>
  \<open>object-store/src/actor.rs\<close>: the actor that answers the commands of the iroh-blobs protocol with
  the blob store of \<open>Object_Store\<close>. It handles one command at a time; work on the store is spawned
  as tasks, whose results the loop takes in any order.

  A reply channel is a number, and the messages sent so far are the list \<open>en_out\<close>, oldest first.
  A receiver may go away: \<open>room\<close> says how many messages of a channel are taken before that. The
  streams a command carries are the lists of what they deliver. External are the outboard tree of
  the \<open>bao_tree\<close> crate, \<open>Tag::auto\<close>, the default scope, the text of errors and the files outside the
  store (\<open>'f\<close>). A task runs as one step here; the interleavings of the requests of different tasks
  are those of \<open>interleave\<close>.
\<close>

type_synonym chan = nat
type_synonym tag = string
type_synonym scope = nat

datatype blob_format = Raw | HashSeq

record hash_and_format =
  hf_hash :: hash
  hf_format :: blob_format

datatype io_kind = NotFound | InvalidInput | InvalidData | UnexpectedEof | OtherKind

datatype api_error = ApiIo io_kind string | ApiOther string

datatype blob_status = StatusNotFound | StatusComplete nat

datatype add_progress = AddSize nat | CopyDone | CopyProgress nat | AddDone hash_and_format | AddError string

record leaf =
  leaf_offset :: nat
  leaf_data :: bytes

datatype tag_info = TagInfo tag hash blob_format

datatype message =
    MStatus blob_status
  | MHash hash
  | MAdd add_progress
  | MUnit "api_error + unit"
  | MEncodedLeaf leaf
  | MEncodedError io_kind string
  | MRangeSize nat
  | MRangeData leaf
  | MRangeError api_error
  | MExportSize nat
  | MExportDone
  | MExportError api_error
  | MBitfieldComplete nat
  | MBitfieldEmpty
  | MTags "tag_info list"
  | MCount nat
  | MTag tag
  | MTempTag hash_and_format
  | MTempTags "hash_and_format list"
  | MScope scope
  | MIdle
  | MShutdown

record ('w, 'f) service_ext = "'w backend_ext" +
  room :: "chan \<Rightarrow> nat option"
  outboard_root :: "bytes \<Rightarrow> hash"
  pre_order_offset :: "u64 \<Rightarrow> u64 \<Rightarrow> u64 option"
  tag_auto :: "int \<Rightarrow> (tag \<Rightarrow> bool) \<Rightarrow> tag"
  scope_default :: scope
  error_text :: "blob_store_error \<Rightarrow> string"
  fs_open :: "string list \<Rightarrow> 'f \<Rightarrow> string + (string + bytes) list"
  fs_create_dir_all :: "string list \<Rightarrow> 'f \<Rightarrow> (string + unit) \<times> 'f"
  fs_write :: "string list \<Rightarrow> bytes \<Rightarrow> 'f \<Rightarrow> (string + unit) \<times> 'f"

text \<open>The root of the outboard tree is the Blake3 hash of the data.\<close>

definition actor_laws :: "('w, 'f, 'z) service_ext_scheme \<Rightarrow> bool" where
  "actor_laws X \<longleftrightarrow> backend_laws X \<and> (\<forall>d. outboard_root X d = hash_of X d)"

record ('w, 'f) env =
  en_store :: "'w blob_store"
  en_files :: 'f
  en_out :: "(chan \<times> message) list"

definition sent_on :: "chan \<Rightarrow> (chan \<times> message) list \<Rightarrow> message list" where
  "sent_on c out = map snd (filter (\<lambda>p. fst p = c) out)"

definition tx_send ::
  "('w, 'f, 'z) service_ext_scheme \<Rightarrow> chan \<Rightarrow> message \<Rightarrow> ('w, 'f) env \<Rightarrow> bool \<times> ('w, 'f) env" where
  "tx_send X c m e =
     (if (case room X c of None \<Rightarrow> True | Some n \<Rightarrow> length (sent_on c (en_out e)) < n)
      then (True, e\<lparr>en_out := en_out e @ [(c, m)]\<rparr>) else (False, e))"

text \<open>\<open>tx.send(m).await.ok()\<close>.\<close>

definition tx_send_ok ::
  "('w, 'f, 'z) service_ext_scheme \<Rightarrow> chan \<Rightarrow> message \<Rightarrow> ('w, 'f) env \<Rightarrow> ('w, 'f) env" where
  "tx_send_ok X c m e = snd (tx_send X c m e)"

definition on_store ::
  "('w blob_store \<Rightarrow> 'a \<times> 'w blob_store) \<Rightarrow> ('w, 'f) env \<Rightarrow> 'a \<times> ('w, 'f) env" where
  "on_store m e = (case m (en_store e) of (r, s') \<Rightarrow> (r, e\<lparr>en_store := s'\<rparr>))"

section \<open>Tasks that read\<close>

definition blob_status_task ::
  "('w, 'f, 'z) service_ext_scheme \<Rightarrow> hash \<Rightarrow> chan \<Rightarrow> ('w, 'f) env \<Rightarrow> ('w, 'f) env" where
  "blob_status_task X h tx e =
     (case on_store (store_get X h) e of
        (Inr (Some data), e') \<Rightarrow> tx_send_ok X tx (MStatus (StatusComplete (length data))) e'
      | (Inr None, e') \<Rightarrow> tx_send_ok X tx (MStatus StatusNotFound) e'
      | (Inl _, e') \<Rightarrow> tx_send_ok X tx (MStatus StatusNotFound) e')"

text \<open>Sending stops at the first message the receiver no longer takes.\<close>

fun send_hashes ::
  "('w, 'f, 'z) service_ext_scheme \<Rightarrow> hash list \<Rightarrow> chan \<Rightarrow> ('w, 'f) env \<Rightarrow> ('w, 'f) env" where
  "send_hashes X [] tx e = e"
| "send_hashes X (h # hs) tx e =
     (case tx_send X tx (MHash h) e of (True, e') \<Rightarrow> send_hashes X hs tx e' | (False, e') \<Rightarrow> e')"

definition list_blobs_task ::
  "('w, 'f, 'z) service_ext_scheme \<Rightarrow> chan \<Rightarrow> ('w, 'f) env \<Rightarrow> ('w, 'f) env" where
  "list_blobs_task X tx e =
     (case on_store (store_list X) e of (Inr hs, e') \<Rightarrow> send_hashes X hs tx e' | (Inl _, e') \<Rightarrow> e')"

definition slice :: "nat \<Rightarrow> nat \<Rightarrow> bytes \<Rightarrow> bytes" where
  "slice a b data = take (b - a) (drop a data)"

text \<open>
  The chunk loop of \<open>export_bao\<close> and \<open>export_ranges\<close>: leaves of at most 1024 bytes from \<open>offset\<close> to
  \<open>limit\<close>. The result tells whether every send was taken.
\<close>

function send_chunks ::
  "('w, 'f, 'z) service_ext_scheme \<Rightarrow> chan \<Rightarrow> (leaf \<Rightarrow> message) \<Rightarrow> bytes \<Rightarrow> nat \<Rightarrow> nat \<Rightarrow> ('w, 'f) env \<Rightarrow>
     bool \<times> ('w, 'f) env" where
  "send_chunks X tx mk data offset limit e =
     (if offset < limit then
        (let chunk_end = min (offset + 1024) limit;
             leaf = \<lparr>leaf_offset = offset, leaf_data = slice offset chunk_end data\<rparr>
         in case tx_send X tx (mk leaf) e of
              (False, e') \<Rightarrow> (False, e')
            | (True, e') \<Rightarrow> send_chunks X tx mk data chunk_end limit e')
      else (True, e))"
  by pat_completeness auto
termination
  by (relation "measure (\<lambda>(X, tx, mk, data, offset, limit, e). limit - offset)") auto

declare send_chunks.simps [simp del]

datatype range = Range nat nat | RangeFrom nat

text \<open>\<open>export_bao\<close> takes the ranges and does not use them.\<close>

definition export_bao ::
  "('w, 'f, 'z) service_ext_scheme \<Rightarrow> hash \<Rightarrow> range list \<Rightarrow> chan \<Rightarrow> ('w, 'f) env \<Rightarrow> ('w, 'f) env" where
  "export_bao X h ranges tx e =
     (case on_store (store_get X h) e of
        (Inr (Some data), e') \<Rightarrow> snd (send_chunks X tx MEncodedLeaf data 0 (length data) e')
      | (Inr None, e') \<Rightarrow> tx_send_ok X tx (MEncodedError NotFound ''hash not found'') e'
      | (Inl er, e') \<Rightarrow> tx_send_ok X tx (MEncodedError OtherKind (error_text X er)) e')"

fun send_ranges ::
  "('w, 'f, 'z) service_ext_scheme \<Rightarrow> chan \<Rightarrow> bytes \<Rightarrow> range list \<Rightarrow> ('w, 'f) env \<Rightarrow> ('w, 'f) env" where
  "send_ranges X tx data [] e = e"
| "send_ranges X tx data (r # rs) e =
     (case (case r of
              Range a b \<Rightarrow> (min a (length data), min b (length data))
            | RangeFrom a \<Rightarrow> (min a (length data), length data)) of
        (start, limit) \<Rightarrow>
          if start \<ge> limit then send_ranges X tx data rs e
          else (case send_chunks X tx MRangeData data start limit e of
                  (True, e') \<Rightarrow> send_ranges X tx data rs e'
                | (False, e') \<Rightarrow> e'))"

definition export_ranges ::
  "('w, 'f, 'z) service_ext_scheme \<Rightarrow> hash \<Rightarrow> range list \<Rightarrow> chan \<Rightarrow> ('w, 'f) env \<Rightarrow> ('w, 'f) env" where
  "export_ranges X h ranges tx e =
     (case on_store (store_get X h) e of
        (Inr (Some data), e') \<Rightarrow>
          (case tx_send X tx (MRangeSize (length data)) e' of
             (False, e'') \<Rightarrow> e''
           | (True, e'') \<Rightarrow> send_ranges X tx data ranges e'')
      | (Inr None, e') \<Rightarrow> tx_send_ok X tx (MRangeError (ApiIo NotFound ''hash not found'')) e'
      | (Inl er, e') \<Rightarrow> tx_send_ok X tx (MRangeError (ApiOther (error_text X er))) e')"

definition on_files :: "('f \<Rightarrow> 'a \<times> 'f) \<Rightarrow> ('w, 'f) env \<Rightarrow> 'a \<times> ('w, 'f) env" where
  "on_files m e = (case m (en_files e) of (r, f') \<Rightarrow> (r, e\<lparr>en_files := f'\<rparr>))"

definition export_path ::
  "('w, 'f, 'z) service_ext_scheme \<Rightarrow> hash \<Rightarrow> string list \<Rightarrow> chan \<Rightarrow> ('w, 'f) env \<Rightarrow> ('w, 'f) env" where
  "export_path X h target tx e =
     (case on_store (store_get X h) e of
        (Inr (Some data), e1) \<Rightarrow>
          (let e2 = tx_send_ok X tx (MExportSize (length data)) e1
           in case (if target \<noteq> [] then on_files (fs_create_dir_all X (butlast target)) e2 else (Inr (), e2)) of
                (Inl er, e3) \<Rightarrow> tx_send_ok X tx (MExportError (ApiIo OtherKind er)) e3
              | (Inr _, e3) \<Rightarrow>
                  (case on_files (fs_write X target data) e3 of
                     (Inr _, e4) \<Rightarrow> tx_send_ok X tx MExportDone e4
                   | (Inl er, e4) \<Rightarrow> tx_send_ok X tx (MExportError (ApiIo OtherKind er)) e4))
      | (Inr None, e1) \<Rightarrow> tx_send_ok X tx (MExportError (ApiIo NotFound ''hash not found'')) e1
      | (Inl er, e1) \<Rightarrow> tx_send_ok X tx (MExportError (ApiOther (error_text X er))) e1)"

definition observe ::
  "('w, 'f, 'z) service_ext_scheme \<Rightarrow> hash \<Rightarrow> chan \<Rightarrow> ('w, 'f) env \<Rightarrow> ('w, 'f) env" where
  "observe X h tx e =
     (case on_store (store_get X h) e of
        (Inr (Some data), e') \<Rightarrow> tx_send_ok X tx (MBitfieldComplete (length data)) e'
      | (Inr None, e') \<Rightarrow> tx_send_ok X tx MBitfieldEmpty e'
      | (Inl _, e') \<Rightarrow> tx_send_ok X tx MBitfieldEmpty e')"

section \<open>Tasks that write\<close>

fun delete_each ::
  "('w, 'f, 'z) service_ext_scheme \<Rightarrow> hash list \<Rightarrow> bool \<Rightarrow> hash list \<Rightarrow> ('w, 'f) env \<Rightarrow> ('w, 'f) env" where
  "delete_each X [] force protected e = e"
| "delete_each X (h # hs) force protected e =
     (if \<not> force \<and> h \<in> set protected then delete_each X hs force protected e
      else delete_each X hs force protected (snd (on_store (store_delete X h) e)))"

definition delete_blobs_task ::
  "('w, 'f, 'z) service_ext_scheme \<Rightarrow> hash list \<Rightarrow> bool \<Rightarrow> hash list \<Rightarrow> chan \<Rightarrow> ('w, 'f) env \<Rightarrow> ('w, 'f) env" where
  "delete_blobs_task X hashes force protected tx e =
     tx_send_ok X tx (MUnit (Inr ())) (delete_each X hashes force protected e)"

record import_entry =
  ie_scope :: scope
  ie_format :: blob_format
  ie_data :: bytes
  ie_root :: hash
  ie_tx :: chan

text \<open>\<open>tx.send(m).await?\<close>: the import ends when nobody listens.\<close>

definition send_or_fail ::
  "('w, 'f, 'z) service_ext_scheme \<Rightarrow> chan \<Rightarrow> message \<Rightarrow> ('w, 'f) env \<Rightarrow> (string + unit) \<times> ('w, 'f) env" where
  "send_or_fail X tx m e =
     (case tx_send X tx m e of (True, e') \<Rightarrow> (Inr (), e') | (False, e') \<Rightarrow> (Inl ''send failed'', e'))"

definition import_bytes ::
  "('w, 'f, 'z) service_ext_scheme \<Rightarrow> bytes \<Rightarrow> scope \<Rightarrow> blob_format \<Rightarrow> chan \<Rightarrow> ('w, 'f) env \<Rightarrow>
     (string + import_entry) \<times> ('w, 'f) env" where
  "import_bytes X data sc fmt tx =
     bindS (send_or_fail X tx (MAdd (AddSize (length data)))) (\<lambda>_.
     bindS (send_or_fail X tx (MAdd CopyDone)) (\<lambda>_.
     liftR (Inr \<lparr>ie_scope = sc, ie_format = fmt, ie_data = data, ie_root = outboard_root X data, ie_tx = tx\<rparr>)))"

datatype stream_update = StreamBytes bytes | StreamDone

text \<open>The receive loop of \<open>import_byte_stream\<close>; a stream that ends is the end of the list.\<close>

fun byte_stream_loop ::
  "('w, 'f, 'z) service_ext_scheme \<Rightarrow> (string + stream_update) list \<Rightarrow> bytes \<Rightarrow> chan \<Rightarrow> ('w, 'f) env \<Rightarrow>
     (string + bytes) \<times> ('w, 'f) env" where
  "byte_stream_loop X [] res tx e = (Inl ''byte stream ended unexpectedly'', e)"
| "byte_stream_loop X (Inl er # rx) res tx e = (Inl er, e)"
| "byte_stream_loop X (Inr StreamDone # rx) res tx e = (Inr res, e)"
| "byte_stream_loop X (Inr (StreamBytes data) # rx) res tx e =
     bindS (send_or_fail X tx (MAdd (CopyProgress (length (res @ data)))))
       (\<lambda>_. byte_stream_loop X rx (res @ data) tx) e"

definition import_byte_stream ::
  "('w, 'f, 'z) service_ext_scheme \<Rightarrow> scope \<Rightarrow> blob_format \<Rightarrow> (string + stream_update) list \<Rightarrow> chan \<Rightarrow>
     ('w, 'f) env \<Rightarrow> (string + import_entry) \<times> ('w, 'f) env" where
  "import_byte_stream X sc fmt rx tx =
     bindS (byte_stream_loop X rx [] tx) (\<lambda>res. import_bytes X res sc fmt tx)"

text \<open>The read loop of \<open>import_path\<close> over what the reads of the file deliver, until one delivers nothing.\<close>

fun read_loop ::
  "('w, 'f, 'z) service_ext_scheme \<Rightarrow> (string + bytes) list \<Rightarrow> bytes \<Rightarrow> chan \<Rightarrow> ('w, 'f) env \<Rightarrow>
     (string + bytes) \<times> ('w, 'f) env" where
  "read_loop X [] res tx e = (Inr res, e)"
| "read_loop X (Inl er # rest) res tx e = (Inl er, e)"
| "read_loop X (Inr buf # rest) res tx e =
     (if buf = [] then (Inr res, e)
      else bindS (send_or_fail X tx (MAdd (CopyProgress (length (res @ buf)))))
             (\<lambda>_. read_loop X rest (res @ buf) tx) e)"

definition import_path ::
  "('w, 'f, 'z) service_ext_scheme \<Rightarrow> string list \<Rightarrow> scope \<Rightarrow> blob_format \<Rightarrow> chan \<Rightarrow> ('w, 'f) env \<Rightarrow>
     (string + import_entry) \<times> ('w, 'f) env" where
  "import_path X path sc fmt tx e =
     (case fs_open X path (en_files e) of
        Inl er \<Rightarrow> (Inl er, e)
      | Inr reads \<Rightarrow> bindS (read_loop X reads [] tx) (\<lambda>res. import_bytes X res sc fmt tx) e)"

section \<open>Verified import\<close>

definition MAX_IMPORT_SIZE :: u64 where "MAX_IMPORT_SIZE = 1024 * 1024 * 1024"

datatype bao_item = BaoParent u64 bytes bytes | BaoLeaf u64 bytes

definition overwrite :: "bytes \<Rightarrow> nat \<Rightarrow> bytes \<Rightarrow> bytes" where
  "overwrite data start bs = take start data @ bs @ drop (start + length bs) data"

text \<open>
  One received item. Offsets are \<open>u64\<close> values and their sums wrap; \<open>None\<close> is the panic of a slice
  whose start lies behind its end, or of \<open>copy_from_slice\<close> between slices of different lengths.
\<close>

definition put_leaf :: "u64 \<Rightarrow> bytes \<Rightarrow> bytes \<Rightarrow> bytes option" where
  "put_leaf start d data =
     (let limit = start + of_nat (length d)
      in if limit \<le> of_nat (length data)
         then (if start \<le> limit \<and> unat limit - unat start = length d
               then Some (overwrite data (unat start) d) else None)
         else Some data)"

definition put_parent ::
  "('w, 'f, 'z) service_ext_scheme \<Rightarrow> u64 \<Rightarrow> u64 \<Rightarrow> bytes \<Rightarrow> bytes \<Rightarrow> bytes \<Rightarrow> bytes option" where
  "put_parent X n node l r outboard =
     (case pre_order_offset X n node of
        None \<Rightarrow> Some outboard
      | Some offset \<Rightarrow>
          (let start = offset * 64
           in if start + 64 \<le> of_nat (length outboard)
              then (if start \<le> start + 64 \<and> length (l @ r) = 64
                    then Some (overwrite outboard (unat start) (l @ r)) else None)
              else Some outboard))"

fun receive_items ::
  "('w, 'f, 'z) service_ext_scheme \<Rightarrow> u64 \<Rightarrow> (string + bao_item) list \<Rightarrow> bytes \<times> bytes \<Rightarrow> (bytes \<times> bytes) option" where
  "receive_items X n [] st = Some st"
| "receive_items X n (Inl _ # rx) st = Some st"
| "receive_items X n (Inr (BaoParent node l r) # rx) (data, outboard) =
     (case put_parent X n node l r outboard of
        None \<Rightarrow> None | Some outboard' \<Rightarrow> receive_items X n rx (data, outboard'))"
| "receive_items X n (Inr (BaoLeaf offset d) # rx) (data, outboard) =
     (case put_leaf offset d data of
        None \<Rightarrow> None | Some data' \<Rightarrow> receive_items X n rx (data', outboard))"

definition outboard_size :: "u64 \<Rightarrow> u64" where
  "outboard_size n =
     (let chunk_size = 1024 * 16;
          chunks = n div chunk_size + (if n mod chunk_size = 0 then 0 else 1)
      in if chunks > 1 then (chunks - 1) * 64 else 0)"

text \<open>\<open>import_bao\<close>. The flag tells whether the task ended normally; a panic answers nobody.\<close>

definition import_bao ::
  "('w, 'f, 'z) service_ext_scheme \<Rightarrow> hash \<Rightarrow> u64 \<Rightarrow> (string + bao_item) list \<Rightarrow> chan \<Rightarrow> ('w, 'f) env \<Rightarrow>
     bool \<times> ('w, 'f) env" where
  "import_bao X h n rx tx e =
     (if n > MAX_IMPORT_SIZE
      then (True, tx_send_ok X tx (MUnit (Inl (ApiIo InvalidInput ''blob size exceeds maximum''))) e)
      else (case receive_items X n rx (replicate (unat n) 0, replicate (unat (outboard_size n)) 0) of
              None \<Rightarrow> (False, e)
            | Some (data, outboard) \<Rightarrow>
                if hash_of X data \<noteq> h
                then (True, tx_send_ok X tx (MUnit (Inl (ApiIo InvalidData ''hash mismatch''))) e)
                else (case on_store (store_put X data) e of
                        (Inr stored_hash, e') \<Rightarrow> (True, tx_send_ok X tx (MUnit (Inr ())) e')
                      | (Inl er, e') \<Rightarrow> (True, tx_send_ok X tx (MUnit (Inl (ApiOther (error_text X er)))) e'))))"

section \<open>The actor\<close>

datatype batch_response = BatchDrop | BatchPing

datatype task =
    TBlobStatus hash chan
  | TListBlobs chan
  | TDeleteBlobs "hash list" bool "hash list" chan
  | TImportBytes bytes scope blob_format chan
  | TImportByteStream scope blob_format "(string + stream_update) list" chan
  | TImportPath "string list" scope blob_format chan
  | TImportBao hash u64 "(string + bao_item) list" chan
  | TExportBao hash "range list" chan
  | TExportRanges hash "range list" chan
  | TExportPath hash "string list" chan
  | TObserve hash chan
  | TBatch "(string + batch_response) list" chan scope

datatype task_result = RUnit | RImport "string + import_entry" | RScope scope

text \<open>\<open>handle_batch\<close>: the responses of a batch have no effect, and its scope is handed back at the end.\<close>

fun batch_loop :: "(string + batch_response) list \<Rightarrow> string + unit" where
  "batch_loop [] = Inr ()"
| "batch_loop (Inl er # rx) = Inl er"
| "batch_loop (Inr BatchDrop # rx) = batch_loop rx"
| "batch_loop (Inr BatchPing # rx) = batch_loop rx"

definition handle_batch_impl ::
  "('w, 'f, 'z) service_ext_scheme \<Rightarrow> (string + batch_response) list \<Rightarrow> chan \<Rightarrow> scope \<Rightarrow> ('w, 'f) env \<Rightarrow>
     (string + unit) \<times> ('w, 'f) env" where
  "handle_batch_impl X rx tx sc = bindS (send_or_fail X tx (MScope sc)) (\<lambda>_. liftR (batch_loop rx))"

definition handle_batch ::
  "('w, 'f, 'z) service_ext_scheme \<Rightarrow> (string + batch_response) list \<Rightarrow> chan \<Rightarrow> scope \<Rightarrow> ('w, 'f) env \<Rightarrow>
     scope \<times> ('w, 'f) env" where
  "handle_batch X rx tx sc e = (sc, snd (handle_batch_impl X rx tx sc e))"

text \<open>The body of a spawned task. \<open>None\<close> is a task that panicked (a \<open>JoinError\<close>).\<close>

fun run_task ::
  "('w, 'f, 'z) service_ext_scheme \<Rightarrow> task \<Rightarrow> ('w, 'f) env \<Rightarrow> task_result option \<times> ('w, 'f) env" where
  "run_task X (TBlobStatus h tx) e = (Some RUnit, blob_status_task X h tx e)"
| "run_task X (TListBlobs tx) e = (Some RUnit, list_blobs_task X tx e)"
| "run_task X (TDeleteBlobs hs force protected tx) e = (Some RUnit, delete_blobs_task X hs force protected tx e)"
| "run_task X (TImportBytes data sc fmt tx) e =
     map_prod (Some \<circ> RImport) id (import_bytes X data sc fmt tx e)"
| "run_task X (TImportByteStream sc fmt rx tx) e =
     map_prod (Some \<circ> RImport) id (import_byte_stream X sc fmt rx tx e)"
| "run_task X (TImportPath path sc fmt tx) e =
     map_prod (Some \<circ> RImport) id (import_path X path sc fmt tx e)"
| "run_task X (TImportBao h n rx tx) e =
     map_prod (\<lambda>ended. if ended then Some RUnit else None) id (import_bao X h n rx tx e)"
| "run_task X (TExportBao h ranges tx) e = (Some RUnit, export_bao X h ranges tx e)"
| "run_task X (TExportRanges h ranges tx) e = (Some RUnit, export_ranges X h ranges tx e)"
| "run_task X (TExportPath h target tx) e = (Some RUnit, export_path X h target tx e)"
| "run_task X (TObserve h tx) e = (Some RUnit, observe X h tx e)"
| "run_task X (TBatch rx tx sc) e = map_prod (Some \<circ> RScope) id (handle_batch X rx tx sc e)"

record temp_tag_manager =
  tt_next_id :: u64
  tt_tags :: "(u64, hash_and_format) btree"

definition temp_create :: "scope \<Rightarrow> hash_and_format \<Rightarrow> temp_tag_manager \<Rightarrow> hash_and_format \<times> temp_tag_manager" where
  "temp_create sc v m =
     (v, m\<lparr>tt_next_id := tt_next_id m + 1, tt_tags := bt_insert (tt_next_id m) v (tt_tags m)\<rparr>)"

definition temp_list :: "temp_tag_manager \<Rightarrow> hash_and_format list" where
  "temp_list m = map snd (tt_tags m)"

definition create_scope ::
  "('w, 'f, 'z) service_ext_scheme \<Rightarrow> temp_tag_manager \<Rightarrow> (scope \<times> u64) \<times> temp_tag_manager" where
  "create_scope X m = ((scope_default X, tt_next_id m), m\<lparr>tt_next_id := tt_next_id m + 1\<rparr>)"

definition end_scope :: "scope \<Rightarrow> temp_tag_manager \<Rightarrow> temp_tag_manager" where
  "end_scope sc m = m"

record ('w, 'f) actor =
  ac_env :: "('w, 'f) env"
  ac_tasks :: "task list"
  ac_tags :: "(tag, hash_and_format) btree"
  ac_temp :: temp_tag_manager
  ac_protected :: "hash list"
  ac_waiters :: "chan list"

definition actor_new :: "'w blob_store \<Rightarrow> 'f \<Rightarrow> ('w, 'f) actor" where
  "actor_new store files =
     \<lparr>ac_env = \<lparr>en_store = store, en_files = files, en_out = []\<rparr>, ac_tasks = [], ac_tags = [],
      ac_temp = \<lparr>tt_next_id = 0, tt_tags = []\<rparr>, ac_protected = [], ac_waiters = []\<rparr>"

definition spawn :: "task \<Rightarrow> ('w, 'f) actor \<Rightarrow> ('w, 'f) actor" where
  "spawn t a = a\<lparr>ac_tasks := ac_tasks a @ [t]\<rparr>"

definition reply ::
  "('w, 'f, 'z) service_ext_scheme \<Rightarrow> chan \<Rightarrow> message \<Rightarrow> ('w, 'f) actor \<Rightarrow> ('w, 'f) actor" where
  "reply X tx m a = a\<lparr>ac_env := tx_send_ok X tx m (ac_env a)\<rparr>"

datatype command =
    BlobStatus hash chan
  | ListBlobs chan
  | DeleteBlobs "hash list" bool chan
  | ImportBytes bytes scope blob_format chan
  | ImportByteStream scope blob_format "(string + stream_update) list" chan
  | ImportPath "string list" scope blob_format chan
  | ImportBao hash u64 "(string + bao_item) list" chan
  | ExportBao hash "range list" chan
  | ExportRanges hash "range list" chan
  | ExportPath hash "string list" chan
  | Observe hash chan
  | ListTags "tag option" "tag option" bool bool chan
  | SetTag tag hash_and_format chan
  | DeleteTags "tag option" "tag option" chan
  | RenameTag tag tag chan
  | CreateTag hash_and_format chan
  | CreateTempTag scope hash_and_format chan
  | ListTempTags chan
  | Batch "(string + batch_response) list" chan
  | SyncDb chan
  | WaitIdle chan
  | Shutdown chan
  | ClearProtected chan

text \<open>The bounds of \<open>ListTags\<close> and \<open>DeleteTags\<close>: from the first bound on, up to the second, excluded.\<close>

definition in_bounds :: "tag option \<Rightarrow> tag option \<Rightarrow> tag \<Rightarrow> bool" where
  "in_bounds lower upper t \<longleftrightarrow>
     \<not> (case lower of Some f \<Rightarrow> t < f | None \<Rightarrow> False) \<and> \<not> (case upper of Some u \<Rightarrow> t \<ge> u | None \<Rightarrow> False)"

definition list_tags :: "tag option \<Rightarrow> tag option \<Rightarrow> bool \<Rightarrow> bool \<Rightarrow> (tag, hash_and_format) btree \<Rightarrow> tag_info list" where
  "list_tags lower upper raw hash_seq tags =
     map (\<lambda>(t, v). TagInfo t (hf_hash v) (hf_format v))
       (filter (\<lambda>(t, v). in_bounds lower upper t \<and>
          (raw \<and> hf_format v = Raw \<or> hash_seq \<and> hf_format v = HashSeq)) tags)"

definition set_tag ::
  "('w, 'f, 'z) service_ext_scheme \<Rightarrow> tag \<Rightarrow> hash_and_format \<Rightarrow> chan \<Rightarrow> ('w, 'f) actor \<Rightarrow> ('w, 'f) actor" where
  "set_tag X t v tx a = reply X tx (MUnit (Inr ())) (a\<lparr>ac_tags := bt_insert t v (ac_tags a)\<rparr>)"

definition delete_tags ::
  "('w, 'f, 'z) service_ext_scheme \<Rightarrow> tag option \<Rightarrow> tag option \<Rightarrow> chan \<Rightarrow> ('w, 'f) actor \<Rightarrow> ('w, 'f) actor" where
  "delete_tags X lower upper tx a =
     reply X tx (MCount (length (filter (\<lambda>(t, v). in_bounds lower upper t) (ac_tags a))))
       (a\<lparr>ac_tags := filter (\<lambda>(t, v). \<not> in_bounds lower upper t) (ac_tags a)\<rparr>)"

definition rename_tag ::
  "('w, 'f, 'z) service_ext_scheme \<Rightarrow> tag \<Rightarrow> tag \<Rightarrow> chan \<Rightarrow> ('w, 'f) actor \<Rightarrow> ('w, 'f) actor" where
  "rename_tag X old new tx a =
     (case bt_get (ac_tags a) old of
        Some v \<Rightarrow> reply X tx (MUnit (Inr ())) (a\<lparr>ac_tags := bt_insert new v (bt_remove old (ac_tags a))\<rparr>)
      | None \<Rightarrow> reply X tx (MUnit (Inl (ApiIo NotFound ''tag not found''))) a)"

definition create_tag ::
  "('w, 'f, 'z) service_ext_scheme \<Rightarrow> hash_and_format \<Rightarrow> chan \<Rightarrow> ('w, 'f) actor \<Rightarrow> ('w, 'f) actor" where
  "create_tag X v tx a =
     (let t = tag_auto X (utc_now X (bs_world (en_store (ac_env a)))) (\<lambda>t. t \<in> bt_keys (ac_tags a))
      in reply X tx (MTag t) (a\<lparr>ac_tags := bt_insert t v (ac_tags a)\<rparr>))"

definition wait_idle :: "('w, 'f, 'z) service_ext_scheme \<Rightarrow> chan \<Rightarrow> ('w, 'f) actor \<Rightarrow> ('w, 'f) actor" where
  "wait_idle X tx a = (if ac_tasks a = [] then reply X tx MIdle a else a\<lparr>ac_waiters := ac_waiters a @ [tx]\<rparr>)"

lemmas tag_command_defs [simp] = set_tag_def delete_tags_def rename_tag_def create_tag_def wait_idle_def

text \<open>\<open>handle_command\<close>; the result is the channel to answer after the loop has ended.\<close>

fun handle_command ::
  "('w, 'f, 'z) service_ext_scheme \<Rightarrow> command \<Rightarrow> ('w, 'f) actor \<Rightarrow> chan option \<times> ('w, 'f) actor" where
  "handle_command X (BlobStatus h tx) a = (None, spawn (TBlobStatus h tx) a)"
| "handle_command X (ListBlobs tx) a = (None, spawn (TListBlobs tx) a)"
| "handle_command X (DeleteBlobs hs force tx) a = (None, spawn (TDeleteBlobs hs force (ac_protected a) tx) a)"
| "handle_command X (ImportBytes data sc fmt tx) a = (None, spawn (TImportBytes data sc fmt tx) a)"
| "handle_command X (ImportByteStream sc fmt rx tx) a = (None, spawn (TImportByteStream sc fmt rx tx) a)"
| "handle_command X (ImportPath path sc fmt tx) a = (None, spawn (TImportPath path sc fmt tx) a)"
| "handle_command X (ImportBao h n rx tx) a = (None, spawn (TImportBao h n rx tx) a)"
| "handle_command X (ExportBao h ranges tx) a = (None, spawn (TExportBao h ranges tx) a)"
| "handle_command X (ExportRanges h ranges tx) a = (None, spawn (TExportRanges h ranges tx) a)"
| "handle_command X (ExportPath h target tx) a = (None, spawn (TExportPath h target tx) a)"
| "handle_command X (Observe h tx) a = (None, spawn (TObserve h tx) a)"
| "handle_command X (ListTags lower upper raw hash_seq tx) a =
     (None, reply X tx (MTags (list_tags lower upper raw hash_seq (ac_tags a))) a)"
| "handle_command X (SetTag t v tx) a = (None, set_tag X t v tx a)"
| "handle_command X (DeleteTags lower upper tx) a = (None, delete_tags X lower upper tx a)"
| "handle_command X (RenameTag old new tx) a = (None, rename_tag X old new tx a)"
| "handle_command X (CreateTag v tx) a = (None, create_tag X v tx a)"
| "handle_command X (CreateTempTag sc v tx) a =
     (case temp_create sc v (ac_temp a) of (tt, m) \<Rightarrow> (None, reply X tx (MTempTag tt) (a\<lparr>ac_temp := m\<rparr>)))"
| "handle_command X (ListTempTags tx) a = (None, reply X tx (MTempTags (temp_list (ac_temp a))) a)"
| "handle_command X (Batch rx tx) a =
     (case create_scope X (ac_temp a) of ((sc, _), m) \<Rightarrow> (None, spawn (TBatch rx tx sc) (a\<lparr>ac_temp := m\<rparr>)))"
| "handle_command X (SyncDb tx) a = (None, reply X tx (MUnit (Inr ())) a)"
| "handle_command X (WaitIdle tx) a = (None, wait_idle X tx a)"
| "handle_command X (Shutdown tx) a = (Some tx, a)"
| "handle_command X (ClearProtected tx) a = (None, reply X tx (MUnit (Inr ())) (a\<lparr>ac_protected := []\<rparr>))"

definition finish_import ::
  "('w, 'f, 'z) service_ext_scheme \<Rightarrow> string + import_entry \<Rightarrow> ('w, 'f) actor \<Rightarrow> ('w, 'f) actor" where
  "finish_import X res a =
     (case res of
        Inl _ \<Rightarrow> a
      | Inr ie \<Rightarrow>
          (case on_store (store_put X (ie_data ie)) (ac_env a) of
             (Inr stored_hash, e') \<Rightarrow>
               (case temp_create (ie_scope ie) \<lparr>hf_hash = ie_root ie, hf_format = ie_format ie\<rparr> (ac_temp a) of
                  (tt, m) \<Rightarrow> reply X (ie_tx ie) (MAdd (AddDone tt)) (a\<lparr>ac_env := e', ac_temp := m\<rparr>))
           | (Inl er, e') \<Rightarrow> reply X (ie_tx ie) (MAdd (AddError (error_text X er))) (a\<lparr>ac_env := e'\<rparr>)))"

fun notify_all ::
  "('w, 'f, 'z) service_ext_scheme \<Rightarrow> chan list \<Rightarrow> ('w, 'f) actor \<Rightarrow> ('w, 'f) actor" where
  "notify_all X [] a = a"
| "notify_all X (tx # txs) a = notify_all X txs (reply X tx MIdle a)"

text \<open>
  One turn of the loop: a command, the closed command channel, or the end of the task at a
  position. \<open>Inl\<close> is the actor after the loop.
\<close>

datatype event = Command command | Closed | TaskEnds nat

definition task_ends :: "('w, 'f, 'z) service_ext_scheme \<Rightarrow> nat \<Rightarrow> ('w, 'f) actor \<Rightarrow> ('w, 'f) actor" where
  "task_ends X i a =
     (if i < length (ac_tasks a) then
        (case run_task X (ac_tasks a ! i) (ac_env a) of (res, e') \<Rightarrow>
           let a1 = a\<lparr>ac_env := e', ac_tasks := take i (ac_tasks a) @ drop (Suc i) (ac_tasks a)\<rparr>
           in case res of
                None \<Rightarrow> a1
              | Some r \<Rightarrow>
                  (let a2 = (case r of RImport x \<Rightarrow> finish_import X x a1
                                     | RScope sc \<Rightarrow> a1\<lparr>ac_temp := end_scope sc (ac_temp a1)\<rparr>
                                     | RUnit \<Rightarrow> a1)
                   in if ac_tasks a2 = [] then (notify_all X (ac_waiters a2) a2)\<lparr>ac_waiters := []\<rparr> else a2))
      else a)"

fun turn :: "('w, 'f, 'z) service_ext_scheme \<Rightarrow> event \<Rightarrow> ('w, 'f) actor \<Rightarrow> ('w, 'f) actor + ('w, 'f) actor" where
  "turn X (Command c) a = (case handle_command X c a of
     (Some tx, a') \<Rightarrow> Inl (reply X tx MShutdown a') | (None, a') \<Rightarrow> Inr a')"
| "turn X Closed a = Inl a"
| "turn X (TaskEnds i) a = Inr (task_ends X i a)"

fun run_actor :: "('w, 'f, 'z) service_ext_scheme \<Rightarrow> event list \<Rightarrow> ('w, 'f) actor \<Rightarrow> ('w, 'f) actor" where
  "run_actor X [] a = a"
| "run_actor X (ev # evs) a = (case turn X ev a of Inl a' \<Rightarrow> a' | Inr a' \<Rightarrow> run_actor X evs a')"

section \<open>What a message changes\<close>

lemma tx_send_env [simp]:
  "en_store (snd (tx_send X c m e)) = en_store e" "en_files (snd (tx_send X c m e)) = en_files e"
  by (simp_all add: tx_send_def)

lemma tx_send_store: "tx_send X c m e = (b, e') \<Longrightarrow> en_store e' = en_store e \<and> en_files e' = en_files e"
  by (auto simp: tx_send_def split: if_splits)

lemma tx_send_ok_env [simp]:
  "en_store (tx_send_ok X c m e) = en_store e" "en_files (tx_send_ok X c m e) = en_files e"
  by (simp_all add: tx_send_ok_def)

lemma send_or_fail_store: "send_or_fail X c m e = (r, e') \<Longrightarrow> en_store e' = en_store e"
  by (auto simp: send_or_fail_def split: prod.splits bool.splits dest: tx_send_store)

lemma send_hashes_store [simp]: "en_store (send_hashes X hs tx e) = en_store e"
  by (induction hs arbitrary: e) (auto split: prod.splits bool.splits dest: tx_send_store)

lemma send_chunks_store: "send_chunks X tx mk data offset limit e = (b, e') \<Longrightarrow> en_store e' = en_store e"
proof (induction "limit - offset" arbitrary: offset e rule: less_induct)
  case less
  show ?case
  proof (cases "offset < limit")
    case False
    then show ?thesis
      using less.prems by (simp add: send_chunks.simps)
  next
    case True
    let ?stop = "min (offset + 1024) limit"
    obtain ok e1 where t: "tx_send X tx (mk \<lparr>leaf_offset = offset, leaf_data = slice offset ?stop data\<rparr>) e = (ok, e1)"
      by (rule prod.exhaust)
    have "ok \<Longrightarrow> send_chunks X tx mk data ?stop limit e1 = (b, e')" and "\<not> ok \<Longrightarrow> e' = e1"
      using less.prems True t by (auto simp: send_chunks.simps [of X tx mk data offset] Let_def)
    moreover have "limit - ?stop < limit - offset"
      using True by auto
    ultimately show ?thesis
      using less.hyps [of ?stop e1] tx_send_store [OF t] by (cases ok) auto
  qed
qed

lemma send_ranges_store [simp]: "en_store (send_ranges X tx data rs e) = en_store e"
  by (induction rs arbitrary: e) (auto split: prod.splits bool.splits dest: send_chunks_store)

lemma byte_stream_loop_store: "byte_stream_loop X rx res tx e = (r, e') \<Longrightarrow> en_store e' = en_store e"
  by (induction X rx res tx e arbitrary: r e' rule: byte_stream_loop.induct)
    (auto simp: bindS_def split: prod.splits sum.splits dest!: send_or_fail_store)

lemma read_loop_store: "read_loop X reads res tx e = (r, e') \<Longrightarrow> en_store e' = en_store e"
  by (induction X reads res tx e arbitrary: r e' rule: read_loop.induct)
    (auto simp: bindS_def split: prod.splits sum.splits if_splits dest!: send_or_fail_store)

lemma import_bytes_store: "import_bytes X data sc fmt tx e = (r, e') \<Longrightarrow> en_store e' = en_store e"
  by (auto simp: import_bytes_def bindS_def liftR_def split: prod.splits sum.splits dest!: send_or_fail_store)

lemma import_entry_data:
  "import_bytes X data sc fmt tx e = (Inr ie, e') \<Longrightarrow> ie_data ie = data \<and> ie_root ie = outboard_root X data"
  by (auto simp: import_bytes_def bindS_def liftR_def split: prod.splits sum.splits)

section \<open>No blob is lost\<close>

text \<open>
  Between two stores nothing outside \<open>D\<close> disappears: what could be read under a hash can still be
  read, and is data of that hash.
\<close>

definition keeps :: "('w, 'z) backend_ext_scheme \<Rightarrow> hash set \<Rightarrow> 'w blob_store \<Rightarrow> 'w blob_store \<Rightarrow> bool" where
  "keeps X D s s' \<longleftrightarrow> (store_ok X s \<longrightarrow> store_ok X s' \<and>
     (\<forall>h b. h \<notin> D \<longrightarrow> blob_view X s h = Some b \<longrightarrow> (\<exists>b'. blob_view X s' h = Some b')))"

lemma keeps_same [simp]: "keeps X D s s"
  by (simp add: keeps_def)

lemma keeps_then: "keeps X D s s1 \<Longrightarrow> keeps X D s1 s2 \<Longrightarrow> keeps X D s s2"
  unfolding keeps_def by blast

lemma keeps_mono: "keeps X D s s' \<Longrightarrow> D \<subseteq> D' \<Longrightarrow> keeps X D' s s'"
  unfolding keeps_def by blast

lemma keeps_step:
  assumes "backend_laws X" and "op_valid op" and "\<And>h. op = OpDelete h \<Longrightarrow> h \<in> D"
  shows "keeps X D s (obj.step1 X op s)"
  unfolding keeps_def
proof (intro impI conjI allI)
  assume ok: "store_ok X s"
  then show "store_ok X (obj.step1 X op s)"
    using obj.step1_inv [OF assms(1,2)] by simp
  fix h b
  assume h: "h \<notin> D" and v: "blob_view X s h = Some b"
  show "\<exists>b'. blob_view X (obj.step1 X op s) h = Some b'"
    using obj.step1_keeps [OF assms(1) ok v assms(2)] assms(3) h by blast
qed

lemma keeps_store_put: "backend_laws X \<Longrightarrow> store_put X d s = (r, s') \<Longrightarrow> keeps X D s s'"
  using keeps_step [of X "OpPut d" D s] by (simp add: obj.step1_def)

lemma keeps_store_get: "backend_laws X \<Longrightarrow> length h = 32 \<Longrightarrow> store_get X h s = (r, s') \<Longrightarrow> keeps X D s s'"
  using keeps_step [of X "OpGet h" D s] by (simp add: obj.step1_def)

lemma keeps_store_delete:
  "backend_laws X \<Longrightarrow> length h = 32 \<Longrightarrow> h \<in> D \<Longrightarrow> store_delete X h s = (r, s') \<Longrightarrow> keeps X D s s'"
  using keeps_step [of X "OpDelete h" D s] by (simp add: obj.step1_def)

lemma keeps_store_list: "backend_laws X \<Longrightarrow> store_list X s = (r, s') \<Longrightarrow> keeps X D s s'"
proof -
  assume X: "backend_laws X" and l: "store_list X s = (r, s')"
  obtain q s1 where q: "list_blobs X s = (q, s1)" by (rule prod.exhaust)
  have "bs_rows s1 = bs_rows s \<and> held X (bs_world s1) = held X (bs_world s)"
    by (cases rule: query_cases [OF X q [unfolded list_blobs_def]]) auto
  moreover have "s' = s1"
    using l q by (cases q) (auto simp: store_list_def bindS_def liftR_def)
  ultimately show "keeps X D s s'"
    using store_ok_held [of X s s'] blob_view_same [of s' s X] by (simp add: keeps_def)
qed

end
