(* ===== verification/Actor_Safety.thy ===== *)
theory Actor_Safety
  imports Store_Actor
begin

text \<open>
  What the object store promises over whole runs of the actor: no blob is lost without a command
  that deletes it, the invariant of the store and of the tag tables, the answers to tag commands,
  and who waits for the actor to be idle.
\<close>

section \<open>One task\<close>

fun task_hashes :: "task \<Rightarrow> hash list" where
  "task_hashes (TBlobStatus h tx) = [h]"
| "task_hashes (TDeleteBlobs hs force protected tx) = hs"
| "task_hashes (TExportBao h ranges tx) = [h]"
| "task_hashes (TExportRanges h ranges tx) = [h]"
| "task_hashes (TExportPath h target tx) = [h]"
| "task_hashes (TObserve h tx) = [h]"
| "task_hashes t = []"

fun task_deletes :: "task \<Rightarrow> hash set" where
  "task_deletes (TDeleteBlobs hs force protected tx) = set hs"
| "task_deletes t = {}"

definition task_valid :: "task \<Rightarrow> bool" where
  "task_valid t \<longleftrightarrow> (\<forall>h \<in> set (task_hashes t). length h = 32)"

lemma on_store_split: "on_store m e = (r, e') \<Longrightarrow> \<exists>s'. m (en_store e) = (r, s') \<and> en_store e' = s'"
  by (auto simp: on_store_def split: prod.splits)

lemma keeps_get_env:
  "backend_laws X \<Longrightarrow> length h = 32 \<Longrightarrow> on_store (store_get X h) e = (r, e') \<Longrightarrow> keeps X D (en_store e) (en_store e')"
  using keeps_store_get by (blast dest: on_store_split)

lemma delete_each_keeps:
  assumes "backend_laws X" and "\<forall>h \<in> set hs. length h = 32"
  shows "set hs \<subseteq> D \<Longrightarrow> keeps X D (en_store e) (en_store (delete_each X hs force protected e))"
  using assms(2)
proof (induction hs arbitrary: e)
  case (Cons h hs)
  obtain r e1 where r: "on_store (store_delete X h) e = (r, e1)" by (rule prod.exhaust)
  have "keeps X D (en_store e) (en_store e1)"
    using r Cons.prems keeps_store_delete [OF assms(1), of h D] by (auto dest: on_store_split)
  then show ?case
    using Cons r by (auto intro: keeps_then [of X D "en_store e" "en_store e1"])
qed simp

lemma export_path_store:
  assumes "on_store (store_get X h) e = (r, e1)"
  shows "en_store (export_path X h target tx e) = en_store e1"
  using assms by (auto simp: export_path_def on_files_def Let_def split: sum.splits option.splits prod.splits if_splits)

lemma import_bao_keeps:
  assumes "backend_laws X" and "import_bao X h n rx tx e = (b, e')"
  shows "keeps X D (en_store e) (en_store e')"
proof (cases "n > MAX_IMPORT_SIZE \<or> receive_items X n rx (replicate (unat n) 0, replicate (unat (outboard_size n)) 0) = None")
  case True
  then show ?thesis using assms(2) by (auto simp: import_bao_def split: if_splits)
next
  case False
  then obtain data ob where d: "receive_items X n rx (replicate (unat n) 0, replicate (unat (outboard_size n)) 0) = Some (data, ob)"
    by auto
  obtain r e1 where r: "on_store (store_put X data) e = (r, e1)" by (rule prod.exhaust)
  have "en_store e' = en_store e \<or> en_store e' = en_store e1"
    using assms(2) False d r by (auto simp: import_bao_def split: if_splits sum.splits)
  then show ?thesis
    using r keeps_store_put [OF assms(1)] by (auto dest: on_store_split)
qed

lemma run_task_keeps:
  assumes "backend_laws X" and "task_valid t" and "run_task X t e = (r, e')"
  shows "keeps X (task_deletes t) (en_store e) (en_store e')"
proof (cases t)
  case (TBlobStatus h tx)
  obtain q e1 where q: "on_store (store_get X h) e = (q, e1)" by (rule prod.exhaust)
  have "en_store e' = en_store e1"
    using assms(3) TBlobStatus q by (auto simp: blob_status_task_def split: sum.splits option.splits)
  then show ?thesis using TBlobStatus assms(2) keeps_get_env [OF assms(1) _ q] by (simp add: task_valid_def)
next
  case (TListBlobs tx)
  obtain q e1 where q: "on_store (store_list X) e = (q, e1)" by (rule prod.exhaust)
  have "en_store e' = en_store e1"
    using assms(3) TListBlobs q by (auto simp: list_blobs_task_def split: sum.splits)
  then show ?thesis using q keeps_store_list [OF assms(1)] by (auto dest: on_store_split)
next
  case (TDeleteBlobs hs force protected tx)
  then show ?thesis
    using assms(2,3) delete_each_keeps [OF assms(1)] by (auto simp: task_valid_def delete_blobs_task_def)
next
  case (TImportBytes data sc fmt tx)
  then show ?thesis using assms(3) import_bytes_store by (fastforce simp: map_prod_def split: prod.splits)
next
  case (TImportByteStream sc fmt rx tx)
  then have "en_store e' = en_store e"
    using assms(3) by (auto simp: import_byte_stream_def bindS_def map_prod_def split: prod.splits sum.splits
        dest!: import_bytes_store byte_stream_loop_store)
  then show ?thesis by simp
next
  case (TImportPath path sc fmt tx)
  then have "en_store e' = en_store e"
    using assms(3) by (auto simp: import_path_def bindS_def map_prod_def split: prod.splits sum.splits
        dest!: import_bytes_store read_loop_store)
  then show ?thesis by simp
next
  case (TImportBao h n rx tx)
  then show ?thesis
    using assms(3) import_bao_keeps [OF assms(1)] by (auto simp: map_prod_def split: prod.splits)
next
  case (TExportBao h ranges tx)
  obtain q e1 where q: "on_store (store_get X h) e = (q, e1)" by (rule prod.exhaust)
  have "en_store e' = en_store e1"
    using assms(3) TExportBao q send_chunks_store [OF surjective_pairing]
    by (auto simp: export_bao_def split: sum.splits option.splits)
  then show ?thesis using TExportBao assms(2) keeps_get_env [OF assms(1) _ q] by (simp add: task_valid_def)
next
  case (TExportRanges h ranges tx)
  obtain q e1 where q: "on_store (store_get X h) e = (q, e1)" by (rule prod.exhaust)
  have "en_store e' = en_store e1"
    using assms(3) TExportRanges q
    by (auto simp: export_ranges_def split: sum.splits option.splits prod.splits bool.splits dest: tx_send_store)
  then show ?thesis using TExportRanges assms(2) keeps_get_env [OF assms(1) _ q] by (simp add: task_valid_def)
next
  case (TExportPath h target tx)
  obtain q e1 where q: "on_store (store_get X h) e = (q, e1)" by (rule prod.exhaust)
  then show ?thesis
    using TExportPath assms(2,3) keeps_get_env [OF assms(1) _ q] export_path_store [OF q] by (auto simp: task_valid_def)
next
  case (TObserve h tx)
  obtain q e1 where q: "on_store (store_get X h) e = (q, e1)" by (rule prod.exhaust)
  have "en_store e' = en_store e1"
    using assms(3) TObserve q by (auto simp: observe_def split: sum.splits option.splits)
  then show ?thesis using TObserve assms(2) keeps_get_env [OF assms(1) _ q] by (simp add: task_valid_def)
next
  case (TBatch rx tx sc)
  then have "en_store e' = en_store e"
    using assms(3) by (auto simp: handle_batch_def handle_batch_impl_def bindS_def liftR_def map_prod_def
        split: prod.splits sum.splits dest!: send_or_fail_store)
  then show ?thesis by simp
qed

section \<open>One turn of the loop\<close>

fun command_hashes :: "command \<Rightarrow> hash list" where
  "command_hashes (BlobStatus h tx) = [h]"
| "command_hashes (DeleteBlobs hs force tx) = hs"
| "command_hashes (ExportBao h ranges tx) = [h]"
| "command_hashes (ExportRanges h ranges tx) = [h]"
| "command_hashes (ExportPath h target tx) = [h]"
| "command_hashes (Observe h tx) = [h]"
| "command_hashes c = []"

fun event_valid :: "event \<Rightarrow> bool" where
  "event_valid (Command c) = (\<forall>h \<in> set (command_hashes c). length h = 32)"
| "event_valid ev = True"

fun event_deletes :: "event \<Rightarrow> hash set" where
  "event_deletes (Command (DeleteBlobs hs force tx)) = set hs"
| "event_deletes ev = {}"

abbreviation store_of :: "('w, 'f) actor \<Rightarrow> 'w blob_store" where
  "store_of a \<equiv> en_store (ac_env a)"

definition tables_ok :: "('w, 'f) actor \<Rightarrow> bool" where
  "tables_ok a \<longleftrightarrow> bt_ok (ac_tags a) \<and> bt_ok (tt_tags (ac_temp a))"

definition actor_ok :: "('w, 'f, 'z) service_ext_scheme \<Rightarrow> ('w, 'f) actor \<Rightarrow> bool" where
  "actor_ok X a \<longleftrightarrow> store_ok X (store_of a) \<and> tables_ok a \<and> (\<forall>t \<in> set (ac_tasks a). task_valid t)"

lemma reply_sel [simp]:
  "store_of (reply X tx m a) = store_of a" "ac_tasks (reply X tx m a) = ac_tasks a"
  "ac_tags (reply X tx m a) = ac_tags a" "ac_temp (reply X tx m a) = ac_temp a"
  "ac_waiters (reply X tx m a) = ac_waiters a" "ac_protected (reply X tx m a) = ac_protected a"
  by (simp_all add: reply_def)

lemma notify_all_sel [simp]:
  "store_of (notify_all X txs a) = store_of a" "ac_tasks (notify_all X txs a) = ac_tasks a"
  "ac_tags (notify_all X txs a) = ac_tags a" "ac_temp (notify_all X txs a) = ac_temp a"
  "ac_protected (notify_all X txs a) = ac_protected a"
  by (induction txs arbitrary: a) simp_all

lemma bt_ok_filter: "bt_ok m \<Longrightarrow> bt_ok (filter P m)"
  by (induction m) auto

lemma temp_create_ok: "bt_ok (tt_tags m) \<Longrightarrow> temp_create sc v m = (tt, m') \<Longrightarrow> bt_ok (tt_tags m')"
  by (auto simp: temp_create_def bt_insert_ok)

lemma handle_command_store: "handle_command X c a = (r, a') \<Longrightarrow> store_of a' = store_of a"
  by (cases c) (auto simp: spawn_def Let_def split: option.splits prod.splits if_splits)

lemma handle_command_tables: "handle_command X c a = (r, a') \<Longrightarrow> tables_ok a \<Longrightarrow> tables_ok a'"
  by (cases c) (auto simp: spawn_def tables_ok_def Let_def bt_insert_ok bt_remove_ok bt_ok_filter create_scope_def
      split: option.splits prod.splits if_splits dest: temp_create_ok)

lemma handle_command_tasks:
  assumes "handle_command X c a = (r, a')"
  shows "ac_tasks a' = ac_tasks a \<or>
    (\<exists>t. ac_tasks a' = ac_tasks a @ [t] \<and> task_deletes t = event_deletes (Command c) \<and>
      (event_valid (Command c) \<longrightarrow> task_valid t))"
  using assms by (cases c) (auto simp: spawn_def task_valid_def Let_def split: option.splits prod.splits if_splits)

lemma finish_import_keeps:
  assumes "backend_laws X"
  shows "keeps X D (store_of a) (store_of (finish_import X res a))"
    and "ac_tasks (finish_import X res a) = ac_tasks a"
    and "tables_ok a \<Longrightarrow> tables_ok (finish_import X res a)"
proof -
  obtain q e1 where q: "on_store (store_put X (ie_data (projr res))) (ac_env a) = (q, e1)" by (rule prod.exhaust)
  have k: "keeps X D (store_of a) (en_store e1)"
    using q keeps_store_put [OF assms] by (auto dest: on_store_split)
  have "store_of (finish_import X res a) \<in> {store_of a, en_store e1}"
    using q by (cases res; cases q) (auto simp: finish_import_def split: prod.splits)
  then show "keeps X D (store_of a) (store_of (finish_import X res a))"
    using k by auto
  show "ac_tasks (finish_import X res a) = ac_tasks a"
    using q by (cases res; cases q) (auto simp: finish_import_def split: prod.splits)
  show "tables_ok a \<Longrightarrow> tables_ok (finish_import X res a)"
    using q by (cases res; cases q) (auto simp: finish_import_def tables_ok_def split: prod.splits dest: temp_create_ok)
qed

lemma task_ends_keeps:
  assumes "backend_laws X" and "\<forall>t \<in> set (ac_tasks a). task_valid t"
  shows "keeps X (\<Union>t \<in> set (ac_tasks a). task_deletes t) (store_of a) (store_of (task_ends X i a))"
    and "set (ac_tasks (task_ends X i a)) \<subseteq> set (ac_tasks a)"
    and "tables_ok a \<Longrightarrow> tables_ok (task_ends X i a)"
proof -
  let ?D = "\<Union>t \<in> set (ac_tasks a). task_deletes t"
  show "keeps X ?D (store_of a) (store_of (task_ends X i a))"
    and "set (ac_tasks (task_ends X i a)) \<subseteq> set (ac_tasks a)"
    and "tables_ok a \<Longrightarrow> tables_ok (task_ends X i a)"
  proof (atomize (full), cases "i < length (ac_tasks a)")
    case False
    then show "keeps X ?D (store_of a) (store_of (task_ends X i a)) \<and>
      set (ac_tasks (task_ends X i a)) \<subseteq> set (ac_tasks a) \<and> (tables_ok a \<longrightarrow> tables_ok (task_ends X i a))"
      by (simp add: task_ends_def)
  next
    case True
    then have t: "ac_tasks a ! i \<in> set (ac_tasks a)" by simp
    obtain r e1 where r: "run_task X (ac_tasks a ! i) (ac_env a) = (r, e1)" by (rule prod.exhaust)
    let ?a1 = "a\<lparr>ac_env := e1, ac_tasks := take i (ac_tasks a) @ drop (Suc i) (ac_tasks a)\<rparr>"
    have "keeps X (task_deletes (ac_tasks a ! i)) (store_of a) (store_of ?a1)"
      using run_task_keeps [OF assms(1) _ r] assms(2) t by simp
    then have k: "keeps X ?D (store_of a) (store_of ?a1)"
      by (rule keeps_mono) (use t in auto)
    have sub: "set (ac_tasks ?a1) \<subseteq> set (ac_tasks a)"
      by (auto dest: in_set_takeD in_set_dropD)
    have tab: "tables_ok a \<Longrightarrow> tables_ok ?a1"
      by (simp add: tables_ok_def)
    let ?a2 = "\<lambda>q. case q of RImport x \<Rightarrow> finish_import X x ?a1
       | RScope sc \<Rightarrow> ?a1\<lparr>ac_temp := end_scope sc (ac_temp ?a1)\<rparr> | RUnit \<Rightarrow> ?a1"
    have two: "keeps X ?D (store_of a) (store_of (?a2 q)) \<and> set (ac_tasks (?a2 q)) \<subseteq> set (ac_tasks a) \<and>
        (tables_ok a \<longrightarrow> tables_ok (?a2 q))" for q
      using k sub tab finish_import_keeps [OF assms(1), where a = ?a1]
      by (cases q) (auto simp: end_scope_def tables_ok_def intro: keeps_then)
    show "keeps X ?D (store_of a) (store_of (task_ends X i a)) \<and>
      set (ac_tasks (task_ends X i a)) \<subseteq> set (ac_tasks a) \<and> (tables_ok a \<longrightarrow> tables_ok (task_ends X i a))"
    proof (cases r)
      case None
      then show ?thesis using True r k sub tab by (simp add: task_ends_def Let_def)
    next
      case (Some q)
      then show ?thesis
        using True r two [of q] by (simp add: task_ends_def Let_def tables_ok_def)
    qed
  qed
qed

section \<open>Runs\<close>

lemma turn_keeps:
  assumes "backend_laws X" and "actor_ok X a" and "event_valid ev"
    and "turn X ev a = r" and "a' = (case r of Inl x \<Rightarrow> x | Inr x \<Rightarrow> x)"
  shows "actor_ok X a' \<and>
    keeps X (\<Union>t \<in> set (ac_tasks a). task_deletes t) (store_of a) (store_of a') \<and>
    (\<Union>t \<in> set (ac_tasks a'). task_deletes t) \<subseteq> (\<Union>t \<in> set (ac_tasks a). task_deletes t) \<union> event_deletes ev"
proof (cases ev)
  case (Command c)
  obtain q b where q: "handle_command X c a = (q, b)" by (rule prod.exhaust)
  have a': "store_of a' = store_of b" "ac_tasks a' = ac_tasks b" "tables_ok a' = tables_ok b"
    using assms(4,5) Command q by (auto simp: tables_ok_def split: option.splits)
  show ?thesis
    using handle_command_store [OF q] handle_command_tasks [OF q] handle_command_tables [OF q] assms(2,3) Command a'
    by (auto simp: actor_ok_def)
next
  case Closed
  then show ?thesis using assms by auto
next
  case (TaskEnds i)
  have v: "\<forall>t \<in> set (ac_tasks a). task_valid t" and ok: "store_ok X (store_of a)" "tables_ok a"
    using assms(2) by (auto simp: actor_ok_def)
  have "a' = task_ends X i a"
    using assms(4,5) TaskEnds by auto
  then show ?thesis
    using task_ends_keeps [OF assms(1) v, of i] v ok by (auto simp: actor_ok_def keeps_def)
qed

lemma run_actor_keeps:
  assumes "backend_laws X" and "actor_ok X a" and "\<forall>ev \<in> set evs. event_valid ev"
    and "(\<Union>t \<in> set (ac_tasks a). task_deletes t) \<union> (\<Union>ev \<in> set evs. event_deletes ev) \<subseteq> D"
  shows "actor_ok X (run_actor X evs a) \<and> keeps X D (store_of a) (store_of (run_actor X evs a))"
  using assms(2-)
proof (induction evs arbitrary: a)
  case (Cons ev evs)
  define a' where "a' = (case turn X ev a of Inl x \<Rightarrow> x | Inr x \<Rightarrow> x)"
  note t = turn_keeps [OF assms(1) Cons.prems(1) _ refl a'_def]
  have k: "actor_ok X a'" "keeps X D (store_of a) (store_of a')"
    using t Cons.prems(2,3) by (auto intro: keeps_mono)
  have sub: "(\<Union>t \<in> set (ac_tasks a'). task_deletes t) \<union> (\<Union>ev \<in> set evs. event_deletes ev) \<subseteq> D"
    using t Cons.prems(2,3) unfolding set_simps UN_insert by blast
  show ?case
  proof (cases "turn X ev a")
    case (Inl x)
    then show ?thesis using k by (simp add: a'_def)
  next
    case (Inr x)
    then have "actor_ok X (run_actor X evs a') \<and> keeps X D (store_of a') (store_of (run_actor X evs a'))"
      using k sub Cons.prems(2) by (intro Cons.IH) auto
    then show ?thesis
      using Inr k keeps_then by (auto simp: a'_def)
  qed
qed simp

text \<open>
  C9: nothing disappears without a command that deletes it. Over any run of the actor, with tasks ending in any order
  and requests failing at any point, the store stays consistent, and a blob that could be read and
  that no deletion names can be read afterwards, with data of its hash.
\<close>

theorem actor_keeps_blobs:
  assumes "backend_laws X" and "actor_ok X a" and "\<forall>ev \<in> set evs. event_valid ev \<and> h \<notin> event_deletes ev"
    and "\<forall>t \<in> set (ac_tasks a). h \<notin> task_deletes t" and "blob_view X (store_of a) h = Some b"
  shows "actor_ok X (run_actor X evs a) \<and>
    (\<exists>b'. blob_view X (store_of (run_actor X evs a)) h = Some b' \<and> hash_of X b' = h)"
proof -
  have run: "actor_ok X (run_actor X evs a) \<and> keeps X (- {h}) (store_of a) (store_of (run_actor X evs a))"
    using assms(3,4) by (intro run_actor_keeps [OF assms(1,2)]) auto
  then obtain b' where "blob_view X (store_of (run_actor X evs a)) h = Some b'"
    using assms(2,5) by (auto simp: keeps_def actor_ok_def)
  then show ?thesis
    using run obj.view_hash [OF assms(1)] by (auto simp: actor_ok_def)
qed

section \<open>Waiting for the actor to be idle\<close>

lemma tx_send_ok_out: "room X c = None \<Longrightarrow> en_out (tx_send_ok X c m e) = en_out e @ [(c, m)]"
  by (simp add: tx_send_ok_def tx_send_def)

lemma reply_mono: "p \<in> set (en_out (ac_env a)) \<Longrightarrow> p \<in> set (en_out (ac_env (reply X tx m a)))"
  by (auto simp: reply_def tx_send_ok_def tx_send_def)

lemma notify_all_mono: "p \<in> set (en_out (ac_env a)) \<Longrightarrow> p \<in> set (en_out (ac_env (notify_all X txs a)))"
  by (induction txs arbitrary: a) (auto intro: reply_mono)

lemma notify_all_sends:
  "tx \<in> set txs \<Longrightarrow> room X tx = None \<Longrightarrow> (tx, MIdle) \<in> set (en_out (ac_env (notify_all X txs a)))"
proof (induction txs arbitrary: a)
  case (Cons c txs)
  have "(c, MIdle) \<in> set (en_out (ac_env (reply X c MIdle a)))" if "room X c = None"
    using that by (simp add: reply_def tx_send_ok_out)
  then show ?case
    using Cons by (auto intro: notify_all_mono)
qed simp

lemma finish_import_waiters: "ac_waiters (finish_import X res a) = ac_waiters a"
  by (auto simp: finish_import_def split: sum.splits prod.splits)

text \<open>
  When the last task ends, everybody who waits for the actor to be idle is told so: the waiting list is
  empty afterwards, and each waiter that still listens has its answer.
\<close>

theorem idle_waiters_answered:
  assumes "backend_laws X" and "ac_tasks a = [t]" and "run_task X t (ac_env a) = (Some r, e)"
    and "tx \<in> set (ac_waiters a)" and "room X tx = None"
  shows "ac_waiters (task_ends X 0 a) = [] \<and> MIdle \<in> set (sent_on tx (en_out (ac_env (task_ends X 0 a))))"
proof -
  let ?a1 = "a\<lparr>ac_env := e, ac_tasks := []\<rparr>"
  define a2 where "a2 = (case r of RImport x \<Rightarrow> finish_import X x ?a1
     | RScope sc \<Rightarrow> ?a1\<lparr>ac_temp := end_scope sc (ac_temp ?a1)\<rparr> | RUnit \<Rightarrow> ?a1)"
  have a2: "ac_tasks a2 = []" "ac_waiters a2 = ac_waiters a"
    using finish_import_keeps(2) [OF assms(1), of _ ?a1]
    by (cases r; simp add: a2_def finish_import_waiters)+
  have "task_ends X 0 a = (notify_all X (ac_waiters a2) a2)\<lparr>ac_waiters := []\<rparr>"
    using assms(2,3) a2 by (simp add: task_ends_def Let_def a2_def [symmetric])
  moreover have "(tx, MIdle) \<in> set (en_out (ac_env (notify_all X (ac_waiters a2) a2)))"
    using assms(4,5) a2 by (intro notify_all_sends) simp_all
  ultimately show ?thesis
    by (force simp: sent_on_def)
qed

section \<open>Tags\<close>

text \<open>A deletion of tags removes exactly those within the bounds, and answers how many there were.\<close>

lemma bt_get_filter: "bt_get (filter (\<lambda>(t, v). P t) m) t = (if P t then bt_get m t else None)"
  by (induction m) auto

lemma delete_tags_exact:
  assumes "bt_ok (ac_tags a)" and "handle_command X (DeleteTags lower upper tx) a = (r, a')" and "room X tx = None"
  shows "bt_get (ac_tags a') t = (if in_bounds lower upper t then None else bt_get (ac_tags a) t)"
    and "(tx, MCount (card {t \<in> bt_keys (ac_tags a). in_bounds lower upper t})) \<in> set (en_out (ac_env a'))"
proof -
  let ?P = "\<lambda>(t, v). in_bounds lower upper t"
  have a': "a' = reply X tx (MCount (length (filter ?P (ac_tags a)))) (a\<lparr>ac_tags := filter (\<lambda>(t, v). \<not> in_bounds lower upper t) (ac_tags a)\<rparr>)"
    using assms(2) by simp
  show "bt_get (ac_tags a') t = (if in_bounds lower upper t then None else bt_get (ac_tags a) t)"
    unfolding a' by (simp add: bt_get_filter)
  have "length (filter ?P (ac_tags a)) = card (fst ` set (filter ?P (ac_tags a)))"
    using assms(1) bt_ok_distinct [OF bt_ok_filter] by (metis distinct_card length_map set_map)
  also have "fst ` set (filter ?P (ac_tags a)) = {t \<in> bt_keys (ac_tags a). in_bounds lower upper t}"
    by force
  finally show "(tx, MCount (card {t \<in> bt_keys (ac_tags a). in_bounds lower upper t})) \<in> set (en_out (ac_env a'))"
    unfolding a' using assms(3) by (simp add: reply_def tx_send_ok_out)
qed

text \<open>A renamed tag keeps its value; a tag that had the new name is replaced.\<close>

lemma rename_tag_moves:
  assumes "bt_get (ac_tags a) old = Some v" and "handle_command X (RenameTag old new tx) a = (r, a')"
  shows "bt_get (ac_tags a') = (bt_get (ac_tags a))(old := None, new \<mapsto> v)"
  using assms by (auto simp: bt_get_insert bt_get_remove)

section \<open>A sample actor\<close>

definition sample_actor :: "(sample_backend_world, unit) service_ext" where
  "sample_actor = backend_ext.extend sample_backend
     \<lparr>room = (\<lambda>_. None), outboard_root = hash_of sample_backend, pre_order_offset = (\<lambda>n node. None),
      tag_auto = (\<lambda>now used. ''auto''), scope_default = 0, error_text = (\<lambda>_. ''error''),
      fs_open = (\<lambda>p f. Inl ''missing''), fs_create_dir_all = (\<lambda>p f. (Inr (), f)), fs_write = (\<lambda>p d f. (Inr (), f))\<rparr>"

lemma sample_actor_sel [simp]:
  "os_put sample_actor = os_put sample_backend" "os_get sample_actor = os_get sample_backend"
  "os_delete sample_actor = os_delete sample_backend" "object_path sample_actor = object_path sample_backend"
  "db_query sample_actor = db_query sample_backend" "utc_now sample_actor = utc_now sample_backend"
  "hash_of sample_actor = hash_of sample_backend" "hash_str sample_actor = hash_str sample_backend"
  "hash_parse sample_actor = hash_parse sample_backend" "held sample_actor = held sample_backend"
  "room sample_actor = (\<lambda>_. None)" "outboard_root sample_actor = hash_of sample_backend"
  by (simp_all add: sample_actor_def backend_ext.extend_def)

lemma sample_actor_laws: "actor_laws sample_actor" "backend_laws sample_actor"
  using sample_backend_laws by (simp_all add: actor_laws_def backend_laws_def)

lemma sample_actor_ok: "actor_ok sample_actor (actor_new (empty_store faults) ())"
  using empty_store_ok(1) [of faults]
  by (simp add: actor_ok_def actor_new_def tables_ok_def store_ok_def addressed_def row_matches_def data_key_def)

text \<open>The store of the sample holds the blob \<open>[7]\<close> under the hash \<open>h7\<close>.\<close>

definition h7 :: hash where "h7 = 7 # replicate 31 0"

definition sample_held :: "sample_backend_world blob_store" where
  "sample_held = snd (store_put sample_backend [7] (empty_store []))"

lemma sample_held_eq:
  "sample_held = \<lparr>bs_rows = [\<lparr>br_hash = hash_str sample_backend h7, br_size = 1, br_has_outboard = 0,
       br_state = ''complete'', br_created_at = 0, br_updated_at = 0\<rparr>],
     bs_world = ([(data_key sample_backend h7, [7])], [])\<rparr>"
  by (simp add: sample_held_def store_run_defs h7_def data_key_def)

lemma sample_held_ok: "store_ok sample_actor sample_held" and sample_held_view: "blob_view sample_actor sample_held h7 = Some [7]"
proof -
  obtain h s where p: "store_put sample_backend [7] (empty_store []) = (Inr h, s)"
    by (simp add: store_run_defs)
  have s: "s = sample_held" and h: "h = h7"
    using p obj.put_ok [OF sample_backend_laws empty_store_ok(1) p]
    by (auto simp: sample_held_def h7_def sample_backend_def)
  have "store_ok sample_backend sample_held"
    using obj.put_inv [OF sample_backend_laws empty_store_ok(1) p] s by simp
  then show "store_ok sample_actor sample_held"
    by (simp add: store_ok_def addressed_def row_matches_def data_key_def)
  have "blob_view sample_backend sample_held h7 = Some [7]"
    using obj.put_ok [OF sample_backend_laws empty_store_ok(1) p] s h by simp
  moreover have "data_key sample_actor = data_key sample_backend"
    by (simp add: data_key_def fun_eq_iff)
  ultimately show "blob_view sample_actor sample_held h7 = Some [7]"
    by (simp add: blob_view_def split: if_splits)
qed

theorem actor_keeps_blobs_witness:
  "\<exists>b'. blob_view sample_actor (store_of (run_actor sample_actor
     [Command (DeleteBlobs [9 # replicate 31 0] False 0), Command (ImportBytes [9] 0 Raw 1), TaskEnds 1, TaskEnds 0]
     (actor_new sample_held ()))) h7 = Some b' \<and> hash_of sample_actor b' = h7"
proof -
  have "actor_ok sample_actor (actor_new sample_held ())"
    using sample_held_ok by (simp add: actor_ok_def actor_new_def tables_ok_def)
  from actor_keeps_blobs [OF sample_actor_laws(2) this, of
      "[Command (DeleteBlobs [9 # replicate 31 0] False 0), Command (ImportBytes [9] 0 Raw 1), TaskEnds 1, TaskEnds 0]" h7 "[7]"]
  show ?thesis
    using sample_held_view by (simp add: actor_new_def h7_def)
qed

theorem idle_waiters_answered_witness:
  "MIdle \<in> set (sent_on 5 (en_out (ac_env (task_ends sample_actor 0
     ((actor_new sample_held ())\<lparr>ac_tasks := [TBatch [] 3 0], ac_waiters := [5]\<rparr>)))))"
  using idle_waiters_answered [OF sample_actor_laws(2), of
      "(actor_new sample_held ())\<lparr>ac_tasks := [TBatch [] 3 0], ac_waiters := [5]\<rparr>" "TBatch [] 3 0"]
  by (simp add: handle_batch_def)

text \<open>
  A task that panics is the exception: the loop goes on before it looks at the waiters. Here the
  only task is an import whose leaf ends behind the last \<open>u64\<close>; afterwards no task is left, and the
  waiter is still waiting.
\<close>

lemma panic_forgets_waiters:
  "task_ends sample_actor 0
     ((actor_new sample_held ())\<lparr>ac_tasks := [TImportBao h7 1 [Inr (BaoLeaf (- 1) [0, 0])] 4], ac_waiters := [5]\<rparr>) =
   (actor_new sample_held ())\<lparr>ac_waiters := [5]\<rparr>"
proof -
  have "put_leaf (- 1) [0, 0] (replicate (unat (1 :: u64)) 0) = None"
    by (simp add: put_leaf_def word_order.extremum_unique)
  then have "import_bao sample_actor h7 1 [Inr (BaoLeaf (- 1) [0, 0])] 4 e = (False, e)" for e
    by (simp add: import_bao_def MAX_IMPORT_SIZE_def)
  then show ?thesis
    by (simp add: task_ends_def actor_new_def)
qed

end
