(* ===== verification/Store_Transfer.thy ===== *)
theory Store_Transfer
  imports Actor_Safety
begin

text \<open>
  The data path of the object store: what an export delivers, what an import accepts, and that an import accepts every
  complete stream of the data.
\<close>

section \<open>Chunks\<close>

function chunk_leaves :: "bytes \<Rightarrow> nat \<Rightarrow> nat \<Rightarrow> leaf list" where
  "chunk_leaves data offset limit =
     (if offset < limit
      then \<lparr>leaf_offset = offset, leaf_data = slice offset (min (offset + 1024) limit) data\<rparr> #
           chunk_leaves data (min (offset + 1024) limit) limit
      else [])"
  by pat_completeness auto
termination
  by (relation "measure (\<lambda>(data, offset, limit). limit - offset)") auto

declare chunk_leaves.simps [simp del]

lemma slice_append: "a \<le> b \<Longrightarrow> b \<le> c \<Longrightarrow> slice a b data @ slice b c data = slice a c data"
  by (auto simp: slice_def le_iff_add take_add add.commute)

lemma length_slice: "b \<le> length data \<Longrightarrow> length (slice a b data) = b - a"
  by (simp add: slice_def)

lemma chunk_leaves_concat:
  "offset \<le> limit \<Longrightarrow> concat (map leaf_data (chunk_leaves data offset limit)) = slice offset limit data"
proof (induction data offset limit rule: chunk_leaves.induct)
  case (1 data offset limit)
  show ?case
  proof (cases "offset < limit")
    case True
    then have "concat (map leaf_data (chunk_leaves data (min (offset + 1024) limit) limit)) =
        slice (min (offset + 1024) limit) limit data"
      by (intro "1.IH") auto
    then show ?thesis
      using True slice_append [of offset "min (offset + 1024) limit" limit data]
      by (simp add: chunk_leaves.simps [of data offset])
  next
    case False
    then show ?thesis
      using 1(2) by (simp add: chunk_leaves.simps slice_def)
  qed
qed

definition leaf_fits :: "bytes \<Rightarrow> leaf \<Rightarrow> bool" where
  "leaf_fits data l \<longleftrightarrow> 0 < length (leaf_data l) \<and> length (leaf_data l) \<le> 1024 \<and>
     leaf_data l = slice (leaf_offset l) (leaf_offset l + length (leaf_data l)) data"

lemma chunk_leaves_fit:
  "limit \<le> length data \<Longrightarrow> l \<in> set (chunk_leaves data offset limit) \<Longrightarrow> leaf_fits data l"
proof (induction data offset limit rule: chunk_leaves.induct)
  case (1 data offset limit)
  let ?stop = "min (offset + 1024) limit"
  have "offset < limit"
    using 1(3) by (simp add: chunk_leaves.simps [of data offset] split: if_splits)
  then consider "l = \<lparr>leaf_offset = offset, leaf_data = slice offset ?stop data\<rparr>" |
      "l \<in> set (chunk_leaves data ?stop limit)"
    using 1(3) by (auto simp: chunk_leaves.simps [of data offset])
  then show ?case
  proof cases
    case 1
    then show ?thesis
      using \<open>offset < limit\<close> "1.prems"(1) by (auto simp: leaf_fits_def length_slice)
  next
    case 2
    then show ?thesis
      using "1.IH" \<open>offset < limit\<close> "1.prems"(1) by simp
  qed
qed

text \<open>
  The loop delivers a prefix of these leaves, and all of them when every send is taken.
\<close>

lemma send_chunks_prefix:
  assumes "send_chunks X tx mk data offset limit e = (b, e')"
  shows "\<exists>k. e' = e\<lparr>en_out := en_out e @ map (\<lambda>l. (tx, mk l)) (take k (chunk_leaves data offset limit))\<rparr> \<and>
     (b \<longrightarrow> length (chunk_leaves data offset limit) \<le> k)"
  using assms
proof (induction data offset limit arbitrary: e rule: chunk_leaves.induct)
  case (1 data offset limit)
  let ?stop = "min (offset + 1024) limit"
  let ?l = "\<lparr>leaf_offset = offset, leaf_data = slice offset ?stop data\<rparr>"
  show ?case
  proof (cases "offset < limit")
    case False
    then show ?thesis
      using "1.prems" by (auto simp: send_chunks.simps chunk_leaves.simps)
  next
    case True
    obtain ok e1 where t: "tx_send X tx (mk ?l) e = (ok, e1)" by (rule prod.exhaust)
    have e1: "e1 = (if ok then e\<lparr>en_out := en_out e @ [(tx, mk ?l)]\<rparr> else e)"
      using t by (auto simp: tx_send_def split: if_splits)
    show ?thesis
    proof (cases ok)
      case False
      then have "e' = e" "\<not> b"
        using "1.prems" True t e1 by (simp_all add: send_chunks.simps [of X tx mk data offset] Let_def)
      then show ?thesis by (intro exI [of _ 0]) simp
    next
      case ok: True
      then have "send_chunks X tx mk data ?stop limit e1 = (b, e')"
        using "1.prems" True t by (simp add: send_chunks.simps [of X tx mk data offset] Let_def)
      from "1.IH" [OF True this] obtain k where
        k: "e' = e1\<lparr>en_out := en_out e1 @ map (\<lambda>l. (tx, mk l)) (take k (chunk_leaves data ?stop limit))\<rparr>"
          "b \<longrightarrow> length (chunk_leaves data ?stop limit) \<le> k" by blast
      have c: "chunk_leaves data offset limit = ?l # chunk_leaves data ?stop limit"
        using True by (simp add: chunk_leaves.simps [of data offset])
      show ?thesis
        using k ok e1 unfolding c by (intro exI [of _ "Suc k"]) simp
    qed
  qed
qed

lemma send_chunks_taken:
  assumes "room X tx = None"
  shows "fst (send_chunks X tx mk data offset limit e)"
proof (induction data offset limit arbitrary: e rule: chunk_leaves.induct)
  case (1 data offset limit)
  then show ?case
    using assms by (cases "offset < limit") (simp_all add: send_chunks.simps [of X tx mk data offset] Let_def tx_send_def)
qed

lemma send_chunks_all:
  assumes "room X tx = None"
  shows "send_chunks X tx mk data offset limit e =
    (True, e\<lparr>en_out := en_out e @ map (\<lambda>l. (tx, mk l)) (chunk_leaves data offset limit)\<rparr>)"
proof -
  obtain b e' where s: "send_chunks X tx mk data offset limit e = (b, e')" by (rule prod.exhaust)
  then have b using send_chunks_taken [OF assms, of mk data offset limit e] by simp
  then show ?thesis using send_chunks_prefix [OF s] s by auto
qed

section \<open>Exports\<close>

fun requested :: "bytes \<Rightarrow> range \<Rightarrow> bytes" where
  "requested data (Range a b) = slice a b data"
| "requested data (RangeFrom a) = drop a data"

fun range_leaves :: "bytes \<Rightarrow> range \<Rightarrow> leaf list" where
  "range_leaves data (Range a b) = chunk_leaves data (min a (length data)) (min b (length data))"
| "range_leaves data (RangeFrom a) = chunk_leaves data (min a (length data)) (length data)"

lemma slice_clip: "slice (min a (length data)) (min b (length data)) data = slice a b data"
  by (cases "a \<le> length data"; cases "b \<le> length data") (auto simp: slice_def)

lemma chunk_leaves_empty: "limit \<le> offset \<Longrightarrow> chunk_leaves data offset limit = []"
  by (simp add: chunk_leaves.simps)

lemma chunk_leaves_slice: "concat (map leaf_data (chunk_leaves data a b)) = slice a b data"
  by (cases "a \<le> b") (simp_all add: chunk_leaves_concat chunk_leaves_empty slice_def)

lemma range_leaves_concat: "concat (map leaf_data (range_leaves data r)) = requested data r"
  by (cases r) (simp_all add: chunk_leaves_slice slice_clip slice_def min_def)

lemma range_leaves_fit: "l \<in> set (range_leaves data r) \<Longrightarrow> leaf_fits data l"
  by (cases r) (auto intro: chunk_leaves_fit [rotated])

lemma send_ranges_all:
  assumes "room X tx = None"
  shows "send_ranges X tx data rs e =
    e\<lparr>en_out := en_out e @ map (\<lambda>l. (tx, MRangeData l)) (concat (map (range_leaves data) rs))\<rparr>"
proof (induction rs arbitrary: e)
  case (Cons r rs)
  show ?case
  proof (cases r)
    case (Range a b)
    then show ?thesis
      by (cases "min b (length data) \<le> min a (length data)")
        (simp_all add: Cons send_chunks_all [OF assms] chunk_leaves_empty del: min_le_iff_disj)
  next
    case (RangeFrom a)
    then show ?thesis
      by (cases "length data \<le> min a (length data)")
        (simp_all add: Cons send_chunks_all [OF assms] chunk_leaves_empty del: min_le_iff_disj)
  qed
qed simp

text \<open>
  An export of ranges answers the size of the blob, then its bytes in the ranges asked for, clipped to the
  blob, in order and without gaps, as leaves of 1 to 1024 bytes that carry their place in the blob.
\<close>

theorem export_ranges_exact:
  assumes "backend_laws X" and "store_ok X (en_store e)" and "length h = 32" and "room X tx = None"
    and "store_get X h (en_store e) = (Inr (Some data), s')"
  shows "blob_view X (en_store e) h = Some data \<and>
    (\<exists>leaves. export_ranges X h ranges tx e =
        e\<lparr>en_store := s', en_out := en_out e @ (tx, MRangeSize (length data)) # map (\<lambda>l. (tx, MRangeData l)) leaves\<rparr> \<and>
      concat (map leaf_data leaves) = concat (map (requested data) ranges) \<and>
      (\<forall>l \<in> set leaves. leaf_fits data l))"
proof (intro conjI exI)
  let ?leaves = "concat (map (range_leaves data) ranges)"
  show "blob_view X (en_store e) h = Some data"
    using obj.get_ok [OF assms(1-3,5)] by simp
  show "export_ranges X h ranges tx e =
      e\<lparr>en_store := s', en_out := en_out e @ (tx, MRangeSize (length data)) # map (\<lambda>l. (tx, MRangeData l)) ?leaves\<rparr>"
    using assms(4,5) by (simp add: export_ranges_def on_store_def tx_send_def send_ranges_all)
  show "concat (map leaf_data ?leaves) = concat (map (requested data) ranges)"
    by (induction ranges) (simp_all add: range_leaves_concat)
  show "\<forall>l \<in> set ?leaves. leaf_fits data l"
    by (auto intro: range_leaves_fit)
qed

lemma export_bao_all:
  assumes "room X tx = None" and "store_get X h (en_store e) = (Inr (Some data), s')"
  shows "export_bao X h ranges tx e =
    e\<lparr>en_store := s', en_out := en_out e @ map (\<lambda>l. (tx, MEncodedLeaf l)) (chunk_leaves data 0 (length data))\<rparr>"
  using assms by (simp add: export_bao_def on_store_def send_chunks_all)

section \<open>Imports\<close>

lemma put_leaf_length:
  assumes "put_leaf start d data = Some data'" and "length data < 2 ^ 64"
  shows "length data' = length data"
proof (cases "start + of_nat (length d) \<le> of_nat (length data)")
  case True
  let ?limit = "start + of_nat (length d)"
  have le: "start \<le> ?limit" and n: "unat ?limit - unat start = length d" and d': "data' = overwrite data (unat start) d"
    using assms(1) True by (auto simp: put_leaf_def Let_def split: if_splits)
  have "unat ?limit \<le> unat (of_nat (length data) :: u64)" and "unat start \<le> unat ?limit"
    using True le by (simp_all add: word_le_nat_alt)
  moreover have "unat (of_nat (length data) :: u64) = length data"
    using assms(2) by (simp add: unat_of_nat)
  ultimately show ?thesis
    using n unfolding d' overwrite_def by simp
next
  case False
  then show ?thesis using assms(1) by (simp add: put_leaf_def Let_def)
qed

lemma receive_items_length:
  "receive_items X n rx (data, ob) = Some (data', ob') \<Longrightarrow> length data < 2 ^ 64 \<Longrightarrow> length data' = length data"
proof (induction X n rx "(data, ob)" arbitrary: data ob rule: receive_items.induct)
  case (4 X n offset d rx data ob)
  then show ?case
    by (auto split: option.splits dest: put_leaf_length)
qed (auto split: option.splits)

text \<open>
  C8: an import is accepted only when the bytes received hash to what was asked for: a success means that the
  store holds data of the announced size under the hash. A refusal of the data leaves the store
  as it was.
\<close>

theorem import_bao_verified:
  assumes "backend_laws X" and "store_ok X (en_store e)" and "room X tx = None"
    and "import_bao X h n rx tx e = (True, e')"
  shows "(\<exists>r. en_out e' = en_out e @ [(tx, MUnit r)] \<and>
     (case r of
        Inr _ \<Rightarrow> n \<le> MAX_IMPORT_SIZE \<and>
          (\<exists>d. length d = unat n \<and> hash_of X d = h \<and> blob_view X (en_store e') = (blob_view X (en_store e))(h \<mapsto> d))
      | Inl (ApiIo k m) \<Rightarrow> e' = tx_send_ok X tx (MUnit r) e
      | Inl (ApiOther m) \<Rightarrow> True))"
proof (cases "n > MAX_IMPORT_SIZE")
  case True
  then show ?thesis
    using assms(4) by (auto simp: import_bao_def tx_send_ok_out [OF assms(3)])
next
  case False
  let ?init = "(replicate (unat n) 0, replicate (unat (outboard_size n)) 0)"
  obtain d ob where d: "receive_items X n rx ?init = Some (d, ob)"
    using assms(4) False by (auto simp: import_bao_def split: option.splits)
  have len: "length d = unat n"
    using receive_items_length [OF d] unsigned_less [of n] by simp
  show ?thesis
  proof (cases "hash_of X d = h")
    case False
    then show ?thesis
      using assms(4) \<open>\<not> n > MAX_IMPORT_SIZE\<close> d by (auto simp: import_bao_def tx_send_ok_out [OF assms(3)])
  next
    case True
    obtain q s' where q: "store_put X d (en_store e) = (q, s')" by (rule prod.exhaust)
    show ?thesis
    proof (cases q)
      case (Inl er)
      then show ?thesis
        using assms(4) False d True q by (auto simp: import_bao_def on_store_def tx_send_ok_out [OF assms(3)])
    next
      case (Inr h')
      have e': "e' = tx_send_ok X tx (MUnit (Inr ())) (e\<lparr>en_store := s'\<rparr>)"
        using assms(4) False d True q Inr by (simp add: import_bao_def on_store_def)
      have "blob_view X s' = (blob_view X (en_store e))(h \<mapsto> d)"
        using obj.put_ok [OF assms(1,2) q [unfolded Inr]] True by simp
      then show ?thesis
        using False len True by (intro exI [of _ "Inr ()"]) (auto simp: e' tx_send_ok_out [OF assms(3)])
    qed
  qed
qed

section \<open>Complete streams\<close>

text \<open>
  A piece of the data, at its place, or a parent with its two hashes whose place in the outboard is that of a node
  of the tree: over \<open>n\<close> bytes there are fewer than \<open>n\<close> of them.
\<close>

fun piece_of :: "('w, 'f, 'z) service_ext_scheme \<Rightarrow> bytes \<Rightarrow> bao_item \<Rightarrow> bool" where
  "piece_of X d (BaoLeaf offset p) \<longleftrightarrow> unat offset + length p \<le> length d \<and> p = slice (unat offset) (unat offset + length p) d"
| "piece_of X d (BaoParent node l r) \<longleftrightarrow> length (l @ r) = 64 \<and>
     (\<forall>k. pre_order_offset X (of_nat (length d)) node = Some k \<longrightarrow> unat k < length d)"

definition covered :: "bao_item list \<Rightarrow> nat set" where
  "covered items = {i. \<exists>offset p. BaoLeaf offset p \<in> set items \<and> unat offset \<le> i \<and> i < unat offset + length p}"

text \<open>The leaves have every byte of the data, in pieces of any size and in any order, also more than once.\<close>

definition completes :: "('w, 'f, 'z) service_ext_scheme \<Rightarrow> bytes \<Rightarrow> bao_item list \<Rightarrow> bool" where
  "completes X d items \<longleftrightarrow> list_all (piece_of X d) items \<and> {..<length d} \<subseteq> covered items"

lemma covered_simps [simp]:
  "covered [] = {}" "covered (BaoParent node l r # items) = covered items"
  "covered (BaoLeaf offset p # items) = {unat offset..<unat offset + length p} \<union> covered items"
  unfolding covered_def by (simp_all add: set_eq_iff) (metis bao_item.inject(2))

text \<open>The bytes received so far are those of the data.\<close>

definition holds_at :: "bytes \<Rightarrow> nat set \<Rightarrow> bytes \<Rightarrow> bool" where
  "holds_at d A data \<longleftrightarrow> length data = length d \<and> (\<forall>i \<in> A. i < length d \<longrightarrow> data ! i = d ! i)"

lemma put_leaf_piece:
  assumes "piece_of X d (BaoLeaf offset p)" and "holds_at d A data" and "length d < 2 ^ 64"
  obtains data' where "put_leaf offset p data = Some data'"
    and "holds_at d (A \<union> {unat offset..<unat offset + length p}) data'"
proof
  have fits: "unat offset + length p \<le> length d" and len: "length data = length d"
    using assms by (simp_all add: holds_at_def)
  have u: "unat (of_nat (length p) :: u64) = length p" "unat (of_nat (length d) :: u64) = length d"
    using fits assms(3) by (simp_all add: unat_of_nat)
  have limit: "unat (offset + of_nat (length p)) = unat offset + length p"
    using fits assms(3) u by (subst unat_add_lem [THEN iffD1]) simp_all
  show "put_leaf offset p data = Some (overwrite data (unat offset) p)"
    using fits u limit by (simp add: put_leaf_def Let_def len word_le_nat_alt)
  have "p ! (i - unat offset) = d ! i" if "unat offset \<le> i" "i < unat offset + length p" for i
  proof -
    have "p ! (i - unat offset) = slice (unat offset) (unat offset + length p) d ! (i - unat offset)"
      using assms(1) by simp
    then show ?thesis using that fits by (simp add: slice_def)
  qed
  then show "holds_at d (A \<union> {unat offset..<unat offset + length p}) (overwrite data (unat offset) p)"
    using assms(2) fits by (auto simp: holds_at_def overwrite_def nth_append)
qed

lemma put_parent_piece:
  assumes "piece_of X d (BaoParent node l r)" and "length d \<le> 1024 * 1024 * 1024"
  obtains ob' where "put_parent X (of_nat (length d)) node l r ob = Some ob'"
proof (cases "pre_order_offset X (of_nat (length d)) node")
  case (Some k)
  have k: "unat k < 1024 * 1024 * 1024" using assms Some by auto
  have "unat (k * 64) = unat k * 64"
    using k by (subst unat_mult_lem [THEN iffD1]) simp_all
  then have "k * 64 \<le> k * 64 + 64"
    using k by (subst word_le_nat_alt, subst unat_add_lem [THEN iffD1]) simp_all
  then show ?thesis
    using that assms(1) Some by (cases "k * 64 + 64 \<le> of_nat (length ob)") (auto simp: put_parent_def Let_def)
qed (use that in \<open>simp add: put_parent_def\<close>)

lemma receive_pieces:
  assumes "list_all (piece_of X d) items" and "holds_at d A data" and "length d \<le> 1024 * 1024 * 1024"
  shows "\<exists>data' ob'. receive_items X (of_nat (length d)) (map Inr items) (data, ob) = Some (data', ob') \<and>
    holds_at d (A \<union> covered items) data'"
  using assms(1,2)
proof (induction items arbitrary: A data ob)
  case (Cons item items)
  show ?case
  proof (cases item)
    case (BaoParent node l r)
    then obtain ob' where "put_parent X (of_nat (length d)) node l r ob = Some ob'"
      using Cons.prems(1) put_parent_piece [OF _ assms(3), of X node l r ob] by auto
    then show ?thesis
      using Cons.IH [of A data ob'] Cons.prems BaoParent by simp
  next
    case (BaoLeaf offset p)
    have piece: "piece_of X d (BaoLeaf offset p)" using Cons.prems(1) BaoLeaf by simp
    have "length d < 2 ^ 64" using assms(3) by simp
    from put_leaf_piece [OF piece Cons.prems(2) this] obtain data' where data': "put_leaf offset p data = Some data'"
      "holds_at d (A \<union> {unat offset..<unat offset + length p}) data'" .
    show ?thesis
      using Cons.IH [OF _ data'(2), of ob] Cons.prems(1) data'(1) BaoLeaf by (simp add: Un_assoc)
  qed
qed simp

text \<open>
  C14: every complete stream is accepted. When the items that arrive carry every byte of the data at its place, in
  pieces of any size and order, repeated or not, and between them any parents of the tree, then the
  import under the hash and the size of the data ends normally: the data is written to the store and the answer is that of
  the write. When the write succeeds, the store holds the data under the hash and nothing else changed.
\<close>

theorem import_bao_complete:
  assumes "backend_laws X" and "store_ok X (en_store e)" and "completes X d items" and "length d \<le> 1024 * 1024 * 1024"
    and put: "store_put X d (en_store e) = (q, s')"
  shows "import_bao X (hash_of X d) (of_nat (length d)) (map Inr items) tx e =
      (True, tx_send_ok X tx (MUnit (case q of Inr _ \<Rightarrow> Inr () | Inl er \<Rightarrow> Inl (ApiOther (error_text X er)))) (e\<lparr>en_store := s'\<rparr>)) \<and>
    (\<not> isl q \<longrightarrow> blob_view X s' = (blob_view X (en_store e))(hash_of X d \<mapsto> d))"
proof -
  have u: "unat (of_nat (length d) :: u64) = length d"
    using assms(4) by (simp add: unat_of_nat)
  have "holds_at d {} (replicate (length d) 0)" by (simp add: holds_at_def)
  with assms(3) obtain data' ob' where r: "receive_items X (of_nat (length d)) (map Inr items)
      (replicate (length d) 0, replicate (unat (outboard_size (of_nat (length d)))) 0) = Some (data', ob')"
    and holds: "holds_at d (covered items) data'"
    using receive_pieces [OF _ _ assms(4), of X items "{}"] unfolding completes_def by fastforce
  have "data' = d"
    using holds assms(3) by (intro nth_equalityI) (auto simp: holds_at_def completes_def)
  moreover have "\<not> (of_nat (length d) :: u64) > MAX_IMPORT_SIZE"
    using assms(4) u by (simp add: MAX_IMPORT_SIZE_def word_less_nat_alt)
  moreover have "blob_view X s' = (blob_view X (en_store e))(hash_of X d \<mapsto> d)" if "\<not> isl q"
    using that obj.put_ok [OF assms(1,2)] put by (cases q) auto
  ultimately show ?thesis
    using r put by (auto simp: import_bao_def u on_store_def split: sum.split)
qed

section \<open>Witnesses\<close>

definition sample_env :: "sample_backend_world blob_store \<Rightarrow> (sample_backend_world, unit) env" where
  "sample_env s = \<lparr>en_store = s, en_files = (), en_out = []\<rparr>"

lemma sample_env_sel [simp]:
  "en_store (sample_env s) = s" "en_files (sample_env s) = ()" "en_out (sample_env s) = []"
  by (simp_all add: sample_env_def)

lemma sample_empty_ok: "store_ok sample_actor (empty_store [])"
  using sample_actor_ok [of "[]"] by (simp add: actor_ok_def actor_new_def)

lemma h7_length [simp]: "length h7 = 32"
  by (simp add: h7_def)

lemma sample_get: "\<exists>s'. store_get sample_actor h7 sample_held = (Inr (Some [7]), s')"
  by (simp add: sample_held_eq store_run_defs data_key_def)

theorem export_ranges_exact_witness:
  "\<exists>leaves. concat (map leaf_data leaves) = concat (map (requested [7]) [Range 0 5, RangeFrom 0, Range 3 9]) \<and>
    sent_on 1 (en_out (export_ranges sample_actor h7 [Range 0 5, RangeFrom 0, Range 3 9] 1 (sample_env sample_held))) =
      MRangeSize 1 # map MRangeData leaves"
proof -
  obtain s' where g: "store_get sample_actor h7 (en_store (sample_env sample_held)) = (Inr (Some [7]), s')"
    using sample_get by auto
  show ?thesis
    using export_ranges_exact [OF sample_actor_laws(2) _ h7_length _ g, of 1 "[Range 0 5, RangeFrom 0, Range 3 9]"]
      sample_held_ok by (auto simp: sent_on_def filter_map o_def)
qed

theorem import_bao_verified_witness:
  "\<exists>r. en_out (snd (import_bao sample_actor h7 1 [Inr (BaoLeaf 0 [7])] 2 (sample_env (empty_store [])))) = [(2, MUnit r)]"
proof -
  have "put_leaf 0 [7] (replicate (unat (1 :: u64)) 0) = Some [7]"
    by (simp add: put_leaf_def overwrite_def)
  then have "fst (import_bao sample_actor h7 1 [Inr (BaoLeaf 0 [7])] 2 (sample_env (empty_store [])))"
    by (auto simp: import_bao_def MAX_IMPORT_SIZE_def split: sum.splits prod.splits)
  then show ?thesis
    using import_bao_verified [OF sample_actor_laws(2), of "sample_env (empty_store [])" 2 h7 1 "[Inr (BaoLeaf 0 [7])]"
        "snd (import_bao sample_actor h7 1 [Inr (BaoLeaf 0 [7])] 2 (sample_env (empty_store [])))"] sample_empty_ok
    by (cases "import_bao sample_actor h7 1 [Inr (BaoLeaf 0 [7])] 2 (sample_env (empty_store []))") auto
qed

theorem import_bao_complete_witness:
  "\<exists>s'. import_bao sample_actor (hash_of sample_actor [7, 8, 9]) 3 [Inr (BaoLeaf 1 [8, 9]), Inr (BaoLeaf 0 [7, 8])] 2
     (sample_env (empty_store [])) = (True, tx_send_ok sample_actor 2 (MUnit (Inr ())) (sample_env s')) \<and>
   blob_view sample_actor s' (hash_of sample_actor [7, 8, 9]) = Some [7, 8, 9]"
proof -
  obtain h' s' where p: "store_put sample_actor [7, 8, 9] (en_store (sample_env (empty_store []))) = (Inr h', s')"
    by (simp add: store_run_defs)
  have "completes sample_actor [7, 8, 9] [BaoLeaf 1 [8, 9], BaoLeaf 0 [7, 8]]"
    by (auto simp: completes_def slice_def)
  from import_bao_complete [OF sample_actor_laws(2) _ this _ p, of 2] show ?thesis
    using sample_empty_ok by (auto simp: sample_env_def)
qed

end
