(* ===== verification/Gateway.thy ===== *)
theory Gateway
  imports Persist File_Ops Sql_Log Inode_Table
begin

text \<open>
  \<open>daemon/src/http_server/html/gateway/mod.rs\<close> and \<open>gateway_index.rs\<close>: the web gateway, which shows
  the files of published buckets to visitors.

  A request is the bucket, the path, the query parameters and the two headers the code looks at
  (a header is present when it is readable text). A response is its status, its headers and its
  body. Loading and reading go through the theories of the mount and of the SQL bucket log. The
  crates \<open>regex\<close>, \<open>pulldown_cmark\<close>, \<open>askama\<close> and \<open>serde_json\<close>, the text of hashes, identifiers and floating
  point sizes, and lossy UTF-8 decoding are the fields of \<open>gateway_ext\<close>. A deep listing recurses along the
  tree, with fuel for its depth; \<open>None\<close> is a listing that needs more.
\<close>

section \<open>Data\<close>

record gateway_query =
  q_at :: "string option"
  q_download :: "bool option"
  q_view :: "bool option"
  q_deep :: "bool option"

record request_headers =
  rh_host :: "string option"
  rh_accept :: "string option"

record path_segment =
  seg_name :: string
  seg_path :: string

record file_display_info =
  fd_name :: string
  fd_path :: string
  fd_mime_type :: string
  fd_is_dir :: bool

record explorer_template =
  et_bucket_id :: string
  et_bucket_id_short :: string
  et_bucket_name :: string
  et_bucket_link :: string
  et_bucket_link_short :: string
  et_path_segments :: "path_segment list"
  et_items :: "file_display_info list"

record viewer_template =
  vt_bucket_id :: string
  vt_bucket_id_short :: string
  vt_bucket_name :: string
  vt_bucket_link :: string
  vt_bucket_link_short :: string
  vt_file_path :: string
  vt_file_name :: string
  vt_mime_type :: string
  vt_size_formatted :: string
  vt_content :: string
  vt_back_url :: string

record directory_entry =
  de_name :: string
  de_path :: string
  de_mime_type :: string

record directory_listing =
  dl_path :: string
  dl_entries :: "directory_entry list"

record file_metadata =
  me_path :: string
  me_name :: string
  me_mime_type :: string
  me_size :: nat
  me_size_formatted :: string

datatype body = Text string | Bytes bytes

record response =
  rs_status :: nat
  rs_headers :: "(string \<times> string) list"
  rs_body :: body

text \<open>What comes of a request: a response, or a panic of the task that handles it.\<close>

datatype served = Response response | Panicked string

record gateway_ext =
  hash_from_str :: "string \<Rightarrow> hash option"
  hash_text :: "hash \<Rightarrow> string"
  uuid_text :: "uuid \<Rightarrow> string"
  from_utf8_lossy :: "bytes \<Rightarrow> string"
  replace_attrs :: "(string \<Rightarrow> string \<Rightarrow> string) \<Rightarrow> string \<Rightarrow> string"
  replace_links :: "(string \<Rightarrow> string) \<Rightarrow> string \<Rightarrow> string"
  push_html :: "string \<Rightarrow> string"
  render_explorer :: "explorer_template \<Rightarrow> string option"
  render_viewer :: "viewer_template \<Rightarrow> string option"
  json_listing :: "directory_listing \<Rightarrow> string"
  json_metadata :: "file_metadata \<Rightarrow> string"
  header_value_ok :: "string \<Rightarrow> bool"
  header_error_text :: string

text \<open>
  Headers given as text are converted when the response is built; a text that is no header value
  (\<open>header_value_ok\<close>) makes the framework answer 500 with the text of that error instead.
\<close>

definition with_headers :: "'z gateway_ext_scheme \<Rightarrow> response \<Rightarrow> response" where
  "with_headers G r =
     (if list_all (\<lambda>(k, v). header_value_ok G v) (rs_headers r) then r
      else \<lparr>rs_status = 500, rs_headers = [], rs_body = Text (header_error_text G)\<rparr>)"

section \<open>Text\<close>

text \<open>\<open>str::find\<close>: the first position of a substring.\<close>

fun str_find :: "string \<Rightarrow> string \<Rightarrow> nat option" where
  "str_find t [] = (if t = [] then Some 0 else None)"
| "str_find t (c # cs) = (if prefix t (c # cs) then Some 0 else map_option Suc (str_find t cs))"

definition trim_end_slash :: "string \<Rightarrow> string" where
  "trim_end_slash s = rev (dropWhile (\<lambda>c. c = CHR ''/'') (rev s))"

text \<open>A path as text (\<open>to_str\<close>, \<open>display\<close>).\<close>

fun join_slash :: "string list \<Rightarrow> string" where
  "join_slash [] = []"
| "join_slash [w] = w"
| "join_slash (w # ws) = w @ CHR ''/'' # join_slash ws"

definition path_text :: "path \<Rightarrow> string" where
  "path_text p =
     (if is_absolute p then CHR ''/'' # join_slash (map comp_str (tl p)) else join_slash (map comp_str p))"

definition host_url :: "request_headers \<Rightarrow> string" where
  "host_url rh =
     (case rh_host rh of
        None \<Rightarrow> ''http://localhost''
      | Some h \<Rightarrow>
          if prefix ''http://'' h \<or> prefix ''https://'' h then h
          else if str_find ''localhost'' h \<noteq> None \<or> prefix ''127.0.0.1'' h then ''http://'' @ h
          else ''https://'' @ h)"

definition wants_json :: "request_headers \<Rightarrow> bool" where
  "wants_json rh =
     (case rh_accept rh of
        None \<Rightarrow> False
      | Some accept \<Rightarrow>
          (case (str_find ''application/json'' accept, str_find ''text/html'' accept) of
             (Some j, Some h) \<Rightarrow> j < h
           | (Some _, None) \<Rightarrow> True
           | _ \<Rightarrow> False))"

fun segments_from :: "string \<Rightarrow> string list \<Rightarrow> path_segment list" where
  "segments_from current [] = []"
| "segments_from current (part # parts) =
     (if part = [] then segments_from current parts
      else (let current' = current @ CHR ''/'' # part
            in \<lparr>seg_name = part, seg_path = current'\<rparr> # segments_from current' parts))"

definition build_path_segments :: "string \<Rightarrow> path_segment list" where
  "build_path_segments p =
     (if p = ''/'' then [] else segments_from [] (split_slash (dropWhile (\<lambda>c. c = CHR ''/'') p)))"

definition get_parent_path :: "string \<Rightarrow> string" where
  "get_parent_path p =
     (if p = ''/'' then ''/''
      else (let trimmed = trim_end_slash p
            in case rfind_slash trimmed of
                 Some 0 \<Rightarrow> ''/''
               | Some pos \<Rightarrow> take pos trimmed
               | None \<Rightarrow> ''/''))"

text \<open>Hexadecimal digits, at least \<open>w\<close> of them.\<close>

definition hex_digit :: "nat \<Rightarrow> char" where
  "hex_digit n = ''0123456789abcdef'' ! n"

fun hex_digits :: "nat \<Rightarrow> string" where
  "hex_digits n = (if n < 16 then [hex_digit n] else hex_digits (n div 16) @ [hex_digit (n mod 16)])"

declare hex_digits.simps [simp del]

definition hex_pad :: "nat \<Rightarrow> nat \<Rightarrow> string" where
  "hex_pad w n = replicate (w - length (hex_digits n)) (CHR ''0'') @ hex_digits n"

text \<open>\<open>slice::chunks\<close>: the last chunk may be shorter.\<close>

fun chunks :: "nat \<Rightarrow> 'a list \<Rightarrow> 'a list list" where
  "chunks n xs = (if xs = [] \<or> n = 0 then [] else take n xs # chunks n (drop n xs))"

declare chunks.simps [simp del]

definition dump_char :: "byte \<Rightarrow> char" where
  "dump_char b = (if 32 \<le> b \<and> b < 127 then char_of (unat b) else CHR ''.'')"

definition gap :: "nat \<Rightarrow> string" where
  "gap j = (if j = 7 then '' '' else [])"

definition dump_line :: "nat \<Rightarrow> bytes \<Rightarrow> string" where
  "dump_line i chunk =
     hex_pad 8 (i * 16) @ ''  '' @
     concat (map (\<lambda>(j, b). hex_pad 2 (unat b) @ '' '' @ gap j) (enumerate 0 chunk)) @
     concat (map (\<lambda>j. ''   '' @ gap j) [length chunk..<16]) @
     '' '' @ map dump_char chunk @ [CHR 0x0A]"

fun decimal :: "nat \<Rightarrow> string" where
  "decimal n = (if n < 10 then [''0123456789'' ! n] else decimal (n div 10) @ [''0123456789'' ! (n mod 10)])"

declare decimal.simps [simp del]

definition to_hex_dump :: "bytes \<Rightarrow> nat \<Rightarrow> string" where
  "to_hex_dump data max_bytes =
     (let bytes_to_show = min (length data) max_bytes
      in concat (map (\<lambda>(i, chunk). dump_line i chunk) (enumerate 0 (chunks 16 (take bytes_to_show data)))) @
         (if length data > max_bytes
          then CHR 0x0A # ''... ('' @ decimal (length data - max_bytes) @ '' more bytes)'' @ [CHR 0x0A] else []))"

text \<open>\<open>format_bytes\<close>: the quotient by a power of 1024 is exact in a \<open>f64\<close> for sizes below $2^{53}$, and \<open>{:.2}\<close>
rounds the exact value to hundredths, halves to the even neighbour.\<close>

fun log1024 :: "nat \<Rightarrow> nat" where
  "log1024 n = (if n < 1024 then 0 else Suc (log1024 (n div 1024)))"

declare log1024.simps [simp del]

definition round_half_even :: "nat \<Rightarrow> nat \<Rightarrow> nat" where
  "round_half_even a b = (let q = a div b; m = 2 * (a mod b)
     in if m > b \<or> (m = b \<and> odd q) then q + 1 else q)"

definition format_bytes :: "nat \<Rightarrow> string" where
  "format_bytes n = (if n = 0 then ''0 B''
     else let i = min (log1024 n) 4; h = round_half_even (100 * n) (1024 ^ i)
          in decimal (h div 100) @ ''.'' @ decimal (h mod 100 div 10) @ decimal (h mod 10) @ '' '' @
             [''B'', ''KB'', ''MB'', ''GB'', ''TB''] ! i)"

lemma round_half_even_near:
  assumes "0 < b"
  shows "2 * a \<le> 2 * (round_half_even a b * b) + b \<and> 2 * (round_half_even a b * b) \<le> 2 * a + b"
proof -
  have e: "2 * a = 2 * (a div b * b) + 2 * (a mod b)" by (metis div_mult_mod_eq distrib_left)
  have m: "a mod b < b" using assms by simp
  consider (up) "round_half_even a b * b = a div b * b + b" "2 * (a mod b) \<ge> b" |
    (down) "round_half_even a b = a div b" "2 * (a mod b) \<le> b"
    by (fastforce simp: round_half_even_def Let_def split: if_splits)
  then show ?thesis
  proof cases
    case up
    show ?thesis unfolding up(1) using e m up(2) by simp
  next
    case down
    show ?thesis unfolding down(1) using e m down(2) by simp
  qed
qed

lemma log1024_bounds: "0 < n \<Longrightarrow> 1024 ^ log1024 n \<le> n \<and> n < 1024 ^ Suc (log1024 n)"
proof (induction n rule: log1024.induct)
  case (1 n)
  show ?case
  proof (cases "n < 1024")
    case True
    then show ?thesis using 1 by (simp add: log1024.simps [of n])
  next
    case False
    then have "1024 ^ log1024 (n div 1024) \<le> n div 1024" "n div 1024 < 1024 ^ Suc (log1024 (n div 1024))"
      using 1 by auto
    then have "1024 ^ log1024 (n div 1024) * 1024 \<le> n" "n < 1024 ^ Suc (log1024 (n div 1024)) * 1024"
      by (simp_all add: less_eq_div_iff_mult_less_eq div_less_iff_less_mult)
    then show ?thesis using False by (simp add: log1024.simps [of n] mult.commute)
  qed
qed

text \<open>The unit of a size below 1024 TB is the one in which it is at least 1 and below 1024.\<close>

lemma format_bytes_unit:
  assumes "0 < n" "n < 1024 ^ 5"
  shows "1024 ^ min (log1024 n) 4 \<le> n \<and> n < 1024 * 1024 ^ min (log1024 n) 4"
proof -
  have "(1024::nat) ^ log1024 n < 1024 ^ 5"
    using log1024_bounds [OF assms(1)] assms(2) by simp
  then have "log1024 n < 5" by (simp only: power_strict_increasing_iff)
  then show ?thesis using log1024_bounds [OF assms(1)] by (simp add: min_def)
qed

section \<open>Links\<close>

text \<open>The fold over the components: \<open>..\<close> takes a name off, names are added, everything else is dropped.\<close>

fun normalize_components :: "path \<Rightarrow> string list \<Rightarrow> string list" where
  "normalize_components [] acc = acc"
| "normalize_components (ParentDir # cs) acc = normalize_components cs (butlast acc)"
| "normalize_components (Normal part # cs) acc = normalize_components cs (acc @ [part])"
| "normalize_components (_ # cs) acc = normalize_components cs acc"

definition parent_text :: "string \<Rightarrow> string" where
  "parent_text s = (case parent (components s) of Some p \<Rightarrow> path_text p | None \<Rightarrow> [])"

definition resolve_relative_url :: "gateway_ext \<Rightarrow> string \<Rightarrow> string \<Rightarrow> uuid \<Rightarrow> string \<Rightarrow> string" where
  "resolve_relative_url G url current_dir i host =
     (let path =
        (if prefix ''./'' url then current_dir @ CHR ''/'' # drop 2 url
         else if prefix ''../'' url then parent_text current_dir @ CHR ''/'' # drop 3 url
         else if prefix ''/'' url then url
         else current_dir @ CHR ''/'' # url)
      in trim_end_slash host @ ''/gw/'' @ uuid_text G i @ CHR ''/'' #
         join_slash (normalize_components (components path) []))"

definition rewrite_relative_urls :: "gateway_ext \<Rightarrow> string \<Rightarrow> string \<Rightarrow> uuid \<Rightarrow> string \<Rightarrow> string" where
  "rewrite_relative_urls G content current_path i host =
     (let current_dir = (if current_path = ''/'' then [] else parent_text current_path);
          content1 = replace_attrs G (\<lambda>attr url.
            attr @ ''=\"'' @ resolve_relative_url G url current_dir i host @ ''\"'') content
      in replace_links G (\<lambda>url. '']('' @ resolve_relative_url G url current_dir i host @ '')'') content1)"

definition page_head :: "string list" where
  "page_head = [
     ''<!DOCTYPE html>'',
     ''<html>'',
     ''<head>'',
     ''    <meta charset=\"UTF-8\">'',
     ''    <meta name=\"viewport\" content=\"width=device-width, initial-scale=1.0\">'',
     ''    <style>'',
     ''        body { font-family: -apple-system, BlinkMacSystemFont, \"Segoe UI\", Roboto, sans-serif; max-width: 800px; margin: 40px auto; padding: 0 20px; line-height: 1.6; }'',
     ''        img { max-width: 100%; height: auto; }'',
     ''        code { background: #f4f4f4; padding: 2px 6px; border-radius: 3px; }'',
     ''        pre { background: #f4f4f4; padding: 12px; border-radius: 5px; overflow-x: auto; }'',
     ''        table { border-collapse: collapse; width: 100%; }'',
     ''        th, td { border: 1px solid #ddd; padding: 8px; text-align: left; }'',
     ''        th { background-color: #f4f4f4; }'',
     ''    </style>'',
     ''</head>'',
     ''<body>'']"

definition unlines :: "string list \<Rightarrow> string" where
  "unlines ls = concat (map (\<lambda>l. l @ [CHR 0x0A]) ls)"

text \<open>The document around the output of the Markdown renderer.\<close>

definition markdown_to_html :: "gateway_ext \<Rightarrow> string \<Rightarrow> string" where
  "markdown_to_html G markdown = unlines page_head @ push_html G markdown @ CHR 0x0A # ''</body>'' @ CHR 0x0A # ''</html>''"

section \<open>Responses\<close>

definition error_response :: "string \<Rightarrow> response" where
  "error_response message = \<lparr>rs_status = 500, rs_headers = [], rs_body = Text (''Error: '' @ message)\<rparr>"

definition syncing_response :: response where
  "syncing_response = \<lparr>rs_status = 503, rs_headers = [(''retry-after'', ''5'')],
     rs_body = Text ''Bucket is still syncing. Please try again in a moment.''\<rparr>"

definition not_found_response :: "string \<Rightarrow> response" where
  "not_found_response message = \<lparr>rs_status = 404, rs_headers = [], rs_body = Text (''Not found: '' @ message)\<rparr>"

definition ok_response :: "string \<Rightarrow> body \<Rightarrow> response" where
  "ok_response mime b = \<lparr>rs_status = 200, rs_headers = [(''content-type'', mime)], rs_body = b\<rparr>"

fun mime_of_link :: "node_link \<Rightarrow> string" where
  "mime_of_link (Dir _ _) = ''inode/directory''"
| "mime_of_link (Data _ _ d) = (case d_mime d of Some m \<Rightarrow> m | None \<Rightarrow> ''application/octet-stream'')"

definition name_or :: "string \<Rightarrow> path \<Rightarrow> string" where
  "name_or d p = (case file_name p of Some n \<Rightarrow> n | None \<Rightarrow> d)"

text \<open>\<open>find_index_file\<close>: the first candidate at which something exists.\<close>

definition index_candidates :: "(string \<times> string) list" where
  "index_candidates = [(''index.html'', ''text/html''), (''index.htm'', ''text/html''),
     (''index.md'', ''text/markdown''), (''index.txt'', ''text/plain'')]"

definition find_index_file ::
  "('w, 'z) mount_ext_scheme \<Rightarrow> path \<Rightarrow> 'w mount_state \<Rightarrow> (path \<times> string) option" where
  "find_index_file E dir s =
     map_option (\<lambda>(n, mime). (push dir (components n), mime))
       (find (\<lambda>(n, mime). \<not> isl (mount_get E (push dir (components n)) s)) index_candidates)"

record bucket_header =
  bh_id :: uuid
  bh_id_str :: string
  bh_id_short :: string
  bh_name :: string
  bh_link :: string
  bh_link_short :: string

definition render_page :: "gateway_ext \<Rightarrow> bytes \<Rightarrow> string \<Rightarrow> string \<Rightarrow> uuid \<Rightarrow> string \<Rightarrow> body" where
  "render_page G data mime current_path i host =
     (let content = from_utf8_lossy G data
      in Text (rewrite_relative_urls G
           (if mime = ''text/markdown'' then markdown_to_html G content else content) current_path i host))"

definition serve_index ::
  "('w, 'z) mount_ext_scheme \<Rightarrow> gateway_ext \<Rightarrow> path \<Rightarrow> string \<Rightarrow> uuid \<Rightarrow> string \<Rightarrow> 'w mount_state \<Rightarrow> response" where
  "serve_index E G index_path mime i host s =
     (case mount_cat E index_path s of
        Inl _ \<Rightarrow> error_response ''Failed to read index file''
      | Inr data \<Rightarrow>
          if mime = ''text/markdown'' \<or> mime = ''text/html''
          then ok_response ''text/html; charset=utf-8'' (render_page G data mime (path_text index_path) i host)
          else ok_response ''text/plain; charset=utf-8'' (Bytes data))"

definition list_directory ::
  "gateway_ext \<Rightarrow> (path, node_link) btree \<Rightarrow> string \<Rightarrow> request_headers \<Rightarrow> bucket_header \<Rightarrow> response" where
  "list_directory G items absolute_path rh bh =
     (if wants_json rh then
        ok_response ''application/json'' (Text (json_listing G
          \<lparr>dl_path = absolute_path,
           dl_entries = map (\<lambda>(p, l). \<lparr>de_name = name_or [] p, de_path = CHR ''/'' # path_text p,
             de_mime_type = mime_of_link l\<rparr>) items\<rparr>))
      else
        (case render_explorer G
           \<lparr>et_bucket_id = bh_id_str bh, et_bucket_id_short = bh_id_short bh, et_bucket_name = bh_name bh,
            et_bucket_link = bh_link bh, et_bucket_link_short = bh_link_short bh,
            et_path_segments = build_path_segments absolute_path,
            et_items = map (\<lambda>(p, l). \<lparr>fd_name = name_or [] p, fd_path = CHR ''/'' # path_text p,
              fd_mime_type = mime_of_link l, fd_is_dir = is_dir l\<rparr>) items\<rparr> of
           Some html \<Rightarrow> ok_response ''text/html; charset=utf-8'' (Text html)
         | None \<Rightarrow> error_response ''Failed to render page''))"

definition handle_directory ::
  "nat \<Rightarrow> ('w, 'z) mount_ext_scheme \<Rightarrow> gateway_ext \<Rightarrow> 'w mount_state \<Rightarrow> path \<Rightarrow> string \<Rightarrow> gateway_query \<Rightarrow>
     request_headers \<Rightarrow> string \<Rightarrow> bucket_header \<Rightarrow> served option" where
  "handle_directory fuel E G s path_buf absolute_path query rh host bh =
     (case (if wants_json rh then None else find_index_file E path_buf s) of
        Some (index_path, mime) \<Rightarrow> Some (Response (serve_index E G index_path mime (bh_id bh) host s))
      | None \<Rightarrow>
          (case (if q_deep query = Some True then mount_ls_deep fuel E path_buf s
                 else Some (mount_ls E path_buf s)) of
             None \<Rightarrow> None
           | Some (Inl _) \<Rightarrow> Some (Response (error_response ''Failed to list directory''))
           | Some (Inr items) \<Rightarrow> Some (Response (list_directory G items absolute_path rh bh))))"

definition is_text_mime :: "string \<Rightarrow> bool" where
  "is_text_mime m \<longleftrightarrow> prefix ''text/'' m \<or> m = ''application/json'' \<or> m = ''application/xml'' \<or>
     m = ''application/javascript''"

definition view_file ::
  "gateway_ext \<Rightarrow> bytes \<Rightarrow> string \<Rightarrow> string \<Rightarrow> string \<Rightarrow> bucket_header \<Rightarrow> response" where
  "view_file G data absolute_path name mime bh =
     (case render_viewer G
        \<lparr>vt_bucket_id = bh_id_str bh, vt_bucket_id_short = bh_id_short bh, vt_bucket_name = bh_name bh,
         vt_bucket_link = bh_link bh, vt_bucket_link_short = bh_link_short bh,
         vt_file_path = absolute_path, vt_file_name = name, vt_mime_type = mime,
         vt_size_formatted = format_bytes (length data),
         vt_content = (if is_text_mime mime then from_utf8_lossy G data else to_hex_dump data 1024),
         vt_back_url = ''/gw/'' @ uuid_text G (bh_id bh) @ get_parent_path absolute_path\<rparr> of
        Some html \<Rightarrow> ok_response ''text/html; charset=utf-8'' (Text html)
      | None \<Rightarrow> error_response ''Failed to render page'')"

definition handle_file ::
  "('w, 'z) mount_ext_scheme \<Rightarrow> gateway_ext \<Rightarrow> 'w mount_state \<Rightarrow> path \<Rightarrow> string \<Rightarrow> gateway_query \<Rightarrow>
     request_headers \<Rightarrow> string \<Rightarrow> bucket_header \<Rightarrow> node_link \<Rightarrow> response" where
  "handle_file E G s path_buf absolute_path query rh host bh nl =
     (let mime = mime_of_link nl; name = name_or ''file'' path_buf in
      case mount_cat E path_buf s of
        Inl _ \<Rightarrow> error_response ''Failed to read file''
      | Inr data \<Rightarrow>
          if q_download query = Some True then
            with_headers G \<lparr>rs_status = 200, rs_headers = [(''content-type'', mime),
               (''content-disposition'', ''attachment; filename=\"'' @ name @ ''\"'')], rs_body = Bytes data\<rparr>
          else if wants_json rh then
            ok_response ''application/json'' (Text (json_metadata G
              \<lparr>me_path = absolute_path, me_name = name, me_mime_type = mime, me_size = length data,
               me_size_formatted = format_bytes (length data)\<rparr>))
          else if (mime = ''text/html'' \<or> mime = ''text/markdown'') \<and> q_view query \<noteq> Some True then
            with_headers G \<lparr>rs_status = 200, rs_headers = [(''content-type'', ''text/html; charset=utf-8''),
               (''content-disposition'', ''inline; filename=\"'' @ name @ ''\"'')],
             rs_body = render_page G data mime absolute_path (bh_id bh) host\<rparr>
          else view_file G data absolute_path name mime bh)"

definition short_text :: "nat \<Rightarrow> nat \<Rightarrow> string \<Rightarrow> string" where
  "short_text a b s = take a s @ ''...'' @ drop (length s - b) s"

section \<open>The handler\<close>

text \<open>What the handler does with a version once it is loaded.\<close>

definition serve_mount ::
  "nat \<Rightarrow> ('w, 'z) mount_ext_scheme \<Rightarrow> gateway_ext \<Rightarrow> uuid \<Rightarrow> string \<Rightarrow> gateway_query \<Rightarrow> request_headers \<Rightarrow>
     mount_inner \<Rightarrow> 'w \<Rightarrow> served option" where
  "serve_mount fuel E G i absolute_path query rh m w =
     (let s = (m, w); host = host_url rh; path_buf = components absolute_path;
          bh = \<lparr>bh_id = i, bh_id_str = uuid_text G i, bh_id_short = short_text 8 4 (uuid_text G i),
                bh_name = m_name (mi_manifest m), bh_link = hash_text G (link_hash (mi_link m)),
                bh_link_short = short_text 8 8 (hash_text G (link_hash (mi_link m)))\<rparr>
      in if absolute_path = ''/''
         then handle_directory fuel E G s path_buf absolute_path query rh host bh
         else (case mount_get E path_buf s of
             Inl (MtPanic msg) \<Rightarrow> Some (Panicked msg)
           | Inl _ \<Rightarrow> Some (Response (not_found_response (''Path not found: '' @ absolute_path)))
           | Inr (Dir l k) \<Rightarrow> handle_directory fuel E G s path_buf absolute_path query rh host bh
           | Inr (Data l k d) \<Rightarrow>
               Some (Response (handle_file E G s path_buf absolute_path query rh host bh (Data l k d)))))"

definition gateway_handler ::
  "nat \<Rightarrow> ('w, 'z) mount_ext_scheme \<Rightarrow> gateway_ext \<Rightarrow> database \<Rightarrow> secret_key \<Rightarrow> 'w \<Rightarrow> uuid \<Rightarrow> string \<Rightarrow>
     gateway_query \<Rightarrow> request_headers \<Rightarrow> served option" where
  "gateway_handler fuel E G db sk w i file_path query rh =
     (let absolute_path = (if prefix ''/'' file_path then file_path else CHR ''/'' # file_path) in
      case q_at query of
        Some at_text \<Rightarrow>
          (case hash_from_str G at_text of
             None \<Rightarrow> Some (Response (error_response ''Invalid hash format''))
           | Some h \<Rightarrow>
               (case mount_load E (link_new LD_RAW_CODEC h) sk w of
                  Inl (MtPanic msg) \<Rightarrow> Some (Panicked msg)
                | Inl _ \<Rightarrow> Some (Response (error_response ''Failed to load historical version''))
                | Inr m \<Rightarrow> serve_mount fuel E G i absolute_path query rh m w))
      | None \<Rightarrow>
          (case sql_latest_published db i of
             Inr (Some (published_link, _)) \<Rightarrow>
               (case mount_load E published_link sk w of
                  Inl (MtPanic msg) \<Rightarrow> Some (Panicked msg)
                | Inl _ \<Rightarrow> Some (Response syncing_response)
                | Inr m \<Rightarrow> serve_mount fuel E G i absolute_path query rh m w)
           | Inr None \<Rightarrow> Some (Response syncing_response)
           | Inl e \<Rightarrow> log_error (\<lambda>_. Some (Response syncing_response)) (\<lambda>msg. Some (Panicked msg)) e))"

definition root_handler ::
  "nat \<Rightarrow> ('w, 'z) mount_ext_scheme \<Rightarrow> gateway_ext \<Rightarrow> database \<Rightarrow> secret_key \<Rightarrow> 'w \<Rightarrow> uuid \<Rightarrow>
     gateway_query \<Rightarrow> request_headers \<Rightarrow> served option" where
  "root_handler fuel E G db sk w i query rh = gateway_handler fuel E G db sk w i ''/'' query rh"

section \<open>The index page\<close>

record bucket_display_info =
  bd_id :: uuid
  bd_id_short :: string
  bd_name :: string
  bd_is_published :: bool
  bd_version_short :: string

definition index_buckets :: "gateway_ext \<Rightarrow> database \<Rightarrow> bucket_display_info list" where
  "index_buckets G db =
     (let db_buckets = (case list_bucket_infos db None None of Inr bs \<Rightarrow> bs | Inl _ \<Rightarrow> [])
      in List.map_filter (\<lambda>b.
           case sql_latest_published db (bi_id b) of
             Inr (Some (l, _)) \<Rightarrow>
               Some \<lparr>bd_id = bi_id b, bd_id_short = short_text 8 4 (uuid_text G (bi_id b)),
                 bd_name = bi_name b, bd_is_published = True,
                 bd_version_short = short_text 8 4 (hash_text G (link_hash l))\<rparr>
           | _ \<Rightarrow> None) db_buckets)"

section \<open>Links stay in the bucket\<close>

definition plain_name :: "string \<Rightarrow> bool" where
  "plain_name n \<longleftrightarrow> n \<noteq> [] \<and> CHR ''/'' \<notin> set n \<and> n \<noteq> ''.'' \<and> n \<noteq> ''..''"

lemma split_slash_parts: "w \<in> set (split_slash s) \<Longrightarrow> CHR ''/'' \<notin> set w"
proof (induction s arbitrary: w)
  case (Cons c cs)
  then show ?case
    by (cases "split_slash cs") (auto split: if_splits)
qed simp

lemma part_comp_plain: "Normal n \<in> set (part_comp w) \<Longrightarrow> CHR ''/'' \<notin> set w \<Longrightarrow> plain_name n"
  by (auto simp: part_comp_def plain_name_def split: if_splits)

lemma components_plain: "Normal n \<in> set (components s) \<Longrightarrow> plain_name n"
proof -
  assume "Normal n \<in> set (components s)"
  then obtain w where "w \<in> set (split_slash s)" "Normal n \<in> set (part_comp w)"
    by (cases "split_slash s") (auto simp: components_def split: if_splits)
  then show "plain_name n"
    using split_slash_parts part_comp_plain by blast
qed

lemma normalize_plain:
  assumes "\<forall>n \<in> set acc. plain_name n" and "\<forall>n. Normal n \<in> set cs \<longrightarrow> plain_name n"
  shows "\<forall>n \<in> set (normalize_components cs acc). plain_name n"
  using assms
proof (induction cs acc rule: normalize_components.induct)
  case (2 cs acc)
  then show ?case by (auto dest: in_set_butlastD)
qed auto

text \<open>
  C19: a link in a page, whatever text it is, leads into the bucket: below \<open>/gw/\<close> and the identifier of the bucket it
  has plain names only, so that no \<open>..\<close> takes the visitor out of it.
\<close>

theorem resolved_url_stays_in_bucket:
  "\<exists>ns. list_all plain_name ns \<and>
     resolve_relative_url G url current_dir i host = trim_end_slash host @ ''/gw/'' @ uuid_text G i @ CHR ''/'' # join_slash ns"
proof -
  have "list_all plain_name (normalize_components (components p) [])" for p
    using normalize_plain [of "[]" "components p"] components_plain by (simp add: list_all_iff)
  then show ?thesis
    unfolding resolve_relative_url_def Let_def by blast
qed

section \<open>Published versions\<close>

text \<open>
  C11: without an explicit version the gateway shows the latest published one and nothing else: visitors get the
  version of greatest height among those recorded as published, and the answer \<open>503\<close> as long as there is
  none or loading it fails with an error (a panic of the load ends the request without an answer). In particular the
  head of the bucket plays no role.
\<close>

theorem gateway_shows_published:
  assumes "sql_ok db" and "q_at query = None"
  shows "(if \<exists>r \<in> set (rows_of i db). br_published r
     then \<exists>r \<in> set (rows_of i db). br_published r \<and>
       (\<forall>r' \<in> set (rows_of i db). br_published r' \<longrightarrow> br_height r' \<le> br_height r) \<and>
       gateway_handler fuel E G db sk w i file_path query rh =
         (case mount_load E (row_link r) sk w of
            Inl (MtPanic msg) \<Rightarrow> Some (Panicked msg)
          | Inl _ \<Rightarrow> Some (Response syncing_response)
          | Inr m \<Rightarrow> serve_mount fuel E G i (if prefix ''/'' file_path then file_path else CHR ''/'' # file_path)
              query rh m w)
     else gateway_handler fuel E G db sk w i file_path query rh = Some (Response syncing_response))"
proof (cases "sql_latest_published db i")
  case (Inl e)
  then show ?thesis
    using sql_latest_ok [OF assms(1), of i] by simp
next
  case (Inr x)
  show ?thesis
  proof (cases x)
    case None
    then show ?thesis
      using sql_latest_ok [OF assms(1), of i] Inr assms(2) by (simp add: gateway_handler_def Let_def)
  next
    case (Some p)
    obtain l h where p: "p = (l, h)" by (rule prod.exhaust)
    then obtain r where r: "r \<in> set (rows_of i db)" "row_link r = l" "br_published r"
      "\<forall>r' \<in> set (rows_of i db). br_published r' \<longrightarrow> br_height r' \<le> br_height r"
      using sql_latest_ok [OF assms(1), of i] Inr Some by auto
    then show ?thesis
      using Inr Some p assms(2) by (auto simp: gateway_handler_def Let_def intro!: bexI [of _ r])
  qed
qed

text \<open>A version is loaded by the hash of its manifest; the codec of the link only ends up in the mount.\<close>

lemma mount_load_codec:
  assumes "mount_load E l sk w = Inr m" and "link_hash l' = link_hash l"
  shows "mount_load E l' sk w = Inr (m\<lparr>mi_link := l'\<rparr>)"
proof -
  have man: "get_manifest_from_blobs E l w = Inr x \<Longrightarrow> get_manifest_from_blobs E l' w = Inr x" for x
    using assms(2) by (auto simp: get_manifest_from_blobs_def check_stat_def res_simps split: sum.splits bool.splits)
  show ?thesis
    using assms(1) man by (auto simp: mount_load_def res_simps)
qed

text \<open>
  An explicit version is shown whether it was published or not. A version that an owner saved without publishing
  it is served by the owner's own node to every visitor who asks for its hash, under any bucket identifier.
\<close>

theorem gateway_at_shows_unpublished:
  assumes "mount_laws E" and "mount_ok E (m, w)"
    and "mount_save E False (m, w) = (Inr (l, prev, h), (m', w'))" and "keeps_blobs E w' w''"
    and "get_share E (mi_manifest m) (public E sk) = Some sh" and "sh_role sh = Owner"
    and "q_at query = Some t" and "hash_from_str G t = Some (link_hash l)"
  shows "\<exists>m''. mount_fs E (m'', w'') = mount_fs E (m, w) \<and>
    gateway_handler fuel E G db sk w'' i ''/'' query rh = serve_mount fuel E G i ''/'' query rh m'' w''"
proof -
  obtain m1 where m1: "mount_load E l sk w'' = Inr m1" "mount_fs E (m1, w'') = mount_fs E (m, w)"
    using owner_loads_saved [OF assms(1-3,5,6,4)] by blast
  let ?l = "link_new LD_RAW_CODEC (link_hash l)"
  have load: "mount_load E ?l sk w'' = Inr (m1\<lparr>mi_link := ?l\<rparr>)"
    by (rule mount_load_codec [OF m1(1)]) (simp add: link_new_def)
  have "mount_fs E (m1\<lparr>mi_link := ?l\<rparr>, w'') = mount_fs E (m, w)"
    using m1(2) by (simp add: mount_fs_def)
  then show ?thesis
    using load assms(7,8) by (intro exI [of _ "m1\<lparr>mi_link := ?l\<rparr>"]) (simp add: gateway_handler_def Let_def)
qed

section \<open>Files and directories\<close>

lemma get_file:
  assumes "mount_ok E (m, w)" and "mount_fs E (m, w) (ns @ [x]) = Some ob"
  shows "\<exists>nl. mount_get E (abs_path (ns @ [x])) (m, w) = Inr nl \<and> (is_dir nl \<longleftrightarrow> ob = FDir)"
proof -
  have "node_tree_ok E (set (mi_pins (fst (m, w)))) (snd (m, w)) (mi_entry (fst (m, w)))"
    using mount_ok_tree [OF assms(1)] by simp
  from get_existing [OF this assms(2)] show ?thesis by blast
qed

text \<open>
  A download is the file: for every file of the version, the response to a download has status 200, names the file,
  and its body is the content of the file, byte for byte, unless the name or the type cannot stand in a header.
\<close>

theorem gateway_download_exact:
  assumes "mount_ok E (m, w)" and "\<forall>n \<in> set (ns @ [x]). good_name n"
    and "mount_fs E (m, w) (ns @ [x]) = Some (FFile b)" and "q_download query = Some True"
  shows "\<exists>mime. serve_mount fuel E G i (path_str (ns @ [x])) query rh m w = Some (Response
    (with_headers G \<lparr>rs_status = 200, rs_headers = [(''content-type'', mime),
       (''content-disposition'', ''attachment; filename=\"'' @ x @ ''\"'')], rs_body = Bytes b\<rparr>))"
proof -
  obtain nl where nl: "mount_get E (abs_path (ns @ [x])) (m, w) = Inr nl" "\<not> is_dir nl"
    using get_file [OF assms(1,3)] by auto
  then obtain l k d where d: "nl = Data l k d" by (cases nl) auto
  have path: "components (path_str (ns @ [x])) = abs_path (ns @ [x])" and root: "path_str (ns @ [x]) \<noteq> ''/''"
    using components_path_str [OF assms(2)] path_str_root [OF assms(2)] by auto
  have cat: "mount_cat E (abs_path (ns @ [x])) (m, w) = Inr b"
    by (rule cat_file [OF assms(1,3)])
  show ?thesis
    using nl cat assms(4) root d unfolding serve_mount_def path Let_def
    by (intro exI [of _ "mime_of_link nl"]) (simp add: handle_file_def name_or_def Let_def)
qed

text \<open>
  An index file need not be a file. A directory of the name \<open>index.html\<close> is found first and cannot be read, so that
  visitors of the directory around it get an error instead of the listing or of the next candidate.
\<close>

theorem index_directory_fails:
  assumes "mount_ok E (m, w)" and "mount_fs E (m, w) (ns @ [''index.html'']) = Some FDir" and "\<not> wants_json rh"
  shows "handle_directory fuel E G (m, w) (abs_path ns) absolute_path query rh host bh =
    Some (Response (error_response ''Failed to read index file''))"
proof -
  obtain nl where nl: "mount_get E (abs_path (ns @ [''index.html''])) (m, w) = Inr nl" "is_dir nl"
    using get_file [OF assms(1,2)] by auto
  have "components ''index.html'' = [Normal ''index.html'']"
    by (simp add: components_def part_comp_def)
  then have p: "push (abs_path ns) (components ''index.html'') = abs_path (ns @ [''index.html''])"
    by (simp add: push_def is_absolute_def)
  have find: "find_index_file E (abs_path ns) (m, w) = Some (abs_path (ns @ [''index.html'']), ''text/html'')"
    using nl(1) p by (simp add: find_index_file_def index_candidates_def)
  have "\<exists>e. mount_cat E (abs_path (ns @ [''index.html''])) (m, w) = Inl e"
    using nl by (cases nl) (simp_all add: cat_get [of E "ns @ [''index.html'']", simplified])
  then show ?thesis
    using assms(3) find by (auto simp: handle_directory_def serve_index_def)
qed

text \<open>A path that ends in \<open>..\<close> panics in the handler.\<close>

lemma gateway_dotdot_panics:
  "serve_mount fuel E G i ''/..'' query rh m w = Some (Panicked ''unwrap on None'')"
  by (simp add: serve_mount_def Let_def components_def part_comp_def mount_get_def parent_def file_name_unwrap_def
      file_name_def)

section \<open>Dumps\<close>

lemma hex_digits_length: "0 < k \<Longrightarrow> n < 16 ^ k \<Longrightarrow> length (hex_digits n) \<le> k"
proof (induction k arbitrary: n)
  case (Suc k)
  show ?case
  proof (cases "n < 16")
    case True
    then show ?thesis by (simp add: hex_digits.simps)
  next
    case False
    then have "0 < k"
      using Suc.prems(2) by (cases k) auto
    moreover have "n div 16 < 16 ^ k"
      using Suc.prems(2) by (simp add: less_mult_imp_div_less mult.commute)
    ultimately show ?thesis
      using Suc.IH False by (simp add: hex_digits.simps [of n])
  qed
qed simp

lemma hex_pad_length: "0 < k \<Longrightarrow> n < 16 ^ k \<Longrightarrow> length (hex_pad k n) = k"
  using hex_digits_length by (simp add: hex_pad_def)

lemma dump_bytes_length:
  "length (concat (map (\<lambda>(j, b). hex_pad 2 (unat b) @ '' '' @ gap j) (enumerate k (bs :: bytes)))) =
     3 * length bs + of_bool (k \<le> 7 \<and> 7 < k + length bs)"
proof (induction bs arbitrary: k)
  case (Cons b bs)
  have "unat b < 16 ^ 2"
    using unsigned_less [of b] by simp
  then show ?case
    using Cons by (auto simp: hex_pad_length gap_def)
qed simp

lemma dump_padding_length:
  "k \<le> m \<Longrightarrow> length (concat (map (\<lambda>j. ''   '' @ gap j) [k..<m])) = 3 * (m - k) + of_bool (k \<le> 7 \<and> 7 < m)"
proof (induction m)
  case (Suc m)
  then show ?case
    by (cases "k = Suc m") (auto simp: gap_def)
qed simp

text \<open>Every line of a dump has its text column at the same place, up to the address limit of 8 digits.\<close>

lemma dump_line_length:
  assumes "length chunk \<le> 16" and "i * 16 < 16 ^ 8"
  shows "length (dump_line i chunk) = 61 + length chunk"
  using assms hex_pad_length [of 8 "i * 16"] dump_bytes_length [of 0 chunk] dump_padding_length [of "length chunk" 16]
  by (auto simp: dump_line_def)

section \<open>Witnesses\<close>

definition sample_gateway :: gateway_ext where
  "sample_gateway = \<lparr>hash_from_str = (\<lambda>t. Some (replicate 32 5)), hash_text = (\<lambda>h. ''hash''), uuid_text = (\<lambda>i. ''id''),
     from_utf8_lossy = map (\<lambda>b. char_of (unat b)), replace_attrs = (\<lambda>f s. s),
     replace_links = (\<lambda>f s. s), push_html = id, render_explorer = (\<lambda>t. Some ''page''), render_viewer = (\<lambda>t. Some ''page''),
     json_listing = (\<lambda>l. ''json''), json_metadata = (\<lambda>m. ''json''),
     header_value_ok = list_all (\<lambda>c. 32 \<le> (of_char c :: nat)), header_error_text = ''failed to parse header value''\<rparr>"

definition sample_query :: "string option \<Rightarrow> gateway_query" where
  "sample_query at = \<lparr>q_at = at, q_download = Some True, q_view = None, q_deep = None\<rparr>"

definition no_headers :: request_headers where
  "no_headers = \<lparr>rh_host = None, rh_accept = None\<rparr>"

lemma sample_query_sel [simp]: "q_at (sample_query at) = at" "q_download (sample_query at) = Some True"
  by (simp_all add: sample_query_def)

theorem gateway_shows_published_witness:
  "gateway_handler 0 sample_store sample_gateway two_versions sample_owner (0, []) 0 ''x'' (sample_query None) no_headers =
     Some (Response syncing_response)"
proof -
  have "mount_load sample_store l sample_owner (0, []) = Inl (LinkNotFound l)" for l
    by (simp add: mount_load_def get_manifest_from_blobs_def check_stat_def blob_stat_def sample_store_def)
  then show ?thesis
    using gateway_shows_published [OF sql_reachable_ok [OF two_versions_reachable two_versions_rows], of "sample_query None"
        0 0 sample_store sample_gateway sample_owner "(0, [])" "''x''" no_headers]
    by (auto split: if_splits)
qed

theorem gateway_at_shows_unpublished_witness:
  "\<exists>m''. mount_fs sample_store (m'', snd (snd (mount_save sample_store False (sample_bucket, (0, []))))) =
       mount_fs sample_store (sample_bucket, (0, [])) \<and>
     gateway_handler 0 sample_store sample_gateway sql_new sample_owner
       (snd (snd (mount_save sample_store False (sample_bucket, (0, []))))) 3 ''/'' (sample_query (Some ''v'')) no_headers =
     serve_mount 0 sample_store sample_gateway 3 ''/'' (sample_query (Some ''v'')) no_headers m''
       (snd (snd (mount_save sample_store False (sample_bucket, (0, [])))))"
proof -
  have share: "get_share sample_store (mi_manifest sample_bucket) (public sample_store sample_owner) =
      Some (snd (sample_owner_share 7))"
    by (simp add: get_share_def sample_store_def public_key_to_hex_def public_def sample_bucket_def
        sample_owner_share_def sample_owner_def)
  have role: "sh_role (snd (sample_owner_share 7)) = Owner"
    by (simp add: sh_role_def sample_owner_share_def share_new_owner_def)
  show ?thesis
    using gateway_at_shows_unpublished [OF sample_store_laws sample_bucket_ok sample_save_pair keeps_refl share role,
        of "sample_query (Some ''v'')" "''v''" sample_gateway 0 sql_new 3 no_headers]
    by (simp add: sample_gateway_def link_new_def)
qed

theorem gateway_download_exact_witness:
  "\<exists>mime. serve_mount 0 (sample_ext sample_tables [] []) sample_gateway 3 (path_str [''f'']) (sample_query None) no_headers
     (fst sample_added) (snd sample_added) = Some (Response
    (with_headers sample_gateway \<lparr>rs_status = 200, rs_headers = [(''content-type'', mime),
       (''content-disposition'', ''attachment; filename=\"'' @ ''f'' @ ''\"'')], rs_body = Bytes [7]\<rparr>))"
proof -
  have "good_name ''f''"
    by (simp add: good_name_def is_whitespace_def)
  then show ?thesis
    using gateway_download_exact [of "sample_ext sample_tables [] []" "fst sample_added" "snd sample_added" "[]" "''f''" "[7]"
        "sample_query None" 0 sample_gateway 3 no_headers] sample_added_ok by simp
qed

theorem index_directory_fails_witness:
  "\<exists>m w. handle_directory 0 (sample_ext [[], [(''index.html'', sample_dir 2 0)]] [] []) sample_gateway (m, w) (abs_path [])
     ''/'' (sample_query None) no_headers ''h'' \<lparr>bh_id = 0, bh_id_str = [], bh_id_short = [], bh_name = [], bh_link = [],
       bh_link_short = []\<rparr> = Some (Response (error_response ''Failed to read index file''))"
proof -
  let ?E = "sample_ext [[], [(''index.html'', sample_dir 2 0)]] [] []"
  let ?r = "mount_mkdir ?E (abs_path [''index.html'']) (sample_mount, (0, []))"
  have "fst ?r = Inr ()"
    by (simp add: run_defs mount_mkdir_def new_dir_def)
  then have r: "?r = (Inr (), snd ?r)"
    by (metis prod.collapse)
  obtain m w where mw: "snd ?r = (m, w)" by (rule prod.exhaust)
  have ok: "mount_ok ?E (m, w)" and fs: "mount_fs ?E (m, w) ([] @ [''index.html'']) = Some FDir"
    using mkdir_op.success [OF sample_laws sample_mount_ok TrueI, where ns = "[]" and x = "''index.html''",
        unfolded append_Nil, OF r] mw by (simp_all add: fs_set_def fs_empty_dir_def)
  have json: "\<not> wants_json no_headers"
    by (simp add: wants_json_def no_headers_def)
  show ?thesis
    by (intro exI) (rule index_directory_fails [OF ok fs json])
qed

end
