(* ===== verification/Service.thy ===== *)
theory Service
  imports Peer_Sync Sql_Log Gateway
begin

text \<open>
  Editing a bucket through the service. The handlers of the HTTP API and the commands of the desktop
  application share one pattern: mount the head of the bucket, change the mount, save it with the
  peer. This theory holds that pattern, \<open>edit_bucket\<close>, the steps a change of a mount is made of, and
  what the pattern guarantees: a bucket that its owner can mount stays one, whatever the outcome of the
  request, an answered error leaves the head alone, and a success is the next version with the
  edited files.
\<close>

definition edit_bucket ::
  "('w, 'z) mount_ext_scheme \<Rightarrow> 'l log_provider \<Rightarrow> (mount_error \<Rightarrow> 'e) \<Rightarrow> uuid \<Rightarrow> bool \<Rightarrow>
     ('w mount_state \<Rightarrow> ('e + 'a) \<times> 'w mount_state) \<Rightarrow> ('l, 'w) peer_state \<Rightarrow> ('e + 'a \<times> link) \<times> ('l, 'w) peer_state" where
  "edit_bucket E L err i do_publish edit s =
     (case peer_mount E L i s of
        Inl e \<Rightarrow> (Inl (err e), s)
      | Inr m \<Rightarrow>
          (case edit (m, snd s) of
             (Inl e, s1) \<Rightarrow> (Inl e, (fst s, snd s1))
           | (Inr x, s1) \<Rightarrow>
               (case save_mount E L do_publish (fst s) s1 of
                  (Inl e, (p, s2)) \<Rightarrow> (Inl (err e), (p, snd s2))
                | (Inr l, (p, s2)) \<Rightarrow> (Inr (x, l), (p, snd s2)))))"

section \<open>Edits\<close>

definition owner :: "('w, 'z) mount_ext_scheme \<Rightarrow> mount_inner \<Rightarrow> bool" where
  "owner E m \<longleftrightarrow>
     (\<exists>sh. get_share E (mi_manifest m) (public E (mi_secret_key m)) = Some sh \<and> sh_role sh = Owner)"

text \<open>What an edit keeps: the version the mount stands on, the bucket, and our role as an owner.\<close>

definition same_bucket :: "('w, 'z) mount_ext_scheme \<Rightarrow> mount_inner \<Rightarrow> mount_inner \<Rightarrow> bool" where
  "same_bucket E m m' \<longleftrightarrow> mi_link m' = mi_link m \<and> mi_height m' = mi_height m \<and>
     mi_secret_key m' = mi_secret_key m \<and> m_id (mi_manifest m') = m_id (mi_manifest m) \<and> (owner E m \<longrightarrow> owner E m')"

lemma same_bucket_refl [simp]: "same_bucket E m m"
  by (simp add: same_bucket_def)

lemma same_bucket_trans: "same_bucket E a b \<Longrightarrow> same_bucket E b c \<Longrightarrow> same_bucket E a c"
  by (simp add: same_bucket_def)

lemma same_version_bucket: "same_version s s' \<Longrightarrow> same_bucket E (fst s) (fst s')"
  by (simp add: same_version_def same_bucket_def owner_def)

named_theorems edit_rules \<open>computations that are edits of a mount\<close>

definition edits ::
  "('w, 'z) mount_ext_scheme \<Rightarrow> (fs \<Rightarrow> bool) \<Rightarrow> ('w mount_state \<Rightarrow> ('e + 'a) \<times> 'w mount_state) \<Rightarrow> bool" where
  "edits E P f \<longleftrightarrow> (\<forall>s r s'. mount_ok E s \<longrightarrow> P (mount_fs E s) \<longrightarrow> f s = (r, s') \<longrightarrow>
     mount_ok E s' \<and> same_bucket E (fst s) (fst s') \<and> keeps_blobs E (snd s) (snd s'))"

lemma editsD:
  assumes "edits E P f" and "mount_ok E s" and "P (mount_fs E s)" and "f s = (r, s')"
  shows "mount_ok E s'" and "same_bucket E (fst s) (fst s')" and "keeps_blobs E (snd s) (snd s')"
  using assms unfolding edits_def by blast+

lemma editsI:
  assumes "\<And>s r s'. mount_ok E s \<Longrightarrow> P (mount_fs E s) \<Longrightarrow> f s = (r, s') \<Longrightarrow>
    mount_ok E s' \<and> same_bucket E (fst s) (fst s') \<and> keeps_blobs E (snd s) (snd s')"
  shows "edits E P f"
  using assms unfolding edits_def by blast

lemma edits_weaken: "edits E (\<lambda>_. True) f \<Longrightarrow> edits E P f"
  unfolding edits_def by blast

lemma edits_lift [edit_rules]: "edits E P (liftR r)"
  by (auto simp: edits_def liftR_def keeps_refl)

lemma edits_read [edit_rules]: "edits E P (\<lambda>s. (q s, s))"
  by (auto simp: edits_def keeps_refl)

lemma edits_bind [edit_rules]:
  assumes "edits E P f" and "\<And>x. edits E (\<lambda>_. True) (g x)"
  shows "edits E P (bindS f g)"
proof (rule editsI)
  fix s r s'
  assume ok: "mount_ok E s" and P: "P (mount_fs E s)" and run: "bindS f g s = (r, s')"
  obtain r1 s1 where f: "f s = (r1, s1)" by (rule prod.exhaust)
  note 1 = editsD [OF assms(1) ok P f]
  show "mount_ok E s' \<and> same_bucket E (fst s) (fst s') \<and> keeps_blobs E (snd s) (snd s')"
  proof (cases r1)
    case (Inl e)
    then show ?thesis using run f 1 by (simp add: bindS_def)
  next
    case (Inr x)
    then have "g x s1 = (r, s')" using run f by (simp add: bindS_def)
    from editsD [OF assms(2) 1(1) TrueI this] 1 show ?thesis
      by (auto intro: same_bucket_trans keeps_trans)
  qed
qed

text \<open>Reading first: what follows sees the state, and the precondition still holds.\<close>

lemma edits_after_read [edit_rules]:
  assumes "\<And>x. edits E P (g x)"
  shows "edits E P (bindS (\<lambda>s. (q s, s)) g)"
proof (rule editsI)
  fix s r s'
  assume a: "mount_ok E s" "P (mount_fs E s)" "bindS (\<lambda>s. (q s, s)) g s = (r, s')"
  show "mount_ok E s' \<and> same_bucket E (fst s) (fst s') \<and> keeps_blobs E (snd s) (snd s')"
  proof (cases "q s")
    case (Inl e)
    then show ?thesis using a by (auto simp: bindS_def keeps_refl)
  next
    case (Inr x)
    then have "g x s = (r, s')" using a(3) by (simp add: bindS_def)
    with editsD [OF assms a(1,2)] show ?thesis by blast
  qed
qed

lemma edits_mapS_err [edit_rules]:
  assumes "edits E P f"
  shows "edits E P (mapS_err g f)"
proof (rule editsI)
  fix s r s'
  assume a: "mount_ok E s" "P (mount_fs E s)" "mapS_err g f s = (r, s')"
  obtain r1 s1 where f: "f s = (r1, s1)" by (rule prod.exhaust)
  have "s' = s1" using a(3) f by (auto simp: mapS_err_def split: sum.splits)
  then show "mount_ok E s' \<and> same_bucket E (fst s) (fst s') \<and> keeps_blobs E (snd s) (snd s')"
    using editsD [OF assms a(1,2) f] by simp
qed

lemma edits_if [edit_rules]: "edits E P f \<Longrightarrow> edits E P g \<Longrightarrow> edits E P (if c then f else g)"
  by simp

lemma edits_op:
  assumes "\<And>s r s'. mount_ok E s \<Longrightarrow> P (mount_fs E s) \<Longrightarrow> f s = (r, s') \<Longrightarrow> mount_ok E s'"
    and "within f" and "keeping E snd f"
  shows "edits E P f"
  using assms same_version_bucket unfolding within_def keeping_def edits_def by blast

lemmas within_rules = within_bind within_cases within_update within_quiet [OF quiet_steps(1)]
  within_quiet [OF quiet_steps(2)] within_quiet [OF quiet_steps(3)]

lemma within_case_option:
  "within h \<Longrightarrow> (\<And>a. within (k a)) \<Longrightarrow> within (case v of None \<Rightarrow> h | Some a \<Rightarrow> k a)"
  by (simp split: option.split)

lemma ops_within:
  "within (mount_add E p d)" "within (mount_rm E p)" "within (mount_mv E p q)"
proof -
  show "within (mount_add E p d)"
    unfolding mount_add_def Let_def
    by (intro within_rules within_case_option)
      (simp_all add: same_version_def pin_one_all set_new_entry_def pin_one_def pin_all_def split: option.split)
  show "within (mount_rm E p)"
    unfolding mount_rm_def
    by (intro within_rules within_case_option)
      (simp_all add: same_version_def pin_one_all set_new_entry_def pin_one_def pin_all_def split: option.split)
  show "within (mount_mv E p q)"
    unfolding mount_mv_def mv_remove_source_def
    by (intro within_rules within_case_option)
      (simp_all add: same_version_def pin_one_all set_new_entry_def pin_one_def pin_all_def split: option.split)
qed

lemma edits_add [edit_rules]:
  assumes "mount_laws E"
  shows "edits E P (mount_add E (abs_path (ns @ [x])) (Inr b))"
  using add_op.keeps_invariant [OF assms] ops_within(1) keeping_ops(1) [OF assms] by (intro edits_op) auto

lemma edits_mkdir [edit_rules]:
  assumes "mount_laws E"
  shows "edits E P (mount_mkdir E (abs_path (ns @ [x])))"
  using mkdir_op.keeps_invariant [OF assms] mkdir_within keeping_ops(2) [OF assms] by (intro edits_op) auto

lemma edits_rm [edit_rules]:
  assumes "mount_laws E"
  shows "edits E (no_file_above ns) (mount_rm E (abs_path (ns @ [x])))"
  using rm_op.keeps_invariant [OF assms] ops_within(2) keeping_ops(3) [OF assms] by (intro edits_op) auto

lemma edits_mv [edit_rules]:
  assumes "mount_laws E"
  shows "edits E (no_file_above ns) (mount_mv E (abs_path (ns @ [x])) (abs_path (ts @ [y])))"
  using mv_keeps_invariant [OF assms] ops_within(3) keeping_ops(4) [OF assms] by (intro edits_op) auto

text \<open>Giving a key a share: another key's share does not matter to us, and our own stays one of an owner.\<close>

lemma get_share_add:
  assumes "crypto_laws E"
  shows "get_share E (add_share E sh m) pk =
    (if p_identity (sh_principal sh) = pk then Some sh else get_share E m pk)"
  using hex_inject [OF assms] by (auto simp: get_share_def add_share_def map_laws)

lemma edits_add_owner [edit_rules]:
  assumes "mount_laws E"
  shows "edits E P (add_owner E pk)"
proof (rule editsI)
  fix s r s'
  assume ok: "mount_ok E s" and run: "add_owner E pk s = (r, s')"
  obtain x w' where x: "secret_share_new E secret_default pk (snd s) = (x, w')" by (rule prod.exhaust)
  have keep: "keeps_blobs E (snd s) w'"
    using keepingD [OF keeping_share_new [OF mount_laws_blob [OF assms]] x] by simp
  have ok': "mount_ok E (fst s, w')"
    using mount_ok_keeps(1) [OF _ mount_laws_blob [OF assms] keep] ok by simp
  show "mount_ok E s' \<and> same_bucket E (fst s) (fst s') \<and> keeps_blobs E (snd s) (snd s')"
  proof (cases x)
    case (Inl e)
    then have "s' = (fst s, w')"
      using run x by (auto simp: add_owner_def bindS_def on_world_def mapS_err_def)
    then show ?thesis using ok' keep by simp
  next
    case (Inr y)
    then have s': "s' = ((fst s)\<lparr>mi_manifest := add_share E (share_new_owner y pk) (mi_manifest (fst s))\<rparr>, w')"
      using run x by (auto simp: add_owner_def bindS_def on_world_def mapS_err_def update_inner_def)
    have "mount_ok E s'"
      unfolding s' using ok' by (rule mount_ok_add_share) blast
    moreover have "same_bucket E (fst s) (fst s')"
      using get_share_add [OF mount_laws_crypto [OF assms], of "share_new_owner y pk" "mi_manifest (fst s)"]
      by (auto simp: s' same_bucket_def owner_def share_new_owner_def sh_role_def add_share_def split: if_splits)
    ultimately show ?thesis using keep by (simp add: s')
  qed
qed

lemma edits_add_mirror:
  assumes "mount_laws E" and "mount_ok E s" and "pk \<noteq> public E (mi_secret_key (fst s))"
    and "add_mirror E pk s = (r, s')"
  shows "mount_ok E s' \<and> same_bucket E (fst s) (fst s') \<and> keeps_blobs E (snd s) (snd s')"
proof -
  have s': "s' = ((fst s)\<lparr>mi_manifest := add_share E (share_new_mirror pk) (mi_manifest (fst s))\<rparr>, snd s)"
    using assms(4) by (auto simp: add_mirror_def update_inner_def)
  have "same_bucket E (fst s) (fst s')"
    using get_share_add [OF mount_laws_crypto [OF assms(1)], of "share_new_mirror pk" "mi_manifest (fst s)"] assms(3)
    by (auto simp: s' same_bucket_def owner_def share_new_mirror_def add_share_def)
  then show ?thesis
    using add_mirror_ok [OF assms(2,4)] by (simp add: s' keeps_refl)
qed

section \<open>Buckets of the service\<close>

text \<open>A bucket of ours: its head can be mounted, all of it readable, and we are an owner.\<close>

definition holds_bucket ::
  "('w, 'z) mount_ext_scheme \<Rightarrow> 'l log_provider \<Rightarrow> uuid \<Rightarrow> ('l, 'w) peer_state \<Rightarrow> mount_inner \<Rightarrow> bool" where
  "holds_bucket E L i s m \<longleftrightarrow> peer_mount E L i s = Inr m \<and>
     lp_head L (pr_log (fst s)) i = Inr (mi_link m, mi_height m) \<and> mount_ok E (m, snd s) \<and>
     m_id (mi_manifest m) = i \<and> mi_secret_key m = pr_secret_key (fst s) \<and> owner E m"

lemma mount_load_sel:
  assumes "mount_load E l sk w = Inr m"
  shows "mi_link m = l" "mi_secret_key m = sk" "mi_height m = m_height (mi_manifest m)"
    "get_manifest_from_blobs E l w = Inr (mi_manifest m)"
  using assms by (auto simp: mount_load_def res_simps split: option.splits)

lemma mount_load_keeps:
  assumes "blob_laws E" and "keeps_blobs E w w'" and "mount_load E l sk w = Inr m"
  shows "mount_load E l sk w' = Inr m"
proof -
  note keep = keeps_reads [OF assms(1,2)] keeps_get_node [OF assms(1,2)]
  from assms(3) obtain man k where man: "get_manifest_from_blobs E l w = Inr man" "get_secret_for_manifest E man sk = Inr k"
    by (auto simp: mount_load_def res_simps)
  show ?thesis
  proof (cases "m_ops_log man")
    case None
    then show ?thesis
      using assms(3) man keep(1) [OF man(1)] keep(3,4) by (auto simp: mount_load_def res_simps)
  next
    case (Some ol)
    then show ?thesis
      using assms(3) man keep(1) [OF man(1)] keep(2-4) by (fastforce simp: mount_load_def res_simps)
  qed
qed

lemma holds_bucket_later:
  assumes "blob_laws E" and "holds_bucket E L i (p, w) m" and "keeps_blobs E w w'"
    and "pr_secret_key p' = pr_secret_key p" and "lp_head L (pr_log p') i = lp_head L (pr_log p) i"
  shows "holds_bucket E L i (p', w') m"
  using assms mount_load_keeps [OF assms(1,3)] mount_ok_keeps(1) [OF _ assms(1,3)]
  by (auto simp: holds_bucket_def peer_mount_def)

lemma saved_codec: "mount_save E pub s = (Inr (l, prev, h), s') \<Longrightarrow> link_codec l = LD_CBOR_CODEC"
  by (auto simp: mount_save_def save_version_def put_manifest_in_blobs_def res_simps manifest_codec_def split: prod.splits)

lemma saved_owner:
  assumes "mount_laws E" and "mount_ok E (m, w)" and "mount_save E pub (m, w) = (Inr (l, prev, h), (m', w'))"
    and "owner E m"
  shows "owner E m'" "m_id (mi_manifest m') = m_id (mi_manifest m)"
proof -
  from assms(3) obtain man where save: "save_version E pub m w = (Inr (man, l), w')"
    and m': "mi_manifest m' = man" "mi_secret_key m' = mi_secret_key m"
    by (auto simp: mount_save_Inr)
  from assms(4) obtain sh where sh: "get_share E (mi_manifest m) (public E (mi_secret_key m)) = Some sh" "sh_role sh = Owner"
    by (auto simp: owner_def)
  from assms(1,2) save obtain k where id: "m_id man = m_id (mi_manifest m)"
    and shares: "list_all2 (\<lambda>(key, s) (key', s'). key' = key \<and> reshared E k s s') (m_shares (mi_manifest m)) (m_shares man)"
    by (rule save_version_Inr) blast
  show "m_id (mi_manifest m') = m_id (mi_manifest m)" by (simp add: m' id)
  from map_of_reshared(2) [OF shares sh(1) [unfolded get_share_def]] sh(2) show "owner E m'"
    by (auto simp: owner_def get_share_def m' reshared_def sh_role_def)
qed

text \<open>The version that saving a mount makes, as its owner loads it.\<close>

lemma saved_version:
  assumes laws: "mount_laws E" and ok: "mount_ok E (m, w)" and own: "owner E m"
    and save: "mount_save E pub (m, w) = (Inr (l, prev, h), (m', w'))"
  obtains m2 where "mount_load E l (mi_secret_key m) w' = Inr m2" and "mount_ok E (m2, w')"
    and "mount_fs E (m2, w') = mount_fs E (m, w)" and "mi_height m2 = mi_height m + 1" and "mi_link m2 = l"
    and "mi_secret_key m2 = mi_secret_key m" and "m_id (mi_manifest m2) = m_id (mi_manifest m)" and "owner E m2"
    and "is_published (mi_manifest m2) = pub"
proof -
  from own obtain sh where sh: "get_share E (mi_manifest m) (public E (mi_secret_key m)) = Some sh" "sh_role sh = Owner"
    by (auto simp: owner_def)
  from owner_loads_saved [OF laws ok save sh keeps_refl] obtain m2 where
    load: "mount_load E l (mi_secret_key m) w' = Inr m2" "mount_ok E (m2, w')"
      "mount_fs E (m2, w') = mount_fs E (m, w)" "mi_height m2 = mi_height m + 1"
    by blast
  have man: "mi_manifest m2 = mi_manifest m'"
    using mount_load_sel(4) [OF load(1)] save_keeps_mount [OF laws ok save] by simp
  moreover have key: "mi_secret_key m2 = mi_secret_key m" "mi_secret_key m' = mi_secret_key m"
    using mount_load_sel(2) [OF load(1)] save by (auto simp: mount_save_Inr)
  ultimately have "owner E m2"
    using saved_owner(1) [OF laws ok save own] by (simp add: owner_def)
  then show ?thesis
    using that load mount_load_sel(1) [OF load(1)] key(1) saved_owner(2) [OF laws ok save own]
      save_keeps_mount [OF laws ok save] man by auto
qed

lemma notify_peers_panics:
  assumes "notify_peers E i us ks p = (Inl e, p')"
  shows "\<exists>msg. e = MtPanic msg"
  using assms
  by (induction E i us ks p rule: notify_peers.induct) (auto split: sum.splits key_error.splits if_splits)

text \<open>A further version fits into the log.\<close>

definition has_room :: "(link \<Rightarrow> u64 \<Rightarrow> bool) \<Rightarrow> u64 \<Rightarrow> bool" where
  "has_room fits h \<longleftrightarrow> h \<noteq> - 1 \<and> (\<forall>l. link_codec l = LD_CBOR_CODEC \<longrightarrow> fits l (h + 1))"

text \<open>
  What a request leaves behind: our key, the blobs, the heads of the other buckets; and the bucket of
  the request stands where it stood or is a mountable version higher.
\<close>

definition moved_on ::
  "('w, 'z) mount_ext_scheme \<Rightarrow> 'l log_provider \<Rightarrow> ('l \<Rightarrow> bool) \<Rightarrow> uuid \<Rightarrow> ('l, 'w) peer_state \<Rightarrow> ('l, 'w) peer_state \<Rightarrow> bool" where
  "moved_on E L ok i s s' \<longleftrightarrow> ok (pr_log (fst s')) \<and> pr_secret_key (fst s') = pr_secret_key (fst s) \<and>
     keeps_blobs E (snd s) (snd s') \<and> (\<forall>j. j \<noteq> i \<longrightarrow> lp_head L (pr_log (fst s')) j = lp_head L (pr_log (fst s)) j) \<and>
     (lp_head L (pr_log (fst s')) i = lp_head L (pr_log (fst s)) i \<or> (\<exists>m. holds_bucket E L i s' m))"

lemma moved_on_bucket:
  assumes "blob_laws E" and "moved_on E L ok i s s'" and "holds_bucket E L j s m"
  shows "\<exists>m'. holds_bucket E L j s' m'"
  using assms holds_bucket_later [OF assms(1), of L j "fst s" "snd s" m "snd s'" "fst s'"]
  by (cases "j = i") (auto simp: moved_on_def)

context peer_log
begin

lemma head_other:
  assumes "ok s" and "lp_append L i nm cur prev h pub s = (r, s')" and "r = Inr () \<Longrightarrow> fits cur h" and "j \<noteq> i"
  shows "lp_head L s' j = lp_head L s j"
proof -
  have ok': "ok s'"
    using append_ok [OF assms(1,2)] assms(3) by (cases r) auto
  have "links s' j = links s j"
  proof (cases r)
    case (Inl e)
    then show ?thesis using rejected_links [OF assms(1)] assms(2) by simp
  next
    case (Inr u)
    then show ?thesis using accepted_links [OF assms(1)] assms(2-4) by (auto simp: fun_eq_iff)
  qed
  then show ?thesis
    by (simp add: lp_head_def head_spec [OF assms(1)] head_spec [OF ok'])
qed

lemma head_rejected:
  assumes "ok s" and "lp_append L i nm cur prev h pub s = (Inl e, s')"
  shows "lp_head L s' j = lp_head L s j"
  using append_ok [OF assms] rejected_links [OF assms]
  by (simp add: lp_head_def head_spec assms(1))

text \<open>Saving a mount that stands on the head of its bucket.\<close>

lemma save_outcome:
  assumes laws: "mount_laws E" and log: "ok (pr_log p)" and ok: "mount_ok E (m, w)"
    and head: "lp_head L (pr_log p) i = Inr (mi_link m, mi_height m)" and id: "m_id (mi_manifest m) = i"
    and key: "mi_secret_key m = pr_secret_key p" and own: "owner E m" and room: "has_room fits (mi_height m)"
    and run: "save_mount E L pub p (m, w) = (r, (p', (m2, w2)))"
  shows "moved_on E L ok i (p, w) (p', w2)"
    and "r = Inl e \<Longrightarrow> (\<nexists>msg. e = MtPanic msg) \<Longrightarrow> lp_head L (pr_log p') i = lp_head L (pr_log p) i"
    and "r = Inr l \<Longrightarrow> \<exists>m'. holds_bucket E L i (p', w2) m' \<and> mi_link m' = l \<and> mi_height m' = mi_height m + 1 \<and>
      mount_fs E (m', w2) = mount_fs E (m, w) \<and> is_published (mi_manifest m') = pub"
    and "lp_head L (pr_log p') i \<noteq> lp_head L (pr_log p) i \<Longrightarrow> \<exists>m'. holds_bucket E L i (p', w2) m' \<and> mi_height m' = mi_height m + 1 \<and>
      mount_fs E (m', w2) = mount_fs E (m, w) \<and> is_published (mi_manifest m') = pub"
proof -
  let ?kept = "lp_head L (pr_log p') i = lp_head L (pr_log p) i"
  let ?next = "\<lambda>l. \<exists>m'. holds_bucket E L i (p', w2) m' \<and> mi_link m' = l \<and> mi_height m' = mi_height m + 1 \<and>
      mount_fs E (m', w2) = mount_fs E (m, w) \<and> is_published (mi_manifest m') = pub"
  obtain r1 m1 w1 where save: "mount_save E pub (m, w) = (r1, (m1, w1))"
    by (metis prod.exhaust)
  have keep: "keeps_blobs E w w1"
    using keepingD [OF keeping_save [OF mount_laws_blob [OF laws]] save] by simp
  have "moved_on E L ok i (p, w) (p', w2) \<and> ((\<exists>e. r = Inl e) \<and> ?kept \<or>
    (\<exists>l. ?next l \<and> (r = Inr l \<or> (\<exists>msg. r = Inl (MtPanic msg)))))"
  proof (cases r1)
    case (Inl e)
    then have "r = Inl e" "p' = p" "w2 = w1"
      using run save by (auto simp: save_mount_def Let_def)
    then show ?thesis
      using keep log by (simp add: moved_on_def)
  next
    case (Inr x)
    then obtain l prev h where x: "mount_save E pub (m, w) = (Inr (l, prev, h), (m1, w1))"
      using save by (metis prod.exhaust)
    from save_keeps_mount [OF laws ok x] have eqs: "prev = mi_link m" "h = mi_height m + 1" "is_published (mi_manifest m1) = pub"
      by auto
    have fits: "fits l (mi_height m + 1)" and bound: "mi_height m \<noteq> - 1"
      using room saved_codec [OF x] by (simp_all add: has_room_def)
    obtain ar log' where ap: "lp_append L i (m_name (mi_manifest m)) l (Some (mi_link m)) (mi_height m + 1) pub (pr_log p) = (ar, log')"
      by (rule prod.exhaust)
    show ?thesis
    proof (cases ar)
      case (Inl e)
      then have "\<exists>e. r = Inl e" "p' = p\<lparr>pr_log := log'\<rparr>" "w2 = w1"
        using run x ap id eqs by (auto simp: save_mount_def Let_def)
      then show ?thesis
        using keep append_ok [OF log ap] head_rejected [OF log ap [unfolded Inl]] Inl by (simp add: moved_on_def)
    next
      case acc: (Inr u)
      obtain nr p1 where notify: "notify_peers E i (public E (pr_secret_key p)) (map fst (m_shares (mi_manifest m1)))
          (p\<lparr>pr_log := log'\<rparr>) = (nr, p1)"
        by (rule prod.exhaust)
      note frame = notify_peers_frame [OF notify, simplified]
      have res: "p' = p1" "w2 = w1" "r = (case nr of Inl e \<Rightarrow> Inl e | Inr _ \<Rightarrow> Inr l)"
        using run x ap id eqs acc notify by (auto simp: save_mount_def Let_def split: sum.splits)
      have "lp_head L (pr_log p') i = Inr (l, mi_height m + 1)"
        using append_head [OF log head bound fits] ap acc frame res(1) by simp
      with saved_version [OF laws ok own x] have nextv: "?next l"
        using frame res key id by (simp add: holds_bucket_def peer_mount_def) metis
      moreover have "moved_on E L ok i (p, w) (p', w2)"
        using nextv keep append_ok [OF log ap] fits frame res head_other [OF log ap] by (auto simp: moved_on_def)
      moreover have "r = Inr l \<or> (\<exists>msg. r = Inl (MtPanic msg))"
        using notify_peers_panics [of E i _ _ _ _ p1] notify res(3) by (cases nr) auto
      ultimately show ?thesis by blast
    qed
  qed
  then show "moved_on E L ok i (p, w) (p', w2)"
    and "r = Inl e \<Longrightarrow> (\<nexists>msg. e = MtPanic msg) \<Longrightarrow> ?kept" and "r = Inr l \<Longrightarrow> ?next l"
    and "\<not> ?kept \<Longrightarrow> \<exists>m'. holds_bucket E L i (p', w2) m' \<and> mi_height m' = mi_height m + 1 \<and>
      mount_fs E (m', w2) = mount_fs E (m, w) \<and> is_published (mi_manifest m') = pub"
    by auto
qed

text \<open>What becomes of a bucket that is edited.\<close>

lemma edit_outcome:
  assumes laws: "mount_laws E" and log: "ok (pr_log (fst s))" and holds: "holds_bucket E L i s m"
    and room: "has_room fits (mi_height m)"
    and edit: "\<And>r1 s1. f (m, snd s) = (r1, s1) \<Longrightarrow>
      mount_ok E s1 \<and> same_bucket E m (fst s1) \<and> keeps_blobs E (snd s) (snd s1)"
    and run: "edit_bucket E L err i pub f s = (r, s')"
  shows "moved_on E L ok i s s'"
    and "r = Inl e \<Longrightarrow> (\<nexists>msg. e = err (MtPanic msg)) \<Longrightarrow> lp_head L (pr_log (fst s')) i = lp_head L (pr_log (fst s)) i"
    and "r = Inr (x, l) \<Longrightarrow> \<exists>s1 m'. f (m, snd s) = (Inr x, s1) \<and> holds_bucket E L i s' m' \<and> mi_link m' = l \<and>
      mi_height m' = mi_height m + 1 \<and> mount_fs E (m', snd s') = mount_fs E s1 \<and> is_published (mi_manifest m') = pub"
    and "lp_head L (pr_log (fst s')) i \<noteq> lp_head L (pr_log (fst s)) i \<Longrightarrow>
      \<exists>x s1 m'. f (m, snd s) = (Inr x, s1) \<and> holds_bucket E L i s' m' \<and> mi_height m' = mi_height m + 1 \<and>
      mount_fs E (m', snd s') = mount_fs E s1 \<and> is_published (mi_manifest m') = pub"
proof -
  obtain r1 m1 w1 where f: "f (m, snd s) = (r1, (m1, w1))"
    by (metis prod.exhaust)
  note 1 = edit [OF f, simplified]
  have mount: "peer_mount E L i s = Inr m"
    using holds by (simp add: holds_bucket_def)
  let ?kept = "lp_head L (pr_log (fst s')) i = lp_head L (pr_log (fst s)) i"
  let ?next = "\<lambda>x l. \<exists>s1 m'. f (m, snd s) = (Inr x, s1) \<and> holds_bucket E L i s' m' \<and> mi_link m' = l \<and>
      mi_height m' = mi_height m + 1 \<and> mount_fs E (m', snd s') = mount_fs E s1 \<and> is_published (mi_manifest m') = pub"
  have "moved_on E L ok i s s' \<and> (\<forall>e. r = Inl e \<longrightarrow> (\<nexists>msg. e = err (MtPanic msg)) \<longrightarrow> ?kept) \<and> (\<forall>x l. r = Inr (x, l) \<longrightarrow> ?next x l) \<and>
    (\<not> ?kept \<longrightarrow> (\<exists>x s1 m'. f (m, snd s) = (Inr x, s1) \<and> holds_bucket E L i s' m' \<and> mi_height m' = mi_height m + 1 \<and>
      mount_fs E (m', snd s') = mount_fs E s1 \<and> is_published (mi_manifest m') = pub))"
  proof (cases r1)
    case (Inl e)
    then have "r = Inl e" "s' = (fst s, w1)"
      using run mount f by (auto simp: edit_bucket_def)
    then show ?thesis
      using 1 log by (simp add: moved_on_def)
  next
    case (Inr y)
    obtain r2 p2 m2 w2 where save: "save_mount E L pub (fst s) (m1, w1) = (r2, (p2, (m2, w2)))"
      by (metis prod.exhaust)
    have res: "s' = (p2, w2)" "r = (case r2 of Inl e \<Rightarrow> Inl (err e) | Inr l \<Rightarrow> Inr (y, l))"
      using run mount f Inr save by (auto simp: edit_bucket_def split: sum.splits)
    have pre: "lp_head L (pr_log (fst s)) i = Inr (mi_link m1, mi_height m1)" "m_id (mi_manifest m1) = i"
      "mi_secret_key m1 = pr_secret_key (fst s)" "owner E m1" "has_room fits (mi_height m1)" "mi_height m1 = mi_height m"
      using 1 holds room by (auto simp: same_bucket_def holds_bucket_def)
    note out = save_outcome [OF laws log conjunct1 [OF 1] pre(1-5) save]
    have "moved_on E L ok i s s'"
      using out(1) 1 res(1) by (auto simp: moved_on_def intro: keeps_trans)
    moreover have "?kept" if "r = Inl e" "\<nexists>msg. e = err (MtPanic msg)" for e
      using out(2) that res by (auto split: sum.splits)
    moreover have "?next x l" if "r = Inr (x, l)" for x l
      using out(3) [of l] that res f Inr pre(6) by (auto split: sum.splits)
    moreover have "\<exists>x s1 m'. f (m, snd s) = (Inr x, s1) \<and> holds_bucket E L i s' m' \<and> mi_height m' = mi_height m + 1 \<and>
      mount_fs E (m', snd s') = mount_fs E s1 \<and> is_published (mi_manifest m') = pub" if "\<not> ?kept"
      using out(4) that res f Inr pre(6) by auto
    ultimately show ?thesis by blast
  qed
  then show "moved_on E L ok i s s'"
    and "r = Inl e \<Longrightarrow> (\<nexists>msg. e = err (MtPanic msg)) \<Longrightarrow> ?kept" and "r = Inr (x, l) \<Longrightarrow> ?next x l"
    and "\<not> ?kept \<Longrightarrow> \<exists>x s1 m'. f (m, snd s) = (Inr x, s1) \<and> holds_bucket E L i s' m' \<and> mi_height m' = mi_height m + 1 \<and>
      mount_fs E (m', snd s') = mount_fs E s1 \<and> is_published (mi_manifest m') = pub"
    by auto
qed

end

section \<open>The state of the service\<close>

text \<open>Every bucket with a version is one of ours.\<close>

definition service_ok ::
  "('w, 'z) mount_ext_scheme \<Rightarrow> 'l log_provider \<Rightarrow> ('l \<Rightarrow> bool) \<Rightarrow> ('l, 'w) peer_state \<Rightarrow> bool" where
  "service_ok E L ok s \<longleftrightarrow> ok (pr_log (fst s)) \<and>
     (\<forall>i l h. lp_head L (pr_log (fst s)) i = Inr (l, h) \<longrightarrow> (\<exists>m. holds_bucket E L i s m))"

lemma service_holds:
  assumes "service_ok E L ok s" and "peer_mount E L i s = Inr m"
  shows "holds_bucket E L i s m"
proof -
  from assms(2) obtain l h where "lp_head L (pr_log (fst s)) i = Inr (l, h)"
    by (auto simp: peer_mount_def split: sum.splits)
  then obtain m' where "holds_bucket E L i s m'"
    using assms(1) unfolding service_ok_def by blast
  then show ?thesis
    using assms(2) by (simp add: holds_bucket_def)
qed

lemma service_moves_on:
  assumes "blob_laws E" and "service_ok E L ok s" and "moved_on E L ok i s s'"
  shows "service_ok E L ok s'"
proof -
  have "\<exists>m. holds_bucket E L j s' m" if at: "lp_head L (pr_log (fst s')) j = Inr (l, h)" for j l h
  proof (cases "lp_head L (pr_log (fst s')) j = lp_head L (pr_log (fst s)) j")
    case True
    then obtain m where "holds_bucket E L j s m"
      using at assms(2) unfolding service_ok_def by metis
    then show ?thesis
      by (rule moved_on_bucket [OF assms(1,3)])
  next
    case False
    then show ?thesis
      using assms(3) unfolding moved_on_def by metis
  qed
  then show ?thesis
    using assms(3) by (simp add: service_ok_def moved_on_def)
qed

lemma moved_on_refl: "ok (pr_log (fst s)) \<Longrightarrow> moved_on E L ok i s s"
  by (simp add: moved_on_def keeps_refl)

lemma edit_unmounted:
  assumes "peer_mount E L i s = Inl e"
  shows "edit_bucket E L err i pub f s = (Inl (err e), s)"
  using assms by (simp add: edit_bucket_def)

end
