(* ===== verification/Bucket_Api.thy ===== *)
theory Bucket_Api
  imports Service
begin

text \<open>
  The bucket API of the daemon (\<open>daemon/src/http_server/api/v0/bucket\<close>): the handlers of all its
  routes, with their requests, answers and errors. A handler gives the status and the answer, or the
  error, and the state of the service; the error of a handler becomes a response in its
  \<open>*_error_response\<close>. A panic of any step is the error of the mount \<open>MtPanic\<close> and no response.
  The texts of foreign errors, JSON, base64, UUIDs and the clock are arguments.
\<close>

record api_ext = gateway_ext +
  uuid_parse :: "string \<Rightarrow> uuid option"
  hash_error :: "string \<Rightarrow> string"
  mount_error_text :: "mount_error \<Rightarrow> string"
  log_error_text :: "bucket_log_error \<Rightarrow> string"
  key_error_text :: "key_error \<Rightarrow> string"
  secret_error_text :: "secret_error \<Rightarrow> string"
  blobs_error_text :: "blobs_error \<Rightarrow> string"
  queue_error_text :: "queue_error \<Rightarrow> string"
  base64_encode :: "bytes \<Rightarrow> string"
  base64_decode :: "string \<Rightarrow> string + bytes"

definition api_laws :: "'z api_ext_scheme \<Rightarrow> bool" where
  "api_laws X \<longleftrightarrow> (\<forall>b. base64_decode X (base64_encode X b) = Inr b)"

text \<open>A link is displayed as its hash.\<close>

definition link_text :: "'z gateway_ext_scheme \<Rightarrow> link \<Rightarrow> string" where
  "link_text X l = hash_text X (link_hash l)"

definition plain_response :: "nat \<Rightarrow> string \<Rightarrow> served" where
  "plain_response status t = Response \<lparr>rs_status = status, rs_headers = [], rs_body = Text t\<rparr>"

text \<open>The response to an error of the mount, unless it is a panic.\<close>

definition mount_response :: "mount_error \<Rightarrow> nat \<Rightarrow> string \<Rightarrow> served" where
  "mount_response e status t = (case e of MtPanic msg \<Rightarrow> Panicked msg | _ \<Rightarrow> plain_response status t)"

text \<open>Reading from the mount within an edit.\<close>

definition reads :: "('w mount_state \<Rightarrow> 'e + 'a) \<Rightarrow> 'w mount_state \<Rightarrow> ('e + 'a) \<times> 'w mount_state" where
  "reads q = (\<lambda>s. (q s, s))"

text \<open>\<open>mount.get(path).await.is_ok()\<close>.\<close>

definition path_exists ::
  "('w, 'z) mount_ext_scheme \<Rightarrow> (mount_error \<Rightarrow> 'e) \<Rightarrow> path \<Rightarrow> 'w mount_state \<Rightarrow> 'e + bool" where
  "path_exists E err p s =
     (case mount_get E p s of Inl (MtPanic msg) \<Rightarrow> Inl (err (MtPanic msg)) | Inl _ \<Rightarrow> Inr False | Inr _ \<Rightarrow> Inr True)"

definition guess_mime :: "('w, 'z) mount_ext_scheme \<Rightarrow> path \<Rightarrow> string" where
  "guess_mime E p = (case mime_of_path E p of Some m \<Rightarrow> m | None \<Rightarrow> ''application/octet-stream'')"

section \<open>Create\<close>

record create_response =
  cr_bucket_id :: uuid
  cr_name :: string
  cr_created_at :: int

datatype create_error = CreateInvalidName string | CreateSaveMount string | CreateMount mount_error

text \<open>\<open>id\<close> is the identifier drawn by \<open>Uuid::new_v4\<close>, \<open>now\<close> the time.\<close>

definition create_handler ::
  "('w, 'z) mount_ext_scheme \<Rightarrow> 'l log_provider \<Rightarrow> 'x api_ext_scheme \<Rightarrow> uuid \<Rightarrow> int \<Rightarrow> string \<Rightarrow> ('l, 'w) peer_state \<Rightarrow>
     (create_error + nat \<times> create_response) \<times> ('l, 'w) peer_state" where
  "create_handler E L X i now nm s =
     (if nm = [] then (Inl (CreateInvalidName ''Name cannot be empty''), s)
      else case mount_init E i nm (pr_secret_key (fst s)) (snd s) of
        (Inl e, w) \<Rightarrow> (Inl (CreateMount e), (fst s, w))
      | (Inr m, w) \<Rightarrow>
          (case lp_append L i nm (mi_link m) None 0 False (pr_log (fst s)) of
             (Inl e, log) \<Rightarrow>
               (Inl (CreateSaveMount (''Failed to append genesis: '' @ log_error_text X e)), ((fst s)\<lparr>pr_log := log\<rparr>, w))
           | (Inr _, log) \<Rightarrow>
               (Inr (201, \<lparr>cr_bucket_id = i, cr_name = nm, cr_created_at = now\<rparr>), ((fst s)\<lparr>pr_log := log\<rparr>, w))))"

fun create_error_response :: "'x api_ext_scheme \<Rightarrow> create_error \<Rightarrow> served" where
  "create_error_response X (CreateInvalidName msg) = plain_response 400 (''Invalid name: '' @ msg)"
| "create_error_response X (CreateSaveMount msg) = plain_response 500 (''Failed to save mount: '' @ msg)"
| "create_error_response X (CreateMount e) = mount_response e 500 (''Mount error: '' @ mount_error_text X e)"

section \<open>Add\<close>

text \<open>A field of a multipart form: its name, its file name, and its content as text and as bytes.\<close>

record field =
  fld_name :: "string option"
  fld_file_name :: "string option"
  fld_text :: "string + string"
  fld_bytes :: "string + bytes"

record file_upload_result =
  fu_mount_path :: string
  fu_mime_type :: string
  fu_size :: nat
  fu_success :: bool
  fu_error :: "string option"

record add_response =
  ar_bucket_link :: link
  ar_files :: "file_upload_result list"
  ar_total_files :: nat
  ar_successful_files :: nat
  ar_failed_files :: nat

datatype add_error = AddInvalidRequest string | AddMultipartError string | AddMount mount_error

record add_form =
  af_bucket_id :: "uuid option"
  af_base_path :: "string option"
  af_files :: "(string \<times> bytes) list"

definition add_field :: "'x api_ext_scheme \<Rightarrow> field \<Rightarrow> add_form \<Rightarrow> add_error + add_form" where
  "add_field X f a =
     (let name = (case fld_name f of Some n \<Rightarrow> n | None \<Rightarrow> []) in
      if name = ''bucket_id'' then
        bindR (map_err AddMultipartError (fld_text f)) (\<lambda>t.
        bindR (ok_or (AddInvalidRequest ''Invalid bucket_id'') (uuid_parse X t)) (\<lambda>i.
        Inr (a\<lparr>af_bucket_id := Some i\<rparr>)))
      else if name = ''mount_path'' then
        bindR (map_err AddMultipartError (fld_text f)) (\<lambda>t. Inr (a\<lparr>af_base_path := Some t\<rparr>))
      else if name = ''file'' \<or> name = ''files'' then
        bindR (map_err AddMultipartError (fld_bytes f)) (\<lambda>b.
        Inr (a\<lparr>af_files := af_files a @ [(case fld_file_name f of Some n \<Rightarrow> n | None \<Rightarrow> ''unnamed'', b)]\<rparr>))
      else Inr a)"

fun add_fields :: "'x api_ext_scheme \<Rightarrow> (string + field) list \<Rightarrow> add_form \<Rightarrow> add_error + add_form" where
  "add_fields X [] a = Inr a"
| "add_fields X (Inl e # fs) a = Inl (AddMultipartError e)"
| "add_fields X (Inr f # fs) a = bindR (add_field X f a) (add_fields X fs)"

definition full_path :: "string \<Rightarrow> string \<Rightarrow> string" where
  "full_path base_path f =
     (if base_path = ''/'' then CHR ''/'' # f else trim_end_slash base_path @ CHR ''/'' # f)"

definition upload_result :: "string \<Rightarrow> string \<Rightarrow> bytes \<Rightarrow> string option \<Rightarrow> file_upload_result" where
  "upload_result p mime d err =
     \<lparr>fu_mount_path = p, fu_mime_type = mime, fu_size = length d, fu_success = (err = None), fu_error = err\<rparr>"

definition add_file ::
  "('w, 'z) mount_ext_scheme \<Rightarrow> 'x api_ext_scheme \<Rightarrow> string \<Rightarrow> string \<times> bytes \<Rightarrow> 'w mount_state \<Rightarrow>
     (add_error + file_upload_result) \<times> 'w mount_state" where
  "add_file E X base_path file s =
     (let p = full_path base_path (fst file); pb = components p in
      if \<not> is_absolute pb then (Inr (upload_result p [] (snd file) (Some ''Mount path must be absolute'')), s)
      else case mount_add E pb (Inr (snd file)) s of
        (Inr _, s') \<Rightarrow> (Inr (upload_result p (guess_mime E pb) (snd file) None), s')
      | (Inl (MtPanic msg), s') \<Rightarrow> (Inl (AddMount (MtPanic msg)), s')
      | (Inl e, s') \<Rightarrow> (Inr (upload_result p (guess_mime E pb) (snd file) (Some (mount_error_text X e))), s'))"

fun add_files ::
  "('w, 'z) mount_ext_scheme \<Rightarrow> 'x api_ext_scheme \<Rightarrow> string \<Rightarrow> (string \<times> bytes) list \<Rightarrow> 'w mount_state \<Rightarrow>
     (add_error + file_upload_result list) \<times> 'w mount_state" where
  "add_files E X base_path [] = liftR (Inr [])"
| "add_files E X base_path (file # files) =
     bindS (add_file E X base_path file) (\<lambda>res.
     bindS (add_files E X base_path files) (\<lambda>results. liftR (Inr (res # results))))"

definition add_edit ::
  "('w, 'z) mount_ext_scheme \<Rightarrow> 'x api_ext_scheme \<Rightarrow> string \<Rightarrow> (string \<times> bytes) list \<Rightarrow> 'w mount_state \<Rightarrow>
     (add_error + file_upload_result list) \<times> 'w mount_state" where
  "add_edit E X base_path files =
     bindS (add_files E X base_path files) (\<lambda>results.
     if \<exists>res \<in> set results. fu_success res then liftR (Inr results)
     else liftR (Inl (AddInvalidRequest ''All files failed to upload'')))"

definition add_handler ::
  "('w, 'z) mount_ext_scheme \<Rightarrow> 'l log_provider \<Rightarrow> 'x api_ext_scheme \<Rightarrow> (string + field) list \<Rightarrow> ('l, 'w) peer_state \<Rightarrow>
     (add_error + nat \<times> add_response) \<times> ('l, 'w) peer_state" where
  "add_handler E L X multipart s =
     bindS (liftR (add_fields X multipart \<lparr>af_bucket_id = None, af_base_path = None, af_files = []\<rparr>)) (\<lambda>a.
     bindS (liftR (ok_or (AddInvalidRequest ''bucket_id is required'') (af_bucket_id a))) (\<lambda>i.
     bindS (liftR (ok_or (AddInvalidRequest ''mount_path is required'') (af_base_path a))) (\<lambda>base_path.
     if af_files a = [] then liftR (Inl (AddInvalidRequest ''At least one file is required''))
     else bindS (edit_bucket E L AddMount i False (add_edit E X base_path (af_files a))) (\<lambda>(results, l).
       liftR (Inr (200, \<lparr>ar_bucket_link = l, ar_files = results, ar_total_files = length results,
         ar_successful_files = length (filter fu_success results),
         ar_failed_files = length (filter (\<lambda>res. \<not> fu_success res) results)\<rparr>)))))) s"

fun add_error_response :: "add_error \<Rightarrow> served" where
  "add_error_response (AddInvalidRequest msg) = plain_response 400 (''Bad request: '' @ msg)"
| "add_error_response (AddMultipartError msg) = plain_response 400 (''Bad request: '' @ msg)"
| "add_error_response (AddMount e) = mount_response e 500 ''Unexpected error''"

section \<open>Update\<close>

record update_form =
  uf_bucket_id :: "uuid option"
  uf_mount_path :: "string option"
  uf_file :: "bytes option"

record update_response =
  ur_mount_path :: string
  ur_link :: link
  ur_mime_type :: string

datatype update_error =
    UpdateInvalidPath string | UpdateInvalidRequest string | UpdateMultipartError string | UpdateMount mount_error

definition update_field :: "'x api_ext_scheme \<Rightarrow> field \<Rightarrow> update_form \<Rightarrow> update_error + update_form" where
  "update_field X f u =
     (let name = (case fld_name f of Some n \<Rightarrow> n | None \<Rightarrow> []) in
      if name = ''bucket_id'' then
        bindR (map_err UpdateMultipartError (fld_text f)) (\<lambda>t.
        bindR (ok_or (UpdateInvalidRequest ''Invalid bucket_id'') (uuid_parse X t)) (\<lambda>i.
        Inr (u\<lparr>uf_bucket_id := Some i\<rparr>)))
      else if name = ''mount_path'' then
        bindR (map_err UpdateMultipartError (fld_text f)) (\<lambda>t. Inr (u\<lparr>uf_mount_path := Some t\<rparr>))
      else if name = ''file'' then
        bindR (map_err UpdateMultipartError (fld_bytes f)) (\<lambda>b. Inr (u\<lparr>uf_file := Some b\<rparr>))
      else Inr u)"

fun update_fields :: "'x api_ext_scheme \<Rightarrow> (string + field) list \<Rightarrow> update_form \<Rightarrow> update_error + update_form" where
  "update_fields X [] u = Inr u"
| "update_fields X (Inl e # fs) u = Inl (UpdateMultipartError e)"
| "update_fields X (Inr f # fs) u = bindR (update_field X f u) (update_fields X fs)"

definition update_edit ::
  "('w, 'z) mount_ext_scheme \<Rightarrow> path \<Rightarrow> bytes \<Rightarrow> 'w mount_state \<Rightarrow> (update_error + unit) \<times> 'w mount_state" where
  "update_edit E p data =
     bindS (reads (path_exists E UpdateMount p)) (\<lambda>file_exists.
     bindS (if file_exists then mapS_err UpdateMount (mount_rm E p) else liftR (Inr ())) (\<lambda>_.
     mapS_err UpdateMount (mount_add E p (Inr data))))"

definition update_handler ::
  "('w, 'z) mount_ext_scheme \<Rightarrow> 'l log_provider \<Rightarrow> 'x api_ext_scheme \<Rightarrow> (string + field) list \<Rightarrow> ('l, 'w) peer_state \<Rightarrow>
     (update_error + nat \<times> update_response) \<times> ('l, 'w) peer_state" where
  "update_handler E L X multipart s =
     bindS (liftR (update_fields X multipart \<lparr>uf_bucket_id = None, uf_mount_path = None, uf_file = None\<rparr>)) (\<lambda>u.
     bindS (liftR (ok_or (UpdateInvalidRequest ''bucket_id is required'') (uf_bucket_id u))) (\<lambda>i.
     bindS (liftR (ok_or (UpdateInvalidRequest ''mount_path is required'') (uf_mount_path u))) (\<lambda>mount_path.
     bindS (liftR (ok_or (UpdateInvalidRequest ''file is required'') (uf_file u))) (\<lambda>data.
     let p = components mount_path in
     if \<not> is_absolute p then liftR (Inl (UpdateInvalidPath ''Mount path must be absolute''))
     else bindS (edit_bucket E L UpdateMount i False (update_edit E p data)) (\<lambda>(_, l).
       liftR (Inr (200, \<lparr>ur_mount_path = mount_path, ur_link = l, ur_mime_type = guess_mime E p\<rparr>))))))) s"

fun update_error_response :: "update_error \<Rightarrow> served" where
  "update_error_response (UpdateInvalidPath msg) = plain_response 400 (''Bad request: '' @ msg)"
| "update_error_response (UpdateInvalidRequest msg) = plain_response 400 (''Bad request: '' @ msg)"
| "update_error_response (UpdateMultipartError msg) = plain_response 400 (''Bad request: '' @ msg)"
| "update_error_response (UpdateMount e) = mount_response e 500 ''Unexpected error''"

section \<open>Rename and move\<close>

record rename_request =
  rn_bucket_id :: uuid
  rn_old_path :: string
  rn_new_path :: string

record rename_response =
  rr_old_path :: string
  rr_new_path :: string
  rr_link :: link

datatype rename_error =
    RenameInvalidPath string | RenameSourceNotFound string | RenameDestinationExists string | RenameMount mount_error

definition rename_edit ::
  "('w, 'z) mount_ext_scheme \<Rightarrow> rename_request \<Rightarrow> path \<Rightarrow> path \<Rightarrow> 'w mount_state \<Rightarrow> (rename_error + unit) \<times> 'w mount_state" where
  "rename_edit E req old_path new_path =
     bindS (reads (path_exists E RenameMount old_path)) (\<lambda>source.
     if \<not> source then liftR (Inl (RenameSourceNotFound (''Source path not found: '' @ rn_old_path req)))
     else bindS (reads (path_exists E RenameMount new_path)) (\<lambda>destination.
     if destination then liftR (Inl (RenameDestinationExists (''Destination path already exists: '' @ rn_new_path req)))
     else bindS (reads (\<lambda>s. map_err RenameMount (mount_cat E old_path s))) (\<lambda>file_data.
     bindS (mapS_err RenameMount (mount_rm E old_path)) (\<lambda>_.
     mapS_err RenameMount (mount_add E new_path (Inr file_data))))))"

definition rename_handler ::
  "('w, 'z) mount_ext_scheme \<Rightarrow> 'l log_provider \<Rightarrow> rename_request \<Rightarrow> ('l, 'w) peer_state \<Rightarrow>
     (rename_error + nat \<times> rename_response) \<times> ('l, 'w) peer_state" where
  "rename_handler E L req s =
     (let old_path = components (rn_old_path req); new_path = components (rn_new_path req) in
      if \<not> is_absolute old_path then (Inl (RenameInvalidPath (''Old path must be absolute: '' @ rn_old_path req)), s)
      else if \<not> is_absolute new_path then (Inl (RenameInvalidPath (''New path must be absolute: '' @ rn_new_path req)), s)
      else bindS (edit_bucket E L RenameMount (rn_bucket_id req) False (rename_edit E req old_path new_path)) (\<lambda>(_, l).
        liftR (Inr (200, \<lparr>rr_old_path = rn_old_path req, rr_new_path = rn_new_path req, rr_link = l\<rparr>))) s)"

fun rename_error_response :: "rename_error \<Rightarrow> served" where
  "rename_error_response (RenameInvalidPath msg) = plain_response 400 (''Invalid path: '' @ msg)"
| "rename_error_response (RenameSourceNotFound msg) = plain_response 404 (''Source not found: '' @ msg)"
| "rename_error_response (RenameDestinationExists msg) = plain_response 409 (''Destination exists: '' @ msg)"
| "rename_error_response (RenameMount e) = mount_response e 500 ''Unexpected error''"

record mv_request =
  mv_bucket_id :: uuid
  mv_source_path :: string
  mv_dest_path :: string

record mv_response =
  mr_source_path :: string
  mr_dest_path :: string
  mr_link :: link

datatype mv_error = MvInvalidPath string | MvMount mount_error

definition mv_handler ::
  "('w, 'z) mount_ext_scheme \<Rightarrow> 'l log_provider \<Rightarrow> mv_request \<Rightarrow> ('l, 'w) peer_state \<Rightarrow>
     (mv_error + nat \<times> mv_response) \<times> ('l, 'w) peer_state" where
  "mv_handler E L req s =
     (let source_path = components (mv_source_path req); dest_path = components (mv_dest_path req) in
      if \<not> is_absolute source_path then (Inl (MvInvalidPath (''Source path must be absolute: '' @ mv_source_path req)), s)
      else if \<not> is_absolute dest_path then (Inl (MvInvalidPath (''Destination path must be absolute: '' @ mv_dest_path req)), s)
      else bindS (edit_bucket E L MvMount (mv_bucket_id req) False
             (mapS_err MvMount (mount_mv E source_path dest_path))) (\<lambda>(_, l).
        liftR (Inr (200, \<lparr>mr_source_path = mv_source_path req, mr_dest_path = mv_dest_path req, mr_link = l\<rparr>))) s)"

fun mv_error_response :: "mv_error \<Rightarrow> served" where
  "mv_error_response (MvInvalidPath msg) = plain_response 400 (''Invalid path: '' @ msg)"
| "mv_error_response (MvMount e) =
     (case e of
        PathNotFound p \<Rightarrow> plain_response 404 (''Source not found: '' @ path_text p)
      | PathAlreadyExists p \<Rightarrow> plain_response 409 (''Destination already exists: '' @ path_text p)
      | MoveIntoSelf a b \<Rightarrow> plain_response 400 (''Cannot move '' @ [CHR 0x27] @ path_text a @ [CHR 0x27] @
          '' into itself: destination '' @ [CHR 0x27] @ path_text b @ [CHR 0x27] @ '' is inside source'')
      | _ \<Rightarrow> mount_response e 500 ''Unexpected error'')"

section \<open>Delete and mkdir\<close>

datatype delete_error = DeleteInvalidPath string | DeletePathNotFound string | DeleteMount mount_error

record delete_response =
  dr_path :: string
  dr_new_bucket_link :: string

definition delete_edit ::
  "('w, 'z) mount_ext_scheme \<Rightarrow> string \<Rightarrow> path \<Rightarrow> 'w mount_state \<Rightarrow> (delete_error + unit) \<times> 'w mount_state" where
  "delete_edit E t p =
     bindS (reads (path_exists E DeleteMount p)) (\<lambda>found.
     if \<not> found then liftR (Inl (DeletePathNotFound t)) else mapS_err DeleteMount (mount_rm E p))"

definition delete_handler ::
  "('w, 'z) mount_ext_scheme \<Rightarrow> 'l log_provider \<Rightarrow> 'x api_ext_scheme \<Rightarrow> uuid \<Rightarrow> string \<Rightarrow> ('l, 'w) peer_state \<Rightarrow>
     (delete_error + nat \<times> delete_response) \<times> ('l, 'w) peer_state" where
  "delete_handler E L X i t s =
     (let p = components t in
      if \<not> is_absolute p then (Inl (DeleteInvalidPath (''Path must be absolute: '' @ t)), s)
      else bindS (edit_bucket E L DeleteMount i False (delete_edit E t p)) (\<lambda>(_, l).
        liftR (Inr (200, \<lparr>dr_path = t, dr_new_bucket_link = hash_text X (link_hash l)\<rparr>))) s)"

fun delete_error_response :: "delete_error \<Rightarrow> served" where
  "delete_error_response (DeleteInvalidPath msg) = plain_response 400 (''Invalid path: '' @ msg)"
| "delete_error_response (DeletePathNotFound msg) = plain_response 404 (''Path not found: '' @ msg)"
| "delete_error_response (DeleteMount e) = mount_response e 500 ''Unexpected error''"

record mkdir_response =
  kr_path :: string
  kr_link :: link

text \<open>The error of \<open>mkdir\<close> is the one of the mount.\<close>

definition mkdir_handler ::
  "('w, 'z) mount_ext_scheme \<Rightarrow> 'l log_provider \<Rightarrow> uuid \<Rightarrow> string \<Rightarrow> ('l, 'w) peer_state \<Rightarrow>
     (mount_error + nat \<times> mkdir_response) \<times> ('l, 'w) peer_state" where
  "mkdir_handler E L i t =
     bindS (edit_bucket E L id i False (mount_mkdir E (components t))) (\<lambda>(_, l).
     liftR (Inr (200, \<lparr>kr_path = t, kr_link = l\<rparr>)))"

definition mkdir_error_response :: "mount_error \<Rightarrow> served" where
  "mkdir_error_response e = mount_response e 500 ''Unexpected error''"

section \<open>Publish and share\<close>

record publish_response =
  pb_bucket_id :: uuid
  pb_published :: bool
  pb_new_bucket_link :: string

definition publish_handler ::
  "('w, 'z) mount_ext_scheme \<Rightarrow> 'l log_provider \<Rightarrow> 'x api_ext_scheme \<Rightarrow> uuid \<Rightarrow> ('l, 'w) peer_state \<Rightarrow>
     (mount_error + nat \<times> publish_response) \<times> ('l, 'w) peer_state" where
  "publish_handler E L X i =
     bindS (edit_bucket E L id i True (liftR (Inr ()))) (\<lambda>(_, l).
     liftR (Inr (200, \<lparr>pb_bucket_id = i, pb_published = True, pb_new_bucket_link = hash_text X (link_hash l)\<rparr>)))"

definition publish_error_response :: "mount_error \<Rightarrow> served" where
  "publish_error_response e = mount_response e 500 ''Unexpected error''"

datatype share_role = ShareOwner | ShareMirror

record share_request =
  sq_bucket_id :: uuid
  sq_peer_public_key :: string
  sq_role :: share_role

record share_response =
  sr_bucket_id :: uuid
  sr_peer_public_key :: string
  sr_new_bucket_link :: string

datatype share_error = ShareInvalidPublicKey string | ShareMount mount_error

definition share_edit ::
  "('w, 'z) mount_ext_scheme \<Rightarrow> share_role \<Rightarrow> public_key \<Rightarrow> 'w mount_state \<Rightarrow> (share_error + unit) \<times> 'w mount_state" where
  "share_edit E role pk =
     mapS_err ShareMount (case role of ShareOwner \<Rightarrow> add_owner E pk | ShareMirror \<Rightarrow> add_mirror E pk)"

definition share_handler ::
  "('w, 'z) mount_ext_scheme \<Rightarrow> 'l log_provider \<Rightarrow> 'x api_ext_scheme \<Rightarrow> share_request \<Rightarrow> ('l, 'w) peer_state \<Rightarrow>
     (share_error + nat \<times> share_response) \<times> ('l, 'w) peer_state" where
  "share_handler E L X req s =
     (case public_key_from_hex E (sq_peer_public_key req) of
        Inl (KeyPanic msg) \<Rightarrow> (Inl (ShareMount (MtPanic msg)), s)
      | Inl e \<Rightarrow> (Inl (ShareInvalidPublicKey (key_error_text X e)), s)
      | Inr pk \<Rightarrow>
          bindS (edit_bucket E L ShareMount (sq_bucket_id req) False (share_edit E (sq_role req) pk)) (\<lambda>(_, l).
          liftR (Inr (200, \<lparr>sr_bucket_id = sq_bucket_id req, sr_peer_public_key = sq_peer_public_key req,
            sr_new_bucket_link = hash_text X (link_hash l)\<rparr>))) s)"

fun share_error_response :: "share_error \<Rightarrow> served" where
  "share_error_response (ShareInvalidPublicKey msg) = plain_response 400 (''Invalid public key: '' @ msg)"
| "share_error_response (ShareMount e) = mount_response e 500 ''Unexpected error''"

section \<open>Ping\<close>

record ping_response =
  gr_bucket_id :: uuid
  gr_peer_public_key :: string
  gr_success :: bool
  gr_message :: string

datatype ping_error = PingInvalidPublicKey string | PingFailed string | PingPanicked string

definition ping_handler ::
  "('w, 'z) mount_ext_scheme \<Rightarrow> 'x api_ext_scheme \<Rightarrow> uuid \<Rightarrow> string \<Rightarrow> ('l, 'w) peer_state \<Rightarrow>
     (ping_error + nat \<times> ping_response) \<times> ('l, 'w) peer_state" where
  "ping_handler E X i key s =
     (case public_key_from_hex E key of
        Inl (KeyPanic msg) \<Rightarrow> (Inl (PingPanicked msg), s)
      | Inl e \<Rightarrow> (Inl (PingInvalidPublicKey (key_error_text X e)), s)
      | Inr pk \<Rightarrow>
          (case dispatch (PingPeer \<lparr>pp_bucket_id = i, pp_peer_id = pk\<rparr>) (fst s) of
             (Inl e, p) \<Rightarrow> (Inl (PingFailed (queue_error_text X e)), (p, snd s))
           | (Inr _, p) \<Rightarrow>
               (Inr (200, \<lparr>gr_bucket_id = i, gr_peer_public_key = key, gr_success = True,
                  gr_message = ''Ping job dispatched''\<rparr>), (p, snd s))))"

fun ping_error_response :: "ping_error \<Rightarrow> served" where
  "ping_error_response (PingInvalidPublicKey msg) = plain_response 400 (''Invalid public key: '' @ msg)"
| "ping_error_response (PingFailed msg) = plain_response 500 (''Failed to ping: '' @ msg)"
| "ping_error_response (PingPanicked msg) = Panicked msg"

section \<open>Reading\<close>

record path_info =
  pi_path :: string
  pi_name :: string
  pi_link :: link
  pi_is_dir :: bool
  pi_mime_type :: string

definition info_of :: "path \<times> node_link \<Rightarrow> path_info" where
  "info_of e = (case e of (p, nl) \<Rightarrow>
     \<lparr>pi_path = path_text (push [RootDir] p), pi_name = name_or (path_text p) p, pi_link = nl_link nl,
      pi_is_dir = is_dir nl, pi_mime_type = mime_of_link nl\<rparr>)"

text \<open>\<open>ls\<close>; the recursion of the deep listing takes fuel, \<open>None\<close> when it does not suffice.\<close>

definition ls_handler ::
  "nat \<Rightarrow> ('w, 'z) mount_ext_scheme \<Rightarrow> 'l log_provider \<Rightarrow> uuid \<Rightarrow> string option \<Rightarrow> bool option \<Rightarrow> ('l, 'w) peer_state \<Rightarrow>
     (mount_error + nat \<times> path_info list) option" where
  "ls_handler fuel E L i path deep s =
     (case mount_for_read E L i s of
        Inl e \<Rightarrow> Some (Inl e)
      | Inr m \<Rightarrow>
          (let path_buf = components (case path of Some t \<Rightarrow> t | None \<Rightarrow> ''/'')
           in map_option (\<lambda>r. bindR r (\<lambda>items. Inr (200, map info_of items)))
                (if deep = Some True then mount_ls_deep fuel E path_buf (m, snd s)
                 else Some (mount_ls E path_buf (m, snd s)))))"

definition ls_error_response :: "'x api_ext_scheme \<Rightarrow> mount_error \<Rightarrow> served" where
  "ls_error_response X e = mount_response e 500 (''Error: Mount error: '' @ mount_error_text X e)"

record cat_request =
  ca_bucket_id :: uuid
  ca_path :: string
  ca_at :: "string option"
  ca_download :: "bool option"

record cat_response =
  cx_path :: string
  cx_content :: string
  cx_size :: nat
  cx_mime_type :: string

datatype cat_error = CatInvalidPath string | CatMount mount_error

definition handle_cat_request ::
  "('w, 'z) mount_ext_scheme \<Rightarrow> 'l log_provider \<Rightarrow> 'x api_ext_scheme \<Rightarrow> cat_request \<Rightarrow> ('l, 'w) peer_state \<Rightarrow>
     cat_error + cat_response" where
  "handle_cat_request E L X req s =
     bindR (case ca_at req of
         Some t \<Rightarrow>
           (case hash_from_str X t of
              Some h \<Rightarrow> map_err CatMount (mount_load E (link_new LD_RAW_CODEC h) (pr_secret_key (fst s)) (snd s))
            | None \<Rightarrow> Inl (CatInvalidPath (''Invalid hash format: '' @ hash_error X t)))
       | None \<Rightarrow> map_err CatMount (mount_for_read E L (ca_bucket_id req) s)) (\<lambda>m.
     let p = components (ca_path req) in
     if \<not> is_absolute p then Inl (CatInvalidPath ''Path must be absolute'')
     else bindR (map_err CatMount (mount_cat E p (m, snd s))) (\<lambda>data.
     bindR (map_err CatMount (mount_get E p (m, snd s))) (\<lambda>nl.
     Inr \<lparr>cx_path = ca_path req, cx_content = base64_encode X data, cx_size = length data,
       cx_mime_type = (case nl of Data _ _ d \<Rightarrow> (case d_mime d of Some m \<Rightarrow> m | None \<Rightarrow> ''application/octet-stream'')
         | Dir _ _ \<Rightarrow> ''application/octet-stream'')\<rparr>)))"

definition cat_handler ::
  "('w, 'z) mount_ext_scheme \<Rightarrow> 'l log_provider \<Rightarrow> 'x api_ext_scheme \<Rightarrow> cat_request \<Rightarrow> ('l, 'w) peer_state \<Rightarrow>
     cat_error + nat \<times> cat_response" where
  "cat_handler E L X req s = bindR (handle_cat_request E L X req s) (\<lambda>resp. Inr (200, resp))"

definition cat_handler_get ::
  "('w, 'z) mount_ext_scheme \<Rightarrow> 'l log_provider \<Rightarrow> 'x api_ext_scheme \<Rightarrow> cat_request \<Rightarrow> ('l, 'w) peer_state \<Rightarrow>
     cat_error + response" where
  "cat_handler_get E L X req s =
     bindR (handle_cat_request E L X req s) (\<lambda>resp.
     bindR (map_err (\<lambda>e. CatInvalidPath (''Failed to decode content: '' @ e)) (base64_decode X (cx_content resp))) (\<lambda>content.
     let disposition = (if ca_download req = Some True
           then ''attachment; filename=\"'' @ name_or ''download'' (components (cx_path resp)) @ ''\"''
           else ''inline; filename=\"'' @ name_or ''file'' (components (cx_path resp)) @ ''\"'')
     in Inr (with_headers X \<lparr>rs_status = 200,
          rs_headers = [(''content-type'', cx_mime_type resp), (''content-disposition'', disposition)],
          rs_body = Bytes content\<rparr>)))"

fun cat_error_response :: "cat_error \<Rightarrow> served" where
  "cat_error_response (CatInvalidPath msg) = plain_response 400 (''Invalid path: '' @ msg)"
| "cat_error_response (CatMount e) = mount_response e 500 ''Unexpected error''"

definition list_handler ::
  "string option \<Rightarrow> 32 word option \<Rightarrow> (database, 'w) peer_state \<Rightarrow> bucket_log_error + nat \<times> bucket_info list" where
  "list_handler name_prefix limit s =
     bindR (list_bucket_infos (pr_log (fst s)) name_prefix limit) (\<lambda>bs. Inr (200, bs))"

record latest_published_response =
  lr_bucket_id :: uuid
  lr_link :: "string option"
  lr_height :: "u64 option"

datatype latest_published_error = LatestBucketNotFound uuid | LatestInternal string | LatestPanicked string

definition latest_published_handler ::
  "'l log_provider \<Rightarrow> 'x api_ext_scheme \<Rightarrow> uuid \<Rightarrow> ('l, 'w) peer_state \<Rightarrow>
     latest_published_error + nat \<times> latest_published_response" where
  "latest_published_handler L X i s =
     bindR (map_err (\<lambda>e. LatestInternal (log_error_text X e)) (lp_exists L (pr_log (fst s)) i)) (\<lambda>known.
     if \<not> known then Inl (LatestBucketNotFound i)
     else bindR (map_err (log_error (\<lambda>e. LatestInternal (log_error_text X e)) LatestPanicked) (lp_latest_published L (pr_log (fst s)) i)) (\<lambda>res.
     Inr (200, \<lparr>lr_bucket_id = i, lr_link = map_option (\<lambda>(l, h). link_text X l) res,
       lr_height = map_option snd res\<rparr>)))"

fun latest_published_error_response :: "'x api_ext_scheme \<Rightarrow> latest_published_error \<Rightarrow> served" where
  "latest_published_error_response X (LatestBucketNotFound i) = plain_response 404 (''Bucket not found: '' @ uuid_text X i)"
| "latest_published_error_response X (LatestInternal msg) = plain_response 500 (''Internal error: '' @ msg)"
| "latest_published_error_response X (LatestPanicked msg) = Panicked msg"

section \<open>Export\<close>

text \<open>The file system of the host, and the hashes of what was exported (\<open>PathHashMap\<close>).\<close>

record 'f host_ext =
  host_create_dir_all :: "path \<Rightarrow> 'f \<Rightarrow> (string + unit) \<times> 'f"
  host_write :: "path \<Rightarrow> bytes \<Rightarrow> 'f \<Rightarrow> (string + unit) \<times> 'f"

type_synonym path_hash_map = "(path \<times> (hash \<times> bytes)) list"

definition hash_map_insert :: "path \<Rightarrow> hash \<Rightarrow> bytes \<Rightarrow> path_hash_map \<Rightarrow> path_hash_map" where
  "hash_map_insert p blob_hash plaintext_hash m = AList.update p (blob_hash, plaintext_hash) m"

record export_response =
  er_bucket_name :: string
  er_link :: link
  er_height :: u64
  er_files_exported :: nat
  er_hash_map :: path_hash_map

datatype export_error =
    ExportBucketNotFound uuid | ExportBucketLog string | ExportMount mount_error | ExportIo string
  | ExportBlobStore string | ExportDecryption string

definition export_item ::
  "('w, 'z) mount_ext_scheme \<Rightarrow> 'x api_ext_scheme \<Rightarrow> 'f host_ext \<Rightarrow> 'w \<Rightarrow> path \<Rightarrow> path \<times> node_link \<Rightarrow> path_hash_map \<Rightarrow> 'f \<Rightarrow>
     (export_error + path_hash_map) \<times> 'f" where
  "export_item E X H w target_dir item hm =
     (let target_path = push target_dir (fst item) in
      case snd item of
        Data l secret _ \<Rightarrow>
          bindS (case parent target_path of
              Some p \<Rightarrow> mapS_err ExportIo (host_create_dir_all H p)
            | None \<Rightarrow> liftR (Inr ())) (\<lambda>_.
          bindS (liftR (map_err (\<lambda>e. ExportBlobStore (blobs_error_text X e)) (blob_get E (link_hash l) w))) (\<lambda>encrypted.
          bindS (liftR (map_err (\<lambda>e. ExportDecryption (secret_error_text X e)) (extract_plaintext_hash E secret encrypted))) (\<lambda>h.
          bindS (liftR (map_err (\<lambda>e. ExportDecryption (secret_error_text X e)) (decrypt E secret encrypted))) (\<lambda>data.
          bindS (mapS_err ExportIo (host_write H target_path data)) (\<lambda>_.
          liftR (Inr (hash_map_insert (fst item) (link_hash l) h hm)))))))
      | Dir _ _ \<Rightarrow> bindS (mapS_err ExportIo (host_create_dir_all H target_path)) (\<lambda>_. liftR (Inr hm)))"

fun export_items ::
  "('w, 'z) mount_ext_scheme \<Rightarrow> 'x api_ext_scheme \<Rightarrow> 'f host_ext \<Rightarrow> 'w \<Rightarrow> path \<Rightarrow> (path \<times> node_link) list \<Rightarrow> nat \<Rightarrow> path_hash_map \<Rightarrow>
     'f \<Rightarrow> (export_error + nat \<times> path_hash_map) \<times> 'f" where
  "export_items E X H w target_dir [] n hm = liftR (Inr (n, hm))"
| "export_items E X H w target_dir (item # items) n hm =
     bindS (export_item E X H w target_dir item hm)
       (export_items E X H w target_dir items (if is_dir (snd item) then n else n + 1))"

definition export_mount_to_filesystem ::
  "nat \<Rightarrow> ('w, 'z) mount_ext_scheme \<Rightarrow> 'x api_ext_scheme \<Rightarrow> 'f host_ext \<Rightarrow> path \<Rightarrow> 'w mount_state \<Rightarrow> 'f \<Rightarrow>
     ((export_error + nat \<times> path_hash_map) \<times> 'f) option" where
  "export_mount_to_filesystem fuel E X H target_dir s f =
     (case mount_ls_deep fuel E [RootDir] s of
        None \<Rightarrow> None
      | Some (Inl e) \<Rightarrow> Some (Inl (ExportMount e), f)
      | Some (Inr items) \<Rightarrow> Some (export_items E X H (snd s) target_dir items 0 [] f))"

definition export_handler ::
  "nat \<Rightarrow> ('w, 'z) mount_ext_scheme \<Rightarrow> 'l log_provider \<Rightarrow> 'x api_ext_scheme \<Rightarrow> 'f host_ext \<Rightarrow> uuid \<Rightarrow> path \<Rightarrow> ('l, 'w) peer_state \<Rightarrow> 'f \<Rightarrow>
     ((export_error + nat \<times> export_response) \<times> 'f) option" where
  "export_handler fuel E L X H i target_dir s f =
     (case lp_exists L (pr_log (fst s)) i of
        Inl e \<Rightarrow> Some (Inl (ExportBucketLog (log_error_text X e)), f)
      | Inr False \<Rightarrow> Some (Inl (ExportBucketNotFound i), f)
      | Inr True \<Rightarrow>
          (case lp_head L (pr_log (fst s)) i of
             Inl e \<Rightarrow> Some (Inl (log_error (\<lambda>e. ExportBucketLog (log_error_text X e)) (\<lambda>msg. ExportMount (MtPanic msg)) e), f)
           | Inr (head_link, height) \<Rightarrow>
               (case mount_load E head_link (pr_secret_key (fst s)) (snd s) of
                  Inl e \<Rightarrow> Some (Inl (ExportMount e), f)
                | Inr m \<Rightarrow>
                    (case host_create_dir_all H target_dir f of
                       (Inl e, f1) \<Rightarrow> Some (Inl (ExportIo e), f1)
                     | (Inr _, f1) \<Rightarrow>
                         map_option (\<lambda>(r, f2). (bindR r (\<lambda>(n, hm). Inr (200,
                           \<lparr>er_bucket_name = m_name (mi_manifest m), er_link = head_link, er_height = height,
                            er_files_exported = n, er_hash_map = hm\<rparr>)), f2))
                           (export_mount_to_filesystem fuel E X H target_dir (m, snd s) f1)))))"

fun export_error_response :: "'x api_ext_scheme \<Rightarrow> export_error \<Rightarrow> served" where
  "export_error_response X (ExportBucketNotFound i) = plain_response 404 (''Bucket not found: '' @ uuid_text X i)"
| "export_error_response X (ExportBucketLog msg) = plain_response 500 (''Bucket log error: '' @ msg)"
| "export_error_response X (ExportMount e) = mount_response e 500 (''Mount error: '' @ mount_error_text X e)"
| "export_error_response X (ExportIo msg) = plain_response 500 (''I/O error: '' @ msg)"
| "export_error_response X (ExportBlobStore msg) = plain_response 500 (''Blob store error: '' @ msg)"
| "export_error_response X (ExportDecryption msg) = plain_response 500 (''Decryption error: '' @ msg)"

end
