(* ===== verification/Api_Safety.thy ===== *)
theory Api_Safety
  imports Bucket_Api Mount_Manager
begin

text \<open>
  What the bucket API guarantees. Every request that changes a bucket is an edit of its head, so that
  by theory \<open>Service\<close> all buckets stay mountable by their owner whatever is requested and however it
  ends; a request that is refused leaves every head alone; a file that is renamed or updated is found
  as requested in the next version. And what it does not: sharing a bucket with oneself as a mirror
  locks it.
\<close>

section \<open>Routes\<close>

datatype api_request =
    PostCreate uuid int string
  | PostAdd "(string + field) list"
  | PostUpdate "(string + field) list"
  | PostRename rename_request
  | PostMv mv_request
  | PostDelete uuid string
  | PostMkdir uuid string
  | PostPing uuid string
  | PostShare share_request
  | PostPublish uuid

datatype api_body =
    BCreate create_response
  | BAdd add_response
  | BUpdate update_response
  | BRename rename_response
  | BMv mv_response
  | BDelete delete_response
  | BMkdir mkdir_response
  | BPing ping_response
  | BShare share_response
  | BPublish publish_response

datatype answer = Json nat api_body | Refused served

definition answer :: "('e \<Rightarrow> served) \<Rightarrow> ('r \<Rightarrow> api_body) \<Rightarrow> ('e + nat \<times> 'r) \<times> 's \<Rightarrow> answer \<times> 's" where
  "answer err body rs = (case fst rs of Inl e \<Rightarrow> Refused (err e) | Inr (status, r) \<Rightarrow> Json status (body r), snd rs)"

text \<open>The routes that change the state of the service.\<close>

fun post_route ::
  "('w, 'z) mount_ext_scheme \<Rightarrow> 'l log_provider \<Rightarrow> 'x api_ext_scheme \<Rightarrow> api_request \<Rightarrow> ('l, 'w) peer_state \<Rightarrow>
     answer \<times> ('l, 'w) peer_state" where
  "post_route E L X (PostCreate i now nm) s = answer (create_error_response X) BCreate (create_handler E L X i now nm s)"
| "post_route E L X (PostAdd fs) s = answer add_error_response BAdd (add_handler E L X fs s)"
| "post_route E L X (PostUpdate fs) s = answer update_error_response BUpdate (update_handler E L X fs s)"
| "post_route E L X (PostRename req) s = answer rename_error_response BRename (rename_handler E L req s)"
| "post_route E L X (PostMv req) s = answer mv_error_response BMv (mv_handler E L req s)"
| "post_route E L X (PostDelete i t) s = answer delete_error_response BDelete (delete_handler E L X i t s)"
| "post_route E L X (PostMkdir i t) s = answer mkdir_error_response BMkdir (mkdir_handler E L i t s)"
| "post_route E L X (PostPing i k) s = answer ping_error_response BPing (ping_handler E X i k s)"
| "post_route E L X (PostShare req) s = answer share_error_response BShare (share_handler E L X req s)"
| "post_route E L X (PostPublish i) s = answer publish_error_response BPublish (publish_handler E L X i s)"

section \<open>The edits of the requests\<close>

lemma edits_reads [edit_rules]: "edits E P (reads q)" "(\<And>x. edits E P (g x)) \<Longrightarrow> edits E P (bindS (reads q) g)"
  unfolding reads_def by (rule edits_read, rule edits_after_read)

text \<open>The text of an absolute path leads to something below the root, with no \<open>..\<close> in it.\<close>

definition plain_path :: "string \<Rightarrow> bool" where
  "plain_path t \<longleftrightarrow> (is_absolute (components t) \<longrightarrow> (\<exists>ns x. components t = abs_path (ns @ [x])))"

text \<open>No file stands above the path in the file system.\<close>

definition clear_path :: "string \<Rightarrow> fs \<Rightarrow> bool" where
  "clear_path t F \<longleftrightarrow> (\<exists>ns x. components t = abs_path (ns @ [x]) \<and> no_file_above ns F)"

lemma edits_add_file [edit_rules]:
  assumes "mount_laws E" and "plain_path (full_path base (fst file))"
  shows "edits E P (add_file E X base file)"
proof (cases "is_absolute (components (full_path base (fst file)))")
  case True
  then obtain ns x where p: "components (full_path base (fst file)) = abs_path (ns @ [x])"
    using assms(2) by (auto simp: plain_path_def)
  show ?thesis
  proof (rule editsI)
    fix s r s'
    assume a: "mount_ok E s" "P (mount_fs E s)" "add_file E X base file s = (r, s')"
    obtain r1 s1 where add: "mount_add E (abs_path (ns @ [x])) (Inr (snd file)) s = (r1, s1)"
      by (rule prod.exhaust)
    have "s' = s1"
      using a(3) add p True by (auto simp: add_file_def Let_def split: sum.splits mount_error.splits)
    with editsD [OF edits_add [OF assms(1), where P = P] a(1,2) add]
    show "mount_ok E s' \<and> same_bucket E (fst s) (fst s') \<and> keeps_blobs E (snd s) (snd s')" by simp
  qed
next
  case False
  then show ?thesis
    by (auto simp: edits_def add_file_def Let_def keeps_refl)
qed

lemma edits_add_files:
  assumes "mount_laws E"
    and "\<And>file. file \<in> set files \<Longrightarrow> plain_path (full_path base (fst file))"
  shows "edits E P (add_files E X base files)"
  using assms(2)
proof (induction files arbitrary: P)
  case (Cons f fs)
  show ?case
    by (simp, intro edit_rules Cons.IH assms(1) Cons.prems) simp_all
qed (simp add: edit_rules)

lemma edits_add_edit:
  assumes "mount_laws E"
    and "\<And>file. file \<in> set files \<Longrightarrow> plain_path (full_path base (fst file))"
  shows "edits E P (add_edit E X base files)"
  unfolding add_edit_def by (intro edit_rules edits_add_files assms)

lemma edits_update:
  assumes "mount_laws E"
  shows "edits E (no_file_above ns) (update_edit E (abs_path (ns @ [x])) data)"
  unfolding update_edit_def by (intro edit_rules assms)

lemma edits_rename:
  assumes "mount_laws E"
  shows "edits E (no_file_above ns) (rename_edit E req (abs_path (ns @ [x])) (abs_path (ts @ [y])))"
  unfolding rename_edit_def by (intro edit_rules assms)

lemma edits_delete:
  assumes "mount_laws E"
  shows "edits E (no_file_above ns) (delete_edit E t (abs_path (ns @ [x])))"
  unfolding delete_edit_def by (intro edit_rules assms)

section \<open>Requests keep the buckets\<close>

text \<open>What a request did: it concerned one bucket, and if it was refused (by a response, not a panic) no head moved.\<close>

definition settled ::
  "('w, 'z) mount_ext_scheme \<Rightarrow> 'l log_provider \<Rightarrow> ('l \<Rightarrow> bool) \<Rightarrow> ('l, 'w) peer_state \<Rightarrow> answer \<Rightarrow> ('l, 'w) peer_state \<Rightarrow> bool" where
  "settled E L ok s a s' \<longleftrightarrow> (\<exists>i. moved_on E L ok i s s') \<and>
     ((\<exists>rs. a = Refused (Response rs)) \<longrightarrow> (\<forall>j. lp_head L (pr_log (fst s')) j = lp_head L (pr_log (fst s)) j))"

lemma settled_same: "ok (pr_log (fst s)) \<Longrightarrow> settled E L ok s a s"
  by (auto simp: settled_def moved_on_def keeps_refl)

context peer_log
begin

lemma edit_settled:
  assumes laws: "mount_laws E" and sv: "service_ok E L ok s"
    and room: "\<And>m. peer_mount E L i s = Inr m \<Longrightarrow> has_room fits (mi_height m)"
    and edit: "\<And>m r1 s1. peer_mount E L i s = Inr m \<Longrightarrow> mount_ok E (m, snd s) \<Longrightarrow>
      mi_secret_key m = pr_secret_key (fst s) \<Longrightarrow> f (m, snd s) = (r1, s1) \<Longrightarrow>
      mount_ok E s1 \<and> same_bucket E m (fst s1) \<and> keeps_blobs E (snd s) (snd s1)"
    and run: "answer errf body (bindS (edit_bucket E L err i pub f) (\<lambda>(x, l). liftR (Inr (g x l))) s) = (a, s')"
    and panic: "\<And>msg. errf (err (MtPanic msg)) = Panicked msg"
  shows "settled E L ok s a s'"
proof -
  have log: "ok (pr_log (fst s))" using sv by (simp add: service_ok_def)
  obtain r s2 where e: "edit_bucket E L err i pub f s = (r, s2)" by (rule prod.exhaust)
  have s': "s' = s2"
    using run e by (auto simp: answer_def bindS_def liftR_def split: sum.splits prod.splits)
  have refused: "\<exists>er. r = Inl er \<and> (\<nexists>msg. er = err (MtPanic msg))" if "a = Refused (Response rs)" for rs
    using that run e panic by (cases r) (auto simp: answer_def bindS_def liftR_def split: prod.splits)
  show ?thesis
  proof (cases "peer_mount E L i s")
    case (Inl er)
    then have "s2 = s" using e by (simp add: edit_unmounted)
    then show ?thesis using settled_same [of ok s] log s' by simp
  next
    case (Inr m)
    note holds = service_holds [OF sv Inr]
    then have m: "mount_ok E (m, snd s)" "mi_secret_key m = pr_secret_key (fst s)" by (simp_all add: holds_bucket_def)
    note out = edit_outcome [OF laws log holds room [OF Inr] edit [OF Inr m] e]
    have moved: "moved_on E L ok i s s'"
      using out(1) s' by simp
    have "lp_head L (pr_log (fst s')) j = lp_head L (pr_log (fst s)) j" if "a = Refused (Response rs)" for rs j
      using refused [OF that] out(2) moved s' by (cases "j = i") (auto simp: moved_on_def)
    then show ?thesis using moved by (auto simp: settled_def)
  qed
qed

end

text \<open>A new bucket.\<close>

lemma sql_first_head:
  assumes "sql_ok db" and "sql_append cn i nm l None 0 pub db = (Inr (), db')" and "link_codec l = LD_CBOR_CODEC"
  shows "sql_ok db' \<and> lp_head (sql_provider cn) db' i = Inr (l, 0)"
proof -
  have fits: "sql_fits l 0" using assms(3) by (simp add: sql_fits_def)
  have ok': "sql_ok db'" using sql_append_ok [OF assms(1,2)] fits by simp
  have "as_i64 0 \<notin> br_height ` set (rows_of i db)"
    using assms(2) by (simp add: sql_append_accepted violated_None)
  then have "rows_of i db = []"
    using assms(1) by (simp add: sql_ok_def as_i64_def)
  then have none: "sql_peer.links cn db i h = {}" for h
    using sql_heads_ok [OF assms(1)] by (simp add: sql.links_def sql_provider_def)
  have "lp_append (sql_provider cn) i nm l None 0 pub db = (Inr (), db')"
    using assms(2) by (simp add: sql_provider_def)
  from sql_peer.accepted_links [OF assms(1) this fits] none
  have "sql_peer.links cn db' i h = (if h = 0 then {l} else {})" for h
    by simp
  then show ?thesis
    using ok' by (auto intro!: sql_peer.headI split: if_splits)
qed

lemma init_codec: "mount_init E i nm sk w = (Inr m, w') \<Longrightarrow> link_codec (mi_link m) = LD_CBOR_CODEC"
  by (auto simp: mount_init_def put_manifest_in_blobs_def res_simps manifest_codec_def Let_def)

lemma keeping_init:
  assumes "blob_laws E"
  shows "keeping E id (mount_init E i nm sk)"
  unfolding mount_init_def Let_def mt_secret_generate_def by (intro keeping_rules assms)

lemma create_settled:
  assumes laws: "mount_laws E" and sv: "service_ok E (sql_provider cn) sql_ok s"
    and run: "answer (create_error_response X) BCreate (create_handler E (sql_provider cn) X i now nm s) = (a, s')"
  shows "settled E (sql_provider cn) sql_ok s a s'"
proof (cases "nm = []")
  case True
  then show ?thesis
    using run sv settled_same [of sql_ok s] by (simp add: create_handler_def answer_def service_ok_def)
next
  case False
  let ?L = "sql_provider cn"
  have log: "sql_ok (pr_log (fst s))" using sv by (simp add: service_ok_def)
  obtain r w1 where init: "mount_init E i nm (pr_secret_key (fst s)) (snd s) = (r, w1)" by (rule prod.exhaust)
  have keep: "keeps_blobs E (snd s) w1"
    using keepingD [OF keeping_init [OF mount_laws_blob [OF laws]] init] by simp
  show ?thesis
  proof (cases r)
    case (Inl e)
    then have "s' = (fst s, w1)"
      using run False init by (simp add: create_handler_def answer_def)
    then show ?thesis
      using log keep by (simp add: settled_def moved_on_def)
  next
    case (Inr m)
    obtain ar db where ap: "sql_append cn i nm (mi_link m) None 0 False (pr_log (fst s)) = (ar, db)" by (rule prod.exhaust)
    have s': "s' = ((fst s)\<lparr>pr_log := db\<rparr>, w1)"
      using run False init Inr ap by (auto simp: create_handler_def answer_def sql_provider_def split: sum.splits)
    show ?thesis
    proof (cases ar)
      case (Inl e)
      then have "db = pr_log (fst s)" using ap sql_append_rejected by simp
      then show ?thesis using log keep s' by (simp add: settled_def moved_on_def)
    next
      case acc: (Inr u)
      note codec = init_codec [OF init [unfolded Inr]]
      note new = init_empty_bucket [OF laws init [unfolded Inr]]
      from sql_first_head [OF log _ codec] ap acc
      have head: "sql_ok db" "lp_head ?L db i = Inr (mi_link m, 0)" by auto
      have "holds_bucket E ?L i s' m"
        using new head(2) by (auto simp: holds_bucket_def s' peer_mount_def owner_def)
      moreover have "lp_head ?L db j = lp_head ?L (pr_log (fst s)) j" if "j \<noteq> i" for j
        using sql_peer.head_other [OF log, of cn i nm "mi_link m" None 0 False ar db j] ap codec that
        by (simp add: sql_provider_def sql_fits_def)
      moreover have "\<exists>status b. a = Json status b"
        using run False init Inr ap acc by (auto simp: create_handler_def answer_def sql_provider_def)
      ultimately show ?thesis
        using head(1) keep by (auto simp: settled_def moved_on_def s')
    qed
  qed
qed

section \<open>Requests\<close>

text \<open>
  The requests considered: the bucket has room for a further version in the column of heights, paths
  have no \<open>..\<close> and, where something is taken away, lead through directories of the head; and we do not
  demote ourselves.
\<close>

abbreviation head_at ::
  "('w, 'z) mount_ext_scheme \<Rightarrow> (unique_constraint \<Rightarrow> string option) \<Rightarrow> uuid \<Rightarrow> (database, 'w) peer_state \<Rightarrow> mount_inner \<Rightarrow> bool" where
  "head_at E cn i s m \<equiv> peer_mount E (sql_provider cn) i s = Inr m"

definition room_for ::
  "('w, 'z) mount_ext_scheme \<Rightarrow> (unique_constraint \<Rightarrow> string option) \<Rightarrow> uuid \<Rightarrow> (database, 'w) peer_state \<Rightarrow> bool" where
  "room_for E cn i s \<longleftrightarrow> (\<forall>m. head_at E cn i s m \<longrightarrow> has_room sql_fits (mi_height m))"

definition head_clear ::
  "('w, 'z) mount_ext_scheme \<Rightarrow> (unique_constraint \<Rightarrow> string option) \<Rightarrow> uuid \<Rightarrow> string \<Rightarrow> (database, 'w) peer_state \<Rightarrow> bool" where
  "head_clear E cn i t s \<longleftrightarrow> (\<forall>m. head_at E cn i s m \<longrightarrow> is_absolute (components t) \<longrightarrow> clear_path t (mount_fs E (m, snd s)))"

fun request_valid ::
  "('w, 'z) mount_ext_scheme \<Rightarrow> (unique_constraint \<Rightarrow> string option) \<Rightarrow> 'x api_ext_scheme \<Rightarrow> (database, 'w) peer_state \<Rightarrow> api_request \<Rightarrow> bool" where
  "request_valid E cn X s (PostCreate i now nm) = True"
| "request_valid E cn X s (PostAdd fs) =
     (\<forall>a i base. add_fields X fs \<lparr>af_bucket_id = None, af_base_path = None, af_files = []\<rparr> = Inr a \<longrightarrow>
        af_bucket_id a = Some i \<longrightarrow> af_base_path a = Some base \<longrightarrow>
        room_for E cn i s \<and> list_all (\<lambda>f. plain_path (full_path base (fst f))) (af_files a))"
| "request_valid E cn X s (PostUpdate fs) =
     (\<forall>u i t. update_fields X fs \<lparr>uf_bucket_id = None, uf_mount_path = None, uf_file = None\<rparr> = Inr u \<longrightarrow>
        uf_bucket_id u = Some i \<longrightarrow> uf_mount_path u = Some t \<longrightarrow> room_for E cn i s \<and> head_clear E cn i t s)"
| "request_valid E cn X s (PostRename req) = (room_for E cn (rn_bucket_id req) s \<and>
     head_clear E cn (rn_bucket_id req) (rn_old_path req) s \<and> plain_path (rn_new_path req))"
| "request_valid E cn X s (PostMv req) = (room_for E cn (mv_bucket_id req) s \<and>
     head_clear E cn (mv_bucket_id req) (mv_source_path req) s \<and> plain_path (mv_dest_path req))"
| "request_valid E cn X s (PostDelete i t) = (room_for E cn i s \<and> head_clear E cn i t s)"
| "request_valid E cn X s (PostMkdir i t) = (room_for E cn i s \<and> plain_path t)"
| "request_valid E cn X s (PostPing i k) = True"
| "request_valid E cn X s (PostShare req) = (room_for E cn (sq_bucket_id req) s \<and> (sq_role req = ShareMirror \<longrightarrow>
     public_key_from_hex E (sq_peer_public_key req) \<noteq> Inr (public E (pr_secret_key (fst s)))))"
| "request_valid E cn X s (PostPublish i) = room_for E cn i s"

lemma answer_early:
  assumes "ok (pr_log (fst s))" and "answer errf body (Inl e, s) = (a, s')"
  shows "settled E L ok s a s'"
  using assms settled_same [of ok s] by (auto simp: answer_def)

lemma sql_edit_settled:
  assumes "mount_laws E" and "service_ok E (sql_provider cn) sql_ok s" and "room_for E cn i s"
    and "\<And>m. head_at E cn i s m \<Longrightarrow> \<exists>P. edits E P f \<and> P (mount_fs E (m, snd s))"
    and "answer errf body (bindS (edit_bucket E (sql_provider cn) err i pub f) (\<lambda>(x, l). liftR (Inr (g x l))) s) = (a, s')"
    and "\<And>msg. errf (err (MtPanic msg)) = Panicked msg"
  shows "settled E (sql_provider cn) sql_ok s a s'"
  using assms(1,2)
proof (rule sql_peer.edit_settled [OF _ _ _ _ assms(5,6)])
  show "has_room sql_fits (mi_height m)" if "head_at E cn i s m" for m
    using assms(3) that by (simp add: room_for_def)
  show "mount_ok E s1 \<and> same_bucket E m (fst s1) \<and> keeps_blobs E (snd s) (snd s1)"
    if "head_at E cn i s m" "mount_ok E (m, snd s)" "f (m, snd s) = (r1, s1)" for m r1 s1
  proof -
    from assms(4) [OF that(1)] obtain P where P: "edits E P f" "P (mount_fs E (m, snd s))" by blast
    from editsD [OF P(1) that(2) P(2) that(3)] show ?thesis by simp
  qed
qed

lemma clear_edits:
  assumes "head_clear E cn i t s" and "head_at E cn i s m" and "is_absolute (components t)"
    and "\<And>ns x. components t = abs_path (ns @ [x]) \<Longrightarrow> edits E (no_file_above ns) f"
  shows "\<exists>P. edits E P f \<and> P (mount_fs E (m, snd s))"
  using assms unfolding head_clear_def clear_path_def by blast

lemma edits_mkdir_text:
  assumes "mount_laws E" and "plain_path t"
  shows "edits E P (mount_mkdir E (components t))"
proof (cases "is_absolute (components t)")
  case True
  then obtain ns x where "components t = abs_path (ns @ [x])"
    using assms(2) by (auto simp: plain_path_def)
  then show ?thesis using edits_mkdir [OF assms(1)] by simp
next
  case False
  then show ?thesis
    by (auto simp: edits_def mount_mkdir_def bindS_def liftR_def clean_path_def keeps_refl)
qed

lemma edits_share:
  assumes "mount_laws E" and "mount_ok E s" and "role = ShareMirror \<longrightarrow> pk \<noteq> public E (mi_secret_key (fst s))"
    and "share_edit E role pk s = (r, s')"
  shows "mount_ok E s' \<and> same_bucket E (fst s) (fst s') \<and> keeps_blobs E (snd s) (snd s')"
proof (cases role)
  case ShareOwner
  then have "edits E (\<lambda>_. True) (share_edit E role pk)"
    by (simp add: share_edit_def edit_rules assms(1))
  from editsD [OF this assms(2) TrueI assms(4)] show ?thesis by simp
next
  case ShareMirror
  obtain r1 s1 where add: "add_mirror E pk s = (r1, s1)" by (rule prod.exhaust)
  then have "s' = s1"
    using assms(4) ShareMirror by (auto simp: share_edit_def mapS_err_def split: sum.splits)
  then show ?thesis
    using edits_add_mirror [OF assms(1,2) _ add] assms(3) ShareMirror by simp
qed

lemma share_settled:
  assumes laws: "mount_laws E" and sv: "service_ok E (sql_provider cn) sql_ok s"
    and valid: "request_valid E cn X s (PostShare req)"
    and run: "answer share_error_response BShare (share_handler E (sql_provider cn) X req s) = (a, s')"
  shows "settled E (sql_provider cn) sql_ok s a s'"
proof -
  have log: "sql_ok (pr_log (fst s))" using sv by (simp add: service_ok_def)
  show ?thesis
  proof (cases "public_key_from_hex E (sq_peer_public_key req)")
    case (Inl e)
    then obtain e' where h: "share_handler E (sql_provider cn) X req s = (Inl e', s)"
      by (cases e) (simp_all add: share_handler_def)
    show ?thesis using log run unfolding h by (rule answer_early)
  next
    case (Inr pk)
    have run': "answer share_error_response BShare (bindS (edit_bucket E (sql_provider cn) ShareMount (sq_bucket_id req) False
        (share_edit E (sq_role req) pk)) (\<lambda>(x, l). liftR (Inr (200, \<lparr>sr_bucket_id = sq_bucket_id req,
          sr_peer_public_key = sq_peer_public_key req, sr_new_bucket_link = hash_text X (link_hash l)\<rparr>))) s) = (a, s')"
      using run Inr by (simp add: share_handler_def)
    show ?thesis
    proof (rule sql_peer.edit_settled [OF laws sv _ _ run'])
      show "has_room sql_fits (mi_height m)" if "head_at E cn (sq_bucket_id req) s m" for m
        using valid that by (simp add: room_for_def)
      show "mount_ok E s1 \<and> same_bucket E m (fst s1) \<and> keeps_blobs E (snd s) (snd s1)"
        if "mount_ok E (m, snd s)" "mi_secret_key m = pr_secret_key (fst s)" "share_edit E (sq_role req) pk (m, snd s) = (r1, s1)"
        for m r1 s1
        using edits_share [OF laws that(1) _ that(3)] that(2) valid Inr by simp
    qed (simp add: mount_response_def)
  qed
qed

lemma add_settled:
  assumes laws: "mount_laws E" and sv: "service_ok E (sql_provider cn) sql_ok s"
    and valid: "request_valid E cn X s (PostAdd fs)"
    and run: "answer add_error_response BAdd (add_handler E (sql_provider cn) X fs s) = (a, s')"
  shows "settled E (sql_provider cn) sql_ok s a s'"
proof -
  have log: "sql_ok (pr_log (fst s))" using sv by (simp add: service_ok_def)
  let ?form = "add_fields X fs \<lparr>af_bucket_id = None, af_base_path = None, af_files = []\<rparr>"
  show ?thesis
  proof (cases "\<exists>f i base. ?form = Inr f \<and> af_bucket_id f = Some i \<and> af_base_path f = Some base \<and> af_files f \<noteq> []")
    case False
    have "\<exists>e. add_handler E (sql_provider cn) X fs s = (Inl e, s)"
    proof (cases ?form)
      case (Inr f)
      then show ?thesis
        using False by (cases "af_bucket_id f"; cases "af_base_path f") (simp_all add: add_handler_def bindS_def liftR_def)
    qed (simp add: add_handler_def bindS_def liftR_def)
    then obtain e where h: "add_handler E (sql_provider cn) X fs s = (Inl e, s)" ..
    show ?thesis using log run unfolding h by (rule answer_early)
  next
    case True
    then obtain f i base where f: "add_fields X fs \<lparr>af_bucket_id = None, af_base_path = None, af_files = []\<rparr> = Inr f"
      "af_bucket_id f = Some i" "af_base_path f = Some base" "af_files f \<noteq> []"
      by blast
    have room: "room_for E cn i s" and paths: "\<And>x. x \<in> set (af_files f) \<Longrightarrow> plain_path (full_path base (fst x))"
      using valid f by (auto simp: list_all_iff)
    show ?thesis
      using run f edits_add_edit [OF laws paths, where P = "\<lambda>_. True"]
      by (intro sql_edit_settled [OF laws sv room, where f = "add_edit E X base (af_files f)" and errf = add_error_response])
        (auto simp: add_handler_def bindS_def [of "liftR _"] liftR_def [of "Inr _" s] mount_response_def)
  qed
qed

lemma update_settled:
  assumes laws: "mount_laws E" and sv: "service_ok E (sql_provider cn) sql_ok s"
    and valid: "request_valid E cn X s (PostUpdate fs)"
    and run: "answer update_error_response BUpdate (update_handler E (sql_provider cn) X fs s) = (a, s')"
  shows "settled E (sql_provider cn) sql_ok s a s'"
proof -
  have log: "sql_ok (pr_log (fst s))" using sv by (simp add: service_ok_def)
  let ?form = "update_fields X fs \<lparr>uf_bucket_id = None, uf_mount_path = None, uf_file = None\<rparr>"
  show ?thesis
  proof (cases "\<exists>u i t d. ?form = Inr u \<and> uf_bucket_id u = Some i \<and> uf_mount_path u = Some t \<and> uf_file u = Some d \<and>
      is_absolute (components t)")
    case False
    have "\<exists>e. update_handler E (sql_provider cn) X fs s = (Inl e, s)"
    proof (cases ?form)
      case (Inr u)
      then show ?thesis
        using False by (cases "uf_bucket_id u"; cases "uf_mount_path u"; cases "uf_file u")
          (simp_all add: update_handler_def bindS_def liftR_def)
    qed (simp add: update_handler_def bindS_def liftR_def)
    then obtain e where h: "update_handler E (sql_provider cn) X fs s = (Inl e, s)" ..
    show ?thesis using log run unfolding h by (rule answer_early)
  next
    case True
    then obtain u i t d where u: "?form = Inr u" "uf_bucket_id u = Some i" "uf_mount_path u = Some t" "uf_file u = Some d"
      "is_absolute (components t)"
      by blast
    have room: "room_for E cn i s" and clear: "head_clear E cn i t s"
      using valid u by auto
    have edit: "edits E (no_file_above ns) (update_edit E (components t) d)" if "components t = abs_path (ns @ [x])" for ns x
      using edits_update [OF laws] that by simp
    have "\<exists>P. edits E P (update_edit E (components t) d) \<and> P (mount_fs E (m, snd s))" if "head_at E cn i s m" for m
      by (rule clear_edits [OF clear that u(5) edit])
    then show ?thesis
      using run u
      by (intro sql_edit_settled [OF laws sv room, where f = "update_edit E (components t) d" and errf = update_error_response])
        (auto simp: update_handler_def bindS_def [of "liftR _"] liftR_def [of "Inr _" s] mount_response_def Let_def)
  qed
qed

lemma rename_settled:
  assumes laws: "mount_laws E" and sv: "service_ok E (sql_provider cn) sql_ok s"
    and valid: "request_valid E cn X s (PostRename req)"
    and run: "answer rename_error_response BRename (rename_handler E (sql_provider cn) req s) = (a, s')"
  shows "settled E (sql_provider cn) sql_ok s a s'"
proof -
  have log: "sql_ok (pr_log (fst s))" using sv by (simp add: service_ok_def)
  let ?old = "components (rn_old_path req)" and ?new = "components (rn_new_path req)"
  show ?thesis
  proof (cases "is_absolute ?old \<and> is_absolute ?new")
    case False
    then obtain e where h: "rename_handler E (sql_provider cn) req s = (Inl e, s)"
      by (cases "is_absolute ?old") (simp_all add: rename_handler_def)
    show ?thesis using log run unfolding h by (rule answer_early)
  next
    case True
    then obtain ts y where new: "?new = abs_path (ts @ [y])"
      using valid by (auto simp: plain_path_def)
    have edit: "edits E (no_file_above ns) (rename_edit E req ?old ?new)" if "?old = abs_path (ns @ [x])" for ns x
      using edits_rename [OF laws] that new by simp
    have "head_clear E cn (rn_bucket_id req) (rn_old_path req) s"
      using valid by simp
    then have "\<exists>P. edits E P (rename_edit E req ?old ?new) \<and> P (mount_fs E (m, snd s))"
      if "head_at E cn (rn_bucket_id req) s m" for m
      by (rule clear_edits [OF _ that conjunct1 [OF True] edit])
    then show ?thesis
      using run valid True
      by (intro sql_edit_settled [OF laws sv, of "rn_bucket_id req", where f = "rename_edit E req ?old ?new" and errf = rename_error_response])
        (auto simp: rename_handler_def mount_response_def)
  qed
qed

lemma mv_settled:
  assumes laws: "mount_laws E" and sv: "service_ok E (sql_provider cn) sql_ok s"
    and valid: "request_valid E cn X s (PostMv req)"
    and run: "answer mv_error_response BMv (mv_handler E (sql_provider cn) req s) = (a, s')"
  shows "settled E (sql_provider cn) sql_ok s a s'"
proof -
  have log: "sql_ok (pr_log (fst s))" using sv by (simp add: service_ok_def)
  let ?old = "components (mv_source_path req)" and ?new = "components (mv_dest_path req)"
  let ?f = "mapS_err MvMount (mount_mv E ?old ?new)"
  show ?thesis
  proof (cases "is_absolute ?old \<and> is_absolute ?new")
    case False
    then obtain e where h: "mv_handler E (sql_provider cn) req s = (Inl e, s)"
      by (cases "is_absolute ?old") (simp_all add: mv_handler_def)
    show ?thesis using log run unfolding h by (rule answer_early)
  next
    case True
    then obtain ts y where new: "?new = abs_path (ts @ [y])"
      using valid by (auto simp: plain_path_def)
    have edit: "edits E (no_file_above ns) ?f" if "?old = abs_path (ns @ [x])" for ns x
      using edits_mapS_err [OF edits_mv [OF laws]] that new by simp
    have "head_clear E cn (mv_bucket_id req) (mv_source_path req) s"
      using valid by simp
    then have "\<exists>P. edits E P ?f \<and> P (mount_fs E (m, snd s))" if "head_at E cn (mv_bucket_id req) s m" for m
      by (rule clear_edits [OF _ that conjunct1 [OF True] edit])
    then show ?thesis
      using run valid True
      by (intro sql_edit_settled [OF laws sv, of "mv_bucket_id req", where f = ?f and errf = mv_error_response])
        (auto simp: mv_handler_def mount_response_def)
  qed
qed

lemma delete_settled:
  assumes laws: "mount_laws E" and sv: "service_ok E (sql_provider cn) sql_ok s"
    and valid: "request_valid E cn X s (PostDelete i t)"
    and run: "answer delete_error_response BDelete (delete_handler E (sql_provider cn) X i t s) = (a, s')"
  shows "settled E (sql_provider cn) sql_ok s a s'"
proof -
  have log: "sql_ok (pr_log (fst s))" using sv by (simp add: service_ok_def)
  show ?thesis
  proof (cases "is_absolute (components t)")
    case False
    then have h: "delete_handler E (sql_provider cn) X i t s = (Inl (DeleteInvalidPath (''Path must be absolute: '' @ t)), s)"
      by (simp add: delete_handler_def)
    show ?thesis using log run unfolding h by (rule answer_early)
  next
    case True
    have edit: "edits E (no_file_above ns) (delete_edit E t (components t))" if "components t = abs_path (ns @ [x])" for ns x
      using edits_delete [OF laws] that by simp
    have "head_clear E cn i t s"
      using valid by simp
    then have "\<exists>P. edits E P (delete_edit E t (components t)) \<and> P (mount_fs E (m, snd s))" if "head_at E cn i s m" for m
      by (rule clear_edits [OF _ that True edit])
    then show ?thesis
      using run valid True
      by (intro sql_edit_settled [OF laws sv, of i, where f = "delete_edit E t (components t)" and errf = delete_error_response])
        (auto simp: delete_handler_def mount_response_def)
  qed
qed

lemma mkdir_settled:
  assumes laws: "mount_laws E" and sv: "service_ok E (sql_provider cn) sql_ok s"
    and valid: "request_valid E cn X s (PostMkdir i t)"
    and run: "answer mkdir_error_response BMkdir (mkdir_handler E (sql_provider cn) i t s) = (a, s')"
  shows "settled E (sql_provider cn) sql_ok s a s'"
  using run valid edits_mkdir_text [OF laws, of t "\<lambda>_. True"]
  by (intro sql_edit_settled [OF laws sv, of i, where f = "mount_mkdir E (components t)" and errf = mkdir_error_response])
    (auto simp: mkdir_handler_def mkdir_error_response_def mount_response_def)

lemma publish_settled:
  assumes laws: "mount_laws E" and sv: "service_ok E (sql_provider cn) sql_ok s"
    and valid: "request_valid E cn X s (PostPublish i)"
    and run: "answer publish_error_response BPublish (publish_handler E (sql_provider cn) X i s) = (a, s')"
  shows "settled E (sql_provider cn) sql_ok s a s'"
  using run valid edits_lift [of E "\<lambda>_. True" "Inr ()"]
  by (intro sql_edit_settled [OF laws sv, of i, where f = "liftR (Inr ())" and errf = publish_error_response])
    (auto simp: publish_handler_def publish_error_response_def mount_response_def)

lemma ping_settled:
  assumes sv: "service_ok E L ok s" and run: "answer ping_error_response BPing (ping_handler E X i k s) = (a, s')"
  shows "settled E L ok s a s'"
proof -
  have "pr_log (fst s') = pr_log (fst s) \<and> pr_secret_key (fst s') = pr_secret_key (fst s) \<and> snd s' = snd s"
    using run by (auto simp: ping_handler_def answer_def dispatch_def split: sum.splits key_error.splits prod.splits)
  then show ?thesis
    using sv by (simp add: settled_def moved_on_def service_ok_def keeps_refl)
qed

lemma route_settled:
  assumes laws: "mount_laws E" and sv: "service_ok E (sql_provider cn) sql_ok s" and valid: "request_valid E cn X s req"
    and run: "post_route E (sql_provider cn) X req s = (a, s')"
  shows "settled E (sql_provider cn) sql_ok s a s'"
proof (cases req)
  case (PostCreate i now nm) then show ?thesis using create_settled [OF laws sv] run by simp
next
  case (PostAdd fs) then show ?thesis using add_settled [OF laws sv] valid run by simp
next
  case (PostUpdate fs) then show ?thesis using update_settled [OF laws sv] valid run by simp
next
  case (PostRename r) then show ?thesis using rename_settled [OF laws sv] valid run by simp
next
  case (PostMv r) then show ?thesis using mv_settled [OF laws sv] valid run by simp
next
  case (PostDelete i t) then show ?thesis using delete_settled [OF laws sv] valid run by simp
next
  case (PostMkdir i t) then show ?thesis using mkdir_settled [OF laws sv] valid run by simp
next
  case (PostPing i k) then show ?thesis using ping_settled [OF sv] run by simp
next
  case (PostShare r) then show ?thesis using share_settled [OF laws sv] valid run by simp
next
  case (PostPublish i) then show ?thesis using publish_settled [OF laws sv] valid run by simp
qed

text \<open>Sequences of requests.\<close>

inductive requests ::
  "('w, 'z) mount_ext_scheme \<Rightarrow> (unique_constraint \<Rightarrow> string option) \<Rightarrow> 'x api_ext_scheme \<Rightarrow>
     (database, 'w) peer_state \<Rightarrow> answer list \<Rightarrow> (database, 'w) peer_state \<Rightarrow> bool"
  for E cn X s where
  none: "requests E cn X s [] s"
| one: "requests E cn X s as s1 \<Longrightarrow> request_valid E cn X s1 req \<Longrightarrow>
    post_route E (sql_provider cn) X req s1 = (a, s2) \<Longrightarrow> requests E cn X s (as @ [a]) s2"

section \<open>Properties\<close>

text \<open>
  The owner keeps access to the buckets of the service. In every sequence of requests to the bucket
  API, whatever they answer, each bucket in the log can be mounted by the peer, with all of its files
  readable and pinned and the peer one of its owners, and a bucket that could be mounted before still can.
\<close>

theorem requests_keep_buckets:
  assumes "mount_laws E" and "service_ok E (sql_provider cn) sql_ok s" and "requests E cn X s as s'"
  shows "service_ok E (sql_provider cn) sql_ok s' \<and>
    (peer_mount E (sql_provider cn) i s = Inr m \<longrightarrow> (\<exists>m'. peer_mount E (sql_provider cn) i s' = Inr m'))"
  using assms(3)
proof induction
  case none
  then show ?case using assms(2) by blast
next
  case (one as s1 req a s2)
  then have sv: "service_ok E (sql_provider cn) sql_ok s1" by blast
  from route_settled [OF assms(1) sv one(2,3)] obtain j where moved: "moved_on E (sql_provider cn) sql_ok j s1 s2"
    by (auto simp: settled_def)
  note blob = mount_laws_blob [OF assms(1)]
  show ?case
    using service_moves_on [OF blob sv moved] moved_on_bucket [OF blob moved service_holds [OF sv]] one.IH
    by (auto simp: holds_bucket_def)
qed

text \<open>
  C18: a refused request changes nothing that can be seen. When a valid request (plain paths, nothing removed or replaced
  below a file, a height that fits, no share of the peer with itself as a mirror) to a service that owns its buckets is answered with an
  error response, the heads of all buckets are the same as before, and mounting a bucket gives the same mount.
\<close>

theorem refused_request_keeps_heads:
  assumes laws: "mount_laws E" and sv: "service_ok E (sql_provider cn) sql_ok s" and valid: "request_valid E cn X s req"
    and run: "post_route E (sql_provider cn) X req s = (Refused (Response rs), s')"
  shows "lp_head (sql_provider cn) (pr_log (fst s')) i = lp_head (sql_provider cn) (pr_log (fst s)) i \<and>
    (peer_mount E (sql_provider cn) i s = Inr m \<longrightarrow> peer_mount E (sql_provider cn) i s' = Inr m)"
proof -
  from route_settled [OF laws sv valid run] obtain j where moved: "moved_on E (sql_provider cn) sql_ok j s s'"
    and head: "lp_head (sql_provider cn) (pr_log (fst s')) i = lp_head (sql_provider cn) (pr_log (fst s)) i"
    by (auto simp: settled_def)
  then show ?thesis
    using holds_bucket_later [OF mount_laws_blob [OF laws], of _ i "fst s" "snd s" m "snd s'" "fst s'"] service_holds [OF sv]
    by (auto simp: moved_on_def holds_bucket_def)
qed

lemma read_by_owner:
  assumes "holds_bucket E L i s m"
  shows "mount_for_read E L i s = Inr m"
proof -
  have head: "lp_head L (pr_log (fst s)) i = Inr (mi_link m, mi_height m)"
    and load: "mount_load E (mi_link m) (pr_secret_key (fst s)) (snd s) = Inr m"
    and own: "owner E m" "mi_secret_key m = pr_secret_key (fst s)"
    using assms by (auto simp: holds_bucket_def peer_mount_def)
  then show ?thesis
    using mount_load_sel(4) [OF load]
    by (auto simp: mount_for_read_def load_manifest_def owner_def peer_mount_def split: prod.splits)
qed

lemma fs_set_after_del: "fs_set p t (fs_del p F) = fs_set p t F"
  by (auto simp: fs_set_def fs_del_def fun_eq_iff)

lemma update_edit_writes:
  assumes laws: "mount_laws E" and ok: "mount_ok E s" and above: "no_file_above ns (mount_fs E s)"
    and run: "update_edit E (abs_path (ns @ [x])) d s = (Inr (), s1)"
  shows "mount_fs E s1 = fs_set (ns @ [x]) (fs_file d) (mount_fs E s)"
proof -
  from run obtain found s0 where rm: "(if found then mapS_err UpdateMount (mount_rm E (abs_path (ns @ [x]))) else liftR (Inr ())) s = (Inr (), s0)"
    and add: "mount_add E (abs_path (ns @ [x])) (Inr d) s0 = (Inr (), s1)"
    by (auto simp: update_edit_def reads_def res_simps)
  have "mount_ok E s0 \<and> (mount_fs E s0 = mount_fs E s \<or> mount_fs E s0 = fs_del (ns @ [x]) (mount_fs E s))"
    using rm rm_op.success [OF laws ok above] ok by (cases found) (auto simp: res_simps)
  then show ?thesis
    using add_op.success [OF laws _ TrueI add] fs_set_after_del by auto
qed

text \<open>The outcome of an edit of a bucket of ours through the log of the daemon.\<close>

lemma sql_edit_success:
  assumes laws: "mount_laws E" and log: "sql_ok (pr_log (fst s))" and holds: "holds_bucket E (sql_provider cn) i s m"
    and room: "room_for E cn i s" and edit: "edits E P f" "P (mount_fs E (m, snd s))"
    and run: "edit_bucket E (sql_provider cn) err i pub f s = (Inr (x, l), s')"
  obtains s1 m' where "f (m, snd s) = (Inr x, s1)" and "holds_bucket E (sql_provider cn) i s' m'" and "mi_link m' = l"
    and "mi_height m' = mi_height m + 1" and "mount_fs E (m', snd s') = mount_fs E s1" and "is_published (mi_manifest m') = pub"
proof -
  have ok: "mount_ok E (m, snd s)" and r: "has_room sql_fits (mi_height m)"
    using holds room by (simp_all add: holds_bucket_def room_for_def)
  have "mount_ok E s1 \<and> same_bucket E m (fst s1) \<and> keeps_blobs E (snd s) (snd s1)" if "f (m, snd s) = (r1, s1)" for r1 s1
    using editsD [OF edit(1) ok edit(2) that] by simp
  then have "\<exists>s1 m'. f (m, snd s) = (Inr x, s1) \<and> holds_bucket E (sql_provider cn) i s' m' \<and> mi_link m' = l \<and>
      mi_height m' = mi_height m + 1 \<and> mount_fs E (m', snd s') = mount_fs E s1 \<and> is_published (mi_manifest m') = pub"
    by (rule sql_peer.edit_outcome(3) [OF laws log holds r _ run refl])
  then show ?thesis
    using that by blast
qed

text \<open>What the handlers for reading answer for a file of a bucket of ours.\<close>

definition disposition :: "bool option \<Rightarrow> string \<Rightarrow> string" where
  "disposition dl n =
     (if dl = Some True then ''attachment; filename=\"'' else ''inline; filename=\"'') @ n @ ''\"''"

lemma cat_serves_file:
  assumes "api_laws X" and holds: "holds_bucket E L (ca_bucket_id req) s m"
    and there: "mount_fs E (m, snd s) (ns @ [x]) = Some (FFile d)"
    and req: "components (ca_path req) = abs_path (ns @ [x])" "ca_at req = None"
  shows "\<exists>r. handle_cat_request E L X req s = Inr r \<and> cx_path r = ca_path req \<and> base64_decode X (cx_content r) = Inr d \<and>
    cx_size r = length d \<and>
    cat_handler_get E L X req s = Inr (with_headers X \<lparr>rs_status = 200, rs_headers =
      [(''content-type'', cx_mime_type r), (''content-disposition'', disposition (ca_download req) x)], rs_body = Bytes d\<rparr>)"
proof -
  have ok: "mount_ok E (m, snd s)"
    using holds by (simp add: holds_bucket_def)
  obtain nl where nl: "mount_get E (abs_path (ns @ [x])) (m, snd s) = Inr nl"
    using get_existing [of E "set (mi_pins m)" "(m, snd s)" ns x] ok there by (auto simp: mount_ok_def)
  have name: "name_or dflt (abs_path (ns @ [x])) = x" for dflt
    by (simp add: name_or_def)
  define mime where "mime = (case nl of Data _ _ d \<Rightarrow> (case d_mime d of Some m \<Rightarrow> m | None \<Rightarrow> ''application/octet-stream'')
         | Dir _ _ \<Rightarrow> ''application/octet-stream'')"
  define r where "r = \<lparr>cx_path = ca_path req, cx_content = base64_encode X d, cx_size = length d, cx_mime_type = mime\<rparr>"
  have read: "handle_cat_request E L X req s = Inr r"
    unfolding handle_cat_request_def req read_by_owner [OF holds]
    using nl cat_file [OF ok there] by (simp add: Let_def is_absolute_def r_def mime_def)
  moreover have "base64_decode X (cx_content r) = Inr d"
    using assms(1) by (simp add: r_def api_laws_def)
  ultimately show ?thesis
    using req(1) name
    by (intro exI [of _ r]) (simp add: cat_handler_get_def Let_def disposition_def r_def)
qed

text \<open>
  C7: what is uploaded is served. When the update request for a path of a bucket that the peer owns is
  answered with success, the file has exactly the uploaded bytes in the new version, whatever was at the path
  before; nothing else in the bucket changed, and the new version is the head, one higher and not
  published. A following request for the file answers with these bytes; the GET form of the request names
  the file and its type in headers, and answers 500 in place of the bytes when they cannot stand there.
\<close>

theorem updated_file_is_served:
  assumes laws: "mount_laws E" "api_laws X" and log: "sql_ok (pr_log (fst s))"
    and own: "holds_bucket E (sql_provider cn) i s m"
    and form: "update_fields X fs \<lparr>uf_bucket_id = None, uf_mount_path = None, uf_file = None\<rparr> = Inr u"
      "uf_bucket_id u = Some i" "uf_mount_path u = Some t" "uf_file u = Some d"
    and path: "components t = abs_path (ns @ [x])" and valid: "request_valid E cn X s (PostUpdate fs)"
    and run: "update_handler E (sql_provider cn) X fs s = (Inr (st, resp), s')"
    and req: "ca_bucket_id req = i" "ca_path req = t" "ca_at req = None"
  shows "\<exists>m' r. peer_mount E (sql_provider cn) i s' = Inr m' \<and>
    mount_fs E (m', snd s') = fs_set (ns @ [x]) (fs_file d) (mount_fs E (m, snd s)) \<and>
    mi_link m' = ur_link resp \<and> mi_height m' = mi_height m + 1 \<and> \<not> is_published (mi_manifest m') \<and>
    handle_cat_request E (sql_provider cn) X req s' = Inr r \<and> base64_decode X (cx_content r) = Inr d \<and>
    cat_handler_get E (sql_provider cn) X req s' = Inr (with_headers X \<lparr>rs_status = 200, rs_headers =
      [(''content-type'', cx_mime_type r), (''content-disposition'', disposition (ca_download req) x)], rs_body = Bytes d\<rparr>)"
proof -
  have abs: "is_absolute (components t)" by (simp add: path is_absolute_def)
  have head: "peer_mount E (sql_provider cn) i s = Inr m" and ok: "mount_ok E (m, snd s)"
    using own by (simp_all add: holds_bucket_def)
  have room: "room_for E cn i s" and clear: "no_file_above ns (mount_fs E (m, snd s))"
    using valid form abs path head by (auto simp: head_clear_def clear_path_def)
  have edit: "edits E (no_file_above ns) (update_edit E (components t) d)"
    using edits_update [OF laws(1)] path by simp
  have "edit_bucket E (sql_provider cn) UpdateMount i False (update_edit E (components t) d) s = (Inr ((), ur_link resp), s')"
    using run form abs by (auto simp: update_handler_def bindS_def liftR_def Let_def split: prod.splits sum.splits)
  from sql_edit_success [OF laws(1) log own room edit clear this] obtain s1 m' where
    s1: "update_edit E (components t) d (m, snd s) = (Inr (), s1)"
    and m': "holds_bucket E (sql_provider cn) i s' m'" "mi_link m' = ur_link resp" "mi_height m' = mi_height m + 1"
      "mount_fs E (m', snd s') = mount_fs E s1" "is_published (mi_manifest m') = False"
    by metis
  have fs: "mount_fs E (m', snd s') = fs_set (ns @ [x]) (fs_file d) (mount_fs E (m, snd s))"
    using update_edit_writes [OF laws(1) ok clear] s1 m'(4) path by simp
  then have "mount_fs E (m', snd s') (ns @ [x]) = Some (FFile d)"
    by (simp add: fs_set_def fs_file_def)
  from cat_serves_file [OF laws(2) m'(1) [folded req(1)] this] req path show ?thesis
    using m' fs by (auto simp: holds_bucket_def)
qed

lemma saved_mirror:
  assumes laws: "mount_laws E" and ok: "mount_ok E (m, w)"
    and save: "mount_save E False (m, w) = (Inr (l, prev, h), (m', w'))"
    and sh: "get_share E (mi_manifest m) (public E sk) = Some sh" "sh_role sh = Mirror"
  shows "mount_load E l sk w' = Inl MirrorCannotMount"
proof -
  from save obtain man where v: "save_version E False m w = (Inr (man, l), w')" by (auto simp: mount_save_Inr)
  from laws ok v obtain k where man: "get_manifest_from_blobs E l w' = Inr man" "m_public man = None"
    and shares: "list_all2 (\<lambda>(key, s) (key', s'). key' = key \<and> reshared E k s s') (m_shares (mi_manifest m)) (m_shares man)"
    by (rule save_version_Inr) auto
  have "get_secret_for_manifest E man sk = Inl MirrorCannotMount"
    using get_share_saved(2) [OF shares sh] sh(2) man(2) by (simp add: get_secret_for_manifest_def)
  then show ?thesis using man(1) by (simp add: mount_load_def)
qed

text \<open>
  An owner can lock a bucket. A share request that names our own key as a mirror is answered with success,
  and afterwards the bucket cannot be mounted by us any more: our share as an owner is replaced and the version is
  not published.
\<close>

theorem self_share_as_mirror_locks_out:
  assumes laws: "mount_laws E" and sv: "service_ok E (sql_provider cn) sql_ok s" and room: "room_for E cn (sq_bucket_id req) s"
    and key: "public_key_from_hex E (sq_peer_public_key req) = Inr (public E (pr_secret_key (fst s)))"
    and role: "sq_role req = ShareMirror"
    and run: "share_handler E (sql_provider cn) X req s = (Inr (st, resp), s')"
  shows "peer_mount E (sql_provider cn) (sq_bucket_id req) s' = Inl MirrorCannotMount"
proof -
  let ?L = "sql_provider cn" and ?i = "sq_bucket_id req" and ?pk = "public E (pr_secret_key (fst s))"
  have "\<exists>l. edit_bucket E ?L ShareMount ?i False (share_edit E ShareMirror ?pk) s = (Inr ((), l), s')"
    using run key role by (auto simp: share_handler_def bindS_def liftR_def split: prod.splits sum.splits)
  then obtain l m m1 p' m2 w2 where m: "head_at E cn ?i s m" and add: "add_mirror E ?pk (m, snd s) = (Inr (), (m1, snd s))"
    and save: "save_mount E ?L False (fst s) (m1, snd s) = (Inr l, (p', (m2, w2)))" and s': "s' = (p', w2)"
    by (auto simp: edit_bucket_def share_edit_def mapS_err_def add_mirror_def update_inner_def split: sum.splits prod.splits)
  note holds = service_holds [OF sv m]
  then have head: "lp_head ?L (pr_log (fst s)) ?i = Inr (mi_link m, mi_height m)" and ok: "mount_ok E (m, snd s)"
    and id: "m_id (mi_manifest m) = ?i"
    by (auto simp: holds_bucket_def)
  have m1: "m1 = m\<lparr>mi_manifest := add_share E (share_new_mirror ?pk) (mi_manifest m)\<rparr>"
    using add by (auto simp: add_mirror_def update_inner_def)
  have ok1: "mount_ok E (m1, snd s)" by (rule add_mirror_ok [OF ok add])
  from save obtain prev h where v: "mount_save E False (m1, snd s) = (Inr (l, prev, h), (m2, w2))"
    and ap: "lp_append ?L ?i (m_name (mi_manifest m1)) l (Some prev) h (is_published (mi_manifest m2)) (pr_log (fst s)) = (Inr (), pr_log p')"
    and sk: "pr_secret_key p' = pr_secret_key (fst s)"
    using id by (elim save_mount_Inr) (simp add: m1 add_share_def)
  have eqs: "prev = mi_link m" "h = mi_height m + 1"
    using save_keeps_mount [OF laws ok1 v] by (simp_all add: m1)
  have "has_room sql_fits (mi_height m)" using room m by (simp add: room_for_def)
  then have "mi_height m \<noteq> - 1" "sql_fits l (mi_height m + 1)"
    using saved_codec [OF v] by (simp_all add: has_room_def)
  then have "lp_head ?L (pr_log p') ?i = Inr (l, mi_height m + 1)"
    using sql_peer.append_head [OF _ head] sv ap by (simp add: service_ok_def eqs)
  moreover have "mount_load E l (pr_secret_key (fst s)) w2 = Inl MirrorCannotMount"
    using get_share_add [OF mount_laws_crypto [OF laws], of "share_new_mirror ?pk" "mi_manifest m" ?pk]
    by (intro saved_mirror [OF laws ok1 v]) (auto simp: m1 share_new_mirror_def sh_role_def)
  ultimately show ?thesis
    by (simp add: peer_mount_def s' sk)
qed

text \<open>\<open>mkdir\<close> does not check that the path is absolute, and the mount asserts it.\<close>

lemma relative_mkdir_panics:
  assumes "peer_mount E L i s = Inr m" and "\<not> is_absolute (components t)"
  shows "post_route E L X (PostMkdir i t) s = (Refused (Panicked ''path is not absolute''), s)"
  using assms by (cases s) (simp add: mkdir_handler_def edit_bucket_def mount_mkdir_def clean_path_def bindS_def liftR_def
      answer_def mkdir_error_response_def mount_response_def)

text \<open>A directory cannot be renamed by the rename request: its content is read like that of a file.\<close>

lemma rename_directory_refused:
  assumes ok: "mount_ok E s" and dir: "mount_fs E s (ns @ [x]) = Some FDir"
    and free: "mount_fs E s (ts @ [y]) = None" "no_file_above ts (mount_fs E s)"
  shows "rename_edit E req (abs_path (ns @ [x])) (abs_path (ts @ [y])) s =
    (Inl (RenameMount (PathNotNode (rel_path (ns @ [x])))), s)"
proof -
  obtain nl where nl: "mount_get E (abs_path (ns @ [x])) s = Inr nl" "is_dir nl"
    using get_existing [of E "set (mi_pins (fst s))" s ns x] ok dir by (auto simp: mount_ok_def)
  then have cat: "mount_cat E (abs_path (ns @ [x])) s = Inl (PathNotNode (rel_path (ns @ [x])))"
    unfolding cat_get by (cases nl) auto
  obtain p where "mount_get E (abs_path (ts @ [y])) s = Inl (PathNotFound p)"
    using get_missing_above [OF ok free] by blast
  then show ?thesis
    using nl(1) cat by (simp add: rename_edit_def reads_def path_exists_def bindS_def)
qed

section \<open>Witnesses\<close>

definition sample_api :: api_ext where
  "sample_api = gateway_ext.extend sample_gateway
     \<lparr>uuid_parse = (\<lambda>t. Some 0), hash_error = (\<lambda>t. []), mount_error_text = (\<lambda>e. []), log_error_text = (\<lambda>e. []), key_error_text = (\<lambda>e. []),
      secret_error_text = (\<lambda>e. []), blobs_error_text = (\<lambda>e. []), queue_error_text = (\<lambda>e. []),
      base64_encode = map (\<lambda>b. char_of (unat b)), base64_decode = (\<lambda>t. Inr (map (\<lambda>c. of_nat (of_char c)) t))\<rparr>"

lemma sample_api_laws: "api_laws sample_api"
proof -
  have "unat (b :: byte) mod 256 = unat b" for b
    using unsigned_less [of b, where 'a = nat] by simp
  then show ?thesis
    by (simp add: api_laws_def sample_api_def gateway_ext.extend_def o_def)
qed

definition new_service :: "(database, sample_world) peer_state" where
  "new_service = (\<lparr>pr_log = sql_new, pr_secret_key = sample_owner, pr_queue = queue_new None\<rparr>, (0, []))"

lemma no_head: "lp_head (sql_provider cn) sql_new i = Inl (HeadNotFound 0)"
  by (simp add: lp_head_def provider_head_def sql_provider_def sql_height_def sql_new_def rows_of_def list_max_def)

lemma new_service_ok: "service_ok E (sql_provider cn) sql_ok new_service"
  using sql.empty_ok by (simp add: service_ok_def new_service_def no_head)

text \<open>A service with one new bucket; in the second store a file has been uploaded, in the third the bucket is locked.\<close>

definition upload :: path_operation where
  "upload = \<lparr>po_id = OpId 1 sample_owner, po_type = Add, po_path = [Normal ''f''],
     po_content_link = Some (link_new LD_RAW_CODEC (replicate 32 8)), po_is_dir = False\<rparr>"

definition uploaded :: "signature option \<Rightarrow> manifest" where
  "uploaded = later_version (sample_first None) 5 18 12 14 17 (Some (link_new LD_RAW_CODEC (replicate 32 16)))"

definition locked :: "signature option \<Rightarrow> manifest" where
  "locked sig = (later_version (sample_first None) 5 0 0 8 9 None sig)\<lparr>m_shares :=
     [(CHR ''h'' # map (\<lambda>x. char_of (unat x)) sample_owner, share_new_mirror sample_owner)]\<rparr>"

definition api_store :: "sample_world mount_ext" where
  "api_store = sample_ext [[], [(''f'', sample_file 8 6)]] [[(po_id upload, upload)]]
     [sample_first None, sample_first (Some [0]), uploaded None, uploaded (Some [2]), locked None, locked (Some [4])]"

definition one_bucket :: "(database, sample_world) peer_state" where
  "one_bucket = (sync_peer, sync_world)"

lemmas api_store_defs = api_store_def uploaded_def locked_def later_version_def sample_first_def upload_def

lemma api_store_laws: "mount_laws api_store"
  unfolding api_store_def by (rule sample_laws)

lemma bucket_made: "mount_init api_store 0 ''b'' sample_owner (0, []) = (Inr sync_head, sync_world)"
  by (simp add: api_store_defs sync_world_def sync_head_def mount_init_def save_run_defs manifest_new_def
      public_key_to_hex_def pins_new_def eval_nat_numeral(1))

lemma bucket_logged: "sql_append cn 0 ''b'' (mi_link sync_head) None 0 False sql_new = (Inr (), pr_log sync_peer)"
  by (simp add: sql_append_accepted sync_peer_def sql_new_def violated_def rows_of_def)

lemma bucket_created:
  "create_handler api_store (sql_provider cn) X 0 5 ''b'' new_service =
     (Inr (201, \<lparr>cr_bucket_id = 0, cr_name = ''b'', cr_created_at = 5\<rparr>), one_bucket)"
  using bucket_logged [of cn]
  by (simp add: create_handler_def new_service_def bucket_made one_bucket_def sql_provider_def) (simp add: sync_peer_def)

lemma one_bucket_ok: "service_ok api_store (sql_provider cn) sql_ok one_bucket"
proof -
  have "\<exists>i. moved_on api_store (sql_provider cn) sql_ok i new_service one_bucket"
    using create_settled [OF api_store_laws new_service_ok, where X = sample_api and i = 0 and now = 5 and nm = "''b''"]
    by (auto simp: bucket_created answer_def settled_def)
  then show ?thesis
    using service_moves_on [OF mount_laws_blob [OF api_store_laws] new_service_ok] by blast
qed

lemma one_bucket_mounts: "peer_mount api_store (sql_provider cn) i one_bucket = (if i = 0 then Inr sync_head else Inl (MtDefault ''Failed to get current head''))"
proof (cases "i = 0")
  case True
  have "link_codec (mi_link sync_head) = LD_CBOR_CODEC" by (rule init_codec [OF bucket_made])
  then have "lp_head (sql_provider cn) (pr_log sync_peer) 0 = Inr (mi_link sync_head, 0)"
    using sql_first_head [OF sql.empty_ok bucket_logged] by blast
  moreover have "pr_secret_key sync_peer = sample_owner" by (simp add: sync_peer_def)
  ultimately show ?thesis
    using init_empty_bucket [OF api_store_laws bucket_made] True by (simp add: peer_mount_def one_bucket_def)
next
  case False
  then show ?thesis
    by (simp add: peer_mount_def one_bucket_def lp_head_def provider_head_def sql_provider_def sql_height_def sync_peer_def rows_of_def
        new_row_def list_max_def log_error_def)
qed

lemma one_bucket_room: "room_for api_store cn i one_bucket"
  by (auto simp: room_for_def one_bucket_mounts has_room_def sync_head_def sql_fits_def split: if_splits)

theorem requests_keep_buckets_witness:
  "service_ok api_store (sql_provider (\<lambda>_. None)) sql_ok one_bucket"
proof -
  have "post_route api_store (sql_provider (\<lambda>_. None)) sample_api (PostCreate 0 5 ''b'') new_service =
      (Json 201 (BCreate \<lparr>cr_bucket_id = 0, cr_name = ''b'', cr_created_at = 5\<rparr>), one_bucket)"
    by (simp add: bucket_created answer_def)
  from requests.one [OF requests.none _ this] have "requests api_store (\<lambda>_. None) sample_api new_service
      [Json 201 (BCreate \<lparr>cr_bucket_id = 0, cr_name = ''b'', cr_created_at = 5\<rparr>)] one_bucket" by simp
  then show ?thesis
    by (rule requests_keep_buckets [OF api_store_laws new_service_ok, THEN conjunct1])
qed

theorem refused_request_keeps_heads_witness:
  "peer_mount api_store (sql_provider (\<lambda>_. None)) 0
     (snd (post_route api_store (sql_provider (\<lambda>_. None)) sample_api (PostPublish 7) one_bucket)) = Inr sync_head"
proof -
  let ?r = "post_route api_store (sql_provider (\<lambda>_. None)) sample_api (PostPublish 7) one_bucket"
  have r: "?r = (Refused (Response \<lparr>rs_status = 500, rs_headers = [], rs_body = Text ''Unexpected error''\<rparr>), snd ?r)"
    by (simp add: publish_handler_def edit_bucket_def one_bucket_mounts bindS_def answer_def publish_error_response_def
        mount_response_def plain_response_def)
  show ?thesis
    using refused_request_keeps_heads [OF api_store_laws one_bucket_ok _ r, of 0 sync_head] one_bucket_room one_bucket_mounts
    by simp
qed

text \<open>The next version of the sample bucket is accepted by the log and nobody else is notified.\<close>

abbreviation own_key_hex :: string where
  "own_key_hex \<equiv> CHR ''h'' # map (\<lambda>x. char_of (unat x)) sample_owner"

lemma own_key: "public_key_from_hex api_store own_key_hex = Inr sample_owner" "public api_store sample_owner = sample_owner"
  by (simp_all add: api_store_def sample_owner_def public_key_from_hex_def strip_0x_def public_key_from_def
      public_def PUBLIC_KEY_SIZE_def sample_ext_defs sample_crypto_def)

lemma next_version_appended:
  assumes "b \<noteq> 5"
  shows "\<exists>log'. sql_append cn 0 ''b'' (link_new LD_CBOR_CODEC (replicate 32 b)) (Some (mi_link sync_head)) 1 pub (pr_log sync_peer) =
     (Inr (), log')"
proof -
  have "link_new LD_CBOR_CODEC (replicate 32 5) \<noteq> link_new LD_CBOR_CODEC (replicate 32 b)"
    using assms by (metis link_new_sel(2) replicate_eq_replicate zero_neq_numeral)
  then show ?thesis
    by (simp add: sql_append_accepted sync_peer_def violated_def rows_of_def new_row_def sync_head_def manifest_codec_def)
qed

lemma snd_one_bucket: "snd one_bucket = sync_world"
  by (simp add: one_bucket_def)

lemma neq5: "(19 :: byte) \<noteq> 5" "(10 :: byte) \<noteq> 5" by simp_all

lemma next_version_saved:
  assumes save: "mount_save api_store False (m, w) = (Inr (link_new LD_CBOR_CODEC (replicate 32 b), mi_link sync_head, 1), s')"
    and "b \<noteq> 5" and id: "m_id (mi_manifest m) = 0" "m_name (mi_manifest m) = ''b''"
    and keys: "map fst (m_shares (mi_manifest (fst s'))) = [own_key_hex]"
  shows "\<exists>p'. save_mount api_store (sql_provider cn) False sync_peer (m, w) = (Inr (link_new LD_CBOR_CODEC (replicate 32 b)), (p', s'))"
proof -
  obtain log' where "sql_append cn 0 ''b'' (link_new LD_CBOR_CODEC (replicate 32 b)) (Some (mi_link sync_head)) 1
      (is_published (mi_manifest (fst s'))) (pr_log sync_peer) = (Inr (), log')"
    using next_version_appended [OF assms(2)] by blast
  moreover have "pr_secret_key sync_peer = sample_owner" by (simp add: sync_peer_def)
  ultimately show ?thesis
    using keys by (simp add: save_mount_def save id Let_def own_key sql_provider_def del: list.map)
qed

definition upload_mount :: mount_inner where
  "upload_mount = sync_head\<lparr>mi_entry := [(''f'', sample_file 8 6)], mi_pins := [replicate 32 2, replicate 32 8, replicate 32 11],
     mi_ops_log := \<lparr>operations = [(po_id upload, upload)], local_clock = 1\<rparr>\<rparr>"

definition upload_world :: sample_world where
  "upload_world = (12, [(replicate 32 11, replicate 12 10 @ replicate 32 9 @ 1 # replicate 31 0 @ [1]),
     (replicate 32 8, replicate 12 7 @ replicate 32 6 @ 7 # replicate 31 0 @ [7])] @ snd sync_world)"

lemma file_added: "mount_add api_store (abs_path [''f'']) (Inr [7]) (sync_head, sync_world) = (Inr (), (upload_mount, upload_world))"
  by (simp add: api_store_defs sync_world_def sync_head_def mount_add_def run_defs clean_path_def upload_mount_def upload_world_def
    record_op_def set_new_entry_def pin_one_def pin_all_def log_record_def log_new_def pins_insert_def pins_extend_def)

lemma file_saved:
  "\<exists>s'. mount_save api_store False (upload_mount, upload_world) =
     (Inr (link_new LD_CBOR_CODEC (replicate 32 19), mi_link sync_head, 1), s') \<and> map fst (m_shares (mi_manifest (fst s'))) = [own_key_hex]"
  by (simp add: api_store_defs upload_mount_def upload_world_def sync_world_def sync_head_def save_run_defs
      put_ops_log_in_blobs_def manifest_codec_def)

lemma lock_saved:
  "\<exists>s'. mount_save api_store False
       (sync_head\<lparr>mi_manifest := add_share api_store (share_new_mirror sample_owner) (mi_manifest sync_head)\<rparr>, sync_world) =
     (Inr (link_new LD_CBOR_CODEC (replicate 32 10), mi_link sync_head, 1), s') \<and> map fst (m_shares (mi_manifest (fst s'))) = [own_key_hex]"
  by (simp add: api_store_defs sync_world_def sync_head_def save_run_defs put_ops_log_in_blobs_def manifest_codec_def
      add_share_def share_new_mirror_def public_key_to_hex_def)

definition upload_form :: "(string + field) list" where
  "upload_form = [Inr \<lparr>fld_name = Some ''bucket_id'', fld_file_name = None, fld_text = Inr ''0'', fld_bytes = Inl []\<rparr>,
     Inr \<lparr>fld_name = Some ''mount_path'', fld_file_name = None, fld_text = Inr ''/f'', fld_bytes = Inl []\<rparr>,
     Inr \<lparr>fld_name = Some ''file'', fld_file_name = Some ''f'', fld_text = Inl [], fld_bytes = Inr [7]\<rparr>]"

lemma upload_form_read:
  "update_fields sample_api upload_form \<lparr>uf_bucket_id = None, uf_mount_path = None, uf_file = None\<rparr> =
     Inr \<lparr>uf_bucket_id = Some 0, uf_mount_path = Some ''/f'', uf_file = Some [7]\<rparr>"
  by (simp add: upload_form_def update_field_def sample_api_def gateway_ext.extend_def Let_def)

lemma upload_path: "components ''/f'' = abs_path [''f'']"
  by (simp add: components_def part_comp_def)

lemma upload_edits: "update_edit api_store (abs_path [''f'']) [7] (sync_head, sync_world) = (Inr (), (upload_mount, upload_world))"
proof -
  have "mount_get api_store (abs_path [''f'']) (sync_head, sync_world) = Inl (PathNotFound [Normal ''f''])"
    by (simp add: sync_head_def mount_get_def run_defs node_or_root_def)
  then show ?thesis
    by (simp add: update_edit_def reads_def path_exists_def bindS_def mapS_err_def liftR_def file_added [simplified])
qed

lemma upload_saved:
  obtains p' s1 where "save_mount api_store (sql_provider cn) False sync_peer (upload_mount, upload_world) =
      (Inr (link_new LD_CBOR_CODEC (replicate 32 19)), (p', s1))"
proof -
  obtain s1 where save: "mount_save api_store False (upload_mount, upload_world) =
      (Inr (link_new LD_CBOR_CODEC (replicate 32 19), mi_link sync_head, 1), s1)"
    and keys: "map fst (m_shares (mi_manifest (fst s1))) = [own_key_hex]"
    by (rule exE [OF file_saved], elim conjE, rule that)
  have id: "m_id (mi_manifest upload_mount) = 0" "m_name (mi_manifest upload_mount) = ''b''"
    by (simp_all add: upload_mount_def sync_head_def sample_first_def sample_manifest_def)
  show ?thesis
    by (rule exE [OF next_version_saved [OF save neq5(1) id keys]]) (rule that)
qed

lemma upload_runs:
  "\<exists>s'. update_handler api_store (sql_provider cn) sample_api upload_form one_bucket =
     (Inr (200, \<lparr>ur_mount_path = ''/f'', ur_link = link_new LD_CBOR_CODEC (replicate 32 19),
       ur_mime_type = guess_mime api_store (abs_path [''f''])\<rparr>), s')"
proof -
  obtain p' s1 where "save_mount api_store (sql_provider cn) False sync_peer (upload_mount, upload_world) =
      (Inr (link_new LD_CBOR_CODEC (replicate 32 19)), (p', s1))"
    by (rule upload_saved)
  then have "edit_bucket api_store (sql_provider cn) UpdateMount 0 False (update_edit api_store (components ''/f'') [7]) one_bucket =
      (Inr ((), link_new LD_CBOR_CODEC (replicate 32 19)), (p', snd s1))"
    using one_bucket_mounts [of cn 0] unfolding edit_bucket_def one_bucket_def upload_path snd_conv fst_conv
    by (simp only: simp_thms if_True sum.case prod.case upload_edits snd_conv)
  then show ?thesis
    by (simp add: update_handler_def bindS_def liftR_def upload_form_read Let_def upload_path [simplified] is_absolute_def)
qed

lemma one_bucket_holds: "holds_bucket api_store (sql_provider cn) 0 one_bucket sync_head" "sql_ok (pr_log (fst one_bucket))"
  using service_holds [OF one_bucket_ok, of cn 0 sync_head] one_bucket_ok [of cn]
  by (simp_all add: one_bucket_mounts service_ok_def)

theorem updated_file_is_served_witness:
  "\<exists>r. handle_cat_request api_store (sql_provider (\<lambda>_. None)) sample_api
     \<lparr>ca_bucket_id = 0, ca_path = ''/f'', ca_at = None, ca_download = None\<rparr>
     (snd (update_handler api_store (sql_provider (\<lambda>_. None)) sample_api upload_form one_bucket)) = Inr r \<and>
     base64_decode sample_api (cx_content r) = Inr [7]"
proof -
  obtain resp s' where run: "update_handler api_store (sql_provider (\<lambda>_. None)) sample_api upload_form one_bucket = (Inr (200, resp), s')"
    using upload_runs [of "\<lambda>_. None"] by blast
  have "mount_fs api_store (sync_head, sync_world) [] = Some FDir" by (simp add: mount_fs_def)
  then have valid: "request_valid api_store (\<lambda>_. None) sample_api one_bucket (PostUpdate upload_form)"
    using one_bucket_room upload_form_read upload_path
    by (auto simp: head_clear_def clear_path_def one_bucket_mounts no_file_above_def snd_one_bucket)
  show ?thesis
    using updated_file_is_served [OF api_store_laws sample_api_laws one_bucket_holds(2,1) upload_form_read _ _ _ _ valid run,
        of "''/f''" "[7]" "[]" "''f''" "\<lparr>ca_bucket_id = 0, ca_path = ''/f'', ca_at = None, ca_download = None\<rparr>"]
    by (auto simp: upload_path run)
qed

theorem self_share_as_mirror_locks_out_witness:
  "peer_mount api_store (sql_provider (\<lambda>_. None)) 0
     (snd (share_handler api_store (sql_provider (\<lambda>_. None)) sample_api
        \<lparr>sq_bucket_id = 0, sq_peer_public_key = own_key_hex, sq_role = ShareMirror\<rparr> one_bucket)) = Inl MirrorCannotMount"
proof -
  let ?m = "sync_head\<lparr>mi_manifest := add_share api_store (share_new_mirror sample_owner) (mi_manifest sync_head)\<rparr>"
    and ?req = "\<lparr>sq_bucket_id = 0, sq_peer_public_key = own_key_hex, sq_role = ShareMirror\<rparr>"
  obtain s1 where save: "mount_save api_store False (?m, sync_world) =
      (Inr (link_new LD_CBOR_CODEC (replicate 32 10), mi_link sync_head, 1), s1)"
    and keys: "map fst (m_shares (mi_manifest (fst s1))) = [own_key_hex]"
    by (rule exE [OF lock_saved], elim conjE, rule that)
  have id: "m_id (mi_manifest ?m) = 0" "m_name (mi_manifest ?m) = ''b''"
    by (simp_all add: sync_head_def sample_first_def sample_manifest_def add_share_def)
  obtain p' where "save_mount api_store (sql_provider (\<lambda>_. None)) False sync_peer (?m, sync_world) =
      (Inr (link_new LD_CBOR_CODEC (replicate 32 10)), (p', s1))"
    by (rule next_version_saved [OF save neq5(2) id keys, THEN exE])
  then have "edit_bucket api_store (sql_provider (\<lambda>_. None)) ShareMount 0 False (share_edit api_store ShareMirror sample_owner) one_bucket =
      (Inr ((), link_new LD_CBOR_CODEC (replicate 32 10)), (p', snd s1))"
    using one_bucket_mounts [of "\<lambda>_. None" 0] unfolding edit_bucket_def one_bucket_def snd_conv fst_conv
    by (simp only: simp_thms if_True sum.case prod.case share_edit_def mapS_err_def add_mirror_def update_inner_def share_role.case snd_conv)
      simp
  then have run: "\<exists>resp s'. share_handler api_store (sql_provider (\<lambda>_. None)) sample_api ?req one_bucket = (Inr (200, resp), s')"
    using own_key(1) by (simp add: share_handler_def bindS_def liftR_def del: list.map)
  then show ?thesis
    using self_share_as_mirror_locks_out [OF api_store_laws one_bucket_ok one_bucket_room, of ?req] own_key
    by (auto simp: one_bucket_def sync_peer_def)
qed

end
