(* ===== verification/Desktop.thy ===== *)
theory Desktop
  imports Api_Safety
begin

text \<open>
  The bucket commands of the desktop application (\<open>desktop/src-tauri/src/commands/bucket.rs\<close> and
  \<open>daemon.rs\<close>). They act on the service of the daemon that runs in the same process, so that the
  state is the one of theory \<open>Service\<close>, present once the daemon has started. Creating, sharing and
  pinging go through HTTP; the client is an argument of these commands. An error is a text, or the
  panic of the mount.
\<close>

section \<open>State\<close>

record desktop_ext = api_ext +
  uuid_error :: "string \<Rightarrow> string"
  node_id_text :: "public_key \<Rightarrow> string"
  status_line :: "nat \<Rightarrow> string"
  read_file :: "string \<Rightarrow> string + bytes"
  dir_exists :: "path \<Rightarrow> bool"

record ('l, 'w) daemon_inner =
  di_service :: "('l, 'w) peer_state"
  di_api_port :: "16 word"
  di_gateway_port :: "16 word"
  di_jax_dir :: path

datatype command_error = Failed string | CommandPanic string

definition get_service :: "('l, 'w) daemon_inner option \<Rightarrow> command_error + ('l, 'w) peer_state" where
  "get_service app = ok_or (Failed ''Daemon not started'') (map_option di_service app)"

definition set_service :: "('l, 'w) peer_state \<Rightarrow> ('l, 'w) daemon_inner option \<Rightarrow> ('l, 'w) daemon_inner option" where
  "set_service s app = map_option (\<lambda>d. d\<lparr>di_service := s\<rparr>) app"

definition get_daemon_url :: "('l, 'w) daemon_inner option \<Rightarrow> command_error + string" where
  "get_daemon_url app =
     bindR (ok_or (Failed ''Daemon not started'') app) (\<lambda>d. Inr (''http://localhost:'' @ decimal (unat (di_api_port d))))"

definition parse_bucket_id :: "'x desktop_ext_scheme \<Rightarrow> string \<Rightarrow> command_error + uuid" where
  "parse_bucket_id X t = ok_or (Failed (''Invalid bucket ID: '' @ uuid_error X t)) (uuid_parse X t)"

definition mount_failed :: "'x desktop_ext_scheme \<Rightarrow> mount_error \<Rightarrow> command_error" where
  "mount_failed X e = (case e of MtPanic msg \<Rightarrow> CommandPanic msg | _ \<Rightarrow> Failed (mount_error_text X e))"

text \<open>Commands that edit a bucket: \<open>mount\<close>, the edit, \<open>save_mount\<close>.\<close>

definition bucket_command ::
  "('w, 'z) mount_ext_scheme \<Rightarrow> 'l log_provider \<Rightarrow> 'x desktop_ext_scheme \<Rightarrow> string \<Rightarrow> bool \<Rightarrow>
     ('w mount_state \<Rightarrow> (command_error + unit) \<times> 'w mount_state) \<Rightarrow> ('l, 'w) daemon_inner option \<Rightarrow>
     (command_error + unit) \<times> ('l, 'w) daemon_inner option" where
  "bucket_command E L X bucket_id do_publish edit app =
     (case bindR (get_service app) (\<lambda>s. bindR (parse_bucket_id X bucket_id) (\<lambda>i. Inr (i, s))) of
        Inl e \<Rightarrow> (Inl e, app)
      | Inr (i, s) \<Rightarrow>
          (case edit_bucket E L (mount_failed X) i do_publish edit s of
             (Inl e, s') \<Rightarrow> (Inl e, set_service s' app)
           | (Inr _, s') \<Rightarrow> (Inr (), set_service s' app)))"

text \<open>Commands that read a bucket.\<close>

definition read_command ::
  "('w, 'z) mount_ext_scheme \<Rightarrow> 'l log_provider \<Rightarrow> 'x desktop_ext_scheme \<Rightarrow> string \<Rightarrow>
     ('w mount_state \<Rightarrow> command_error + 'a) \<Rightarrow> ('l, 'w) daemon_inner option \<Rightarrow> command_error + 'a" where
  "read_command E L X bucket_id q app =
     bindR (get_service app) (\<lambda>s.
     bindR (parse_bucket_id X bucket_id) (\<lambda>i.
     bindR (map_err (mount_failed X) (mount_for_read E L i s)) (\<lambda>m. q (m, snd s))))"

text \<open>Commands that read a version by its hash.\<close>

definition version_command ::
  "('w, 'z) mount_ext_scheme \<Rightarrow> 'x desktop_ext_scheme \<Rightarrow> string \<Rightarrow> string \<Rightarrow>
     ('w mount_state \<Rightarrow> command_error + 'a) \<Rightarrow> ('l, 'w) daemon_inner option \<Rightarrow> command_error + 'a" where
  "version_command E X bucket_id hash_str q app =
     bindR (get_service app) (\<lambda>s.
     bindR (parse_bucket_id X bucket_id) (\<lambda>_.
     bindR (ok_or (Failed (''Invalid link hash: '' @ hash_error X hash_str)) (hash_from_str X hash_str)) (\<lambda>h.
     bindR (map_err (mount_failed X) (mount_load E (link_new LD_RAW_CODEC h) (pr_secret_key (fst s)) (snd s))) (\<lambda>m.
     q (m, snd s)))))"

section \<open>Listing and reading\<close>

record bucket_summary =
  bs_bucket_id :: uuid
  bs_name :: string
  bs_link_hash :: string
  bs_height :: u64
  bs_created_at :: int

definition list_buckets_command ::
  "'x desktop_ext_scheme \<Rightarrow> (database, 'w) daemon_inner option \<Rightarrow> command_error + bucket_summary list" where
  "list_buckets_command X app =
     bindR (get_service app) (\<lambda>s.
     bindR (map_err (log_error (\<lambda>e. Failed (''Database error: '' @ log_error_text X e)) CommandPanic) (list_bucket_infos (pr_log (fst s)) None None)) (\<lambda>bs.
     Inr (map (\<lambda>b. \<lparr>bs_bucket_id = bi_id b, bs_name = bi_name b, bs_link_hash = link_text X (bi_link b), bs_height = 0,
       bs_created_at = bi_created_at b\<rparr>) bs)))"

record file_entry =
  fe_path :: string
  fe_name :: string
  fe_is_dir :: bool
  fe_mime_type :: string
  fe_link_hash :: string

definition node_link_mime :: "node_link \<Rightarrow> string" where
  "node_link_mime nl =
     (case nl of Dir _ _ \<Rightarrow> ''inode/directory''
      | Data _ _ d \<Rightarrow> (case d_mime d of Some m \<Rightarrow> m | None \<Rightarrow> ''application/octet-stream''))"

definition entry_of :: "'x desktop_ext_scheme \<Rightarrow> string \<Rightarrow> path \<times> node_link \<Rightarrow> file_entry" where
  "entry_of X path e = (case e of (entry_path, nl) \<Rightarrow>
     let name = name_or [] entry_path in
     \<lparr>fe_path = (if path = ''/'' then CHR ''/'' # name else trim_end_slash path @ CHR ''/'' # name), fe_name = name,
      fe_is_dir = is_dir nl, fe_mime_type = node_link_mime nl, fe_link_hash = link_text X (nl_link nl)\<rparr>)"

definition list_entries ::
  "('w, 'z) mount_ext_scheme \<Rightarrow> 'x desktop_ext_scheme \<Rightarrow> string \<Rightarrow> 'w mount_state \<Rightarrow> command_error + file_entry list" where
  "list_entries E X path s =
     bindR (map_err (mount_failed X) (mount_ls E (components path) s)) (\<lambda>items. Inr (map (entry_of X path) items))"

definition ls_command ::
  "('w, 'z) mount_ext_scheme \<Rightarrow> 'l log_provider \<Rightarrow> 'x desktop_ext_scheme \<Rightarrow> string \<Rightarrow> string \<Rightarrow> ('l, 'w) daemon_inner option \<Rightarrow>
     command_error + file_entry list" where
  "ls_command E L X bucket_id path = read_command E L X bucket_id (list_entries E X path)"

record cat_result =
  ct_content :: bytes
  ct_mime_type :: string
  ct_size :: nat

definition read_content ::
  "('w, 'z) mount_ext_scheme \<Rightarrow> 'x desktop_ext_scheme \<Rightarrow> string \<Rightarrow> 'w mount_state \<Rightarrow> command_error + cat_result" where
  "read_content E X path s =
     bindR (map_err (mount_failed X) (mount_get E (components path) s)) (\<lambda>nl.
     bindR (map_err (mount_failed X) (mount_cat E (components path) s)) (\<lambda>content.
     Inr \<lparr>ct_content = content, ct_mime_type = node_link_mime nl, ct_size = length content\<rparr>))"

definition cat_command ::
  "('w, 'z) mount_ext_scheme \<Rightarrow> 'l log_provider \<Rightarrow> 'x desktop_ext_scheme \<Rightarrow> string \<Rightarrow> string \<Rightarrow> ('l, 'w) daemon_inner option \<Rightarrow>
     command_error + cat_result" where
  "cat_command E L X bucket_id path = read_command E L X bucket_id (read_content E X path)"

definition is_published_command ::
  "('w, 'z) mount_ext_scheme \<Rightarrow> 'l log_provider \<Rightarrow> 'x desktop_ext_scheme \<Rightarrow> string \<Rightarrow> ('l, 'w) daemon_inner option \<Rightarrow>
     command_error + bool" where
  "is_published_command E L X bucket_id = read_command E L X bucket_id (\<lambda>(m, _). Inr (is_published (mi_manifest m)))"

record history_entry =
  he_link_hash :: string
  he_height :: u64
  he_published :: bool
  he_created_at :: int

definition get_history_command ::
  "'x desktop_ext_scheme \<Rightarrow> string \<Rightarrow> 32 word option \<Rightarrow> (database, 'w) daemon_inner option \<Rightarrow>
     command_error + history_entry list" where
  "get_history_command X bucket_id page app =
     bindR (get_service app) (\<lambda>s.
     bindR (parse_bucket_id X bucket_id) (\<lambda>i.
     bindR (map_err (log_error (\<lambda>e. Failed (''Database error: '' @ log_error_text X e)) CommandPanic)
       (get_bucket_logs (pr_log (fst s)) i (case page of Some n \<Rightarrow> n | None \<Rightarrow> 0) 50)) (\<lambda>entries.
     Inr (map (\<lambda>e. \<lparr>he_link_hash = link_text X (be_current_link e), he_height = be_height e, he_published = be_published e,
       he_created_at = be_created_at e\<rparr>) entries))))"

definition ls_at_version_command ::
  "('w, 'z) mount_ext_scheme \<Rightarrow> 'x desktop_ext_scheme \<Rightarrow> string \<Rightarrow> string \<Rightarrow> string \<Rightarrow> ('l, 'w) daemon_inner option \<Rightarrow>
     command_error + file_entry list" where
  "ls_at_version_command E X bucket_id hash_str path = version_command E X bucket_id hash_str (list_entries E X path)"

definition cat_at_version_command ::
  "('w, 'z) mount_ext_scheme \<Rightarrow> 'x desktop_ext_scheme \<Rightarrow> string \<Rightarrow> string \<Rightarrow> string \<Rightarrow> ('l, 'w) daemon_inner option \<Rightarrow>
     command_error + cat_result" where
  "cat_at_version_command E X bucket_id hash_str path = version_command E X bucket_id hash_str (read_content E X path)"

record share_info =
  si_public_key :: string
  si_role :: string
  si_is_self :: bool

definition get_bucket_shares_command ::
  "('w, 'z) mount_ext_scheme \<Rightarrow> 'l log_provider \<Rightarrow> 'x desktop_ext_scheme \<Rightarrow> string \<Rightarrow> ('l, 'w) daemon_inner option \<Rightarrow>
     command_error + share_info list" where
  "get_bucket_shares_command E L X bucket_id app =
     bindR (get_service app) (\<lambda>s.
     read_command E L X bucket_id (\<lambda>(m, _).
       let self_key = public_key_to_hex E (public E (pr_secret_key (fst s))) in
       Inr (map (\<lambda>(key_hex, sh). \<lparr>si_public_key = key_hex,
         si_role = (case sh_role sh of Owner \<Rightarrow> ''Owner'' | Mirror \<Rightarrow> ''Mirror''), si_is_self = (key_hex = self_key)\<rparr>)
         (m_shares (mi_manifest m)))) app)"

section \<open>Editing\<close>

definition delete_bucket_command ::
  "('w, 'z) mount_ext_scheme \<Rightarrow> 'l log_provider \<Rightarrow> 'x desktop_ext_scheme \<Rightarrow> string \<Rightarrow> ('l, 'w) daemon_inner option \<Rightarrow>
     (command_error + unit) \<times> ('l, 'w) daemon_inner option" where
  "delete_bucket_command E L X bucket_id =
     bucket_command E L X bucket_id False (mapS_err (mount_failed X) (mount_rm E (components ''/'')))"

definition add_file_command ::
  "('w, 'z) mount_ext_scheme \<Rightarrow> 'l log_provider \<Rightarrow> 'x desktop_ext_scheme \<Rightarrow> string \<Rightarrow> string \<Rightarrow> bytes \<Rightarrow>
     ('l, 'w) daemon_inner option \<Rightarrow> (command_error + unit) \<times> ('l, 'w) daemon_inner option" where
  "add_file_command E L X bucket_id path data =
     bucket_command E L X bucket_id False (mapS_err (mount_failed X) (mount_add E (components path) (Inr data)))"

text \<open>The error of the removal is ignored, but not its panic.\<close>

definition replace_edit ::
  "('w, 'z) mount_ext_scheme \<Rightarrow> path \<Rightarrow> bytes \<Rightarrow> 'w mount_state \<Rightarrow> (mount_error + unit) \<times> 'w mount_state" where
  "replace_edit E p data s =
     (case mount_rm E p s of
        (Inl (MtPanic msg), s1) \<Rightarrow> (Inl (MtPanic msg), s1)
      | (_, s1) \<Rightarrow> mount_add E p (Inr data) s1)"

definition update_file_command ::
  "('w, 'z) mount_ext_scheme \<Rightarrow> 'l log_provider \<Rightarrow> 'x desktop_ext_scheme \<Rightarrow> string \<Rightarrow> string \<Rightarrow> bytes \<Rightarrow>
     ('l, 'w) daemon_inner option \<Rightarrow> (command_error + unit) \<times> ('l, 'w) daemon_inner option" where
  "update_file_command E L X bucket_id path data =
     bucket_command E L X bucket_id False (mapS_err (mount_failed X) (replace_edit E (components path) data))"

definition rename_path_command ::
  "('w, 'z) mount_ext_scheme \<Rightarrow> 'l log_provider \<Rightarrow> 'x desktop_ext_scheme \<Rightarrow> string \<Rightarrow> string \<Rightarrow> string \<Rightarrow>
     ('l, 'w) daemon_inner option \<Rightarrow> (command_error + unit) \<times> ('l, 'w) daemon_inner option" where
  "rename_path_command E L X bucket_id old_path new_path =
     bucket_command E L X bucket_id False (mapS_err (mount_failed X) (mount_mv E (components old_path) (components new_path)))"

definition move_path_command ::
  "('w, 'z) mount_ext_scheme \<Rightarrow> 'l log_provider \<Rightarrow> 'x desktop_ext_scheme \<Rightarrow> string \<Rightarrow> string \<Rightarrow> string \<Rightarrow>
     ('l, 'w) daemon_inner option \<Rightarrow> (command_error + unit) \<times> ('l, 'w) daemon_inner option" where
  "move_path_command E L X bucket_id source_path dest_path =
     bucket_command E L X bucket_id False (mapS_err (mount_failed X) (mount_mv E (components source_path) (components dest_path)))"

definition publish_bucket_command ::
  "('w, 'z) mount_ext_scheme \<Rightarrow> 'l log_provider \<Rightarrow> 'x desktop_ext_scheme \<Rightarrow> string \<Rightarrow>
     ('l, 'w) daemon_inner option \<Rightarrow> (command_error + unit) \<times> ('l, 'w) daemon_inner option" where
  "publish_bucket_command E L X bucket_id = bucket_command E L X bucket_id True (liftR (Inr ()))"

definition mkdir_command ::
  "('w, 'z) mount_ext_scheme \<Rightarrow> 'l log_provider \<Rightarrow> 'x desktop_ext_scheme \<Rightarrow> string \<Rightarrow> string \<Rightarrow>
     ('l, 'w) daemon_inner option \<Rightarrow> (command_error + unit) \<times> ('l, 'w) daemon_inner option" where
  "mkdir_command E L X bucket_id path =
     bucket_command E L X bucket_id False (mapS_err (mount_failed X) (mount_mkdir E (components path)))"

definition delete_path_command ::
  "('w, 'z) mount_ext_scheme \<Rightarrow> 'l log_provider \<Rightarrow> 'x desktop_ext_scheme \<Rightarrow> string \<Rightarrow> string \<Rightarrow>
     ('l, 'w) daemon_inner option \<Rightarrow> (command_error + unit) \<times> ('l, 'w) daemon_inner option" where
  "delete_path_command E L X bucket_id path =
     bucket_command E L X bucket_id False (mapS_err (mount_failed X) (mount_rm E (components path)))"

text \<open>The files of an upload are read from the disk and added one after the other; the first failure ends the command.\<close>

definition quoted :: "string \<Rightarrow> string" where
  "quoted t = [CHR 0x27] @ t @ [CHR 0x27]"

definition upload_dest :: "string \<Rightarrow> string \<Rightarrow> string" where
  "upload_dest mount_path fname =
     (if mount_path \<noteq> [] \<and> last mount_path = CHR ''/'' then mount_path @ fname else mount_path @ CHR ''/'' # fname)"

definition add_failed :: "'x desktop_ext_scheme \<Rightarrow> string \<Rightarrow> mount_error \<Rightarrow> command_error" where
  "add_failed X fname e =
     (case e of MtPanic msg \<Rightarrow> CommandPanic msg
      | _ \<Rightarrow> Failed (''Failed to add '' @ quoted fname @ '': '' @ mount_error_text X e))"

fun upload_edit ::
  "('w, 'z) mount_ext_scheme \<Rightarrow> 'x desktop_ext_scheme \<Rightarrow> string \<Rightarrow> string list \<Rightarrow> 'w mount_state \<Rightarrow>
     (command_error + unit) \<times> 'w mount_state" where
  "upload_edit E X mount_path [] = liftR (Inr ())"
| "upload_edit E X mount_path (file_path # file_paths) =
     (let fname = name_or ''file'' (components file_path) in
      bindS (liftR (map_err (\<lambda>e. Failed (''Failed to read file '' @ quoted file_path @ '': '' @ e)) (read_file X file_path))) (\<lambda>data.
      bindS (mapS_err (add_failed X fname) (mount_add E (components (upload_dest mount_path fname)) (Inr data))) (\<lambda>_.
      upload_edit E X mount_path file_paths)))"

definition upload_native_files_command ::
  "('w, 'z) mount_ext_scheme \<Rightarrow> 'l log_provider \<Rightarrow> 'x desktop_ext_scheme \<Rightarrow> string \<Rightarrow> string \<Rightarrow> string list \<Rightarrow>
     ('l, 'w) daemon_inner option \<Rightarrow> (command_error + unit) \<times> ('l, 'w) daemon_inner option" where
  "upload_native_files_command E L X bucket_id mount_path file_paths =
     bucket_command E L X bucket_id False (upload_edit E X mount_path file_paths)"

section \<open>Commands over HTTP\<close>

text \<open>
  What the client makes of a response: its status, its body as text (empty when it cannot be read) and
  decoded. The client is the argument \<open>post\<close>, which sends a body to a URL and may change the service.
\<close>

record 'r http_reply =
  rp_status :: nat
  rp_text :: string
  rp_json :: "string + 'r"

definition http_command ::
  "'x desktop_ext_scheme \<Rightarrow> string \<Rightarrow> string \<Rightarrow>
     (string \<Rightarrow> 'b \<Rightarrow> ('l, 'w) peer_state \<Rightarrow> (string + 'r http_reply) \<times> ('l, 'w) peer_state) \<Rightarrow> 'b \<Rightarrow>
     ('l, 'w) daemon_inner option \<Rightarrow> (command_error + 'r http_reply) \<times> ('l, 'w) daemon_inner option" where
  "http_command X what route post body app =
     (case bindR (get_daemon_url app) (\<lambda>base. bindR (get_service app) (\<lambda>s. Inr (base, s))) of
        Inl e \<Rightarrow> (Inl e, app)
      | Inr (base, s) \<Rightarrow>
          (case post (base @ route) body s of
             (Inl e, s') \<Rightarrow> (Inl (Failed (''Failed to connect to daemon: '' @ e)), set_service s' app)
           | (Inr rp, s') \<Rightarrow>
               (if 200 \<le> rp_status rp \<and> rp_status rp < 300 then Inr rp
                else Inl (Failed (''Failed to '' @ what @ '' ('' @ status_line X (rp_status rp) @ ''): '' @ rp_text rp)),
                set_service s' app)))"

definition create_bucket_command ::
  "'x desktop_ext_scheme \<Rightarrow>
     (string \<Rightarrow> string \<Rightarrow> ('l, 'w) peer_state \<Rightarrow> (string + create_response http_reply) \<times> ('l, 'w) peer_state) \<Rightarrow> string \<Rightarrow>
     ('l, 'w) daemon_inner option \<Rightarrow> (command_error + bucket_summary) \<times> ('l, 'w) daemon_inner option" where
  "create_bucket_command X post name =
     bindS (http_command X ''create bucket'' ''/api/v0/bucket'' post name) (\<lambda>rp.
     liftR (bindR (map_err (\<lambda>e. Failed (''Failed to parse response: '' @ e)) (rp_json rp)) (\<lambda>cr.
       Inr \<lparr>bs_bucket_id = cr_bucket_id cr, bs_name = cr_name cr, bs_link_hash = [], bs_height = 0,
         bs_created_at = cr_created_at cr\<rparr>)))"

definition share_bucket_command ::
  "'x desktop_ext_scheme \<Rightarrow>
     (string \<Rightarrow> uuid \<times> string \<times> string \<Rightarrow> ('l, 'w) peer_state \<Rightarrow> (string + share_response http_reply) \<times> ('l, 'w) peer_state) \<Rightarrow>
     string \<Rightarrow> string \<Rightarrow> string \<Rightarrow> ('l, 'w) daemon_inner option \<Rightarrow>
     (command_error + unit) \<times> ('l, 'w) daemon_inner option" where
  "share_bucket_command X post bucket_id peer_public_key role app =
     (bindS (liftR (bindR (get_daemon_url app) (\<lambda>_. parse_bucket_id X bucket_id))) (\<lambda>i.
      bindS (http_command X ''share bucket'' ''/api/v0/bucket/share'' post (i, peer_public_key, role)) (\<lambda>_.
      liftR (Inr ()))) app)"

definition ping_peer_command ::
  "'x desktop_ext_scheme \<Rightarrow>
     (string \<Rightarrow> uuid \<times> string \<Rightarrow> ('l, 'w) peer_state \<Rightarrow> (string + ping_response http_reply) \<times> ('l, 'w) peer_state) \<Rightarrow>
     string \<Rightarrow> string \<Rightarrow> ('l, 'w) daemon_inner option \<Rightarrow>
     (command_error + string) \<times> ('l, 'w) daemon_inner option" where
  "ping_peer_command X post bucket_id peer_public_key app =
     (bindS (liftR (bindR (get_daemon_url app) (\<lambda>_. parse_bucket_id X bucket_id))) (\<lambda>i.
      bindS (http_command X ''ping peer'' ''/api/v0/bucket/ping'' post (i, peer_public_key)) (\<lambda>rp.
      liftR (bindR (map_err (\<lambda>e. Failed (''Failed to parse response: '' @ e)) (rp_json rp)) (\<lambda>pr. Inr (gr_message pr))))) app)"

section \<open>Status of the daemon\<close>

record daemon_status =
  ds_running :: bool
  ds_api_port :: "16 word"
  ds_gateway_port :: "16 word"
  ds_node_id :: "string option"

definition peer_id_text :: "('w, 'z) mount_ext_scheme \<Rightarrow> 'x desktop_ext_scheme \<Rightarrow> ('l, 'w) daemon_inner \<Rightarrow> string" where
  "peer_id_text E X d = node_id_text X (public E (pr_secret_key (fst (di_service d))))"

definition get_status_command ::
  "('w, 'z) mount_ext_scheme \<Rightarrow> 'x desktop_ext_scheme \<Rightarrow> ('l, 'w) daemon_inner option \<Rightarrow> command_error + daemon_status" where
  "get_status_command E X app =
     (case app of
        Some d \<Rightarrow> Inr \<lparr>ds_running = True, ds_api_port = di_api_port d, ds_gateway_port = di_gateway_port d,
                    ds_node_id = Some (peer_id_text E X d)\<rparr>
      | None \<Rightarrow> Inr \<lparr>ds_running = False, ds_api_port = 0, ds_gateway_port = 0, ds_node_id = None\<rparr>)"

definition get_identity_command ::
  "('w, 'z) mount_ext_scheme \<Rightarrow> 'x desktop_ext_scheme \<Rightarrow> ('l, 'w) daemon_inner option \<Rightarrow> command_error + string" where
  "get_identity_command E X app =
     bindR (ok_or (Failed ''Daemon not started'') app) (\<lambda>d. Inr (peer_id_text E X d))"

record config_info =
  ci_jax_dir :: string
  ci_db_path :: string
  ci_config_path :: string
  ci_blob_store :: string

definition get_config_info_command ::
  "'x desktop_ext_scheme \<Rightarrow> ('l, 'w) daemon_inner option \<Rightarrow> command_error + config_info" where
  "get_config_info_command X app =
     bindR (ok_or (Failed ''Daemon not started'') app) (\<lambda>d.
     let dir = di_jax_dir d in
     Inr \<lparr>ci_jax_dir = path_text dir, ci_db_path = path_text (push dir (components ''db.sqlite'')),
       ci_config_path = path_text (push dir (components ''config.toml'')),
       ci_blob_store = (if dir_exists X (push dir (components ''blobs-store'')) then ''filesystem'' else ''legacy'')\<rparr>)"

end
