(* ===== verification/Desktop_Safety.thy ===== *)
theory Desktop_Safety
  imports Desktop
begin

text \<open>
  The desktop commands beside the HTTP API. A command is accepted when the request of the API is, and
  leaves the same service behind; commands and requests together, in any order, keep all buckets
  mountable; an upload puts every file where it was asked for, or nothing at all. Deleting a bucket
  always fails.
\<close>

section \<open>Commands and requests\<close>

text \<open>The second computation is accepted whenever the first is, with the same state.\<close>

definition follows :: "('e + 'a) \<times> 's \<Rightarrow> ('f + 'b) \<times> 's \<Rightarrow> bool" where
  "follows a b \<longleftrightarrow> (\<not> isl (fst a) \<longrightarrow> \<not> isl (fst b) \<and> snd b = snd a)"

lemma follows_refl: "follows a a"
  by (simp add: follows_def)

lemma follows_edit:
  assumes "\<And>m. peer_mount E L i s = Inr m \<Longrightarrow> follows (f (m, snd s)) (g (m, snd s))"
  shows "follows (edit_bucket E L err i pub f s) (edit_bucket E L err' i pub g s)"
proof (cases "peer_mount E L i s")
  case (Inr m)
  obtain r1 s1 r2 s2 where e: "f (m, snd s) = (r1, s1)" "g (m, snd s) = (r2, s2)" by (metis prod.exhaust)
  show ?thesis
    using assms [OF Inr] by (cases r1; cases r2) (auto simp: edit_bucket_def follows_def Inr e split: prod.split sum.split)
qed (simp add: edit_bucket_def follows_def)

lemma follows_mapS_err: "follows (f s) (mapS_err g f s)" "follows (mapS_err g f s) (f s)"
  by (auto simp: follows_def mapS_err_def split: prod.split sum.split)

lemma follows_trans: "follows a b \<Longrightarrow> follows b c \<Longrightarrow> follows a c"
  by (auto simp: follows_def)

lemma follows_respond: "follows (bindS (f :: 's \<Rightarrow> ('e + 'a \<times> link) \<times> 's) (\<lambda>(x, l). liftR (Inr (h x l))) s) (f s)"
  "follows (f s) (bindS f (\<lambda>(x, l). liftR (Inr (h x l))) s)"
  by (auto simp: follows_def bindS_def liftR_def split: prod.split sum.split)

text \<open>Removing what is not there fails and changes nothing.\<close>

lemma rm_of_missing:
  assumes "mount_get E p s = Inl e"
  shows "\<exists>e'. mount_rm E p s = (Inl e', s) \<and> ((\<exists>msg. e' = MtPanic msg) \<longrightarrow> (\<exists>msg. e = MtPanic msg))"
proof (cases "is_absolute p")
  case True
  let ?q = "drop 1 p"
  show ?thesis
  proof (cases "parent ?q")
    case None
    then show ?thesis using True by (simp add: mount_rm_def clean_path_def bindS_def liftR_def)
  next
    case (Some pp)
    show ?thesis
    proof (cases "node_or_root E (mi_entry (fst s)) pp (snd s)")
      case (Inl er)
      then show ?thesis
        using True Some assms
        by (cases "file_name ?q") (auto simp: mount_rm_def mount_get_def clean_path_def bindS_def liftR_def read_state_def
            file_name_unwrap_def split: prod.splits option.splits)
    next
      case (Inr n)
      then show ?thesis
        using True Some assms
        by (cases "file_name ?q"; cases "get_link n (the (file_name ?q))")
          (auto simp: mount_rm_def mount_get_def clean_path_def bindS_def liftR_def read_state_def node_del_def get_link_def
            file_name_unwrap_def split: prod.splits option.splits)
    qed
  qed
next
  case False
  then show ?thesis
    using assms by (auto simp: mount_rm_def mount_get_def clean_path_def bindS_def liftR_def)
qed

lemma follows_update: "follows (update_edit E p d s) (replace_edit E p d s)"
proof (cases "mount_get E p s")
  case (Inl e)
  obtain e' where "mount_rm E p s = (Inl e', s)" "(\<exists>msg. e' = MtPanic msg) \<longrightarrow> (\<exists>msg. e = MtPanic msg)"
    using rm_of_missing [OF Inl] by blast
  then show ?thesis
    using Inl follows_mapS_err(2) [of UpdateMount "mount_add E p (Inr d)" s]
    by (cases e; cases e') (simp_all add: follows_def update_edit_def replace_edit_def reads_def path_exists_def bindS_def liftR_def)
next
  case (Inr nl)
  obtain r s1 where "mount_rm E p s = (r, s1)" by (rule prod.exhaust)
  then show ?thesis
    using Inr follows_mapS_err(2) [of UpdateMount "mount_add E p (Inr d)" s1]
    by (cases r) (simp_all add: follows_def update_edit_def replace_edit_def reads_def path_exists_def bindS_def mapS_err_def)
qed

lemma follows_delete: "follows (delete_edit E t p s) (mount_rm E p s)" "follows (mount_rm E p s) (delete_edit E t p s)"
proof -
  have "follows (delete_edit E t p s) (mount_rm E p s) \<and> follows (mount_rm E p s) (delete_edit E t p s)"
  proof (cases "mount_get E p s")
    case (Inl e)
    then show ?thesis
      using rm_of_missing [OF Inl]
      by (cases e) (auto simp: follows_def delete_edit_def reads_def path_exists_def bindS_def liftR_def)
  next
    case (Inr nl)
    then have "delete_edit E t p s = mapS_err DeleteMount (mount_rm E p) s"
      by (simp add: delete_edit_def reads_def path_exists_def bindS_def)
    then show ?thesis by (simp add: follows_mapS_err)
  qed
  then show "follows (delete_edit E t p s) (mount_rm E p s)" "follows (mount_rm E p s) (delete_edit E t p s)" by blast+
qed

text \<open>The service after a command and after a request.\<close>

definition accepted_alike ::
  "('l, 'w) daemon_inner \<Rightarrow> ('e + 'a) \<times> ('l, 'w) peer_state \<Rightarrow> (command_error + unit) \<times> ('l, 'w) daemon_inner option \<Rightarrow> bool" where
  "accepted_alike d request command \<longleftrightarrow> isl (fst command) = isl (fst request) \<and>
     (\<not> isl (fst request) \<longrightarrow> snd command = Some (d\<lparr>di_service := snd request\<rparr>))"

lemma bucket_command_run:
  assumes "uuid_parse X t = Some i"
  shows "bucket_command E L X t pub f (Some d) =
    (case edit_bucket E L (mount_failed X) i pub f (di_service d) of
       (r, s') \<Rightarrow> (case r of Inl e \<Rightarrow> Inl e | Inr _ \<Rightarrow> Inr (), Some (d\<lparr>di_service := s'\<rparr>)))"
  using assms by (auto simp: bucket_command_def get_service_def parse_bucket_id_def set_service_def split: prod.split sum.split)

lemma command_accepted:
  assumes "uuid_parse X t = Some i" and "follows h (edit_bucket E L (mount_failed X) i pub f (di_service d))"
    and "\<not> isl (fst h)"
  shows "bucket_command E L X t pub f (Some d) = (Inr (), Some (d\<lparr>di_service := snd h\<rparr>))"
proof -
  obtain r s' where e: "edit_bucket E L (mount_failed X) i pub f (di_service d) = (r, s')" by (rule prod.exhaust)
  have "\<not> isl r" "s' = snd h"
    using assms(2,3) by (simp_all add: follows_def e)
  then show ?thesis
    unfolding bucket_command_run [OF assms(1)] e by (cases r) simp_all
qed

lemma command_alike:
  assumes "uuid_parse X t = Some i" and "follows h (edit_bucket E L (mount_failed X) i pub f (di_service d))"
    and "follows (edit_bucket E L (mount_failed X) i pub f (di_service d)) h"
  shows "accepted_alike d h (bucket_command E L X t pub f (Some d))"
proof -
  obtain r s' where e: "edit_bucket E L (mount_failed X) i pub f (di_service d) = (r, s')" by (rule prod.exhaust)
  have "isl r = isl (fst h)" "\<not> isl r \<longrightarrow> s' = snd h"
    using assms(2,3) unfolding follows_def e fst_conv snd_conv by metis+
  then show ?thesis
    unfolding bucket_command_run [OF assms(1)] e accepted_alike_def by (cases r) simp_all
qed

lemma edit_alike:
  assumes "uuid_parse X t = Some i"
    and "\<And>s. follows (f s) (g s)" "\<And>s. follows (g s) (f s)"
  shows "accepted_alike d (bindS (edit_bucket E L err i pub f) (\<lambda>(x, l). liftR (Inr (h x l))) (di_service d))
    (bucket_command E L X t pub g (Some d))"
proof (rule command_alike [OF assms(1)])
  let ?f = "edit_bucket E L err i pub f (di_service d)" and ?g = "edit_bucket E L (mount_failed X) i pub g (di_service d)"
  have fg: "follows ?f ?g" and gf: "follows ?g ?f"
    by (rule follows_edit assms(2,3))+
  show "follows (bindS (edit_bucket E L err i pub f) (\<lambda>(x, l). liftR (Inr (h x l))) (di_service d)) ?g"
    by (rule follows_trans [OF _ fg]) (rule follows_respond)
  show "follows ?g (bindS (edit_bucket E L err i pub f) (\<lambda>(x, l). liftR (Inr (h x l))) (di_service d))"
    by (rule follows_trans [OF gf]) (rule follows_respond)
qed

text \<open>A path that is not absolute is refused by the API, and makes the mount panic.\<close>

lemma relative_edit:
  assumes "uuid_parse X t = Some i" and "\<And>s. isl (fst (g s))"
  shows "accepted_alike d (Inl e, di_service d) (bucket_command E L X t pub g (Some d))"
proof -
  have "isl (fst (edit_bucket E L (mount_failed X) i pub g (di_service d)))"
  proof (cases "peer_mount E L i (di_service d)")
    case (Inr m)
    then show ?thesis
      using assms(2) [of "(m, snd (di_service d))"]
      by (cases "g (m, snd (di_service d))"; cases "fst (g (m, snd (di_service d)))") (simp_all add: edit_bucket_def)
  qed (simp add: edit_bucket_def)
  then show ?thesis
    unfolding bucket_command_run [OF assms(1)] accepted_alike_def
    by (cases "edit_bucket E L (mount_failed X) i pub g (di_service d)"; cases "fst (edit_bucket E L (mount_failed X) i pub g (di_service d))")
      simp_all
qed

text \<open>
  C16: the desktop does what the API does. For directories, publishing, moving and deleting, a command on
  a running service is accepted exactly when the HTTP request with the same arguments is, and then both leave
  the service in the same state; an update that the API accepts is accepted by the command with the
  same effect.
\<close>

theorem desktop_matches_api:
  assumes "uuid_parse X t = Some i"
  shows "accepted_alike d (mkdir_handler E L i p (di_service d)) (mkdir_command E L X t p (Some d)) \<and>
    accepted_alike d (publish_handler E L X i (di_service d)) (publish_bucket_command E L X t (Some d)) \<and>
    accepted_alike d (mv_handler E L \<lparr>mv_bucket_id = i, mv_source_path = p, mv_dest_path = q\<rparr> (di_service d))
      (move_path_command E L X t p q (Some d)) \<and>
    accepted_alike d (mv_handler E L \<lparr>mv_bucket_id = i, mv_source_path = p, mv_dest_path = q\<rparr> (di_service d))
      (rename_path_command E L X t p q (Some d)) \<and>
    accepted_alike d (delete_handler E L X i p (di_service d)) (delete_path_command E L X t p (Some d)) \<and>
    (update_fields X fs \<lparr>uf_bucket_id = None, uf_mount_path = None, uf_file = None\<rparr> =
        Inr \<lparr>uf_bucket_id = Some i, uf_mount_path = Some p, uf_file = Some data\<rparr> \<longrightarrow>
      \<not> isl (fst (update_handler E L X fs (di_service d))) \<longrightarrow>
      update_file_command E L X t p data (Some d) =
        (Inr (), Some (d\<lparr>di_service := snd (update_handler E L X fs (di_service d))\<rparr>)))"
proof -
  have mkdir: "accepted_alike d (mkdir_handler E L i p (di_service d)) (mkdir_command E L X t p (Some d))"
    unfolding mkdir_handler_def mkdir_command_def by (rule edit_alike [OF assms follows_mapS_err])
  have publish: "accepted_alike d (publish_handler E L X i (di_service d)) (publish_bucket_command E L X t (Some d))"
    unfolding publish_handler_def publish_bucket_command_def
    by (rule edit_alike [OF assms]) (simp_all add: follows_def liftR_def)
  let ?mv = "mapS_err (mount_failed X) (mount_mv E (components p) (components q))"
  have mv: "accepted_alike d (mv_handler E L \<lparr>mv_bucket_id = i, mv_source_path = p, mv_dest_path = q\<rparr> (di_service d))
      (bucket_command E L X t False ?mv (Some d))"
  proof (cases "is_absolute (components p) \<and> is_absolute (components q)")
    case True
    have "follows (mapS_err MvMount (mount_mv E (components p) (components q)) s) (?mv s)"
      "follows (?mv s) (mapS_err MvMount (mount_mv E (components p) (components q)) s)" for s
      by (rule follows_trans [OF follows_mapS_err(2) follows_mapS_err(1)])+
    then show ?thesis
      using True by (simp add: mv_handler_def Let_def) (rule edit_alike [OF assms])
  next
    case False
    then have "isl (fst (?mv s))" for s
      by (auto simp: mapS_err_def mount_mv_def clean_path_def bindS_def liftR_def)
    moreover obtain e where "mv_handler E L \<lparr>mv_bucket_id = i, mv_source_path = p, mv_dest_path = q\<rparr> (di_service d) = (Inl e, di_service d)"
      using False by (cases "is_absolute (components p)") (simp_all add: mv_handler_def)
    ultimately show ?thesis
      using relative_edit [OF assms] by metis
  qed
  let ?rm = "mapS_err (mount_failed X) (mount_rm E (components p))"
  have delete: "accepted_alike d (delete_handler E L X i p (di_service d)) (delete_path_command E L X t p (Some d))"
  proof (cases "is_absolute (components p)")
    case True
    have "follows (delete_edit E p (components p) s) (?rm s)" "follows (?rm s) (delete_edit E p (components p) s)" for s
      by (rule follows_trans [OF follows_delete(1) follows_mapS_err(1)], rule follows_trans [OF follows_mapS_err(2) follows_delete(2)])
    then show ?thesis
      using True by (simp add: delete_handler_def delete_path_command_def Let_def) (rule edit_alike [OF assms])
  next
    case False
    then have "isl (fst (?rm s))" for s
      by (auto simp: mapS_err_def mount_rm_def clean_path_def bindS_def liftR_def)
    moreover have "delete_handler E L X i p (di_service d) = (Inl (DeleteInvalidPath (''Path must be absolute: '' @ p)), di_service d)"
      using False by (simp add: delete_handler_def)
    ultimately show ?thesis
      using relative_edit [OF assms] by (metis delete_path_command_def)
  qed
  have update: "update_file_command E L X t p data (Some d) = (Inr (), Some (d\<lparr>di_service := snd (update_handler E L X fs (di_service d))\<rparr>))"
    if form: "update_fields X fs \<lparr>uf_bucket_id = None, uf_mount_path = None, uf_file = None\<rparr> =
        Inr \<lparr>uf_bucket_id = Some i, uf_mount_path = Some p, uf_file = Some data\<rparr>"
      and accepted: "\<not> isl (fst (update_handler E L X fs (di_service d)))"
    unfolding update_file_command_def
  proof (rule command_accepted [OF assms _ accepted])
    let ?e = "edit_bucket E L UpdateMount i False (update_edit E (components p) data)"
    have "follows (update_edit E (components p) data s) (mapS_err (mount_failed X) (replace_edit E (components p) data) s)" for s
      by (rule follows_trans [OF follows_update follows_mapS_err(1)])
    then have "follows (?e (di_service d)) (edit_bucket E L (mount_failed X) i False
        (mapS_err (mount_failed X) (replace_edit E (components p) data)) (di_service d))"
      by (intro follows_edit)
    moreover have "follows (update_handler E L X fs (di_service d)) (?e (di_service d))"
      using form accepted follows_respond(1) [of ?e]
      by (simp add: update_handler_def bindS_def [of "liftR _"] liftR_def [of _ "di_service d"] Let_def split: if_splits)
    ultimately show "follows (update_handler E L X fs (di_service d)) (edit_bucket E L (mount_failed X) i False
        (mapS_err (mount_failed X) (replace_edit E (components p) data)) (di_service d))"
      by (rule follows_trans [rotated])
  qed
  show ?thesis
    using mkdir publish mv delete update by (simp add: move_path_command_def rename_path_command_def)
qed

section \<open>Commands keep the buckets\<close>

datatype desktop_command =
    DeleteBucket string
  | AddFile string string bytes
  | UpdateFile string string bytes
  | RenamePath string string string
  | MovePath string string string
  | PublishBucket string
  | UploadNativeFiles string string "string list"
  | Mkdir string string
  | DeletePath string string

fun run_command ::
  "('w, 'z) mount_ext_scheme \<Rightarrow> 'l log_provider \<Rightarrow> 'x desktop_ext_scheme \<Rightarrow> desktop_command \<Rightarrow>
     ('l, 'w) daemon_inner option \<Rightarrow> (command_error + unit) \<times> ('l, 'w) daemon_inner option" where
  "run_command E L X (DeleteBucket t) = delete_bucket_command E L X t"
| "run_command E L X (AddFile t p b) = add_file_command E L X t p b"
| "run_command E L X (UpdateFile t p b) = update_file_command E L X t p b"
| "run_command E L X (RenamePath t p q) = rename_path_command E L X t p q"
| "run_command E L X (MovePath t p q) = move_path_command E L X t p q"
| "run_command E L X (PublishBucket t) = publish_bucket_command E L X t"
| "run_command E L X (UploadNativeFiles t p fs) = upload_native_files_command E L X t p fs"
| "run_command E L X (Mkdir t p) = mkdir_command E L X t p"
| "run_command E L X (DeletePath t p) = delete_path_command E L X t p"

fun command_bucket :: "desktop_command \<Rightarrow> string" where
  "command_bucket (DeleteBucket t) = t"
| "command_bucket (AddFile t p b) = t"
| "command_bucket (UpdateFile t p b) = t"
| "command_bucket (RenamePath t p q) = t"
| "command_bucket (MovePath t p q) = t"
| "command_bucket (PublishBucket t) = t"
| "command_bucket (UploadNativeFiles t p fs) = t"
| "command_bucket (Mkdir t p) = t"
| "command_bucket (DeletePath t p) = t"

definition uploaded_name :: "string \<Rightarrow> string" where
  "uploaded_name f = name_or ''file'' (components f)"

text \<open>Paths as for the requests of the API, except that the path of an added file has to be absolute.\<close>

definition full_plain_path :: "string \<Rightarrow> bool" where
  "full_plain_path t \<longleftrightarrow> (\<exists>ns x. components t = abs_path (ns @ [x]))"

fun paths_valid ::
  "('w, 'z) mount_ext_scheme \<Rightarrow> (unique_constraint \<Rightarrow> string option) \<Rightarrow> uuid \<Rightarrow> (database, 'w) peer_state \<Rightarrow> desktop_command \<Rightarrow> bool" where
  "paths_valid E cn i s (AddFile t p b) = full_plain_path p"
| "paths_valid E cn i s (UpdateFile t p b) = head_clear E cn i p s"
| "paths_valid E cn i s (RenamePath t p q) = (head_clear E cn i p s \<and> plain_path q)"
| "paths_valid E cn i s (MovePath t p q) = (head_clear E cn i p s \<and> plain_path q)"
| "paths_valid E cn i s (UploadNativeFiles t p fs) = list_all (\<lambda>f. full_plain_path (upload_dest p (uploaded_name f))) fs"
| "paths_valid E cn i s (Mkdir t p) = plain_path p"
| "paths_valid E cn i s (DeletePath t p) = head_clear E cn i p s"
| "paths_valid E cn i s _ = True"

definition command_valid ::
  "('w, 'z) mount_ext_scheme \<Rightarrow> (unique_constraint \<Rightarrow> string option) \<Rightarrow> 'x desktop_ext_scheme \<Rightarrow> (database, 'w) peer_state \<Rightarrow>
     desktop_command \<Rightarrow> bool" where
  "command_valid E cn X s c \<longleftrightarrow>
     (\<forall>i. uuid_parse X (command_bucket c) = Some i \<longrightarrow> room_for E cn i s \<and> paths_valid E cn i s c)"

text \<open>The edits of the commands.\<close>

lemma edits_unmoved: "(\<And>s. \<exists>r. f s = (r, s)) \<Longrightarrow> edits E P f"
  unfolding edits_def by (metis keeps_refl prod.inject same_bucket_refl)

lemma edits_add_text:
  assumes "mount_laws E" and "full_plain_path t"
  shows "edits E P (mount_add E (components t) (Inr b))"
  using edits_add [OF assms(1)] assms(2) by (auto simp: full_plain_path_def)

lemma edits_replace:
  assumes "mount_laws E"
  shows "edits E (no_file_above ns) (replace_edit E (abs_path (ns @ [x])) b)"
proof (rule editsI)
  fix s r s'
  assume a: "mount_ok E s" "no_file_above ns (mount_fs E s)" "replace_edit E (abs_path (ns @ [x])) b s = (r, s')"
  obtain r1 s1 where rm: "mount_rm E (abs_path (ns @ [x])) s = (r1, s1)" by (rule prod.exhaust)
  note 1 = editsD [OF edits_rm [OF assms] a(1,2) rm]
  obtain r2 s2 where add: "mount_add E (abs_path (ns @ [x])) (Inr b) s1 = (r2, s2)" by (rule prod.exhaust)
  note 2 = editsD [OF edits_add [OF assms] 1(1) TrueI add]
  have "s' = s1 \<or> s' = s2"
    using a(3) rm add by (auto simp: replace_edit_def split: sum.splits mount_error.splits)
  then show "mount_ok E s' \<and> same_bucket E (fst s) (fst s') \<and> keeps_blobs E (snd s) (snd s')"
    using 1 2 by (auto intro: same_bucket_trans keeps_trans)
qed

lemma edits_upload:
  assumes "mount_laws E" and "list_all (\<lambda>f. full_plain_path (upload_dest p (uploaded_name f))) fs"
  shows "edits E P (upload_edit E X p fs)"
  using assms(2)
proof (induction fs arbitrary: P)
  case (Cons f fs)
  then show ?case
    by (simp add: Let_def uploaded_name_def [symmetric])
      (intro edits_bind edits_lift edits_mapS_err edits_add_text [OF assms(1)]; simp)
qed (simp add: edits_lift)

lemma edits_relative:
  assumes "\<not> is_absolute p"
  shows "edits E P (mount_rm E p)" "edits E P (mount_mv E p q)" "edits E P (replace_edit E p b)"
  using assms
  by (auto intro!: edits_unmoved simp: mount_rm_def mount_mv_def replace_edit_def bindS_def liftR_def clean_path_def)

lemma root_not_removed: "mount_rm E (components ''/'') s = (Inl (MtDefault ''Cannot remove root''), s)"
  by (simp add: components_def part_comp_def mount_rm_def bindS_def liftR_def parent_def)

lemma clear_cases:
  assumes "head_clear E cn i t s" and "head_at E cn i s m"
    and "\<And>ns x. components t = abs_path (ns @ [x]) \<Longrightarrow> edits E (no_file_above ns) f"
    and "\<not> is_absolute (components t) \<Longrightarrow> edits E (\<lambda>_. True) f"
  shows "\<exists>P. edits E P f \<and> P (mount_fs E (m, snd s))"
proof (cases "is_absolute (components t)")
  case True
  then show ?thesis by (rule clear_edits [OF assms(1,2) _ assms(3)])
next
  case False
  then show ?thesis using assms(4) by (intro exI [of _ "\<lambda>_. True"]) simp
qed

lemma edits_mv_text:
  assumes laws: "mount_laws E" and "head_clear E cn i p s" and "plain_path q" and "head_at E cn i s m"
  shows "\<exists>P. edits E P (mount_mv E (components p) (components q)) \<and> P (mount_fs E (m, snd s))"
proof (rule clear_cases [OF assms(2,4)])
  show "edits E (no_file_above ns) (mount_mv E (components p) (components q))" if "components p = abs_path (ns @ [x])" for ns x
  proof (cases "is_absolute (components q)")
    case True
    then obtain ts y where "components q = abs_path (ts @ [y])" using assms(3) by (auto simp: plain_path_def)
    then show ?thesis using edits_mv [OF laws] that by simp
  next
    case False
    then show ?thesis
      by (intro edits_unmoved) (auto simp: mount_mv_def bindS_def liftR_def clean_path_def)
  qed
qed (rule edits_relative)

text \<open>What a command did to the service.\<close>

lemma bucket_command_moves:
  assumes laws: "mount_laws E" and sv: "service_ok E (sql_provider cn) sql_ok (di_service d)"
    and room: "\<And>i. uuid_parse X t = Some i \<Longrightarrow> room_for E cn i (di_service d)"
    and edit: "\<And>i m. uuid_parse X t = Some i \<Longrightarrow> head_at E cn i (di_service d) m \<Longrightarrow>
      \<exists>P. edits E P f \<and> P (mount_fs E (m, snd (di_service d)))"
    and run: "bucket_command E (sql_provider cn) X t pub f (Some d) = (r, app)"
  shows "\<exists>i s'. app = Some (d\<lparr>di_service := s'\<rparr>) \<and> moved_on E (sql_provider cn) sql_ok i (di_service d) s'"
proof (cases "uuid_parse X t")
  case None
  then have "app = Some (d\<lparr>di_service := di_service d\<rparr>)"
    using run by (simp add: bucket_command_def get_service_def parse_bucket_id_def)
  moreover have "moved_on E (sql_provider cn) sql_ok i (di_service d) (di_service d)" for i
    using sv by (intro moved_on_refl) (simp add: service_ok_def)
  ultimately show ?thesis by blast
next
  case (Some i)
  let ?s = "di_service d"
  have log: "sql_ok (pr_log (fst ?s))" using sv by (simp add: service_ok_def)
  obtain r1 s' where e: "edit_bucket E (sql_provider cn) (mount_failed X) i pub f ?s = (r1, s')" by (rule prod.exhaust)
  then have app: "app = Some (d\<lparr>di_service := s'\<rparr>)"
    using run unfolding bucket_command_run [OF Some] by simp
  show ?thesis
  proof (cases "peer_mount E (sql_provider cn) i ?s")
    case (Inl er)
    then have "s' = ?s" using e by (simp add: edit_unmounted)
    then show ?thesis using app moved_on_refl [of sql_ok ?s] log by blast
  next
    case (Inr m)
    note holds = service_holds [OF sv Inr]
    obtain P where P: "edits E P f" "P (mount_fs E (m, snd ?s))" using edit [OF Some Inr] by blast
    have "mount_ok E s1 \<and> same_bucket E m (fst s1) \<and> keeps_blobs E (snd ?s) (snd s1)" if "f (m, snd ?s) = (r1, s1)" for r1 s1
      using editsD [OF P(1) _ P(2) that] holds by (simp add: holds_bucket_def)
    moreover have "has_room sql_fits (mi_height m)" using room [OF Some] Inr by (simp add: room_for_def)
    ultimately have "moved_on E (sql_provider cn) sql_ok i ?s s'"
      using sql_peer.edit_outcome(1) [OF laws log holds _ _ e] by blast
    then show ?thesis using app by blast
  qed
qed

text \<open>Every command is an edit of a bucket.\<close>

fun command_edit ::
  "('w, 'z) mount_ext_scheme \<Rightarrow> 'x desktop_ext_scheme \<Rightarrow> desktop_command \<Rightarrow> 'w mount_state \<Rightarrow> (command_error + unit) \<times> 'w mount_state" where
  "command_edit E X (DeleteBucket t) = mapS_err (mount_failed X) (mount_rm E (components ''/''))"
| "command_edit E X (AddFile t p b) = mapS_err (mount_failed X) (mount_add E (components p) (Inr b))"
| "command_edit E X (UpdateFile t p b) = mapS_err (mount_failed X) (replace_edit E (components p) b)"
| "command_edit E X (RenamePath t p q) = mapS_err (mount_failed X) (mount_mv E (components p) (components q))"
| "command_edit E X (MovePath t p q) = mapS_err (mount_failed X) (mount_mv E (components p) (components q))"
| "command_edit E X (PublishBucket t) = liftR (Inr ())"
| "command_edit E X (UploadNativeFiles t p fs) = upload_edit E X p fs"
| "command_edit E X (Mkdir t p) = mapS_err (mount_failed X) (mount_mkdir E (components p))"
| "command_edit E X (DeletePath t p) = mapS_err (mount_failed X) (mount_rm E (components p))"

lemma run_command_edit:
  "\<exists>pub. run_command E L X c = bucket_command E L X (command_bucket c) pub (command_edit E X c)"
  by (cases c) (auto simp: delete_bucket_command_def add_file_command_def update_file_command_def rename_path_command_def
      move_path_command_def publish_bucket_command_def upload_native_files_command_def mkdir_command_def delete_path_command_def)

lemma command_edits:
  assumes laws: "mount_laws E" and valid: "paths_valid E cn i s c" and head: "head_at E cn i s m"
  shows "\<exists>P. edits E P (command_edit E X c) \<and> P (mount_fs E (m, snd s))"
proof -
  have always: "(\<And>P. edits E P f) \<Longrightarrow> \<exists>P. edits E P f \<and> P (mount_fs E (m, snd s))" for f :: "'a mount_state \<Rightarrow> (command_error + unit) \<times> 'a mount_state"
    by (rule exI [of _ "\<lambda>_. True"]) simp
  have mapped: "\<exists>P. edits E P f \<and> P (mount_fs E (m, snd s)) \<Longrightarrow>
      \<exists>P. edits E P (mapS_err (mount_failed X) f) \<and> P (mount_fs E (m, snd s))" for f :: "'a mount_state \<Rightarrow> (mount_error + unit) \<times> 'a mount_state"
    by (blast intro: edits_mapS_err)
  show ?thesis
  proof (cases c)
    case (DeleteBucket t)
    have "edits E P (mount_rm E (components ''/''))" for P
      by (intro edits_unmoved) (simp add: root_not_removed)
    then show ?thesis by (simp only: DeleteBucket command_edit.simps) (intro always edits_mapS_err)
  next
    case (AddFile t p b)
    then show ?thesis using valid by (simp only: command_edit.simps paths_valid.simps) (intro always edits_mapS_err edits_add_text laws)
  next
    case (UpdateFile t p b)
    then have clear: "head_clear E cn i p s" using valid by simp
    have edit: "edits E (no_file_above ns) (replace_edit E (components p) b)" if "components p = abs_path (ns @ [x])" for ns x
      using edits_replace [OF laws] that by simp
    show ?thesis
      unfolding UpdateFile command_edit.simps by (rule mapped [OF clear_cases [OF clear head edit edits_relative(3)]])
  next
    case (DeletePath t p)
    then have clear: "head_clear E cn i p s" using valid by simp
    have edit: "edits E (no_file_above ns) (mount_rm E (components p))" if "components p = abs_path (ns @ [x])" for ns x
      using edits_rm [OF laws] that by simp
    show ?thesis
      unfolding DeletePath command_edit.simps by (rule mapped [OF clear_cases [OF clear head edit edits_relative(1)]])
  next
    case (PublishBucket t)
    show ?thesis unfolding PublishBucket command_edit.simps by (intro always edits_lift)
  next
    case (Mkdir t p)
    then show ?thesis using valid by (simp only: command_edit.simps paths_valid.simps) (intro always edits_mapS_err edits_mkdir_text laws)
  next
    case (UploadNativeFiles t p fs)
    then show ?thesis using valid by (simp only: command_edit.simps paths_valid.simps) (intro always edits_upload laws)
  qed (use valid in \<open>simp_all only: command_edit.simps paths_valid.simps\<close>, (intro mapped edits_mv_text [OF laws _ _ head]; simp)+)
qed

lemma command_moves:
  assumes laws: "mount_laws E" and sv: "service_ok E (sql_provider cn) sql_ok (di_service d)"
    and valid: "command_valid E cn X (di_service d) c"
    and run: "run_command E (sql_provider cn) X c (Some d) = (r, app)"
  shows "\<exists>i s'. app = Some (d\<lparr>di_service := s'\<rparr>) \<and> moved_on E (sql_provider cn) sql_ok i (di_service d) s'"
proof -
  obtain pub where "run_command E (sql_provider cn) X c = bucket_command E (sql_provider cn) X (command_bucket c) pub (command_edit E X c)"
    using run_command_edit by blast
  then have run': "bucket_command E (sql_provider cn) X (command_bucket c) pub (command_edit E X c) (Some d) = (r, app)"
    using run by simp
  show ?thesis
  proof (rule bucket_command_moves [OF laws sv _ _ run'])
    show "room_for E cn i (di_service d)" if "uuid_parse X (command_bucket c) = Some i" for i
      using valid that by (simp add: command_valid_def)
    show "\<exists>P. edits E P (command_edit E X c) \<and> P (mount_fs E (m, snd (di_service d)))"
      if "uuid_parse X (command_bucket c) = Some i" "head_at E cn i (di_service d) m" for i m
      using valid that(1) by (intro command_edits [OF laws _ that(2)]) (simp add: command_valid_def)
  qed
qed

lemma moved_keeps:
  assumes "mount_laws E" and "service_ok E L ok s" and "moved_on E L ok j s s'"
  shows "service_ok E L ok s'" and "peer_mount E L i s = Inr m \<Longrightarrow> \<exists>m'. peer_mount E L i s' = Inr m'"
  using service_moves_on [OF mount_laws_blob [OF assms(1)] assms(2,3)]
    moved_on_bucket [OF mount_laws_blob [OF assms(1)] assms(3) service_holds [OF assms(2)]]
  by (auto simp: holds_bucket_def)

text \<open>A daemon that serves the API and the desktop.\<close>

inductive session ::
  "('w, 'z) mount_ext_scheme \<Rightarrow> (unique_constraint \<Rightarrow> string option) \<Rightarrow> 'x desktop_ext_scheme \<Rightarrow>
     (database, 'w) daemon_inner \<Rightarrow> (database, 'w) daemon_inner \<Rightarrow> bool"
  for E cn X d where
  opened: "session E cn X d d"
| requested: "session E cn X d d1 \<Longrightarrow> request_valid E cn X (di_service d1) req \<Longrightarrow>
    post_route E (sql_provider cn) X req (di_service d1) = (a, s2) \<Longrightarrow> session E cn X d (d1\<lparr>di_service := s2\<rparr>)"
| commanded: "session E cn X d d1 \<Longrightarrow> command_valid E cn X (di_service d1) c \<Longrightarrow>
    run_command E (sql_provider cn) X c (Some d1) = (r, Some d2) \<Longrightarrow> session E cn X d d2"

text \<open>
  C5: an owner keeps access to its buckets. A service that owns every bucket in its log, with all of their files
  readable and pinned, stays such a service in every sequence of valid requests to the bucket API and of valid desktop
  commands, in any order and whatever they answer; a bucket that could be mounted before still can. A request
  is valid when its paths lead to something below the root without \<open>..\<close> and what it removes or replaces does not lie
  below a file, when the height of the bucket fits the log, and when it does not share a bucket with the peer itself
  as a mirror.
\<close>

theorem session_keeps_buckets:
  assumes "mount_laws E" and "service_ok E (sql_provider cn) sql_ok (di_service d)" and "session E cn X d d'"
  shows "service_ok E (sql_provider cn) sql_ok (di_service d') \<and>
    (peer_mount E (sql_provider cn) i (di_service d) = Inr m \<longrightarrow> (\<exists>m'. peer_mount E (sql_provider cn) i (di_service d') = Inr m'))"
  using assms(3)
proof induction
  case opened
  then show ?case using assms(2) by blast
next
  case (requested d1 req a s2)
  then have sv: "service_ok E (sql_provider cn) sql_ok (di_service d1)" by blast
  from route_settled [OF assms(1) sv requested(2,3)] obtain j where moved: "moved_on E (sql_provider cn) sql_ok j (di_service d1) s2"
    by (auto simp: settled_def)
  then show ?case
    using moved_keeps [OF assms(1) sv moved] requested.IH by auto
next
  case (commanded d1 c r d2)
  then have sv: "service_ok E (sql_provider cn) sql_ok (di_service d1)" by blast
  from command_moves [OF assms(1) sv commanded(2,3)] obtain j s' where "d2 = d1\<lparr>di_service := s'\<rparr>"
    and moved: "moved_on E (sql_provider cn) sql_ok j (di_service d1) s'" by blast
  then show ?case
    using moved_keeps [OF assms(1) sv moved] commanded.IH by auto
qed

section \<open>Deleting a bucket\<close>

text \<open>
  A bucket is never deleted. The command to delete a bucket removes the root of its head, which the mount
  always refuses: whatever the state, the command ends in an error and changes nothing.
\<close>

theorem delete_bucket_refused:
  "delete_bucket_command E L X t app =
     (case app of
        None \<Rightarrow> Inl (Failed ''Daemon not started'')
      | Some d \<Rightarrow>
          (case uuid_parse X t of
             None \<Rightarrow> Inl (Failed (''Invalid bucket ID: '' @ uuid_error X t))
           | Some i \<Rightarrow>
               (case peer_mount E L i (di_service d) of
                  Inl e \<Rightarrow> Inl (mount_failed X e)
                | Inr _ \<Rightarrow> Inl (Failed (mount_error_text X (MtDefault ''Cannot remove root''))))), app)"
proof (cases app)
  case (Some d)
  then show ?thesis
  proof (cases "uuid_parse X t")
    case (Some i)
    have "d\<lparr>di_service := (fst (di_service d), snd (di_service d))\<rparr> = d" by simp
    then show ?thesis
      unfolding delete_bucket_command_def \<open>app = Some d\<close> bucket_command_run [OF Some]
      by (cases "peer_mount E L i (di_service d)")
        (simp_all add: edit_bucket_def mapS_err_def root_not_removed mount_failed_def Some)
  qed (simp add: delete_bucket_command_def bucket_command_def get_service_def parse_bucket_id_def)
qed (simp add: delete_bucket_command_def bucket_command_def get_service_def)

section \<open>Uploads\<close>

lemma upload_dest_path_str:
  assumes "list_all good_name ds" and "good_name n"
  shows "upload_dest (path_str ds) n = path_str (ds @ [n])"
proof (cases "ds = []")
  case False
  then have "good_name (last ds)" using assms(1) by (simp add: list_all_iff)
  then have "last (path_str ds) \<noteq> CHR ''/''"
    using False last_in_set by (cases ds rule: rev_cases) (fastforce simp: path_str_def good_name_def)+
  then show ?thesis
    using False by (auto simp: upload_dest_def path_str_def)
qed (simp add: upload_dest_def path_str_def)

lemma upload_edit_writes:
  assumes laws: "mount_laws E" and good: "list_all good_name ds" and names: "list_all (good_name \<circ> uploaded_name) fs"
    and ok: "mount_ok E s" and run: "upload_edit E X (path_str ds) fs s = (Inr (), s')"
  shows "mount_fs E s' = fold (\<lambda>f. fs_set (ds @ [uploaded_name f]) (fs_file (projr (read_file X f)))) fs (mount_fs E s) \<and>
    list_all (\<lambda>f. \<not> isl (read_file X f)) fs"
  using names ok run
proof (induction fs arbitrary: s)
  case (Cons f fs)
  let ?p = "upload_dest (path_str ds) (uploaded_name f)"
  have p: "components ?p = abs_path (ds @ [uploaded_name f])"
    using upload_dest_path_str [OF good] components_path_str [of "ds @ [uploaded_name f]"] Cons.prems(1) good by (simp add: list_all_iff)
  from Cons.prems(3) obtain b s1 where read: "read_file X f = Inr b"
    and add: "mount_add E (abs_path (ds @ [uploaded_name f])) (Inr b) s = (Inr (), s1)"
    and rest: "upload_edit E X (path_str ds) fs s1 = (Inr (), s')"
    unfolding p [symmetric] by (auto simp: Let_def uploaded_name_def res_simps)
  have "mount_ok E s1" "mount_fs E s1 = fs_set (ds @ [uploaded_name f]) (fs_file b) (mount_fs E s)"
    using add_op.success [OF laws Cons.prems(2) TrueI add] by auto
  then show ?case
    using Cons.IH [OF _ _ rest] Cons.prems(1) read by auto
qed (auto simp: liftR_def)

lemma fold_uploads:
  assumes "distinct (map uploaded_name fs)" and "f \<in> set fs"
  shows "fold (\<lambda>f. fs_set (ds @ [uploaded_name f]) (fs_file (D f))) fs F (ds @ [uploaded_name f]) = Some (FFile (D f))"
  using assms
proof (induction fs arbitrary: F rule: rev_induct)
  case (snoc g fs)
  show ?case
  proof (cases "f = g")
    case False
    then have f: "f \<in> set fs" using snoc.prems(2) by simp
    moreover have "uploaded_name f \<noteq> uploaded_name g"
      using imageI [OF f, of uploaded_name] snoc.prems(1) by (metis distinct_append distinct.simps(2) map_append list.simps(9) list.set_map not_distinct_conv_prefix)
    ultimately show ?thesis using snoc by (simp add: fs_set_def)
  qed (simp add: fs_set_def fs_file_def)
qed simp

text \<open>A file of the head is read by its owner.\<close>

lemma cat_command_reads:
  assumes id: "uuid_parse X t = Some i" and holds: "holds_bucket E L i (di_service d) m"
    and good: "list_all good_name (ns @ [x])" and there: "mount_fs E (m, snd (di_service d)) (ns @ [x]) = Some (FFile b)"
  shows "\<exists>mime. cat_command E L X t (path_str (ns @ [x])) (Some d) =
    Inr \<lparr>ct_content = b, ct_mime_type = mime, ct_size = length b\<rparr>"
proof -
  have ok: "mount_ok E (m, snd (di_service d))" using holds by (simp add: holds_bucket_def)
  have p: "components (path_str (ns @ [x])) = abs_path (ns @ [x])"
    using components_path_str [of "ns @ [x]"] good by (simp add: list_all_iff)
  obtain nl where "mount_get E (abs_path (ns @ [x])) (m, snd (di_service d)) = Inr nl"
    using get_existing [of E "set (mi_pins m)" "(m, snd (di_service d))" ns x] ok there by (auto simp: mount_ok_def)
  then show ?thesis
    using read_by_owner [OF holds] cat_file [OF ok there] p id
    by (simp add: cat_command_def read_command_def get_service_def parse_bucket_id_def read_content_def)
qed

text \<open>
  What an upload may lead to: the next version of the bucket, one higher and unpublished, with exactly the
  given files put into the directory in their order, all of them read from the disk.
\<close>

definition uploaded_version ::
  "('w, 'z) mount_ext_scheme \<Rightarrow> (unique_constraint \<Rightarrow> string option) \<Rightarrow> 'x desktop_ext_scheme \<Rightarrow> uuid \<Rightarrow> string list \<Rightarrow>
     string list \<Rightarrow> mount_inner \<Rightarrow> 'w \<Rightarrow> (database, 'w) peer_state \<Rightarrow> bool" where
  "uploaded_version E cn X i ds fs m w s' \<longleftrightarrow>
     list_all (\<lambda>f. \<not> isl (read_file X f)) fs \<and>
     (\<exists>m'. peer_mount E (sql_provider cn) i s' = Inr m' \<and> mi_height m' = mi_height m + 1 \<and>
        \<not> is_published (mi_manifest m') \<and>
        mount_fs E (m', snd s') =
          fold (\<lambda>f. fs_set (ds @ [uploaded_name f]) (fs_file (projr (read_file X f)))) fs (mount_fs E (m, w)))"

text \<open>
  C6: an upload to a bucket that the peer owns is all or nothing. When the command to upload files from the disk
  succeeds, the next version of the bucket has exactly the given files in the directory, with the bytes on the
  disk, beside everything that was there (of two files of the same name the later one); it is one higher and
  unpublished, and when the names are distinct every file is read back by the command for reading. When the
  command ends in an error, no head has moved. When it panics, the heads of the other buckets have not moved,
  and the bucket stands where it stood or at the version with all of the files.
\<close>

theorem upload_all_or_nothing:
  assumes laws: "mount_laws E" and log: "sql_ok (pr_log (fst (di_service d)))"
    and own: "holds_bucket E (sql_provider cn) i (di_service d) m"
    and id: "uuid_parse X t = Some i" and room: "room_for E cn i (di_service d)"
    and good: "list_all good_name ds" "list_all (good_name \<circ> uploaded_name) fs"
    and run: "upload_native_files_command E (sql_provider cn) X t (path_str ds) fs (Some d) = (r, Some d')"
  shows "(\<forall>j. j \<noteq> i \<longrightarrow> lp_head (sql_provider cn) (pr_log (fst (di_service d'))) j =
      lp_head (sql_provider cn) (pr_log (fst (di_service d))) j) \<and>
    (case r of
       Inr _ \<Rightarrow> uploaded_version E cn X i ds fs m (snd (di_service d)) (di_service d') \<and>
         (distinct (map uploaded_name fs) \<longrightarrow> (\<forall>f \<in> set fs. \<exists>mime.
            cat_command E (sql_provider cn) X t (path_str (ds @ [uploaded_name f])) (Some d') =
              Inr \<lparr>ct_content = projr (read_file X f), ct_mime_type = mime, ct_size = length (projr (read_file X f))\<rparr>))
     | Inl (Failed e) \<Rightarrow>
         lp_head (sql_provider cn) (pr_log (fst (di_service d'))) i = lp_head (sql_provider cn) (pr_log (fst (di_service d))) i
     | Inl (CommandPanic e) \<Rightarrow>
         lp_head (sql_provider cn) (pr_log (fst (di_service d'))) i = lp_head (sql_provider cn) (pr_log (fst (di_service d))) i \<or>
         uploaded_version E cn X i ds fs m (snd (di_service d)) (di_service d'))"
proof -
  let ?s = "di_service d" and ?f = "upload_edit E X (path_str ds) fs" and ?L = "sql_provider cn"
  obtain r1 s' where e: "edit_bucket E ?L (mount_failed X) i False ?f ?s = (r1, s')" by (rule prod.exhaust)
  have d': "d' = d\<lparr>di_service := s'\<rparr>" and r: "r = (case r1 of Inl e \<Rightarrow> Inl e | Inr _ \<Rightarrow> Inr ())"
    using run e unfolding upload_native_files_command_def bucket_command_run [OF id] by auto
  have plain: "full_plain_path (upload_dest (path_str ds) (uploaded_name f))" if "f \<in> set fs" for f
    using upload_dest_path_str [OF good(1)] components_path_str [of "ds @ [uploaded_name f]"] good that
    by (auto simp: full_plain_path_def list_all_iff)
  have edit: "edits E P ?f" for P
    using plain by (intro edits_upload laws) (simp add: list_all_iff)
  have ok: "mount_ok E (m, snd ?s)" and fits: "has_room sql_fits (mi_height m)"
    using own room by (simp_all add: holds_bucket_def room_for_def)
  have kept: "mount_ok E s1 \<and> same_bucket E m (fst s1) \<and> keeps_blobs E (snd ?s) (snd s1)" if "?f (m, snd ?s) = (r2, s1)" for r2 s1
    using editsD [OF edit ok TrueI that] by simp
  note out = sql_peer.edit_outcome [OF laws log own fits _ e]
  have moved: "moved_on E ?L sql_ok i ?s s'" by (rule out(1)) (rule kept)
  have version: "uploaded_version E cn X i ds fs m (snd ?s) s'"
    if "?f (m, snd ?s) = (Inr (), s1)" "holds_bucket E ?L i s' m'" "mi_height m' = mi_height m + 1"
      "mount_fs E (m', snd s') = mount_fs E s1" "is_published (mi_manifest m') = False" for s1 m'
    using upload_edit_writes [OF laws good ok that(1)] that(2-5) by (auto simp: uploaded_version_def holds_bucket_def)
  have others: "lp_head ?L (pr_log (fst s')) j = lp_head ?L (pr_log (fst ?s)) j" if "j \<noteq> i" for j
    using moved that by (simp add: moved_on_def)
  show ?thesis
  proof (cases r1)
    case (Inl er)
    have "lp_head ?L (pr_log (fst s')) i = lp_head ?L (pr_log (fst ?s)) i" if "er = Failed msg" for msg
      by (rule out(2) [OF _ Inl]) (use kept that in \<open>auto simp: mount_failed_def\<close>)
    moreover have "uploaded_version E cn X i ds fs m (snd ?s) s'" if "lp_head ?L (pr_log (fst s')) i \<noteq> lp_head ?L (pr_log (fst ?s)) i"
    proof -
      from out(4) [OF _ that] kept have "\<exists>x s1 m'. ?f (m, snd ?s) = (Inr x, s1) \<and> holds_bucket E ?L i s' m' \<and>
          mi_height m' = mi_height m + 1 \<and> mount_fs E (m', snd s') = mount_fs E s1 \<and> is_published (mi_manifest m') = False"
        by blast
      then show ?thesis
        using version by auto
    qed
    ultimately show ?thesis using r d' Inl others by (auto split: command_error.split)
  next
    case (Inr x)
    then obtain l where "r1 = Inr ((), l)" by (cases x) simp
    then have "\<exists>s1 m'. ?f (m, snd ?s) = (Inr (), s1) \<and> holds_bucket E ?L i s' m' \<and> mi_link m' = l \<and>
        mi_height m' = mi_height m + 1 \<and> mount_fs E (m', snd s') = mount_fs E s1 \<and> is_published (mi_manifest m') = False"
      by (rule out(3) [rotated]) (rule kept)
    then obtain s1 m' where m': "?f (m, snd ?s) = (Inr (), s1)" "holds_bucket E ?L i s' m'" "mi_height m' = mi_height m + 1"
      "mount_fs E (m', snd s') = mount_fs E s1" "is_published (mi_manifest m') = False"
      by blast
    note fs = upload_edit_writes [OF laws good ok m'(1), folded m'(4)]
    have cat: "\<exists>mime. cat_command E ?L X t (path_str (ds @ [uploaded_name f])) (Some d') =
           Inr \<lparr>ct_content = projr (read_file X f), ct_mime_type = mime, ct_size = length (projr (read_file X f))\<rparr>"
      if "distinct (map uploaded_name fs)" "f \<in> set fs" for f
      using cat_command_reads [OF id, of E ?L d' m' ds "uploaded_name f"] m'(2) good that fs
        fold_uploads [OF that, of ds "\<lambda>f. projr (read_file X f)"] by (simp add: d' list_all_iff)
    then show ?thesis
      using version [OF m'] others r d' Inr by simp
  qed
qed

section \<open>Witnesses\<close>

definition sample_desktop :: desktop_ext where
  "sample_desktop = api_ext.extend sample_api
     \<lparr>uuid_error = (\<lambda>t. []), node_id_text = (\<lambda>k. []), status_line = (\<lambda>n. []),
      read_file = (\<lambda>t. if t = ''f'' then Inr [7] else Inl []), dir_exists = (\<lambda>p. True)\<rparr>"

definition sample_daemon :: "('l, 'w) peer_state \<Rightarrow> ('l, 'w) daemon_inner" where
  "sample_daemon s = \<lparr>di_service = s, di_api_port = 5001, di_gateway_port = 8080, di_jax_dir = abs_path [''j'']\<rparr>"

lemma sample_desktop_simps [simp]: "uuid_parse sample_desktop t = Some 0" "read_file sample_desktop ''f'' = Inr [7]"
  "di_service (sample_daemon s) = s"
  by (simp_all add: sample_desktop_def api_ext.extend_def sample_api_def gateway_ext.extend_def sample_daemon_def)

theorem desktop_matches_api_witness:
  "accepted_alike (sample_daemon one_bucket) (mkdir_handler api_store (sql_provider (\<lambda>_. None)) 0 ''/d'' one_bucket)
     (mkdir_command api_store (sql_provider (\<lambda>_. None)) sample_desktop ''0'' ''/d'' (Some (sample_daemon one_bucket)))"
  using desktop_matches_api [of sample_desktop "''0''" 0 "sample_daemon one_bucket" api_store "sql_provider (\<lambda>_. None)" "''/d''"] by simp

theorem session_keeps_buckets_witness:
  "service_ok api_store (sql_provider (\<lambda>_. None)) sql_ok one_bucket"
proof -
  let ?d = "sample_daemon new_service"
  have "post_route api_store (sql_provider (\<lambda>_. None)) sample_desktop (PostCreate 0 5 ''b'') (di_service ?d) =
      (Json 201 (BCreate \<lparr>cr_bucket_id = 0, cr_name = ''b'', cr_created_at = 5\<rparr>), one_bucket)"
    by (simp add: bucket_created answer_def)
  from session.requested [OF session.opened _ this]
  have "session api_store (\<lambda>_. None) sample_desktop ?d (?d\<lparr>di_service := one_bucket\<rparr>)" by simp
  from session_keeps_buckets [OF api_store_laws _ this, THEN conjunct1] show ?thesis
    by (simp add: new_service_ok)
qed

lemma uploaded_f [simp]: "uploaded_name ''f'' = ''f''" "good_name ''f''" "path_str [''f''] = ''/f''"
  by (simp_all add: uploaded_name_def name_or_def components_def part_comp_def file_name_def good_name_def path_str_def is_whitespace_def)

lemma upload_command_runs:
  "\<exists>s'. upload_native_files_command api_store (sql_provider cn) sample_desktop ''0'' ''/'' [''f''] (Some (sample_daemon one_bucket)) =
     (Inr (), Some ((sample_daemon one_bucket)\<lparr>di_service := s'\<rparr>))"
proof -
  have p: "components (upload_dest ''/'' (uploaded_name ''f'')) = abs_path [''f'']"
    by (simp add: upload_dest_def upload_path [simplified])
  have edit: "upload_edit api_store sample_desktop ''/'' [''f''] (sync_head, sync_world) = (Inr (), (upload_mount, upload_world))"
    using file_added by (simp add: Let_def p [unfolded uploaded_name_def] bindS_def liftR_def mapS_err_def)
  obtain p' s1 where "save_mount api_store (sql_provider cn) False sync_peer (upload_mount, upload_world) =
      (Inr (link_new LD_CBOR_CODEC (replicate 32 19)), (p', s1))"
    by (rule upload_saved)
  then have "edit_bucket api_store (sql_provider cn) (mount_failed sample_desktop) 0 False (upload_edit api_store sample_desktop ''/'' [''f'']) one_bucket =
      (Inr ((), link_new LD_CBOR_CODEC (replicate 32 19)), (p', snd s1))"
    using one_bucket_mounts [of cn 0] unfolding edit_bucket_def one_bucket_def snd_conv fst_conv
    by (simp only: simp_thms if_True sum.case prod.case edit snd_conv)
  then show ?thesis
    unfolding upload_native_files_command_def bucket_command_run [OF sample_desktop_simps(1)] sample_desktop_simps(3)
    by (intro exI [of _ "(p', snd s1)"]) simp
qed

theorem upload_all_or_nothing_witness:
  "\<exists>app mime. upload_native_files_command api_store (sql_provider (\<lambda>_. None)) sample_desktop ''0'' ''/'' [''f'']
       (Some (sample_daemon one_bucket)) = (Inr (), app) \<and>
     cat_command api_store (sql_provider (\<lambda>_. None)) sample_desktop ''0'' ''/f'' app =
       Inr \<lparr>ct_content = [7], ct_mime_type = mime, ct_size = 1\<rparr>"
proof -
  obtain s' where run: "upload_native_files_command api_store (sql_provider (\<lambda>_. None)) sample_desktop ''0'' (path_str []) [''f'']
      (Some (sample_daemon one_bucket)) = (Inr (), Some ((sample_daemon one_bucket)\<lparr>di_service := s'\<rparr>))"
    using upload_command_runs [of "\<lambda>_. None"] by auto
  show ?thesis
    using upload_all_or_nothing [OF api_store_laws _ _ _ _ _ _ run] one_bucket_holds(1) [of "\<lambda>_. None"] one_bucket_holds(2)
      one_bucket_room run
    by auto
qed

end
