(* ===== verification/Mount_Api.thy ===== *)
theory Mount_Api
  imports Desktop
begin

text \<open>
  The two interfaces to the mount manager: the HTTP handlers of \<open>daemon/src/http_server/api/v0/mounts/*.rs\<close> and the
  commands of the desktop application in \<open>desktop/src-tauri/src/commands/mount.rs\<close>, in a build with
  FUSE on Linux. Both act on the manager of theory \<open>Mount_Manager\<close>. The desktop also has the simplified
  commands that choose a mount point by themselves.
\<close>

record mounts_ext = desktop_ext +
  manager_error_text :: "manager_error \<Rightarrow> string"
  time_text :: "int \<Rightarrow> string"
  is_alphanumeric :: "char \<Rightarrow> bool"

section \<open>The HTTP handlers\<close>

record mount_info =
  mo_mount_id :: uuid
  mo_bucket_id :: uuid
  mo_mount_point :: string
  mo_enabled :: bool
  mo_auto_mount :: bool
  mo_read_only :: bool
  mo_cache_size_mb :: "32 word"
  mo_cache_ttl_secs :: "32 word"
  mo_status :: string
  mo_error_message :: "string option"
  mo_created_at :: string
  mo_updated_at :: string

definition mount_info_of :: "'x mounts_ext_scheme \<Rightarrow> fuse_mount \<Rightarrow> mount_info" where
  "mount_info_of X r =
     \<lparr>mo_mount_id = fm_mount_id r, mo_bucket_id = fm_bucket_id r, mo_mount_point = fm_mount_point r,
      mo_enabled = fm_enabled r, mo_auto_mount = fm_auto_mount r, mo_read_only = fm_read_only r,
      mo_cache_size_mb = as_u32 (fm_cache_size_mb r), mo_cache_ttl_secs = as_u32 (fm_cache_ttl_secs r),
      mo_status = status_as_str (status_from_str (fm_status r)), mo_error_message = fm_error_message r,
      mo_created_at = time_text X (fm_created_at r), mo_updated_at = time_text X (fm_updated_at r)\<rparr>"

record create_mount_request =
  cm_bucket_id :: uuid
  cm_mount_point :: string
  cm_auto_mount :: bool
  cm_read_only :: bool
  cm_cache_size_mb :: "32 word option"
  cm_cache_ttl_secs :: "32 word option"

record update_mount_body =
  um_mount_point :: "string option"
  um_enabled :: "bool option"
  um_auto_mount :: "bool option"
  um_read_only :: "bool option"
  um_cache_size_mb :: "32 word option"
  um_cache_ttl_secs :: "32 word option"

datatype mounts_error = ManagerUnavailable | NoSuchMount uuid | MountsManager manager_error

text \<open>An operation of the manager, when there is one.\<close>

definition on_manager ::
  "'e \<Rightarrow> (manager_error \<Rightarrow> 'e) \<Rightarrow> ('w, 'o, 'a) managed \<Rightarrow> ('w, 'o) mount_manager option \<Rightarrow>
     ('e + 'a) \<times> ('w, 'o) mount_manager option" where
  "on_manager none err f mgr =
     (case mgr of
        None \<Rightarrow> (Inl none, None)
      | Some st \<Rightarrow> (case f st of (r, st') \<Rightarrow> (map_err err r, Some st')))"

definition list_mounts_handler ::
  "'x mounts_ext_scheme \<Rightarrow> ('w, 'o) mount_manager option \<Rightarrow>
     (mounts_error + nat \<times> mount_info list) \<times> ('w, 'o) mount_manager option" where
  "list_mounts_handler X =
     bindS (on_manager ManagerUnavailable MountsManager (\<lambda>st. (manager_list st, st))) (\<lambda>ms.
     liftR (Inr (200, map (mount_info_of X) ms)))"

definition get_mount_handler ::
  "'x mounts_ext_scheme \<Rightarrow> uuid \<Rightarrow> ('w, 'o) mount_manager option \<Rightarrow>
     (mounts_error + nat \<times> mount_info) \<times> ('w, 'o) mount_manager option" where
  "get_mount_handler X i =
     bindS (on_manager ManagerUnavailable MountsManager (\<lambda>st. (manager_get i st, st))) (\<lambda>r.
     bindS (liftR (ok_or (NoSuchMount i) r)) (\<lambda>m. liftR (Inr (200, mount_info_of X m))))"

definition create_mount_handler ::
  "'x mounts_ext_scheme \<Rightarrow> 'o os_ext \<Rightarrow> uuid \<Rightarrow> create_mount_request \<Rightarrow> ('w, 'o) mount_manager option \<Rightarrow>
     (mounts_error + nat \<times> mount_info) \<times> ('w, 'o) mount_manager option" where
  "create_mount_handler X OS new_id req =
     bindS (on_manager ManagerUnavailable MountsManager
       (create_mount OS new_id (cm_bucket_id req) (cm_mount_point req) (cm_auto_mount req) (cm_read_only req)
          (cm_cache_size_mb req) (cm_cache_ttl_secs req))) (\<lambda>m.
     liftR (Inr (201, mount_info_of X m)))"

definition update_mount_handler ::
  "'x mounts_ext_scheme \<Rightarrow> uuid \<Rightarrow> update_mount_body \<Rightarrow> ('w, 'o) mount_manager option \<Rightarrow>
     (mounts_error + nat \<times> mount_info) \<times> ('w, 'o) mount_manager option" where
  "update_mount_handler X i req =
     bindS (on_manager ManagerUnavailable MountsManager
       (manager_update i (um_mount_point req) (um_enabled req) (um_auto_mount req) (um_read_only req)
          (um_cache_size_mb req) (um_cache_ttl_secs req))) (\<lambda>r.
     bindS (liftR (ok_or (NoSuchMount i) r)) (\<lambda>m. liftR (Inr (200, mount_info_of X m))))"

definition delete_mount_handler ::
  "'o os_ext \<Rightarrow> uuid \<Rightarrow> ('w, 'o) mount_manager option \<Rightarrow> (mounts_error + nat \<times> bool) \<times> ('w, 'o) mount_manager option" where
  "delete_mount_handler OS i =
     bindS (on_manager ManagerUnavailable MountsManager (manager_delete OS i)) (\<lambda>deleted. liftR (Inr (200, deleted)))"

definition start_mount_handler ::
  "'o os_ext \<Rightarrow> ('w, 'z) mount_ext_scheme \<Rightarrow> database log_provider \<Rightarrow> int \<Rightarrow> 32 word \<times> 32 word \<Rightarrow> uuid \<Rightarrow>
     ('w, 'o) mount_manager option \<Rightarrow> (mounts_error + nat \<times> bool) \<times> ('w, 'o) mount_manager option" where
  "start_mount_handler OS E L now user i =
     bindS (on_manager ManagerUnavailable MountsManager (start OS E L now user i)) (\<lambda>_. liftR (Inr (200, True)))"

definition stop_mount_handler ::
  "'o os_ext \<Rightarrow> uuid \<Rightarrow> ('w, 'o) mount_manager option \<Rightarrow> (mounts_error + nat \<times> bool) \<times> ('w, 'o) mount_manager option" where
  "stop_mount_handler OS i =
     bindS (on_manager ManagerUnavailable MountsManager (stop OS i)) (\<lambda>_. liftR (Inr (200, True)))"

text \<open>
  The response to an error. Creating, updating, starting and stopping answer errors of the manager with
  \<open>400\<close>, the other requests with \<open>500\<close>.
\<close>

fun mounts_error_response :: "'x mounts_ext_scheme \<Rightarrow> nat \<Rightarrow> mounts_error \<Rightarrow> served" where
  "mounts_error_response X status ManagerUnavailable = plain_response 503 ''Mount manager not available''"
| "mounts_error_response X status (NoSuchMount i) = plain_response 404 (''Mount not found: '' @ uuid_text X i)"
| "mounts_error_response X status (MountsManager e) =
     (case e of ManagerPanic msg \<Rightarrow> Panicked msg | _ \<Rightarrow> plain_response status (''Mount error: '' @ manager_error_text X e))"

section \<open>The desktop commands\<close>

text \<open>A started daemon: its database and, once set up, its manager, which works on the same database.\<close>

record ('w, 'o) mount_daemon =
  md_database :: database
  md_manager :: "('w, 'o) mount_manager option"

definition daemon_database :: "('w, 'o) mount_daemon \<Rightarrow> database" where
  "daemon_database d = (case md_manager d of Some st \<Rightarrow> pr_log (mm_peer st) | None \<Rightarrow> md_database d)"

definition manager_failed :: "'x mounts_ext_scheme \<Rightarrow> string \<Rightarrow> manager_error \<Rightarrow> command_error" where
  "manager_failed X what e =
     (case e of ManagerPanic msg \<Rightarrow> CommandPanic msg
      | _ \<Rightarrow> Failed (''Failed to '' @ what @ '': '' @ manager_error_text X e))"

definition parse_id :: "'x mounts_ext_scheme \<Rightarrow> string \<Rightarrow> string \<Rightarrow> command_error + uuid" where
  "parse_id X what t = ok_or (Failed (''Invalid '' @ what @ '' ID: '' @ uuid_error X t)) (uuid_parse X t)"

definition with_manager ::
  "(('w, 'o) mount_manager \<Rightarrow> (command_error + 'a) \<times> ('w, 'o) mount_manager) \<Rightarrow> ('w, 'o) mount_daemon option \<Rightarrow>
     (command_error + 'a) \<times> ('w, 'o) mount_daemon option" where
  "with_manager f app =
     (case app of
        None \<Rightarrow> (Inl (Failed ''Daemon not started''), None)
      | Some d \<Rightarrow>
          (case md_manager d of
             None \<Rightarrow> (Inl (Failed ''Mount manager not available''), app)
           | Some st \<Rightarrow> (case f st of (r, st') \<Rightarrow> (r, Some (d\<lparr>md_manager := Some st'\<rparr>)))))"

definition require_daemon :: "('w, 'o) mount_daemon option \<Rightarrow> (command_error + unit) \<times> ('w, 'o) mount_daemon option" where
  "require_daemon app = (case app of None \<Rightarrow> (Inl (Failed ''Daemon not started''), app) | Some _ \<Rightarrow> (Inr (), app))"

record desktop_mount_info =
  dm_mount_id :: string
  dm_bucket_id :: string
  dm_mount_point :: string
  dm_enabled :: bool
  dm_auto_mount :: bool
  dm_read_only :: bool
  dm_cache_size_mb :: "32 word"
  dm_cache_ttl_secs :: "32 word"
  dm_status :: string
  dm_error_message :: "string option"
  dm_created_at :: string
  dm_updated_at :: string

definition fuse_mount_to_info :: "'x mounts_ext_scheme \<Rightarrow> fuse_mount \<Rightarrow> desktop_mount_info" where
  "fuse_mount_to_info X r =
     \<lparr>dm_mount_id = uuid_text X (fm_mount_id r), dm_bucket_id = uuid_text X (fm_bucket_id r), dm_mount_point = fm_mount_point r,
      dm_enabled = fm_enabled r, dm_auto_mount = fm_auto_mount r, dm_read_only = fm_read_only r,
      dm_cache_size_mb = as_u32 (fm_cache_size_mb r), dm_cache_ttl_secs = as_u32 (fm_cache_ttl_secs r),
      dm_status = status_as_str (status_from_str (fm_status r)), dm_error_message = fm_error_message r,
      dm_created_at = time_text X (fm_created_at r), dm_updated_at = time_text X (fm_updated_at r)\<rparr>"

definition list_all_mounts :: "'x mounts_ext_scheme \<Rightarrow> ('w, 'o) mount_manager \<Rightarrow> command_error + fuse_mount list" where
  "list_all_mounts X st = map_err (manager_failed X ''list mounts'') (manager_list st)"

definition list_mounts_command ::
  "'x mounts_ext_scheme \<Rightarrow> ('w, 'o) mount_daemon option \<Rightarrow>
     (command_error + desktop_mount_info list) \<times> ('w, 'o) mount_daemon option" where
  "list_mounts_command X =
     with_manager (\<lambda>st. (bindR (list_all_mounts X st) (\<lambda>ms. Inr (map (fuse_mount_to_info X) ms)), st))"

record create_mount_args =
  ca_mount_bucket :: string
  ca_mount_point :: string
  ca_auto_mount :: bool
  ca_read_only :: bool
  ca_cache_size_mb :: "32 word option"
  ca_cache_ttl_secs :: "32 word option"

definition create_mount_command ::
  "'x mounts_ext_scheme \<Rightarrow> 'o os_ext \<Rightarrow> uuid \<Rightarrow> create_mount_args \<Rightarrow> ('w, 'o) mount_daemon option \<Rightarrow>
     (command_error + desktop_mount_info) \<times> ('w, 'o) mount_daemon option" where
  "create_mount_command X OS new_id req =
     bindS require_daemon (\<lambda>_.
     bindS (liftR (parse_id X ''bucket'' (ca_mount_bucket req))) (\<lambda>i.
     bindS (with_manager (mapS_err (manager_failed X ''create mount'')
       (create_mount OS new_id i (ca_mount_point req) (ca_auto_mount req) (ca_read_only req) (ca_cache_size_mb req)
          (ca_cache_ttl_secs req)))) (\<lambda>m.
     liftR (Inr (fuse_mount_to_info X m)))))"

definition get_mount_command ::
  "'x mounts_ext_scheme \<Rightarrow> string \<Rightarrow> ('w, 'o) mount_daemon option \<Rightarrow>
     (command_error + desktop_mount_info) \<times> ('w, 'o) mount_daemon option" where
  "get_mount_command X t =
     bindS require_daemon (\<lambda>_.
     bindS (liftR (parse_id X ''mount'' t)) (\<lambda>i.
     bindS (with_manager (\<lambda>st. (map_err (manager_failed X ''get mount'') (manager_get i st), st))) (\<lambda>r.
     bindS (liftR (ok_or (Failed ''Mount not found'') r)) (\<lambda>m.
     liftR (Inr (fuse_mount_to_info X m))))))"

definition update_mount_command ::
  "'x mounts_ext_scheme \<Rightarrow> string \<Rightarrow> update_mount_body \<Rightarrow> ('w, 'o) mount_daemon option \<Rightarrow>
     (command_error + desktop_mount_info) \<times> ('w, 'o) mount_daemon option" where
  "update_mount_command X t req =
     bindS require_daemon (\<lambda>_.
     bindS (liftR (parse_id X ''mount'' t)) (\<lambda>i.
     bindS (with_manager (mapS_err (manager_failed X ''update mount'')
       (manager_update i (um_mount_point req) (um_enabled req) (um_auto_mount req) (um_read_only req)
          (um_cache_size_mb req) (um_cache_ttl_secs req)))) (\<lambda>r.
     bindS (liftR (ok_or (Failed ''Mount not found'') r)) (\<lambda>m.
     liftR (Inr (fuse_mount_to_info X m))))))"

definition delete_mount_command ::
  "'x mounts_ext_scheme \<Rightarrow> 'o os_ext \<Rightarrow> string \<Rightarrow> ('w, 'o) mount_daemon option \<Rightarrow>
     (command_error + bool) \<times> ('w, 'o) mount_daemon option" where
  "delete_mount_command X OS t =
     bindS require_daemon (\<lambda>_.
     bindS (liftR (parse_id X ''mount'' t)) (\<lambda>i.
     with_manager (mapS_err (manager_failed X ''delete mount'') (manager_delete OS i))))"

definition start_mount_command ::
  "'x mounts_ext_scheme \<Rightarrow> 'o os_ext \<Rightarrow> ('w, 'z) mount_ext_scheme \<Rightarrow> database log_provider \<Rightarrow> int \<Rightarrow> 32 word \<times> 32 word \<Rightarrow>
     string \<Rightarrow> ('w, 'o) mount_daemon option \<Rightarrow> (command_error + bool) \<times> ('w, 'o) mount_daemon option" where
  "start_mount_command X OS E L now user t =
     bindS require_daemon (\<lambda>_.
     bindS (liftR (parse_id X ''mount'' t)) (\<lambda>i.
     bindS (with_manager (mapS_err (manager_failed X ''start mount'') (start OS E L now user i))) (\<lambda>_.
     liftR (Inr True))))"

definition stop_mount_command ::
  "'x mounts_ext_scheme \<Rightarrow> 'o os_ext \<Rightarrow> string \<Rightarrow> ('w, 'o) mount_daemon option \<Rightarrow>
     (command_error + bool) \<times> ('w, 'o) mount_daemon option" where
  "stop_mount_command X OS t =
     bindS require_daemon (\<lambda>_.
     bindS (liftR (parse_id X ''mount'' t)) (\<lambda>i.
     bindS (with_manager (mapS_err (manager_failed X ''stop mount'') (stop OS i))) (\<lambda>_.
     liftR (Inr True))))"

section \<open>Mount points\<close>

text \<open>The user of the session and a run of \<open>pkexec mkdir -p\<close> with its success and error output.\<close>

record 'o desktop_os = "'o os_ext" +
  os_user :: "string option"
  os_pkexec_mkdir :: "string \<Rightarrow> 'o \<Rightarrow> (string + bool \<times> string) \<times> 'o"

definition get_mount_base_dir :: "('o, 'y) desktop_os_scheme \<Rightarrow> 'o \<Rightarrow> string" where
  "get_mount_base_dir OS os =
     (case os_user OS of
        Some user \<Rightarrow>
          (let media_path = ''/media/'' @ user; run_media_path = ''/run/media/'' @ user in
           if os_path_exists OS media_path os then media_path
           else if os_path_exists OS run_media_path os then run_media_path
           else media_path)
      | None \<Rightarrow> ''/media'')"

definition trim_dashes :: "string \<Rightarrow> string" where
  "trim_dashes s = rev (dropWhile (\<lambda>c. c = CHR ''-'') (rev (dropWhile (\<lambda>c. c = CHR ''-'') s)))"

definition sanitize_mount_name :: "'x mounts_ext_scheme \<Rightarrow> string \<Rightarrow> string" where
  "sanitize_mount_name X name =
     trim_dashes (map (\<lambda>c. if is_alphanumeric X c \<or> c = CHR ''-'' \<or> c = CHR ''_'' then c else CHR ''-'') name)"

text \<open>\<open>Path::join\<close> with a name that does not start with a slash.\<close>

definition join_name :: "string \<Rightarrow> string \<Rightarrow> string" where
  "join_name base n = (if base \<noteq> [] \<and> last base = CHR ''/'' then base @ n else base @ CHR ''/'' # n)"

definition numbered_points :: "string \<Rightarrow> string \<Rightarrow> string list" where
  "numbered_points base n = map (\<lambda>i. join_name base (n @ CHR ''-'' # decimal i)) [2..<100]"

definition generate_mount_point ::
  "'x mounts_ext_scheme \<Rightarrow> ('o, 'y) desktop_os_scheme \<Rightarrow> 'o \<Rightarrow> uuid \<Rightarrow> string \<Rightarrow> string list \<Rightarrow> string" where
  "generate_mount_point X OS os random bucket_name existing_mounts =
     (let base_dir = get_mount_base_dir OS os;
          sanitized_name = sanitize_mount_name X bucket_name;
          free = (\<lambda>p. p \<notin> set existing_mounts \<and> \<not> os_path_exists OS p os);
          base_path = join_name base_dir sanitized_name
      in if free base_path then base_path
         else (case find free (numbered_points base_dir sanitized_name) of
                 Some p \<Rightarrow> p
               | None \<Rightarrow> join_name base_dir (sanitized_name @ CHR ''-'' # take 8 (uuid_text X random))))"

definition create_mount_point :: "('o, 'y) desktop_os_scheme \<Rightarrow> string \<Rightarrow> 'o \<Rightarrow> (command_error + unit) \<times> 'o" where
  "create_mount_point OS path os =
     (case os_create_dir_all OS path os of
        (Inr _, os1) \<Rightarrow> (Inr (), os1)
      | (Inl _, os1) \<Rightarrow>
          (case os_pkexec_mkdir OS path os1 of
             (Inl e, os2) \<Rightarrow> (Inl (Failed (''Failed to run pkexec: '' @ e)), os2)
           | (Inr (success, stderr), os2) \<Rightarrow>
               (if success then Inr () else Inl (Failed (''Failed to create mount point: '' @ stderr)), os2)))"

definition mount_at ::
  "'x mounts_ext_scheme \<Rightarrow> ('o, 'y) desktop_os_scheme \<Rightarrow> ('w, 'z) mount_ext_scheme \<Rightarrow> database log_provider \<Rightarrow> int \<Rightarrow>
     32 word \<times> 32 word \<Rightarrow> uuid \<Rightarrow> uuid \<Rightarrow> string \<Rightarrow> ('w, 'o) mount_manager \<Rightarrow> (command_error + desktop_mount_info) \<times> ('w, 'o) mount_manager" where
  "mount_at X OS E L now user new_id i mount_point =
     bindS (\<lambda>st. case create_mount_point OS mount_point (mm_os st) of (r, os) \<Rightarrow> (r, st\<lparr>mm_os := os\<rparr>)) (\<lambda>_.
     bindS (mapS_err (manager_failed X ''create mount'') (create_mount (os_ext.truncate OS) new_id i mount_point False False None None)) (\<lambda>mount.
     bindS (mapS_err (manager_failed X ''start mount'') (start (os_ext.truncate OS) E L now user (fm_mount_id mount))) (\<lambda>_.
     bindS (\<lambda>st. (map_err (manager_failed X ''get mount'') (manager_get (fm_mount_id mount) st), st)) (\<lambda>r.
     liftR (bindR (ok_or (Failed ''Mount not found after creation'') r) (\<lambda>m. Inr (fuse_mount_to_info X m)))))))"

definition mount_bucket_command ::
  "'x mounts_ext_scheme \<Rightarrow> ('o, 'y) desktop_os_scheme \<Rightarrow> ('w, 'z) mount_ext_scheme \<Rightarrow> database log_provider \<Rightarrow> int \<Rightarrow>
     32 word \<times> 32 word \<Rightarrow> uuid \<Rightarrow> uuid \<Rightarrow> string \<Rightarrow> ('w, 'o) mount_daemon option \<Rightarrow>
     (command_error + desktop_mount_info) \<times> ('w, 'o) mount_daemon option" where
  "mount_bucket_command X OS E L now user new_id random t =
     bindS require_daemon (\<lambda>_.
     bindS (liftR (parse_id X ''bucket'' t)) (\<lambda>i.
     bindS (\<lambda>app. (map_err (log_error (\<lambda>e. Failed (''Failed to get bucket info: '' @ log_error_text X e)) CommandPanic)
         (get_bucket_info (daemon_database (the app)) i), app)) (\<lambda>info.
     let bucket_name = (case info of Some b \<Rightarrow> bi_name b | None \<Rightarrow> ''bucket'') in
     with_manager (\<lambda>st.
       case list_all_mounts X st of
         Inl e \<Rightarrow> (Inl e, st)
       | Inr ms \<Rightarrow> mount_at X OS E L now user new_id i
           (generate_mount_point X OS (mm_os st) random bucket_name (map fm_mount_point ms)) st))))"

definition unmount_bucket_command ::
  "'x mounts_ext_scheme \<Rightarrow> 'o os_ext \<Rightarrow> string \<Rightarrow> ('w, 'o) mount_daemon option \<Rightarrow>
     (command_error + bool) \<times> ('w, 'o) mount_daemon option" where
  "unmount_bucket_command X OS t =
     bindS require_daemon (\<lambda>_.
     bindS (liftR (parse_id X ''bucket'' t)) (\<lambda>i.
     with_manager
       (bindS (\<lambda>st. (list_all_mounts X st, st)) (\<lambda>ms.
        bindS (liftR (ok_or (Failed ''No mount found for this bucket'') (find (\<lambda>m. fm_bucket_id m = i) ms))) (\<lambda>mount.
        bindS (mapS_err (manager_failed X ''stop mount'') (stop OS (fm_mount_id mount))) (\<lambda>_.
        bindS (mapS_err (manager_failed X ''delete mount'') (manager_delete OS (fm_mount_id mount))) (\<lambda>_.
        liftR (Inr True))))))))"

definition is_bucket_mounted_command ::
  "'x mounts_ext_scheme \<Rightarrow> string \<Rightarrow> ('w, 'o) mount_daemon option \<Rightarrow>
     (command_error + desktop_mount_info option) \<times> ('w, 'o) mount_daemon option" where
  "is_bucket_mounted_command X t =
     bindS require_daemon (\<lambda>_.
     bindS (liftR (parse_id X ''bucket'' t)) (\<lambda>i.
     with_manager (\<lambda>st. (bindR (list_all_mounts X st) (\<lambda>ms.
       Inr (map_option (fuse_mount_to_info X)
         (find (\<lambda>m. fm_bucket_id m = i \<and> status_as_str (status_from_str (fm_status m)) = ''running'') ms))), st))))"

definition check_fuse_installed :: "('o, 'y) desktop_os_scheme \<Rightarrow> 'o \<Rightarrow> bool" where
  "check_fuse_installed OS os = os_path_exists OS ''/dev/fuse'' os"

definition is_fuse_available_command :: "('o, 'y) desktop_os_scheme \<Rightarrow> 'o \<Rightarrow> command_error + bool" where
  "is_fuse_available_command OS os = Inr (check_fuse_installed OS os)"

section \<open>What the commands do\<close>

text \<open>
  A name without slashes and dots stays below the directory it is joined to. Slashes and dots are no letters or
  digits, and the text of an identifier has none.
\<close>

definition plain_name :: "string \<Rightarrow> bool" where
  "plain_name s \<longleftrightarrow> CHR ''/'' \<notin> set s \<and> CHR ''.'' \<notin> set s"

definition mounts_laws :: "'x mounts_ext_scheme \<Rightarrow> bool" where
  "mounts_laws X \<longleftrightarrow> \<not> is_alphanumeric X (CHR ''/'') \<and> \<not> is_alphanumeric X (CHR ''.'') \<and> (\<forall>i. plain_name (uuid_text X i))"

lemma plain_name_append [simp]: "plain_name (s @ CHR ''-'' # t) \<longleftrightarrow> plain_name s \<and> plain_name t"
  by (auto simp: plain_name_def)

lemma plain_name_take: "plain_name s \<Longrightarrow> plain_name (take n s)"
  by (auto simp: plain_name_def dest: in_set_takeD)

lemma decimal_plain: "plain_name (decimal n)"
proof (induction n rule: decimal.induct)
  case (1 n)
  have "\<forall>k < 10. plain_name [''0123456789'' ! k]"
    by (simp add: plain_name_def All_less_Suc numeral_eq_Suc)
  then have "plain_name [''0123456789'' ! k]" if "k < 10" for k
    using that by blast
  from this [of n] this [of "n mod 10"] 1 show ?case
    by (subst decimal.simps) (auto simp: plain_name_def split: if_splits)
qed

lemma set_trim_dashes: "set (trim_dashes s) \<subseteq> set s"
  unfolding trim_dashes_def by (metis set_dropWhileD set_rev subsetI)

lemma sanitized_plain:
  assumes "mounts_laws X"
  shows "plain_name (sanitize_mount_name X name)"
  using assms set_trim_dashes [of "map (\<lambda>c. if is_alphanumeric X c \<or> c = CHR ''-'' \<or> c = CHR ''_'' then c else CHR ''-'') name"]
  by (auto simp: sanitize_mount_name_def mounts_laws_def plain_name_def split: if_splits)

lemma find_map_ex: "find P (map f xs) = Some y \<Longrightarrow> \<exists>x. y = f x"
  by (induction xs) (auto split: if_splits)

lemma generated_below_base:
  assumes "mounts_laws X"
  shows "\<exists>name. plain_name name \<and>
    (name = [] \<longrightarrow> sanitize_mount_name X bucket_name = [] \<and> \<not> os_path_exists OS (join_name (get_mount_base_dir OS os) []) os) \<and>
    generate_mount_point X OS os random bucket_name existing = join_name (get_mount_base_dir OS os) name"
proof -
  let ?n = "sanitize_mount_name X bucket_name" and ?base = "get_mount_base_dir OS os"
  note clean = sanitized_plain [OF assms, of bucket_name]
  have suffix: "plain_name (?n @ CHR ''-'' # decimal i)" "plain_name (?n @ CHR ''-'' # take 8 (uuid_text X random))" for i
    using clean decimal_plain [of i] assms by (simp_all add: mounts_laws_def plain_name_take)
  define below where "below p \<longleftrightarrow> (\<exists>name. plain_name name \<and>
    (name = [] \<longrightarrow> ?n = [] \<and> \<not> os_path_exists OS (join_name ?base []) os) \<and> p = join_name ?base name)" for p
  have "below p" if "find P (numbered_points ?base ?n) = Some p" for P p
    using find_map_ex [OF that [unfolded numbered_points_def]] suffix(1) unfolding below_def by blast
  moreover have "below (join_name ?base (?n @ CHR ''-'' # take 8 (uuid_text X random)))"
    unfolding below_def using suffix(2) by blast
  moreover have "below (join_name ?base ?n)" if "\<not> os_path_exists OS (join_name ?base ?n) os"
    unfolding below_def using clean that by (intro exI [of _ ?n]) auto
  ultimately have "below (generate_mount_point X OS os random bucket_name existing)"
    by (simp add: generate_mount_point_def Let_def split: option.split)
  then show ?thesis by (simp add: below_def)
qed

text \<open>Creating and starting a mount in one go.\<close>

lemma created_mount_row:
  assumes "create_mount OS new_id i p am ro cs ct st = (Inr r, st')"
  shows "fuse_get new_id (mm_table st) = None \<and> p \<notin> fm_mount_point ` set (ft_rows (mm_table st)) \<and>
    mm_table st' = (mm_table st)\<lparr>ft_rows := ft_rows (mm_table st) @ [r]\<rparr> \<and> fm_mount_id r = new_id \<and> fm_bucket_id r = i \<and>
    fm_mount_point r = p \<and> mm_peer st' = mm_peer st \<and> mm_world st' = mm_world st \<and> mm_mounts st' = mm_mounts st"
proof -
  from assms obtain os t where c: "fuse_create new_id i p am ro (as_i64_arg cs) (as_i64_arg ct) (mm_table st) = (Inr r, t)"
    and st': "st' = st\<lparr>mm_os := os, mm_table := t\<rparr>"
    by (auto simp: create_mount_def map_err_def split: sum.splits option.splits prod.splits if_splits)
  have "p \<notin> fm_mount_point ` set (ft_rows (mm_table st))"
    using c by (auto simp: fuse_create_def Let_def split: if_splits)
  then show ?thesis
    using fuse_create_Inr [OF c] st' by simp
qed

lemma started_mount_row:
  assumes "start OS E L now user i st = (Inr x, st')" and "fuse_get i (mm_table st) = Some r"
  shows "\<exists>r'. fuse_get i (mm_table st') = Some r' \<and> fm_bucket_id r' = fm_bucket_id r \<and> fm_mount_point r' = fm_mount_point r \<and>
    fm_status r' = ''running''"
  using assms by (auto simp: start_def Let_def manager_simps set_status_def fuse_get_status split: sum.splits prod.splits if_splits option.splits)

lemma mount_at_success:
  assumes "mount_at X OS E L now user new_id i p st = (Inr info, st')"
  shows "fuse_get new_id (mm_table st) = None \<and> p \<notin> fm_mount_point ` set (ft_rows (mm_table st)) \<and>
    (\<exists>m r. peer_mount E L i (mm_peer st, mm_world st) = Inr m \<and> get_live_mount new_id st' = Some m \<and>
      running_mounts st' = insert new_id (running_mounts st) \<and> fuse_get new_id (mm_table st') = Some r \<and>
      fm_bucket_id r = i \<and> fm_mount_point r = p \<and> fm_status r = ''running'' \<and> info = fuse_mount_to_info X r)"
proof -
  let ?OS = "os_ext.truncate OS"
  from assms obtain os r st1 where create: "create_mount ?OS new_id i p False False None None (st\<lparr>mm_os := os\<rparr>) = (Inr r, st1)"
    and start: "start ?OS E L now user (fm_mount_id r) st1 = (Inr (), st')"
    and get: "bindR (ok_or (Failed ''Mount not found after creation'') (fuse_get (fm_mount_id r) (mm_table st')))
      (\<lambda>m. Inr (fuse_mount_to_info X m)) = Inr info"
    by (auto simp: mount_at_def res_simps manager_get_def split: prod.splits)
  note c = created_mount_row [OF create]
  have row: "fuse_get new_id (mm_table st1) = Some r"
    using c by (simp add: fuse_get_append)
  have "running_mounts st1 = running_mounts st"
    using c by (simp add: running_mounts_def)
  moreover obtain m where "peer_mount E L i (mm_peer st, mm_world st) = Inr m" "get_live_mount new_id st' = Some m"
    "running_mounts st' = insert new_id (running_mounts st1)"
    using start_outcomes [where X = ?OS and E = E and L = L and now = now and user = user and i = new_id and st = st1] start row c by auto
  moreover obtain r' where "fuse_get new_id (mm_table st') = Some r'" "fm_bucket_id r' = i" "fm_mount_point r' = p" "fm_status r' = ''running''"
    using started_mount_row [OF start, of r] row c by auto
  ultimately show ?thesis
    using c get by auto
qed

text \<open>
  C17: mounting a bucket from the desktop mounts it. When the command succeeds, the bucket's head is the content of
  a new running mount, reported as such; its mount point is the directory for removable media joined with a name
  without slashes and dots, whatever the bucket is called, and was not configured for another mount; and the bucket
  is reported as mounted. The name is empty, and the mount point then the directory for removable media itself, only
  when the sanitised name of the bucket is empty and that directory did not exist.
\<close>

theorem mount_bucket_mounts:
  assumes laws: "mounts_laws X" and id: "uuid_parse X t = Some i"
    and run: "mount_bucket_command X OS E L now user new_id random t (Some d) = (Inr info, app)"
  shows "\<exists>st st' m name. md_manager d = Some st \<and> app = Some (d\<lparr>md_manager := Some st'\<rparr>) \<and>
    peer_mount E L i (mm_peer st, mm_world st) = Inr m \<and> get_live_mount new_id st' = Some m \<and>
    running_mounts st' = insert new_id (running_mounts st) \<and> dm_bucket_id info = uuid_text X i \<and> dm_status info = ''running'' \<and>
    dm_mount_point info = join_name (get_mount_base_dir OS (mm_os st)) name \<and> plain_name name \<and>
    (\<exists>b. get_bucket_info (daemon_database d) i = Inr b \<and> (name = [] \<longrightarrow>
       sanitize_mount_name X (case b of Some b \<Rightarrow> bi_name b | None \<Rightarrow> ''bucket'') = [] \<and>
       \<not> os_path_exists OS (join_name (get_mount_base_dir OS (mm_os st)) []) (mm_os st))) \<and>
    dm_mount_point info \<notin> fm_mount_point ` set (ft_rows (mm_table st)) \<and>
    (\<exists>shown. is_bucket_mounted_command X t app = (Inr (Some shown), app) \<and> dm_bucket_id shown = uuid_text X i)"
proof -
  from run id obtain st nm b where st: "md_manager d = Some st"
    and b: "get_bucket_info (daemon_database d) i = Inr b" "nm = (case b of Some b \<Rightarrow> bi_name b | None \<Rightarrow> ''bucket'')"
    and w: "with_manager (mount_at X OS E L now user new_id i
      (generate_mount_point X OS (mm_os st) random nm (map fm_mount_point (fuse_list (mm_table st))))) (Some d) = (Inr info, app)"
    by (cases "md_manager d") (auto simp: mount_bucket_command_def require_daemon_def parse_id_def with_manager_def list_all_mounts_def
        manager_list_def res_simps map_err_def Let_def split: sum.splits)
  obtain r1 st' where at: "mount_at X OS E L now user new_id i
      (generate_mount_point X OS (mm_os st) random nm (map fm_mount_point (fuse_list (mm_table st)))) st = (r1, st')"
    by (rule prod.exhaust)
  then have app: "app = Some (d\<lparr>md_manager := Some st'\<rparr>)" and r1: "r1 = Inr info"
    using w st by (auto simp: with_manager_def)
  obtain name where name: "plain_name name"
    "name = [] \<longrightarrow> sanitize_mount_name X nm = [] \<and> \<not> os_path_exists OS (join_name (get_mount_base_dir OS (mm_os st)) []) (mm_os st)"
    "generate_mount_point X OS (mm_os st) random nm (map fm_mount_point (fuse_list (mm_table st))) = join_name (get_mount_base_dir OS (mm_os st)) name"
    using generated_below_base [OF laws, where OS = OS and os = "mm_os st" and random = random and bucket_name = nm and
        existing = "map fm_mount_point (fuse_list (mm_table st))"] by blast
  from mount_at_success [OF at [unfolded r1]] obtain m r where m: "peer_mount E L i (mm_peer st, mm_world st) = Inr m"
    "get_live_mount new_id st' = Some m" "running_mounts st' = insert new_id (running_mounts st)"
    and r: "fuse_get new_id (mm_table st') = Some r" "fm_bucket_id r = i" "fm_status r = status_as_str Running"
      "fm_mount_point r = join_name (get_mount_base_dir OS (mm_os st)) name" "info = fuse_mount_to_info X r"
    and free: "join_name (get_mount_base_dir OS (mm_os st)) name \<notin> fm_mount_point ` set (ft_rows (mm_table st))"
    unfolding name(3) by auto
  let ?P = "\<lambda>m. fm_bucket_id m = i \<and> status_as_str (status_from_str (fm_status m)) = ''running''"
  have "r \<in> set (fuse_list (mm_table st'))"
    using r(1) by (auto simp: fuse_list_def fuse_get_def find_Some_iff)
  moreover have "?P r" using r(2,3) by (simp add: status_from_str_def)
  ultimately obtain r' where "find ?P (fuse_list (mm_table st')) = Some r'" "fm_bucket_id r' = i"
    by (cases "find ?P (fuse_list (mm_table st'))") (auto simp: find_None_iff find_Some_iff)
  then have "\<exists>shown. is_bucket_mounted_command X t app = (Inr (Some shown), app) \<and> dm_bucket_id shown = uuid_text X i"
    using id by (simp add: is_bucket_mounted_command_def require_daemon_def parse_id_def with_manager_def list_all_mounts_def
        manager_list_def app bindS_def liftR_def fuse_mount_to_info_def)
  moreover have "dm_bucket_id info = uuid_text X i" "dm_status info = ''running''"
      "dm_mount_point info = join_name (get_mount_base_dir OS (mm_os st)) name"
      "dm_mount_point info \<notin> fm_mount_point ` set (ft_rows (mm_table st))"
    using r free by (simp_all add: fuse_mount_to_info_def status_from_str_def)
  ultimately show ?thesis
    using st app m name(1,2) b by (intro exI [of _ st] exI [of _ st'] exI [of _ m] exI [of _ name] conjI exI [of _ b]) simp_all
qed

text \<open>A mount that was created is reported with the values of the request.\<close>

lemma created_mount_is_reported:
  assumes "create_mount_handler X OS new_id req (Some st) = (Inr (status, info), Some st')"
  shows "status = 201 \<and> get_mount_handler X new_id (Some st') = (Inr (200, info), Some st') \<and>
    mo_bucket_id info = cm_bucket_id req \<and> mo_mount_point info = cm_mount_point req \<and> mo_auto_mount info = cm_auto_mount req \<and>
    mo_read_only info = cm_read_only req \<and> mo_status info = ''stopped'' \<and>
    mo_cache_size_mb info = (case cm_cache_size_mb req of Some n \<Rightarrow> n | None \<Rightarrow> 100) \<and>
    mo_cache_ttl_secs info = (case cm_cache_ttl_secs req of Some n \<Rightarrow> n | None \<Rightarrow> 60)"
proof -
  from assms obtain r os t where c: "fuse_create new_id (cm_bucket_id req) (cm_mount_point req) (cm_auto_mount req) (cm_read_only req)
      (as_i64_arg (cm_cache_size_mb req)) (as_i64_arg (cm_cache_ttl_secs req)) (mm_table st) = (Inr r, t)"
    and st': "st' = st\<lparr>mm_os := os, mm_table := t\<rparr>" and info: "status = 201" "info = mount_info_of X r"
    by (auto simp: create_mount_handler_def on_manager_def create_mount_def res_simps map_err_def
        split: sum.splits option.splits prod.splits if_splits)
  note row = fuse_create_Inr [OF c]
  have cache: "fm_cache_size_mb r = unwrap_or (as_i64_arg (cm_cache_size_mb req)) 100"
    "fm_cache_ttl_secs r = unwrap_or (as_i64_arg (cm_cache_ttl_secs req)) 60"
    using c by (auto simp: fuse_create_def Let_def fuse_get_append row split: if_splits)
  have "fuse_get new_id (mm_table st') = Some r"
    using row st' by (simp add: fuse_get_append)
  then show ?thesis
    using row info cache
    by (auto simp: get_mount_handler_def on_manager_def manager_get_def bindS_def liftR_def mount_info_of_def status_from_str_def
        as_u32_def as_i64_arg_def unwrap_or_def split: option.split)
qed

text \<open>A start that fails leaves the new configuration behind.\<close>

lemma failed_mount_stays_configured:
  assumes "create_mount_point OS p (mm_os st) = (Inr (), os)"
    and "create_mount (os_ext.truncate OS) new_id i p False False None None (st\<lparr>mm_os := os\<rparr>) = (Inr r, st1)"
    and "start (os_ext.truncate OS) E L now user new_id st1 = (Inl e, st')"
  shows "fst (mount_at X OS E L now user new_id i p st) = Inl (manager_failed X ''start mount'' e) \<and>
    snd (mount_at X OS E L now user new_id i p st) = st' \<and> fuse_get new_id (mm_table st') \<noteq> None"
proof -
  note c = created_mount_row [OF assms(2)]
  then have "fuse_get new_id (mm_table st1) = Some r" by (simp add: fuse_get_append)
  then have "fuse_get new_id (mm_table st') \<noteq> None"
    using assms(3) by (auto simp: start_def Let_def set_status_def fuse_get_status split: sum.splits prod.splits if_splits option.splits)
  then show ?thesis
    using assms c by (simp add: mount_at_def bindS_def mapS_err_def)
qed

text \<open>
  Unmounting takes the mount of the bucket that was created last, running or not, and removes it with its
  configuration.
\<close>

lemma deleted_mount_gone:
  fixes st :: "('w, 'o) mount_manager"
  assumes "manager_delete OS i st = (r, st')"
  shows "fuse_get i (mm_table st') = None \<and> i \<notin> running_mounts st'"
  using assms
  by (auto simp: manager_delete_def Let_def fuse_delete_def fuse_get_def find_None_iff running_mounts_def delete_conv'
      split: prod.splits)

lemma unmount_bucket_removes:
  assumes "uuid_parse X t = Some i" and "unmount_bucket_command X OS t (Some d) = (Inr b, Some d')"
  shows "\<exists>st st' r. md_manager d = Some st \<and> md_manager d' = Some st' \<and>
    find (\<lambda>m. fm_bucket_id m = i) (fuse_list (mm_table st)) = Some r \<and>
    fuse_get (fm_mount_id r) (mm_table st') = None \<and> fm_mount_id r \<notin> running_mounts st'"
proof -
  from assms obtain st r st1 st' x where "md_manager d = Some st" "md_manager d' = Some st'"
    "find (\<lambda>m. fm_bucket_id m = i) (fuse_list (mm_table st)) = Some r"
    "manager_delete OS (fm_mount_id r) st1 = (Inr x, st')"
    by (cases "md_manager d") (auto simp: unmount_bucket_command_def require_daemon_def parse_id_def with_manager_def list_all_mounts_def
        manager_list_def res_simps split: prod.splits)
  then show ?thesis using deleted_mount_gone by blast
qed

section \<open>Witness\<close>

definition media_os :: "unit desktop_os" where
  "media_os = \<lparr>os_path_exists = (\<lambda>p _. False), os_create_dir_all = (\<lambda>p os. (Inr (), os)), os_is_dir = (\<lambda>p _. True),
     os_spawn_mount = (\<lambda>p os. (Inr (), os)), os_fusermount = (\<lambda>a p os. (Inr True, os)), os_user = Some ''u'',
     os_pkexec_mkdir = (\<lambda>p os. (Inr (True, []), os))\<rparr>"

definition sample_mounts :: mounts_ext where
  "sample_mounts = desktop_ext.extend (api_ext.extend (gateway_ext.extend sample_gateway
     \<lparr>uuid_parse = (\<lambda>t. Some 0), hash_error = (\<lambda>t. []), mount_error_text = (\<lambda>e. []), log_error_text = (\<lambda>e. []), key_error_text = (\<lambda>e. []),
      secret_error_text = (\<lambda>e. []), blobs_error_text = (\<lambda>e. []), queue_error_text = (\<lambda>e. []),
      base64_encode = (\<lambda>b. []), base64_decode = (\<lambda>t. Inl [])\<rparr>)
     \<lparr>uuid_error = (\<lambda>t. []), node_id_text = (\<lambda>k. []), status_line = (\<lambda>n. []),
      read_file = (\<lambda>t. Inl []), dir_exists = (\<lambda>p. True)\<rparr>)
     \<lparr>manager_error_text = (\<lambda>e. []), time_text = (\<lambda>n. []), is_alphanumeric = (\<lambda>c. c = CHR ''b'')\<rparr>"

definition idle_daemon :: "(sample_world, unit) mount_daemon" where
  "idle_daemon = \<lparr>md_database = sql_new, md_manager = Some first_manager\<rparr>"

lemma sample_mount_created:
  "\<exists>r st'. create_mount (os_ext.truncate media_os) 1 0 p False False None None first_manager = (Inr r, st') \<and> fm_mount_id r = 1 \<and>
     fm_bucket_id r = 0 \<and> fuse_get 1 (mm_table st') = Some r \<and> mm_mounts st' = [] \<and> mm_peer st' = sync_peer \<and> mm_world st' = sync_world"
  by (simp add: create_mount_def first_manager_def manager_new_def media_os_def os_ext.defs sync_peer_def map_err_def
      get_bucket_info_def order_desc_def rows_of_def new_row_def row_info_def read_cid_def link_from_cid_def link_to_cid_def
      sync_head_def manifest_codec_def link_new_def fuse_create_def Let_def fuse_get_def as_i64_arg_def unwrap_or_def)

lemma sample_mount_at: "\<exists>info st'. mount_at sample_mounts media_os sync_store sync_log 0 (0, 0) 1 0 p first_manager = (Inr info, st')"
proof -
  have dir: "create_mount_point media_os p () = (Inr (), ())" "first_manager\<lparr>mm_os := ()\<rparr> = first_manager"
    by (simp_all add: create_mount_point_def media_os_def first_manager_def manager_new_def)
  obtain r st1 where create: "create_mount (os_ext.truncate media_os) 1 0 p False False None None first_manager = (Inr r, st1)"
    and row: "fm_mount_id r = 1" "fuse_get 1 (mm_table st1) = Some r" and idle: "fm_bucket_id r = 0" "mm_mounts st1 = []"
      "mm_peer st1 = sync_peer" "mm_world st1 = sync_world"
    using sample_mount_created [of p] by blast
  have "fst (start (os_ext.truncate media_os) sync_store sync_log 0 (0, 0) 1 st1) = Inr ()"
    using row idle by (simp add: start_def sync_peer_mount Let_def media_os_def os_ext.defs)
  then obtain st2 where start: "start (os_ext.truncate media_os) sync_store sync_log 0 (0, 0) 1 st1 = (Inr (), st2)"
    by (metis prod.collapse)
  obtain r' where "fuse_get 1 (mm_table st2) = Some r'"
    using started_mount_row [OF start row(2)] by blast
  then show ?thesis
    using dir(1) create start row(1) by (simp add: dir(2) mount_at_def bindS_def mapS_err_def liftR_def manager_get_def map_err_def)
qed

lemma sample_bucket_named: "\<exists>b. get_bucket_info (daemon_database idle_daemon) 0 = Inr (Some b)"
  by (simp add: daemon_database_def idle_daemon_def first_manager_def manager_new_def sync_peer_def get_bucket_info_def
      order_desc_def rows_of_def new_row_def row_info_def read_cid_def link_from_cid_def link_to_cid_def
      sync_head_def manifest_codec_def link_new_def)

theorem mount_bucket_mounts_witness:
  "\<exists>info app. mount_bucket_command sample_mounts media_os sync_store sync_log 0 (0, 0) 1 0 [] (Some idle_daemon) = (Inr info, app) \<and>
     dm_status info = ''running''"
proof -
  have X: "mounts_laws sample_mounts" "uuid_parse sample_mounts [] = Some 0"
    by (simp_all add: mounts_laws_def plain_name_def sample_mounts_def sample_gateway_def mounts_ext.defs desktop_ext.defs api_ext.defs gateway_ext.defs)
  obtain b where b: "get_bucket_info (daemon_database idle_daemon) 0 = Inr (Some b)"
    using sample_bucket_named by blast
  have idle: "md_manager idle_daemon = Some first_manager" "fuse_list (mm_table first_manager) = []"
    by (simp_all add: idle_daemon_def first_manager_def manager_new_def fuse_list_def)
  obtain info st' where "mount_at sample_mounts media_os sync_store sync_log 0 (0, 0) 1 0
      (generate_mount_point sample_mounts media_os () 0 (bi_name b) []) first_manager = (Inr info, st')"
    using sample_mount_at by blast
  then obtain app where "mount_bucket_command sample_mounts media_os sync_store sync_log 0 (0, 0) 1 0 [] (Some idle_daemon) = (Inr info, app)"
    using X(2) b idle by (simp add: mount_bucket_command_def require_daemon_def parse_id_def with_manager_def list_all_mounts_def
        manager_list_def bindS_def liftR_def map_err_def)
  with mount_bucket_mounts [OF X this] show ?thesis by blast
qed

end
