(* ===== verification/Listing.thy ===== *)
theory Listing
  imports Inode_Table File_Ops
begin

text \<open>
  What \<open>ls\<close> and \<open>ls_deep\<close> of \<open>mount/mount_inner.rs\<close> list. On a mount that satisfies its invariant and whose names
  are single path components, the deep listing returns, and has exactly the paths of the abstract file
  system, each with the link that \<open>get\<close> finds there.
\<close>

section \<open>Links by path\<close>

fun link_at :: "('w, 'z) mount_ext_scheme \<Rightarrow> 'w \<Rightarrow> node \<Rightarrow> string list \<Rightarrow> node_link option" where
  "link_at E w n [] = None"
| "link_at E w n (x # q) =
     (case get_link n x of
        None \<Rightarrow> None
      | Some nl \<Rightarrow>
          (if q = [] then Some nl
           else (case nl of
                   Data _ _ _ \<Rightarrow> None
                 | Dir l s \<Rightarrow> (case get_node_from_blobs E (Dir l s) w of Inl _ \<Rightarrow> None | Inr n1 \<Rightarrow> link_at E w n1 q))))"

lemma link_at_fs:
  assumes "node_tree_ok E P w n"
  shows "(case link_at E w n q of Some nl \<Rightarrow> fs_node E w n q = fs_link E w nl [] \<and> fs_link E w nl [] \<noteq> None \<and> link_ok E P w nl
    | None \<Rightarrow> q = [] \<or> fs_node E w n q = None)"
  using assms
proof (induction q arbitrary: n)
  case (Cons x q)
  note IH = Cons.IH
  show ?case
  proof (cases "get_link n x")
    case (Some nl)
    then have ok: "link_ok E P w nl" using Cons.prems by (simp add: node_tree_ok_def)
    show ?thesis
    proof (cases nl)
      case (Data l s d)
      then show ?thesis
        using Some ok by (cases q) (auto elim!: link_ok_DataE)
    next
      case (Dir l s)
      with Cons.prems Some obtain n1 where n1: "get_node_from_blobs E (Dir l s) w = Inr n1" "node_tree_ok E P w n1"
        "\<And>q. fs_node E w n (x # q) = fs_node E w n1 q"
        by (metis node_tree_ok_child)
      show ?thesis
      proof (cases q)
        case Nil
        then show ?thesis using Some Dir ok n1(3) [of "[]"] by simp
      next
        case (Cons y ys)
        then have "link_at E w n (x # q) = link_at E w n1 q"
          using Some Dir n1(1) by simp
        then show ?thesis
          using IH [OF n1(2)] n1(3) [of q] Cons by (auto simp del: link_at.simps fs_node.simps split: option.splits)
      qed
    qed
  qed simp
qed simp

text \<open>Names that are a single component of a path.\<close>

definition one_component :: "string \<Rightarrow> bool" where
  "one_component x \<longleftrightarrow> components x = [Normal x]"

definition names_ok :: "fs \<Rightarrow> bool" where
  "names_ok F \<longleftrightarrow> (\<forall>ns. F ns \<noteq> None \<longrightarrow> list_all one_component ns)"

lemma one_component_name:
  assumes "x \<noteq> []" and "CHR ''/'' \<notin> set x" and "x \<noteq> ''.''" and "x \<noteq> ''..''"
  shows "one_component x"
proof -
  have "hd x \<noteq> CHR ''/''" using assms(1,2) hd_in_set by metis
  then show ?thesis
    using assms by (simp add: one_component_def components_def split_slash_no_slash part_comp_def)
qed

section \<open>The listing of a directory\<close>

lemma walk_child:
  assumes "node_or_root E n0 (rel_path ns) w = Inr n" and "get_link n x = Some (Dir l s)"
    and "get_node_from_blobs E (Dir l s) w = Inr n1"
  shows "node_or_root E n0 (rel_path (ns @ [x])) w = Inr n1"
proof -
  have "walk_path E w n0 cs (rel_path ns) = Inr n \<Longrightarrow> walk_path E w n0 cs (rel_path (ns @ [x])) = Inr n1" for cs n0
    using assms(2,3) by (induction ns arbitrary: n0 cs) (auto simp: Let_def bindR_def split: option.splits sum.splits)
  then show ?thesis
    using assms(1) by (auto simp: node_or_root_def get_node_at_path_def split: if_splits)
qed

definition entries_of :: "string list \<Rightarrow> node \<Rightarrow> (path, node_link) btree \<Rightarrow> bool" where
  "entries_of ns n items \<longleftrightarrow> bt_ok items \<and> (\<forall>p l. bt_get items p = Some l \<longleftrightarrow> (\<exists>x. p = rel_path (ns @ [x]) \<and> get_link n x = Some l))"

lemma ls_entries:
  assumes "node_or_root E (mi_entry m) (rel_path ns) w = Inr n" and "bt_ok n" and "\<And>x nl. get_link n x = Some nl \<Longrightarrow> one_component x"
  shows "\<exists>items. mount_ls E (abs_path ns) (m, w) = Inr items \<and> entries_of ns n items"
proof -
  define f :: "(path, node_link) btree \<Rightarrow> string \<times> node_link \<Rightarrow> (path, node_link) btree" where
    "f = (\<lambda>items (name, l). bt_insert (push (rel_path ns) (components name)) l items)"
  have ok: "bt_ok (foldl f acc es)" if "bt_ok acc" for acc es
    using that by (induction es arbitrary: acc) (auto simp: f_def bt_insert_ok)
  have get: "bt_get (foldl f acc es) p = Some l \<longleftrightarrow>
      (\<exists>x. p = rel_path (ns @ [x]) \<and> (x, l) \<in> set es) \<or> (bt_get acc p = Some l \<and> (\<forall>x l'. p = rel_path (ns @ [x]) \<longrightarrow> (x, l') \<notin> set es))"
    if "distinct (map fst es)" "\<forall>(x, l) \<in> set es. one_component x" for acc es p l
    using that
  proof (induction es arbitrary: acc)
    case (Cons e es)
    obtain x l0 where e: "e = (x, l0)" by (rule prod.exhaust)
    have "f acc e = bt_insert (rel_path (ns @ [x])) l0 acc"
      using Cons.prems(2) by (simp add: f_def e one_component_def)
    moreover have "(x, l') \<notin> set es" for l'
      using Cons.prems(1) e by force
    ultimately show ?case
      using Cons e by (auto simp: bt_get_insert)
  qed simp
  have n: "distinct (map fst n)" "\<forall>(x, l) \<in> set n. one_component x"
    using assms(2,3) by (auto simp: bt_ok_distinct get_link_def)
  have "mount_ls E (abs_path ns) (m, w) = Inr (foldl f [] n)"
    using assms(1) by (auto simp: mount_ls_def node_or_root_def f_def split: if_splits)
  moreover have "entries_of ns n (foldl f [] n)"
    using get [OF n, of "[]"] ok [of "[]" n] assms(2) by (simp add: entries_of_def get_link_def bt_get_in)
  ultimately show ?thesis by blast
qed

section \<open>The deep listing\<close>

definition inserted :: "(path, node_link) btree \<Rightarrow> (path, node_link) btree \<Rightarrow> (path, node_link) btree" where
  "inserted a sub = foldl (\<lambda>a (sub_path, sub_link). bt_insert sub_path sub_link a) a sub"

text \<open>Below a map of all links, inserting keeps below it, and adds the keys.\<close>

lemma inserted_le:
  assumes "bt_ok a" and "bt_get a \<subseteq>\<^sub>m R" and "\<forall>(p, l) \<in> set sub. R p = Some l"
  shows "bt_ok (inserted a sub) \<and> bt_get (inserted a sub) \<subseteq>\<^sub>m R \<and> bt_keys (inserted a sub) = bt_keys a \<union> bt_keys sub"
  using assms
proof (induction sub arbitrary: a)
  case (Cons e sub)
  obtain p l where e: "e = (p, l)" by (rule prod.exhaust)
  have "bt_get (bt_insert p l a) \<subseteq>\<^sub>m R"
    using Cons.prems e by (auto simp: bt_get_insert map_le_def)
  then show ?case
    using Cons.IH [of "bt_insert p l a"] Cons.prems e by (auto simp: inserted_def bt_insert_ok bt_keys_insert)
qed (simp add: inserted_def)

lemma deep_fold:
  assumes subs: "\<And>p l. (p, l) \<in> set items \<Longrightarrow> is_dir l \<Longrightarrow>
      \<exists>sub. ls_deep_fuel fuel E (push [RootDir] p) [] s = Some (Inr sub) \<and> (\<forall>(q, l) \<in> set sub. R q = Some l) \<and> bt_keys sub = K p"
    and "bt_ok a" and "bt_get a \<subseteq>\<^sub>m R" and "\<And>p l. (p, l) \<in> set items \<Longrightarrow> R p = Some l"
  shows "\<exists>b. foldl (\<lambda>acc (item_path, l).
            case acc of
              Some (Inr all_items) \<Rightarrow>
                (let relative_path = (if [] = [] then item_path
                       else (case strip_prefix item_path [] of Some r \<Rightarrow> r | None \<Rightarrow> item_path));
                     all_items' = bt_insert relative_path l all_items in
                 if is_dir l then
                   (case ls_deep_fuel fuel E (push [RootDir] item_path) [] s of
                      Some (Inr sub_items) \<Rightarrow>
                        Some (Inr (foldl (\<lambda>a (sub_path, sub_link). bt_insert sub_path sub_link a)
                          all_items' sub_items))
                    | r \<Rightarrow> r)
                 else Some (Inr all_items'))
            | _ \<Rightarrow> acc) (Some (Inr a)) items = Some (Inr b) \<and> bt_ok b \<and> bt_get b \<subseteq>\<^sub>m R \<and>
     bt_keys b = bt_keys a \<union> bt_keys items \<union> (\<Union>(p, l) \<in> set items. if is_dir l then K p else {})"
  using assms
proof (induction items arbitrary: a)
  case (Cons e items)
  obtain p l where e: "e = (p, l)" by (rule prod.exhaust)
  define a1 where "a1 = bt_insert p l a"
  have "R p = Some l" using Cons.prems(4) e by simp
  then have a1: "bt_ok a1" "bt_get a1 \<subseteq>\<^sub>m R" "bt_keys a1 = insert p (bt_keys a)"
    using Cons.prems(2,3) by (auto simp: a1_def bt_insert_ok bt_get_insert bt_keys_insert map_le_def)
  have rest1: "R p = Some l" if "(p, l) \<in> set items" for p l
    using Cons.prems(4) that by (meson list.set_intros(2))
  have rest2: "\<exists>sub. ls_deep_fuel fuel E (push [RootDir] p) [] s = Some (Inr sub) \<and> (\<forall>(q, l) \<in> set sub. R q = Some l) \<and> bt_keys sub = K p"
    if "(p, l) \<in> set items" "is_dir l" for p l
    by (rule Cons.prems(1) [OF _ that(2)]) (simp add: that(1))
  show ?case
  proof (cases "is_dir l")
    case True
    then obtain sub where sub: "ls_deep_fuel fuel E (push [RootDir] p) [] s = Some (Inr sub)" "\<forall>(q, l) \<in> set sub. R q = Some l" "bt_keys sub = K p"
      using Cons.prems(1) [of p l] e by auto
    note i = inserted_le [OF a1(1,2) sub(2)]
    have "bt_ok (inserted a1 sub)" "bt_get (inserted a1 sub) \<subseteq>\<^sub>m R" "bt_keys (inserted a1 sub) = insert p (bt_keys a) \<union> K p"
      using i a1(3) sub(3) by simp_all
    with Cons.IH [where a = "inserted a1 sub", OF rest2 _ _ rest1] show ?thesis
      using True sub(1) by (simp add: e a1_def inserted_def Un_ac)
  next
    case False
    from Cons.IH [OF rest2 a1(1,2) rest1] show ?thesis
      using False a1(3) by (simp add: e a1_def)
  qed
qed simp

definition listing :: "('w, 'z) mount_ext_scheme \<Rightarrow> 'w \<Rightarrow> string list \<Rightarrow> node \<Rightarrow> path \<Rightarrow> node_link option" where
  "listing E w ns n p =
     (let names = map comp_str p in
      if p = rel_path names \<and> prefix ns names then link_at E w n (drop (length ns) names) else None)"

lemma listing_Some: "listing E w ns n p = Some l \<longleftrightarrow> (\<exists>q. p = rel_path (ns @ q) \<and> link_at E w n q = Some l)"
proof
  assume "listing E w ns n p = Some l"
  then have p: "p = rel_path (map comp_str p)" "prefix ns (map comp_str p)" "link_at E w n (drop (length ns) (map comp_str p)) = Some l"
    by (auto simp: listing_def Let_def split: if_splits)
  then have "map comp_str p = ns @ drop (length ns) (map comp_str p)"
    by (metis append_eq_conv_conj prefixE)
  then show "\<exists>q. p = rel_path (ns @ q) \<and> link_at E w n q = Some l"
    using p by metis
qed (auto simp: listing_def Let_def comp_def simp del: map_append)

definition lists_deep :: "('w, 'z) mount_ext_scheme \<Rightarrow> 'w mount_state \<Rightarrow> string list \<Rightarrow> node \<Rightarrow> nat \<Rightarrow> bool" where
  "lists_deep E s ns n fuel \<longleftrightarrow>
     (\<exists>items. ls_deep_fuel fuel E (abs_path ns) [] s = Some (Inr items) \<and> bt_ok items \<and> bt_get items = listing E (snd s) ns n)"

lemma uniform_bound:
  fixes Q :: "'a \<Rightarrow> nat \<Rightarrow> bool"
  assumes "\<And>e. e \<in> set xs \<Longrightarrow> \<exists>k. \<forall>f \<ge> k. Q e f"
  shows "\<exists>k. \<forall>e \<in> set xs. \<forall>f \<ge> k. Q e f"
  using assms
proof (induction xs)
  case (Cons x xs)
  obtain k1 where "\<forall>f \<ge> k1. Q x f" using Cons.prems [of x] by auto
  moreover obtain k2 where "\<forall>e \<in> set xs. \<forall>f \<ge> k2. Q e f"
    using Cons.IH Cons.prems by (meson list.set_intros(2))
  ultimately show ?case by (intro exI [of _ "max k1 k2"]) auto
qed simp

lemma deep_step:
  assumes here: "node_or_root E (mi_entry m) (rel_path ns) w = Inr n" and ok: "bt_ok n"
    and names: "\<And>x nl. get_link n x = Some nl \<Longrightarrow> one_component x"
    and below: "\<And>x l s. get_link n x = Some (Dir l s) \<Longrightarrow>
      \<exists>n1. get_node_from_blobs E (Dir l s) w = Inr n1 \<and> lists_deep E (m, w) (ns @ [x]) n1 fuel"
  shows "lists_deep E (m, w) ns n (Suc fuel)"
proof -
  let ?R = "listing E w ns n" and ?K = "\<lambda>p. {q \<in> dom (listing E w ns n). strict_prefix p q}"
  obtain items where items: "mount_ls E (abs_path ns) (m, w) = Inr items" "entries_of ns n items"
    using ls_entries [of E m ns w n] here ok names by blast
  have entry: "(p, l) \<in> set items \<longleftrightarrow> (\<exists>x. p = rel_path (ns @ [x]) \<and> get_link n x = Some l)" for p l
    using items(2) by (simp add: entries_of_def flip: bt_get_in)
  have sub: "\<exists>sub. ls_deep_fuel fuel E (push [RootDir] p) [] (m, w) = Some (Inr sub) \<and>
      (\<forall>(q, l) \<in> set sub. ?R q = Some l) \<and> bt_keys sub = ?K p" if mem: "(p, l) \<in> set items" and dir: "is_dir l" for p l
  proof -
    obtain l0 s0 where l: "l = Dir l0 s0" using dir by (cases l) auto
    then obtain x where x: "p = rel_path (ns @ [x])" "get_link n x = Some (Dir l0 s0)"
      using mem entry by blast
    from below [OF x(2)] obtain n1 sub where n1: "get_node_from_blobs E (Dir l0 s0) w = Inr n1"
      and sub: "ls_deep_fuel fuel E (abs_path (ns @ [x])) [] (m, w) = Some (Inr sub)" "bt_ok sub"
        "bt_get sub = listing E w (ns @ [x]) n1"
      by (auto simp: lists_deep_def)
    have child: "link_at E w n (x # q) = link_at E w n1 q" if "q \<noteq> []" for q
      using that x(2) n1 by simp
    have nonempty: "q \<noteq> []" if "link_at E w n1 q = Some v" for q v
      using that by auto
    have R: "listing E w (ns @ [x]) n1 q = Some v \<longleftrightarrow> ?R q = Some v \<and> strict_prefix p q" for q v
    proof
      assume "listing E w (ns @ [x]) n1 q = Some v"
      then obtain r where r: "q = rel_path ((ns @ [x]) @ r)" "link_at E w n1 r = Some v"
        by (auto simp: listing_Some)
      then have "?R q = Some v"
        using child nonempty by (auto simp: listing_Some simp del: link_at.simps intro!: exI [of _ "x # r"])
      then show "?R q = Some v \<and> strict_prefix p q"
        using r nonempty by (auto simp: x(1) strict_prefix_def)
    next
      assume q: "?R q = Some v \<and> strict_prefix p q"
      then obtain r where r: "q = rel_path (ns @ r)" "link_at E w n r = Some v"
        by (auto simp: listing_Some)
      with q x(1) obtain r' where "r = x # r'" "r' \<noteq> []"
        by (cases r) (auto simp: strict_prefix_def)
      then show "listing E w (ns @ [x]) n1 q = Some v"
        using r child by (auto simp: listing_Some simp del: link_at.simps intro!: exI [of _ r'])
    qed
    have "(q, v) \<in> set sub \<longleftrightarrow> ?R q = Some v \<and> strict_prefix p q" for q v
      using bt_get_in [OF sub(2), of q v] R by (simp add: sub(3))
    then show ?thesis
      using sub(1) x(1) by (force simp: image_iff)
  qed
  have R: "?R p = Some l" if "(p, l) \<in> set items" for p l
  proof -
    obtain x where "p = rel_path (ns @ [x])" "get_link n x = Some l" using \<open>(p, l) \<in> set items\<close> entry by blast
    then show ?thesis by (auto simp: listing_Some intro!: exI [of _ "[x]"])
  qed
  have "\<exists>b. ls_deep_fuel (Suc fuel) E (abs_path ns) [] (m, w) = Some (Inr b) \<and> bt_ok b \<and> bt_get b \<subseteq>\<^sub>m ?R \<and>
      bt_keys b = bt_keys ([] :: (path, node_link) btree) \<union> bt_keys items \<union> (\<Union>(p, l) \<in> set items. if is_dir l then ?K p else {})"
    unfolding ls_deep_fuel.simps(2) items(1) sum.case
  proof (rule deep_fold)
    show "\<exists>sub. ls_deep_fuel fuel E (push [RootDir] p) [] (m, w) = Some (Inr sub) \<and> (\<forall>(q, l) \<in> set sub. ?R q = Some l) \<and> bt_keys sub = ?K p"
      if "(p, l) \<in> set items" "is_dir l" for p l
      using that by (rule sub)
    show "?R p = Some l" if "(p, l) \<in> set items" for p l
      using that by (rule R)
  qed simp_all
  then obtain b where b: "ls_deep_fuel (Suc fuel) E (abs_path ns) [] (m, w) = Some (Inr b)" "bt_ok b" "bt_get b \<subseteq>\<^sub>m ?R"
      "bt_keys b = bt_keys items \<union> (\<Union>(p, l) \<in> set items. if is_dir l then ?K p else {})"
    by auto
  have "dom ?R \<subseteq> bt_keys b"
  proof
    fix p
    assume "p \<in> dom ?R"
    then obtain q v where q: "p = rel_path (ns @ q)" "link_at E w n q = Some v"
      by (auto simp: listing_Some)
    then obtain x r nl where x: "q = x # r" "get_link n x = Some nl"
      by (cases q) (auto split: option.splits)
    then have item: "(rel_path (ns @ [x]), nl) \<in> set items" by (auto simp: entry)
    show "p \<in> bt_keys b"
    proof (cases "r = []")
      case True
      then show ?thesis using item q(1) x(1) b(4) by force
    next
      case False
      then have "is_dir nl" using q(2) x by (cases nl) auto
      moreover have "p \<in> ?K (rel_path (ns @ [x]))"
        using \<open>p \<in> dom ?R\<close> False q(1) x(1) by (auto simp: strict_prefix_def)
      ultimately show ?thesis using item b(4) by force
    qed
  qed
  then have "dom ?R \<subseteq> dom (bt_get b)" by (simp add: dom_map_of_conv_image_fst)
  then have "bt_get b = ?R"
    using b(3) by (intro map_le_antisym) (force simp: map_le_def)+
  then show ?thesis
    using b(1,2) by (auto simp: lists_deep_def)
qed

lemma deep_children:
  assumes here: "node_or_root E (mi_entry m) (rel_path ns) w = Inr n" and ok: "bt_ok n"
    and names: "\<And>x nl. get_link n x = Some nl \<Longrightarrow> one_component x"
    and below: "\<And>x l s. get_link n x = Some (Dir l s) \<Longrightarrow>
      \<exists>n1 k. get_node_from_blobs E (Dir l s) w = Inr n1 \<and> (\<forall>fuel \<ge> k. lists_deep E (m, w) (ns @ [x]) n1 fuel)"
  shows "\<exists>k. \<forall>fuel \<ge> k. lists_deep E (m, w) ns n fuel"
proof -
  let ?Q = "\<lambda>e fuel. is_dir (snd e) \<longrightarrow>
    (\<exists>n1. get_node_from_blobs E (snd e) w = Inr n1 \<and> lists_deep E (m, w) (ns @ [fst e]) n1 fuel)"
  have "\<exists>k. \<forall>fuel \<ge> k. ?Q e fuel" if e: "e \<in> set n" for e
  proof (cases "snd e")
    case (Dir l s)
    then have "get_link n (fst e) = Some (Dir l s)"
      using e ok by (metis bt_get_in get_link_def prod.collapse)
    from below [OF this] Dir show ?thesis by auto
  qed simp
  from uniform_bound [where Q = ?Q, OF this] obtain k where k: "\<forall>e \<in> set n. \<forall>fuel \<ge> k. ?Q e fuel" by blast
  have "lists_deep E (m, w) ns n (Suc fuel)" if "k \<le> fuel" for fuel
  proof (rule deep_step [OF here ok])
    show "one_component x" if "get_link n x = Some nl" for x nl
      using that by (rule names)
    show "\<exists>n1. get_node_from_blobs E (Dir l s) w = Inr n1 \<and> lists_deep E (m, w) (ns @ [x]) n1 fuel"
      if "get_link n x = Some (Dir l s)" for x l s
      using k \<open>k \<le> fuel\<close> map_of_SomeD [OF that [unfolded get_link_def]] by fastforce
  qed
  then show ?thesis
    by (intro exI [of _ "Suc k"]) (metis Suc_le_D Suc_le_mono)
qed

text \<open>A tree whose names are single components.\<close>

lemma names_ok_child:
  assumes "names_ok F" and "G = (\<lambda>q. F (x # q))" and "G [] \<noteq> None"
  shows "one_component x \<and> names_ok G"
  using assms by (force simp: names_ok_def)

lemma deep_below:
  assumes "link_ok E P w nl" and "nl = Dir l s" and "get_node_from_blobs E nl w = Inr n"
    and "node_or_root E (mi_entry m) (rel_path ns) w = Inr n" and "names_ok (fs_link E w nl)"
  shows "\<exists>k. \<forall>fuel \<ge> k. lists_deep E (m, w) ns n fuel"
  using assms
proof (induction arbitrary: l s n ns)
  case (is_directory l' s' n')
  then have n: "n' = n" by simp
  have child: "one_component x \<and> names_ok (fs_link E w nl)" if "get_link n x = Some nl" for x nl
  proof (rule names_ok_child [OF is_directory.prems(4)])
    show "fs_link E w nl = (\<lambda>q. fs_link E w (Dir l' s') (x # q))"
      using that is_directory.prems(2) by simp
    show "fs_link E w nl [] \<noteq> None"
      using is_directory.hyps(4) [of x nl] that n by (cases nl) (auto elim!: link_ok_DataE)
  qed
  show ?case
  proof (rule deep_children [OF is_directory.prems(3)])
    show "bt_ok n" using is_directory.hyps(3) n by simp
    show "one_component x" if "get_link n x = Some nl" for x nl
      using child [OF that] by blast
    show "\<exists>n1 k. get_node_from_blobs E (Dir la sa) w = Inr n1 \<and> (\<forall>fuel \<ge> k. lists_deep E (m, w) (ns @ [x]) n1 fuel)"
      if x: "get_link n x = Some (Dir la sa)" for x la sa
    proof -
      obtain n1 where n1: "get_node_from_blobs E (Dir la sa) w = Inr n1"
        using link_ok_DirD [of E P w la sa] is_directory.hyps(4) [of x "Dir la sa"] x n by auto
      have "\<exists>k. \<forall>fuel \<ge> k. lists_deep E (m, w) (ns @ [x]) n1 fuel"
        using is_directory.IH [of x "Dir la sa" la sa n1 "ns @ [x]"] x n n1 child [OF x] walk_child [OF is_directory.prems(3) x n1] by simp
      then show ?thesis using n1 by blast
    qed
  qed
qed simp

lemma ls_deep_tree:
  assumes "mount_ok E (m, w)" and "names_ok (mount_fs E (m, w))"
  shows "\<exists>k. \<forall>fuel \<ge> k. \<exists>items. mount_ls_deep fuel E [RootDir] (m, w) = Some (Inr items) \<and> bt_ok items \<and>
    bt_get items = listing E w [] (mi_entry m)"
proof -
  let ?n = "mi_entry m"
  note tree = mount_ok_tree [OF assms(1)]
  have child: "one_component x \<and> names_ok (fs_link E w nl)" if "get_link ?n x = Some nl" for x nl
  proof (rule names_ok_child [OF assms(2)])
    show "fs_link E w nl = (\<lambda>q. mount_fs E (m, w) (x # q))"
      using that by (simp add: mount_fs_def)
    have "link_ok E (set (mi_pins m)) w nl"
      using tree that by (simp add: node_tree_ok_def)
    then show "fs_link E w nl [] \<noteq> None"
      by (cases nl) (auto elim!: link_ok_DataE)
  qed
  have root: "node_or_root E ?n (rel_path []) w = Inr ?n" by (simp add: node_or_root_def)
  have "\<exists>k. \<forall>fuel \<ge> k. lists_deep E (m, w) [] ?n fuel"
  proof (rule deep_children [OF root])
    show "bt_ok ?n" using tree by (simp add: node_tree_ok_def)
    show "one_component x" if "get_link ?n x = Some nl" for x nl
      using child [OF that] by blast
    show "\<exists>n1 k. get_node_from_blobs E (Dir l s) w = Inr n1 \<and> (\<forall>fuel \<ge> k. lists_deep E (m, w) ([] @ [x]) n1 fuel)"
      if x: "get_link ?n x = Some (Dir l s)" for x l s
    proof -
      have ok: "link_ok E (set (mi_pins m)) w (Dir l s)"
        using tree x by (simp add: node_tree_ok_def)
      obtain n1 where n1: "get_node_from_blobs E (Dir l s) w = Inr n1"
        using link_ok_DirD [OF ok] by blast
      show ?thesis
        using deep_below [OF ok refl n1 walk_child [OF root x n1]] child [OF x] n1 by auto
    qed
  qed
  then show ?thesis
    by (auto simp: mount_ls_deep_def lists_deep_def)
qed

lemma link_at_get:
  assumes "link_at E w n ns = Some nl"
  shows "\<exists>ds x n'. ns = ds @ [x] \<and> node_or_root E n (rel_path ds) w = Inr n' \<and> get_link n' x = Some nl"
proof -
  have "\<exists>ds x n'. ns = ds @ [x] \<and> walk_path E w n cs (rel_path ds) = Inr n' \<and> get_link n' x = Some nl" for cs
    using assms
  proof (induction ns arbitrary: n cs)
    case (Cons x q)
    show ?case
    proof (cases q)
      case Nil
      then show ?thesis using Cons.prems
        by (intro exI [of _ "[] :: string list"] exI [of _ x] exI [of _ n]) (auto split: option.splits)
    next
      case q: (Cons y ys)
      with Cons.prems obtain l s n1 where n1: "get_link n x = Some (Dir l s)" "get_node_from_blobs E (Dir l s) w = Inr n1"
        "link_at E w n1 q = Some nl"
        by (auto split: option.splits node_link.splits sum.splits)
      from Cons.IH [OF n1(3), of "push cs [Normal x]"] obtain ds z n' where
        "q = ds @ [z]" "walk_path E w n1 (push cs [Normal x]) (rel_path ds) = Inr n'" "get_link n' z = Some nl" by blast
      then show ?thesis
        using n1 by (intro exI [of _ "x # ds"] exI [of _ z] exI [of _ n']) (simp add: Let_def)
    qed
  qed simp
  then show ?thesis
    unfolding node_or_root_def get_node_at_path_def by (metis list.map_disc_iff walk_path.simps(1))
qed

lemma link_at_mount_get: "link_at E w (mi_entry m) ns = Some nl \<Longrightarrow> mount_get E (abs_path ns) (m, w) = Inr nl"
  by (drule link_at_get) (auto simp: mount_get_def)

lemma link_at_exists:
  assumes "mount_ok E (m, w)"
  shows "(\<exists>nl. link_at E w (mi_entry m) ns = Some nl) \<longleftrightarrow> ns \<noteq> [] \<and> mount_fs E (m, w) ns \<noteq> None"
  using link_at_fs [OF mount_ok_tree [OF assms], of ns] by (auto simp: mount_fs_def split: option.splits)

text \<open>
  C13: the deep listing is complete. On a mount that satisfies its invariant and whose names are single components,
  \<open>ls_deep\<close> of the root returns once the recursion may go deep enough, and lists exactly the paths of the file
  system below the root, each once, in order, with the link that \<open>get\<close> returns for it.
\<close>

theorem ls_deep_lists_tree:
  assumes "mount_ok E (m, w)" and "names_ok (mount_fs E (m, w))"
  shows "\<exists>k. \<forall>fuel \<ge> k. \<exists>items. mount_ls_deep fuel E [RootDir] (m, w) = Some (Inr items) \<and> bt_ok items \<and>
    (\<forall>p. p \<in> bt_keys items \<longleftrightarrow> (\<exists>ns. ns \<noteq> [] \<and> p = rel_path ns \<and> mount_fs E (m, w) ns \<noteq> None)) \<and>
    (\<forall>ns nl. (rel_path ns, nl) \<in> set items \<longrightarrow> mount_get E (abs_path ns) (m, w) = Inr nl)"
proof -
  let ?n = "mi_entry m"
  have desc: "(\<forall>p. p \<in> bt_keys items \<longleftrightarrow> (\<exists>ns. ns \<noteq> [] \<and> p = rel_path ns \<and> mount_fs E (m, w) ns \<noteq> None)) \<and>
      (\<forall>ns nl. (rel_path ns, nl) \<in> set items \<longrightarrow> mount_get E (abs_path ns) (m, w) = Inr nl)"
    if items: "bt_ok items" "bt_get items = listing E w [] ?n" for items
  proof -
    have set: "(p, nl) \<in> set items \<longleftrightarrow> (\<exists>ns. p = rel_path ns \<and> link_at E w ?n ns = Some nl)" for p nl
      using bt_get_in [OF items(1), of p nl] by (simp add: items(2) listing_Some)
    have "p \<in> bt_keys items \<longleftrightarrow> (\<exists>nl. (p, nl) \<in> set items)" for p by force
    then have "p \<in> bt_keys items \<longleftrightarrow> (\<exists>ns. p = rel_path ns \<and> (\<exists>nl. link_at E w ?n ns = Some nl))" for p
      unfolding set by blast
    then have "p \<in> bt_keys items \<longleftrightarrow> (\<exists>ns. ns \<noteq> [] \<and> p = rel_path ns \<and> mount_fs E (m, w) ns \<noteq> None)" for p
      unfolding link_at_exists [OF assms(1)] by blast
    moreover have "mount_get E (abs_path ns) (m, w) = Inr nl" if "(rel_path ns, nl) \<in> set items" for ns nl
      using that by (auto simp: set intro: link_at_mount_get)
    ultimately show ?thesis by blast
  qed
  obtain k where k: "\<forall>fuel \<ge> k. \<exists>items. mount_ls_deep fuel E [RootDir] (m, w) = Some (Inr items) \<and> bt_ok items \<and>
      bt_get items = listing E w [] ?n"
    using ls_deep_tree [OF assms] by (rule exE)
  show ?thesis
  proof (intro exI [of _ k] allI impI)
    fix fuel
    assume "k \<le> fuel"
    with k obtain items where items: "mount_ls_deep fuel E [RootDir] (m, w) = Some (Inr items)" "bt_ok items"
      "bt_get items = listing E w [] ?n" by blast
    show "\<exists>items. mount_ls_deep fuel E [RootDir] (m, w) = Some (Inr items) \<and> bt_ok items \<and>
        (\<forall>p. p \<in> bt_keys items \<longleftrightarrow> (\<exists>ns. ns \<noteq> [] \<and> p = rel_path ns \<and> mount_fs E (m, w) ns \<noteq> None)) \<and>
        (\<forall>ns nl. (rel_path ns, nl) \<in> set items \<longrightarrow> mount_get E (abs_path ns) (m, w) = Inr nl)"
      using items(1,2) desc [OF items(2,3), THEN conjunct1] desc [OF items(2,3), THEN conjunct2] by (intro exI [of _ items] conjI)
  qed
qed

lemma sample_added_fs: "mount_fs (sample_ext sample_tables [] []) sample_added = fs_set [''f''] (fs_file [7]) fs_empty_dir"
proof -
  let ?r = "mount_add (sample_ext sample_tables [] []) (abs_path [''f'']) (Inr [7]) (sample_mount, (0, []))"
  have "fst ?r = Inr ()"
    by (simp add: run_defs mount_add_def sample_tables_def)
  then have "?r = (Inr (), sample_added)"
    by (simp add: prod_eq_iff sample_added_def)
  moreover have "mount_fs (sample_ext sample_tables [] []) (sample_mount, (0, [])) = fs_empty_dir"
    using fs_node_new [of "sample_ext sample_tables [] []" "(0, [])"] by (simp add: mount_fs_def sample_mount_def node_new_def)
  ultimately show ?thesis
    using add_op.success [OF sample_laws sample_mount_ok TrueI, where ns = "[]" and x = "''f''" and b = "[7]", unfolded append_Nil]
    by simp
qed

lemma sample_added_names: "names_ok (mount_fs (sample_ext sample_tables [] []) sample_added)"
  unfolding sample_added_fs names_ok_def
proof (intro allI impI)
  fix ns
  assume "fs_set [''f''] (fs_file [7]) fs_empty_dir ns \<noteq> None"
  then have "ns = [] \<or> ns = [''f'']"
    by (cases ns) (auto simp: fs_set_def fs_file_def fs_empty_dir_def split: if_splits)
  then show "list_all one_component ns"
    by (auto simp: one_component_name)
qed

theorem ls_deep_lists_tree_witness:
  "\<exists>fuel items. mount_ls_deep fuel (sample_ext sample_tables [] []) [RootDir] sample_added = Some (Inr items) \<and>
     map fst items = [rel_path [''f'']]"
proof -
  obtain m w where s: "sample_added = (m, w)" by (rule prod.exhaust)
  let ?E = "sample_ext sample_tables [] []"
  let ?keys = "\<lambda>items. \<forall>p. p \<in> bt_keys items \<longleftrightarrow> (\<exists>ns. ns \<noteq> [] \<and> p = rel_path ns \<and> mount_fs ?E (m, w) ns \<noteq> None)"
  from ls_deep_lists_tree [OF sample_added_ok(1) [unfolded s] sample_added_names [unfolded s]]
  obtain k where k: "\<forall>fuel \<ge> k. \<exists>items. mount_ls_deep fuel ?E [RootDir] (m, w) = Some (Inr items) \<and> bt_ok items \<and> ?keys items \<and>
      (\<forall>ns nl. (rel_path ns, nl) \<in> set items \<longrightarrow> mount_get ?E (abs_path ns) (m, w) = Inr nl)"
    by (rule exE)
  from k [THEN spec, THEN mp, OF order_refl]
  obtain items where "mount_ls_deep k ?E [RootDir] sample_added = Some (Inr items)" "bt_ok items" and keys: "?keys items"
    unfolding s by (elim exE conjE)
  moreover have "bt_keys items = {rel_path [''f'']}"
  proof -
    have "ns \<noteq> [] \<and> fs_set [''f''] (fs_file [7]) fs_empty_dir ns \<noteq> None \<longleftrightarrow> ns = [''f'']" for ns
      by (cases ns) (auto simp: fs_set_def fs_file_def fs_empty_dir_def)
    then have "p \<in> bt_keys items \<longleftrightarrow> p = rel_path [''f'']" for p
      using keys [unfolded s [symmetric] sample_added_fs, THEN spec, of p] by (metis (no_types))
    then show ?thesis by (simp add: set_eq_iff)
  qed
  moreover have "xs = [a]" if "distinct xs" "set xs = {a}" for xs and a :: path
    using that by (cases xs; cases "tl xs") auto
  ultimately have "map fst items = [rel_path [''f'']]"
    using bt_ok_distinct [of items] by simp
  then show ?thesis
    using \<open>mount_ls_deep k ?E [RootDir] sample_added = Some (Inr items)\<close>
    by (intro exI [of _ k] exI [of _ items] conjI)
qed

end
