(* ===== verification/Export.thy ===== *)
theory Export
  imports Api_Safety Listing
begin

text \<open>
  What an export (\<open>daemon/src/http_server/api/v0/bucket/export.rs\<close>) leaves on the disk. The host's file system is
  seen through a function from its state to a tree of files and directories; \<open>host_laws\<close> is what
  \<open>std::fs::create_dir_all\<close> and \<open>std::fs::write\<close> promise of it when they succeed, on absolute paths without
  \<open>..\<close> and links.
\<close>

section \<open>The file system of the host\<close>

definition host_laws :: "('f, 'z) host_ext_scheme \<Rightarrow> ('f \<Rightarrow> fs) \<Rightarrow> bool" where
  "host_laws H V \<longleftrightarrow>
     (\<forall>ns f u f'. host_create_dir_all H (abs_path ns) f = (Inr u, f') \<longrightarrow>
        V f' = (\<lambda>q. if prefix q ns then Some FDir else V f q)) \<and>
     (\<forall>ns b f u f'. host_write H (abs_path ns) b f = (Inr u, f') \<longrightarrow> V f' = (V f)(ns \<mapsto> FFile b))"

lemma host_lawsD:
  assumes "host_laws H V"
  shows "host_create_dir_all H (abs_path ns) f = (Inr u, f') \<Longrightarrow> V f' = (\<lambda>q. if prefix q ns then Some FDir else V f q)"
    "host_write H (abs_path ns) b f = (Inr u, f') \<Longrightarrow> V f' = (V f)(ns \<mapsto> FFile b)"
  using assms unfolding host_laws_def by blast+

text \<open>The tree \<open>F\<close> laid over what is below the directory \<open>ds\<close>.\<close>

definition overlaid :: "string list \<Rightarrow> fs \<Rightarrow> fs \<Rightarrow> fs" where
  "overlaid ds F G q =
     (if prefix q ds then Some FDir
      else if prefix ds q \<and> F (drop (length ds) q) \<noteq> None then F (drop (length ds) q)
      else G q)"

lemma overlaid_at: "q \<noteq> [] \<Longrightarrow> F q \<noteq> None \<Longrightarrow> overlaid ds F G (ds @ q) = F q"
  by (auto simp: overlaid_def)

lemma overlaid_dir:
  assumes "F q = Some FDir" and "\<And>p x r. F (p @ x # r) \<noteq> None \<Longrightarrow> F p = Some FDir" and "prefix r (ds @ q)"
  shows "overlaid ds F G r = Some FDir"
proof (cases "prefix r ds")
  case False
  then obtain q' where q': "r = ds @ q'" "prefix q' q"
    using assms(3) by (auto simp: prefix_append)
  then obtain t where "q = q' @ t" by (auto elim: prefixE)
  then have "F q' = Some FDir"
    using assms(1,2) by (cases t) auto
  then show ?thesis by (auto simp: overlaid_def q')
qed (simp add: overlaid_def)

text \<open>A step that sets some paths to their value in the target.\<close>

definition sets_paths :: "('f \<Rightarrow> fs) \<Rightarrow> fs \<Rightarrow> string list set \<Rightarrow> 'f \<Rightarrow> 'f \<Rightarrow> bool" where
  "sets_paths V T A f f' \<longleftrightarrow> (\<exists>B. A \<subseteq> B \<and> V f' = (\<lambda>q. if q \<in> B then T q else V f q))"

lemma sets_refl: "sets_paths V T {} f f"
  unfolding sets_paths_def by (intro exI [of _ "{}"]) simp

lemma sets_trans: "sets_paths V T A f f1 \<Longrightarrow> sets_paths V T B f1 f2 \<Longrightarrow> sets_paths V T (A \<union> B) f f2"
  unfolding sets_paths_def
proof (elim exE conjE)
  fix A' B'
  assume "A \<subseteq> A'" "V f1 = (\<lambda>q. if q \<in> A' then T q else V f q)" "B \<subseteq> B'" "V f2 = (\<lambda>q. if q \<in> B' then T q else V f1 q)"
  then show "\<exists>C. A \<union> B \<subseteq> C \<and> V f2 = (\<lambda>q. if q \<in> C then T q else V f q)"
    by (intro exI [of _ "A' \<union> B'"]) auto
qed

lemma sets_mono: "sets_paths V T A f f' \<Longrightarrow> B \<subseteq> A \<Longrightarrow> sets_paths V T B f f'"
  by (auto simp: sets_paths_def)

lemma sets_dirs:
  assumes "host_laws H V" and "host_create_dir_all H (abs_path ns) f = (Inr u, f')" and "\<And>r. prefix r ns \<Longrightarrow> T r = Some FDir"
  shows "sets_paths V T {q. prefix q ns} f f'"
proof -
  have "V f' = (\<lambda>q. if prefix q ns then Some FDir else V f q)"
    by (rule host_lawsD(1) [OF assms(1,2)])
  then show ?thesis
    unfolding sets_paths_def using assms(3) by (intro exI [of _ "{q. prefix q ns}"]) auto
qed

lemma sets_file:
  assumes "host_laws H V" and "host_write H (abs_path ns) b f = (Inr u, f')" and "T ns = Some (FFile b)"
  shows "sets_paths V T {ns} f f'"
proof -
  have "V f' = (V f)(ns \<mapsto> FFile b)"
    by (rule host_lawsD(2) [OF assms(1,2)])
  then show ?thesis
    unfolding sets_paths_def using assms(3) by (intro exI [of _ "{ns}"]) auto
qed

section \<open>Exporting\<close>

lemma decrypt_hash: "decrypt E s c = Inr b \<Longrightarrow> extract_plaintext_hash E s c = Inr (blake3 E b)"
  by (auto simp: decrypt_def extract_plaintext_hash_def split: if_splits option.splits)

lemma push_abs_rel [simp]: "push (abs_path ds) (rel_path q) = abs_path (ds @ q)"
  by (cases q) (auto simp: push_def is_absolute_def)

text \<open>The entry of a file in the hash map: the hash of its blob and of its content.\<close>

definition hashes_of :: "('w, 'z) mount_ext_scheme \<Rightarrow> 'w \<Rightarrow> node_link \<Rightarrow> (hash \<times> bytes) option" where
  "hashes_of E w nl =
     (case nl of
        Dir _ _ \<Rightarrow> None
      | Data l s _ \<Rightarrow> (case fs_link E w nl [] of Some (FFile b) \<Rightarrow> Some (link_hash l, blake3 E b) | _ \<Rightarrow> None))"

lemma export_item_effect:
  assumes laws: "host_laws H V" and q: "q \<noteq> []"
    and T: "T (ds @ q) = fs_link E w nl []" "fs_link E w nl [] \<noteq> None"
      "\<And>r. prefix r (ds @ butlast q) \<Longrightarrow> T r = Some FDir"
    and run: "export_item E X H w (abs_path ds) (rel_path q, nl) hm f = (Inr hm', f')"
  shows "sets_paths V T {ds @ q} f f' \<and>
    hm' = (case hashes_of E w nl of None \<Rightarrow> hm | Some h \<Rightarrow> AList.update (rel_path q) h hm)"
proof (cases nl)
  case (Dir l s)
  with run obtain u where "host_create_dir_all H (abs_path (ds @ q)) f = (Inr u, f')" and hm: "hm' = hm"
    by (auto simp: export_item_def Let_def res_simps simp del: map_append)
  moreover have "T r = Some FDir" if "prefix r (ds @ q)" for r
  proof (cases "r = ds @ q")
    case False
    then have "prefix r (ds @ butlast q)"
      using that q by (cases q rule: rev_cases) (auto simp flip: append_assoc)
    then show ?thesis by (rule T(3))
  qed (use T(1) Dir in simp)
  ultimately show ?thesis
    using sets_mono [OF sets_dirs [OF laws, where T = T], of "ds @ q" f u f' "{ds @ q}"] Dir by (simp add: hashes_of_def)
next
  case (Data l s d)
  have parent: "parent (abs_path (ds @ q)) = Some (abs_path (ds @ butlast q))"
    using q by (auto simp: parent_def butlast_append map_butlast last_map)
  from run Data parent obtain u f1 c h b where mk: "host_create_dir_all H (abs_path (ds @ butlast q)) f = (Inr u, f1)"
    and c: "blob_get E (link_hash l) w = Inr c" "extract_plaintext_hash E s c = Inr h" "decrypt E s c = Inr b"
    and wr: "host_write H (abs_path (ds @ q)) b f1 = (Inr (), f')" and hm': "hm' = hash_map_insert (rel_path q) (link_hash l) h hm"
    by (auto simp: export_item_def Let_def res_simps map_err_def simp del: map_append split: sum.splits)
  have content: "fs_link E w nl [] = Some (FFile b)"
    using Data c by simp
  have "sets_paths V T {r. prefix r (ds @ butlast q)} f f1"
    using laws mk T(3) by (rule sets_dirs)
  moreover have "sets_paths V T {ds @ q} f1 f'"
    using laws wr by (rule sets_file) (simp add: T(1) content)
  ultimately have "sets_paths V T {ds @ q} f f'"
    by (rule sets_mono [OF sets_trans]) simp
  then show ?thesis
    using hm' Data content c decrypt_hash [OF c(3)] by (simp add: hashes_of_def hash_map_insert_def)
qed

lemma export_items_effect:
  assumes laws: "host_laws H V" and "distinct (map fst items)"
    and "\<And>p nl. (p, nl) \<in> set items \<Longrightarrow> \<exists>q. p = rel_path q \<and> q \<noteq> [] \<and> T (ds @ q) = fs_link E w nl [] \<and>
      fs_link E w nl [] \<noteq> None \<and> (\<forall>r. prefix r (ds @ butlast q) \<longrightarrow> T r = Some FDir)"
    and "export_items E X H w (abs_path ds) items n hm f = (Inr (n', hm'), f')"
  shows "sets_paths V T {ds @ q | q. rel_path q \<in> bt_keys items} f f' \<and> n' = n + length (filter (\<lambda>e. \<not> is_dir (snd e)) items) \<and>
    (\<forall>p h. map_of hm' p = Some h \<longleftrightarrow> (\<exists>nl. (p, nl) \<in> set items \<and> hashes_of E w nl = Some h) \<or>
       map_of hm p = Some h \<and> (\<forall>nl. (p, nl) \<in> set items \<longrightarrow> hashes_of E w nl = None))"
  using assms(2-)
proof (induction items arbitrary: n hm f)
  case Nil
  then show ?case by (auto simp: sets_refl res_simps)
next
  case (Cons e items)
  obtain p nl where e: "e = (p, nl)" by (rule prod.exhaust)
  from Cons.prems(2) [of p nl] e obtain q where q: "p = rel_path q" "q \<noteq> []" "T (ds @ q) = fs_link E w nl []"
    "fs_link E w nl [] \<noteq> None" "\<forall>r. prefix r (ds @ butlast q) \<longrightarrow> T r = Some FDir"
    by auto
  from Cons.prems(3) obtain hm1 f1 where
    one: "export_item E X H w (abs_path ds) (rel_path q, nl) hm f = (Inr hm1, f1)" and
    more: "export_items E X H w (abs_path ds) items (if is_dir nl then n else n + 1) hm1 f1 = (Inr (n', hm'), f')"
    by (auto simp: e q(1) res_simps)
  have first: "sets_paths V T {ds @ q} f f1 \<and> hm1 = (case hashes_of E w nl of None \<Rightarrow> hm | Some h \<Rightarrow> AList.update (rel_path q) h hm)"
    using laws q(2-4) q(5) [rule_format] one by (rule export_item_effect)
  have rest: "sets_paths V T {ds @ q | q. rel_path q \<in> bt_keys items} f1 f' \<and>
      n' = (if is_dir nl then n else n + 1) + length (filter (\<lambda>e. \<not> is_dir (snd e)) items) \<and>
      (\<forall>p h. map_of hm' p = Some h \<longleftrightarrow> (\<exists>nl. (p, nl) \<in> set items \<and> hashes_of E w nl = Some h) \<or>
       map_of hm1 p = Some h \<and> (\<forall>nl. (p, nl) \<in> set items \<longrightarrow> hashes_of E w nl = None))"
  proof (rule Cons.IH [OF _ _ more])
    show "distinct (map fst items)" using Cons.prems(1) by simp
    show "\<exists>q. p = rel_path q \<and> q \<noteq> [] \<and> T (ds @ q) = fs_link E w nl [] \<and>
      fs_link E w nl [] \<noteq> None \<and> (\<forall>r. prefix r (ds @ butlast q) \<longrightarrow> T r = Some FDir)" if "(p, nl) \<in> set items" for p nl
      by (rule Cons.prems(2)) (simp add: that)
  qed
  have "sets_paths V T ({ds @ q} \<union> {ds @ q | q. rel_path q \<in> bt_keys items}) f f'"
    by (rule sets_trans [OF first [THEN conjunct1] rest [THEN conjunct1]])
  moreover have "{ds @ q} \<union> {ds @ q | q. rel_path q \<in> bt_keys items} = {ds @ q | q. rel_path q \<in> bt_keys (e # items)}"
    by (auto simp: e q(1))
  moreover have "(p, nl') \<notin> set items" for nl'
    using Cons.prems(1) e by force
  then have "map_of hm' p' = Some h \<longleftrightarrow> (\<exists>nl. (p', nl) \<in> set (e # items) \<and> hashes_of E w nl = Some h) \<or>
       map_of hm p' = Some h \<and> (\<forall>nl. (p', nl) \<in> set (e # items) \<longrightarrow> hashes_of E w nl = None)" for p' h
  proof -
    have hm1: "map_of hm1 p' = (if p' = p \<and> hashes_of E w nl \<noteq> None then hashes_of E w nl else map_of hm p')"
      using first q(1) by (auto simp: update_conv split: option.splits)
    have "map_of hm' p' = Some h \<longleftrightarrow> (\<exists>nl. (p', nl) \<in> set items \<and> hashes_of E w nl = Some h) \<or>
        map_of hm1 p' = Some h \<and> (\<forall>nl. (p', nl) \<in> set items \<longrightarrow> hashes_of E w nl = None)"
      using rest by blast
    then show ?thesis
      unfolding hm1 e using \<open>\<And>nl'. (p, nl') \<notin> set items\<close> by (cases "p' = p"; cases "hashes_of E w nl") auto
  qed
  ultimately show ?case
    using rest e by simp
qed

text \<open>A readable item can only fail to be written.\<close>

lemma export_item_fails:
  assumes "link_ok E P w nl" and run: "export_item E X H w dir (p, nl) hm f = (Inl e, f')"
  shows "\<exists>msg. e = ExportIo msg"
proof (cases nl)
  case (Dir l s)
  then show ?thesis
    using run by (auto simp: export_item_def Let_def bindS_def mapS_err_def liftR_def split: prod.splits sum.splits)
next
  case (Data l s d)
  then obtain c b where "blob_get E (link_hash l) w = Inr c" "decrypt E s c = Inr b"
    using assms(1) by (auto elim: link_ok_DataE)
  then show ?thesis
    using run Data decrypt_hash [of E s c b]
    by (auto simp: export_item_def Let_def bindS_def mapS_err_def liftR_def map_err_def split: prod.splits sum.splits option.splits)
qed

lemma export_items_fail:
  assumes "\<And>p nl. (p, nl) \<in> set items \<Longrightarrow> link_ok E P w nl" and "export_items E X H w dir items n hm f = (Inl e, f')"
  shows "\<exists>msg. e = ExportIo msg"
  using assms
proof (induction items arbitrary: n hm f)
  case (Cons item items)
  obtain p nl where item: "item = (p, nl)" by (rule prod.exhaust)
  obtain r f1 where one: "export_item E X H w dir (p, nl) hm f = (r, f1)" by (rule prod.exhaust)
  show ?case
  proof (cases r)
    case (Inl e1)
    moreover have "link_ok E P w nl" using Cons.prems(1) [of p nl] item by simp
    ultimately show ?thesis
      using Cons.prems(2) export_item_fails one by (fastforce simp: item bindS_def)
  next
    case (Inr hm1)
    have rest: "link_ok E P w nl" if "(p, nl) \<in> set items" for p nl
      using Cons.prems(1) [of p nl] that by simp
    have "export_items E X H w dir items (if is_dir nl then n else n + 1) hm1 f1 = (Inl e, f')"
      using Cons.prems(2) one Inr by (simp add: item bindS_def)
    with rest show ?thesis by (rule Cons.IH)
  qed
qed (simp add: liftR_def)

text \<open>The items of a complete listing, with the tree they are laid over.\<close>

lemma listed_item:
  assumes ok: "mount_ok E (m, w)" and items: "bt_ok items" "bt_get items = listing E w [] (mi_entry m)"
    and item: "(p, nl) \<in> set items" and T: "T = overlaid ds (mount_fs E (m, w)) G"
  shows "\<exists>q. p = rel_path q \<and> q \<noteq> [] \<and> T (ds @ q) = fs_link E w nl [] \<and> fs_link E w nl [] \<noteq> None \<and>
    (\<forall>r. prefix r (ds @ butlast q) \<longrightarrow> T r = Some FDir)"
proof -
  have "listing E w [] (mi_entry m) p = Some nl"
    using bt_get_in [OF items(1), of p nl] item items(2) by simp
  then obtain q where q: "p = rel_path q" "link_at E w (mi_entry m) q = Some nl"
    by (auto simp: listing_Some)
  have fs: "mount_fs E (m, w) q = fs_link E w nl []" "fs_link E w nl [] \<noteq> None"
    using link_at_fs [OF mount_ok_tree [OF ok], of q] q(2) by (simp_all add: mount_fs_def)
  have ne: "q \<noteq> []" using q(2) by auto
  have tree: "mount_fs E (m, w) p = Some FDir" if "mount_fs E (m, w) (p @ x # r) \<noteq> None" for p x r
    using that fs_node_parent [of E w "mi_entry m" p x r] by (simp add: mount_fs_def)
  have "mount_fs E (m, w) (butlast q) = Some FDir"
    using tree [of "butlast q" "last q" "[]"] ne fs by simp
  then have "T r = Some FDir" if "prefix r (ds @ butlast q)" for r
    unfolding T using tree that by (rule overlaid_dir)
  moreover have "T (ds @ q) = fs_link E w nl []"
    unfolding T using overlaid_at [OF ne, of "mount_fs E (m, w)" ds G] fs by simp
  ultimately show ?thesis
    using q(1) ne fs(2) by blast
qed

lemma listed_hashes:
  assumes ok: "mount_ok E (m, w)" and items: "bt_ok items" "bt_get items = listing E w [] (mi_entry m)"
  shows "(\<exists>nl. (p, nl) \<in> set items \<and> hashes_of E w nl = Some hs) \<longleftrightarrow> (\<exists>ns nl b. p = rel_path ns \<and>
    mount_fs E (m, w) ns = Some (FFile b) \<and> mount_get E (abs_path ns) (m, w) = Inr nl \<and> hs = (link_hash (nl_link nl), blake3 E b))"
proof -
  have item: "(p, nl) \<in> set items \<longleftrightarrow> (\<exists>ns. p = rel_path ns \<and> link_at E w (mi_entry m) ns = Some nl)" for nl
    using bt_get_in [OF items(1), of p nl] by (simp add: items(2) listing_Some)
  have fs: "mount_fs E (m, w) ns = fs_link E w nl []" if "link_at E w (mi_entry m) ns = Some nl" for ns nl
    using link_at_fs [OF mount_ok_tree [OF ok], of ns] that by (simp add: mount_fs_def)
  have hashes: "hashes_of E w nl = Some hs \<longleftrightarrow> (\<exists>b. fs_link E w nl [] = Some (FFile b) \<and> hs = (link_hash (nl_link nl), blake3 E b))" for nl
    by (cases nl) (auto simp: hashes_of_def split: option.splits obj.splits)
  have link: "link_at E w (mi_entry m) ns = Some nl" if a: "mount_fs E (m, w) ns = Some (FFile b)" and g: "mount_get E (abs_path ns) (m, w) = Inr nl" for ns nl b
  proof -
    have "ns \<noteq> []" using a by (auto simp: mount_fs_def)
    then obtain nl' where "link_at E w (mi_entry m) ns = Some nl'"
      using link_at_exists [OF ok, of ns] a by auto
    then show ?thesis using link_at_mount_get g by fastforce
  qed
  show ?thesis (is "?l \<longleftrightarrow> ?r")
  proof
    assume ?l
    then obtain nl ns b where "p = rel_path ns" "link_at E w (mi_entry m) ns = Some nl" "fs_link E w nl [] = Some (FFile b)"
      "hs = (link_hash (nl_link nl), blake3 E b)"
      unfolding item hashes by blast
    then show ?r using fs link_at_mount_get by fastforce
  next
    assume ?r
    then obtain ns nl b where n: "p = rel_path ns" "mount_fs E (m, w) ns = Some (FFile b)" "mount_get E (abs_path ns) (m, w) = Inr nl"
      "hs = (link_hash (nl_link nl), blake3 E b)" by blast
    then have "link_at E w (mi_entry m) ns = Some nl" using link by blast
    then show ?l
      unfolding item hashes using n fs [of ns nl] by (intro exI [of _ nl]) auto
  qed
qed

lemma export_success:
  assumes laws: "host_laws H V" and ok: "mount_ok E (m, w)"
    and items: "bt_ok items" "bt_get items = listing E w [] (mi_entry m)"
    and mk: "host_create_dir_all H (abs_path ds) f = (Inr u, f0)"
    and run: "export_items E X H w (abs_path ds) items 0 [] f0 = (Inr (n, hm), f1)"
  shows "V f1 = overlaid ds (mount_fs E (m, w)) (V f) \<and> (\<forall>p hs. map_of hm p = Some hs \<longleftrightarrow> (\<exists>ns nl b. p = rel_path ns \<and>
    mount_fs E (m, w) ns = Some (FFile b) \<and> mount_get E (abs_path ns) (m, w) = Inr nl \<and> hs = (link_hash (nl_link nl), blake3 E b)))"
proof -
  let ?T = "overlaid ds (mount_fs E (m, w)) (V f)"
  have "sets_paths V ?T {q. prefix q ds} f f0"
    using laws mk by (rule sets_dirs) (simp add: overlaid_def)
  moreover have e: "sets_paths V ?T {ds @ q | q. rel_path q \<in> bt_keys items} f0 f1 \<and>
      n = 0 + length (filter (\<lambda>e. \<not> is_dir (snd e)) items) \<and>
      (\<forall>p h. map_of hm p = Some h \<longleftrightarrow> (\<exists>nl. (p, nl) \<in> set items \<and> hashes_of E w nl = Some h) \<or>
        map_of [] p = Some h \<and> (\<forall>nl. (p, nl) \<in> set items \<longrightarrow> hashes_of E w nl = None))"
    using laws bt_ok_distinct [OF items(1)] listed_item [OF ok items _ refl] run by (rule export_items_effect)
  ultimately have "sets_paths V ?T ({q. prefix q ds} \<union> {ds @ q | q. rel_path q \<in> bt_keys items}) f f1"
    by (blast intro: sets_trans)
  then obtain B where B: "{q. prefix q ds} \<union> {ds @ q | q. rel_path q \<in> bt_keys items} \<subseteq> B" "V f1 = (\<lambda>q. if q \<in> B then ?T q else V f q)"
    by (auto simp: sets_paths_def)
  have key: "rel_path q \<in> bt_keys items" if "q \<noteq> []" "mount_fs E (m, w) q \<noteq> None" for q
  proof -
    obtain nl where "link_at E w (mi_entry m) q = Some nl"
      using link_at_exists [OF ok, of q] \<open>q \<noteq> []\<close> \<open>mount_fs E (m, w) q \<noteq> None\<close> by blast
    then have "bt_get items (rel_path q) = Some nl"
      by (auto simp: items(2) listing_Some)
    then show ?thesis by (metis bt_get_None option.discI)
  qed
  have "?T q = V f q" if "q \<notin> B" for q
  proof -
    have "\<not> prefix q ds" using that B(1) by blast
    moreover have "mount_fs E (m, w) (drop (length ds) q) = None" if "prefix ds q"
    proof (rule ccontr)
      assume "mount_fs E (m, w) (drop (length ds) q) \<noteq> None"
      moreover from that obtain r where r: "q = ds @ r" by (auto elim: prefixE)
      moreover have "r \<noteq> []" using r \<open>\<not> prefix q ds\<close> by auto
      ultimately have "rel_path r \<in> bt_keys items" using key by simp
      then show False using B(1) \<open>q \<notin> B\<close> r by blast
    qed
    ultimately show ?thesis by (auto simp: overlaid_def)
  qed
  then have "V f1 = ?T" by (auto simp: B(2) fun_eq_iff)
  moreover have "map_of hm p = Some hs \<longleftrightarrow> (\<exists>nl. (p, nl) \<in> set items \<and> hashes_of E w nl = Some hs)" for p hs
    using e [THEN conjunct2, THEN conjunct2, THEN spec, THEN spec, of p hs] by simp
  ultimately show ?thesis
    unfolding listed_hashes [OF ok items] by blast
qed

text \<open>
  An export is the bucket. On a service whose head of the bucket is well-formed and uses plain names, the export request
  returns, and fails only when the host cannot write; when it succeeds, the target directory has every directory and file of the head with its content and
  everything else is as it was, the response names the head and its height, and its hash map has exactly the
  files, each with the hash of its blob and the hash of its content.
\<close>

theorem export_writes_bucket:
  assumes laws: "host_laws H V" and known: "lp_exists L (pr_log (fst s)) i = Inr True" and head: "lp_head L (pr_log (fst s)) i = Inr (l, h)"
    and load: "mount_load E l (pr_secret_key (fst s)) (snd s) = Inr m"
    and ok: "mount_ok E (m, snd s)" and names: "names_ok (mount_fs E (m, snd s))"
  shows "\<exists>k. \<forall>fuel \<ge> k. \<exists>r f'. export_handler fuel E L X H i (abs_path ds) s f = Some (r, f') \<and>
    (case r of
       Inl e \<Rightarrow> e \<in> range ExportIo
     | Inr (status, resp) \<Rightarrow> status = 200 \<and> V f' = overlaid ds (mount_fs E (m, snd s)) (V f) \<and>
         er_bucket_name resp = m_name (mi_manifest m) \<and> er_link resp = l \<and> er_height resp = h \<and>
         (\<forall>p hs. map_of (er_hash_map resp) p = Some hs \<longleftrightarrow> (\<exists>ns nl b. p = rel_path ns \<and>
            mount_fs E (m, snd s) ns = Some (FFile b) \<and> mount_get E (abs_path ns) (m, snd s) = Inr nl \<and>
            hs = (link_hash (nl_link nl), blake3 E b))))"
proof -
  let ?w = "snd s" and ?n = "mi_entry m" and ?T = "overlaid ds (mount_fs E (m, snd s)) (V f)"
  obtain k where k: "\<forall>fuel \<ge> k. \<exists>items. mount_ls_deep fuel E [RootDir] (m, ?w) = Some (Inr items) \<and> bt_ok items \<and>
      bt_get items = listing E ?w [] ?n"
    using ls_deep_tree [OF ok names] by (rule exE)
  show ?thesis
  proof (intro exI [of _ k] allI impI)
    fix fuel
    assume "k \<le> fuel"
    with k obtain items where deep: "mount_ls_deep fuel E [RootDir] (m, ?w) = Some (Inr items)"
      and items: "bt_ok items" "bt_get items = listing E ?w [] ?n" by blast
    obtain r0 f0 where mk: "host_create_dir_all H (abs_path ds) f = (r0, f0)" by (rule prod.exhaust)
    obtain r1 f1 where run: "export_items E X H ?w (abs_path ds) items 0 [] f0 = (r1, f1)" by (rule prod.exhaust)
    show "\<exists>r f'. export_handler fuel E L X H i (abs_path ds) s f = Some (r, f') \<and>
      (case r of
         Inl e \<Rightarrow> e \<in> range ExportIo
       | Inr (status, resp) \<Rightarrow> status = 200 \<and> V f' = ?T \<and> er_bucket_name resp = m_name (mi_manifest m) \<and> er_link resp = l \<and> er_height resp = h \<and>
           (\<forall>p hs. map_of (er_hash_map resp) p = Some hs \<longleftrightarrow> (\<exists>ns nl b. p = rel_path ns \<and>
              mount_fs E (m, snd s) ns = Some (FFile b) \<and> mount_get E (abs_path ns) (m, snd s) = Inr nl \<and>
              hs = (link_hash (nl_link nl), blake3 E b))))"
    proof (cases "isl r0 \<or> isl r1")
      case False
      then obtain u n hm where r: "r0 = Inr u" "r1 = Inr (n, hm)" by (cases r0; cases r1) auto
      from export_success [OF laws ok items mk [unfolded r] run [unfolded r]] show ?thesis
        by (simp add: export_handler_def known head load mk run r export_mount_to_filesystem_def deep)
    next
      case True
      have readable: "link_ok E (set (mi_pins m)) ?w nl" if "(p, nl) \<in> set items" for p nl
      proof -
        have "listing E ?w [] ?n p = Some nl" using bt_get_in [OF items(1), of p nl] that items(2) by simp
        then obtain q where "link_at E ?w ?n q = Some nl" by (auto simp: listing_Some)
        then show ?thesis
          using link_at_fs [OF mount_ok_tree [OF ok], of q] by simp
      qed
      have io: "\<exists>msg. e = ExportIo msg" if "r1 = Inl e" for e
        using readable run [unfolded that] by (rule export_items_fail)
      show ?thesis
        using True io by (cases r0; cases r1)
          (auto simp: export_handler_def known head load mk run export_mount_to_filesystem_def deep)
    qed
  qed
qed

section \<open>Witness\<close>

text \<open>A disk on which everything can be written.\<close>

definition disk :: "fs host_ext" where
  "disk = \<lparr>host_create_dir_all = (\<lambda>p f. (Inr (), \<lambda>q. if prefix q (map comp_str (tl p)) then Some FDir else f q)),
     host_write = (\<lambda>p b f. (Inr (), f(map comp_str (tl p) \<mapsto> FFile b)))\<rparr>"

lemma disk_laws: "host_laws disk (\<lambda>f. f)"
  by (simp add: host_laws_def disk_def comp_def)

lemma one_bucket_head:
  "lp_exists (sql_provider cn) (pr_log (fst one_bucket)) 0 = Inr True"
  "lp_head (sql_provider cn) (pr_log (fst one_bucket)) 0 = Inr (mi_link sync_head, 0)"
  by (simp_all add: one_bucket_def lp_head_def provider_head_def sql_provider_def sql_exists_def sql_height_def sql_heads_def sync_peer_def rows_of_def
      new_row_def list_max_def read_cid_def link_from_cid_def link_to_cid_def sync_head_def as_u64_def manifest_codec_def link_new_def)

lemma one_bucket_content:
  "mount_load api_store (mi_link sync_head) (pr_secret_key (fst one_bucket)) (snd one_bucket) = Inr sync_head"
  "mount_ok api_store (sync_head, snd one_bucket)"
  "mount_fs api_store (sync_head, snd one_bucket) = fs_empty_dir"
  "names_ok (mount_fs api_store (sync_head, snd one_bucket))"
proof -
  let ?L = "sql_provider (\<lambda>_. None)"
  show "mount_load api_store (mi_link sync_head) (pr_secret_key (fst one_bucket)) (snd one_bucket) = Inr sync_head"
    using one_bucket_mounts [of "\<lambda>_. None" 0] one_bucket_head(2) [of "\<lambda>_. None"] by (simp add: peer_mount_def)
  have "peer_mount api_store ?L 0 one_bucket = Inr sync_head"
    using one_bucket_mounts [of "\<lambda>_. None" 0] by simp
  from service_holds [OF one_bucket_ok this] show "mount_ok api_store (sync_head, snd one_bucket)"
    by (simp add: holds_bucket_def)
  show fs: "mount_fs api_store (sync_head, snd one_bucket) = fs_empty_dir"
    using fs_node_new [of api_store "snd one_bucket"] by (simp add: mount_fs_def sync_head_def node_new_def)
  show "names_ok (mount_fs api_store (sync_head, snd one_bucket))"
    by (auto simp: fs names_ok_def fs_empty_dir_def split: if_splits)
qed

lemma sample_export:
  "export_handler (Suc fuel) api_store (sql_provider cn) X disk 0 (abs_path [''c'']) one_bucket f =
     Some (Inr (200, \<lparr>er_bucket_name = ''b'', er_link = mi_link sync_head, er_height = 0, er_files_exported = 0, er_hash_map = []\<rparr>),
       \<lambda>q. if prefix q [''c''] then Some FDir else f q)"
proof -
  have "mount_ls_deep (Suc fuel) api_store [RootDir] (sync_head, snd one_bucket) = Some (Inr [])"
    by (simp add: mount_ls_deep_def mount_ls_def sync_head_def)
  moreover have "m_name (mi_manifest sync_head) = ''b''"
    by (simp add: sync_head_def sample_first_def sample_manifest_def)
  ultimately show ?thesis
    by (simp add: export_handler_def one_bucket_head one_bucket_content(1) disk_def export_mount_to_filesystem_def liftR_def)
qed

theorem export_writes_bucket_witness:
  "\<exists>fuel resp f'. export_handler fuel api_store (sql_provider (\<lambda>_. None)) sample_api disk 0 (abs_path [''c'']) one_bucket (\<lambda>_. None) =
     Some (Inr (200, resp), f') \<and> er_link resp = mi_link sync_head \<and> f' [''c''] = Some FDir"
proof -
  from export_writes_bucket [OF disk_laws one_bucket_head one_bucket_content(1,2,4), where cn1 = "\<lambda>_. None" and X = sample_api and ds = "[''c'']" and f = "\<lambda>_. None"]
  obtain k where k: "\<forall>fuel \<ge> k. \<exists>r f'. export_handler fuel api_store (sql_provider (\<lambda>_. None)) sample_api disk 0 (abs_path [''c'']) one_bucket
      (\<lambda>_. None) = Some (r, f') \<and> (case r of Inl e \<Rightarrow> e \<in> range ExportIo | Inr (status, resp) \<Rightarrow> status = 200 \<and>
         f' = overlaid [''c''] (mount_fs api_store (sync_head, snd one_bucket)) (\<lambda>_. None) \<and>
         er_bucket_name resp = m_name (mi_manifest sync_head) \<and> er_link resp = mi_link sync_head \<and> er_height resp = 0 \<and>
         (\<forall>p hs. map_of (er_hash_map resp) p = Some hs \<longleftrightarrow> (\<exists>ns nl b. p = rel_path ns \<and>
            mount_fs api_store (sync_head, snd one_bucket) ns = Some (FFile b) \<and> mount_get api_store (abs_path ns) (sync_head, snd one_bucket) = Inr nl \<and>
            hs = (link_hash (nl_link nl), blake3 api_store b))))"
    by (rule exE)
  from k [THEN spec, THEN mp, of "Suc k"] show ?thesis
    using sample_export [of k "\<lambda>_. None" sample_api "\<lambda>_. None"]
    by (intro exI [of _ "Suc k"]) (auto simp: overlaid_def)
qed

end
