(* ===== verification/Clone.thy ===== *)
theory Clone
  imports Desktop Export
begin

text \<open>
  Copies of buckets on the disk: the state of a clone (\<open>daemon/src/clone_state.rs\<close>) and the commands \<open>clone\<close> and
  \<open>sync\<close> of the command line (\<open>daemon/src/cli/ops/bucket/clone.rs\<close>, \<open>sync.rs\<close>) with the API client
  (\<open>http_server/api/client/client.rs\<close>). The daemon writes the files (theory \<open>Export\<close>), the commands keep the state in the
  directory \<open>.jax\<close> of the clone. A clone is the bucket; a later \<open>sync\<close> brings in what the new head has and
  leaves what it no longer has.
\<close>

section \<open>The state of a clone\<close>

record clone_config =
  cf_bucket_id :: uuid
  cf_bucket_name :: string
  cf_last_synced_link :: link
  cf_last_synced_height :: u64

text \<open>The file system of the host beyond what an export uses, and JSON.\<close>

record 'f clone_ext = "'f host_ext" +
  host_exists :: "path \<Rightarrow> 'f \<Rightarrow> bool"
  host_read_dir :: "path \<Rightarrow> 'f \<Rightarrow> string + (string + string) list"
  host_read :: "path \<Rightarrow> 'f \<Rightarrow> string + bytes"
  config_to_json :: "clone_config \<Rightarrow> string + bytes"
  config_from_json :: "bytes \<Rightarrow> string + clone_config"
  hash_map_to_json :: "path_hash_map \<Rightarrow> string + bytes"
  status_error :: "nat \<Rightarrow> string"

datatype clone_state_error = CloneIo string | CloneJson string | CloneNotInitialized

definition CLONE_STATE_DIR :: string where
  "CLONE_STATE_DIR = ''.jax''"

definition state_dir :: "path \<Rightarrow> path" where
  "state_dir root_dir = push root_dir (components CLONE_STATE_DIR)"

definition config_path :: "path \<Rightarrow> path" where
  "config_path root_dir = push (state_dir root_dir) (components ''config.json'')"

definition hash_map_path :: "path \<Rightarrow> path" where
  "hash_map_path root_dir = push (state_dir root_dir) (components ''hashes.json'')"

type_synonym ('f, 'a) cloning = "'f \<Rightarrow> (clone_state_error + 'a) \<times> 'f"

definition write_config :: "'f clone_ext \<Rightarrow> path \<Rightarrow> clone_config \<Rightarrow> ('f, unit) cloning" where
  "write_config C root_dir config =
     bindS (liftR (map_err CloneJson (config_to_json C config))) (\<lambda>t. mapS_err CloneIo (host_write C (config_path root_dir) t))"

definition read_config :: "'f clone_ext \<Rightarrow> path \<Rightarrow> 'f \<Rightarrow> clone_state_error + clone_config" where
  "read_config C root_dir f =
     bindR (map_err CloneIo (host_read C (config_path root_dir) f)) (\<lambda>t. map_err CloneJson (config_from_json C t))"

definition write_hash_map :: "'f clone_ext \<Rightarrow> path \<Rightarrow> path_hash_map \<Rightarrow> ('f, unit) cloning" where
  "write_hash_map C root_dir hm =
     bindS (liftR (map_err CloneJson (hash_map_to_json C hm))) (\<lambda>t. mapS_err CloneIo (host_write C (hash_map_path root_dir) t))"

definition clone_init :: "'f clone_ext \<Rightarrow> path \<Rightarrow> clone_config \<Rightarrow> ('f, unit) cloning" where
  "clone_init C root_dir config =
     bindS (mapS_err CloneIo (host_create_dir_all C (state_dir root_dir))) (\<lambda>_.
     bindS (write_config C root_dir config) (\<lambda>_. write_hash_map C root_dir []))"

definition is_initialized :: "'f clone_ext \<Rightarrow> path \<Rightarrow> 'f \<Rightarrow> bool" where
  "is_initialized C root_dir f = host_exists C (config_path root_dir) f"

definition update_sync_state :: "'f clone_ext \<Rightarrow> path \<Rightarrow> link \<Rightarrow> u64 \<Rightarrow> ('f, unit) cloning" where
  "update_sync_state C root_dir l height =
     bindS (\<lambda>f. (read_config C root_dir f, f)) (\<lambda>config.
     write_config C root_dir (config\<lparr>cf_last_synced_link := l, cf_last_synced_height := height\<rparr>))"

section \<open>The client\<close>

text \<open>A response: its status, its body as text and decoded, both of which may fail.\<close>

record 'r client_reply =
  cl_status :: nat
  cl_text :: "string + string"
  cl_json :: "string + 'r"

datatype api_error = ApiReqwest string | ApiUrlParse string | ApiHttpStatus nat string | ApiOther string

definition api_call :: "string + 'r client_reply \<Rightarrow> api_error + 'r" where
  "api_call sent =
     (case sent of
        Inl e \<Rightarrow> Inl (ApiReqwest e)
      | Inr rp \<Rightarrow>
          (if 200 \<le> cl_status rp \<and> cl_status rp < 300 then map_err ApiReqwest (cl_json rp)
           else (case cl_text rp of Inl e \<Rightarrow> Inl (ApiReqwest e) | Inr t \<Rightarrow> Inl (ApiHttpStatus (cl_status rp) t))))"

definition resolve_bucket_name ::
  "(string option \<Rightarrow> 32 word option \<Rightarrow> string + bucket_info list client_reply) \<Rightarrow> string \<Rightarrow> api_error + uuid" where
  "resolve_bucket_name send name =
     bindR (api_call (send (Some name) (Some 100))) (\<lambda>buckets.
     ok_or (ApiHttpStatus 404 (''Bucket not found: '' @ name)) (map_option bi_id (find (\<lambda>b. bi_name b = name) buckets)))"

text \<open>The export request: \<open>error_for_status\<close> refuses client and server errors only.\<close>

definition export_call ::
  "'f clone_ext \<Rightarrow> (string \<Rightarrow> 'e) \<Rightarrow> (uuid \<Rightarrow> path \<Rightarrow> 'f \<Rightarrow> (string + export_response client_reply) \<times> 'f) \<Rightarrow> uuid \<Rightarrow> path \<Rightarrow> 'f \<Rightarrow>
     ('e + export_response) \<times> 'f" where
  "export_call C err send i dir =
     bindS (mapS_err err (send i dir)) (\<lambda>rp.
     liftR (if 400 \<le> cl_status rp \<and> cl_status rp < 600 then Inl (err (status_error C (cl_status rp)))
            else map_err err (cl_json rp)))"

section \<open>Clone\<close>

datatype clone_error =
    CloneApi api_error | CloneFileIo string | CloneState clone_state_error | NoBucketIdentifier
  | DirectoryNotEmpty path | AlreadyCloned | CloneReqwest string | CloneJsonError string | CloneUrlParse string

definition prepare_directory :: "'f clone_ext \<Rightarrow> path \<Rightarrow> 'f \<Rightarrow> (clone_error + unit) \<times> 'f" where
  "prepare_directory C directory f =
     (if host_exists C directory f then
        (if is_initialized C directory f then (Inl AlreadyCloned, f)
         else
           (case host_read_dir C directory f of
              Inl e \<Rightarrow> (Inl (CloneFileIo e), f)
            | Inr es \<Rightarrow>
                (let entries = filter (\<lambda>x. x \<noteq> ''.jax'') (List.map_filter (\<lambda>e. case e of Inr x \<Rightarrow> Some x | Inl _ \<Rightarrow> None) es)
                 in (if entries \<noteq> [] then Inl (DirectoryNotEmpty directory) else Inr (), f))))
      else mapS_err CloneFileIo (host_create_dir_all C directory) f)"

definition clone_execute ::
  "'f clone_ext \<Rightarrow> 'x api_ext_scheme \<Rightarrow> (string option \<Rightarrow> 32 word option \<Rightarrow> string + bucket_info list client_reply) \<Rightarrow>
     (uuid \<Rightarrow> path \<Rightarrow> 'f \<Rightarrow> (string + export_response client_reply) \<times> 'f) \<Rightarrow> uuid option \<Rightarrow> string option \<Rightarrow> path \<Rightarrow> 'f \<Rightarrow>
     (clone_error + string) \<times> 'f" where
  "clone_execute C X send_list send_export bucket_id name directory =
     bindS (liftR (case bucket_id of
         Some i \<Rightarrow> Inr i
       | None \<Rightarrow>
           (case name of Some n \<Rightarrow> map_err CloneApi (resolve_bucket_name send_list n) | None \<Rightarrow> Inl NoBucketIdentifier))) (\<lambda>i.
     bindS (prepare_directory C directory) (\<lambda>_.
     bindS (export_call C CloneReqwest send_export i directory) (\<lambda>result.
     bindS (mapS_err CloneState (clone_init C directory \<lparr>cf_bucket_id = i, cf_bucket_name = er_bucket_name result,
         cf_last_synced_link = er_link result, cf_last_synced_height = er_height result\<rparr>)) (\<lambda>_.
     bindS (mapS_err CloneState (write_hash_map C directory (er_hash_map result))) (\<lambda>_.
     liftR (Inr (''Cloned bucket '' @ quoted (er_bucket_name result) @ '' ('' @ uuid_text X i @ '') to '' @ path_text directory @
       [CHR 0x0A] @ ''Exported '' @ decimal (er_files_exported result) @ '' files'')))))))"

section \<open>Sync\<close>

datatype sync_error =
    SyncApi api_error | SyncIo string | SyncCloneState clone_state_error | NotCloned | SyncReqwest string | SyncJson string
  | SyncUrlParse string

definition sync_execute ::
  "'f clone_ext \<Rightarrow> (uuid \<Rightarrow> path \<Rightarrow> 'f \<Rightarrow> (string + export_response client_reply) \<times> 'f) \<Rightarrow> path \<Rightarrow> 'f \<Rightarrow> (sync_error + string) \<times> 'f" where
  "sync_execute C send_export directory =
     bindS (\<lambda>f. (if is_initialized C directory f then Inr () else Inl NotCloned, f)) (\<lambda>_.
     bindS (\<lambda>f. (map_err SyncCloneState (read_config C directory f), f)) (\<lambda>old_config.
     bindS (export_call C SyncReqwest send_export (cf_bucket_id old_config) directory) (\<lambda>result.
     if er_height result = cf_last_synced_height old_config \<and> er_link result = cf_last_synced_link old_config then
       liftR (Inr (''Bucket '' @ quoted (cf_bucket_name old_config) @ '' is already up to date (height: '' @
         decimal (unat (cf_last_synced_height old_config)) @ '')''))
     else
       bindS (mapS_err SyncCloneState (update_sync_state C directory (er_link result) (er_height result))) (\<lambda>_.
       bindS (mapS_err SyncCloneState (write_hash_map C directory (er_hash_map result))) (\<lambda>_.
       liftR (Inr (''Synced bucket '' @ quoted (cf_bucket_name old_config) @ '' from height '' @
         decimal (unat (cf_last_synced_height old_config)) @ '' to height '' @ decimal (unat (er_height result)) @
         [CHR 0x0A] @ ''Updated '' @ decimal (er_files_exported result) @ '' files'')))))))"

section \<open>What is on the disk\<close>

text \<open>
  Beyond the laws of writing: what exists is there, a directory that is read without an error for one of its
  entries lists all of them, what is read is what is there, and a configuration survives JSON.
\<close>

definition clone_laws :: "'f clone_ext \<Rightarrow> ('f \<Rightarrow> fs) \<Rightarrow> bool" where
  "clone_laws C V \<longleftrightarrow> host_laws C V \<and>
     (\<forall>ns f. host_exists C (abs_path ns) f \<longrightarrow> V f ns \<noteq> None) \<and>
     (\<forall>ns f es x. host_read_dir C (abs_path ns) f = Inr es \<longrightarrow> list_all (\<lambda>e. \<not> isl e) es \<longrightarrow>
        V f (ns @ [x]) \<noteq> None \<longrightarrow> Inr x \<in> set es) \<and>
     (\<forall>ns f b. host_read C (abs_path ns) f = Inr b \<longrightarrow> V f ns = Some (FFile b)) \<and>
     (\<forall>c t. config_to_json C c = Inr t \<longrightarrow> config_from_json C t = Inr c)"

text \<open>
  The host can look at the directory: it answers that the directory exists when it does, and reads it without an error for an entry.
  \<open>exists\<close> answers no on an error, and \<open>clone\<close> passes over the entries that fail.
\<close>

definition inspectable :: "'f clone_ext \<Rightarrow> ('f \<Rightarrow> fs) \<Rightarrow> string list \<Rightarrow> 'f \<Rightarrow> bool" where
  "inspectable C V ds f \<longleftrightarrow> (V f ds \<noteq> None \<longrightarrow> host_exists C (abs_path ds) f) \<and>
     (\<forall>es. host_read_dir C (abs_path ds) f = Inr es \<longrightarrow> list_all (\<lambda>e. \<not> isl e) es)"

text \<open>The directories of a file system: whatever exists is in one.\<close>

definition tree_fs :: "fs \<Rightarrow> bool" where
  "tree_fs F \<longleftrightarrow> (\<forall>ns x. F (ns @ [x]) \<noteq> None \<longrightarrow> F ns = Some FDir)"

text \<open>What the client decodes is what the handler answered, and the daemon has written to the same disk.\<close>

definition delivers ::
  "('w, 'z) mount_ext_scheme \<Rightarrow> 'l log_provider \<Rightarrow> 'x api_ext_scheme \<Rightarrow> 'f clone_ext \<Rightarrow> ('l, 'w) peer_state \<Rightarrow>
     (uuid \<Rightarrow> path \<Rightarrow> 'f \<Rightarrow> (string + export_response client_reply) \<times> 'f) \<Rightarrow> bool" where
  "delivers E L X C s send \<longleftrightarrow>
     (\<forall>i dir f rp f' resp. send i dir f = (Inr rp, f') \<longrightarrow> cl_json rp = Inr resp \<longrightarrow> \<not> (400 \<le> cl_status rp \<and> cl_status rp < 600) \<longrightarrow>
        (\<exists>k. \<forall>fuel \<ge> k. export_handler fuel E L X (host_ext.truncate C) i dir s f = Some (Inr (cl_status rp, resp), f')))"

lemma state_paths [simp]:
  "state_dir (abs_path ds) = abs_path (ds @ [''.jax''])"
  "config_path (abs_path ds) = abs_path (ds @ [''.jax'', ''config.json''])"
  "hash_map_path (abs_path ds) = abs_path (ds @ [''.jax'', ''hashes.json''])"
proof -
  have c: "components CLONE_STATE_DIR = rel_path [''.jax'']" "components ''config.json'' = rel_path [''config.json'']"
    "components ''hashes.json'' = rel_path [''hashes.json'']"
    by (simp_all add: CLONE_STATE_DIR_def components_def part_comp_def)
  show s: "state_dir (abs_path ds) = abs_path (ds @ [''.jax''])"
    unfolding state_dir_def c by (rule push_abs_rel)
  show "config_path (abs_path ds) = abs_path (ds @ [''.jax'', ''config.json''])"
    unfolding config_path_def s c using push_abs_rel [of "ds @ [''.jax'']" "[''config.json'']"] by simp
  show "hash_map_path (abs_path ds) = abs_path (ds @ [''.jax'', ''hashes.json''])"
    unfolding hash_map_path_def s c using push_abs_rel [of "ds @ [''.jax'']" "[''hashes.json'']"] by simp
qed

lemma clone_lawsD:
  assumes "clone_laws C V"
  shows "host_laws C V" "host_exists C (abs_path ns) f \<Longrightarrow> V f ns \<noteq> None"
    "host_read_dir C (abs_path ns) f = Inr es \<Longrightarrow> list_all (\<lambda>e. \<not> isl e) es \<Longrightarrow> V f (ns @ [x]) \<noteq> None \<Longrightarrow> Inr x \<in> set es"
    "host_read C (abs_path ns) f = Inr b \<Longrightarrow> V f ns = Some (FFile b)"
    "config_to_json C c = Inr t \<Longrightarrow> config_from_json C t = Inr c"
  using assms unfolding clone_laws_def by blast+

lemma config_written:
  assumes "clone_laws C V" and "write_config C (abs_path ds) c f = (Inr u, f')"
  shows "\<exists>t. config_to_json C c = Inr t \<and> V f' = (V f)(ds @ [''.jax'', ''config.json''] \<mapsto> FFile t)"
proof -
  from assms(2) obtain t where "config_to_json C c = Inr t" "host_write C (abs_path (ds @ [''.jax'', ''config.json''])) t f = (Inr (), f')"
    by (auto simp: write_config_def res_simps map_err_def simp del: map_append split: sum.splits)
  then show ?thesis
    using host_lawsD(2) [OF clone_lawsD(1) [OF assms(1)]] by blast
qed

lemma hash_map_written:
  assumes "clone_laws C V" and "write_hash_map C (abs_path ds) hm f = (Inr u, f')"
  shows "\<exists>t. hash_map_to_json C hm = Inr t \<and> V f' = (V f)(ds @ [''.jax'', ''hashes.json''] \<mapsto> FFile t)"
proof -
  from assms(2) obtain t where "hash_map_to_json C hm = Inr t" "host_write C (abs_path (ds @ [''.jax'', ''hashes.json''])) t f = (Inr (), f')"
    by (auto simp: write_hash_map_def res_simps map_err_def simp del: map_append split: sum.splits)
  then show ?thesis
    using host_lawsD(2) [OF clone_lawsD(1) [OF assms(1)]] by blast
qed

text \<open>Reading back a configuration that was written.\<close>

lemma config_read:
  assumes "clone_laws C V" and "V f (ds @ [''.jax'', ''config.json'']) = Some (FFile t)" and "config_from_json C t = Inr c"
  shows "(\<exists>e. read_config C (abs_path ds) f = Inl (CloneIo e)) \<or> read_config C (abs_path ds) f = Inr c"
proof (cases "host_read C (abs_path (ds @ [''.jax'', ''config.json''])) f")
  case (Inr b)
  then have "b = t" using clone_lawsD(4) [OF assms(1) Inr] assms(2) by simp
  then show ?thesis using Inr assms(3) by (simp add: read_config_def map_err_def del: map_append)
qed (simp add: read_config_def map_err_def del: map_append)

text \<open>The directory before the export: nothing in it but the state of a former clone.\<close>

lemma tree_fs_below: "tree_fs F \<Longrightarrow> F (p @ q) \<noteq> None \<Longrightarrow> F p \<noteq> None"
proof (induction q rule: rev_induct)
  case (snoc x q)
  then have "F (p @ q) = Some FDir" unfolding tree_fs_def by (metis append_assoc)
  then show ?case using snoc by simp
qed simp

lemma prepared:
  assumes laws: "clone_laws C V" and tree: "tree_fs (V f)" and seen: "inspectable C V ds f" and run: "prepare_directory C (abs_path ds) f = (Inr u, f')"
  shows "(q \<noteq> [] \<and> hd q \<noteq> ''.jax'' \<longrightarrow> V f' (ds @ q) = None) \<and> (\<not> prefix r ds \<longrightarrow> V f' r = V f r)"
proof (cases "host_exists C (abs_path ds) f")
  case True
  with run obtain es where es: "host_read_dir C (abs_path ds) f = Inr es" and f': "f' = f"
    and none: "filter (\<lambda>x. x \<noteq> ''.jax'') (List.map_filter (\<lambda>e. case e of Inr x \<Rightarrow> Some x | Inl _ \<Rightarrow> None) es) = []"
    by (auto simp: prepare_directory_def Let_def split: if_splits sum.splits)
  have "V f (ds @ q) = None" if q: "q \<noteq> []" "hd q \<noteq> ''.jax''"
  proof (rule ccontr)
    assume "V f (ds @ q) \<noteq> None"
    then have "V f (ds @ [hd q]) \<noteq> None"
      using tree_fs_below [OF tree, of "ds @ [hd q]" "tl q"] q(1) by simp
    then have "Inr (hd q) \<in> set es" using clone_lawsD(3) [OF laws es] seen es unfolding inspectable_def by blast
    then have "hd q \<in> set (List.map_filter (\<lambda>e. case e of Inr x \<Rightarrow> Some x | Inl _ \<Rightarrow> None) es)"
      by (force simp: List.map_filter_def)
    then show False using none q(2) by (auto simp: filter_empty_conv)
  qed
  then show ?thesis using f' by simp
next
  case False
  then have "V f ds = None" using seen unfolding inspectable_def by blast
  then have "V f (ds @ q) = None" using tree_fs_below [OF tree] by blast
  moreover from False run obtain u' where "host_create_dir_all C (abs_path ds) f = (Inr u', f')"
    by (auto simp: prepare_directory_def res_simps)
  then have "V f' = (\<lambda>q. if prefix q ds then Some FDir else V f q)"
    by (rule host_lawsD(1) [OF clone_lawsD(1) [OF laws]])
  ultimately show ?thesis by auto
qed

text \<open>The head that is exported.\<close>

definition head_of :: "('w, 'z) mount_ext_scheme \<Rightarrow> 'l log_provider \<Rightarrow> uuid \<Rightarrow> ('l, 'w) peer_state \<Rightarrow> link \<times> u64 \<Rightarrow> mount_inner \<Rightarrow> bool" where
  "head_of E L i s v m \<longleftrightarrow> lp_exists L (pr_log (fst s)) i = Inr True \<and> lp_head L (pr_log (fst s)) i = Inr v \<and>
     mount_load E (fst v) (pr_secret_key (fst s)) (snd s) = Inr m \<and> mount_ok E (m, snd s) \<and> names_ok (mount_fs E (m, snd s)) \<and>
     mount_fs E (m, snd s) [''.jax''] = None"

text \<open>A hash map that has exactly the files, each with the hash of its blob and the hash of its content.\<close>

definition lists_files :: "('w, 'z) mount_ext_scheme \<Rightarrow> mount_inner \<times> 'w \<Rightarrow> path_hash_map \<Rightarrow> bool" where
  "lists_files E mw hm \<longleftrightarrow> (\<forall>p hs. map_of hm p = Some hs \<longleftrightarrow> (\<exists>ns nl b. p = rel_path ns \<and> mount_fs E mw ns = Some (FFile b) \<and>
     mount_get E (abs_path ns) mw = Inr nl \<and> hs = (link_hash (nl_link nl), blake3 E b)))"

lemma export_called:
  assumes laws: "clone_laws C V" and client: "delivers E L X C s send" and head: "head_of E L i s (l, h) m"
    and run: "export_call C err send i (abs_path ds) f = (Inr resp, f')"
  shows "V f' = overlaid ds (mount_fs E (m, snd s)) (V f) \<and> er_bucket_name resp = m_name (mi_manifest m) \<and> er_link resp = l \<and> er_height resp = h \<and>
    lists_files E (m, snd s) (er_hash_map resp)"
proof -
  from run obtain rp where sent: "send i (abs_path ds) f = (Inr rp, f')" "cl_json rp = Inr resp" "\<not> (400 \<le> cl_status rp \<and> cl_status rp < 600)"
    by (auto simp: export_call_def res_simps split: if_splits)
  obtain k where k: "\<forall>fuel \<ge> k. export_handler fuel E L X (host_ext.truncate C) i (abs_path ds) s f = Some (Inr (cl_status rp, resp), f')"
    using client sent unfolding delivers_def by blast
  have "host_laws (host_ext.truncate C) V"
    using clone_lawsD(1) [OF laws] by (simp add: host_laws_def host_ext.defs)
  from export_writes_bucket [OF this, of L s i l h E m X ds f] head obtain k' where
    k': "\<forall>fuel \<ge> k'. \<exists>r f'. export_handler fuel E L X (host_ext.truncate C) i (abs_path ds) s f = Some (r, f') \<and>
      (case r of Inl e \<Rightarrow> e \<in> range ExportIo
       | Inr (status, resp) \<Rightarrow> status = 200 \<and> V f' = overlaid ds (mount_fs E (m, snd s)) (V f) \<and>
           er_bucket_name resp = m_name (mi_manifest m) \<and> er_link resp = l \<and> er_height resp = h \<and>
           lists_files E (m, snd s) (er_hash_map resp))"
    unfolding head_of_def lists_files_def fst_conv by (elim conjE) blast
  show ?thesis
    using k [THEN spec, THEN mp, of "max k k'"] k' [THEN spec, THEN mp, of "max k k'"] by auto
qed

text \<open>Outside of the state directory, initialising a clone changes nothing.\<close>

lemma clone_initialised:
  assumes laws: "clone_laws C V" and init: "clone_init C (abs_path ds) c f = (Inr u, f1)"
    and wrote: "write_hash_map C (abs_path ds) hm f1 = (Inr u', f')"
  shows "(\<not> prefix r (ds @ [''.jax'']) \<and> \<not> prefix (ds @ [''.jax'']) r \<longrightarrow> V f' r = V f r) \<and> V f' ds = Some FDir \<and>
    (\<exists>t. V f' (ds @ [''.jax'', ''config.json'']) = Some (FFile t) \<and> config_from_json C t = Inr c) \<and>
    (\<exists>t. V f' (ds @ [''.jax'', ''hashes.json'']) = Some (FFile t) \<and> hash_map_to_json C hm = Inr t)"
proof -
  from init obtain u0 f2 f3 where mk: "host_create_dir_all C (abs_path (ds @ [''.jax''])) f = (Inr u0, f2)"
    and cfg: "write_config C (abs_path ds) c f2 = (Inr (), f3)" and hm0: "write_hash_map C (abs_path ds) [] f3 = (Inr u, f1)"
    by (auto simp: clone_init_def res_simps simp del: map_append)
  obtain t where t: "config_to_json C c = Inr t" "V f3 = (V f2)(ds @ [''.jax'', ''config.json''] \<mapsto> FFile t)"
    using config_written [OF laws cfg] by blast
  have V2: "V f2 = (\<lambda>q. if prefix q (ds @ [''.jax'']) then Some FDir else V f q)"
    using mk by (rule host_lawsD(1) [OF clone_lawsD(1) [OF laws]])
  obtain t1 where V1: "V f1 = (V f3)(ds @ [''.jax'', ''hashes.json''] \<mapsto> FFile t1)"
    using hash_map_written [OF laws hm0] by blast
  obtain t2 where t2: "hash_map_to_json C hm = Inr t2" and V': "V f' = (V f1)(ds @ [''.jax'', ''hashes.json''] \<mapsto> FFile t2)"
    using hash_map_written [OF laws wrote] by blast
  show ?thesis
    using clone_lawsD(5) [OF laws t(1)] t2 by (auto simp: V' V1 t(2) V2)
qed

text \<open>
  C12: a clone is the bucket. Take a head in which every name is a single path component and which has nothing called
  \<open>.jax\<close>, and an absolute directory that the host can inspect. When the command to clone the bucket into the directory succeeds,
  everything of the directory outside of its \<open>.jax\<close> is exactly the head's: the same files and
  directories, with the same contents; nothing outside of the directory has changed. The file
  \<open>.jax/config.json\<close> decodes to the bucket, its name, the head and its height, and
  \<open>.jax/hashes.json\<close> is the text of a hash map that has exactly the head's files, each with the hash of its
  blob and the hash of its content.
\<close>

theorem clone_is_bucket:
  assumes laws: "clone_laws C V" and client: "delivers E L X C s send" and head: "head_of E L i s (l, h) m"
    and tree: "tree_fs (V f)" and seen: "inspectable C V ds f"
    and run: "clone_execute C X' send_list send (Some i) nm (abs_path ds) f = (Inr out, f')"
  shows "(\<forall>q. q = [] \<or> hd q \<noteq> ''.jax'' \<longrightarrow> V f' (ds @ q) = mount_fs E (m, snd s) q) \<and>
    (\<forall>r. \<not> prefix r ds \<and> \<not> prefix ds r \<longrightarrow> V f' r = V f r) \<and>
    (\<exists>t. V f' (ds @ [''.jax'', ''config.json'']) = Some (FFile t) \<and> config_from_json C t =
       Inr \<lparr>cf_bucket_id = i, cf_bucket_name = m_name (mi_manifest m), cf_last_synced_link = l, cf_last_synced_height = h\<rparr>) \<and>
    (\<exists>hm t. V f' (ds @ [''.jax'', ''hashes.json'']) = Some (FFile t) \<and> hash_map_to_json C hm = Inr t \<and> lists_files E (m, snd s) hm)"
proof -
  from run obtain f1 f2 f3 resp where prep: "prepare_directory C (abs_path ds) f = (Inr (), f1)"
    and call: "export_call C CloneReqwest send i (abs_path ds) f1 = (Inr resp, f2)"
    and init: "clone_init C (abs_path ds) \<lparr>cf_bucket_id = i, cf_bucket_name = er_bucket_name resp,
         cf_last_synced_link = er_link resp, cf_last_synced_height = er_height resp\<rparr> f2 = (Inr (), f3)"
    and wrote: "write_hash_map C (abs_path ds) (er_hash_map resp) f3 = (Inr (), f')"
    by (auto simp: clone_execute_def res_simps)
  let ?F = "mount_fs E (m, snd s)"
  note V1 = prepared [OF laws tree seen prep]
  have V2: "V f2 = overlaid ds ?F (V f1)" and resp: "er_bucket_name resp = m_name (mi_manifest m)" "er_link resp = l" "er_height resp = h"
    and hm: "lists_files E (m, snd s) (er_hash_map resp)"
    using export_called [OF laws client head call] by blast+
  note V' = clone_initialised [OF laws init wrote]
  have "V f' (ds @ q) = ?F q" if "q = [] \<or> hd q \<noteq> ''.jax''" for q
  proof (cases "q = []")
    case True
    then show ?thesis using V' by (simp add: mount_fs_def)
  next
    case False
    then have "V f' (ds @ q) = V f2 (ds @ q)"
      using that V' [of "ds @ q"] by (cases q) auto
    moreover have "V f1 (ds @ q) = None" using V1 False that by blast
    ultimately show ?thesis using False by (auto simp: V2 overlaid_def)
  qed
  moreover have "V f' r = V f r" if "\<not> prefix r ds \<and> \<not> prefix ds r" for r
  proof -
    have "\<not> prefix r (ds @ [''.jax''])" "\<not> prefix (ds @ [''.jax'']) r"
      using that by (auto dest: append_prefixD)
    then have "V f' r = V f2 r" using V' by blast
    then show ?thesis using that V1 by (simp add: V2 overlaid_def)
  qed
  ultimately show ?thesis
    using V' [of undefined] hm unfolding resp by blast
qed

text \<open>
  A later \<open>sync\<close> brings the files of the new head into the directory and records it; files that the head no longer has,
  and changes made to files that it never had, stay.
\<close>

theorem sync_adds_head:
  assumes laws: "clone_laws C V" and client: "delivers E L X C s send" and head: "head_of E L (cf_bucket_id c) s (l, h) m"
    and old: "read_config C (abs_path ds) f = Inr c" and run: "sync_execute C send (abs_path ds) f = (Inr out, f')"
  shows "(\<forall>q. q \<noteq> [] \<and> hd q \<noteq> ''.jax'' \<longrightarrow> V f' (ds @ q) =
      (if mount_fs E (m, snd s) q \<noteq> None then mount_fs E (m, snd s) q else V f (ds @ q))) \<and>
    ((\<exists>e. read_config C (abs_path ds) f' = Inl (CloneIo e)) \<or>
     read_config C (abs_path ds) f' = Inr (c\<lparr>cf_last_synced_link := l, cf_last_synced_height := h\<rparr>))"
proof -
  let ?F = "mount_fs E (m, snd s)"
  from run old obtain resp f1 where call: "export_call C SyncReqwest send (cf_bucket_id c) (abs_path ds) f = (Inr resp, f1)"
    and rest: "(if er_height resp = cf_last_synced_height c \<and> er_link resp = cf_last_synced_link c then f' = f1
      else \<exists>f2. update_sync_state C (abs_path ds) (er_link resp) (er_height resp) f1 = (Inr (), f2) \<and>
        write_hash_map C (abs_path ds) (er_hash_map resp) f2 = (Inr (), f'))"
    by (auto simp: sync_execute_def res_simps map_err_def split: if_splits)
  have V1: "V f1 = overlaid ds ?F (V f)" and resp: "er_link resp = l" "er_height resp = h"
    using export_called [OF laws client head call] by blast+
  have below: "V f1 (ds @ q) = (if ?F q \<noteq> None then ?F q else V f (ds @ q))" if "q \<noteq> []" for q
    using that by (auto simp: V1 overlaid_def)
  have "?F (''.jax'' # q) = None" for q
    using head fs_node_parent [of E "snd s" "mi_entry m" "[''.jax'']" "hd q" "tl q"] unfolding head_of_def mount_fs_def fst_conv snd_conv
    by (cases q) (auto simp del: fs_node.simps not_None_eq)
  then have state: "V f1 (ds @ [''.jax'', x]) = V f (ds @ [''.jax'', x])" for x
    by (simp add: below)
  from old obtain b where b: "host_read C (abs_path (ds @ [''.jax'', ''config.json''])) f = Inr b" "config_from_json C b = Inr c"
    by (auto simp: read_config_def map_err_def simp del: map_append split: sum.splits)
  have cfg: "V f (ds @ [''.jax'', ''config.json'']) = Some (FFile b)" by (rule clone_lawsD(4) [OF laws b(1)])
  show ?thesis
  proof (cases "er_height resp = cf_last_synced_height c \<and> er_link resp = cf_last_synced_link c")
    case True
    then have "f' = f1" "c\<lparr>cf_last_synced_link := l, cf_last_synced_height := h\<rparr> = c" using rest resp by auto
    then show ?thesis
      using below config_read [OF laws _ b(2), of f1 ds] state [of "''config.json''"] cfg by auto
  next
    case False
    then obtain f2 c1 where c1: "read_config C (abs_path ds) f1 = Inr c1"
      and wr: "write_config C (abs_path ds) (c1\<lparr>cf_last_synced_link := l, cf_last_synced_height := h\<rparr>) f1 = (Inr (), f2)"
      and hm: "write_hash_map C (abs_path ds) (er_hash_map resp) f2 = (Inr (), f')"
      using rest resp by (auto simp: update_sync_state_def res_simps)
    have "c1 = c"
      using config_read [OF laws _ b(2), of f1 ds] state [of "''config.json''"] cfg c1 by auto
    obtain t where t: "config_to_json C (c1\<lparr>cf_last_synced_link := l, cf_last_synced_height := h\<rparr>) = Inr t"
      "V f2 = (V f1)(ds @ [''.jax'', ''config.json''] \<mapsto> FFile t)"
      using config_written [OF laws wr] by blast
    obtain t' where V': "V f' = (V f2)(ds @ [''.jax'', ''hashes.json''] \<mapsto> FFile t')"
      using hash_map_written [OF laws hm] by blast
    have "V f' (ds @ [''.jax'', ''config.json'']) = Some (FFile t)" by (simp add: V' t(2))
    then have "(\<exists>e. read_config C (abs_path ds) f' = Inl (CloneIo e)) \<or>
        read_config C (abs_path ds) f' = Inr (c\<lparr>cf_last_synced_link := l, cf_last_synced_height := h\<rparr>)"
      using config_read [OF laws _ clone_lawsD(5) [OF laws t(1)]] \<open>c1 = c\<close> by blast
    moreover have "V f' (ds @ q) = V f1 (ds @ q)" if "q \<noteq> [] \<and> hd q \<noteq> ''.jax''" for q
      using that by (auto simp: V' t(2))
    ultimately show ?thesis using below by simp
  qed
qed

section \<open>Witness\<close>

definition clone_disk :: "clone_config \<Rightarrow> fs clone_ext" where
  "clone_disk cfg = host_ext.extend disk
     \<lparr>host_exists = (\<lambda>p f. f (map comp_str (tl p)) \<noteq> None), host_read_dir = (\<lambda>p f. Inl []),
      host_read = (\<lambda>p f. case f (map comp_str (tl p)) of Some (FFile b) \<Rightarrow> Inr b | _ \<Rightarrow> Inl []),
      config_to_json = (\<lambda>c. if c = cfg then Inr [] else Inl []), config_from_json = (\<lambda>t. Inr cfg),
      hash_map_to_json = (\<lambda>hm. Inr []), status_error = (\<lambda>n. [])\<rparr>"

lemma clone_disk_laws: "clone_laws (clone_disk cfg) (\<lambda>f. f)"
  using disk_laws
  by (auto simp: clone_laws_def clone_disk_def host_ext.defs host_laws_def comp_def split: option.splits obj.splits if_splits)

lemma clone_disk_host: "host_ext.truncate (clone_disk cfg) = disk"
  by (simp add: clone_disk_def host_ext.defs)

lemma clone_disk_inspectable: "inspectable (clone_disk cfg) (\<lambda>f. f) ds f"
  by (simp add: inspectable_def clone_disk_def host_ext.defs comp_def)

text \<open>Nothing fails to be written to this disk.\<close>

lemma disk_item: "export_item E X disk w dir item hm f = (Inl e, f') \<Longrightarrow> e \<notin> range ExportIo"
  by (auto simp: export_item_def disk_def Let_def bindS_def mapS_err_def liftR_def map_err_def
      split: prod.splits sum.splits option.splits node_link.splits)

lemma disk_items: "export_items E X disk w dir items n hm f = (Inl e, f') \<Longrightarrow> e \<notin> range ExportIo"
  by (induction items arbitrary: n hm f)
    (fastforce simp: bindS_def liftR_def dest: disk_item split: prod.splits sum.splits)+

text \<open>The service after the upload of a file, and a client that waits for the answer of the handler.\<close>

definition after_upload :: "(database, sample_world) peer_state" where
  "after_upload = snd (update_handler api_store (sql_provider (\<lambda>_. None)) sample_api upload_form one_bucket)"

definition answered :: "nat \<Rightarrow> uuid \<Rightarrow> path \<Rightarrow> fs \<Rightarrow> (string + export_response client_reply) \<times> fs" where
  "answered fuel i dir f =
     (case export_handler fuel api_store (sql_provider (\<lambda>_. None)) sample_api disk i dir after_upload f of
        Some (Inr (status, resp), f') \<Rightarrow> (if i = 0 then (Inr \<lparr>cl_status = status, cl_text = Inr [], cl_json = Inr resp\<rparr>, f') else (Inl [], f))
      | _ \<Rightarrow> (Inl [], f))"

lemma sql_head_exists: "lp_head (sql_provider cn) db i = Inr v \<Longrightarrow> lp_exists (sql_provider cn) db i = Inr True"
  by (cases "rows_of i db") (auto simp: lp_head_def provider_head_def sql_provider_def sql_exists_def sql_height_def list_max_def)

lemma after_upload_head:
  obtains m where "head_of api_store (sql_provider (\<lambda>_. None)) 0 after_upload (link_new LD_CBOR_CODEC (replicate 32 19), 1) m"
    and "mount_fs api_store (m, snd after_upload) = fs_set [''f''] (fs_file [7]) fs_empty_dir"
proof -
  let ?L = "sql_provider (\<lambda>_. None)" and ?l = "link_new LD_CBOR_CODEC (replicate 32 19)"
  note fs0 = one_bucket_content(3) [unfolded snd_one_bucket]
  obtain p' s1 where "save_mount api_store ?L False sync_peer (upload_mount, upload_world) = (Inr ?l, (p', s1))"
    by (rule upload_saved)
  then have edit: "edit_bucket api_store ?L UpdateMount 0 False (update_edit api_store (components ''/f'') [7]) one_bucket =
      (Inr ((), ?l), (p', snd s1))"
    using one_bucket_mounts [of "\<lambda>_. None" 0] unfolding edit_bucket_def one_bucket_def upload_path snd_conv fst_conv
    by (simp only: simp_thms if_True sum.case prod.case upload_edits snd_conv)
  then have u: "after_upload = (p', snd s1)"
    by (simp add: after_upload_def update_handler_def bindS_def liftR_def upload_form_read Let_def upload_path [simplified] is_absolute_def)
  have path: "components ''/f'' = abs_path ([] @ [''f''])"
    using upload_path by simp
  have clear: "no_file_above [] (mount_fs api_store (sync_head, snd one_bucket))"
    by (simp add: one_bucket_content(3) no_file_above_def fs_empty_dir_def)
  have room: "room_for api_store (\<lambda>_. None) 0 one_bucket"
    by (rule one_bucket_room)
  have edits: "edits api_store (no_file_above []) (update_edit api_store (components ''/f'') [7])"
    unfolding path by (rule edits_update [OF api_store_laws])
  obtain s2 m where s2: "update_edit api_store (components ''/f'') [7] (sync_head, snd one_bucket) = (Inr (), s2)"
    and m: "holds_bucket api_store ?L 0 after_upload m" "mi_link m = ?l" "mi_height m = mi_height sync_head + 1"
      "mount_fs api_store (m, snd after_upload) = mount_fs api_store s2"
    using sql_edit_success [OF api_store_laws one_bucket_holds(2,1) room edits clear edit] unfolding u by metis
  have fs: "mount_fs api_store (m, snd after_upload) = fs_set [''f''] (fs_file [7]) fs_empty_dir"
    using update_edit_writes [OF api_store_laws one_bucket_content(2) clear] s2 m(4) path by (simp add: one_bucket_content(3))
  moreover have "mi_height sync_head = 0" by (simp add: sync_head_def)
  then have head: "lp_head ?L (pr_log (fst after_upload)) 0 = Inr (?l, 1)" and load: "peer_mount api_store ?L 0 after_upload = Inr m"
    and ok: "mount_ok api_store (m, snd after_upload)"
    using m by (simp_all add: holds_bucket_def)
  then have "mount_load api_store ?l (pr_secret_key (fst after_upload)) (snd after_upload) = Inr m"
    by (simp add: peer_mount_def)
  moreover have "names_ok (mount_fs api_store (m, snd after_upload))"
    unfolding names_ok_def
  proof (intro allI impI)
    fix ns
    assume "mount_fs api_store (m, snd after_upload) ns \<noteq> None"
    then have "ns = [] \<or> ns = [''f'']"
      by (cases ns rule: list.exhaust [case_names Nil Cons]; cases "tl ns") (auto simp: fs fs_set_def fs_file_def fs_empty_dir_def split: if_splits)
    then show "list_all one_component ns"
      using one_component_name [of "''f''"] by auto
  qed
  ultimately show ?thesis
    using head ok sql_head_exists [OF head] by (intro that) (auto simp: head_of_def fs fs_set_def fs_file_def fs_empty_dir_def)
qed

lemma listed_item_ok:
  assumes ok: "mount_ok E (m, w)" and items: "bt_ok items" "bt_get items = listing E w [] (mi_entry m)" and item: "(p, nl) \<in> set items"
  shows "link_ok E (set (mi_pins m)) w nl"
proof -
  have "listing E w [] (mi_entry m) p = Some nl" using bt_get_in [OF items(1), of p nl] item items(2) by simp
  then obtain q where "link_at E w (mi_entry m) q = Some nl" by (auto simp: listing_Some)
  then show ?thesis
    using link_at_fs [OF mount_ok_tree [OF ok], of q] by simp
qed

lemma answered_delivers:
  assumes head: "head_of api_store (sql_provider (\<lambda>_. None)) 0 after_upload (l, h) m"
  obtains k where "delivers api_store (sql_provider (\<lambda>_. None)) sample_api (clone_disk cfg) after_upload (answered k)"
    and "\<And>dir f. \<exists>resp f'. export_handler k api_store (sql_provider (\<lambda>_. None)) sample_api disk 0 (abs_path dir) after_upload f = Some (Inr (200, resp), f') \<and>
      er_bucket_name resp = m_name (mi_manifest m) \<and> er_link resp = l \<and> er_height resp = h"
proof -
  let ?L = "sql_provider (\<lambda>_. None)" and ?w = "snd after_upload"
  have ok: "mount_ok api_store (m, ?w)" "names_ok (mount_fs api_store (m, ?w))"
    and up: "lp_exists ?L (pr_log (fst after_upload)) 0 = Inr True" "lp_head ?L (pr_log (fst after_upload)) 0 = Inr (l, h)"
      "mount_load api_store l (pr_secret_key (fst after_upload)) ?w = Inr m"
    using head by (simp_all add: head_of_def)
  obtain k where k: "\<forall>fuel \<ge> k. \<exists>items. mount_ls_deep fuel api_store [RootDir] (m, ?w) = Some (Inr items) \<and> bt_ok items \<and>
      bt_get items = listing api_store ?w [] (mi_entry m)"
    using ls_deep_tree [OF ok] by blast
  then obtain items where items: "mount_ls_deep k api_store [RootDir] (m, ?w) = Some (Inr items)" "bt_ok items"
    "bt_get items = listing api_store ?w [] (mi_entry m)" by blast
  have deep: "mount_ls_deep fuel api_store [RootDir] (m, ?w) = Some (Inr items)" if "k \<le> fuel" for fuel
    using k that items bt_get_inject [of _ items] by metis
  have same: "export_handler fuel api_store ?L sample_api disk 0 dir after_upload f = export_handler k api_store ?L sample_api disk 0 dir after_upload f"
    if "k \<le> fuel" for fuel dir f
    using deep [OF that] deep [of k] by (simp add: export_handler_def up export_mount_to_filesystem_def split: prod.split sum.split)
  have "delivers api_store ?L sample_api (clone_disk cfg) after_upload (answered k)"
    unfolding delivers_def clone_disk_host
  proof (intro allI impI)
    fix i dir f rp f' resp
    assume "answered k i dir f = (Inr rp, f')" "cl_json rp = Inr resp"
    then have "i = 0" "export_handler k api_store ?L sample_api disk i dir after_upload f = Some (Inr (cl_status rp, resp), f')"
      by (auto simp: answered_def split: option.splits prod.splits sum.splits if_splits)
    then show "\<exists>k. \<forall>fuel \<ge> k. export_handler fuel api_store ?L sample_api disk i dir after_upload f = Some (Inr (cl_status rp, resp), f')"
      using same by metis
  qed
  moreover have "\<exists>resp f'. export_handler k api_store ?L sample_api disk 0 (abs_path dir) after_upload f = Some (Inr (200, resp), f') \<and>
      er_bucket_name resp = m_name (mi_manifest m) \<and> er_link resp = l \<and> er_height resp = h" for dir f
  proof -
    let ?f = "\<lambda>q. if prefix q dir then Some FDir else f q"
    obtain r f1 where run: "export_items api_store sample_api disk ?w (abs_path dir) items 0 [] ?f = (r, f1)" by (rule prod.exhaust)
    have readable: "link_ok api_store (set (mi_pins m)) ?w nl" if "(p, nl) \<in> set items" for p nl
      using listed_item_ok [OF ok(1) items(2,3) that] .
    have False if "r = Inl e" for e
    proof -
      have "\<exists>msg. e = ExportIo msg" using readable run [unfolded that] by (rule export_items_fail)
      then show False using disk_items [OF run [unfolded that]] by blast
    qed
    then obtain n hm where "r = Inr (n, hm)" by (cases r) auto
    then show ?thesis
      using run items(1) by (simp add: export_handler_def up export_mount_to_filesystem_def disk_def comp_def)
  qed
  ultimately show ?thesis by (rule that)
qed

theorem clone_is_bucket_witness:
  "\<exists>C send out f'. clone_execute C sample_api (\<lambda>_ _. Inl []) send (Some 0) None (abs_path [''c'']) (\<lambda>_. None) = (Inr out, f') \<and>
     f' [''c''] = Some FDir \<and> f' [''c'', ''f''] = Some (FFile [7]) \<and> f' [''c'', ''x''] = None"
proof -
  let ?l = "link_new LD_CBOR_CODEC (replicate 32 19)"
  obtain m where m: "head_of api_store (sql_provider (\<lambda>_. None)) 0 after_upload (?l, 1) m"
    "mount_fs api_store (m, snd after_upload) = fs_set [''f''] (fs_file [7]) fs_empty_dir"
    by (rule after_upload_head)
  define cfg where "cfg = \<lparr>cf_bucket_id = 0, cf_bucket_name = m_name (mi_manifest m), cf_last_synced_link = ?l, cf_last_synced_height = 1\<rparr>"
  obtain k where k: "delivers api_store (sql_provider (\<lambda>_. None)) sample_api (clone_disk cfg) after_upload (answered k)"
    and ex: "\<And>dir f. \<exists>resp f'. export_handler k api_store (sql_provider (\<lambda>_. None)) sample_api disk 0 (abs_path dir) after_upload f = Some (Inr (200, resp), f') \<and>
      er_bucket_name resp = m_name (mi_manifest m) \<and> er_link resp = ?l \<and> er_height resp = 1"
    by (rule answered_delivers [OF m(1), of cfg]) (rule that)
  let ?r = "clone_execute (clone_disk cfg) sample_api (\<lambda>_ _. Inl []) (answered k) (Some 0) None (abs_path [''c'']) (\<lambda>_. None)"
  let ?c = "\<lambda>q. if prefix q [''c''] then Some FDir else None"
  obtain resp f1 where e: "export_handler k api_store (sql_provider (\<lambda>_. None)) sample_api disk 0 (abs_path [''c'']) after_upload ?c = Some (Inr (200, resp), f1)"
    "er_bucket_name resp = m_name (mi_manifest m)" "er_link resp = ?l" "er_height resp = 1"
    using ex [of "[''c'']" ?c] by blast
  then have "\<exists>out f'. ?r = (Inr out, f')"
    by (simp add: clone_execute_def prepare_directory_def export_call_def answered_def clone_init_def write_config_def write_hash_map_def
        clone_disk_def disk_def host_ext.defs bindS_def liftR_def mapS_err_def map_err_def cfg_def)
  then obtain out f' where run: "?r = (Inr out, f')" by blast
  have "tree_fs (\<lambda>_. None)" by (simp add: tree_fs_def)
  note clone = clone_is_bucket [OF clone_disk_laws k m(1) this clone_disk_inspectable run]
  have "f' ([''c''] @ q) = fs_set [''f''] (fs_file [7]) fs_empty_dir q" if "q = [] \<or> hd q \<noteq> ''.jax''" for q
    using clone [THEN conjunct1, THEN spec, THEN mp, OF that] unfolding m(2) .
  from this [of "[]"] this [of "[''f'']"] this [of "[''x'']"] show ?thesis
    using run by (intro exI [of _ "clone_disk cfg"] exI [of _ "answered k"] exI [of _ out] exI [of _ f'])
      (simp add: fs_empty_dir_def fs_set_def fs_file_def)
qed

end
