(* ===== verification/App_State.thy ===== *)
theory App_State
  imports Desktop Export
begin

text \<open>
  The configuration of a node: \<open>daemon/src/state.rs\<close> (the directory with key, configuration and database), the command
  \<open>init\<close> of \<open>cli/ops/init.rs\<close>, and the PEM form of keys in \<open>crypto/keys.rs\<close>. PEM and TOML are parameters; files are
  seen as their bytes.
\<close>

section \<open>Configuration\<close>

datatype blob_store_config = Legacy | Filesystem path | S3 string

record app_config =
  ac_api_port :: "16 word"
  ac_gateway_port :: "16 word"
  ac_peer_port :: "16 word option"
  ac_blob_store :: blob_store_config

definition default_config :: app_config where
  "default_config = \<lparr>ac_api_port = 5001, ac_gateway_port = 8080, ac_peer_port = None, ac_blob_store = Legacy\<rparr>"

datatype state_error =
    NotInitialized | AlreadyInitialized | NoHomeDirectory | MissingFile string | InvalidKey string | InvalidS3Url string
  | StateIo string | TomlSer string | TomlDe string | StatePanic string

record s3_config =
  s3_endpoint :: string
  s3_access_key :: string
  s3_secret_key :: string
  s3_bucket :: string

fun split_once :: "char \<Rightarrow> string \<Rightarrow> (string \<times> string) option" where
  "split_once c [] = None"
| "split_once c (x # xs) =
     (if x = c then Some ([], xs) else (case split_once c xs of Some (a, b) \<Rightarrow> Some (x # a, b) | None \<Rightarrow> None))"

definition contains_str :: "string \<Rightarrow> string \<Rightarrow> bool" where
  "contains_str pat s = list_ex (\<lambda>i. take (length pat) (drop i s) = pat) [0..<Suc (length s)]"

definition parse_s3_url :: "string \<Rightarrow> state_error + s3_config" where
  "parse_s3_url url =
     (if take 5 url \<noteq> ''s3://'' then Inl (InvalidS3Url ''URL must start with s3://'')
      else
        bindR (ok_or (InvalidS3Url ''Missing @ separator'') (split_once (CHR ''@'') (drop 5 url))) (\<lambda>(creds, rest).
        bindR (ok_or (InvalidS3Url ''Missing : in credentials'') (split_once (CHR '':'') creds)) (\<lambda>(access_key, secret_key).
        bindR (ok_or (InvalidS3Url ''Missing / before bucket'') (split_once (CHR ''/'') rest)) (\<lambda>(endpoint, bucket).
        if bucket = [] then Inl (InvalidS3Url ''Bucket name is empty'')
        else
          (let protocol = (if contains_str ''localhost'' endpoint \<or> contains_str ''127.0.0.1'' endpoint then ''http'' else ''https'')
           in Inr \<lparr>s3_endpoint = protocol @ ''://'' @ endpoint, s3_access_key = access_key, s3_secret_key = secret_key,
                s3_bucket = bucket\<rparr>)))))"

definition mask_s3_url :: "string \<Rightarrow> string" where
  "mask_s3_url url =
     (if take 5 url = ''s3://'' then
        (case split_once (CHR ''@'') (drop 5 url) of
           Some (_, host_bucket) \<Rightarrow> ''s3://***:***@'' @ host_bucket
         | None \<Rightarrow> url)
      else url)"

section \<open>The directory of a node\<close>

record 'f state_ext = "'f host_ext" +
  sx_home_dir :: "path option"
  sx_exists :: "path \<Rightarrow> 'f \<Rightarrow> bool"
  sx_read :: "path \<Rightarrow> 'f \<Rightarrow> string + bytes"
  pem_encode :: "string \<Rightarrow> bytes \<Rightarrow> bytes"
  pem_parse :: "bytes \<Rightarrow> string + string \<times> bytes"
  to_toml :: "app_config \<Rightarrow> string + bytes"
  from_toml :: "bytes \<Rightarrow> string + app_config"
  state_key_text :: "key_error \<Rightarrow> string"

definition to_pem :: "'f state_ext \<Rightarrow> secret_key \<Rightarrow> bytes" where
  "to_pem S k = pem_encode S ''PRIVATE KEY'' k"

definition from_pem :: "'f state_ext \<Rightarrow> bytes \<Rightarrow> key_error + secret_key" where
  "from_pem S t =
     (case pem_parse S t of
        Inl e \<Rightarrow> Inl (KeyDefault (''failed to parse PEM: '' @ e))
      | Inr (tag, contents) \<Rightarrow>
          (if tag \<noteq> ''PRIVATE KEY'' then Inl (KeyDefault ''invalid PEM tag, expected PRIVATE KEY'')
           else if length contents \<noteq> PRIVATE_KEY_SIZE
           then Inl (KeyDefault (''invalid private key size in PEM, expected '' @ decimal PRIVATE_KEY_SIZE @ '', got '' @
             decimal (length contents)))
           else Inr contents))"

record app_state =
  as_jax_dir :: path
  as_db_path :: path
  as_key_path :: path
  as_blobs_path :: path
  as_config_path :: path
  as_config :: app_config

definition jax_dir :: "'f state_ext \<Rightarrow> path option \<Rightarrow> state_error + path" where
  "jax_dir S custom_path =
     (case custom_path of
        Some p \<Rightarrow> Inr p
      | None \<Rightarrow> bindR (ok_or NoHomeDirectory (sx_home_dir S)) (\<lambda>home. Inr (push home (components ''.jax''))))"

definition on_host :: "('f \<Rightarrow> (string + unit) \<times> 'f) \<Rightarrow> 'f \<times> 'w \<Rightarrow> (state_error + unit) \<times> 'f \<times> 'w" where
  "on_host g s = (case g (fst s) of (r, f') \<Rightarrow> (map_err StateIo r, f', snd s))"

definition new_key :: "('w, 'z) crypto_ext_scheme \<Rightarrow> 'f \<times> 'w \<Rightarrow> (state_error + secret_key) \<times> 'f \<times> 'w" where
  "new_key E s =
     (case secret_key_generate E (snd s) of
        (Inr k, w') \<Rightarrow> (Inr k, fst s, w')
      | (Inl (KeyPanic msg), w') \<Rightarrow> (Inl (StatePanic msg), fst s, w')
      | (Inl (KeyDefault msg), w') \<Rightarrow> (Inl (InvalidKey msg), fst s, w'))"

definition state_at :: "path \<Rightarrow> app_config \<Rightarrow> app_state" where
  "state_at dir config =
     \<lparr>as_jax_dir = dir, as_db_path = push dir (components ''db.sqlite''), as_key_path = push dir (components ''key.pem''),
      as_blobs_path = push dir (components ''blobs''), as_config_path = push dir (components ''config.toml''), as_config = config\<rparr>"

definition state_init ::
  "('w, 'z) crypto_ext_scheme \<Rightarrow> 'f state_ext \<Rightarrow> path option \<Rightarrow> app_config option \<Rightarrow> 'f \<times> 'w \<Rightarrow>
     (state_error + app_state) \<times> 'f \<times> 'w" where
  "state_init E S custom_path config =
     bindS (liftR (jax_dir S custom_path)) (\<lambda>dir.
     bindS (\<lambda>s. (if sx_exists S dir (fst s) then Inl AlreadyInitialized else Inr (), s)) (\<lambda>_.
     let conf = (case config of Some c \<Rightarrow> c | None \<Rightarrow> default_config); st = state_at dir conf in
     bindS (on_host (host_create_dir_all S dir)) (\<lambda>_.
     bindS (on_host (host_create_dir_all S (as_blobs_path st))) (\<lambda>_.
     bindS (new_key E) (\<lambda>key.
     bindS (on_host (host_write S (as_key_path st) (to_pem S key))) (\<lambda>_.
     bindS (liftR (map_err TomlSer (to_toml S conf))) (\<lambda>config_toml.
     bindS (on_host (host_write S (as_config_path st) config_toml)) (\<lambda>_.
     bindS (on_host (host_write S (as_db_path st) [])) (\<lambda>_.
     liftR (Inr st))))))))))"

definition state_load :: "'f state_ext \<Rightarrow> path option \<Rightarrow> 'f \<Rightarrow> state_error + app_state" where
  "state_load S custom_path f =
     bindR (jax_dir S custom_path) (\<lambda>dir.
     if \<not> sx_exists S dir f then Inl NotInitialized
     else
       (let st = state_at dir default_config in
        if \<not> sx_exists S (as_db_path st) f then Inl (MissingFile ''db.sqlite'')
        else if \<not> sx_exists S (as_key_path st) f then Inl (MissingFile ''key.pem'')
        else if \<not> sx_exists S (as_blobs_path st) f then Inl (MissingFile ''blobs/'')
        else if \<not> sx_exists S (as_config_path st) f then Inl (MissingFile ''config.toml'')
        else bindR (map_err StateIo (sx_read S (as_config_path st) f)) (\<lambda>config_toml.
             bindR (map_err TomlDe (from_toml S config_toml)) (\<lambda>config. Inr (state_at dir config)))))"

definition load_key :: "'f state_ext \<Rightarrow> app_state \<Rightarrow> 'f \<Rightarrow> state_error + secret_key" where
  "load_key S st f =
     bindR (map_err StateIo (sx_read S (as_key_path st) f)) (\<lambda>pem.
     map_err (\<lambda>e. InvalidKey (state_key_text S e)) (from_pem S pem))"

section \<open>Init\<close>

datatype blob_store_type = LegacyStore | FilesystemStore | S3Store

record init_args =
  ia_api_port :: "16 word"
  ia_gateway_port :: "16 word"
  ia_peer_port :: "16 word option"
  ia_blob_store :: blob_store_type
  ia_s3_url :: "string option"
  ia_blobs_path :: "path option"

datatype init_error = StateFailed state_error | MissingConfig string | InvalidPath string

definition build_blob_store_config :: "init_args \<Rightarrow> path \<Rightarrow> init_error + blob_store_config" where
  "build_blob_store_config args dir =
     (case ia_blob_store args of
        LegacyStore \<Rightarrow> Inr Legacy
      | FilesystemStore \<Rightarrow>
          (case ia_blobs_path args of
             Some p \<Rightarrow> (if \<not> is_absolute p then Inl (InvalidPath ''--blobs-path must be an absolute path'') else Inr (Filesystem p))
           | None \<Rightarrow> Inr (Filesystem (push dir (components ''blobs-store''))))
      | S3Store \<Rightarrow>
          bindR (ok_or (MissingConfig ''--s3-url required for S3 backend'') (ia_s3_url args)) (\<lambda>url.
          bindR (map_err StateFailed (parse_s3_url url)) (\<lambda>_. Inr (S3 url))))"

definition init_output :: "app_state \<Rightarrow> string" where
  "init_output st =
     (let nl = [CHR 0x0A];
          peer_port_str = (case ac_peer_port (as_config st) of Some port \<Rightarrow> decimal (unat port) | None \<Rightarrow> ''ephemeral (auto-assigned)'');
          blob_store_str = (case ac_blob_store (as_config st) of
              Legacy \<Rightarrow> ''legacy (iroh FsStore)''
            | Filesystem p \<Rightarrow> ''filesystem ('' @ path_text p @ '')''
            | S3 url \<Rightarrow> ''s3 ('' @ mask_s3_url url @ '')'')
      in ''Initialized jax directory at: '' @ path_text (as_jax_dir st) @ nl @
         ''- Database: '' @ path_text (as_db_path st) @ nl @
         ''- Key: '' @ path_text (as_key_path st) @ nl @
         ''- Blobs: '' @ path_text (as_blobs_path st) @ nl @
         ''- Config: '' @ path_text (as_config_path st) @ nl @
         ''- API port: '' @ decimal (unat (ac_api_port (as_config st))) @ nl @
         ''- Gateway port: '' @ decimal (unat (ac_gateway_port (as_config st))) @ nl @
         ''- Peer port: '' @ peer_port_str @ nl @
         ''- Blob store: '' @ blob_store_str)"

definition init_execute ::
  "('w, 'z) crypto_ext_scheme \<Rightarrow> 'f state_ext \<Rightarrow> init_args \<Rightarrow> path option \<Rightarrow> 'f \<times> 'w \<Rightarrow> (init_error + string) \<times> 'f \<times> 'w" where
  "init_execute E S args config_path =
     bindS (liftR (map_err StateFailed (jax_dir S config_path))) (\<lambda>dir.
     bindS (liftR (build_blob_store_config args dir)) (\<lambda>blob_store.
     bindS (mapS_err StateFailed (state_init E S config_path (Some \<lparr>ac_api_port = ia_api_port args, ac_gateway_port = ia_gateway_port args,
       ac_peer_port = ia_peer_port args, ac_blob_store = blob_store\<rparr>))) (\<lambda>st.
     liftR (Inr (init_output st)))))"

section \<open>What was initialised can be loaded\<close>

definition state_laws :: "'f state_ext \<Rightarrow> ('f \<Rightarrow> fs) \<Rightarrow> bool" where
  "state_laws S V \<longleftrightarrow> host_laws S V \<and>
     (\<forall>ns f. sx_exists S (abs_path ns) f \<longleftrightarrow> V f ns \<noteq> None) \<and>
     (\<forall>ns f b. sx_read S (abs_path ns) f = Inr b \<longrightarrow> V f ns = Some (FFile b)) \<and>
     (\<forall>tag b. pem_parse S (pem_encode S tag b) = Inr (tag, b)) \<and>
     (\<forall>c t. to_toml S c = Inr t \<longrightarrow> from_toml S t = Inr c)"

lemma pem_roundtrip: "state_laws S V \<Longrightarrow> length k = 32 \<Longrightarrow> from_pem S (to_pem S k) = Inr k"
  by (simp add: state_laws_def from_pem_def to_pem_def PRIVATE_KEY_SIZE_def)

lemma state_at_paths [simp]:
  "as_jax_dir (state_at d c) = d" "as_config (state_at d c) = c"
  "as_db_path (state_at (abs_path ds) c) = abs_path (ds @ [''db.sqlite''])"
  "as_key_path (state_at (abs_path ds) c) = abs_path (ds @ [''key.pem''])"
  "as_blobs_path (state_at (abs_path ds) c) = abs_path (ds @ [''blobs''])"
  "as_config_path (state_at (abs_path ds) c) = abs_path (ds @ [''config.toml''])"
proof -
  have c: "components ''db.sqlite'' = rel_path [''db.sqlite'']" "components ''key.pem'' = rel_path [''key.pem'']"
    "components ''blobs'' = rel_path [''blobs'']" "components ''config.toml'' = rel_path [''config.toml'']"
    by (simp_all add: components_def part_comp_def)
  show "as_db_path (state_at (abs_path ds) c) = abs_path (ds @ [''db.sqlite''])"
    "as_key_path (state_at (abs_path ds) c) = abs_path (ds @ [''key.pem''])"
    "as_blobs_path (state_at (abs_path ds) c) = abs_path (ds @ [''blobs''])"
    "as_config_path (state_at (abs_path ds) c) = abs_path (ds @ [''config.toml''])"
    unfolding state_at_def app_state.select_convs c by (rule push_abs_rel)+
qed (simp_all add: state_at_def)

lemma on_host_Inr: "on_host g s = (Inr u, s') \<longleftrightarrow> g (fst s) = (Inr u, fst s') \<and> snd s' = snd s"
  by (auto simp: on_host_def map_err_def prod_eq_iff split: prod.split sum.split)

lemma new_key_Inr: "new_key E s = (Inr k, s') \<longleftrightarrow> secret_key_generate E (snd s) = (Inr k, snd s') \<and> fst s' = fst s"
  by (auto simp: new_key_def prod_eq_iff split: prod.split sum.split key_error.split)

text \<open>
  A node that was initialised can be loaded. When \<open>init\<close> succeeds, loading the directory gives the same paths and
  the configuration that was asked for, and the key that is read is the one that was generated, unless a file
  cannot be read; a second \<open>init\<close> is refused and changes nothing.
\<close>

theorem init_then_load:
  assumes crypto: "crypto_laws E" and laws: "state_laws S V"
    and run: "state_init E S (Some (abs_path ds)) config (f, w) = (Inr st, (f', w'))"
  shows "st = state_at (abs_path ds) (case config of Some c \<Rightarrow> c | None \<Rightarrow> default_config) \<and>
    ((\<exists>e. state_load S (Some (abs_path ds)) f' = Inl (StateIo e)) \<or> state_load S (Some (abs_path ds)) f' = Inr st) \<and>
    (\<exists>key. secret_key_generate E w = (Inr key, w') \<and>
      ((\<exists>e. load_key S st f' = Inl (StateIo e)) \<or> load_key S st f' = Inr key)) \<and>
    state_init E S (Some (abs_path ds)) config' (f', w') = (Inl AlreadyInitialized, (f', w'))"
proof -
  let ?c = "case config of Some c \<Rightarrow> c | None \<Rightarrow> default_config"
  note host = laws [unfolded state_laws_def, THEN conjunct1]
  from run obtain f1 f2 f3 f4 key t u1 u2 u3 u4 u5 where st: "st = state_at (abs_path ds) ?c"
    and d: "host_create_dir_all S (abs_path ds) f = (Inr u1, f1)" and b: "host_create_dir_all S (abs_path (ds @ [''blobs''])) f1 = (Inr u2, f2)"
    and k: "secret_key_generate E w = (Inr key, w')" and wk: "host_write S (abs_path (ds @ [''key.pem''])) (to_pem S key) f2 = (Inr u3, f3)"
    and t: "to_toml S ?c = Inr t" and wc: "host_write S (abs_path (ds @ [''config.toml''])) t f3 = (Inr u4, f4)"
    and wd: "host_write S (abs_path (ds @ [''db.sqlite''])) [] f4 = (Inr u5, f')"
    by (auto simp: state_init_def jax_dir_def res_simps Let_def on_host_Inr new_key_Inr simp del: map_append split: if_splits)
  have V': "V f' = ((((\<lambda>q. if prefix q (ds @ [''blobs'']) then Some FDir else if prefix q ds then Some FDir else V f q)
      (ds @ [''key.pem''] \<mapsto> FFile (to_pem S key)))(ds @ [''config.toml''] \<mapsto> FFile t))(ds @ [''db.sqlite''] \<mapsto> FFile []))"
    unfolding host_lawsD(2) [OF host wd] host_lawsD(2) [OF host wc] host_lawsD(2) [OF host wk] host_lawsD(1) [OF host b]
      host_lawsD(1) [OF host d] by (rule refl)
  have stored: "sx_read S (abs_path (ds @ [''config.toml''])) f' = Inr x \<Longrightarrow> x = t"
    "sx_read S (abs_path (ds @ [''key.pem''])) f' = Inr x \<Longrightarrow> x = to_pem S key" for x
  proof -
    have read: "V f' ns = Some (FFile x)" if "sx_read S (abs_path ns) f' = Inr x" for ns
      using laws that unfolding state_laws_def by blast
    show "x = t" if "sx_read S (abs_path (ds @ [''config.toml''])) f' = Inr x"
      using read [OF that] by (simp add: V')
    show "x = to_pem S key" if "sx_read S (abs_path (ds @ [''key.pem''])) f' = Inr x"
      using read [OF that] by (simp add: V')
  qed
  have there: "sx_exists S (abs_path ns) f' \<longleftrightarrow> V f' ns \<noteq> None" for ns
    using laws unfolding state_laws_def by blast
  have "(\<exists>e. state_load S (Some (abs_path ds)) f' = Inl (StateIo e)) \<or> state_load S (Some (abs_path ds)) f' = Inr st"
  proof (cases "sx_read S (abs_path (ds @ [''config.toml''])) f'")
    case (Inr x)
    then have "from_toml S x = Inr ?c" using stored(1) t laws unfolding state_laws_def by blast
    then show ?thesis
      using Inr by (simp add: state_load_def jax_dir_def there V' st map_err_def Let_def del: map_append)
  qed (simp add: state_load_def jax_dir_def there V' map_err_def Let_def del: map_append)
  moreover have "(\<exists>e. load_key S st f' = Inl (StateIo e)) \<or> load_key S st f' = Inr key"
  proof (cases "sx_read S (abs_path (ds @ [''key.pem''])) f'")
    case (Inr x)
    then have "from_pem S x = Inr key"
      using stored(2) pem_roundtrip [OF laws] secret_key_generate_length [OF crypto k] by blast
    then show ?thesis
      using Inr by (simp add: load_key_def st map_err_def del: map_append)
  qed (simp add: load_key_def st map_err_def del: map_append)
  moreover have "state_init E S (Some (abs_path ds)) config' (f', w') = (Inl AlreadyInitialized, (f', w'))"
    using there [of ds] by (simp add: V' state_init_def jax_dir_def bindS_def liftR_def)
  ultimately show ?thesis using st k by blast
qed

section \<open>URLs of object stores\<close>

lemma split_once_append: "c \<notin> set a \<Longrightarrow> split_once c (a @ c # b) = Some (a, b)"
  by (induction a) auto

lemma split_once_Some: "split_once c s = Some (a, b) \<longleftrightarrow> s = a @ c # b \<and> c \<notin> set a"
proof
  show "split_once c s = Some (a, b) \<Longrightarrow> s = a @ c # b \<and> c \<notin> set a"
  proof (induction s arbitrary: a)
    case (Cons x s)
    show ?case
    proof (cases "x = c")
      case False
      with Cons.prems obtain a' where "split_once c s = Some (a', b)" "a = x # a'"
        by (auto split: option.splits)
      then show ?thesis using Cons.IH False by simp
    qed (use Cons.prems in simp)
  qed simp
qed (simp add: split_once_append)

text \<open>
  A URL that is accepted is put together from its parts, and what \<open>init\<close> prints of it shows neither key.
\<close>

lemma s3_url_parts:
  assumes "parse_s3_url url = Inr c"
  shows "\<exists>host. url = ''s3://'' @ s3_access_key c @ CHR '':'' # s3_secret_key c @ CHR ''@'' # host @ CHR ''/'' # s3_bucket c \<and>
    s3_endpoint c \<in> {''http://'' @ host, ''https://'' @ host} \<and> s3_bucket c \<noteq> [] \<and>
    mask_s3_url url = ''s3://***:***@'' @ host @ CHR ''/'' # s3_bucket c"
proof -
  from assms obtain creds rest host where p: "take 5 url = ''s3://''" "split_once (CHR ''@'') (drop 5 url) = Some (creds, rest)"
    "split_once (CHR '':'') creds = Some (s3_access_key c, s3_secret_key c)" "split_once (CHR ''/'') rest = Some (host, s3_bucket c)"
    "s3_endpoint c \<in> {''http://'' @ host, ''https://'' @ host}" "s3_bucket c \<noteq> []"
    by (auto simp: parse_s3_url_def res_simps Let_def split: if_splits)
  then have "drop 5 url = s3_access_key c @ CHR '':'' # s3_secret_key c @ CHR ''@'' # host @ CHR ''/'' # s3_bucket c"
    "rest = host @ CHR ''/'' # s3_bucket c"
    by (simp_all add: split_once_Some)
  moreover have "url = take 5 url @ drop 5 url" by simp
  ultimately show ?thesis
    using p by (intro exI [of _ host]) (auto simp: mask_s3_url_def)
qed

lemma s3_url_parsed:
  assumes "CHR ''@'' \<notin> set ak" "CHR '':'' \<notin> set ak" "CHR ''@'' \<notin> set sk" "CHR ''/'' \<notin> set host" "bucket \<noteq> []"
  shows "\<exists>c. parse_s3_url (''s3://'' @ ak @ CHR '':'' # sk @ CHR ''@'' # host @ CHR ''/'' # bucket) = Inr c \<and>
    s3_access_key c = ak \<and> s3_secret_key c = sk \<and> s3_bucket c = bucket"
proof -
  have "split_once (CHR ''@'') (ak @ CHR '':'' # sk @ CHR ''@'' # host @ CHR ''/'' # bucket) = Some (ak @ CHR '':'' # sk, host @ CHR ''/'' # bucket)"
    "split_once (CHR '':'') (ak @ CHR '':'' # sk) = Some (ak, sk)" "split_once (CHR ''/'') (host @ CHR ''/'' # bucket) = Some (host, bucket)"
    using assms by (simp_all add: split_once_Some)
  then show ?thesis
    using assms(5) by (simp add: parse_s3_url_def Let_def)
qed

section \<open>Witness\<close>

definition state_disk :: "fs state_ext" where
  "state_disk = host_ext.extend disk
     \<lparr>sx_home_dir = None, sx_exists = (\<lambda>p f. f (map comp_str (tl p)) \<noteq> None),
      sx_read = (\<lambda>p f. case f (map comp_str (tl p)) of Some (FFile b) \<Rightarrow> Inr b | _ \<Rightarrow> Inl []),
      pem_encode = (\<lambda>tag b. replicate (length tag) 1 @ 0 # map (\<lambda>c. of_nat (of_char c)) tag @ b),
      pem_parse = (\<lambda>t. let n = length (takeWhile (\<lambda>x. x = 1) t); r = drop (Suc n) t
        in Inr (map (\<lambda>b. char_of (unat b)) (take n r), drop n r)),
      to_toml = (\<lambda>c. if c = default_config then Inr [] else Inl []), from_toml = (\<lambda>t. Inr default_config),
      state_key_text = (\<lambda>e. [])\<rparr>"

lemma char_byte: "char_of (unat (of_nat (of_char c) :: byte)) = (c :: char)"
proof -
  have "of_char c < (256 :: nat)" by simp
  then show ?thesis by (simp add: unat_of_nat)
qed

lemma state_disk_laws: "state_laws state_disk (\<lambda>f. f)"
proof -
  have "takeWhile (\<lambda>x. x = (1 :: byte)) (replicate n 1 @ 0 # r) = replicate n 1" for n r
    by (induction n) auto
  then show ?thesis
    using disk_laws
    by (auto simp: state_laws_def state_disk_def host_ext.defs host_laws_def comp_def Let_def char_byte split: option.splits obj.splits if_splits)
qed

theorem init_then_load_witness:
  "\<exists>st f' w'. state_init (sample_crypto (\<lambda>w :: nat. (w, Suc w))) state_disk (Some (abs_path [''j''])) None (\<lambda>_. None, 0) = (Inr st, (f', w')) \<and>
     state_init (sample_crypto (\<lambda>w :: nat. (w, Suc w))) state_disk (Some (abs_path [''j''])) None (f', w') = (Inl AlreadyInitialized, (f', w'))"
proof -
  let ?r = "state_init (sample_crypto (\<lambda>w :: nat. (w, Suc w))) state_disk (Some (abs_path [''j''])) None (\<lambda>_. None, 0)"
  have "\<exists>st. fst ?r = Inr st"
    by (simp add: state_init_def jax_dir_def bindS_def liftR_def on_host_def new_key_def secret_key_generate_def sample_crypto_def
        state_disk_def disk_def host_ext.defs Let_def map_err_def)
  moreover obtain r f' w' where r: "?r = (r, (f', w'))" by (rule prod_cases3)
  ultimately obtain st where run: "?r = (Inr st, (f', w'))" by auto
  from init_then_load [OF sample_crypto_laws state_disk_laws run] show ?thesis
    using run by blast
qed

end
