(* ===== verification/Spec2Isabelle.thy ===== *)
theory Spec2Isabelle
  imports Sample File_Ops Persist Mount_Merge Bucket_Log Peer Peer_Sync Sql_Log Inode_Table Jax_Fs
    Fuse_Mounts Mount_Manager Object_Store Store_Actor Actor_Safety Store_Transfer Gateway Service Bucket_Api
    Api_Safety Desktop Desktop_Safety Mount_Api Listing Export Clone App_State
begin

text \<open>
  A verification development for JAX, a peer-to-peer encrypted file system (crates \<open>common\<close>, \<open>daemon\<close>,
  \<open>object-store\<close> and \<open>desktop\<close> under \<open>src/crates\<close>).

  A \<^emph>\<open>bucket\<close> is a tree of encrypted files with a history of versions. The tree and each version's
  \<^emph>\<open>manifest\<close> are blobs, addressed by hash, in a local store that also downloads from peers. A
  version names its root, its predecessor, its height, who may read it (\<^emph>\<open>shares\<close>), the pinned
  blobs, and a log of the file operations that led to it. A \<^emph>\<open>mount\<close> is a bucket being worked on;
  \<open>save\<close> turns it into the next version. Peers keep a \<^emph>\<open>bucket log\<close> of the versions they accepted;
  concurrent histories are merged by their operation logs.

  The theories, bottom up, with the code they model:

  \<^item> \<open>Prelude\<close>: errors as sums, the combinators for fallible and state-changing code, \<open>BTreeMap\<close> as
    sorted association lists with the laws of ordered maps (locale \<open>ordered_map\<close>).
  \<^item> \<open>Paths\<close>: \<open>std::path\<close> as the program uses it, on component lists.
  \<^item> \<open>Linked_Data\<close>: \<open>linked_data/link.rs\<close>, \<open>ipld.rs\<close>.
  \<^item> \<open>Crypto\<close>: \<open>crypto/keys.rs\<close>, \<open>secret.rs\<close>, \<open>secret_share.rs\<close>. The primitives of the external
    crates are the fields of the record \<open>crypto_ext\<close>; what their documentation promises is
    \<open>crypto_laws\<close>. Round trips of content encryption and of secret shares.
  \<^item> \<open>Manifest\<close>: \<open>mount/manifest.rs\<close>, \<open>principal.rs\<close>. Signing and verifying.
  \<^item> \<open>Node\<close>: \<open>mount/node.rs\<close>, \<open>maybe_mime.rs\<close>, \<open>pins.rs\<close>.
  \<^item> \<open>Path_Ops\<close>: \<open>mount/path_ops.rs\<close>, the operation log. It is a state-based CRDT (locale
    \<open>state_crdt\<close>): merging converges; the clock orders every new operation after the known ones.
  \<^item> \<open>Conflict\<close>: \<open>mount/conflict/*.rs\<close> and \<open>merge_with_resolver\<close>. The strategies share the contract
    \<open>conflict_resolver\<close>; what becomes of every operation under \<open>ConflictFile\<close>, which strategies forget
    operations, and when resolution agrees with the merge.
  \<^item> \<open>Blobs_Store\<close>: \<open>peer/blobs_store.rs\<close>. The store behind it (iroh-blobs) is the record
    \<open>blob_ext\<close> with the laws \<open>blob_laws\<close> (content addressing, nothing disappears).
  \<^item> \<open>Mount\<close>: \<open>mount/mount_inner.rs\<close>, reading and writing of nodes, manifests, pins and logs, the walk
    along a path, and \<open>add\<close>, \<open>rm\<close>, \<open>mkdir\<close>, \<open>mv\<close>, \<open>ls\<close>, \<open>ls_deep\<close>, \<open>cat\<close>, \<open>get\<close>.
  \<^item> \<open>Tree\<close>: the abstract file system of a mount, a map from paths to files and directories obtained
    by decrypting the tree, and what \<open>_set_node_link_at_path\<close> does to it.
  \<^item> \<open>Sample\<close>: a concrete store and codec on which the hypotheses of the theorems are evaluated.
  \<^item> \<open>File_Ops\<close>: the invariant \<open>mount_ok\<close> (every blob of the tree is stored, decrypts, and is pinned)
    and the file operations as operations on the abstract file system (locale \<open>file_operation\<close>);
    failures leave the mount unchanged, except for \<open>mv\<close>.
  \<^item> \<open>Listing\<close>: the deep listing returns and is the abstract file system.
  \<^item> \<open>Persist\<close>: \<open>init\<close>, \<open>save\<close>, \<open>load\<close>, \<open>publish\<close>, \<open>add_owner\<close>, \<open>add_mirror\<close>. What was saved is what
    owners, and mirrors of published buckets, load; versions form a signed chain.
  \<^item> \<open>Mount_Merge\<close>: \<open>find_common_ancestor\<close>, \<open>collect_ops_since\<close>, \<open>apply_resolved_state\<close>, \<open>merge_from\<close>.
  \<^item> \<open>Bucket_Log\<close>: \<open>bucket_log/provider.rs\<close> and \<open>memory.rs\<close>. The contract of a provider is the locale
    \<open>bucket_log\<close>; the in-memory provider is its instance.
  \<^item> \<open>Peer\<close>: \<open>peer/peer_inner.rs\<close>, \<open>peer/protocol/messages/ping.rs\<close>, the job types of \<open>peer/sync\<close> and the
    job queue of \<open>daemon/src/sync_provider.rs\<close>. A peer is its log, its key and its queue; the locale
    \<open>peer_log\<close> is what it needs of a log provider. Saving advances the head, reading depends on the
    role, a ping exchange makes the lower side sync.
  \<^item> \<open>Peer_Sync\<close>: \<open>peer/sync/*.rs\<close> and the worker. A sync job only appends versions that an owner of
    the preceding version signed, returns on chains that end, and catches up by one version at a
    time; the steps of a peer keep its invariant and lose nothing.
  \<^item> \<open>Sql_Log\<close>: \<open>daemon/src/database/bucket_log_provider.rs\<close>, \<open>bucket_queries.rs\<close>. The table \<open>bucket_log\<close>
    as a list of rows with its constraints, a second instance of \<open>bucket_log\<close> and \<open>peer_log\<close>; it
    refines the in-memory log and refuses forks, its heights count the versions.
  \<^item> \<open>Inode_Table\<close>: \<open>daemon/src/fuse/inode_table.rs\<close>, \<open>cache.rs\<close>. Path strings of well-formed names, the
    numbering of paths (locale \<open>path_numbers\<close>), the caches as maps from which entries may vanish.
  \<^item> \<open>Jax_Fs\<close>: \<open>daemon/src/fuse/jax_fs.rs\<close>, \<open>sync_events.rs\<close>. Every FUSE request as a step on the state of
    the file system, which contains the mount. Read-only file systems change nothing, requests keep
    the invariants of the mount and of the inode table, a flush publishes the buffer of a handle.
  \<^item> \<open>Fuse_Mounts\<close>: \<open>daemon/src/database/models/fuse_mount.rs\<close>, \<open>types/mount_status.rs\<close>. The table of mount
    configurations; what the manager relies on is the locale \<open>status_table\<close>.
  \<^item> \<open>Mount_Manager\<close>: \<open>daemon/src/fuse/mount_manager.rs\<close>. Starting, stopping, configuring and synchronising
    live mounts as a state machine over the table, the peer, the file systems and the operating
    system. The reported statuses are sound up to rows that an earlier run left as running; what a start does on every branch; a merge into a live
    mount is never recorded, and its file cache stays stale.
  \<^item> \<open>Object_Store\<close>: \<open>object-store/src/object_store.rs\<close>, \<open>storage.rs\<close>, \<open>database.rs\<close>. Blobs as objects of a bucket in
    the cloud and rows of a table; both services are the record \<open>backend_ext\<close>, any request may fail. The
    store refines a map from hashes to data, also request by request under interleavings.
  \<^item> \<open>Store_Actor\<close>: \<open>object-store/src/actor.rs\<close>. The commands of the blob protocol, the tasks the actor spawns, tags,
    idle waiters. \<open>Actor_Safety\<close> shows what any run of the actor keeps, \<open>Store_Transfer\<close> that imports are
    verified and take every complete stream, and that exports are exact.
  \<^item> \<open>Gateway\<close>: \<open>daemon/src/http_server/html/gateway/mod.rs\<close>, \<open>gateway_index.rs\<close>. The read-only web view: which version is
    shown, how URLs are rewritten, downloads.
  \<^item> \<open>Service\<close>: the shape of a change through the log of a peer (mount the head, edit, save), and what it keeps:
    locale \<open>peer_log\<close> again, for any provider.
  \<^item> \<open>Bucket_Api\<close>: \<open>daemon/src/http_server/api/v0/bucket/*.rs\<close>, every handler with its errors and responses.
    \<open>Api_Safety\<close>: on a service that owns its buckets, sequences of valid requests keep all of them mountable, refused requests move no head, an
    updated file is served; sharing with oneself as a mirror locks a bucket.
  \<^item> \<open>Desktop\<close>: \<open>desktop/src-tauri/src/commands/bucket.rs\<close>, \<open>daemon.rs\<close>. The commands of the desktop application on
    the service that runs in its process. \<open>Desktop_Safety\<close>: commands and API requests agree, sessions of
    both keep all buckets mountable, an upload is all or nothing, deleting a bucket is always refused.
  \<^item> \<open>Mount_Api\<close>: \<open>daemon/src/http_server/api/v0/mounts/*.rs\<close>, \<open>desktop/src-tauri/src/commands/mount.rs\<close>. The two
    interfaces to the mount manager; mounting a bucket at a generated place mounts its head.
  \<^item> \<open>Export\<close>: what an export leaves on the disk of the host. \<open>Clone\<close>: \<open>daemon/src/clone_state.rs\<close> and the commands of
    \<open>cli/ops/bucket/clone.rs\<close>, \<open>sync.rs\<close>; a clone is the bucket, for plain names and outside of the state in \<open>.jax\<close>; a sync adds
    the new head.
  \<^item> \<open>App_State\<close>: \<open>daemon/src/state.rs\<close>, \<open>cli/ops/init.rs\<close>. The directory of a node: what was initialised is loaded again, the
    URLs of object stores and what is printed of them.

  State and effects. A mount is the record \<open>mount_inner\<close> with the fields of \<open>MountInner\<close>, paired with
  the world \<open>'w\<close> of the external code (random numbers, blobs). An operation takes the pair and returns
  a result together with the pair it leaves, so that the effects that precede an error are part of
  the model. Locks are held for the whole of an operation here: interleavings of two calls on one
  mount are not modelled. A panic is an error value (\<open>MtPanic\<close>, \<open>KeyPanic\<close>, \<open>SecretPanic\<close>, \<open>LogPanic\<close> and
  their like) that no conversion of errors turns into another error (\<open>secret_failed\<close>, \<open>share_failed\<close>,
  \<open>log_error\<close>): it reaches the end of the request, command or job.
  \<open>u64\<close> values are 64-bit words, and their arithmetic wraps as in release builds. Log output is left
  out.

  Loops. Loops over lists are structural recursion. The loops along a chain of versions follow links
  in a store and need not end; they are \<open>partial_function (option)\<close>, and \<open>merge_from_returns\<close>,
  \<open>common_ancestor_is_latest\<close> and \<open>sync_job_returns\<close> prove that they return on chains that reach a first
  version. \<open>ls_deep\<close> takes fuel, as the depth of a tree is not bounded
  by its data; \<open>ls_deep_lists_tree\<close> proves that enough fuel gives the whole listing.

  Concurrency. A peer takes one step at a time: a job of the worker, a tick of the timer, a ping from
  another peer, a save (\<open>peer_step\<close>); the order of the steps is arbitrary. The network is a function
  argument that may answer anything.

  The mount manager likewise takes whole operations, saves and FUSE requests as steps in any order
  (\<open>manager_step\<close>). Eviction from a cache may happen between any two requests.

  The store actor handles commands one by one and its tasks end in any order; the operations of a store
  interleave at each request (\<open>interleave\<close>). Requests to the API are whole steps in any order.

  Not modelled: the transport under the protocol (iroh, bincode), the kernel side of FUSE, connections
  to the database, the HTTP framework (routing, JSON, multipart decoding), the other
  commands of the command line, the set-up of the process, and the window and tray of the desktop application.
\<close>

end
